(* ===== verification/Prelude.thy ===== *)
theory Prelude
  imports Main "HOL-Library.Word" "HOL-Library.Multiset"
begin

text \<open>
  What every component of the development shares: the fact collections the components fill and the
  proofs draw on, and the generic lemmas on lists, options and machine words that more than one
  component needs.  Nothing here is about chess.

  Conventions.  A 64-bit unsigned integer of the source is a 64-bit word, so its additions,
  subtractions and multiplications wrap exactly as they do in the program.  A C++ \<open>int\<close> that only
  holds a small index or a counter is an \<open>int\<close>; the places where its width matters say so.
\<close>

unbundle bit_operations_syntax

named_theorems bb_bits "the bits of the results of the bitboard operations"
named_theorems square_simps "facts on squares that keep indices in range"
named_theorems pos_simps "effects of the position's update operations on its fields"

section \<open>Lists\<close>

lemma find_Some_distinct:
  assumes "x \<in> set xs" "P x" "\<And>y. y \<in> set xs \<Longrightarrow> P y \<Longrightarrow> y = x"
  shows "find P xs = Some x"
proof (cases "find P xs")
  case None
  then show ?thesis using assms(1,2) by (auto simp: find_None_iff)
next
  case (Some y)
  then have "y \<in> set xs" "P y" by (auto simp: find_Some_iff)
  then show ?thesis using assms(3) Some by simp
qed

lemma find_None_iff_all: "find P xs = None \<longleftrightarrow> (\<forall>x\<in>set xs. \<not> P x)"
  by (auto simp: find_None_iff)

lemma nth_append_last: "n = length xs \<Longrightarrow> (xs @ [x]) ! n = x"
  by simp

text \<open>A check of every entry of a table against its index, evaluated entry by entry.\<close>

fun checked :: "(int \<Rightarrow> 'a \<Rightarrow> bool) \<Rightarrow> int \<Rightarrow> 'a list \<Rightarrow> bool" where
  "checked P i [] = True"
| "checked P i (x # xs) = (P i x \<and> checked P (i + 1) xs)"

lemma checked_nth:
  assumes "checked P i xs" "n < length xs"
  shows "P (i + int n) (xs ! n)"
  using assms
proof (induction xs arbitrary: i n)
  case (Cons x xs)
  show ?case
  proof (cases n)
    case (Suc m)
    have "P (i + 1 + int m) (xs ! m)" by (rule Cons.IH) (use Cons.prems Suc in auto)
    then show ?thesis using Suc by (simp add: add.assoc)
  qed (use Cons.prems in simp)
qed simp

section \<open>Words\<close>

lemma word64_eqI:
  fixes a b :: "64 word"
  assumes "\<And>n. n < 64 \<Longrightarrow> bit a n = bit b n"
  shows "a = b"
  using assms by (intro bit_word_eqI) simp

lemma word64_eq_iff:
  fixes a b :: "64 word"
  shows "a = b \<longleftrightarrow> (\<forall>n<64. bit a n = bit b n)"
  using word64_eqI by blast

lemma bit_word64_lt [dest]: "bit (w :: 64 word) n \<Longrightarrow> n < 64"
  using bit_imp_le_length [of w n] by simp

lemma word64_nonzero_iff:
  fixes a :: "64 word"
  shows "a \<noteq> 0 \<longleftrightarrow> (\<exists>n<64. bit a n)"
  by (auto simp: word64_eq_iff)

lemma bit_exp_word64 [simp]: "bit ((2 :: 64 word) ^ k) n \<longleftrightarrow> n = k \<and> n < 64"
  by (auto simp: bit_exp_iff)

lemma xor_cancel_left: "(a :: 64 word) XOR (a XOR b) = b"
  by (simp flip: xor.assoc)

lemma xor_left_commute64: "(a :: 64 word) XOR (b XOR c) = b XOR (a XOR c)"
  by (rule xor.left_commute)

lemmas xor_ac = xor.assoc xor.commute xor_left_commute64 xor_cancel_left

text \<open>A sum of shifted copies of a word that do not overlap has the bits of all of them: how the
  multiplications by a constant of the attack lookups are read.\<close>

lemma bit_shift_sum:
  fixes x :: "64 word"
  assumes "distinct ks"
    and "\<And>k l a b. k \<in> set ks \<Longrightarrow> l \<in> set ks \<Longrightarrow> k \<noteq> l \<Longrightarrow> bit x a \<Longrightarrow> bit x b \<Longrightarrow> a + k \<noteq> b + l"
  shows "bit (\<Sum>k\<leftarrow>ks. push_bit k x) n \<longleftrightarrow> n < 64 \<and> (\<exists>k\<in>set ks. k \<le> n \<and> bit x (n - k))"
  using assms
proof (induction ks arbitrary: n)
  case (Cons k ks)
  have IH: "bit (\<Sum>k\<leftarrow>ks. push_bit k x) n \<longleftrightarrow> n < 64 \<and> (\<exists>k\<in>set ks. k \<le> n \<and> bit x (n - k))" for n
    by (rule Cons.IH) (use Cons.prems in auto)
  have "\<not> (bit (push_bit k x) m \<and> bit (\<Sum>k\<leftarrow>ks. push_bit k x) m)" for m
  proof
    assume "bit (push_bit k x) m \<and> bit (\<Sum>k\<leftarrow>ks. push_bit k x) m"
    then obtain l where "k \<le> m" "bit x (m - k)" "l \<in> set ks" "l \<le> m" "bit x (m - l)"
      by (auto simp: IH bit_push_bit_iff)
    then show False using Cons.prems(2) [of k l "m - k" "m - l"] Cons.prems(1) by auto
  qed
  then have "(\<Sum>k\<leftarrow>k # ks. push_bit k x) = push_bit k x OR (\<Sum>k\<leftarrow>ks. push_bit k x)"
    by (simp add: disjunctive_add)
  then show ?case using IH by (auto simp: bit_or_iff bit_push_bit_iff)
qed simp

lemma mult_eq_shift_sum:
  fixes x m :: "64 word"
  assumes "m = (\<Sum>k\<leftarrow>ks. 2 ^ k)"
  shows "x * m = (\<Sum>k\<leftarrow>ks. push_bit k x)"
  unfolding assms by (simp add: push_bit_eq_mult sum_list_const_mult mult.commute [of x] flip: sum_list_mult_const)

end
