(* ===== verification/Bitboards.thy ===== *)
theory Bitboards
  imports Prelude
begin

text \<open>
  The bitboard component, \<open>libchess/Bitboard.h\<close>: a bitboard is the 64-bit word the class wraps, its
  operators are the word operations, and the bit scans and the loop
  \<open>while (bb) { sq = bb.forward_bitscan(); bb.forward_popbit(); ... }\<close>, which the program uses
  everywhere it visits the squares of a set, are the definitions below.  The lemmas show what the
  scans return and that the loop visits every square of the set once, in ascending order.
\<close>

section \<open>Data and operations\<close>

type_synonym bitboard = "64 word"

text \<open>\<open>Bitboard(int shift)\<close> and \<open>Bitboard(Square)\<close>: a shift outside 0..63 is undefined behaviour
  in the source and is not claimed about.\<close>

definition square_bb :: "int \<Rightarrow> bitboard" where
  "square_bb s = push_bit (nat s) 1"

text \<open>\<open>__builtin_ctzll\<close>, the index of the lowest set bit; the scan of an empty set (undefined in the
  source) gives 64 here.\<close>

function ctz_from :: "nat \<Rightarrow> bitboard \<Rightarrow> nat" where
  "ctz_from n w = (if n \<ge> 64 \<or> bit w n then n else ctz_from (Suc n) w)"
  by pat_completeness auto
termination by (relation "measure (\<lambda>(n, _). 64 - n)") auto

declare ctz_from.simps [simp del]

definition forward_bitscan :: "bitboard \<Rightarrow> int" where
  "forward_bitscan w = int (ctz_from 0 w)"

definition forward_popbit :: "bitboard \<Rightarrow> bitboard" where
  "forward_popbit w = w AND (w - 1)"

text \<open>\<open>63 - __builtin_clzll\<close>, the index of the highest set bit; -1 for the empty set.\<close>

fun clz_from :: "nat \<Rightarrow> bitboard \<Rightarrow> nat" where
  "clz_from 0 w = 0"
| "clz_from (Suc n) w = (if bit w n then 63 - n else if n = 0 then 64 else clz_from n w)"

definition reverse_bitscan :: "bitboard \<Rightarrow> int" where
  "reverse_bitscan w = 63 - int (clz_from 64 w)"

definition reverse_popbit :: "bitboard \<Rightarrow> bitboard" where
  "reverse_popbit w = w XOR square_bb (reverse_bitscan w + 1)"

definition popcount :: "bitboard \<Rightarrow> int" where
  "popcount w = int (length (filter (bit w) [0..<64]))"

section \<open>Membership\<close>

definition on_board :: "int \<Rightarrow> bool" where
  "on_board s \<longleftrightarrow> 0 \<le> s \<and> s < 64"

lemma on_boardD [square_simps]: "on_board s \<Longrightarrow> 0 \<le> s" "on_board s \<Longrightarrow> s < 64"
  by (simp_all add: on_board_def)

lemma on_board_nat [square_simps]: "on_board s \<Longrightarrow> nat s < 64"
  by (auto simp: on_board_def)

lemma bit_square_bb [simp, bb_bits]: "bit (square_bb s) n \<longleftrightarrow> n = nat s \<and> n < 64"
  by (simp add: square_bb_def)

lemma square_bb_nonzero [simp]: "on_board s \<Longrightarrow> square_bb s \<noteq> 0"
  by (auto simp: word64_nonzero_iff on_board_def)

lemma and_square_bb_eq_0 [simp]: "on_board s \<Longrightarrow> w AND square_bb s = 0 \<longleftrightarrow> \<not> bit w (nat s)"
  by (auto simp: word64_eq_iff bit_and_iff on_board_def)

lemma square_bb_and_eq_0 [simp]: "on_board s \<Longrightarrow> square_bb s AND w = 0 \<longleftrightarrow> \<not> bit w (nat s)"
  by (auto simp: word64_eq_iff bit_and_iff on_board_def)

section \<open>The scans\<close>

lemma ctz_from_spec:
  assumes "n \<le> k" "k < 64" "bit w k" "\<And>j. n \<le> j \<Longrightarrow> j < k \<Longrightarrow> \<not> bit w j"
  shows "ctz_from n w = k"
  using assms
proof (induction n w rule: ctz_from.induct)
  case (1 n w)
  show ?case
  proof (cases "bit w n")
    case True
    then have "n = k" using 1(2,5) by (metis le_neq_implies_less order_refl)
    then show ?thesis using True by (subst ctz_from.simps) simp
  next
    case False
    then have "n < k" using 1(2,4) by (metis le_neq_implies_less)
    then show ?thesis using False 1 by (subst ctz_from.simps) simp
  qed
qed

lemma lowest_bit:
  fixes w :: bitboard
  assumes "w \<noteq> 0"
  obtains k where "k < 64" "bit w k" "\<And>j. j < k \<Longrightarrow> \<not> bit w j"
proof -
  from assms have ex: "\<exists>k. bit w k" by (auto simp: word64_nonzero_iff)
  define k where "k = (LEAST k. bit w k)"
  have "bit w k" unfolding k_def using ex by (rule LeastI_ex)
  moreover have "\<not> bit w j" if "j < k" for j using that unfolding k_def by (rule not_less_Least)
  ultimately show thesis using that by blast
qed

text \<open>The scan returns the lowest member of a non-empty set.\<close>

lemma forward_bitscan_lowest:
  assumes "w \<noteq> 0"
  shows "on_board (forward_bitscan w)" and "bit w (nat (forward_bitscan w))"
    and "j < nat (forward_bitscan w) \<Longrightarrow> \<not> bit w j"
proof -
  obtain k where k: "k < 64" "bit w k" "\<And>j. j < k \<Longrightarrow> \<not> bit w j"
    using lowest_bit [OF assms] by blast
  then have "ctz_from 0 w = k" by (intro ctz_from_spec) auto
  with k show "on_board (forward_bitscan w)" "bit w (nat (forward_bitscan w))"
    "j < nat (forward_bitscan w) \<Longrightarrow> \<not> bit w j"
    by (auto simp: forward_bitscan_def on_board_def)
qed

lemma forward_bitscan_eqI:
  assumes "on_board s" "bit w (nat s)" "\<And>j. j < nat s \<Longrightarrow> \<not> bit w j"
  shows "forward_bitscan w = s"
  using assms ctz_from_spec [of 0 "nat s" w] by (auto simp: forward_bitscan_def on_board_def)

lemma forward_bitscan_square_bb [simp]: "on_board s \<Longrightarrow> forward_bitscan (square_bb s) = s"
  by (intro forward_bitscan_eqI) (auto simp: on_board_def)

lemma pred_of_lowest:
  fixes w :: bitboard
  assumes "k < 64" "bit w k" "\<And>j. j < k \<Longrightarrow> \<not> bit w j" and "n < 64"
  shows "bit (w - 1) n \<longleftrightarrow> n < k \<or> k < n \<and> bit w n"
proof -
  define hi where "hi = w AND NOT (mask (Suc k))"
  have "w = hi OR 2 ^ k"
    by (rule word64_eqI)
      (use assms in \<open>auto simp: hi_def bit_simps less_Suc_eq not_less_eq intro: le_neq_implies_less leI\<close>)
  also have "\<dots> = hi + 2 ^ k"
    by (rule disjunctive_add [symmetric]) (auto simp: hi_def bit_simps)
  finally have "w - 1 = hi + mask k" by (simp add: mask_eq_exp_minus_1)
  also have "\<dots> = hi OR mask k"
    by (rule disjunctive_add) (auto simp: hi_def bit_simps)
  finally show ?thesis using assms(4) by (auto simp: hi_def bit_simps not_less_eq)
qed

lemma bit_forward_popbit [bb_bits]:
  "bit (forward_popbit w) n \<longleftrightarrow> bit w n \<and> int n \<noteq> forward_bitscan w"
proof (cases "w = 0")
  case False
  then obtain k where k: "k < 64" "bit w k" "\<And>j. j < k \<Longrightarrow> \<not> bit w j"
    using lowest_bit by blast
  then have "forward_bitscan w = int k" by (intro forward_bitscan_eqI) (auto simp: on_board_def)
  moreover have "bit (forward_popbit w) n \<longleftrightarrow> bit w n \<and> (n < k \<or> k < n \<and> bit w n)" if "n < 64"
    using pred_of_lowest [OF k that] by (simp add: forward_popbit_def bit_and_iff)
  ultimately show ?thesis using k(3) bit_word64_lt [of w n] bit_word64_lt [of "forward_popbit w" n]
    by (metis linorder_neqE_nat of_nat_eq_iff)
qed (simp add: forward_popbit_def)

lemma forward_popbit_less: "w \<noteq> 0 \<Longrightarrow> unat (forward_popbit w) < unat w"
proof -
  assume "w \<noteq> 0"
  have "forward_popbit w \<le> w - 1" by (simp add: forward_popbit_def word_and_le1)
  also have "w - 1 < w" using \<open>w \<noteq> 0\<close>
    by (simp add: word_less_nat_alt unat_minus_one unat_gt_0)
  finally show ?thesis by (simp add: word_less_nat_alt)
qed

section \<open>The scan-and-pop loop\<close>

text \<open>
  The squares the loop visits, in the order it visits them.  A loop of the source with body \<open>f\<close> is
  \<open>fold f (bb_squares bb)\<close>, or a \<open>concat (map ...)\<close> when the body only appends moves.
\<close>

function bb_squares :: "bitboard \<Rightarrow> int list" where
  "bb_squares w = (if w = 0 then [] else forward_bitscan w # bb_squares (forward_popbit w))"
  by pat_completeness auto
termination by (relation "measure unat") (simp_all add: forward_popbit_less)

declare bb_squares.simps [simp del]

lemma bb_squares_0 [simp]: "bb_squares 0 = []"
  by (subst bb_squares.simps) simp

lemma set_bb_squares: "set (bb_squares w) = {s. on_board s \<and> bit w (nat s)}"
proof (induction w rule: bb_squares.induct)
  case (1 w)
  show ?case
  proof (cases "w = 0")
    case False
    note f = forward_bitscan_lowest(1,2) [OF False]
    have "set (bb_squares w) = insert (forward_bitscan w) {s. on_board s \<and> bit (forward_popbit w) (nat s)}"
      by (subst bb_squares.simps) (use 1 False in simp)
    also have "\<dots> = {s. on_board s \<and> bit w (nat s)}"
      using f by (auto simp: bit_forward_popbit on_board_def)
    finally show ?thesis .
  qed (simp)
qed

lemma mem_bb_squares [simp]: "s \<in> set (bb_squares w) \<longleftrightarrow> on_board s \<and> bit w (nat s)"
  by (simp add: set_bb_squares)

lemma bb_squares_ascending: "sorted_wrt (<) (bb_squares w)"
proof (induction w rule: bb_squares.induct)
  case (1 w)
  show ?case
  proof (cases "w = 0")
    case False
    have "forward_bitscan w < s" if "s \<in> set (bb_squares (forward_popbit w))" for s
    proof -
      from that have s: "on_board s" "bit w (nat s)" "s \<noteq> forward_bitscan w"
        by (auto simp: bit_forward_popbit on_board_def)
      then have "\<not> nat s < nat (forward_bitscan w)"
        using forward_bitscan_lowest(3) [OF False] by blast
      then show ?thesis using s by (auto simp: on_board_def)
    qed
    then show ?thesis by (subst bb_squares.simps) (use 1 False in simp)
  qed (simp)
qed

lemma distinct_bb_squares [simp]: "distinct (bb_squares w)"
  using bb_squares_ascending strict_sorted_iff by blast

lemma bb_squares_unique:
  assumes "sorted_wrt (<) xs" "set xs = {s. on_board s \<and> bit w (nat s)}"
  shows "bb_squares w = xs"
  using assms bb_squares_ascending [of w]
  by (intro strict_sorted_equal) (auto simp: set_bb_squares)

lemma bb_squares_eq_filter: "bb_squares w = filter (\<lambda>s. bit w (nat s)) [0..63]"
  by (rule bb_squares_unique)
    (auto simp: on_board_def sorted_wrt_filter intro: sorted_wrt_filter)

lemma popcount_eq_length: "popcount w = int (length (bb_squares w))"
proof -
  have "bb_squares w = map int (filter (bit w) [0..<64])"
    by (rule bb_squares_unique) (auto simp: sorted_wrt_map on_board_def image_iff sorted_wrt_filter
        intro!: sorted_wrt_filter exI [of _ "nat _"])
  then show ?thesis by (simp add: popcount_def)
qed

section \<open>Properties\<close>

text \<open>The scan-and-pop loop visits exactly the squares of the set, each once, in
  ascending order, and \<open>popcount\<close> is the number of its iterations.\<close>

theorem scan_pop_loop_enumerates:
  "bb_squares w = filter (\<lambda>s. bit w (nat s)) [0..63] \<and> popcount w = int (length (bb_squares w))"
  by (simp add: bb_squares_eq_filter popcount_eq_length)

lemma clz_from_keeps:
  assumes "\<And>j. n \<le> j \<Longrightarrow> j < 64 \<Longrightarrow> \<not> bit w j" "w \<noteq> 0" "n \<le> 64"
  shows "clz_from n w < 64" "bit w (63 - clz_from n w)" "\<And>j. 63 - clz_from n w < j \<Longrightarrow> \<not> bit w j"
proof -
  have "clz_from n w < 64 \<and> bit w (63 - clz_from n w) \<and> (\<forall>j. 63 - clz_from n w < j \<longrightarrow> \<not> bit w j)"
    using assms
  proof (induction n)
    case 0
    then show ?case by (auto simp: word64_nonzero_iff)
  next
    case (Suc n)
    show ?case
    proof (cases "bit w n")
      case True
      moreover have "n \<le> 63" using Suc.prems(3) by simp
      moreover have "\<not> bit w j" if "n < j" for j
        using Suc.prems(1) [of j] bit_word64_lt [of w j] that by (cases "j < 64") auto
      ultimately show ?thesis by (simp add: diff_diff_cancel)
    next
      case False
      then have n: "\<not> bit w j" if "n \<le> j" "j < 64" for j
        using Suc.prems(1) that by (metis Suc_leI le_neq_implies_less)
      then have "n \<noteq> 0" using Suc.prems(2) by (metis le0 word64_nonzero_iff)
      then show ?thesis using False Suc.IH [OF n Suc.prems(2)] Suc.prems(3) by simp
    qed
  qed
  then show "clz_from n w < 64" "bit w (63 - clz_from n w)" "\<And>j. 63 - clz_from n w < j \<Longrightarrow> \<not> bit w j"
    by blast+
qed

text \<open>The scan from the top returns the highest member.\<close>

lemma reverse_bitscan_highest:
  assumes "w \<noteq> 0"
  shows "on_board (reverse_bitscan w)" "bit w (nat (reverse_bitscan w))"
    "nat (reverse_bitscan w) < j \<Longrightarrow> \<not> bit w j"
proof -
  note H = clz_from_keeps [of 64 w, OF _ assms, simplified]
  have n: "nat (reverse_bitscan w) = 63 - clz_from 64 w"
    using H(1) by (simp add: reverse_bitscan_def)
  show "on_board (reverse_bitscan w)" using H(1) by (simp add: reverse_bitscan_def on_board_def)
  show "bit w (nat (reverse_bitscan w))" "nat (reverse_bitscan w) < j \<Longrightarrow> \<not> bit w j"
    unfolding n using H(2,3) by blast+
qed

text \<open>\<open>reverse_popbit\<close> does not remove the square that \<open>reverse_bitscan\<close> returns: it
  flips the bit one above it, so a loop over \<open>reverse_bitscan\<close> and \<open>reverse_popbit\<close> would see a
  higher square next.\<close>

theorem reverse_popbit_keeps_highest:
  assumes "w \<noteq> 0" "reverse_bitscan w < 63"
  shows "bit (reverse_popbit w) (nat (reverse_bitscan w)) \<and>
    bit (reverse_popbit w) (nat (reverse_bitscan w) + 1)"
proof -
  note H = reverse_bitscan_highest [OF assms(1)]
  have "nat (reverse_bitscan w + 1) = nat (reverse_bitscan w) + 1"
    using H(1) by (simp add: on_board_def nat_add_distrib)
  then show ?thesis using H(1,2) H(3) [of "nat (reverse_bitscan w) + 1"] assms(2)
    by (simp add: reverse_popbit_def bit_xor_iff on_board_def)
qed

theorem reverse_popbit_keeps_highest_witness:
  "bit (reverse_popbit (square_bb 5)) (nat (reverse_bitscan (square_bb 5))) \<and>
    bit (reverse_popbit (square_bb 5)) (nat (reverse_bitscan (square_bb 5)) + 1)"
proof (rule reverse_popbit_keeps_highest)
  show "square_bb 5 \<noteq> 0" by (simp add: on_board_def)
  have "bit (square_bb 5) (nat (reverse_bitscan (square_bb 5)))"
    by (rule reverse_bitscan_highest(2)) (simp add: on_board_def)
  then show "reverse_bitscan (square_bb 5) < 63" by auto
qed

end
