(* ===== verification/Board_Types.thy ===== *)
theory Board_Types
  imports Bitboards "HOL-Library.Char_ord"
begin

text \<open>
  The small value types of the board: \<open>libchess/internal/MetaValueType.h\<close>, \<open>Color.h\<close>, \<open>File.h\<close>,
  \<open>Rank.h\<close>, \<open>Square.h\<close>, \<open>PieceType.h\<close> and \<open>Piece.h\<close>.  Colours and piece types are enumerations and
  become datatypes, with the integer the source stores recovered by \<open>color_value\<close> and \<open>pt_value\<close>;
  files, ranks and squares are the integers the source computes with.
\<close>

section \<open>The integer wrapper\<close>

text \<open>
  \<open>MetaValueType<T>\<close> holds one integer.  Its updating operators return a value and change the
  object: each is modelled as the pair of what it returns and the new contents.  Note that \<open>+=\<close>
  and \<open>-=\<close> return the old value.
\<close>

definition meta_add_assign :: "int \<Rightarrow> int \<Rightarrow> int \<times> int" where
  "meta_add_assign v x = (let ret = v in (ret, v + x))"

definition meta_sub_assign :: "int \<Rightarrow> int \<Rightarrow> int \<times> int" where
  "meta_sub_assign v x = (let ret = v in (ret, v - x))"

definition meta_pre_inc :: "int \<Rightarrow> int \<times> int" where
  "meta_pre_inc v = (let v' = v + 1 in (v', v'))"

definition meta_post_inc :: "int \<Rightarrow> int \<times> int" where
  "meta_post_inc v = (let ret = v in (ret, v + 1))"

definition meta_pre_dec :: "int \<Rightarrow> int \<times> int" where
  "meta_pre_dec v = (let v' = v - 1 in (v', v'))"

definition meta_post_dec :: "int \<Rightarrow> int \<times> int" where
  "meta_post_dec v = (let ret = v in (ret, v - 1))"

section \<open>Characters\<close>

text \<open>\<open>s[i]\<close> of a \<open>std::string\<close>: the terminating NUL at the end (past it is undefined).\<close>

definition str_at :: "string \<Rightarrow> nat \<Rightarrow> char" where
  "str_at s i = (if i < length s then s ! i else CHR 0x00)"

definition char_plus :: "char \<Rightarrow> int \<Rightarrow> char" where
  "char_plus c v = char_of (nat ((of_char c + v) mod 256))"

definition is_upper :: "char \<Rightarrow> bool" where
  "is_upper c \<longleftrightarrow> CHR ''A'' \<le> c \<and> c \<le> CHR ''Z''"

definition is_lower :: "char \<Rightarrow> bool" where
  "is_lower c \<longleftrightarrow> CHR ''a'' \<le> c \<and> c \<le> CHR ''z''"

definition to_upper :: "char \<Rightarrow> char" where
  "to_upper c = (if is_lower c then char_plus c (-32) else c)"

definition to_lower :: "char \<Rightarrow> char" where
  "to_lower c = (if is_upper c then char_plus c 32 else c)"

section \<open>Colours\<close>

datatype color = WHITE | BLACK

definition color_value :: "color \<Rightarrow> int" where
  "color_value c = (case c of WHITE \<Rightarrow> 0 | BLACK \<Rightarrow> 1)"

definition opp :: "color \<Rightarrow> color" where
  "opp c = (case c of WHITE \<Rightarrow> BLACK | BLACK \<Rightarrow> WHITE)"

definition color_to_char :: "color \<Rightarrow> char" where
  "color_to_char c = (case c of WHITE \<Rightarrow> CHR ''w'' | BLACK \<Rightarrow> CHR ''b'')"

definition color_from :: "char \<Rightarrow> color option" where
  "color_from c =
     (if c = CHR ''w'' then Some WHITE
      else if c = CHR ''b'' then Some BLACK
      else if c = CHR ''W'' then Some WHITE
      else if c = CHR ''B'' then Some BLACK
      else None)"

definition COLORS :: "color list" where
  "COLORS = [WHITE, BLACK]"

lemma all_color: "(\<forall>c. P c) \<longleftrightarrow> P WHITE \<and> P BLACK"
  by (metis color.exhaust)

lemma ex_color: "(\<exists>c. P c) \<longleftrightarrow> P WHITE \<or> P BLACK"
  by (metis color.exhaust)

instantiation color :: enum
begin

definition enum_color :: "color list" where
  "enum_color = [WHITE, BLACK]"

definition enum_all_color :: "(color \<Rightarrow> bool) \<Rightarrow> bool" where
  "enum_all_color P \<longleftrightarrow> P WHITE \<and> P BLACK"

definition enum_ex_color :: "(color \<Rightarrow> bool) \<Rightarrow> bool" where
  "enum_ex_color P \<longleftrightarrow> P WHITE \<or> P BLACK"

instance
proof
  show uc: "(UNIV :: color set) = set enum_class.enum"
    using color.exhaust by (auto simp: enum_color_def)
  show "distinct (enum_class.enum :: color list)" by (simp add: enum_color_def)
  show "enum_class.enum_all P \<longleftrightarrow> Ball UNIV P" for P :: "color \<Rightarrow> bool"
    by (simp add: enum_all_color_def all_color)
  show "enum_class.enum_ex P \<longleftrightarrow> Bex UNIV P" for P :: "color \<Rightarrow> bool"
    by (simp add: enum_ex_color_def ex_color)
qed

end

lemma opp_simps [simp]: "opp WHITE = BLACK" "opp BLACK = WHITE" "opp (opp c) = c"
  "opp c \<noteq> c" "c \<noteq> opp c"
  by (cases c; simp add: opp_def)+

lemma color_cases_of: "(c' :: color) = c \<or> c' = opp c"
  by (cases c; cases c') auto

lemma set_COLORS [simp]: "set COLORS = UNIV"
  by (auto simp: COLORS_def all_color intro: color.exhaust)

section \<open>Files, ranks and squares\<close>

definition file_to_char :: "int \<Rightarrow> char" where
  "file_to_char f = char_plus (CHR ''a'') f"

definition file_from :: "char \<Rightarrow> int option" where
  "file_from c =
     (let offset = (if c \<ge> CHR ''a'' then of_char c - of_char (CHR ''a'')
                    else of_char c - of_char (CHR ''A'')) :: int
      in if offset < 0 \<or> offset > 7 then None else Some offset)"

definition rank_to_char :: "int \<Rightarrow> char" where
  "rank_to_char r = char_plus (CHR ''1'') r"

definition rank_from :: "char \<Rightarrow> int option" where
  "rank_from c =
     (let offset = of_char c - of_char (CHR ''1'') :: int
      in if offset < 0 \<or> offset > 7 then None else Some offset)"

definition sq_file :: "int \<Rightarrow> int" where
  "sq_file s = s AND 7"

definition sq_rank :: "int \<Rightarrow> int" where
  "sq_rank s = drop_bit 3 s"

definition sq_flipped :: "int \<Rightarrow> int" where
  "sq_flipped s = s XOR 56"

definition sq_to_str :: "int \<Rightarrow> string" where
  "sq_to_str s = [file_to_char (sq_file s), rank_to_char (sq_rank s)]"

definition sq_from :: "int option \<Rightarrow> int option \<Rightarrow> int option" where
  "sq_from file rank =
     (case (file, rank) of (Some f, Some r) \<Rightarrow> Some (f OR push_bit 3 r) | _ \<Rightarrow> None)"

definition sq_from_str :: "string \<Rightarrow> int option" where
  "sq_from_str str = sq_from (file_from (str_at str 0)) (rank_from (str_at str 1))"

text \<open>The named squares, \<open>A1\<close> = 0 up to \<open>H8\<close> = 63, are written as their numbers below; those the
  castling code names are:\<close>

abbreviation (input) A1 :: int where "A1 \<equiv> 0"
abbreviation (input) B1 :: int where "B1 \<equiv> 1"
abbreviation (input) C1 :: int where "C1 \<equiv> 2"
abbreviation (input) D1 :: int where "D1 \<equiv> 3"
abbreviation (input) E1 :: int where "E1 \<equiv> 4"
abbreviation (input) F1 :: int where "F1 \<equiv> 5"
abbreviation (input) G1 :: int where "G1 \<equiv> 6"
abbreviation (input) H1 :: int where "H1 \<equiv> 7"
abbreviation (input) A8 :: int where "A8 \<equiv> 56"
abbreviation (input) B8 :: int where "B8 \<equiv> 57"
abbreviation (input) C8 :: int where "C8 \<equiv> 58"
abbreviation (input) D8 :: int where "D8 \<equiv> 59"
abbreviation (input) E8 :: int where "E8 \<equiv> 60"
abbreviation (input) F8 :: int where "F8 \<equiv> 61"
abbreviation (input) G8 :: int where "G8 \<equiv> 62"
abbreviation (input) H8 :: int where "H8 \<equiv> 63"

definition SQUARES :: "int list" where
  "SQUARES = [0..63]"

lemma mem_SQUARES [simp]: "s \<in> set SQUARES \<longleftrightarrow> on_board s"
  by (auto simp: SQUARES_def on_board_def)

lemma sq_file_mod: "sq_file s = s mod 8"
  using take_bit_eq_mod [of 3 s] by (simp add: sq_file_def take_bit_eq_mask mask_eq_exp_minus_1)

lemma sq_rank_div: "sq_rank s = s div 8"
  by (simp add: sq_rank_def drop_bit_eq_div)

lemma sq_file_range [simp]: "0 \<le> sq_file s" "sq_file s < 8" "sq_file s \<le> 7"
  using pos_mod_bound [of 8 s] by (simp_all add: sq_file_mod del: pos_mod_bound)

lemma sq_rank_range [square_simps]: "on_board s \<Longrightarrow> 0 \<le> sq_rank s" "on_board s \<Longrightarrow> sq_rank s < 8"
  by (auto simp: sq_rank_div on_board_def)

lemma sq_coords_eqI: "sq_file s = sq_file t \<Longrightarrow> sq_rank s = sq_rank t \<Longrightarrow> s = t"
  unfolding sq_file_mod sq_rank_div by (metis mult_div_mod_eq)

lemma on_board_coords: "on_board s \<longleftrightarrow> 0 \<le> sq_rank s \<and> sq_rank s < 8"
  by (auto simp: sq_rank_div on_board_def)

section \<open>Piece types and pieces\<close>

datatype piece_type = PAWN | KNIGHT | BISHOP | ROOK | QUEEN | KING

definition pt_value :: "piece_type \<Rightarrow> int" where
  "pt_value pt = (case pt of PAWN \<Rightarrow> 0 | KNIGHT \<Rightarrow> 1 | BISHOP \<Rightarrow> 2 | ROOK \<Rightarrow> 3 | QUEEN \<Rightarrow> 4 | KING \<Rightarrow> 5)"

definition PIECE_TYPES :: "piece_type list" where
  "PIECE_TYPES = [PAWN, KNIGHT, BISHOP, ROOK, QUEEN, KING]"

definition pt_to_char :: "piece_type \<Rightarrow> char" where
  "pt_to_char pt = (case pt of
      PAWN \<Rightarrow> CHR ''p'' | KNIGHT \<Rightarrow> CHR ''n'' | BISHOP \<Rightarrow> CHR ''b''
    | ROOK \<Rightarrow> CHR ''r'' | QUEEN \<Rightarrow> CHR ''q'' | KING \<Rightarrow> CHR ''k'')"

definition pt_from :: "char \<Rightarrow> piece_type option" where
  "pt_from c =
     (if c = CHR ''p'' \<or> c = CHR ''P'' then Some PAWN
      else if c = CHR ''n'' \<or> c = CHR ''N'' then Some KNIGHT
      else if c = CHR ''b'' \<or> c = CHR ''B'' then Some BISHOP
      else if c = CHR ''r'' \<or> c = CHR ''R'' then Some ROOK
      else if c = CHR ''q'' \<or> c = CHR ''Q'' then Some QUEEN
      else if c = CHR ''k'' \<or> c = CHR ''K'' then Some KING
      else None)"

text \<open>\<open>PieceType{v}\<close> for an integer read out of packed bits; the source stores only 0..5 there.\<close>

definition pt_of_value :: "int \<Rightarrow> piece_type option" where
  "pt_of_value v =
     (if v = 0 then Some PAWN else if v = 1 then Some KNIGHT else if v = 2 then Some BISHOP
      else if v = 3 then Some ROOK else if v = 4 then Some QUEEN else if v = 5 then Some KING
      else None)"

lemma all_piece_type:
  "(\<forall>pt. P pt) \<longleftrightarrow> P PAWN \<and> P KNIGHT \<and> P BISHOP \<and> P ROOK \<and> P QUEEN \<and> P KING"
  by (metis piece_type.exhaust)

lemma ex_piece_type:
  "(\<exists>pt. P pt) \<longleftrightarrow> P PAWN \<or> P KNIGHT \<or> P BISHOP \<or> P ROOK \<or> P QUEEN \<or> P KING"
  by (metis piece_type.exhaust)

instantiation piece_type :: enum
begin

definition enum_piece_type :: "piece_type list" where
  "enum_piece_type = [PAWN, KNIGHT, BISHOP, ROOK, QUEEN, KING]"

definition enum_all_piece_type :: "(piece_type \<Rightarrow> bool) \<Rightarrow> bool" where
  "enum_all_piece_type P \<longleftrightarrow> P PAWN \<and> P KNIGHT \<and> P BISHOP \<and> P ROOK \<and> P QUEEN \<and> P KING"

definition enum_ex_piece_type :: "(piece_type \<Rightarrow> bool) \<Rightarrow> bool" where
  "enum_ex_piece_type P \<longleftrightarrow> P PAWN \<or> P KNIGHT \<or> P BISHOP \<or> P ROOK \<or> P QUEEN \<or> P KING"

instance
proof
  show "(UNIV :: piece_type set) = set enum_class.enum"
    using piece_type.exhaust by (auto simp: enum_piece_type_def)
  show "distinct (enum_class.enum :: piece_type list)" by (simp add: enum_piece_type_def)
  show "enum_class.enum_all P \<longleftrightarrow> Ball UNIV P" for P :: "piece_type \<Rightarrow> bool"
    by (simp add: enum_all_piece_type_def all_piece_type)
  show "enum_class.enum_ex P \<longleftrightarrow> Bex UNIV P" for P :: "piece_type \<Rightarrow> bool"
    by (simp add: enum_ex_piece_type_def ex_piece_type)
qed

end

lemma set_PIECE_TYPES [simp]: "set PIECE_TYPES = UNIV"
  by (auto simp: PIECE_TYPES_def intro: piece_type.exhaust)

lemma distinct_PIECE_TYPES [simp]: "distinct PIECE_TYPES"
  by (simp add: PIECE_TYPES_def)

lemma pt_of_value_value [simp]: "pt_of_value (pt_value pt) = Some pt"
  by (cases pt) (simp_all add: pt_of_value_def pt_value_def)

lemma pt_value_range: "0 \<le> pt_value pt" "pt_value pt \<le> 5"
  by (cases pt; simp add: pt_value_def)+

lemma pt_value_inject [simp]: "pt_value a = pt_value b \<longleftrightarrow> a = b"
  by (metis option.inject pt_of_value_value)

text \<open>
  A piece packs its type in the low three bits and its colour above them.  The model keeps the
  pair; \<open>piece_value\<close> is the packed integer and \<open>piece_of_value\<close> what the accessors read from it.
\<close>

record piece =
  p_type :: piece_type
  p_color :: color

definition piece_value :: "piece \<Rightarrow> int" where
  "piece_value p = pt_value (p_type p) OR push_bit 3 (color_value (p_color p))"

definition piece_of_value :: "int \<Rightarrow> piece option" where
  "piece_of_value v =
     (case pt_of_value (v AND 7) of
        None \<Rightarrow> None
      | Some pt \<Rightarrow> Some \<lparr>p_type = pt, p_color = (if drop_bit 3 v = 0 then WHITE else BLACK)\<rparr>)"

definition piece_to_char :: "piece \<Rightarrow> char" where
  "piece_to_char p =
     (let piece_type_char = pt_to_char (p_type p)
      in if p_color p = WHITE then to_upper piece_type_char else to_lower piece_type_char)"

definition piece_from :: "piece_type option \<Rightarrow> color option \<Rightarrow> piece option" where
  "piece_from pt c =
     (case (pt, c) of (Some t, Some d) \<Rightarrow> Some \<lparr>p_type = t, p_color = d\<rparr> | _ \<Rightarrow> None)"

definition piece_from_char :: "char \<Rightarrow> piece option" where
  "piece_from_char c =
     (case pt_from c of
        None \<Rightarrow> None
      | Some pt \<Rightarrow> piece_from (Some pt) (Some (if is_upper c then WHITE else BLACK)))"

lemma piece_of_value_value: "piece_of_value (piece_value p) = Some p"
  by (cases "p_type p"; cases "p_color p";
      simp add: piece_of_value_def piece_value_def pt_value_def color_value_def pt_of_value_def)

lemma piece_char_roundtrip: "piece_from_char (piece_to_char p) = Some p"
proof -
  have "\<forall>t c. piece_from_char (piece_to_char \<lparr>p_type = t, p_color = c\<rparr>) = Some \<lparr>p_type = t, p_color = c\<rparr>"
    by code_simp
  then show ?thesis by (cases p) auto
qed

lemma piece_to_char_not_digit_or_slash:
  "piece_to_char p \<noteq> CHR ''/''" "\<not> (CHR ''1'' \<le> piece_to_char p \<and> piece_to_char p \<le> CHR ''9'')"
proof -
  have "\<forall>t c. piece_to_char \<lparr>p_type = t, p_color = c\<rparr> \<noteq> CHR ''/''
    \<and> \<not> (CHR ''1'' \<le> piece_to_char \<lparr>p_type = t, p_color = c\<rparr>
      \<and> piece_to_char \<lparr>p_type = t, p_color = c\<rparr> \<le> CHR ''9'')"
    by code_simp
  then show "piece_to_char p \<noteq> CHR ''/''"
    "\<not> (CHR ''1'' \<le> piece_to_char p \<and> piece_to_char p \<le> CHR ''9'')"
    by (cases p; auto)+
qed

lemma all_on_board: "(\<forall>s. on_board s \<longrightarrow> P s) \<longleftrightarrow> list_all P [0..63]"
  by (auto simp: list_all_iff on_board_def)

lemma upto_7_cases:
  assumes "0 \<le> f" "f < 8"
  obtains "f = 0" | "f = 1" | "f = 2" | "f = 3" | "f = 4" | "f = 5" | "f = 6" | "f = (7::int)"
  using assms by arith

lemma file_from_to_char:
  assumes "0 \<le> f" "f < 8"
  shows "file_from (file_to_char f) = Some f"
  using assms by (cases rule: upto_7_cases) (simp_all only:, code_simp+)

lemma rank_from_to_char:
  assumes "0 \<le> r" "r < 8"
  shows "rank_from (rank_to_char r) = Some r"
  using assms by (cases rule: upto_7_cases) (simp_all only:, code_simp+)

lemma file_or_rank:
  fixes r :: int
  assumes "0 \<le> f" "f < 8"
  shows "f OR push_bit 3 r = f + 8 * r"
proof -
  have "f = take_bit 3 f" using assms by (simp add: take_bit_int_eq_self)
  then have "bit f n \<longleftrightarrow> n < 3 \<and> bit f n" for n by (metis bit_take_bit_iff)
  then have "f OR push_bit 3 r = f + push_bit 3 r"
    by (intro disjunctive_add [symmetric]) (auto simp: bit_push_bit_iff not_le)
  then show ?thesis by (simp add: push_bit_eq_mult)
qed

lemma sq_from_coords: "sq_from (Some (sq_file s)) (Some (sq_rank s)) = Some s"
  by (simp add: sq_from_def file_or_rank) (simp add: sq_file_mod sq_rank_div)

lemma sq_from_str_to_str: "on_board s \<Longrightarrow> sq_from_str (sq_to_str s) = Some s"
  by (simp add: sq_from_str_def sq_to_str_def str_at_def file_from_to_char rank_from_to_char
      sq_rank_range sq_from_coords)

lemma sq_from_on_board:
  assumes "sq_from_str str = Some s"
  shows "on_board s"
proof -
  from assms obtain f r where fr: "file_from (str_at str 0) = Some f" "rank_from (str_at str 1) = Some r"
    "s = f OR push_bit 3 r"
    by (auto simp: sq_from_str_def sq_from_def split: option.splits)
  then have "0 \<le> f" "f < 8" "0 \<le> r" "r < 8"
    by (auto simp: file_from_def rank_from_def Let_def split: if_splits)
  then show ?thesis using fr(3) by (simp add: file_or_rank on_board_def)
qed

lemma sq_flipped_involution: "sq_flipped (sq_flipped s) = s"
  by (simp add: sq_flipped_def xor.assoc)

lemma sq_flipped_coords:
  assumes "on_board s"
  shows "sq_file (sq_flipped s) = sq_file s" "sq_rank (sq_flipped s) = 7 - sq_rank s"
proof -
  have "list_all (\<lambda>s. sq_file (sq_flipped s) = sq_file s \<and> sq_rank (sq_flipped s) = 7 - sq_rank s) [0..63]"
    by code_simp
  then show "sq_file (sq_flipped s) = sq_file s" "sq_rank (sq_flipped s) = 7 - sq_rank s"
    using assms by (auto simp: list_all_iff on_board_def)
qed

section \<open>Properties\<close>

text \<open>Squares and pieces survive their text and packed forms: \<open>Square::from\<close> of
  \<open>to_str\<close>, \<open>Piece::from\<close> of \<open>to_char\<close>, and the type and colour read back from the packed piece.\<close>

theorem square_and_piece_text_roundtrip:
  assumes "on_board s"
  shows "sq_from_str (sq_to_str s) = Some s \<and> piece_from_char (piece_to_char p) = Some p \<and>
    piece_of_value (piece_value p) = Some p"
  using assms by (simp add: sq_from_str_to_str piece_char_roundtrip piece_of_value_value)

theorem square_and_piece_text_roundtrip_witness:
  "sq_from_str (sq_to_str 28) = Some 28 \<and>
    piece_from_char (piece_to_char \<lparr>p_type = ROOK, p_color = BLACK\<rparr>) = Some \<lparr>p_type = ROOK, p_color = BLACK\<rparr>"
  using square_and_piece_text_roundtrip [of 28 "\<lparr>p_type = ROOK, p_color = BLACK\<rparr>"] by (simp add: on_board_def)

end
