(* ===== verification/Attack_Tables.thy ===== *)
theory Attack_Tables
  imports Board_Types
begin

text \<open>
  The precomputed tables of \<open>libchess/attack-tables.h\<close>, entry by entry.  \<open>FILL_ATTACKS\<close> and
  \<open>FILE_ATTACKS\<close> are indexed by the file (rank) of the slider and a 6-bit occupancy; the four
  diagonal tables are indexed by the square.  What the entries mean is proved in theory Lookups.
\<close>

definition FILL_ATTACKS :: "bitboard list list" where
  "FILL_ATTACKS = [
    [0xfefefefefefefefe, 0x0202020202020202, 0x0606060606060606, 0x0202020202020202,
     0x0e0e0e0e0e0e0e0e, 0x0202020202020202, 0x0606060606060606, 0x0202020202020202,
     0x1e1e1e1e1e1e1e1e, 0x0202020202020202, 0x0606060606060606, 0x0202020202020202,
     0x0e0e0e0e0e0e0e0e, 0x0202020202020202, 0x0606060606060606, 0x0202020202020202,
     0x3e3e3e3e3e3e3e3e, 0x0202020202020202, 0x0606060606060606, 0x0202020202020202,
     0x0e0e0e0e0e0e0e0e, 0x0202020202020202, 0x0606060606060606, 0x0202020202020202,
     0x1e1e1e1e1e1e1e1e, 0x0202020202020202, 0x0606060606060606, 0x0202020202020202,
     0x0e0e0e0e0e0e0e0e, 0x0202020202020202, 0x0606060606060606, 0x0202020202020202,
     0x7e7e7e7e7e7e7e7e, 0x0202020202020202, 0x0606060606060606, 0x0202020202020202,
     0x0e0e0e0e0e0e0e0e, 0x0202020202020202, 0x0606060606060606, 0x0202020202020202,
     0x1e1e1e1e1e1e1e1e, 0x0202020202020202, 0x0606060606060606, 0x0202020202020202,
     0x0e0e0e0e0e0e0e0e, 0x0202020202020202, 0x0606060606060606, 0x0202020202020202,
     0x3e3e3e3e3e3e3e3e, 0x0202020202020202, 0x0606060606060606, 0x0202020202020202,
     0x0e0e0e0e0e0e0e0e, 0x0202020202020202, 0x0606060606060606, 0x0202020202020202,
     0x1e1e1e1e1e1e1e1e, 0x0202020202020202, 0x0606060606060606, 0x0202020202020202,
     0x0e0e0e0e0e0e0e0e, 0x0202020202020202, 0x0606060606060606, 0x0202020202020202],
    [0xfdfdfdfdfdfdfdfd, 0xfdfdfdfdfdfdfdfd, 0x0505050505050505, 0x0505050505050505,
     0x0d0d0d0d0d0d0d0d, 0x0d0d0d0d0d0d0d0d, 0x0505050505050505, 0x0505050505050505,
     0x1d1d1d1d1d1d1d1d, 0x1d1d1d1d1d1d1d1d, 0x0505050505050505, 0x0505050505050505,
     0x0d0d0d0d0d0d0d0d, 0x0d0d0d0d0d0d0d0d, 0x0505050505050505, 0x0505050505050505,
     0x3d3d3d3d3d3d3d3d, 0x3d3d3d3d3d3d3d3d, 0x0505050505050505, 0x0505050505050505,
     0x0d0d0d0d0d0d0d0d, 0x0d0d0d0d0d0d0d0d, 0x0505050505050505, 0x0505050505050505,
     0x1d1d1d1d1d1d1d1d, 0x1d1d1d1d1d1d1d1d, 0x0505050505050505, 0x0505050505050505,
     0x0d0d0d0d0d0d0d0d, 0x0d0d0d0d0d0d0d0d, 0x0505050505050505, 0x0505050505050505,
     0x7d7d7d7d7d7d7d7d, 0x7d7d7d7d7d7d7d7d, 0x0505050505050505, 0x0505050505050505,
     0x0d0d0d0d0d0d0d0d, 0x0d0d0d0d0d0d0d0d, 0x0505050505050505, 0x0505050505050505,
     0x1d1d1d1d1d1d1d1d, 0x1d1d1d1d1d1d1d1d, 0x0505050505050505, 0x0505050505050505,
     0x0d0d0d0d0d0d0d0d, 0x0d0d0d0d0d0d0d0d, 0x0505050505050505, 0x0505050505050505,
     0x3d3d3d3d3d3d3d3d, 0x3d3d3d3d3d3d3d3d, 0x0505050505050505, 0x0505050505050505,
     0x0d0d0d0d0d0d0d0d, 0x0d0d0d0d0d0d0d0d, 0x0505050505050505, 0x0505050505050505,
     0x1d1d1d1d1d1d1d1d, 0x1d1d1d1d1d1d1d1d, 0x0505050505050505, 0x0505050505050505,
     0x0d0d0d0d0d0d0d0d, 0x0d0d0d0d0d0d0d0d, 0x0505050505050505, 0x0505050505050505],
    [0xfbfbfbfbfbfbfbfb, 0xfafafafafafafafa, 0xfbfbfbfbfbfbfbfb, 0xfafafafafafafafa,
     0x0b0b0b0b0b0b0b0b, 0x0a0a0a0a0a0a0a0a, 0x0b0b0b0b0b0b0b0b, 0x0a0a0a0a0a0a0a0a,
     0x1b1b1b1b1b1b1b1b, 0x1a1a1a1a1a1a1a1a, 0x1b1b1b1b1b1b1b1b, 0x1a1a1a1a1a1a1a1a,
     0x0b0b0b0b0b0b0b0b, 0x0a0a0a0a0a0a0a0a, 0x0b0b0b0b0b0b0b0b, 0x0a0a0a0a0a0a0a0a,
     0x3b3b3b3b3b3b3b3b, 0x3a3a3a3a3a3a3a3a, 0x3b3b3b3b3b3b3b3b, 0x3a3a3a3a3a3a3a3a,
     0x0b0b0b0b0b0b0b0b, 0x0a0a0a0a0a0a0a0a, 0x0b0b0b0b0b0b0b0b, 0x0a0a0a0a0a0a0a0a,
     0x1b1b1b1b1b1b1b1b, 0x1a1a1a1a1a1a1a1a, 0x1b1b1b1b1b1b1b1b, 0x1a1a1a1a1a1a1a1a,
     0x0b0b0b0b0b0b0b0b, 0x0a0a0a0a0a0a0a0a, 0x0b0b0b0b0b0b0b0b, 0x0a0a0a0a0a0a0a0a,
     0x7b7b7b7b7b7b7b7b, 0x7a7a7a7a7a7a7a7a, 0x7b7b7b7b7b7b7b7b, 0x7a7a7a7a7a7a7a7a,
     0x0b0b0b0b0b0b0b0b, 0x0a0a0a0a0a0a0a0a, 0x0b0b0b0b0b0b0b0b, 0x0a0a0a0a0a0a0a0a,
     0x1b1b1b1b1b1b1b1b, 0x1a1a1a1a1a1a1a1a, 0x1b1b1b1b1b1b1b1b, 0x1a1a1a1a1a1a1a1a,
     0x0b0b0b0b0b0b0b0b, 0x0a0a0a0a0a0a0a0a, 0x0b0b0b0b0b0b0b0b, 0x0a0a0a0a0a0a0a0a,
     0x3b3b3b3b3b3b3b3b, 0x3a3a3a3a3a3a3a3a, 0x3b3b3b3b3b3b3b3b, 0x3a3a3a3a3a3a3a3a,
     0x0b0b0b0b0b0b0b0b, 0x0a0a0a0a0a0a0a0a, 0x0b0b0b0b0b0b0b0b, 0x0a0a0a0a0a0a0a0a,
     0x1b1b1b1b1b1b1b1b, 0x1a1a1a1a1a1a1a1a, 0x1b1b1b1b1b1b1b1b, 0x1a1a1a1a1a1a1a1a,
     0x0b0b0b0b0b0b0b0b, 0x0a0a0a0a0a0a0a0a, 0x0b0b0b0b0b0b0b0b, 0x0a0a0a0a0a0a0a0a],
    [0xf7f7f7f7f7f7f7f7, 0xf6f6f6f6f6f6f6f6, 0xf4f4f4f4f4f4f4f4, 0xf4f4f4f4f4f4f4f4,
     0xf7f7f7f7f7f7f7f7, 0xf6f6f6f6f6f6f6f6, 0xf4f4f4f4f4f4f4f4, 0xf4f4f4f4f4f4f4f4,
     0x1717171717171717, 0x1616161616161616, 0x1414141414141414, 0x1414141414141414,
     0x1717171717171717, 0x1616161616161616, 0x1414141414141414, 0x1414141414141414,
     0x3737373737373737, 0x3636363636363636, 0x3434343434343434, 0x3434343434343434,
     0x3737373737373737, 0x3636363636363636, 0x3434343434343434, 0x3434343434343434,
     0x1717171717171717, 0x1616161616161616, 0x1414141414141414, 0x1414141414141414,
     0x1717171717171717, 0x1616161616161616, 0x1414141414141414, 0x1414141414141414,
     0x7777777777777777, 0x7676767676767676, 0x7474747474747474, 0x7474747474747474,
     0x7777777777777777, 0x7676767676767676, 0x7474747474747474, 0x7474747474747474,
     0x1717171717171717, 0x1616161616161616, 0x1414141414141414, 0x1414141414141414,
     0x1717171717171717, 0x1616161616161616, 0x1414141414141414, 0x1414141414141414,
     0x3737373737373737, 0x3636363636363636, 0x3434343434343434, 0x3434343434343434,
     0x3737373737373737, 0x3636363636363636, 0x3434343434343434, 0x3434343434343434,
     0x1717171717171717, 0x1616161616161616, 0x1414141414141414, 0x1414141414141414,
     0x1717171717171717, 0x1616161616161616, 0x1414141414141414, 0x1414141414141414],
    [0xefefefefefefefef, 0xeeeeeeeeeeeeeeee, 0xecececececececec, 0xecececececececec,
     0xe8e8e8e8e8e8e8e8, 0xe8e8e8e8e8e8e8e8, 0xe8e8e8e8e8e8e8e8, 0xe8e8e8e8e8e8e8e8,
     0xefefefefefefefef, 0xeeeeeeeeeeeeeeee, 0xecececececececec, 0xecececececececec,
     0xe8e8e8e8e8e8e8e8, 0xe8e8e8e8e8e8e8e8, 0xe8e8e8e8e8e8e8e8, 0xe8e8e8e8e8e8e8e8,
     0x2f2f2f2f2f2f2f2f, 0x2e2e2e2e2e2e2e2e, 0x2c2c2c2c2c2c2c2c, 0x2c2c2c2c2c2c2c2c,
     0x2828282828282828, 0x2828282828282828, 0x2828282828282828, 0x2828282828282828,
     0x2f2f2f2f2f2f2f2f, 0x2e2e2e2e2e2e2e2e, 0x2c2c2c2c2c2c2c2c, 0x2c2c2c2c2c2c2c2c,
     0x2828282828282828, 0x2828282828282828, 0x2828282828282828, 0x2828282828282828,
     0x6f6f6f6f6f6f6f6f, 0x6e6e6e6e6e6e6e6e, 0x6c6c6c6c6c6c6c6c, 0x6c6c6c6c6c6c6c6c,
     0x6868686868686868, 0x6868686868686868, 0x6868686868686868, 0x6868686868686868,
     0x6f6f6f6f6f6f6f6f, 0x6e6e6e6e6e6e6e6e, 0x6c6c6c6c6c6c6c6c, 0x6c6c6c6c6c6c6c6c,
     0x6868686868686868, 0x6868686868686868, 0x6868686868686868, 0x6868686868686868,
     0x2f2f2f2f2f2f2f2f, 0x2e2e2e2e2e2e2e2e, 0x2c2c2c2c2c2c2c2c, 0x2c2c2c2c2c2c2c2c,
     0x2828282828282828, 0x2828282828282828, 0x2828282828282828, 0x2828282828282828,
     0x2f2f2f2f2f2f2f2f, 0x2e2e2e2e2e2e2e2e, 0x2c2c2c2c2c2c2c2c, 0x2c2c2c2c2c2c2c2c,
     0x2828282828282828, 0x2828282828282828, 0x2828282828282828, 0x2828282828282828],
    [0xdfdfdfdfdfdfdfdf, 0xdededededededede, 0xdcdcdcdcdcdcdcdc, 0xdcdcdcdcdcdcdcdc,
     0xd8d8d8d8d8d8d8d8, 0xd8d8d8d8d8d8d8d8, 0xd8d8d8d8d8d8d8d8, 0xd8d8d8d8d8d8d8d8,
     0xd0d0d0d0d0d0d0d0, 0xd0d0d0d0d0d0d0d0, 0xd0d0d0d0d0d0d0d0, 0xd0d0d0d0d0d0d0d0,
     0xd0d0d0d0d0d0d0d0, 0xd0d0d0d0d0d0d0d0, 0xd0d0d0d0d0d0d0d0, 0xd0d0d0d0d0d0d0d0,
     0xdfdfdfdfdfdfdfdf, 0xdededededededede, 0xdcdcdcdcdcdcdcdc, 0xdcdcdcdcdcdcdcdc,
     0xd8d8d8d8d8d8d8d8, 0xd8d8d8d8d8d8d8d8, 0xd8d8d8d8d8d8d8d8, 0xd8d8d8d8d8d8d8d8,
     0xd0d0d0d0d0d0d0d0, 0xd0d0d0d0d0d0d0d0, 0xd0d0d0d0d0d0d0d0, 0xd0d0d0d0d0d0d0d0,
     0xd0d0d0d0d0d0d0d0, 0xd0d0d0d0d0d0d0d0, 0xd0d0d0d0d0d0d0d0, 0xd0d0d0d0d0d0d0d0,
     0x5f5f5f5f5f5f5f5f, 0x5e5e5e5e5e5e5e5e, 0x5c5c5c5c5c5c5c5c, 0x5c5c5c5c5c5c5c5c,
     0x5858585858585858, 0x5858585858585858, 0x5858585858585858, 0x5858585858585858,
     0x5050505050505050, 0x5050505050505050, 0x5050505050505050, 0x5050505050505050,
     0x5050505050505050, 0x5050505050505050, 0x5050505050505050, 0x5050505050505050,
     0x5f5f5f5f5f5f5f5f, 0x5e5e5e5e5e5e5e5e, 0x5c5c5c5c5c5c5c5c, 0x5c5c5c5c5c5c5c5c,
     0x5858585858585858, 0x5858585858585858, 0x5858585858585858, 0x5858585858585858,
     0x5050505050505050, 0x5050505050505050, 0x5050505050505050, 0x5050505050505050,
     0x5050505050505050, 0x5050505050505050, 0x5050505050505050, 0x5050505050505050],
    [0xbfbfbfbfbfbfbfbf, 0xbebebebebebebebe, 0xbcbcbcbcbcbcbcbc, 0xbcbcbcbcbcbcbcbc,
     0xb8b8b8b8b8b8b8b8, 0xb8b8b8b8b8b8b8b8, 0xb8b8b8b8b8b8b8b8, 0xb8b8b8b8b8b8b8b8,
     0xb0b0b0b0b0b0b0b0, 0xb0b0b0b0b0b0b0b0, 0xb0b0b0b0b0b0b0b0, 0xb0b0b0b0b0b0b0b0,
     0xb0b0b0b0b0b0b0b0, 0xb0b0b0b0b0b0b0b0, 0xb0b0b0b0b0b0b0b0, 0xb0b0b0b0b0b0b0b0,
     0xa0a0a0a0a0a0a0a0, 0xa0a0a0a0a0a0a0a0, 0xa0a0a0a0a0a0a0a0, 0xa0a0a0a0a0a0a0a0,
     0xa0a0a0a0a0a0a0a0, 0xa0a0a0a0a0a0a0a0, 0xa0a0a0a0a0a0a0a0, 0xa0a0a0a0a0a0a0a0,
     0xa0a0a0a0a0a0a0a0, 0xa0a0a0a0a0a0a0a0, 0xa0a0a0a0a0a0a0a0, 0xa0a0a0a0a0a0a0a0,
     0xa0a0a0a0a0a0a0a0, 0xa0a0a0a0a0a0a0a0, 0xa0a0a0a0a0a0a0a0, 0xa0a0a0a0a0a0a0a0,
     0xbfbfbfbfbfbfbfbf, 0xbebebebebebebebe, 0xbcbcbcbcbcbcbcbc, 0xbcbcbcbcbcbcbcbc,
     0xb8b8b8b8b8b8b8b8, 0xb8b8b8b8b8b8b8b8, 0xb8b8b8b8b8b8b8b8, 0xb8b8b8b8b8b8b8b8,
     0xb0b0b0b0b0b0b0b0, 0xb0b0b0b0b0b0b0b0, 0xb0b0b0b0b0b0b0b0, 0xb0b0b0b0b0b0b0b0,
     0xb0b0b0b0b0b0b0b0, 0xb0b0b0b0b0b0b0b0, 0xb0b0b0b0b0b0b0b0, 0xb0b0b0b0b0b0b0b0,
     0xa0a0a0a0a0a0a0a0, 0xa0a0a0a0a0a0a0a0, 0xa0a0a0a0a0a0a0a0, 0xa0a0a0a0a0a0a0a0,
     0xa0a0a0a0a0a0a0a0, 0xa0a0a0a0a0a0a0a0, 0xa0a0a0a0a0a0a0a0, 0xa0a0a0a0a0a0a0a0,
     0xa0a0a0a0a0a0a0a0, 0xa0a0a0a0a0a0a0a0, 0xa0a0a0a0a0a0a0a0, 0xa0a0a0a0a0a0a0a0,
     0xa0a0a0a0a0a0a0a0, 0xa0a0a0a0a0a0a0a0, 0xa0a0a0a0a0a0a0a0, 0xa0a0a0a0a0a0a0a0],
    [0x7f7f7f7f7f7f7f7f, 0x7e7e7e7e7e7e7e7e, 0x7c7c7c7c7c7c7c7c, 0x7c7c7c7c7c7c7c7c,
     0x7878787878787878, 0x7878787878787878, 0x7878787878787878, 0x7878787878787878,
     0x7070707070707070, 0x7070707070707070, 0x7070707070707070, 0x7070707070707070,
     0x7070707070707070, 0x7070707070707070, 0x7070707070707070, 0x7070707070707070,
     0x6060606060606060, 0x6060606060606060, 0x6060606060606060, 0x6060606060606060,
     0x6060606060606060, 0x6060606060606060, 0x6060606060606060, 0x6060606060606060,
     0x6060606060606060, 0x6060606060606060, 0x6060606060606060, 0x6060606060606060,
     0x6060606060606060, 0x6060606060606060, 0x6060606060606060, 0x6060606060606060,
     0x4040404040404040, 0x4040404040404040, 0x4040404040404040, 0x4040404040404040,
     0x4040404040404040, 0x4040404040404040, 0x4040404040404040, 0x4040404040404040,
     0x4040404040404040, 0x4040404040404040, 0x4040404040404040, 0x4040404040404040,
     0x4040404040404040, 0x4040404040404040, 0x4040404040404040, 0x4040404040404040,
     0x4040404040404040, 0x4040404040404040, 0x4040404040404040, 0x4040404040404040,
     0x4040404040404040, 0x4040404040404040, 0x4040404040404040, 0x4040404040404040,
     0x4040404040404040, 0x4040404040404040, 0x4040404040404040, 0x4040404040404040,
     0x4040404040404040, 0x4040404040404040, 0x4040404040404040, 0x4040404040404040]]"

definition FILE_ATTACKS :: "bitboard list list" where
  "FILE_ATTACKS = [
    [0x0101010101010100, 0x0001010101010100, 0x0000010101010100, 0x0000010101010100,
     0x0000000101010100, 0x0000000101010100, 0x0000000101010100, 0x0000000101010100,
     0x0000000001010100, 0x0000000001010100, 0x0000000001010100, 0x0000000001010100,
     0x0000000001010100, 0x0000000001010100, 0x0000000001010100, 0x0000000001010100,
     0x0000000000010100, 0x0000000000010100, 0x0000000000010100, 0x0000000000010100,
     0x0000000000010100, 0x0000000000010100, 0x0000000000010100, 0x0000000000010100,
     0x0000000000010100, 0x0000000000010100, 0x0000000000010100, 0x0000000000010100,
     0x0000000000010100, 0x0000000000010100, 0x0000000000010100, 0x0000000000010100,
     0x0000000000000100, 0x0000000000000100, 0x0000000000000100, 0x0000000000000100,
     0x0000000000000100, 0x0000000000000100, 0x0000000000000100, 0x0000000000000100,
     0x0000000000000100, 0x0000000000000100, 0x0000000000000100, 0x0000000000000100,
     0x0000000000000100, 0x0000000000000100, 0x0000000000000100, 0x0000000000000100,
     0x0000000000000100, 0x0000000000000100, 0x0000000000000100, 0x0000000000000100,
     0x0000000000000100, 0x0000000000000100, 0x0000000000000100, 0x0000000000000100,
     0x0000000000000100, 0x0000000000000100, 0x0000000000000100, 0x0000000000000100,
     0x0000000000000100, 0x0000000000000100, 0x0000000000000100, 0x0000000000000100],
    [0x0000000000000000, 0x0000000000000000, 0x0000000000000000, 0x0000000000000000,
     0x0000000000000000, 0x0000000000000000, 0x0000000000000000, 0x0000000000000000,
     0x0000000000000000, 0x0000000000000000, 0x0000000000000000, 0x0000000000000000,
     0x0000000000000000, 0x0000000000000000, 0x0000000000000000, 0x0000000000000000,
     0x0000000000000000, 0x0000000000000000, 0x0000000000000000, 0x0000000000000000,
     0x0000000000000000, 0x0000000000000000, 0x0000000000000000, 0x0000000000000000,
     0x0000000000000000, 0x0000000000000000, 0x0000000000000000, 0x0000000000000000,
     0x0000000000000000, 0x0000000000000000, 0x0000000000000000, 0x0000000000000000,
     0x0101010101010001, 0x0001010101010001, 0x0000010101010001, 0x0000010101010001,
     0x0000000101010001, 0x0000000101010001, 0x0000000101010001, 0x0000000101010001,
     0x0000000001010001, 0x0000000001010001, 0x0000000001010001, 0x0000000001010001,
     0x0000000001010001, 0x0000000001010001, 0x0000000001010001, 0x0000000001010001,
     0x0000000000010001, 0x0000000000010001, 0x0000000000010001, 0x0000000000010001,
     0x0000000000010001, 0x0000000000010001, 0x0000000000010001, 0x0000000000010001,
     0x0000000000010001, 0x0000000000010001, 0x0000000000010001, 0x0000000000010001,
     0x0000000000010001, 0x0000000000010001, 0x0000000000010001, 0x0000000000010001],
    [0x0000000000000000, 0x0000000000000000, 0x0000000000000000, 0x0000000000000000,
     0x0000000000000000, 0x0000000000000000, 0x0000000000000000, 0x0000000000000000,
     0x0000000000000000, 0x0000000000000000, 0x0000000000000000, 0x0000000000000000,
     0x0000000000000000, 0x0000000000000000, 0x0000000000000000, 0x0000000000000000,
     0x0101010101000101, 0x0001010101000101, 0x0000010101000101, 0x0000010101000101,
     0x0000000101000101, 0x0000000101000101, 0x0000000101000101, 0x0000000101000101,
     0x0000000001000101, 0x0000000001000101, 0x0000000001000101, 0x0000000001000101,
     0x0000000001000101, 0x0000000001000101, 0x0000000001000101, 0x0000000001000101,
     0x0000000000000000, 0x0000000000000000, 0x0000000000000000, 0x0000000000000000,
     0x0000000000000000, 0x0000000000000000, 0x0000000000000000, 0x0000000000000000,
     0x0000000000000000, 0x0000000000000000, 0x0000000000000000, 0x0000000000000000,
     0x0000000000000000, 0x0000000000000000, 0x0000000000000000, 0x0000000000000000,
     0x0101010101000100, 0x0001010101000100, 0x0000010101000100, 0x0000010101000100,
     0x0000000101000100, 0x0000000101000100, 0x0000000101000100, 0x0000000101000100,
     0x0000000001000100, 0x0000000001000100, 0x0000000001000100, 0x0000000001000100,
     0x0000000001000100, 0x0000000001000100, 0x0000000001000100, 0x0000000001000100],
    [0x0000000000000000, 0x0000000000000000, 0x0000000000000000, 0x0000000000000000,
     0x0000000000000000, 0x0000000000000000, 0x0000000000000000, 0x0000000000000000,
     0x0101010100010101, 0x0001010100010101, 0x0000010100010101, 0x0000010100010101,
     0x0000000100010101, 0x0000000100010101, 0x0000000100010101, 0x0000000100010101,
     0x0000000000000000, 0x0000000000000000, 0x0000000000000000, 0x0000000000000000,
     0x0000000000000000, 0x0000000000000000, 0x0000000000000000, 0x0000000000000000,
     0x0101010100010000, 0x0001010100010000, 0x0000010100010000, 0x0000010100010000,
     0x0000000100010000, 0x0000000100010000, 0x0000000100010000, 0x0000000100010000,
     0x0000000000000000, 0x0000000000000000, 0x0000000000000000, 0x0000000000000000,
     0x0000000000000000, 0x0000000000000000, 0x0000000000000000, 0x0000000000000000,
     0x0101010100010100, 0x0001010100010100, 0x0000010100010100, 0x0000010100010100,
     0x0000000100010100, 0x0000000100010100, 0x0000000100010100, 0x0000000100010100,
     0x0000000000000000, 0x0000000000000000, 0x0000000000000000, 0x0000000000000000,
     0x0000000000000000, 0x0000000000000000, 0x0000000000000000, 0x0000000000000000,
     0x0101010100010000, 0x0001010100010000, 0x0000010100010000, 0x0000010100010000,
     0x0000000100010000, 0x0000000100010000, 0x0000000100010000, 0x0000000100010000],
    [0x0000000000000000, 0x0000000000000000, 0x0000000000000000, 0x0000000000000000,
     0x0101010001010101, 0x0001010001010101, 0x0000010001010101, 0x0000010001010101,
     0x0000000000000000, 0x0000000000000000, 0x0000000000000000, 0x0000000000000000,
     0x0101010001000000, 0x0001010001000000, 0x0000010001000000, 0x0000010001000000,
     0x0000000000000000, 0x0000000000000000, 0x0000000000000000, 0x0000000000000000,
     0x0101010001010000, 0x0001010001010000, 0x0000010001010000, 0x0000010001010000,
     0x0000000000000000, 0x0000000000000000, 0x0000000000000000, 0x0000000000000000,
     0x0101010001000000, 0x0001010001000000, 0x0000010001000000, 0x0000010001000000,
     0x0000000000000000, 0x0000000000000000, 0x0000000000000000, 0x0000000000000000,
     0x0101010001010100, 0x0001010001010100, 0x0000010001010100, 0x0000010001010100,
     0x0000000000000000, 0x0000000000000000, 0x0000000000000000, 0x0000000000000000,
     0x0101010001000000, 0x0001010001000000, 0x0000010001000000, 0x0000010001000000,
     0x0000000000000000, 0x0000000000000000, 0x0000000000000000, 0x0000000000000000,
     0x0101010001010000, 0x0001010001010000, 0x0000010001010000, 0x0000010001010000,
     0x0000000000000000, 0x0000000000000000, 0x0000000000000000, 0x0000000000000000,
     0x0101010001000000, 0x0001010001000000, 0x0000010001000000, 0x0000010001000000],
    [0x0000000000000000, 0x0000000000000000, 0x0101000101010101, 0x0001000101010101,
     0x0000000000000000, 0x0000000000000000, 0x0101000100000000, 0x0001000100000000,
     0x0000000000000000, 0x0000000000000000, 0x0101000101000000, 0x0001000101000000,
     0x0000000000000000, 0x0000000000000000, 0x0101000100000000, 0x0001000100000000,
     0x0000000000000000, 0x0000000000000000, 0x0101000101010000, 0x0001000101010000,
     0x0000000000000000, 0x0000000000000000, 0x0101000100000000, 0x0001000100000000,
     0x0000000000000000, 0x0000000000000000, 0x0101000101000000, 0x0001000101000000,
     0x0000000000000000, 0x0000000000000000, 0x0101000100000000, 0x0001000100000000,
     0x0000000000000000, 0x0000000000000000, 0x0101000101010100, 0x0001000101010100,
     0x0000000000000000, 0x0000000000000000, 0x0101000100000000, 0x0001000100000000,
     0x0000000000000000, 0x0000000000000000, 0x0101000101000000, 0x0001000101000000,
     0x0000000000000000, 0x0000000000000000, 0x0101000100000000, 0x0001000100000000,
     0x0000000000000000, 0x0000000000000000, 0x0101000101010000, 0x0001000101010000,
     0x0000000000000000, 0x0000000000000000, 0x0101000100000000, 0x0001000100000000,
     0x0000000000000000, 0x0000000000000000, 0x0101000101000000, 0x0001000101000000,
     0x0000000000000000, 0x0000000000000000, 0x0101000100000000, 0x0001000100000000],
    [0x0000000000000000, 0x0100010101010101, 0x0000000000000000, 0x0100010000000000,
     0x0000000000000000, 0x0100010100000000, 0x0000000000000000, 0x0100010000000000,
     0x0000000000000000, 0x0100010101000000, 0x0000000000000000, 0x0100010000000000,
     0x0000000000000000, 0x0100010100000000, 0x0000000000000000, 0x0100010000000000,
     0x0000000000000000, 0x0100010101010000, 0x0000000000000000, 0x0100010000000000,
     0x0000000000000000, 0x0100010100000000, 0x0000000000000000, 0x0100010000000000,
     0x0000000000000000, 0x0100010101000000, 0x0000000000000000, 0x0100010000000000,
     0x0000000000000000, 0x0100010100000000, 0x0000000000000000, 0x0100010000000000,
     0x0000000000000000, 0x0100010101010100, 0x0000000000000000, 0x0100010000000000,
     0x0000000000000000, 0x0100010100000000, 0x0000000000000000, 0x0100010000000000,
     0x0000000000000000, 0x0100010101000000, 0x0000000000000000, 0x0100010000000000,
     0x0000000000000000, 0x0100010100000000, 0x0000000000000000, 0x0100010000000000,
     0x0000000000000000, 0x0100010101010000, 0x0000000000000000, 0x0100010000000000,
     0x0000000000000000, 0x0100010100000000, 0x0000000000000000, 0x0100010000000000,
     0x0000000000000000, 0x0100010101000000, 0x0000000000000000, 0x0100010000000000,
     0x0000000000000000, 0x0100010100000000, 0x0000000000000000, 0x0100010000000000],
    [0x0001010101010101, 0x0001000000000000, 0x0001010000000000, 0x0001000000000000,
     0x0001010100000000, 0x0001000000000000, 0x0001010000000000, 0x0001000000000000,
     0x0001010101000000, 0x0001000000000000, 0x0001010000000000, 0x0001000000000000,
     0x0001010100000000, 0x0001000000000000, 0x0001010000000000, 0x0001000000000000,
     0x0001010101010000, 0x0001000000000000, 0x0001010000000000, 0x0001000000000000,
     0x0001010100000000, 0x0001000000000000, 0x0001010000000000, 0x0001000000000000,
     0x0001010101000000, 0x0001000000000000, 0x0001010000000000, 0x0001000000000000,
     0x0001010100000000, 0x0001000000000000, 0x0001010000000000, 0x0001000000000000,
     0x0001010101010100, 0x0001000000000000, 0x0001010000000000, 0x0001000000000000,
     0x0001010100000000, 0x0001000000000000, 0x0001010000000000, 0x0001000000000000,
     0x0001010101000000, 0x0001000000000000, 0x0001010000000000, 0x0001000000000000,
     0x0001010100000000, 0x0001000000000000, 0x0001010000000000, 0x0001000000000000,
     0x0001010101010000, 0x0001000000000000, 0x0001010000000000, 0x0001000000000000,
     0x0001010100000000, 0x0001000000000000, 0x0001010000000000, 0x0001000000000000,
     0x0001010101000000, 0x0001000000000000, 0x0001010000000000, 0x0001000000000000,
     0x0001010100000000, 0x0001000000000000, 0x0001010000000000, 0x0001000000000000]]"

definition DIAG_PLUS_FOLD :: "bitboard list" where
  "DIAG_PLUS_FOLD = [
    0x0040201008040200, 0x0000402010080400, 0x0000004020100800, 0x0000000040201000,
    0x0000000000402000, 0x0000000000004000, 0x0000000000000000, 0x0000000000000000,
    0x0020100804020000, 0x0040201008040200, 0x0000402010080400, 0x0000004020100800,
    0x0000000040201000, 0x0000000000402000, 0x0000000000004000, 0x0000000000000000,
    0x0010080402000000, 0x0020100804020000, 0x0040201008040200, 0x0000402010080400,
    0x0000004020100800, 0x0000000040201000, 0x0000000000402000, 0x0000000000004000,
    0x0008040200000000, 0x0010080402000000, 0x0020100804020000, 0x0040201008040200,
    0x0000402010080400, 0x0000004020100800, 0x0000000040201000, 0x0000000000402000,
    0x0004020000000000, 0x0008040200000000, 0x0010080402000000, 0x0020100804020000,
    0x0040201008040200, 0x0000402010080400, 0x0000004020100800, 0x0000000040201000,
    0x0002000000000000, 0x0004020000000000, 0x0008040200000000, 0x0010080402000000,
    0x0020100804020000, 0x0040201008040200, 0x0000402010080400, 0x0000004020100800,
    0x0000000000000000, 0x0002000000000000, 0x0004020000000000, 0x0008040200000000,
    0x0010080402000000, 0x0020100804020000, 0x0040201008040200, 0x0000402010080400,
    0x0000000000000000, 0x0000000000000000, 0x0002000000000000, 0x0004020000000000,
    0x0008040200000000, 0x0010080402000000, 0x0020100804020000, 0x0040201008040200]"

definition DIAG_MINUS_FOLD :: "bitboard list" where
  "DIAG_MINUS_FOLD = [
    0x0000000000000000, 0x0000000000000000, 0x0000000000000200, 0x0000000000020400,
    0x0000000002040800, 0x0000000204081000, 0x0000020408102000, 0x0002040810204000,
    0x0000000000000000, 0x0000000000000200, 0x0000000000020400, 0x0000000002040800,
    0x0000000204081000, 0x0000020408102000, 0x0002040810204000, 0x0004081020400000,
    0x0000000000000200, 0x0000000000020400, 0x0000000002040800, 0x0000000204081000,
    0x0000020408102000, 0x0002040810204000, 0x0004081020400000, 0x0008102040000000,
    0x0000000000020400, 0x0000000002040800, 0x0000000204081000, 0x0000020408102000,
    0x0002040810204000, 0x0004081020400000, 0x0008102040000000, 0x0010204000000000,
    0x0000000002040800, 0x0000000204081000, 0x0000020408102000, 0x0002040810204000,
    0x0004081020400000, 0x0008102040000000, 0x0010204000000000, 0x0020400000000000,
    0x0000000204081000, 0x0000020408102000, 0x0002040810204000, 0x0004081020400000,
    0x0008102040000000, 0x0010204000000000, 0x0020400000000000, 0x0040000000000000,
    0x0000020408102000, 0x0002040810204000, 0x0004081020400000, 0x0008102040000000,
    0x0010204000000000, 0x0020400000000000, 0x0040000000000000, 0x0000000000000000,
    0x0002040810204000, 0x0004081020400000, 0x0008102040000000, 0x0010204000000000,
    0x0020400000000000, 0x0040000000000000, 0x0000000000000000, 0x0000000000000000]"

definition DIAG_PLUS_LINE :: "bitboard list" where
  "DIAG_PLUS_LINE = [
    0x8040201008040201, 0x0080402010080402, 0x0000804020100804, 0x0000008040201008,
    0x0000000080402010, 0x0000000000804020, 0x0000000000008040, 0x0000000000000080,
    0x4020100804020100, 0x8040201008040201, 0x0080402010080402, 0x0000804020100804,
    0x0000008040201008, 0x0000000080402010, 0x0000000000804020, 0x0000000000008040,
    0x2010080402010000, 0x4020100804020100, 0x8040201008040201, 0x0080402010080402,
    0x0000804020100804, 0x0000008040201008, 0x0000000080402010, 0x0000000000804020,
    0x1008040201000000, 0x2010080402010000, 0x4020100804020100, 0x8040201008040201,
    0x0080402010080402, 0x0000804020100804, 0x0000008040201008, 0x0000000080402010,
    0x0804020100000000, 0x1008040201000000, 0x2010080402010000, 0x4020100804020100,
    0x8040201008040201, 0x0080402010080402, 0x0000804020100804, 0x0000008040201008,
    0x0402010000000000, 0x0804020100000000, 0x1008040201000000, 0x2010080402010000,
    0x4020100804020100, 0x8040201008040201, 0x0080402010080402, 0x0000804020100804,
    0x0201000000000000, 0x0402010000000000, 0x0804020100000000, 0x1008040201000000,
    0x2010080402010000, 0x4020100804020100, 0x8040201008040201, 0x0080402010080402,
    0x0100000000000000, 0x0201000000000000, 0x0402010000000000, 0x0804020100000000,
    0x1008040201000000, 0x2010080402010000, 0x4020100804020100, 0x8040201008040201]"

definition DIAG_MINUS_LINE :: "bitboard list" where
  "DIAG_MINUS_LINE = [
    0x0000000000000001, 0x0000000000000102, 0x0000000000010204, 0x0000000001020408,
    0x0000000102040810, 0x0000010204081020, 0x0001020408102040, 0x0102040810204080,
    0x0000000000000102, 0x0000000000010204, 0x0000000001020408, 0x0000000102040810,
    0x0000010204081020, 0x0001020408102040, 0x0102040810204080, 0x0204081020408000,
    0x0000000000010204, 0x0000000001020408, 0x0000000102040810, 0x0000010204081020,
    0x0001020408102040, 0x0102040810204080, 0x0204081020408000, 0x0408102040800000,
    0x0000000001020408, 0x0000000102040810, 0x0000010204081020, 0x0001020408102040,
    0x0102040810204080, 0x0204081020408000, 0x0408102040800000, 0x0810204080000000,
    0x0000000102040810, 0x0000010204081020, 0x0001020408102040, 0x0102040810204080,
    0x0204081020408000, 0x0408102040800000, 0x0810204080000000, 0x1020408000000000,
    0x0000010204081020, 0x0001020408102040, 0x0102040810204080, 0x0204081020408000,
    0x0408102040800000, 0x0810204080000000, 0x1020408000000000, 0x2040800000000000,
    0x0001020408102040, 0x0102040810204080, 0x0204081020408000, 0x0408102040800000,
    0x0810204080000000, 0x1020408000000000, 0x2040800000000000, 0x4080000000000000,
    0x0102040810204080, 0x0204081020408000, 0x0408102040800000, 0x0810204080000000,
    0x1020408000000000, 0x2040800000000000, 0x4080000000000000, 0x8000000000000000]"

end
