(* ===== verification/Lookups.thy ===== *)
theory Lookups
  imports Attack_Tables
begin

text \<open>
  Attack lookups, \<open>libchess/Lookups.h\<close>: rank and file masks, the eight ray tables and the
  leaper tables the compiler computes, the kindergarten lookups of the sliders (fold the occupancy
  of a line into six bits with one multiplication, index a table), and the two line functions
  \<open>full_ray\<close> and \<open>intervening\<close>.  The theories Leapers and Sliders prove them equal to the
  coordinate definitions of how the pieces move.
\<close>

section \<open>Masks\<close>

definition FILE_A_MASK :: bitboard where "FILE_A_MASK = 0x0101010101010101"
definition FILE_B_MASK :: bitboard where "FILE_B_MASK = 0x0202020202020202"
definition FILE_G_MASK :: bitboard where "FILE_G_MASK = 0x4040404040404040"
definition FILE_H_MASK :: bitboard where "FILE_H_MASK = 0x8080808080808080"

definition RANK_MASK :: "bitboard list" where
  "RANK_MASK = [0xff, 0xff00, 0xff0000, 0xff000000, 0xff00000000, 0xff0000000000,
     0xff000000000000, 0xff00000000000000]"

definition FILE_MASK :: "bitboard list" where
  "FILE_MASK = [0x0101010101010101, 0x0202020202020202, 0x0404040404040404, 0x0808080808080808,
     0x1010101010101010, 0x2020202020202020, 0x4040404040404040, 0x8080808080808080]"

definition rank_mask :: "int \<Rightarrow> bitboard" where
  "rank_mask rank = RANK_MASK ! nat rank"

definition file_mask :: "int \<Rightarrow> bitboard" where
  "file_mask file = FILE_MASK ! nat file"

section \<open>Ray tables\<close>

text \<open>
  The inner loop of \<open>init::north()\<close> and its seven siblings: from \<open>atk\<close>, step by \<open>step\<close> while on the
  board, stopping before a square of the file \<open>wrap\<close> (the file the step would wrap onto; none for
  the two vertical directions).
\<close>

function ray_loop :: "int \<Rightarrow> bitboard \<Rightarrow> int \<Rightarrow> bitboard \<Rightarrow> bitboard" where
  "ray_loop step wrap atk bb =
     (if step = 0 \<or> (if step > 0 then atk > H8 else atk < A1) then bb
      else if square_bb atk AND wrap \<noteq> 0 then bb
      else ray_loop step wrap (atk + step) (bb OR square_bb atk))"
  by pat_completeness auto
termination
  by (relation "measure (\<lambda>(step, _, atk, _). if step > 0 then nat (64 - atk) else nat (atk + 1))") auto

declare ray_loop.simps [simp del]

definition init_north :: "int \<Rightarrow> bitboard" where
  "init_north sq = (if A1 \<le> sq \<and> sq \<le> 55 then ray_loop 8 0 (sq + 8) 0 else 0)"

definition init_south :: "int \<Rightarrow> bitboard" where
  "init_south sq = (if 8 \<le> sq \<and> sq \<le> H8 then ray_loop (-8) 0 (sq - 8) 0 else 0)"

definition init_east :: "int \<Rightarrow> bitboard" where
  "init_east sq = (if A1 \<le> sq \<and> sq \<le> G8 then ray_loop 1 FILE_A_MASK (sq + 1) 0 else 0)"

definition init_west :: "int \<Rightarrow> bitboard" where
  "init_west sq = (if B1 \<le> sq \<and> sq \<le> H8 then ray_loop (-1) FILE_H_MASK (sq - 1) 0 else 0)"

definition init_northwest :: "int \<Rightarrow> bitboard" where
  "init_northwest sq = (if A1 \<le> sq \<and> sq \<le> 55 then ray_loop 7 FILE_H_MASK (sq + 7) 0 else 0)"

definition init_southwest :: "int \<Rightarrow> bitboard" where
  "init_southwest sq = (if 9 \<le> sq \<and> sq \<le> H8 then ray_loop (-9) FILE_H_MASK (sq - 9) 0 else 0)"

definition init_northeast :: "int \<Rightarrow> bitboard" where
  "init_northeast sq = (if A1 \<le> sq \<and> sq \<le> 54 then ray_loop 9 FILE_A_MASK (sq + 9) 0 else 0)"

definition init_southeast :: "int \<Rightarrow> bitboard" where
  "init_southeast sq = (if 8 \<le> sq \<and> sq \<le> H8 then ray_loop (-7) FILE_A_MASK (sq - 7) 0 else 0)"

text \<open>The tables are the arrays of the values above, read at the square.\<close>

definition table64 :: "(int \<Rightarrow> bitboard) \<Rightarrow> bitboard list" where
  "table64 init = map init SQUARES"

definition north :: "int \<Rightarrow> bitboard" where "north sq = table64 init_north ! nat sq"
definition south :: "int \<Rightarrow> bitboard" where "south sq = table64 init_south ! nat sq"
definition east :: "int \<Rightarrow> bitboard" where "east sq = table64 init_east ! nat sq"
definition west :: "int \<Rightarrow> bitboard" where "west sq = table64 init_west ! nat sq"
definition northwest :: "int \<Rightarrow> bitboard" where "northwest sq = table64 init_northwest ! nat sq"
definition southwest :: "int \<Rightarrow> bitboard" where "southwest sq = table64 init_southwest ! nat sq"
definition northeast :: "int \<Rightarrow> bitboard" where "northeast sq = table64 init_northeast ! nat sq"
definition southeast :: "int \<Rightarrow> bitboard" where "southeast sq = table64 init_southeast ! nat sq"

section \<open>Leaper and empty-board tables\<close>

definition init_pawn_attacks :: "color \<Rightarrow> int \<Rightarrow> bitboard" where
  "init_pawn_attacks c sq =
     (case c of
        WHITE \<Rightarrow>
          (if sq \<le> 55 then square_bb (sq + 7) AND NOT FILE_H_MASK else 0)
          OR (if sq \<le> 54 then square_bb (sq + 9) AND NOT FILE_A_MASK else 0)
      | BLACK \<Rightarrow>
          (if sq \<ge> 8 then square_bb (sq - 7) AND NOT FILE_A_MASK else 0)
          OR (if sq \<ge> 9 then square_bb (sq - 9) AND NOT FILE_H_MASK else 0))"

definition init_knight_attacks :: "int \<Rightarrow> bitboard" where
  "init_knight_attacks sq =
     (if sq \<le> 46 then square_bb (sq + 17) AND NOT FILE_A_MASK else 0)
     OR (if sq \<le> 47 then square_bb (sq + 15) AND NOT FILE_H_MASK else 0)
     OR (if sq \<ge> 17 then square_bb (sq - 17) AND NOT FILE_H_MASK else 0)
     OR (if sq \<ge> 16 then square_bb (sq - 15) AND NOT FILE_A_MASK else 0)
     OR (if sq \<le> 53 then square_bb (sq + 10) AND NOT (FILE_A_MASK OR FILE_B_MASK) else 0)
     OR (if sq \<le> 55 then square_bb (sq + 6) AND NOT (FILE_H_MASK OR FILE_G_MASK) else 0)
     OR (if sq \<ge> 10 then square_bb (sq - 10) AND NOT (FILE_H_MASK OR FILE_G_MASK) else 0)
     OR (if sq \<ge> 8 then square_bb (sq - 6) AND NOT (FILE_A_MASK OR FILE_B_MASK) else 0)"

definition init_king_attacks :: "int \<Rightarrow> bitboard" where
  "init_king_attacks sq =
     (if sq \<le> 54 then square_bb (sq + 9) AND NOT FILE_A_MASK else 0)
     OR (if sq \<le> 55 then square_bb (sq + 8) OR (square_bb (sq + 7) AND NOT FILE_H_MASK) else 0)
     OR (if sq \<le> 62 then square_bb (sq + 1) AND NOT FILE_A_MASK else 0)
     OR (if sq \<ge> 1 then square_bb (sq - 1) AND NOT FILE_H_MASK else 0)
     OR (if sq \<ge> 8 then (square_bb (sq - 7) AND NOT FILE_A_MASK) OR square_bb (sq - 8) else 0)
     OR (if sq \<ge> 9 then square_bb (sq - 9) AND NOT FILE_H_MASK else 0)"

definition init_bishop_attacks :: "int \<Rightarrow> bitboard" where
  "init_bishop_attacks sq = northeast sq OR southeast sq OR southwest sq OR northwest sq"

definition init_rook_attacks :: "int \<Rightarrow> bitboard" where
  "init_rook_attacks sq = north sq OR east sq OR south sq OR west sq"

definition init_queen_attacks :: "int \<Rightarrow> bitboard" where
  "init_queen_attacks sq = north sq OR east sq OR south sq OR west sq OR northwest sq OR northeast sq
     OR southwest sq OR southeast sq"

definition pawn_attacks :: "int \<Rightarrow> color \<Rightarrow> bitboard" where
  "pawn_attacks sq c = table64 (init_pawn_attacks c) ! nat sq"

definition knight_attacks :: "int \<Rightarrow> bitboard" where
  "knight_attacks sq = table64 init_knight_attacks ! nat sq"

definition king_attacks :: "int \<Rightarrow> bitboard" where
  "king_attacks sq = table64 init_king_attacks ! nat sq"

definition bishop_rays :: "int \<Rightarrow> bitboard" where
  "bishop_rays sq = table64 init_bishop_attacks ! nat sq"

definition rook_rays :: "int \<Rightarrow> bitboard" where
  "rook_rays sq = table64 init_rook_attacks ! nat sq"

definition queen_rays :: "int \<Rightarrow> bitboard" where
  "queen_rays sq = table64 init_queen_attacks ! nat sq"

section \<open>Kindergarten sliders\<close>

definition FILE_A_COLUMN :: bitboard where "FILE_A_COLUMN = 0x0101010101010101"
definition B_FILE_FOLD :: bitboard where "B_FILE_FOLD = 0x0202020202020202"
definition DIAG_C2H7_FOLD :: bitboard where "DIAG_C2H7_FOLD = 0x0080402010080400"

definition bishop_attacks :: "int \<Rightarrow> bitboard \<Rightarrow> bitboard" where
  "bishop_attacks square occupancy =
     (let sq = nat square; file = nat (sq_file square);
          occ = occupancy OR push_bit sq 1;
          idx_p = drop_bit 58 ((DIAG_PLUS_FOLD ! sq AND occ) * B_FILE_FOLD);
          idx_n = drop_bit 58 ((DIAG_MINUS_FOLD ! sq AND occ) * B_FILE_FOLD)
      in (FILL_ATTACKS ! file ! unat idx_p AND DIAG_PLUS_LINE ! sq)
         OR (FILL_ATTACKS ! file ! unat idx_n AND DIAG_MINUS_LINE ! sq))"

definition rook_attacks :: "int \<Rightarrow> bitboard \<Rightarrow> bitboard" where
  "rook_attacks square occupancy =
     (let sq = nat square; rank = nat (sq_rank square); file = nat (sq_file square);
          occ = occupancy OR push_bit sq 1;
          idx_r = drop_bit (rank * 8 + 1) occ AND 63;
          idx_f = drop_bit 58 ((drop_bit file occ AND FILE_A_COLUMN) * DIAG_C2H7_FOLD)
      in (FILL_ATTACKS ! file ! unat idx_r AND rank_mask (sq_rank square))
         OR push_bit file (FILE_ATTACKS ! rank ! unat idx_f))"

definition queen_attacks :: "int \<Rightarrow> bitboard \<Rightarrow> bitboard" where
  "queen_attacks square occupancy = rook_attacks square occupancy OR bishop_attacks square occupancy"

section \<open>Pawn shifts and lines\<close>

definition pawn_shift_bb :: "bitboard \<Rightarrow> color \<Rightarrow> int \<Rightarrow> bitboard" where
  "pawn_shift_bb bb c n =
     (if c = WHITE then push_bit (nat (8 * n)) bb else drop_bit (nat (8 * n)) bb)"

definition pawn_shift :: "int \<Rightarrow> color \<Rightarrow> int \<Rightarrow> int" where
  "pawn_shift sq c n = (if c = WHITE then sq + 8 * n else sq - 8 * n)"

definition relative_rank :: "int \<Rightarrow> color \<Rightarrow> int" where
  "relative_rank rank c = (if c = WHITE then rank else 7 - rank)"

definition relative_rank_mask :: "int \<Rightarrow> color \<Rightarrow> bitboard" where
  "relative_rank_mask rank c = rank_mask (relative_rank rank c)"

definition non_pawn_piece_type_attacks :: "piece_type \<Rightarrow> int \<Rightarrow> bitboard \<Rightarrow> bitboard" where
  "non_pawn_piece_type_attacks pt square occupancies =
     (case pt of
        KNIGHT \<Rightarrow> knight_attacks square
      | BISHOP \<Rightarrow> bishop_attacks square occupancies
      | ROOK \<Rightarrow> rook_attacks square occupancies
      | QUEEN \<Rightarrow> queen_attacks square occupancies
      | KING \<Rightarrow> king_attacks square
      | PAWN \<Rightarrow> 0)"

definition full_ray :: "int \<Rightarrow> int \<Rightarrow> bitboard" where
  "full_ray from to =
     (if from = to then 0
      else let high = (if from > to then from else to); low = (if from > to then to else from) in
        if sq_file high = sq_file low then file_mask (sq_file high)
        else if sq_rank high = sq_rank low then rank_mask (sq_rank high)
        else if sq_file high - sq_file low = sq_rank high - sq_rank low
          then DIAG_PLUS_LINE ! nat from
        else if sq_file low - sq_file high = sq_rank high - sq_rank low
          then DIAG_MINUS_LINE ! nat from
        else 0)"

definition intervening :: "int \<Rightarrow> int \<Rightarrow> bitboard" where
  "intervening from to =
     (if from = to then 0
      else let high = (if from > to then from else to); low = (if from > to then to else from) in
        if sq_file high = sq_file low then north low AND south high
        else if sq_rank high = sq_rank low then east low AND west high
        else if sq_file high - sq_file low = sq_rank high - sq_rank low
          then northeast low AND southwest high
        else if sq_file low - sq_file high = sq_rank high - sq_rank low
          then northwest low AND southeast high
        else 0)"

end
