(* ===== verification/Moves.thy ===== *)
theory Moves
  imports Board_Types
begin

text \<open>
  Moves and move lists, \<open>libchess/Move.h\<close>: a move is the packed 32-bit integer of the source (origin
  in bits 0-5, destination in 6-11, promotion piece in 12-14, move type in 15-17), read by the
  accessors the class has; a move list is the vector of moves.  The lemmas show that the accessors
  invert the constructors, that the move text round trips, and that the insertion sort of
  \<open>MoveList::sort\<close> is a stable descending sort by score.
\<close>

section \<open>Packed moves\<close>

type_synonym move = "32 word"

datatype move_type = NONE | NORMAL | CASTLING | ENPASSANT | PROMOTION | DOUBLE_PUSH | CAPTURE
  | CAPTURE_PROMOTION

definition mt_value :: "move_type \<Rightarrow> nat" where
  "mt_value ty = (case ty of NONE \<Rightarrow> 0 | NORMAL \<Rightarrow> 1 | CASTLING \<Rightarrow> 2 | ENPASSANT \<Rightarrow> 3 | PROMOTION \<Rightarrow> 4
     | DOUBLE_PUSH \<Rightarrow> 5 | CAPTURE \<Rightarrow> 6 | CAPTURE_PROMOTION \<Rightarrow> 7)"

definition mt_of_value :: "nat \<Rightarrow> move_type" where
  "mt_of_value v = (if v = 0 then NONE else if v = 1 then NORMAL else if v = 2 then CASTLING
     else if v = 3 then ENPASSANT else if v = 4 then PROMOTION else if v = 5 then DOUBLE_PUSH
     else if v = 6 then CAPTURE else CAPTURE_PROMOTION)"

definition PROMOTION_TYPE_MASK :: move where
  "PROMOTION_TYPE_MASK = push_bit 12 7"

definition MOVE_TYPE_MASK :: move where
  "MOVE_TYPE_MASK = push_bit 15 7"

text \<open>The three constructors: \<open>Move()\<close>, \<open>Move(from, to, type)\<close>, which stores a pawn as the promotion
  piece, and \<open>Move(from, to, promotion, type)\<close>.\<close>

definition mk_move_promo :: "int \<Rightarrow> int \<Rightarrow> piece_type \<Rightarrow> move_type \<Rightarrow> move" where
  "mk_move_promo from_sq to_sq promotion_pt ty =
     word_of_int from_sq OR push_bit 6 (word_of_int to_sq)
     OR push_bit 12 (word_of_int (pt_value promotion_pt)) OR push_bit 15 (word_of_nat (mt_value ty))"

definition mk_move :: "int \<Rightarrow> int \<Rightarrow> move_type \<Rightarrow> move" where
  "mk_move from_sq to_sq ty =
     word_of_int from_sq OR push_bit 6 (word_of_int to_sq)
     OR push_bit 12 (word_of_int (pt_value PAWN)) OR push_bit 15 (word_of_nat (mt_value ty))"

definition null_move :: move where
  "null_move = 0"

definition from_square :: "move \<Rightarrow> int" where
  "from_square m = uint (m AND 0x3f)"

definition to_square :: "move \<Rightarrow> int" where
  "to_square m = uint (drop_bit 6 (m AND 0xfc0))"

definition move_type :: "move \<Rightarrow> move_type" where
  "move_type m = mt_of_value (unat (drop_bit 15 (m AND MOVE_TYPE_MASK)))"

definition promotion_piece_type :: "move \<Rightarrow> piece_type option" where
  "promotion_piece_type m =
     (let promotion_pt = pt_of_value (uint (drop_bit 12 (m AND PROMOTION_TYPE_MASK)))
      in if promotion_pt = Some PAWN \<or> promotion_pt = Some KING then None else promotion_pt)"

definition value_sans_type :: "move \<Rightarrow> move" where
  "value_sans_type m = m AND NOT MOVE_TYPE_MASK"

text \<open>\<open>operator==\<close> ignores the move type.\<close>

definition move_eq :: "move \<Rightarrow> move \<Rightarrow> bool" where
  "move_eq a b \<longleftrightarrow> value_sans_type a = value_sans_type b"

definition substr :: "string \<Rightarrow> nat \<Rightarrow> nat \<Rightarrow> string" where
  "substr s pos len = take len (drop pos s)"

definition move_from_str :: "string \<Rightarrow> move option" where
  "move_from_str str =
     (let strlen = length str in
      if strlen > 5 \<or> strlen < 4 then None
      else case (sq_from_str (substr str 0 2), sq_from_str (substr str 2 4)) of
          (Some f, Some t) \<Rightarrow>
            (if strlen = 5 then
               (case pt_from (str_at str 4) of
                  None \<Rightarrow> None
                | Some promotion_pt \<Rightarrow> Some (mk_move_promo f t promotion_pt NONE))
             else Some (mk_move f t NONE))
        | _ \<Rightarrow> None)"

definition move_to_str :: "move \<Rightarrow> string" where
  "move_to_str m =
     (let move_str = sq_to_str (from_square m) @ sq_to_str (to_square m)
      in case promotion_piece_type m of
           None \<Rightarrow> move_str
         | Some pt \<Rightarrow> move_str @ [pt_to_char pt])"

section \<open>What the accessors read\<close>

lemma mask_6: "(0x3f :: move) = mask 6"
  by (simp add: mask_eq_exp_minus_1)

lemma mask_6_12: "(0xfc0 :: move) = push_bit 6 (mask 6)"
  by (simp add: mask_eq_exp_minus_1)

lemma mask_3: "(7 :: move) = mask 3"
  by (simp add: mask_eq_exp_minus_1)

lemma drop_push_mask:
  "drop_bit k (w AND push_bit k (mask l)) = take_bit l (drop_bit k w)" for w :: move
  by (rule bit_word_eqI) (auto simp: bit_simps dest: bit_imp_le_length)

lemma bit_word_of_int_less:
  assumes "0 \<le> i" "i < 2 ^ k" "bit (word_of_int i :: move) n"
  shows "n < k"
proof -
  have "i = take_bit k i" using assms(1,2) by (simp add: take_bit_int_eq_self)
  moreover from assms(3) have "bit i n" by (simp add: bit_word_of_int_iff)
  ultimately show ?thesis by (metis bit_take_bit_iff)
qed

lemma bit_word_of_nat_less:
  assumes "i < 2 ^ k" "bit (word_of_nat i :: move) n"
  shows "n < k"
  using bit_word_of_int_less [of "int i" k n] assms by simp

lemma mt_value_less: "mt_value ty < 2 ^ 3"
  by (cases ty) (simp_all add: mt_value_def)

lemma mt_of_value_value [simp]: "mt_of_value (mt_value ty) = ty"
  by (cases ty) (simp_all add: mt_value_def mt_of_value_def)

lemma pt_value_less: "pt_value pt < 2 ^ 3"
  by (cases pt) (simp_all add: pt_value_def)

text \<open>The four fields do not overlap, so each accessor reads back the field it names.\<close>

lemma packed_fields:
  fixes f t p y :: move
  assumes "\<And>n. bit f n \<Longrightarrow> n < 6" "\<And>n. bit t n \<Longrightarrow> n < 6" "\<And>n. bit p n \<Longrightarrow> n < 3" "\<And>n. bit y n \<Longrightarrow> n < 3"
  defines "m \<equiv> f OR push_bit 6 t OR push_bit 12 p OR push_bit 15 y"
  shows "m AND 0x3f = f" "drop_bit 6 (m AND 0xfc0) = t"
    "drop_bit 12 (m AND PROMOTION_TYPE_MASK) = p" "drop_bit 15 (m AND MOVE_TYPE_MASK) = y"
    "m AND NOT MOVE_TYPE_MASK = f OR push_bit 6 t OR push_bit 12 p"
proof -
  have hi: "n \<ge> 6 \<Longrightarrow> \<not> bit f n" "n \<ge> 6 \<Longrightarrow> \<not> bit t n" "n \<ge> 3 \<Longrightarrow> \<not> bit p n" "n \<ge> 3 \<Longrightarrow> \<not> bit y n" for n
    using assms(1-4) [of n] by auto
  show "m AND 0x3f = f"
    unfolding mask_6 m_def by (rule bit_word_eqI) (auto simp: bit_simps hi dest: assms(1))
  show "drop_bit 6 (m AND 0xfc0) = t"
    unfolding mask_6_12 drop_push_mask m_def
    by (rule bit_word_eqI) (auto simp: bit_simps hi dest: assms(2) bit_imp_le_length)
  show "drop_bit 12 (m AND PROMOTION_TYPE_MASK) = p"
    unfolding PROMOTION_TYPE_MASK_def mask_3 drop_push_mask m_def
    by (rule bit_word_eqI) (auto simp: bit_simps hi dest: assms(3) bit_imp_le_length)
  show "drop_bit 15 (m AND MOVE_TYPE_MASK) = y"
    unfolding MOVE_TYPE_MASK_def mask_3 drop_push_mask m_def
    by (rule bit_word_eqI) (auto simp: bit_simps hi dest: assms(4) bit_imp_le_length)
  show "m AND NOT MOVE_TYPE_MASK = f OR push_bit 6 t OR push_bit 12 p"
    unfolding MOVE_TYPE_MASK_def mask_3 m_def
    by (intro bit_word_eqI) (auto simp: bit_simps hi not_le dest!: assms(4))
qed

lemma mk_move_eq_promo: "mk_move f t ty = mk_move_promo f t PAWN ty"
  by (simp add: mk_move_def mk_move_promo_def)

lemma mk_move_promo_fields:
  assumes "on_board f" "on_board t"
  shows "from_square (mk_move_promo f t pt ty) = f"
    and "to_square (mk_move_promo f t pt ty) = t"
    and "promotion_piece_type (mk_move_promo f t pt ty) = (if pt = PAWN \<or> pt = KING then None else Some pt)"
    and "move_type (mk_move_promo f t pt ty) = ty"
proof -
  have sq: "uint (word_of_int s :: move) = s" if "on_board s" for s
    using that by (simp add: uint_word_of_int_eq take_bit_int_eq_self on_board_def)
  have pv: "uint (word_of_int (pt_value pt) :: move) = pt_value pt"
    using pt_value_range [of pt] by (simp add: uint_word_of_int_eq take_bit_int_eq_self)
  have mv: "unat (word_of_nat (mt_value ty) :: move) = mt_value ty"
    using mt_value_less [of ty] by (simp add: unat_of_nat take_bit_nat_eq_self)
  have lt: "bit (word_of_int s :: move) n \<Longrightarrow> n < 6" if "on_board s" for s n
    using bit_word_of_int_less [of s 6 n] that by (simp add: on_board_def)
  note F = packed_fields [of "word_of_int f" "word_of_int t" "word_of_int (pt_value pt)"
      "word_of_nat (mt_value ty)", OF lt [OF assms(1)] lt [OF assms(2)]
      bit_word_of_int_less [OF pt_value_range(1) pt_value_less] bit_word_of_nat_less [OF mt_value_less]]
  show "from_square (mk_move_promo f t pt ty) = f"
    using F(1) assms by (simp add: from_square_def mk_move_promo_def sq)
  show "to_square (mk_move_promo f t pt ty) = t"
    using F(2) assms by (simp add: to_square_def mk_move_promo_def sq)
  show "promotion_piece_type (mk_move_promo f t pt ty) = (if pt = PAWN \<or> pt = KING then None else Some pt)"
    using F(3) by (simp add: promotion_piece_type_def mk_move_promo_def pv Let_def)
  show "move_type (mk_move_promo f t pt ty) = ty"
    using F(4) by (simp add: move_type_def mk_move_promo_def mv)
qed

lemma mk_move_fields:
  assumes "on_board f" "on_board t"
  shows "from_square (mk_move f t ty) = f"
    and "to_square (mk_move f t ty) = t"
    and "promotion_piece_type (mk_move f t ty) = None"
    and "move_type (mk_move f t ty) = ty"
  using mk_move_promo_fields [OF assms, of PAWN ty] by (simp_all add: mk_move_eq_promo)

lemmas move_fields = mk_move_fields mk_move_promo_fields

lemma from_square_on_board [simp]: "on_board (from_square m)"
proof -
  have "m AND 0x3f = take_bit 6 m" by (simp add: take_bit_eq_mask mask_6)
  then show ?thesis using take_bit_int_less_exp [of 6 "uint m"]
    by (simp add: from_square_def on_board_def unsigned_take_bit_eq)
qed

lemma to_square_on_board [simp]: "on_board (to_square m)"
proof -
  have "drop_bit 6 (m AND 0xfc0) = take_bit 6 (drop_bit 6 m)"
    by (simp only: mask_6_12 drop_push_mask)
  then show ?thesis using take_bit_int_less_exp [of 6 "uint (drop_bit 6 m)"]
    by (simp add: to_square_def on_board_def unsigned_take_bit_eq)
qed

lemma value_sans_type_mk:
  assumes "on_board f" "on_board t"
  shows "value_sans_type (mk_move_promo f t pt ty) = mk_move_promo f t pt NONE"
proof -
  have lt: "bit (word_of_int s :: move) n \<Longrightarrow> n < 6" if "on_board s" for s n
    using bit_word_of_int_less [of s 6 n] that by (simp add: on_board_def)
  note F = packed_fields(5) [of "word_of_int f" "word_of_int t" "word_of_int (pt_value pt)"
      "word_of_nat (mt_value ty)", OF lt [OF assms(1)] lt [OF assms(2)]
      bit_word_of_int_less [OF pt_value_range(1) pt_value_less] bit_word_of_nat_less [OF mt_value_less]]
  show ?thesis using F by (simp add: value_sans_type_def mk_move_promo_def mt_value_def)
qed

lemma move_eq_same_fields:
  assumes "on_board f" "on_board t"
  shows "move_eq (mk_move_promo f t pt ty) (mk_move_promo f t pt ty')"
  by (simp add: move_eq_def value_sans_type_mk assms)

lemma value_sans_type_fields:
  "from_square (value_sans_type m) = from_square m" "to_square (value_sans_type m) = to_square m"
  "promotion_piece_type (value_sans_type m) = promotion_piece_type m"
proof -
  have k: "value_sans_type m AND k = m AND k" if "k AND MOVE_TYPE_MASK = 0" for k :: move
  proof (rule bit_word_eqI)
    fix n
    show "bit (value_sans_type m AND k) n = bit (m AND k) n" if "n < LENGTH(32)"
      using arg_cong [OF \<open>k AND MOVE_TYPE_MASK = 0\<close>, of "\<lambda>w. bit w n"] \<open>n < LENGTH(32)\<close>
      by (auto simp: value_sans_type_def bit_simps)
  qed
  have "value_sans_type m AND 0x3f = m AND 0x3f" "value_sans_type m AND 0xfc0 = m AND 0xfc0"
    "value_sans_type m AND PROMOTION_TYPE_MASK = m AND PROMOTION_TYPE_MASK"
    by (rule k; simp add: MOVE_TYPE_MASK_def PROMOTION_TYPE_MASK_def)+
  then show "from_square (value_sans_type m) = from_square m" "to_square (value_sans_type m) = to_square m"
    "promotion_piece_type (value_sans_type m) = promotion_piece_type m"
    by (simp_all add: from_square_def to_square_def promotion_piece_type_def)
qed

lemma move_eq_fields:
  assumes "move_eq a b"
  shows "from_square a = from_square b" "to_square a = to_square b"
    "promotion_piece_type a = promotion_piece_type b"
  using assms value_sans_type_fields unfolding move_eq_def by metis+

section \<open>Move text\<close>

lemma pt_from_to_char: "pt_from (pt_to_char pt) = Some pt"
  by (cases pt) (simp_all add: pt_from_def pt_to_char_def)

lemma length_sq_to_str [simp]: "length (sq_to_str s) = 2"
  by (simp add: sq_to_str_def)

lemma sq_from_str_prefix: "length a = 2 \<Longrightarrow> sq_from_str (a @ b) = sq_from_str a"
  by (simp add: sq_from_str_def str_at_def nth_append)

lemma move_from_to_str_mk:
  assumes "on_board f" "on_board t" "pt \<noteq> KING"
  shows "move_from_str (move_to_str (mk_move_promo f t pt ty)) = Some (mk_move_promo f t pt NONE)"
proof -
  note F = mk_move_promo_fields [OF assms(1,2), of pt ty]
  have two: "take 2 (sq_to_str f @ r) = sq_to_str f" "drop 2 (sq_to_str f @ r) = r" for r by simp_all
  show ?thesis
  proof (cases "pt = PAWN")
    case True
    then show ?thesis using assms F
      by (simp add: move_to_str_def move_from_str_def Let_def substr_def two sq_from_str_to_str
          mk_move_eq_promo)
  next
    case False
    then show ?thesis using assms F
      by (simp add: move_to_str_def move_from_str_def Let_def substr_def two sq_from_str_to_str
          sq_from_str_prefix pt_from_to_char str_at_def nth_append)
  qed
qed

section \<open>Move lists\<close>

type_synonym move_list = "move list"

definition ml_add :: "move_list \<Rightarrow> move \<Rightarrow> move_list" where
  "ml_add ml m = ml @ [m]"

definition ml_add_all :: "move_list \<Rightarrow> move_list \<Rightarrow> move_list" where
  "ml_add_all ml ms = fold (\<lambda>m l. ml_add l m) ms ml"

definition ml_pop_back :: "move_list \<Rightarrow> move_list" where
  "ml_pop_back ml = butlast ml"

definition ml_clear :: "move_list \<Rightarrow> move_list" where
  "ml_clear ml = []"

definition ml_contains :: "move_list \<Rightarrow> move \<Rightarrow> bool" where
  "ml_contains ml m \<longleftrightarrow> list_ex (\<lambda>x. move_eq x m) ml"

text \<open>\<open>MoveList::sort\<close>: the scores are computed once, then both vectors are insertion-sorted; the
  inner loop shifts smaller scores up by one and returns the index of the hole it leaves.\<close>

fun sort_shift :: "int list \<Rightarrow> 'a list \<Rightarrow> int \<Rightarrow> nat \<Rightarrow> int list \<times> 'a list \<times> nat" where
  "sort_shift scores moves moving_score 0 = (scores, moves, 0)"
| "sort_shift scores moves moving_score (Suc j) =
     (if scores ! j < moving_score
      then sort_shift (scores[Suc j := scores ! j]) (moves[Suc j := moves ! j]) moving_score j
      else (scores, moves, Suc j))"

definition sort_step :: "nat \<Rightarrow> int list \<times> 'a list \<Rightarrow> int list \<times> 'a list" where
  "sort_step i = (\<lambda>(scores, moves).
     let moving_move = moves ! i; moving_score = scores ! i;
         (scores', moves', j) = sort_shift scores moves moving_score i
     in (scores'[j := moving_score], moves'[j := moving_move]))"

definition ml_sort :: "('a \<Rightarrow> int) \<Rightarrow> 'a list \<Rightarrow> 'a list" where
  "ml_sort move_evaluator moves =
     (let scores = map move_evaluator moves
      in snd (fold sort_step [1..<length moves] (scores, moves)))"

lemma ml_add_all_append [simp]: "ml_add_all ml ms = ml @ ms"
  by (induction ms arbitrary: ml) (auto simp: ml_add_all_def ml_add_def)

lemma sort_shift_spec:
  assumes "sorted_wrt (\<lambda>a b. ev b \<le> ev a) ys"
    and "sort_shift (map ev ys @ h' # map ev zs) (ys @ h # zs) (ev x) (length ys) = (S, M, j)"
  shows "(S[j := ev x], M[j := x]) =
    (let r = takeWhile (\<lambda>y. ev x \<le> ev y) ys @ x # dropWhile (\<lambda>y. ev x \<le> ev y) ys @ zs in (map ev r, r))"
  using assms
proof (induction ys arbitrary: h h' zs rule: rev_induct)
  case Nil
  then show ?case by (auto simp: Let_def)
next
  case (snoc y ys)
  show ?case
  proof (cases "ev y < ev x")
    case True
    have "sort_shift (map ev ys @ ev y # map ev (y # zs)) (ys @ y # (y # zs)) (ev x) (length ys) = (S, M, j)"
      using snoc.prems(2) True by (simp add: nth_append list_update_append)
    from snoc.IH [OF _ this] snoc.prems(1) have
      "(S[j := ev x], M[j := x]) =
        (let r = takeWhile (\<lambda>y. ev x \<le> ev y) ys @ x # dropWhile (\<lambda>y. ev x \<le> ev y) ys @ y # zs in (map ev r, r))"
      by (simp add: sorted_wrt_append)
    moreover have "takeWhile (\<lambda>y. ev x \<le> ev y) (ys @ [y]) = takeWhile (\<lambda>y. ev x \<le> ev y) ys"
      "dropWhile (\<lambda>y. ev x \<le> ev y) (ys @ [y]) = dropWhile (\<lambda>y. ev x \<le> ev y) ys @ [y]"
      using True by (induction ys) auto
    ultimately show ?thesis by simp
  next
    case False
    then have "\<forall>y'\<in>set (ys @ [y]). ev x \<le> ev y'"
      using snoc.prems(1) by (auto simp: sorted_wrt_append)
    then have "takeWhile (\<lambda>y. ev x \<le> ev y) (ys @ [y]) = ys @ [y]"
      "dropWhile (\<lambda>y. ev x \<le> ev y) (ys @ [y]) = []"
      by (auto simp: takeWhile_eq_all_conv dropWhile_eq_Nil_conv)
    moreover have "(S, M, j) = (map ev (ys @ [y]) @ h' # map ev zs, (ys @ [y]) @ h # zs, Suc (length ys))"
      using snoc.prems(2) False by (simp add: nth_append)
    ultimately show ?thesis by (simp add: list_update_append)
  qed
qed

lemma sort_key_desc_snoc:
  fixes ev :: "'a \<Rightarrow> int"
  defines "srt \<equiv> sort_key (\<lambda>m. - ev m)"
  shows "srt (xs @ [x]) =
    takeWhile (\<lambda>y. ev x \<le> ev y) (srt xs) @ x # dropWhile (\<lambda>y. ev x \<le> ev y) (srt xs)"
  unfolding srt_def
proof (rule properties_for_sort_key)
  let ?p = "\<lambda>y. ev x \<le> ev y" and ?s = "sort_key (\<lambda>m. - ev m) xs"
  have mtd: "mset (takeWhile ?p ?s) + mset (dropWhile ?p ?s) = mset xs"
    by (metis mset_append mset_sort takeWhile_dropWhile_id)
  show "mset (takeWhile ?p ?s @ x # dropWhile ?p ?s) = mset (xs @ [x])"
    using mtd by simp
  have srt: "sorted (map (\<lambda>m. - ev m) ?s)" by simp
  then have sw: "sorted_wrt (\<lambda>a b. ev b \<le> ev a) ?s" by (simp add: sorted_map)
  have low: "ev y < ev x" if "y \<in> set (dropWhile ?p ?s)" for y
  proof -
    from that obtain z zs where z: "dropWhile ?p ?s = z # zs" by (cases "dropWhile ?p ?s") auto
    then have "\<not> ?p z" by (metis dropWhile_eq_Cons_conv)
    moreover have "sorted_wrt (\<lambda>a b. ev b \<le> ev a) (z # zs)"
      using sw z by (metis sorted_wrt_append takeWhile_dropWhile_id)
    ultimately show ?thesis using that z by fastforce
  qed
  show "filter (\<lambda>y. - ev k = - ev y) (takeWhile ?p ?s @ x # dropWhile ?p ?s) =
      filter (\<lambda>y. - ev k = - ev y) (xs @ [x])" if "k \<in> set (takeWhile ?p ?s @ x # dropWhile ?p ?s)" for k
  proof -
    have st: "filter (\<lambda>y. - ev k = - ev y) ?s = filter (\<lambda>y. - ev k = - ev y) xs"
      by (metis (mono_tags, lifting) filter_cong sort_key_stable)
    have "filter (\<lambda>y. ev k = ev y) (takeWhile ?p ?s @ x # dropWhile ?p ?s) =
        filter (\<lambda>y. ev k = ev y) (takeWhile ?p ?s @ dropWhile ?p ?s @ [x])"
    proof (cases "ev k = ev x")
      case True
      then have "filter (\<lambda>y. ev k = ev y) (dropWhile ?p ?s) = []"
        using low by (fastforce simp: filter_empty_conv)
      then show ?thesis using True by simp
    next
      case False
      then show ?thesis by simp
    qed
    also have "\<dots> = filter (\<lambda>y. ev k = ev y) (?s @ [x])"
      by (metis append_assoc takeWhile_dropWhile_id)
    finally show ?thesis using st by simp
  qed
  have "sorted_wrt (\<lambda>a b. ev b \<le> ev a) (takeWhile ?p ?s @ x # dropWhile ?p ?s)"
  proof -
    have "sorted_wrt (\<lambda>a b. ev b \<le> ev a) (takeWhile ?p ?s @ dropWhile ?p ?s)" using sw by simp
    moreover have hi: "ev x \<le> ev y" if "y \<in> set (takeWhile ?p ?s)" for y
      using that by (auto dest: set_takeWhileD)
    moreover have le: "ev y \<le> ev x" if "y \<in> set (dropWhile ?p ?s)" for y
      using low [OF that] by simp
    ultimately show ?thesis by (auto simp: sorted_wrt_append intro: order_trans [OF le hi])
  qed
  then show "sorted (map (\<lambda>m. - ev m) (takeWhile ?p ?s @ x # dropWhile ?p ?s))"
    by (subst sorted_map) simp
qed

lemma sort_steps:
  fixes ev :: "'a \<Rightarrow> int"
  assumes "0 < n" "n \<le> length moves"
  shows "fold sort_step [1..<n] (map ev moves, moves) =
    (let r = sort_key (\<lambda>m. - ev m) (take n moves) @ drop n moves in (map ev r, r))"
  using assms
proof (induction n)
  case (Suc n)
  show ?case
  proof (cases "n = 0")
    case True
    then obtain m ms where "moves = m # ms" using Suc.prems by (cases moves) auto
    then show ?thesis using True by (simp add: Let_def)
  next
    case False
    let ?s = "sort_key (\<lambda>m. - ev m) (take n moves)"
    define x where "x = moves ! n"
    have d: "drop n moves = x # drop (Suc n) moves" "take (Suc n) moves = take n moves @ [x]"
      using Suc.prems by (simp_all add: Cons_nth_drop_Suc take_Suc_conv_app_nth x_def)
    have len: "length ?s = n" using Suc.prems by simp
    have "fold sort_step [1..<Suc n] (map ev moves, moves) =
        sort_step n (map ev ?s @ ev x # map ev (drop (Suc n) moves), ?s @ x # drop (Suc n) moves)"
      using Suc False d(1) by (simp add: Let_def)
    also have "\<dots> = (let r = takeWhile (\<lambda>y. ev x \<le> ev y) ?s @ x # dropWhile (\<lambda>y. ev x \<le> ev y) ?s
        @ drop (Suc n) moves in (map ev r, r))"
    proof -
      obtain S M j where smj: "sort_shift (map ev ?s @ ev x # map ev (drop (Suc n) moves))
          (?s @ x # drop (Suc n) moves) (ev x) (length ?s) = (S, M, j)"
        by (metis prod_cases3)
      have "sorted_wrt (\<lambda>a b. ev b \<le> ev a) ?s"
        using sorted_sort_key [of "\<lambda>m. - ev m" "take n moves"] by (simp add: sorted_map)
      from sort_shift_spec [OF this smj] show ?thesis
        using smj len by (simp add: sort_step_def Let_def nth_append)
    qed
    finally show ?thesis using d(2) sort_key_desc_snoc [of ev "take n moves" x]
      by (simp add: Let_def)
  qed
qed simp

lemma ml_sort_eq_sort_key: "ml_sort ev moves = sort_key (\<lambda>m. - ev m) moves"
proof (cases moves)
  case (Cons m ms)
  then show ?thesis
    using sort_steps [of "length moves" moves ev] by (simp add: ml_sort_def Let_def)
qed (simp add: ml_sort_def)

section \<open>Properties\<close>

text \<open>Every accessor of a packed move reads back the field the constructor stored; a
  pawn or king promotion piece reads as no promotion.\<close>

theorem move_accessors_invert_constructor:
  assumes "on_board f" "on_board t"
  shows "from_square (mk_move_promo f t pt ty) = f \<and> to_square (mk_move_promo f t pt ty) = t \<and>
    move_type (mk_move_promo f t pt ty) = ty \<and>
    promotion_piece_type (mk_move_promo f t pt ty) = (if pt = PAWN \<or> pt = KING then None else Some pt)"
  using mk_move_promo_fields [OF assms] by blast

theorem move_accessors_invert_constructor_witness:
  "move_type (mk_move_promo 52 60 QUEEN PROMOTION) = PROMOTION \<and>
    promotion_piece_type (mk_move_promo 52 60 QUEEN PROMOTION) = Some QUEEN"
  using move_accessors_invert_constructor [of 52 60 QUEEN PROMOTION] by (simp add: on_board_def)

text \<open>The long algebraic text of a move parses back to a move with the same origin,
  destination and promotion piece, so equal to it (\<open>operator==\<close>), but with its type lost.\<close>

theorem move_text_roundtrip:
  assumes "on_board f" "on_board t" "pt \<noteq> KING"
  shows "\<exists>m. move_from_str (move_to_str (mk_move_promo f t pt ty)) = Some m \<and>
    move_eq m (mk_move_promo f t pt ty) \<and> move_type m = NONE"
  using move_from_to_str_mk [OF assms] mk_move_promo_fields(4) [OF assms(1,2)]
    move_eq_same_fields [OF assms(1,2)] by blast

theorem move_text_roundtrip_witness:
  "\<exists>m. move_from_str (move_to_str (mk_move_promo 12 28 PAWN DOUBLE_PUSH)) = Some m \<and>
    move_eq m (mk_move_promo 12 28 PAWN DOUBLE_PUSH) \<and> move_type m = NONE"
  by (rule move_text_roundtrip) (simp_all add: on_board_def)

text \<open>\<open>MoveList::sort\<close>, an insertion sort over two parallel vectors, is the stable
  sort by descending score.\<close>

theorem move_list_sort_stable_descending:
  "ml_sort move_evaluator moves = sort_key (\<lambda>m. - move_evaluator m) moves"
  by (rule ml_sort_eq_sort_key)

end
