(* ===== verification/Positions.thy ===== *)
theory Positions
  imports Lookups Moves Castling Zobrist_Table
begin

text \<open>
  The position, \<open>libchess/Position.h\<close>, \<open>Position/Getters.h\<close>, \<open>Position/Attacks.h\<close> and
  \<open>internal/Zobrist.h\<close>: six piece bitboards, two colour bitboards, the side to move, the counters and
  the stack of states that \<open>make_move\<close> pushes and \<open>unmake_move\<close> pops.  The two bitboard arrays are
  functions of the piece type and the colour; the state stack is a list indexed by \<open>ply\<close>.  Reading
  an empty \<open>std::optional\<close>, undefined in the source, is \<open>the None\<close> here; no claim is made about it.
\<close>

section \<open>State\<close>

record state =
  st_castling_rights :: castling_rights
  st_enpassant_square :: "int option"
  st_previous_move :: "move option"
  st_captured_pt :: "piece_type option"
  st_move_type :: move_type
  st_hash :: "64 word"
  st_halfmoves :: int

definition initial_state :: state where
  "initial_state = \<lparr>st_castling_rights = CASTLING_RIGHT_NONE, st_enpassant_square = None,
     st_previous_move = None, st_captured_pt = None, st_move_type = NONE, st_hash = 0, st_halfmoves = 0\<rparr>"

record position =
  pos_piece_bb :: "piece_type \<Rightarrow> bitboard"
  pos_color_bb :: "color \<Rightarrow> bitboard"
  pos_side_to_move :: color
  pos_fullmoves :: int
  pos_ply :: int
  pos_history :: "state list"
  pos_start_fen :: string

definition empty_position :: position where
  "empty_position = \<lparr>pos_piece_bb = (\<lambda>_. 0), pos_color_bb = (\<lambda>_. 0), pos_side_to_move = WHITE,
     pos_fullmoves = 0, pos_ply = 0, pos_history = [], pos_start_fen = []\<rparr>"

definition state_at :: "position \<Rightarrow> int \<Rightarrow> state" where
  "state_at p i = pos_history p ! nat i"

definition cur_state :: "position \<Rightarrow> state" where
  "cur_state p = pos_history p ! nat (pos_ply p)"

text \<open>Writing through \<open>state_mut_ref()\<close>.\<close>

definition update_state :: "(state \<Rightarrow> state) \<Rightarrow> position \<Rightarrow> position" where
  "update_state f p = p\<lparr>pos_history := (pos_history p)[nat (pos_ply p) := f (cur_state p)]\<rparr>"

section \<open>Board updates\<close>

definition put_piece :: "int \<Rightarrow> piece_type \<Rightarrow> color \<Rightarrow> position \<Rightarrow> position" where
  "put_piece square pt c p =
     p\<lparr>pos_piece_bb := (pos_piece_bb p)(pt := pos_piece_bb p pt OR square_bb square),
       pos_color_bb := (pos_color_bb p)(c := pos_color_bb p c OR square_bb square)\<rparr>"

definition remove_piece :: "int \<Rightarrow> piece_type \<Rightarrow> color \<Rightarrow> position \<Rightarrow> position" where
  "remove_piece square pt c p =
     p\<lparr>pos_piece_bb := (pos_piece_bb p)(pt := pos_piece_bb p pt AND NOT (square_bb square)),
       pos_color_bb := (pos_color_bb p)(c := pos_color_bb p c AND NOT (square_bb square))\<rparr>"

definition move_piece :: "int \<Rightarrow> int \<Rightarrow> piece_type \<Rightarrow> color \<Rightarrow> position \<Rightarrow> position" where
  "move_piece from_sq to_sq pt c p =
     (let from_to_sqs_bb = square_bb from_sq XOR square_bb to_sq
      in p\<lparr>pos_piece_bb := (pos_piece_bb p)(pt := pos_piece_bb p pt XOR from_to_sqs_bb),
           pos_color_bb := (pos_color_bb p)(c := pos_color_bb p c XOR from_to_sqs_bb)\<rparr>)"

definition reverse_side_to_move :: "position \<Rightarrow> position" where
  "reverse_side_to_move p = p\<lparr>pos_side_to_move := opp (pos_side_to_move p)\<rparr>"

section \<open>Getters\<close>

definition piece_type_color_bb :: "position \<Rightarrow> piece_type \<Rightarrow> color \<Rightarrow> bitboard" where
  "piece_type_color_bb p pt c = pos_piece_bb p pt AND pos_color_bb p c"

definition occupancy_bb :: "position \<Rightarrow> bitboard" where
  "occupancy_bb p = pos_color_bb p WHITE OR pos_color_bb p BLACK"

definition castling_rights :: "position \<Rightarrow> castling_rights" where
  "castling_rights p = st_castling_rights (cur_state p)"

definition enpassant_square :: "position \<Rightarrow> int option" where
  "enpassant_square p = st_enpassant_square (cur_state p)"

definition halfmoves :: "position \<Rightarrow> int" where
  "halfmoves p = st_halfmoves (cur_state p)"

definition previous_move :: "position \<Rightarrow> move option" where
  "previous_move p = st_previous_move (cur_state p)"

definition previously_captured_piece :: "position \<Rightarrow> piece_type option" where
  "previously_captured_piece p = st_captured_pt (cur_state p)"

definition pos_hash :: "position \<Rightarrow> 64 word" where
  "pos_hash p = st_hash (cur_state p)"

definition king_square :: "position \<Rightarrow> color \<Rightarrow> int" where
  "king_square p c = forward_bitscan (piece_type_color_bb p KING c)"

definition piece_type_on :: "position \<Rightarrow> int \<Rightarrow> piece_type option" where
  "piece_type_on p square = find (\<lambda>pt. pos_piece_bb p pt AND square_bb square \<noteq> 0) PIECE_TYPES"

definition color_of :: "position \<Rightarrow> int \<Rightarrow> color option" where
  "color_of p square = find (\<lambda>c. pos_color_bb p c AND square_bb square \<noteq> 0) COLORS"

definition piece_on :: "position \<Rightarrow> int \<Rightarrow> piece option" where
  "piece_on p square = piece_from (piece_type_on p square) (color_of p square)"

text \<open>The repetition loops run over the indices \<open>ply - 2, ply - 4, ...\<close> down to \<open>num_keys\<close>.\<close>

function down_by_2 :: "int \<Rightarrow> int \<Rightarrow> int list" where
  "down_by_2 i lo = (if i < lo then [] else i # down_by_2 (i - 2) lo)"
  by pat_completeness auto
termination by (relation "measure (\<lambda>(i, lo). nat (i - lo + 1))") auto

declare down_by_2.simps [simp del]

fun repeat_loop :: "(int \<Rightarrow> bool) \<Rightarrow> int \<Rightarrow> int \<Rightarrow> int list \<Rightarrow> bool" where
  "repeat_loop same n cnt [] = False"
| "repeat_loop same n cnt (i # is) =
     (if same i then (if cnt + 1 \<ge> n then True else repeat_loop same n (cnt + 1) is)
      else repeat_loop same n cnt is)"

definition is_repeat :: "position \<Rightarrow> int \<Rightarrow> bool" where
  "is_repeat p n =
     (let curr_hash = pos_hash p; num_keys = max 0 (pos_ply p - halfmoves p)
      in repeat_loop (\<lambda>i. st_hash (state_at p i) = curr_hash) n 0 (down_by_2 (pos_ply p - 2) num_keys))"

definition repeat_count :: "position \<Rightarrow> int" where
  "repeat_count p =
     (let curr_hash = pos_hash p; num_keys = max 0 (pos_ply p - halfmoves p)
      in fold (\<lambda>i cnt. if st_hash (state_at p i) = curr_hash then cnt + 1 else cnt)
           (down_by_2 (pos_ply p - 2) num_keys) 0)"

section \<open>Attacks\<close>

definition attackers_to_occ :: "position \<Rightarrow> int \<Rightarrow> bitboard \<Rightarrow> bitboard" where
  "attackers_to_occ p square occupancy =
     fold (\<lambda>pt attackers. attackers OR (non_pawn_piece_type_attacks pt square occupancy AND pos_piece_bb p pt))
       [KNIGHT, BISHOP, ROOK, QUEEN, KING]
       ((pawn_attacks square WHITE AND piece_type_color_bb p PAWN BLACK)
        OR (pawn_attacks square BLACK AND piece_type_color_bb p PAWN WHITE))"

definition attackers_to :: "position \<Rightarrow> int \<Rightarrow> bitboard" where
  "attackers_to p square = attackers_to_occ p square (occupancy_bb p)"

definition attackers_to_of :: "position \<Rightarrow> int \<Rightarrow> color \<Rightarrow> bitboard" where
  "attackers_to_of p square c = attackers_to_occ p square (occupancy_bb p) AND pos_color_bb p c"

definition attackers_to_occ_of :: "position \<Rightarrow> int \<Rightarrow> bitboard \<Rightarrow> color \<Rightarrow> bitboard" where
  "attackers_to_occ_of p square occupancy c = attackers_to_occ p square occupancy AND pos_color_bb p c"

definition checkers_to :: "position \<Rightarrow> color \<Rightarrow> bitboard" where
  "checkers_to p c = attackers_to_of p (king_square p c) (opp c)"

definition in_check :: "position \<Rightarrow> bool" where
  "in_check p \<longleftrightarrow> checkers_to p (pos_side_to_move p) \<noteq> 0"

definition attacks_of_piece_on :: "position \<Rightarrow> int \<Rightarrow> bitboard" where
  "attacks_of_piece_on p square =
     (case piece_on p square of
        None \<Rightarrow> 0
      | Some piece \<Rightarrow>
          if p_type piece = PAWN then pawn_attacks square (p_color piece)
          else non_pawn_piece_type_attacks (p_type piece) square (occupancy_bb p))"

definition pinned_pieces_of :: "position \<Rightarrow> color \<Rightarrow> bitboard" where
  "pinned_pieces_of p c =
     (let king_sq = king_square p c;
          pinners_bb = ((pos_piece_bb p QUEEN OR pos_piece_bb p ROOK) AND pos_color_bb p (opp c)
                         AND rook_rays king_sq)
                       OR ((pos_piece_bb p QUEEN OR pos_piece_bb p BISHOP) AND pos_color_bb p (opp c)
                         AND bishop_rays king_sq)
      in fold (\<lambda>sq pinned_bb.
                 let bb = intervening sq king_sq AND occupancy_bb p
                 in if popcount bb = 1 then pinned_bb XOR (bb AND pos_color_bb p c) else pinned_bb)
              (bb_squares pinners_bb) 0)"

section \<open>Zobrist keys and the hash\<close>

definition piece_square_key :: "int \<Rightarrow> piece_type \<Rightarrow> color \<Rightarrow> 64 word" where
  "piece_square_key square pt c =
     (let piece_offset = pt_value pt * 2 + (if c = WHITE then 1 else 0)
      in random_u64 ! nat (piece_offset * 64 + square))"

definition castling_rights_key :: "castling_rights \<Rightarrow> 64 word" where
  "castling_rights_key rights =
     (let hash = 0;
          hash = (if cr_is_allowed WHITE_KINGSIDE rights then hash XOR random_u64 ! (768 + 0) else hash);
          hash = (if cr_is_allowed WHITE_QUEENSIDE rights then hash XOR random_u64 ! (768 + 1) else hash);
          hash = (if cr_is_allowed BLACK_KINGSIDE rights then hash XOR random_u64 ! (768 + 2) else hash);
          hash = (if cr_is_allowed BLACK_QUEENSIDE rights then hash XOR random_u64 ! (768 + 3) else hash)
      in hash)"

definition enpassant_key :: "int \<Rightarrow> 64 word" where
  "enpassant_key square = random_u64 ! nat (772 + sq_file square)"

definition side_to_move_key :: "64 word" where
  "side_to_move_key = random_u64 ! 780"

text \<open>\<open>zobrist_enpassant_key\<close>: \<open>None\<close> is the exception of \<open>color_of(...).value()\<close> on an empty square.\<close>

definition zobrist_enpassant_key :: "position \<Rightarrow> int \<Rightarrow> (64 word) option" where
  "zobrist_enpassant_key p square =
     (let file = sq_file square; rank = sq_rank square;
          hunter_rank = (if rank = 5 then 4 else 3);
          hunted_index = file + hunter_rank * 8
      in case color_of p hunted_index of
           None \<Rightarrow> None
         | Some hunted \<Rightarrow>
             let hunter = (\<lambda>index. case piece_on p index of
                   None \<Rightarrow> False
                 | Some piece \<Rightarrow> p_color piece \<noteq> hunted \<and> p_type piece = PAWN)
             in Some (if file > 0 \<and> hunter (hunted_index - 1) then enpassant_key square
                      else if file < 7 \<and> hunter (hunted_index + 1) then enpassant_key square
                      else 0))"

definition hash_pieces :: "position \<Rightarrow> 64 word" where
  "hash_pieces p =
     fold (\<lambda>c. fold (\<lambda>pt. fold (\<lambda>sq hash_value. hash_value XOR piece_square_key sq pt c)
                               (bb_squares (piece_type_color_bb p pt c)))
                 PIECE_TYPES)
       COLORS 0"

definition calculate_hash :: "position \<Rightarrow> 64 word" where
  "calculate_hash p =
     (let hash_value = hash_pieces p;
          hash_value = (case enpassant_square p of
              None \<Rightarrow> hash_value
            | Some ep_sq \<Rightarrow>
                let stm = pos_side_to_move p;
                    ep_candidates = pos_piece_bb p PAWN AND pos_color_bb p stm AND pawn_attacks ep_sq (opp stm)
                in if ep_candidates \<noteq> 0 then hash_value XOR enpassant_key ep_sq else hash_value);
          hash_value = hash_value XOR castling_rights_key (castling_rights p)
      in if pos_side_to_move p = WHITE then hash_value XOR side_to_move_key else hash_value)"

section \<open>Well-formed positions\<close>

text \<open>Every square has at most one piece type and at most one colour, and has a type exactly when
  it has a colour; the state stack is as high as the ply says.\<close>

definition board_ok :: "position \<Rightarrow> bool" where
  "board_ok p \<longleftrightarrow>
     (\<forall>pt pt'. pt \<noteq> pt' \<longrightarrow> pos_piece_bb p pt AND pos_piece_bb p pt' = 0) \<and>
     pos_color_bb p WHITE AND pos_color_bb p BLACK = 0 \<and>
     pos_piece_bb p PAWN OR pos_piece_bb p KNIGHT OR pos_piece_bb p BISHOP OR pos_piece_bb p ROOK
       OR pos_piece_bb p QUEEN OR pos_piece_bb p KING = occupancy_bb p"

definition stack_ok :: "position \<Rightarrow> bool" where
  "stack_ok p \<longleftrightarrow> 0 \<le> pos_ply p \<and> length (pos_history p) = nat (pos_ply p) + 1"

end
