(* ===== verification/Make_Move.thy ===== *)
theory Make_Move
  imports Positions
begin

text \<open>
  \<open>Position/MoveIntegration.h\<close>: classifying a move, making it, making a null move and taking it
  back.  \<open>apply_move\<close> is the switch of \<open>make_move\<close> over the move type: it returns the changed board,
  the new en passant square, the updated hash and the flag that asks for the hash to be computed
  from scratch.
\<close>

section \<open>Definitions\<close>

definition move_type_of :: "position \<Rightarrow> move \<Rightarrow> move_type" where
  "move_type_of p m =
     (if move_type m \<noteq> NONE then move_type m
      else let to_sq = to_square m; from_sq = from_square m;
               moving_pt = piece_type_on p from_sq; captured_pt = piece_type_on p to_sq;
               promotion_pt = promotion_piece_type m
        in if promotion_pt \<noteq> None then (if captured_pt \<noteq> None then CAPTURE_PROMOTION else PROMOTION)
           else if captured_pt \<noteq> None then CAPTURE
           else if moving_pt = Some PAWN then
             (let sq_diff = \<bar>to_sq - from_sq\<bar>
              in if sq_diff = 16 then DOUBLE_PUSH
                 else if sq_diff = 9 \<or> sq_diff = 7 then ENPASSANT
                 else NORMAL)
           else if moving_pt = Some KING \<and> \<bar>to_sq - from_sq\<bar> = 2 then CASTLING
           else NORMAL)"

definition is_capture_move :: "move \<Rightarrow> bool" where
  "is_capture_move m \<longleftrightarrow> move_type m \<in> {CAPTURE, CAPTURE_PROMOTION, ENPASSANT}"

definition is_promotion_move :: "move \<Rightarrow> bool" where
  "is_promotion_move m \<longleftrightarrow> move_type m \<in> {PROMOTION, CAPTURE_PROMOTION}"

definition castling_spoilers :: "int list" where
  "castling_spoilers =
     [13, 15, 15, 15, 12, 15, 15, 14,
      15, 15, 15, 15, 15, 15, 15, 15,
      15, 15, 15, 15, 15, 15, 15, 15,
      15, 15, 15, 15, 15, 15, 15, 15,
      15, 15, 15, 15, 15, 15, 15, 15,
      15, 15, 15, 15, 15, 15, 15, 15,
      15, 15, 15, 15, 15, 15, 15, 15,
      7,  15, 15, 15, 3,  15, 15, 11]"

text \<open>The square of the pawn an en passant capture to \<open>to_sq\<close> takes.\<close>

definition ep_victim :: "color \<Rightarrow> int \<Rightarrow> int" where
  "ep_victim stm to_sq = (if stm = WHITE then to_sq - 8 else to_sq + 8)"

text \<open>The rook's part of castling, by the king's destination: from the corner and back.\<close>

definition castle_rook :: "int \<Rightarrow> color \<Rightarrow> position \<Rightarrow> position" where
  "castle_rook to_sq stm p =
     (if to_sq = C1 then move_piece A1 D1 ROOK stm p
      else if to_sq = G1 then move_piece H1 F1 ROOK stm p
      else if to_sq = C8 then move_piece A8 D8 ROOK stm p
      else if to_sq = G8 then move_piece H8 F8 ROOK stm p
      else p)"

definition uncastle_rook :: "int \<Rightarrow> color \<Rightarrow> position \<Rightarrow> position" where
  "uncastle_rook to_sq stm p =
     (if to_sq = C1 then move_piece D1 A1 ROOK stm p
      else if to_sq = G1 then move_piece F1 H1 ROOK stm p
      else if to_sq = C8 then move_piece D8 A8 ROOK stm p
      else if to_sq = G8 then move_piece F8 H8 ROOK stm p
      else p)"

text \<open>The en passant key is part of the hash only when a pawn of \<open>c\<close> can capture on the square.\<close>

definition xor_ep :: "position \<Rightarrow> int option \<Rightarrow> color \<Rightarrow> 64 word \<Rightarrow> 64 word" where
  "xor_ep p ep c h =
     (case ep of
        None \<Rightarrow> h
      | Some sq \<Rightarrow>
          if pos_piece_bb p PAWN AND pos_color_bb p c AND pawn_attacks sq (opp c) \<noteq> 0
          then h XOR enpassant_key sq else h)"

definition apply_move ::
  "move_type \<Rightarrow> int \<Rightarrow> int \<Rightarrow> piece_type option \<Rightarrow> piece_type option \<Rightarrow> piece_type option \<Rightarrow> color
    \<Rightarrow> 64 word \<Rightarrow> position \<Rightarrow> position \<times> int option \<times> 64 word \<times> bool" where
  "apply_move ty from_sq to_sq moving_pt captured_pt promotion_pt stm h p =
     (case ty of
        NORMAL \<Rightarrow>
          (move_piece from_sq to_sq (the moving_pt) stm p, None,
           h XOR piece_square_key from_sq (the moving_pt) stm XOR piece_square_key to_sq (the moving_pt) stm,
           False)
      | CAPTURE \<Rightarrow>
          (move_piece from_sq to_sq (the moving_pt) stm (remove_piece to_sq (the captured_pt) (opp stm) p), None,
           h XOR piece_square_key to_sq (the captured_pt) (opp stm)
             XOR piece_square_key from_sq (the moving_pt) stm XOR piece_square_key to_sq (the moving_pt) stm,
           False)
      | DOUBLE_PUSH \<Rightarrow>
          (let p' = move_piece from_sq to_sq PAWN stm p;
               ep = (if stm = WHITE then from_sq + 8 else from_sq - 8)
           in (p', Some ep,
               xor_ep p' (Some ep) (opp stm) h
                 XOR piece_square_key from_sq PAWN stm XOR piece_square_key to_sq PAWN stm,
               False))
      | ENPASSANT \<Rightarrow>
          (remove_piece (ep_victim stm to_sq) PAWN (opp stm) (move_piece from_sq to_sq PAWN stm p), None, h, True)
      | CASTLING \<Rightarrow>
          (castle_rook to_sq stm (move_piece from_sq to_sq KING stm p), None, h, True)
      | PROMOTION \<Rightarrow>
          (put_piece to_sq (the promotion_pt) stm (remove_piece from_sq PAWN stm p), None,
           h XOR piece_square_key from_sq PAWN stm XOR piece_square_key to_sq (the promotion_pt) stm,
           False)
      | CAPTURE_PROMOTION \<Rightarrow>
          (put_piece to_sq (the promotion_pt) stm
             (remove_piece from_sq PAWN stm (remove_piece to_sq (the captured_pt) (opp stm) p)), None,
           h XOR piece_square_key to_sq (the captured_pt) (opp stm)
             XOR piece_square_key from_sq PAWN stm XOR piece_square_key to_sq (the promotion_pt) stm,
           False)
      | NONE \<Rightarrow> (p, None, h, True))"

definition make_move :: "move \<Rightarrow> position \<Rightarrow> position" where
  "make_move m p =
     (let stm = pos_side_to_move p; prev = cur_state p;
          from_sq = from_square m; to_sq = to_square m;
          rights = st_castling_rights prev AND castling_spoilers ! nat from_sq
                     AND castling_spoilers ! nat to_sq;
          moving_pt = piece_type_on p from_sq; captured_pt = piece_type_on p to_sq;
          promotion_pt = promotion_piece_type m;
          ty = move_type_of p m;
          halfmoves = (if moving_pt = Some PAWN \<or> captured_pt \<noteq> None then 0 else st_halfmoves prev + 1);
          h0 = xor_ep p (st_enpassant_square prev) stm (st_hash prev);
          (board, ep, h1, calc_hash) = apply_move ty from_sq to_sq moving_pt captured_pt promotion_pt stm h0 p;
          next = \<lparr>st_castling_rights = rights, st_enpassant_square = ep, st_previous_move = Some m,
                  st_captured_pt = captured_pt, st_move_type = ty, st_hash = h1, st_halfmoves = halfmoves\<rparr>;
          p' = board\<lparr>pos_fullmoves := (if stm = BLACK then pos_fullmoves p + 1 else pos_fullmoves p),
                     pos_ply := pos_ply p + 1,
                     pos_history := pos_history p @ [next],
                     pos_side_to_move := opp stm\<rparr>
      in update_state (\<lambda>st. st\<lparr>st_hash :=
           (if calc_hash then calculate_hash p'
            else h1 XOR side_to_move_key XOR castling_rights_key (st_castling_rights prev)
              XOR castling_rights_key rights)\<rparr>) p')"

definition make_null_move :: "position \<Rightarrow> position" where
  "make_null_move p =
     (let stm = pos_side_to_move p; prev = cur_state p;
          next = initial_state
            \<lparr>st_previous_move := None, st_halfmoves := st_halfmoves prev + 1,
             st_castling_rights := st_castling_rights prev,
             st_hash := xor_ep p (st_enpassant_square prev) stm (st_hash prev) XOR side_to_move_key,
             st_enpassant_square := None\<rparr>
      in p\<lparr>pos_fullmoves := (if stm = BLACK then pos_fullmoves p + 1 else pos_fullmoves p),
           pos_ply := pos_ply p + 1,
           pos_history := pos_history p @ [next],
           pos_side_to_move := opp stm\<rparr>)"

definition unapply_move ::
  "move_type \<Rightarrow> int \<Rightarrow> int \<Rightarrow> piece_type option \<Rightarrow> piece_type option \<Rightarrow> color \<Rightarrow> position \<Rightarrow> position" where
  "unapply_move ty from_sq to_sq captured_pt promotion_pt stm p =
     (let moving_pt = piece_type_on p to_sq in
      case ty of
        NORMAL \<Rightarrow> move_piece to_sq from_sq (the moving_pt) stm p
      | CAPTURE \<Rightarrow>
          put_piece to_sq (the captured_pt) (opp stm) (move_piece to_sq from_sq (the moving_pt) stm p)
      | DOUBLE_PUSH \<Rightarrow> move_piece to_sq from_sq PAWN stm p
      | ENPASSANT \<Rightarrow>
          move_piece to_sq from_sq PAWN stm (put_piece (ep_victim stm to_sq) PAWN (opp stm) p)
      | CASTLING \<Rightarrow> uncastle_rook to_sq stm (move_piece to_sq from_sq KING stm p)
      | PROMOTION \<Rightarrow> put_piece from_sq PAWN stm (remove_piece to_sq (the promotion_pt) stm p)
      | CAPTURE_PROMOTION \<Rightarrow>
          put_piece to_sq (the captured_pt) (opp stm)
            (put_piece from_sq PAWN stm (remove_piece to_sq (the promotion_pt) stm p))
      | NONE \<Rightarrow> p)"

definition unmake_move :: "position \<Rightarrow> position" where
  "unmake_move p =
     (let st = cur_state p;
          fullmoves = (if pos_side_to_move p = WHITE then pos_fullmoves p - 1 else pos_fullmoves p);
          stm = opp (pos_side_to_move p);
          p' = p\<lparr>pos_fullmoves := fullmoves, pos_ply := pos_ply p - 1,
                 pos_history := butlast (pos_history p), pos_side_to_move := stm\<rparr>
      in case st_previous_move st of
           None \<Rightarrow> p'
         | Some m \<Rightarrow> unapply_move (st_move_type st) (from_square m) (to_square m) (st_captured_pt st)
                       (promotion_piece_type m) stm p')"

end
