(* ===== verification/Move_Gen.thy ===== *)
theory Move_Gen
  imports Make_Move
begin

text \<open>
  Move generation, \<open>Position/MoveGeneration.h\<close>, and the legality tests and game state of
  \<open>Position/Getters.h\<close>.  A generator of the source appends to the move list it is given; here it
  returns the list of the moves it appends, in their order, and callers concatenate.  A loop
  \<open>while (bb) ...\<close> that appends moves is a \<open>concat (map ...)\<close> over the squares it visits.
\<close>

section \<open>Pawn moves\<close>

text \<open>The four \<open>add\<close> calls of a promotion; the evasion generators add them in another order.\<close>

definition promotions :: "int \<Rightarrow> int \<Rightarrow> move_type \<Rightarrow> move_list" where
  "promotions from_sq to_sq ty =
     map (\<lambda>pt. mk_move_promo from_sq to_sq pt ty) [QUEEN, KNIGHT, ROOK, BISHOP]"

definition evasion_promotions :: "int \<Rightarrow> int \<Rightarrow> move_type \<Rightarrow> move_list" where
  "evasion_promotions from_sq to_sq ty =
     map (\<lambda>pt. mk_move_promo from_sq to_sq pt ty) [QUEEN, KNIGHT, BISHOP, ROOK]"

definition generate_quiet_promotions :: "position \<Rightarrow> color \<Rightarrow> move_list" where
  "generate_quiet_promotions p stm =
     (let promotion_candidates =
            pawn_shift_bb (piece_type_color_bb p PAWN stm AND relative_rank_mask 6 stm) stm 1
            AND NOT (occupancy_bb p)
      in concat (map (\<lambda>to_sq. promotions (pawn_shift to_sq (opp stm) 1) to_sq PROMOTION)
           (bb_squares promotion_candidates)))"

definition generate_capture_promotions :: "position \<Rightarrow> color \<Rightarrow> move_list" where
  "generate_capture_promotions p stm =
     (let pawn_bb = pos_piece_bb p PAWN AND (pos_color_bb p stm AND relative_rank_mask 6 stm);
          opp_occupancy = pos_color_bb p (opp stm)
      in concat (map (\<lambda>from_sq.
           concat (map (\<lambda>to_sq. promotions from_sq to_sq CAPTURE_PROMOTION)
             (bb_squares (pawn_attacks from_sq stm AND opp_occupancy))))
           (bb_squares pawn_bb)))"

definition generate_promotions :: "position \<Rightarrow> color \<Rightarrow> move_list" where
  "generate_promotions p stm = generate_capture_promotions p stm @ generate_quiet_promotions p stm"

definition generate_pawn_quiets :: "position \<Rightarrow> color \<Rightarrow> move_list" where
  "generate_pawn_quiets p stm =
     (let occupancy = occupancy_bb p;
          single_push_pawn_bb =
            pawn_shift_bb (piece_type_color_bb p PAWN stm AND NOT (relative_rank_mask 6 stm)) stm 1
            AND NOT occupancy;
          double_push_pawn_bb =
            pawn_shift_bb (single_push_pawn_bb AND relative_rank_mask 2 stm) stm 1 AND NOT occupancy
      in generate_quiet_promotions p stm
         @ map (\<lambda>to_sq. mk_move (pawn_shift to_sq (opp stm) 2) to_sq DOUBLE_PUSH) (bb_squares double_push_pawn_bb)
         @ map (\<lambda>to_sq. mk_move (pawn_shift to_sq (opp stm) 1) to_sq NORMAL) (bb_squares single_push_pawn_bb))"

definition generate_pawn_captures :: "position \<Rightarrow> color \<Rightarrow> move_list" where
  "generate_pawn_captures p stm =
     (let pawn_bb = pos_piece_bb p PAWN;
          ep_moves = (case enpassant_square p of
              None \<Rightarrow> []
            | Some ep_sq \<Rightarrow> map (\<lambda>sq. mk_move sq ep_sq ENPASSANT)
                (bb_squares (pawn_bb AND pos_color_bb p stm AND pawn_attacks ep_sq (opp stm))));
          pawns = pawn_bb AND (pos_color_bb p stm AND NOT (relative_rank_mask 6 stm))
      in generate_capture_promotions p stm @ ep_moves
         @ concat (map (\<lambda>from_sq. map (\<lambda>to_sq. mk_move from_sq to_sq CAPTURE)
             (bb_squares (pawn_attacks from_sq stm AND pos_color_bb p (opp stm)))) (bb_squares pawns)))"

definition generate_pawn_moves :: "position \<Rightarrow> color \<Rightarrow> move_list" where
  "generate_pawn_moves p stm = generate_pawn_captures p stm @ generate_pawn_quiets p stm"

section \<open>Piece moves\<close>

definition generate_non_pawn_quiets :: "piece_type \<Rightarrow> position \<Rightarrow> color \<Rightarrow> move_list" where
  "generate_non_pawn_quiets pt p stm =
     (let occupancy = occupancy_bb p
      in concat (map (\<lambda>sq. map (\<lambda>to_sq. mk_move sq to_sq NORMAL)
           (bb_squares (non_pawn_piece_type_attacks pt sq occupancy AND NOT occupancy)))
           (bb_squares (piece_type_color_bb p pt stm))))"

definition generate_non_pawn_captures :: "piece_type \<Rightarrow> position \<Rightarrow> color \<Rightarrow> move_list" where
  "generate_non_pawn_captures pt p stm =
     (let occupancy = occupancy_bb p; opp_occupancy = pos_color_bb p (opp stm)
      in concat (map (\<lambda>sq. map (\<lambda>to_sq. mk_move sq to_sq CAPTURE)
           (bb_squares (non_pawn_piece_type_attacks pt sq occupancy AND opp_occupancy)))
           (bb_squares (piece_type_color_bb p pt stm))))"

text \<open>\<open>generate_knight_moves\<close> ... \<open>generate_king_moves\<close> are this, at each piece type.\<close>

definition generate_piece_moves :: "piece_type \<Rightarrow> position \<Rightarrow> color \<Rightarrow> move_list" where
  "generate_piece_moves pt p stm = generate_non_pawn_quiets pt p stm @ generate_non_pawn_captures pt p stm"

text \<open>The tables of \<open>generate_castling\<close>, indexed by the colour.\<close>

definition castling_possibilities :: "color \<Rightarrow> castling_right \<times> castling_right" where
  "castling_possibilities c =
     (case c of WHITE \<Rightarrow> (WHITE_KINGSIDE, WHITE_QUEENSIDE) | BLACK \<Rightarrow> (BLACK_KINGSIDE, BLACK_QUEENSIDE))"

definition castling_intermediate_sqs :: "color \<Rightarrow> (int \<times> int) \<times> (int \<times> int)" where
  "castling_intermediate_sqs c =
     (case c of WHITE \<Rightarrow> ((F1, G1), (D1, C1)) | BLACK \<Rightarrow> ((F8, G8), (D8, C8)))"

definition castling_king_sqs :: "color \<Rightarrow> (int \<times> int) \<times> (int \<times> int)" where
  "castling_king_sqs c =
     (case c of WHITE \<Rightarrow> ((E1, G1), (E1, C1)) | BLACK \<Rightarrow> ((E8, G8), (E8, C8)))"

definition castle_mask :: "color \<Rightarrow> bitboard \<times> bitboard" where
  "castle_mask c =
     (case c of
        WHITE \<Rightarrow> (square_bb F1 OR square_bb G1, square_bb D1 OR square_bb C1 OR square_bb B1)
      | BLACK \<Rightarrow> (square_bb F8 OR square_bb G8, square_bb D8 OR square_bb C8 OR square_bb B8))"

definition generate_castling :: "position \<Rightarrow> color \<Rightarrow> move_list" where
  "generate_castling p c =
     (let occupancy = occupancy_bb p;
          (kingside, queenside) = castling_possibilities c;
          ((k_mid, k_end), (q_mid, q_end)) = castling_intermediate_sqs c;
          ((k_from, k_to), (q_from, q_to)) = castling_king_sqs c;
          (k_mask, q_mask) = castle_mask c;
          safe = (\<lambda>sq. attackers_to_of p sq (opp c) = 0)
      in (if kingside AND castling_rights p \<noteq> 0 \<and> k_mask AND occupancy = 0 \<and> safe k_from \<and> safe k_mid \<and> safe k_end
          then [mk_move k_from k_to CASTLING] else [])
         @ (if queenside AND castling_rights p \<noteq> 0 \<and> q_mask AND occupancy = 0 \<and> safe k_from \<and> safe q_mid \<and> safe q_end
            then [mk_move q_from q_to CASTLING] else []))"

section \<open>Check evasions\<close>

definition generate_checker_block_moves :: "position \<Rightarrow> color \<Rightarrow> move_list" where
  "generate_checker_block_moves p c =
     (let checkers = checkers_to p c in
      if popcount checkers > 1 then []
      else let king_sq = king_square p c; checker_pos = forward_bitscan checkers;
               checker_intercept_bb = intervening king_sq checker_pos in
      if checker_intercept_bb = 0 then []
      else let pawns = piece_type_color_bb p PAWN c;
               shifted_intercepts = pawn_shift_bb checker_intercept_bb (opp c) 1;
               single_push_pawn_blocks = shifted_intercepts AND pawns;
               double_push_pawn_blocks =
                 pawn_shift_bb (shifted_intercepts AND NOT (occupancy_bb p)) (opp c) 1 AND pawns
                 AND relative_rank_mask 1 c;
               excluded_pieces_mask = NOT (square_bb king_sq OR pawns)
      in map (\<lambda>pawn_sq. mk_move pawn_sq (pawn_shift pawn_sq c 2) DOUBLE_PUSH) (bb_squares double_push_pawn_blocks)
         @ concat (map (\<lambda>pawn_sq.
             let target_sq = pawn_shift pawn_sq c 1 in
             if c = WHITE \<and> sq_rank pawn_sq = 6 \<or> c = BLACK \<and> sq_rank pawn_sq = 1
             then evasion_promotions pawn_sq target_sq PROMOTION
             else [mk_move pawn_sq target_sq NORMAL]) (bb_squares single_push_pawn_blocks))
         @ concat (map (\<lambda>sq. map (\<lambda>atker_sq. mk_move atker_sq sq NORMAL)
             (bb_squares (attackers_to_of p sq c AND excluded_pieces_mask))) (bb_squares checker_intercept_bb)))"

definition generate_checker_capture_moves :: "position \<Rightarrow> color \<Rightarrow> move_list" where
  "generate_checker_capture_moves p c =
     (let checkers = checkers_to p c in
      if popcount checkers > 1 then []
      else let pawns = piece_type_color_bb p PAWN c;
               ep_moves = (case enpassant_square p of
                   None \<Rightarrow> []
                 | Some ep_square \<Rightarrow>
                     if pawn_shift_bb (square_bb ep_square) (opp c) 1 AND checkers \<noteq> 0
                     then map (\<lambda>sq. mk_move sq ep_square ENPASSANT)
                       (bb_squares (pawns AND pawn_attacks ep_square (opp c)))
                     else []);
               checker_sq = forward_bitscan checkers;
               attackers = attackers_to_of p checker_sq c AND NOT (square_bb (king_square p c));
               rank7_pawns = pawns AND relative_rank_mask 6 c
      in ep_moves
         @ concat (map (\<lambda>sq. evasion_promotions sq checker_sq CAPTURE_PROMOTION)
             (bb_squares (attackers AND rank7_pawns)))
         @ map (\<lambda>sq. mk_move sq checker_sq CAPTURE) (bb_squares (attackers AND NOT rank7_pawns)))"

definition check_evasion_move_list :: "position \<Rightarrow> color \<Rightarrow> move_list" where
  "check_evasion_move_list p c =
     (let king_sq = king_square p c; checkers = checkers_to p c;
          non_king_occupancy = occupancy_bb p XOR square_bb king_sq;
          evasions = king_attacks king_sq AND NOT (pos_color_bb p c);
          opp_occupancy = pos_color_bb p (opp c);
          king_moves = concat (map (\<lambda>sq.
              if attackers_to_occ_of p sq non_king_occupancy (opp c) = 0
              then [mk_move king_sq sq (if square_bb sq AND opp_occupancy \<noteq> 0 then CAPTURE else NORMAL)]
              else []) (bb_squares evasions))
      in if popcount checkers > 1 then king_moves
         else king_moves @ generate_checker_capture_moves p c @ generate_checker_block_moves p c)"

section \<open>Pseudo-legal and legal lists\<close>

definition generate_quiet_moves :: "position \<Rightarrow> color \<Rightarrow> move_list" where
  "generate_quiet_moves p stm =
     generate_pawn_quiets p stm
     @ concat (map (\<lambda>pt. generate_non_pawn_quiets pt p stm) [KNIGHT, BISHOP, ROOK, QUEEN, KING])
     @ generate_castling p stm"

definition generate_capture_moves :: "position \<Rightarrow> color \<Rightarrow> move_list" where
  "generate_capture_moves p stm =
     generate_pawn_captures p stm
     @ concat (map (\<lambda>pt. generate_non_pawn_captures pt p stm) [KNIGHT, BISHOP, ROOK, QUEEN, KING])"

definition pseudo_legal_move_list_of :: "position \<Rightarrow> color \<Rightarrow> move_list" where
  "pseudo_legal_move_list_of p stm = generate_capture_moves p stm @ generate_quiet_moves p stm"

definition pseudo_legal_move_list :: "position \<Rightarrow> move_list" where
  "pseudo_legal_move_list p =
     (if in_check p then check_evasion_move_list p (pos_side_to_move p)
      else pseudo_legal_move_list_of p (pos_side_to_move p))"

definition is_legal_generated_move_pinned :: "position \<Rightarrow> move \<Rightarrow> bitboard \<Rightarrow> bool" where
  "is_legal_generated_move_pinned p m pinned =
     (let c = pos_side_to_move p; from = from_square m; king_sq = king_square p c in
      if move_type m = ENPASSANT then
        let ep_bb = square_bb (the (enpassant_square p));
            post_ep_occupancy =
              (occupancy_bb p XOR square_bb from XOR pawn_shift_bb ep_bb (opp c) 1) OR ep_bb
        in rook_attacks king_sq post_ep_occupancy AND pos_color_bb p (opp c)
             AND (pos_piece_bb p QUEEN OR pos_piece_bb p ROOK) = 0
           \<and> bishop_attacks king_sq post_ep_occupancy AND pos_color_bb p (opp c)
             AND (pos_piece_bb p QUEEN OR pos_piece_bb p BISHOP) = 0
      else if from = king_sq then
        move_type m = CASTLING \<or> attackers_to p (to_square m) AND pos_color_bb p (opp c) = 0
      else pinned AND square_bb from = 0 \<or> square_bb (to_square m) AND full_ray king_sq from \<noteq> 0)"

definition is_legal_generated_move :: "position \<Rightarrow> move \<Rightarrow> bool" where
  "is_legal_generated_move p m =
     is_legal_generated_move_pinned p m (pinned_pieces_of p (pos_side_to_move p))"

text \<open>The filter loop of \<open>legal_move_list\<close>: an offending move is overwritten by the last one, which is
  popped, and the same position is looked at again.\<close>

function drop_moves :: "(move \<Rightarrow> bool) \<Rightarrow> nat \<Rightarrow> move_list \<Rightarrow> move_list" where
  "drop_moves bad i ml =
     (if i < length ml then
        if bad (ml ! i) then drop_moves bad i (ml_pop_back (ml[i := last ml]))
        else drop_moves bad (Suc i) ml
      else ml)"
  by pat_completeness auto
termination by (relation "measure (\<lambda>(_, i, ml). length ml - i)") (auto simp: ml_pop_back_def)

declare drop_moves.simps [simp del]

definition legal_move_list_of :: "position \<Rightarrow> color \<Rightarrow> move_list" where
  "legal_move_list_of p stm =
     (let ml = (if checkers_to p stm \<noteq> 0 then check_evasion_move_list p (pos_side_to_move p)
                else pseudo_legal_move_list p);
          pinned = pinned_pieces_of p stm
      in drop_moves (\<lambda>m. (pinned AND square_bb (from_square m) \<noteq> 0 \<or> from_square m = king_square p stm
              \<or> move_type m = ENPASSANT)
            \<and> \<not> is_legal_generated_move_pinned p m pinned) 0 ml)"

definition legal_move_list :: "position \<Rightarrow> move_list" where
  "legal_move_list p =
     (if halfmoves p \<ge> 150 \<or> is_repeat p 4 then [] else legal_move_list_of p (pos_side_to_move p))"

section \<open>Legality of an arbitrary move\<close>

definition pseudo_legal_pawn :: "position \<Rightarrow> color \<Rightarrow> int \<Rightarrow> int \<Rightarrow> bool" where
  "pseudo_legal_pawn p c from_sq to_sq =
     (let to_sq_bb = square_bb to_sq; opponent_occupancy = pos_color_bb p (opp c);
          occupancy = pos_color_bb p c OR opponent_occupancy in
      if to_sq = pawn_shift from_sq c 1 \<and> occupancy AND to_sq_bb = 0 then True
      else if to_sq = pawn_shift from_sq c 2
        \<and> occupancy AND (to_sq_bb OR pawn_shift_bb to_sq_bb (opp c) 1) = 0 then True
      else if (case enpassant_square p of None \<Rightarrow> False
         | Some ep_sq \<Rightarrow> to_sq = ep_sq \<and> pawn_attacks from_sq c AND square_bb ep_sq \<noteq> 0) then True
      else to_sq_bb AND pawn_attacks from_sq c AND opponent_occupancy \<noteq> 0)"

definition is_legal_move :: "position \<Rightarrow> move \<Rightarrow> bool" where
  "is_legal_move p m =
     (let from_sq = from_square m; to_sq = to_square m in
      case piece_on p from_sq of
        None \<Rightarrow> False
      | Some piece \<Rightarrow>
          let c = p_color piece; pt = p_type piece in
          if c \<noteq> pos_side_to_move p then False
          else if color_of p to_sq = Some c then False
          else if promotion_piece_type m \<noteq> None \<and> (pt \<noteq> PAWN \<or> relative_rank (sq_rank to_sq) c \<noteq> 7) then False
          else
            let stm_occupancy = pos_color_bb p c; occupancy = stm_occupancy OR pos_color_bb p (opp c);
                is_pseudo_legal =
                  (if pt = KING \<and> ml_contains (generate_castling p c) m then True
                   else if pt = PAWN then pseudo_legal_pawn p c from_sq to_sq
                   else square_bb to_sq AND non_pawn_piece_type_attacks pt from_sq occupancy
                     AND NOT stm_occupancy \<noteq> 0)
            in if \<not> is_pseudo_legal then False
               else if \<not> in_check p then is_legal_generated_move p m
               else ml_contains (legal_move_list p) m)"

section \<open>Game state\<close>

datatype game_state_result = IN_PROGRESS | CHECKMATE | STALEMATE | THREEFOLD_REPETITION | FIFTY_MOVES

definition game_state :: "position \<Rightarrow> game_state_result" where
  "game_state p =
     (if is_repeat p 2 then THREEFOLD_REPETITION
      else if halfmoves p \<ge> 100 then FIFTY_MOVES
      else if legal_move_list p = [] then (if in_check p then CHECKMATE else STALEMATE)
      else IN_PROGRESS)"

end
