(* ===== verification/Board_Ops.thy ===== *)
theory Board_Ops
  imports Positions
begin

text \<open>
  The board as an abstract data type.  \<open>has p s pt c\<close> and \<open>free p s\<close> observe a position; the locale
  \<open>piece_board\<close> states what \<open>put_piece\<close>, \<open>remove_piece\<close> and \<open>move_piece\<close> promise in those terms,
  \<open>hashed_board\<close> adds what they do to the piece part of the Zobrist hash, and the composite updates
  of a move (capture, en passant, castling, promotion) are shown correct and reversible once, from
  the laws alone.  Both are interpreted on the position's own operations at the end.
\<close>

section \<open>Observing the board\<close>

definition has :: "position \<Rightarrow> int \<Rightarrow> piece_type \<Rightarrow> color \<Rightarrow> bool" where
  "has p s pt c \<longleftrightarrow> bit (pos_piece_bb p pt) (nat s) \<and> bit (pos_color_bb p c) (nat s)"

definition free :: "position \<Rightarrow> int \<Rightarrow> bool" where
  "free p s \<longleftrightarrow> \<not> bit (occupancy_bb p) (nat s)"

lemma bit_occupancy: "bit (occupancy_bb p) n \<longleftrightarrow> (\<exists>c. bit (pos_color_bb p c) n)"
  by (auto simp: occupancy_bb_def bit_or_iff ex_color)

lemma board_ok_bits:
  "board_ok p \<longleftrightarrow>
     (\<forall>n pt pt'. bit (pos_piece_bb p pt) n \<and> bit (pos_piece_bb p pt') n \<longrightarrow> pt = pt') \<and>
     (\<forall>n c c'. bit (pos_color_bb p c) n \<and> bit (pos_color_bb p c') n \<longrightarrow> c = c') \<and>
     (\<forall>n. (\<exists>pt. bit (pos_piece_bb p pt) n) \<longleftrightarrow> (\<exists>c. bit (pos_color_bb p c) n))"
proof -
  have disj: "a AND b = 0 \<longleftrightarrow> (\<forall>n. \<not> (bit a n \<and> bit b n))" for a b :: bitboard
    by (auto simp: word64_eq_iff bit_and_iff)
  have eq: "a = b \<longleftrightarrow> (\<forall>n. bit a n = bit b n)" for a b :: bitboard
    by (auto intro: word64_eqI)
  have 1: "(\<forall>pt pt'. pt \<noteq> pt' \<longrightarrow> pos_piece_bb p pt AND pos_piece_bb p pt' = 0) \<longleftrightarrow>
      (\<forall>n pt pt'. bit (pos_piece_bb p pt) n \<and> bit (pos_piece_bb p pt') n \<longrightarrow> pt = pt')"
    unfolding disj by blast
  have 2: "pos_color_bb p WHITE AND pos_color_bb p BLACK = 0 \<longleftrightarrow>
      (\<forall>n c c'. bit (pos_color_bb p c) n \<and> bit (pos_color_bb p c') n \<longrightarrow> c = c')"
    unfolding disj all_color by auto
  have 3: "pos_piece_bb p PAWN OR pos_piece_bb p KNIGHT OR pos_piece_bb p BISHOP OR pos_piece_bb p ROOK
       OR pos_piece_bb p QUEEN OR pos_piece_bb p KING = occupancy_bb p \<longleftrightarrow>
      (\<forall>n. (\<exists>pt. bit (pos_piece_bb p pt) n) \<longleftrightarrow> (\<exists>c. bit (pos_color_bb p c) n))"
    unfolding eq bit_or_iff bit_occupancy ex_piece_type by simp
  show ?thesis unfolding board_ok_def 1 2 3 ..
qed

lemma board_ok_piece: "board_ok p \<Longrightarrow> bit (pos_piece_bb p pt) n \<Longrightarrow> bit (pos_piece_bb p pt') n \<Longrightarrow> pt = pt'"
  by (auto simp: board_ok_bits)

lemma board_ok_color: "board_ok p \<Longrightarrow> bit (pos_color_bb p c) n \<Longrightarrow> bit (pos_color_bb p c') n \<Longrightarrow> c = c'"
  by (auto simp: board_ok_bits)

lemma board_ok_both: "board_ok p \<Longrightarrow> (\<exists>pt. bit (pos_piece_bb p pt) n) \<longleftrightarrow> (\<exists>c. bit (pos_color_bb p c) n)"
  by (auto simp: board_ok_bits)

lemma has_unique: "board_ok p \<Longrightarrow> has p s pt c \<Longrightarrow> has p s pt' c' \<Longrightarrow> pt = pt' \<and> c = c'"
  unfolding has_def using board_ok_piece board_ok_color by blast

lemma free_iff: "board_ok p \<Longrightarrow> free p s \<longleftrightarrow> (\<forall>pt c. \<not> has p s pt c)"
  unfolding free_def bit_occupancy has_def using board_ok_both by blast

lemma free_piece: "board_ok p \<Longrightarrow> free p s \<Longrightarrow> \<not> bit (pos_piece_bb p pt) (nat s)"
  unfolding free_def bit_occupancy using board_ok_both by blast

lemma free_color: "free p s \<Longrightarrow> \<not> bit (pos_color_bb p c) (nat s)"
  by (auto simp: free_def bit_occupancy)

lemma piece_type_on_Some:
  assumes "board_ok p" "on_board s"
  shows "piece_type_on p s = Some pt \<longleftrightarrow> bit (pos_piece_bb p pt) (nat s)"
proof
  assume "piece_type_on p s = Some pt"
  then show "bit (pos_piece_bb p pt) (nat s)"
    using assms(2) by (auto simp: piece_type_on_def find_Some_iff)
next
  assume "bit (pos_piece_bb p pt) (nat s)"
  then show "piece_type_on p s = Some pt"
    unfolding piece_type_on_def using assms board_ok_piece
    by (intro find_Some_distinct) auto
qed

lemma color_of_Some:
  assumes "board_ok p" "on_board s"
  shows "color_of p s = Some c \<longleftrightarrow> bit (pos_color_bb p c) (nat s)"
proof
  assume "color_of p s = Some c"
  then show "bit (pos_color_bb p c) (nat s)"
    using assms(2) by (auto simp: color_of_def find_Some_iff)
next
  assume "bit (pos_color_bb p c) (nat s)"
  then show "color_of p s = Some c"
    unfolding color_of_def using assms board_ok_color
    by (intro find_Some_distinct) auto
qed

lemma piece_type_on_None: "board_ok p \<Longrightarrow> on_board s \<Longrightarrow> piece_type_on p s = None \<longleftrightarrow> free p s"
  using piece_type_on_Some [of p s] board_ok_both [of p "nat s"]
  by (cases "piece_type_on p s") (auto simp: free_def bit_occupancy)

lemma has_iff_on:
  assumes "board_ok p" "on_board s"
  shows "has p s pt c \<longleftrightarrow> piece_type_on p s = Some pt \<and> color_of p s = Some c"
  using piece_type_on_Some [OF assms] color_of_Some [OF assms] by (simp add: has_def)

lemma piece_on_Some:
  assumes "board_ok p" "on_board s"
  shows "piece_on p s = Some \<lparr>p_type = pt, p_color = c\<rparr> \<longleftrightarrow> has p s pt c"
  using has_iff_on [OF assms, of pt c]
  by (auto simp: piece_on_def piece_from_def split: option.splits)

section \<open>The hash of the pieces\<close>

definition xor_squares :: "(int \<Rightarrow> 64 word) \<Rightarrow> bitboard \<Rightarrow> 64 word" where
  "xor_squares f w = fold (\<lambda>s h. h XOR f s) (bb_squares w) 0"

lemma fold_xor: "fold (\<lambda>s h. h XOR f s) xs a = a XOR fold (\<lambda>s h. h XOR f s) xs (0 :: 64 word)"
proof (induction xs arbitrary: a)
  case (Cons x xs)
  have "fold (\<lambda>s h. h XOR f s) (x # xs) a = (a XOR f x) XOR fold (\<lambda>s h. h XOR f s) xs 0"
    using Cons.IH [of "a XOR f x"] by simp
  also have "\<dots> = a XOR fold (\<lambda>s h. h XOR f s) (x # xs) 0"
    using Cons.IH [of "f x"] by (simp add: xor.assoc)
  finally show ?case .
qed simp

lemma xor_squares_add:
  assumes "on_board s" "\<not> bit w (nat s)"
  shows "xor_squares f (w OR square_bb s) = xor_squares f w XOR f s"
proof -
  have st: "set (bb_squares (w OR square_bb s)) = insert s (set (bb_squares w))"
    by (rule set_eqI) (use assms(1) in \<open>auto simp: bit_or_iff on_board_def\<close>)
  have "mset (bb_squares (w OR square_bb s)) = mset (s # bb_squares w)"
    using assms by (subst set_eq_iff_mset_eq_distinct [symmetric]) (simp_all add: st)
  then have "fold (\<lambda>s h. h XOR f s) (bb_squares (w OR square_bb s)) = fold (\<lambda>s h. h XOR f s) (s # bb_squares w)"
    by (intro fold_multiset_equiv) (auto simp: fun_eq_iff xor_ac)
  then have "xor_squares f (w OR square_bb s) = fold (\<lambda>s h. h XOR f s) (s # bb_squares w) 0"
    by (simp add: xor_squares_def)
  also have "\<dots> = xor_squares f w XOR f s"
    using fold_xor [of f "bb_squares w" "f s"] by (simp add: xor_squares_def xor.commute)
  finally show ?thesis .
qed

lemma xor_squares_remove:
  assumes "on_board s" "bit w (nat s)"
  shows "xor_squares f (w AND NOT (square_bb s)) = xor_squares f w XOR f s"
proof -
  let ?w = "w AND NOT (square_bb s)"
  have "?w OR square_bb s = w"
    using assms by (intro word64_eqI) (auto simp: bit_simps)
  moreover have "\<not> bit ?w (nat s)" using on_board_nat [OF assms(1)] by (simp add: bit_simps)
  ultimately have "xor_squares f w = xor_squares f ?w XOR f s"
    using xor_squares_add [OF assms(1), of ?w f] by simp
  then show ?thesis by (simp add: xor.assoc)
qed

text \<open>The piece part of the hash is the XOR, over the twelve kinds of piece, of the keys of their
  squares.\<close>

definition kind_hash :: "position \<Rightarrow> color \<Rightarrow> piece_type \<Rightarrow> 64 word" where
  "kind_hash p c pt = xor_squares (\<lambda>s. piece_square_key s pt c) (piece_type_color_bb p pt c)"

fun xor_list :: "('a \<Rightarrow> 64 word) \<Rightarrow> 'a list \<Rightarrow> 64 word" where
  "xor_list f [] = 0"
| "xor_list f (x # xs) = f x XOR xor_list f xs"

lemma hash_pieces_kinds:
  "hash_pieces p = xor_list (\<lambda>(c, pt). kind_hash p c pt) (List.product COLORS PIECE_TYPES)"
proof -
  have step: "fold (\<lambda>sq h. h XOR piece_square_key sq pt c) (bb_squares (piece_type_color_bb p pt c)) a
      = a XOR kind_hash p c pt" for pt c a
    unfolding kind_hash_def xor_squares_def by (rule fold_xor)
  show ?thesis
    by (simp add: hash_pieces_def COLORS_def PIECE_TYPES_def step xor_ac)
qed

lemma xor_list_cong: "(\<And>x. x \<in> set xs \<Longrightarrow> f x = g x) \<Longrightarrow> xor_list f xs = xor_list g xs"
  by (induction xs) auto

lemma xor_list_change:
  assumes "distinct xs" "a \<in> set xs" "\<And>x. x \<in> set xs \<Longrightarrow> g x = (if x = a then f x XOR k else f x)"
  shows "xor_list g xs = xor_list f xs XOR k"
  using assms
proof (induction xs)
  case (Cons x xs)
  show ?case
  proof (cases "x = a")
    case True
    then have "xor_list g xs = xor_list f xs"
      using Cons.prems by (intro xor_list_cong) auto
    then show ?thesis using True Cons.prems(3) [of x] by (simp add: xor_ac)
  next
    case False
    then show ?thesis using Cons by (simp add: xor.assoc)
  qed
qed simp

lemma hash_pieces_change:
  assumes "\<And>c' pt'. kind_hash q c' pt' =
      (if c' = c \<and> pt' = pt then kind_hash p c' pt' XOR k else kind_hash p c' pt')"
  shows "hash_pieces q = hash_pieces p XOR k"
  unfolding hash_pieces_kinds
proof (rule xor_list_change [where a = "(c, pt)"])
  show "distinct (List.product COLORS PIECE_TYPES)" by (simp add: COLORS_def PIECE_TYPES_def)
qed (auto simp: assms split: if_splits)

section \<open>The board interface\<close>

locale piece_board =
  fixes ok :: "'p \<Rightarrow> bool"
    and holds :: "'p \<Rightarrow> int \<Rightarrow> piece_type \<Rightarrow> color \<Rightarrow> bool"
    and vacant :: "'p \<Rightarrow> int \<Rightarrow> bool"
    and put :: "int \<Rightarrow> piece_type \<Rightarrow> color \<Rightarrow> 'p \<Rightarrow> 'p"
    and remove :: "int \<Rightarrow> piece_type \<Rightarrow> color \<Rightarrow> 'p \<Rightarrow> 'p"
    and move :: "int \<Rightarrow> int \<Rightarrow> piece_type \<Rightarrow> color \<Rightarrow> 'p \<Rightarrow> 'p"
  assumes vacant_iff: "ok p \<Longrightarrow> vacant p s \<longleftrightarrow> (\<forall>pt c. \<not> holds p s pt c)"
    and holds_unique: "ok p \<Longrightarrow> holds p s pt c \<Longrightarrow> holds p s pt' c' \<Longrightarrow> pt = pt' \<and> c = c'"
    and put_ok: "ok p \<Longrightarrow> on_board s \<Longrightarrow> vacant p s \<Longrightarrow> ok (put s pt c p)"
    and put_holds: "ok p \<Longrightarrow> on_board s \<Longrightarrow> on_board u \<Longrightarrow> vacant p s \<Longrightarrow>
      holds (put s pt c p) u pt' c' \<longleftrightarrow> (if u = s then pt' = pt \<and> c' = c else holds p u pt' c')"
    and remove_ok: "ok p \<Longrightarrow> on_board s \<Longrightarrow> holds p s pt c \<Longrightarrow> ok (remove s pt c p)"
    and remove_holds: "ok p \<Longrightarrow> on_board s \<Longrightarrow> on_board u \<Longrightarrow> holds p s pt c \<Longrightarrow>
      holds (remove s pt c p) u pt' c' \<longleftrightarrow> u \<noteq> s \<and> holds p u pt' c'"
    and move_ok: "ok p \<Longrightarrow> on_board s \<Longrightarrow> on_board t \<Longrightarrow> s \<noteq> t \<Longrightarrow> holds p s pt c \<Longrightarrow> vacant p t \<Longrightarrow>
      ok (move s t pt c p)"
    and move_holds: "ok p \<Longrightarrow> on_board s \<Longrightarrow> on_board t \<Longrightarrow> on_board u \<Longrightarrow> s \<noteq> t \<Longrightarrow> holds p s pt c \<Longrightarrow>
      vacant p t \<Longrightarrow> holds (move s t pt c p) u pt' c' \<longleftrightarrow>
        (if u = t then pt' = pt \<and> c' = c else u \<noteq> s \<and> holds p u pt' c')"
    and remove_put: "ok p \<Longrightarrow> on_board s \<Longrightarrow> vacant p s \<Longrightarrow> remove s pt c (put s pt c p) = p"
    and put_remove: "ok p \<Longrightarrow> on_board s \<Longrightarrow> holds p s pt c \<Longrightarrow> put s pt c (remove s pt c p) = p"
    and move_back: "move t s pt c (move s t pt c p) = p"
    and move_commute: "move s t pt c (move s' t' pt' c' p) = move s' t' pt' c' (move s t pt c p)"
begin

lemmas board_laws = put_ok put_holds remove_ok remove_holds move_ok move_holds

lemma vacant_put: "ok p \<Longrightarrow> on_board s \<Longrightarrow> on_board u \<Longrightarrow> vacant p s \<Longrightarrow>
    vacant (put s pt c p) u \<longleftrightarrow> u \<noteq> s \<and> vacant p u"
  by (cases "u = s") (auto simp: put_ok vacant_iff put_holds)

lemma vacant_remove: "ok p \<Longrightarrow> on_board s \<Longrightarrow> on_board u \<Longrightarrow> holds p s pt c \<Longrightarrow>
    vacant (remove s pt c p) u \<longleftrightarrow> u = s \<or> vacant p u"
  by (cases "u = s") (simp_all add: remove_ok vacant_iff remove_holds)

lemma vacant_move: "ok p \<Longrightarrow> on_board s \<Longrightarrow> on_board t \<Longrightarrow> on_board u \<Longrightarrow> s \<noteq> t \<Longrightarrow> holds p s pt c \<Longrightarrow>
    vacant p t \<Longrightarrow> vacant (move s t pt c p) u \<longleftrightarrow> u \<noteq> t \<and> (u = s \<or> vacant p u)"
  by (cases "u = t"; cases "u = s") (auto simp: move_ok vacant_iff move_holds)

lemma holds_not_vacant: "ok p \<Longrightarrow> holds p s pt c \<Longrightarrow> \<not> vacant p s"
  using vacant_iff by blast

text \<open>Capture: take the victim off the destination, then move.\<close>

lemma capture_ok:
  assumes "ok p" "on_board f" "on_board t" "f \<noteq> t" "holds p f pt c" "holds p t pt' c'"
  shows "ok (move f t pt c (remove t pt' c' p))"
  using assms by (simp add: board_laws vacant_remove)

lemma capture_holds:
  assumes "ok p" "on_board f" "on_board t" "on_board u" "f \<noteq> t" "holds p f pt c" "holds p t pt' c'"
  shows "holds (move f t pt c (remove t pt' c' p)) u x d \<longleftrightarrow>
    (if u = t then x = pt \<and> d = c else u \<noteq> f \<and> holds p u x d)"
  using assms by (simp add: board_laws vacant_remove)

lemma capture_undo:
  assumes "ok p" "on_board t" "holds p t pt' c'"
  shows "put t pt' c' (move t f pt c (move f t pt c (remove t pt' c' p))) = p"
  using assms by (simp add: move_back put_remove)

text \<open>En passant: the victim is not on the destination.\<close>

lemma enpassant_ok:
  assumes "ok p" "on_board f" "on_board t" "on_board v" "f \<noteq> t" "v \<noteq> f" "v \<noteq> t" "holds p f pt c"
    and "vacant p t" "holds p v pt' c'"
  shows "ok (remove v pt' c' (move f t pt c p))"
  using assms by (simp add: board_laws)

lemma enpassant_undo:
  assumes "ok p" "on_board f" "on_board t" "on_board v" "f \<noteq> t" "v \<noteq> f" "v \<noteq> t" "holds p f pt c"
    and "vacant p t" "holds p v pt' c'"
  shows "move t f pt c (put v pt' c' (remove v pt' c' (move f t pt c p))) = p"
  using assms by (simp add: put_remove board_laws move_back)

text \<open>Castling: two moves that are undone in the same order.\<close>

lemma castle_ok:
  assumes "ok p" "on_board f" "on_board t" "f \<noteq> t" "holds p f pt c" "vacant p t"
    and "on_board f'" "on_board t'" "f' \<noteq> t'" "f' \<noteq> f" "f' \<noteq> t" "t' \<noteq> f" "t' \<noteq> t" "holds p f' pt' c"
    and "vacant p t'"
  shows "ok (move f' t' pt' c (move f t pt c p))"
  using assms by (simp add: board_laws vacant_move)

lemma castle_undo:
  "move t' f' pt' c (move t f pt c (move f' t' pt' c (move f t pt c p))) = p"
  by (simp add: move_commute [of t f] move_back)

text \<open>Promotion, quiet and capturing.\<close>

lemma promotion_ok:
  assumes "ok p" "on_board f" "on_board t" "f \<noteq> t" "holds p f pt c" "vacant p t"
  shows "ok (put t q c (remove f pt c p))"
  using assms by (simp add: board_laws vacant_remove)

lemma promotion_undo:
  assumes "ok p" "on_board f" "on_board t" "f \<noteq> t" "holds p f pt c" "vacant p t"
  shows "put f pt c (remove t q c (put t q c (remove f pt c p))) = p"
  using assms by (simp add: remove_put board_laws vacant_remove put_remove)

lemma capture_promotion_ok:
  assumes "ok p" "on_board f" "on_board t" "f \<noteq> t" "holds p f pt c" "holds p t pt' c'"
  shows "ok (put t q c (remove f pt c (remove t pt' c' p)))"
  using assms by (simp add: board_laws vacant_remove)

lemma capture_promotion_undo:
  assumes "ok p" "on_board f" "on_board t" "f \<noteq> t" "holds p f pt c" "holds p t pt' c'"
  shows "put t pt' c' (put f pt c (remove t q c (put t q c (remove f pt c (remove t pt' c' p))))) = p"
  using assms by (simp add: remove_put board_laws vacant_remove put_remove)

end

text \<open>The board with an XOR hash: each update changes the hash by the keys of the squares it touches.\<close>

locale hashed_board = piece_board +
  fixes digest :: "'a \<Rightarrow> 64 word" and key :: "int \<Rightarrow> piece_type \<Rightarrow> color \<Rightarrow> 64 word"
  assumes put_digest: "ok p \<Longrightarrow> on_board s \<Longrightarrow> vacant p s \<Longrightarrow> digest (put s pt c p) = digest p XOR key s pt c"
    and remove_digest: "ok p \<Longrightarrow> on_board s \<Longrightarrow> holds p s pt c \<Longrightarrow>
      digest (remove s pt c p) = digest p XOR key s pt c"
    and move_digest: "ok p \<Longrightarrow> on_board s \<Longrightarrow> on_board t \<Longrightarrow> s \<noteq> t \<Longrightarrow> holds p s pt c \<Longrightarrow> vacant p t \<Longrightarrow>
      digest (move s t pt c p) = digest p XOR key s pt c XOR key t pt c"
begin

lemma capture_digest:
  assumes "ok p" "on_board f" "on_board t" "f \<noteq> t" "holds p f pt c" "holds p t pt' c'"
  shows "digest (move f t pt c (remove t pt' c' p)) = digest p XOR key t pt' c' XOR key f pt c XOR key t pt c"
  using assms by (simp add: move_digest remove_digest board_laws vacant_remove xor.assoc)

lemma promotion_digest:
  assumes "ok p" "on_board f" "on_board t" "f \<noteq> t" "holds p f pt c" "vacant p t"
  shows "digest (put t q c (remove f pt c p)) = digest p XOR key f pt c XOR key t q c"
  using assms by (simp add: put_digest remove_digest board_laws vacant_remove xor.assoc)

lemma capture_promotion_digest:
  assumes "ok p" "on_board f" "on_board t" "f \<noteq> t" "holds p f pt c" "holds p t pt' c'"
  shows "digest (put t q c (remove f pt c (remove t pt' c' p))) =
    digest p XOR key t pt' c' XOR key f pt c XOR key t q c"
  using assms by (simp add: put_digest remove_digest board_laws vacant_remove xor.assoc)

end

section \<open>The position implements the interface\<close>

lemma put_piece_fields [pos_simps]:
  "pos_piece_bb (put_piece s pt c p) x = (if x = pt then pos_piece_bb p x OR square_bb s else pos_piece_bb p x)"
  "pos_color_bb (put_piece s pt c p) d = (if d = c then pos_color_bb p d OR square_bb s else pos_color_bb p d)"
  by (simp_all add: put_piece_def)

lemma remove_piece_fields [pos_simps]:
  "pos_piece_bb (remove_piece s pt c p) x =
    (if x = pt then pos_piece_bb p x AND NOT (square_bb s) else pos_piece_bb p x)"
  "pos_color_bb (remove_piece s pt c p) d =
    (if d = c then pos_color_bb p d AND NOT (square_bb s) else pos_color_bb p d)"
  by (simp_all add: remove_piece_def)

lemma move_piece_fields [pos_simps]:
  "pos_piece_bb (move_piece s t pt c p) x =
    (if x = pt then pos_piece_bb p x XOR (square_bb s XOR square_bb t) else pos_piece_bb p x)"
  "pos_color_bb (move_piece s t pt c p) d =
    (if d = c then pos_color_bb p d XOR (square_bb s XOR square_bb t) else pos_color_bb p d)"
  by (simp_all add: move_piece_def Let_def)

lemma nat_eq_square: "on_board s \<Longrightarrow> on_board u \<Longrightarrow> nat u = nat s \<longleftrightarrow> u = s"
  by (auto simp: on_board_def)

lemma has_bits:
  assumes "board_ok p" "has p s pt c"
  shows "bit (pos_piece_bb p x) (nat s) \<longleftrightarrow> x = pt" "bit (pos_color_bb p d) (nat s) \<longleftrightarrow> d = c"
  using assms board_ok_piece [OF assms(1)] board_ok_color [OF assms(1)] unfolding has_def by blast+

lemma free_bits:
  assumes "board_ok p" "free p s"
  shows "\<not> bit (pos_piece_bb p x) (nat s)" "\<not> bit (pos_color_bb p d) (nat s)"
  using free_piece [OF assms] free_color [OF assms(2)] by auto

lemma put_piece_has:
  assumes "board_ok p" "on_board s" "on_board u" "free p s"
  shows "has (put_piece s pt c p) u pt' c' \<longleftrightarrow> (if u = s then pt' = pt \<and> c' = c else has p u pt' c')"
  using free_bits [OF assms(1,4)] nat_eq_square [OF assms(2,3)] on_board_nat [OF assms(3)]
  by (cases "u = s") (simp_all add: has_def pos_simps bit_or_iff)

lemma remove_piece_has:
  assumes "board_ok p" "on_board s" "on_board u" "has p s pt c"
  shows "has (remove_piece s pt c p) u pt' c' \<longleftrightarrow> u \<noteq> s \<and> has p u pt' c'"
  using has_bits [OF assms(1,4)] nat_eq_square [OF assms(2,3)] on_board_nat [OF assms(3)]
  by (cases "u = s") (simp_all add: has_def pos_simps bit_and_iff bit_not_iff)

lemma move_piece_has:
  assumes "board_ok p" "on_board s" "on_board t" "on_board u" "s \<noteq> t" "has p s pt c" "free p t"
  shows "has (move_piece s t pt c p) u pt' c' \<longleftrightarrow> (if u = t then pt' = pt \<and> c' = c else u \<noteq> s \<and> has p u pt' c')"
  using has_bits [OF assms(1,6)] free_bits [OF assms(1,7)] assms(5)
    nat_eq_square [OF assms(2,4)] nat_eq_square [OF assms(3,4)] on_board_nat [OF assms(4)]
  by (cases "u = s"; cases "u = t") (simp_all add: has_def pos_simps bit_xor_iff)

lemma put_piece_ok:
  assumes "board_ok p" "on_board s" "free p s"
  shows "board_ok (put_piece s pt c p)"
proof -
  have n: "bit (square_bb s) n \<Longrightarrow> \<not> bit (pos_piece_bb p x) n \<and> \<not> bit (pos_color_bb p d) n" for n x d
    using free_bits [OF assms(1,3)] by auto
  have P: "bit (pos_piece_bb (put_piece s pt c p) x) n \<longleftrightarrow> bit (pos_piece_bb p x) n \<or> x = pt \<and> bit (square_bb s) n"
    "bit (pos_color_bb (put_piece s pt c p) d) n \<longleftrightarrow> bit (pos_color_bb p d) n \<or> d = c \<and> bit (square_bb s) n" for n x d
    by (auto simp: pos_simps bit_or_iff simp del: bit_square_bb)
  show ?thesis using assms(1) n unfolding board_ok_bits P by blast
qed

lemma remove_piece_ok:
  assumes "board_ok p" "on_board s" "has p s pt c"
  shows "board_ok (remove_piece s pt c p)"
proof -
  have n: "bit (square_bb s) n \<Longrightarrow> (bit (pos_piece_bb p x) n \<longleftrightarrow> x = pt) \<and> (bit (pos_color_bb p d) n \<longleftrightarrow> d = c)" for n x d
    using has_bits [OF assms(1,3)] by auto
  have P: "bit (pos_piece_bb (remove_piece s pt c p) x) n \<longleftrightarrow> bit (pos_piece_bb p x) n \<and> \<not> bit (square_bb s) n"
    "bit (pos_color_bb (remove_piece s pt c p) d) n \<longleftrightarrow> bit (pos_color_bb p d) n \<and> \<not> bit (square_bb s) n" for n x d
    using n [of n x d] by (auto simp: pos_simps bit_and_iff bit_not_iff simp del: bit_square_bb)
  show ?thesis using assms(1) unfolding board_ok_bits P by blast
qed

lemma move_piece_eq:
  assumes "board_ok p" "on_board s" "on_board t" "s \<noteq> t" "has p s pt c" "free p t"
  shows "move_piece s t pt c p = put_piece t pt c (remove_piece s pt c p)" "free (remove_piece s pt c p) t"
proof -
  have ne: "nat s \<noteq> nat t" using nat_eq_square [OF assms(2,3)] assms(4) by simp
  have "w XOR (square_bb s XOR square_bb t) = (w AND NOT (square_bb s)) OR square_bb t"
    if "bit w (nat s)" "\<not> bit w (nat t)" for w
    using that ne by (intro word64_eqI) (auto simp: bit_simps)
  then show "move_piece s t pt c p = put_piece t pt c (remove_piece s pt c p)"
    using has_bits [OF assms(1,5)] free_bits [OF assms(1,6)]
    by (simp add: move_piece_def put_piece_def remove_piece_def Let_def fun_eq_iff)
  show "free (remove_piece s pt c p) t"
    using free_bits [OF assms(1,6)] by (simp add: free_def bit_occupancy pos_simps bit_and_iff)
qed

lemma move_piece_ok:
  assumes "board_ok p" "on_board s" "on_board t" "s \<noteq> t" "has p s pt c" "free p t"
  shows "board_ok (move_piece s t pt c p)"
  unfolding move_piece_eq(1) [OF assms]
  by (intro put_piece_ok remove_piece_ok move_piece_eq(2) assms)

lemma remove_put_piece:
  assumes "board_ok p" "on_board s" "free p s"
  shows "remove_piece s pt c (put_piece s pt c p) = p"
proof -
  have "(w OR square_bb s) AND NOT (square_bb s) = w" if "\<not> bit w (nat s)" for w
    using that by (intro word64_eqI) (auto simp: bit_simps)
  then show ?thesis using free_bits [OF assms(1,3)]
    by (simp add: put_piece_def remove_piece_def fun_upd_idem)
qed

lemma put_remove_piece:
  assumes "board_ok p" "on_board s" "has p s pt c"
  shows "put_piece s pt c (remove_piece s pt c p) = p"
proof -
  have "(w AND NOT (square_bb s)) OR square_bb s = w" if "bit w (nat s)" for w
    using that by (intro word64_eqI) (auto simp: bit_simps)
  then show ?thesis using assms(3)
    by (simp add: put_piece_def remove_piece_def has_def fun_upd_idem)
qed

lemma move_piece_back: "move_piece t s pt c (move_piece s t pt c p) = p"
proof -
  have "(w XOR (square_bb s XOR square_bb t)) XOR (square_bb t XOR square_bb s) = w" for w
    by (simp add: xor_ac)
  then show ?thesis by (simp add: move_piece_def Let_def fun_upd_idem)
qed

lemma move_piece_commute:
  "move_piece s t pt c (move_piece s' t' pt' c' p) = move_piece s' t' pt' c' (move_piece s t pt c p)"
  by (simp add: move_piece_def Let_def fun_eq_iff xor_ac)

text \<open>The effect on the hash.\<close>

lemma put_piece_hash:
  assumes "board_ok p" "on_board s" "free p s"
  shows "hash_pieces (put_piece s pt c p) = hash_pieces p XOR piece_square_key s pt c"
proof (rule hash_pieces_change)
  fix c' pt'
  let ?w = "piece_type_color_bb p pt' c'"
  have nb: "\<not> bit ?w (nat s)" using free_bits [OF assms(1,3)] by (simp add: piece_type_color_bb_def bit_and_iff)
  have "piece_type_color_bb (put_piece s pt c p) pt' c' = (if c' = c \<and> pt' = pt then ?w OR square_bb s else ?w)"
    using free_bits [OF assms(1,3)]
    by (intro word64_eqI) (auto simp: piece_type_color_bb_def pos_simps bit_simps)
  then show "kind_hash (put_piece s pt c p) c' pt' =
      (if c' = c \<and> pt' = pt then kind_hash p c' pt' XOR piece_square_key s pt c else kind_hash p c' pt')"
    using xor_squares_add [OF assms(2) nb] by (cases "c' = c \<and> pt' = pt") (auto simp: kind_hash_def)
qed

lemma remove_piece_hash:
  assumes "board_ok p" "on_board s" "has p s pt c"
  shows "hash_pieces (remove_piece s pt c p) = hash_pieces p XOR piece_square_key s pt c"
proof -
  have "hash_pieces (put_piece s pt c (remove_piece s pt c p)) =
      hash_pieces (remove_piece s pt c p) XOR piece_square_key s pt c"
    using has_bits [OF assms(1,3)] on_board_nat [OF assms(2)]
    by (intro put_piece_hash remove_piece_ok assms)
      (auto simp: free_def bit_occupancy pos_simps bit_and_iff bit_not_iff)
  then show ?thesis using put_remove_piece [OF assms] by (simp add: xor.assoc)
qed

lemma move_piece_hash:
  assumes "board_ok p" "on_board s" "on_board t" "s \<noteq> t" "has p s pt c" "free p t"
  shows "hash_pieces (move_piece s t pt c p) =
    hash_pieces p XOR piece_square_key s pt c XOR piece_square_key t pt c"
  using move_piece_eq [OF assms] put_piece_hash [OF remove_piece_ok [OF assms(1,2,5)] assms(3)]
    remove_piece_hash [OF assms(1,2,5)]
  by (simp add: xor.assoc)

interpretation board: hashed_board board_ok has free put_piece remove_piece move_piece
  hash_pieces piece_square_key
  by unfold_locales
    (rule free_iff has_unique put_piece_ok put_piece_has remove_piece_ok remove_piece_has
       move_piece_ok move_piece_has remove_put_piece put_remove_piece move_piece_back
       move_piece_commute put_piece_hash remove_piece_hash move_piece_hash; assumption)+

end
