(* ===== verification/Make_Move_Correct.thy ===== *)
theory Make_Move_Correct
  imports Make_Move Board_Ops
begin

text \<open>
  Making and unmaking moves is correct: \<open>make_move\<close> keeps the board and the state stack well formed,
  \<open>unmake_move\<close> restores the whole position, and the incrementally maintained hash is the hash
  computed from scratch.  \<open>move_ok\<close> says what a move must satisfy on a position, which is what the
  move generators produce (theory Move_Gen_Correct).
\<close>

section \<open>Moves that fit the position\<close>

definition castle_ready :: "position \<Rightarrow> int \<Rightarrow> color \<Rightarrow> bool" where
  "castle_ready p to_sq stm \<longleftrightarrow>
     to_sq = C1 \<and> has p A1 ROOK stm \<and> free p D1 \<or> to_sq = G1 \<and> has p H1 ROOK stm \<and> free p F1 \<or>
     to_sq = C8 \<and> has p A8 ROOK stm \<and> free p D8 \<or> to_sq = G8 \<and> has p H8 ROOK stm \<and> free p F8"

definition move_ok :: "position \<Rightarrow> move \<Rightarrow> bool" where
  "move_ok p m \<longleftrightarrow>
     (let stm = pos_side_to_move p; f = from_square m; t = to_square m in
      f \<noteq> t \<and>
      (case move_type_of p m of
         NORMAL \<Rightarrow> (\<exists>pt. has p f pt stm) \<and> free p t
       | CAPTURE \<Rightarrow> (\<exists>pt. has p f pt stm) \<and> (\<exists>pt. has p t pt (opp stm))
       | DOUBLE_PUSH \<Rightarrow> has p f PAWN stm \<and> free p t
       | ENPASSANT \<Rightarrow> has p f PAWN stm \<and> free p t \<and> on_board (ep_victim stm t)
           \<and> has p (ep_victim stm t) PAWN (opp stm)
       | CASTLING \<Rightarrow> has p f KING stm \<and> free p t \<and> castle_ready p t stm
       | PROMOTION \<Rightarrow> has p f PAWN stm \<and> free p t \<and> promotion_piece_type m \<noteq> None
       | CAPTURE_PROMOTION \<Rightarrow> has p f PAWN stm \<and> (\<exists>pt. has p t pt (opp stm))
           \<and> promotion_piece_type m \<noteq> None
       | NONE \<Rightarrow> False))"

definition pos_ok :: "position \<Rightarrow> bool" where
  "pos_ok p \<longleftrightarrow> board_ok p \<and> stack_ok p"

section \<open>The switch of make-move and its inverse\<close>

abbreviation move_board :: "position \<Rightarrow> move \<Rightarrow> 64 word \<Rightarrow> position \<times> int option \<times> 64 word \<times> bool" where
  "move_board p m h \<equiv> apply_move (move_type_of p m) (from_square m) (to_square m)
     (piece_type_on p (from_square m)) (piece_type_on p (to_square m)) (promotion_piece_type m)
     (pos_side_to_move p) h p"

lemma piece_ops_other_fields [simp]:
  "pos_side_to_move (put_piece s pt c p) = pos_side_to_move p"
  "pos_fullmoves (put_piece s pt c p) = pos_fullmoves p"
  "pos_ply (put_piece s pt c p) = pos_ply p"
  "pos_history (put_piece s pt c p) = pos_history p"
  "pos_start_fen (put_piece s pt c p) = pos_start_fen p"
  "pos_side_to_move (remove_piece s pt c p) = pos_side_to_move p"
  "pos_fullmoves (remove_piece s pt c p) = pos_fullmoves p"
  "pos_ply (remove_piece s pt c p) = pos_ply p"
  "pos_history (remove_piece s pt c p) = pos_history p"
  "pos_start_fen (remove_piece s pt c p) = pos_start_fen p"
  "pos_side_to_move (move_piece s t pt c p) = pos_side_to_move p"
  "pos_fullmoves (move_piece s t pt c p) = pos_fullmoves p"
  "pos_ply (move_piece s t pt c p) = pos_ply p"
  "pos_history (move_piece s t pt c p) = pos_history p"
  "pos_start_fen (move_piece s t pt c p) = pos_start_fen p"
  by (simp_all add: put_piece_def remove_piece_def move_piece_def Let_def)

lemma apply_move_other_fields:
  assumes "apply_move ty f t mp cp pp stm h p = (q, ep, h', calc)"
  shows "pos_side_to_move q = pos_side_to_move p" "pos_fullmoves q = pos_fullmoves p"
    "pos_ply q = pos_ply p" "pos_history q = pos_history p" "pos_start_fen q = pos_start_fen p"
  using assms by (auto simp: apply_move_def Let_def castle_rook_def split: move_type.splits)

lemma on_of_has:
  assumes "board_ok p" "has p s pt c" "on_board s"
  shows "piece_type_on p s = Some pt"
  using assms by (simp add: has_iff_on)

lemma castle_readyE:
  assumes "board_ok p" "castle_ready p t stm" "has p f KING stm" "free p t" "on_board f"
  obtains rf rt where "on_board rf" "on_board rt" "rf \<noteq> rt" "rf \<noteq> f" "rf \<noteq> t" "rt \<noteq> f" "rt \<noteq> t"
    "has p rf ROOK stm" "free p rt"
    "castle_rook t stm = move_piece rf rt ROOK stm" "uncastle_rook t stm = move_piece rt rf ROOK stm"
proof -
  have ne: "\<not> has p f ROOK stm" "\<not> free p f" "has p s ROOK stm \<Longrightarrow> \<not> free p s" for s
    using has_unique [OF assms(1,3)] free_iff [OF assms(1)] assms(3) by blast+
  from assms(2) consider
    "t = C1" "has p A1 ROOK stm" "free p D1" | "t = G1" "has p H1 ROOK stm" "free p F1" |
    "t = C8" "has p A8 ROOK stm" "free p D8" | "t = G8" "has p H8 ROOK stm" "free p F8"
    unfolding castle_ready_def by blast
  then show thesis
  proof cases
    case 1
    then show thesis using ne
      by (intro that [of A1 D1]) (auto simp: castle_rook_def uncastle_rook_def on_board_def fun_eq_iff)
  next
    case 2
    then show thesis using ne
      by (intro that [of H1 F1]) (auto simp: castle_rook_def uncastle_rook_def on_board_def fun_eq_iff)
  next
    case 3
    then show thesis using ne
      by (intro that [of A8 D8]) (auto simp: castle_rook_def uncastle_rook_def on_board_def fun_eq_iff)
  next
    case 4
    then show thesis using ne
      by (intro that [of H8 F8]) (auto simp: castle_rook_def uncastle_rook_def on_board_def fun_eq_iff)
  qed
qed

lemma ep_victim_ne: "ep_victim stm t \<noteq> t"
  by (simp add: ep_victim_def)

text \<open>One case per move type: the board stays well formed and the inverse switch restores it.\<close>

lemma apply_move_ok_undo:
  assumes ok: "board_ok p" and m: "move_ok p m"
    and a: "move_board p m h = (q, ep, h', calc)"
  shows "board_ok q"
    and "unapply_move (move_type_of p m) (from_square m) (to_square m) (piece_type_on p (to_square m))
      (promotion_piece_type m) (pos_side_to_move p) q = p"
proof -
  let ?stm = "pos_side_to_move p" and ?f = "from_square m" and ?t = "to_square m"
  have ft: "?f \<noteq> ?t" using m by (simp add: move_ok_def Let_def)
  note on = on_of_has [OF ok]
  have "board_ok q \<and> unapply_move (move_type_of p m) ?f ?t (piece_type_on p ?t)
      (promotion_piece_type m) ?stm q = p"
  proof (cases "move_type_of p m")
    case NORMAL
    then obtain pt where pt: "has p ?f pt ?stm" "free p ?t" using m by (auto simp: move_ok_def Let_def)
    have q: "q = move_piece ?f ?t pt ?stm p"
      using a on [OF pt(1)] by (simp add: apply_move_def NORMAL)
    have okq: "board_ok q" unfolding q using ok ft pt by (intro board.move_ok) simp_all
    have "has q ?t pt ?stm" unfolding q using ok ft pt by (subst board.move_holds) simp_all
    then have "piece_type_on q ?t = Some pt" by (rule on_of_has [OF okq]) simp
    then show ?thesis using okq by (simp add: NORMAL unapply_move_def q board.move_back)
  next
    case CAPTURE
    then obtain pt pt' where pt: "has p ?f pt ?stm" "has p ?t pt' (opp ?stm)"
      using m by (auto simp: move_ok_def Let_def)
    have q: "q = move_piece ?f ?t pt ?stm (remove_piece ?t pt' (opp ?stm) p)"
      using a on [OF pt(1)] on [OF pt(2)] by (simp add: apply_move_def CAPTURE)
    have okq: "board_ok q" unfolding q using ok ft pt by (intro board.capture_ok) simp_all
    have "has q ?t pt ?stm" unfolding q using ok ft pt by (subst board.capture_holds) simp_all
    then have "piece_type_on q ?t = Some pt" by (rule on_of_has [OF okq]) simp
    then show ?thesis using okq on [OF pt(2)] ok pt
      by (simp add: CAPTURE unapply_move_def) (simp add: q board.capture_undo)
  next
    case DOUBLE_PUSH
    then have pt: "has p ?f PAWN ?stm" "free p ?t" using m by (auto simp: move_ok_def Let_def)
    have q: "q = move_piece ?f ?t PAWN ?stm p"
      using a by (simp add: apply_move_def DOUBLE_PUSH Let_def)
    have okq: "board_ok q" unfolding q using ok ft pt by (intro board.move_ok) simp_all
    then show ?thesis by (simp add: DOUBLE_PUSH unapply_move_def q board.move_back)
  next
    case ENPASSANT
    let ?v = "ep_victim ?stm ?t"
    have pt: "has p ?f PAWN ?stm" "free p ?t" "on_board ?v" "has p ?v PAWN (opp ?stm)"
      using ENPASSANT m by (auto simp: move_ok_def Let_def)
    have vf: "?v \<noteq> ?f" using has_unique [OF ok pt(1), of PAWN "opp ?stm"] pt(4) opp_simps(5) [of ?stm] by metis
    have q: "q = remove_piece ?v PAWN (opp ?stm) (move_piece ?f ?t PAWN ?stm p)"
      using a by (simp add: apply_move_def ENPASSANT)
    have "board_ok q" unfolding q using ok ft pt vf ep_victim_ne by (intro board.enpassant_ok) simp_all
    moreover have "move_piece ?t ?f PAWN ?stm (put_piece ?v PAWN (opp ?stm) q) = p"
      unfolding q using ok ft pt vf ep_victim_ne by (intro board.enpassant_undo) simp_all
    ultimately show ?thesis by (simp add: ENPASSANT unapply_move_def)
  next
    case CASTLING
    then have pt: "has p ?f KING ?stm" "free p ?t" "castle_ready p ?t ?stm"
      using m by (auto simp: move_ok_def Let_def)
    obtain rf rt where r: "on_board rf" "on_board rt" "rf \<noteq> rt" "rf \<noteq> ?f" "rf \<noteq> ?t" "rt \<noteq> ?f" "rt \<noteq> ?t"
      "has p rf ROOK ?stm" "free p rt"
      "castle_rook ?t ?stm = move_piece rf rt ROOK ?stm" "uncastle_rook ?t ?stm = move_piece rt rf ROOK ?stm"
      by (rule castle_readyE [OF ok pt(3,1,2) from_square_on_board])
    have q: "q = move_piece rf rt ROOK ?stm (move_piece ?f ?t KING ?stm p)"
      using a r(10) by (simp add: apply_move_def CASTLING)
    have "board_ok q" unfolding q using ok ft pt r(1-9) by (intro board.castle_ok) simp_all
    moreover have "uncastle_rook ?t ?stm (move_piece ?t ?f KING ?stm q) = p"
      unfolding r(11) q by (rule board.castle_undo)
    ultimately show ?thesis by (simp add: CASTLING unapply_move_def)
  next
    case PROMOTION
    then obtain pr where pt: "has p ?f PAWN ?stm" "free p ?t" "promotion_piece_type m = Some pr"
      using m by (auto simp: move_ok_def Let_def)
    have q: "q = put_piece ?t pr ?stm (remove_piece ?f PAWN ?stm p)"
      using a pt(3) by (simp add: apply_move_def PROMOTION)
    have "board_ok q" unfolding q using ok ft pt by (intro board.promotion_ok) simp_all
    moreover have "put_piece ?f PAWN ?stm (remove_piece ?t pr ?stm q) = p"
      unfolding q using ok ft pt by (intro board.promotion_undo) simp_all
    ultimately show ?thesis using pt(3) by (simp add: PROMOTION unapply_move_def)
  next
    case CAPTURE_PROMOTION
    then obtain pr pt' where pt: "has p ?f PAWN ?stm" "has p ?t pt' (opp ?stm)" "promotion_piece_type m = Some pr"
      using m by (auto simp: move_ok_def Let_def)
    have q: "q = put_piece ?t pr ?stm (remove_piece ?f PAWN ?stm (remove_piece ?t pt' (opp ?stm) p))"
      using a pt(3) on [OF pt(2)] by (simp add: apply_move_def CAPTURE_PROMOTION)
    have "board_ok q" unfolding q using ok ft pt by (intro board.capture_promotion_ok) simp_all
    moreover have "put_piece ?t pt' (opp ?stm) (put_piece ?f PAWN ?stm (remove_piece ?t pr ?stm q)) = p"
      unfolding q using ok ft pt by (intro board.capture_promotion_undo) simp_all
    ultimately show ?thesis using pt(3) on [OF pt(2)] by (simp add: CAPTURE_PROMOTION unapply_move_def)
  next
    case NONE
    then show ?thesis using m by (simp add: move_ok_def Let_def)
  qed
  then show "board_ok q" "unapply_move (move_type_of p m) ?f ?t (piece_type_on p ?t)
      (promotion_piece_type m) ?stm q = p" by blast+
qed

section \<open>Well-formedness\<close>

lemma has_cong:
  fixes p q :: position
  assumes "pos_piece_bb q = pos_piece_bb p" "pos_color_bb q = pos_color_bb p"
  shows "board_ok q = board_ok p" "has q = has p" "free q = free p" "occupancy_bb q = occupancy_bb p"
    "hash_pieces q = hash_pieces p" "piece_type_on q = piece_type_on p" "color_of q = color_of p"
    "piece_type_color_bb q = piece_type_color_bb p"
proof -
  show oc: "occupancy_bb q = occupancy_bb p" using assms by (simp add: occupancy_bb_def)
  show "piece_type_color_bb q = piece_type_color_bb p"
    using assms by (simp add: piece_type_color_bb_def fun_eq_iff)
  then show "hash_pieces q = hash_pieces p" by (simp add: hash_pieces_def)
  show "board_ok q = board_ok p" using assms oc by (simp add: board_ok_def)
  show "has q = has p" "free q = free p" "piece_type_on q = piece_type_on p" "color_of q = color_of p"
    using assms oc by (simp_all add: has_def free_def piece_type_on_def color_of_def fun_eq_iff)
qed

lemma xor_ep_cong:
  fixes p q :: position
  shows "pos_piece_bb q = pos_piece_bb p \<Longrightarrow> pos_color_bb q = pos_color_bb p \<Longrightarrow> xor_ep q = xor_ep p"
  by (intro ext) (simp add: xor_ep_def split: option.split)

lemma stack_top: "stack_ok p \<Longrightarrow> nat (pos_ply p + 1) = length (pos_history p)"
  by (auto simp: stack_ok_def)

lemma nat_ply_less: "stack_ok p \<Longrightarrow> nat (pos_ply p) < length (pos_history p)"
  by (auto simp: stack_ok_def)

lemma calculate_hash_cong:
  fixes p q :: position
  assumes "pos_piece_bb q = pos_piece_bb p" "pos_color_bb q = pos_color_bb p"
    "pos_side_to_move q = pos_side_to_move p" "enpassant_square q = enpassant_square p"
    "castling_rights q = castling_rights p"
  shows "calculate_hash q = calculate_hash p"
  unfolding calculate_hash_def using has_cong(5) [OF assms(1,2)] assms
  by (cases "enpassant_square p") (simp_all add: Let_def)

text \<open>What \<open>make_move\<close> leaves on the board and on the top of the stack.\<close>

lemma make_move_fields:
  assumes "stack_ok p"
    and a: "move_board p m (xor_ep p (enpassant_square p) (pos_side_to_move p) (pos_hash p)) = (b, ep, h1, calc)"
  defines "q \<equiv> make_move m p"
  shows "pos_piece_bb q = pos_piece_bb b" "pos_color_bb q = pos_color_bb b"
    "pos_side_to_move q = opp (pos_side_to_move p)" "pos_ply q = pos_ply p + 1"
    "pos_fullmoves q = (if pos_side_to_move p = BLACK then pos_fullmoves p + 1 else pos_fullmoves p)"
    "butlast (pos_history q) = pos_history p" "pos_start_fen q = pos_start_fen p"
    "stack_ok q"
    "st_previous_move (cur_state q) = Some m" "st_move_type (cur_state q) = move_type_of p m"
    "st_captured_pt (cur_state q) = piece_type_on p (to_square m)"
    "enpassant_square q = ep"
    "castling_rights q = castling_rights p AND castling_spoilers ! nat (from_square m)
       AND castling_spoilers ! nat (to_square m)"
    "halfmoves q = (if piece_type_on p (from_square m) = Some PAWN \<or> piece_type_on p (to_square m) \<noteq> None
       then 0 else halfmoves p + 1)"
    "pos_hash q = (if calc then calculate_hash q
       else h1 XOR side_to_move_key XOR castling_rights_key (castling_rights p)
         XOR castling_rights_key (castling_rights q))"
proof -
  note st = stack_top [OF assms(1)]
  define half where "half = (if piece_type_on p (from_square m) = Some PAWN \<or> piece_type_on p (to_square m) \<noteq> None
       then 0 else halfmoves p + 1)"
  define nx where "nx = \<lparr>st_castling_rights = castling_rights p AND castling_spoilers ! nat (from_square m)
       AND castling_spoilers ! nat (to_square m),
     st_enpassant_square = ep, st_previous_move = Some m,
     st_captured_pt = piece_type_on p (to_square m), st_move_type = move_type_of p m, st_hash = h1,
     st_halfmoves = half\<rparr>"
  define p' where "p' = b\<lparr>pos_fullmoves := (if pos_side_to_move p = BLACK then pos_fullmoves p + 1 else pos_fullmoves p),
     pos_ply := pos_ply p + 1, pos_history := pos_history p @ [nx],
     pos_side_to_move := opp (pos_side_to_move p)\<rparr>"
  define hh where "hh = (if calc then calculate_hash p'
     else h1 XOR side_to_move_key XOR castling_rights_key (castling_rights p)
       XOR castling_rights_key (st_castling_rights nx))"
  have q: "q = p'\<lparr>pos_history := pos_history p @ [nx\<lparr>st_hash := hh\<rparr>]\<rparr>"
  proof -
    have "q = update_state (\<lambda>st. st\<lparr>st_hash := hh\<rparr>) p'"
      using a unfolding q_def make_move_def hh_def p'_def nx_def half_def
      by (simp add: Let_def cur_state_def castling_rights_def halfmoves_def enpassant_square_def pos_hash_def)
    then show ?thesis using st by (simp add: update_state_def cur_state_def p'_def)
  qed
  have cur: "cur_state q = nx\<lparr>st_hash := hh\<rparr>" using st by (simp add: q cur_state_def p'_def)
  have cur': "cur_state p' = nx" using st by (simp add: cur_state_def p'_def)
  have hash: "calculate_hash q = calculate_hash p'"
    by (rule calculate_hash_cong)
      (simp_all only: enpassant_square_def castling_rights_def cur cur', simp_all add: q)
  show "pos_piece_bb q = pos_piece_bb b" "pos_color_bb q = pos_color_bb b"
    "pos_side_to_move q = opp (pos_side_to_move p)" "pos_ply q = pos_ply p + 1"
    "pos_fullmoves q = (if pos_side_to_move p = BLACK then pos_fullmoves p + 1 else pos_fullmoves p)"
    "butlast (pos_history q) = pos_history p"
    by (simp_all add: q p'_def)
  show "pos_start_fen q = pos_start_fen p" using apply_move_other_fields(5) [OF a] by (simp add: q p'_def)
  show "stack_ok q" using assms(1) by (auto simp: q p'_def stack_ok_def)
  show "st_previous_move (cur_state q) = Some m" "st_move_type (cur_state q) = move_type_of p m"
    "st_captured_pt (cur_state q) = piece_type_on p (to_square m)" "enpassant_square q = ep"
    by (simp_all add: cur enpassant_square_def nx_def)
  show cr: "castling_rights q = castling_rights p AND castling_spoilers ! nat (from_square m)
       AND castling_spoilers ! nat (to_square m)"
    by (simp add: castling_rights_def [of q] cur nx_def)
  show "halfmoves q = (if piece_type_on p (from_square m) = Some PAWN \<or> piece_type_on p (to_square m) \<noteq> None
       then 0 else halfmoves p + 1)"
    by (simp add: halfmoves_def [of q] cur nx_def half_def)
  show "pos_hash q = (if calc then calculate_hash q
       else h1 XOR side_to_move_key XOR castling_rights_key (castling_rights p)
         XOR castling_rights_key (castling_rights q))"
    by (simp add: pos_hash_def [of q] cur hash cr hh_def nx_def)
qed

lemma make_move_ok:
  assumes "pos_ok p" "move_ok p m"
  shows "pos_ok (make_move m p)"
proof -
  obtain b ep h1 calc where a: "move_board p m (xor_ep p (enpassant_square p) (pos_side_to_move p) (pos_hash p))
      = (b, ep, h1, calc)" by (metis prod_cases4)
  have "board_ok b" using apply_move_ok_undo(1) [OF _ assms(2) a] assms(1) by (simp add: pos_ok_def)
  then show ?thesis using make_move_fields [OF _ a] assms(1) has_cong(1)
    by (metis pos_ok_def)
qed

lemma position_eqI:
  fixes p q :: position
  assumes "pos_piece_bb p = pos_piece_bb q" "pos_color_bb p = pos_color_bb q"
    "pos_side_to_move p = pos_side_to_move q" "pos_fullmoves p = pos_fullmoves q" "pos_ply p = pos_ply q"
    "pos_history p = pos_history q" "pos_start_fen p = pos_start_fen q"
  shows "p = q"
  using assms by (cases p; cases q) simp

text \<open>Taking a move back restores the position.\<close>

lemma unmake_make_move:
  assumes "pos_ok p" "move_ok p m"
  shows "unmake_move (make_move m p) = p"
proof -
  let ?q = "make_move m p" and ?stm = "pos_side_to_move p"
  obtain b ep h1 calc where a: "move_board p m (xor_ep p (enpassant_square p) ?stm (pos_hash p))
      = (b, ep, h1, calc)" by (metis prod_cases4)
  have ok: "board_ok p" "stack_ok p" using assms(1) by (auto simp: pos_ok_def)
  note F = make_move_fields [OF ok(2) a] and O = apply_move_other_fields [OF a]
  have base: "?q\<lparr>pos_fullmoves := (if pos_side_to_move ?q = WHITE then pos_fullmoves ?q - 1 else pos_fullmoves ?q),
      pos_ply := pos_ply ?q - 1, pos_history := butlast (pos_history ?q),
      pos_side_to_move := opp (pos_side_to_move ?q)\<rparr> = b"
    by (rule position_eqI) (use F O in \<open>cases ?stm; simp\<close>)+
  have "unmake_move ?q = unapply_move (move_type_of p m) (from_square m) (to_square m)
      (piece_type_on p (to_square m)) (promotion_piece_type m) ?stm b"
    unfolding unmake_move_def Let_def base using F by simp
  also have "\<dots> = p" by (rule apply_move_ok_undo(2) [OF ok(1) assms(2) a])
  finally show ?thesis .
qed

section \<open>The hash\<close>

definition hash_ok :: "position \<Rightarrow> bool" where
  "hash_ok p \<longleftrightarrow> pos_hash p = calculate_hash p"

definition side_key :: "color \<Rightarrow> 64 word" where
  "side_key c = (if c = WHITE then side_to_move_key else 0)"

lemma xor_ep_split: "xor_ep p ep c h = h XOR xor_ep p ep c 0"
  by (cases ep) (simp_all add: xor_ep_def)

lemma calculate_hash_parts:
  "calculate_hash p = hash_pieces p XOR xor_ep p (enpassant_square p) (pos_side_to_move p) 0
     XOR castling_rights_key (castling_rights p) XOR side_key (pos_side_to_move p)"
  by (cases "enpassant_square p") (simp_all add: calculate_hash_def xor_ep_def side_key_def Let_def xor.assoc)

lemma side_key_opp: "side_key (opp c) = side_to_move_key XOR side_key c"
  by (cases c) (simp_all add: side_key_def)

lemma apply_move_hash:
  assumes ok: "board_ok p" and m: "move_ok p m" and a: "move_board p m h = (b, ep, h1, False)"
  shows "h1 = h XOR hash_pieces p XOR hash_pieces b XOR xor_ep b ep (opp (pos_side_to_move p)) 0"
proof -
  let ?stm = "pos_side_to_move p" and ?f = "from_square m" and ?t = "to_square m"
  have ft: "?f \<noteq> ?t" using m by (simp add: move_ok_def Let_def)
  note on = on_of_has [OF ok]
  show ?thesis
  proof (cases "move_type_of p m")
    case NORMAL
    then obtain pt where pt: "has p ?f pt ?stm" "free p ?t" using m by (auto simp: move_ok_def Let_def)
    from pt on [OF pt(1)] board.move_digest [OF ok _ _ ft pt] a show ?thesis
      by (auto simp: apply_move_def NORMAL xor_ep_def xor_ac)
  next
    case CAPTURE
    then obtain pt pt' where pt: "has p ?f pt ?stm" "has p ?t pt' (opp ?stm)"
      using m by (auto simp: move_ok_def Let_def)
    from on [OF pt(1)] on [OF pt(2)] board.capture_digest [OF ok _ _ ft pt] a show ?thesis
      by (auto simp: apply_move_def CAPTURE xor_ep_def xor_ac)
  next
    case DOUBLE_PUSH
    then have pt: "has p ?f PAWN ?stm" "free p ?t" using m by (auto simp: move_ok_def Let_def)
    let ?ep = "Some (if ?stm = WHITE then ?f + 8 else ?f - 8)"
    have b: "b = move_piece ?f ?t PAWN ?stm p" "ep = ?ep"
      "h1 = xor_ep b ?ep (opp ?stm) h XOR piece_square_key ?f PAWN ?stm XOR piece_square_key ?t PAWN ?stm"
      using a by (auto simp: apply_move_def DOUBLE_PUSH Let_def)
    have "hash_pieces b = hash_pieces p XOR piece_square_key ?f PAWN ?stm XOR piece_square_key ?t PAWN ?stm"
      unfolding b(1) by (rule board.move_digest) (use ok ft pt in simp_all)
    then show ?thesis using b(2,3) xor_ep_split [of b ?ep "opp ?stm" h] by (simp add: xor_ac)
  next
    case PROMOTION
    then obtain pr where pt: "has p ?f PAWN ?stm" "free p ?t" "promotion_piece_type m = Some pr"
      using m by (auto simp: move_ok_def Let_def)
    from pt(3) board.promotion_digest [OF ok _ _ ft pt(1,2), of pr] a show ?thesis
      by (auto simp: apply_move_def PROMOTION xor_ep_def xor_ac)
  next
    case CAPTURE_PROMOTION
    then obtain pr pt' where pt: "has p ?f PAWN ?stm" "has p ?t pt' (opp ?stm)" "promotion_piece_type m = Some pr"
      using m by (auto simp: move_ok_def Let_def)
    from pt(3) on [OF pt(2)] board.capture_promotion_digest [OF ok _ _ ft pt(1,2), of pr] a show ?thesis
      by (auto simp: apply_move_def CAPTURE_PROMOTION xor_ep_def xor_ac)
  qed (use a in \<open>simp_all add: apply_move_def\<close>)
qed

text \<open>The incremental hash of \<open>make_move\<close> is the hash from scratch, whichever branch computed it.\<close>

lemma make_move_hash:
  assumes "pos_ok p" "move_ok p m" "hash_ok p"
  shows "hash_ok (make_move m p)"
proof -
  let ?q = "make_move m p" and ?stm = "pos_side_to_move p"
  let ?h0 = "xor_ep p (enpassant_square p) ?stm (pos_hash p)"
  obtain b ep h1 calc where a: "move_board p m ?h0 = (b, ep, h1, calc)" by (metis prod_cases4)
  have ok: "board_ok p" "stack_ok p" using assms(1) by (auto simp: pos_ok_def)
  note F = make_move_fields [OF ok(2) a]
  show ?thesis
  proof (cases calc)
    case True
    then show ?thesis using F(15) by (simp add: hash_ok_def)
  next
    case False
    have h1: "h1 = ?h0 XOR hash_pieces p XOR hash_pieces b XOR xor_ep b ep (opp ?stm) 0"
      using apply_move_hash [OF ok(1) assms(2)] a False by simp
    have hb: "hash_pieces ?q = hash_pieces b" using has_cong(5) [OF F(1,2)] .
    have xb: "xor_ep ?q = xor_ep b" using xor_ep_cong [OF F(1,2)] .
    have h0: "?h0 = hash_pieces p XOR castling_rights_key (castling_rights p) XOR side_key ?stm"
      using assms(3) xor_ep_split [of p "enpassant_square p" ?stm "pos_hash p"]
      by (simp add: hash_ok_def calculate_hash_parts xor_ac)
    have "pos_hash ?q = hash_pieces b XOR xor_ep b ep (opp ?stm) 0
        XOR castling_rights_key (castling_rights ?q) XOR side_key (opp ?stm)"
      using F(15) False unfolding h1 h0 side_key_opp by (simp add: xor_ac)
    then show ?thesis unfolding hash_ok_def calculate_hash_parts F(3,12) hb xb .
  qed
qed

section \<open>Null moves\<close>

lemma make_null_move_fields:
  assumes "stack_ok p"
  defines "q \<equiv> make_null_move p"
  shows "pos_piece_bb q = pos_piece_bb p" "pos_color_bb q = pos_color_bb p"
    "pos_side_to_move q = opp (pos_side_to_move p)" "enpassant_square q = None"
    "castling_rights q = castling_rights p" "stack_ok q"
    "pos_hash q = xor_ep p (enpassant_square p) (pos_side_to_move p) (pos_hash p) XOR side_to_move_key"
    "st_previous_move (cur_state q) = None"
proof -
  have st: "nat (pos_ply p + 1) = length (pos_history p)" using stack_top [OF assms(1)] .
  show "pos_piece_bb q = pos_piece_bb p" "pos_color_bb q = pos_color_bb p"
    "pos_side_to_move q = opp (pos_side_to_move p)" "enpassant_square q = None"
    "castling_rights q = castling_rights p"
    "pos_hash q = xor_ep p (enpassant_square p) (pos_side_to_move p) (pos_hash p) XOR side_to_move_key"
    "st_previous_move (cur_state q) = None"
    unfolding q_def make_null_move_def
    by (simp_all add: Let_def st cur_state_def [of "_\<lparr>pos_side_to_move := _\<rparr>"] enpassant_square_def
        castling_rights_def pos_hash_def)
  show "stack_ok q" using assms(1) by (auto simp: q_def make_null_move_def Let_def stack_ok_def)
qed

lemma make_null_move_ok: "pos_ok p \<Longrightarrow> pos_ok (make_null_move p)"
  using make_null_move_fields [of p] has_cong(1) [of "make_null_move p" p] by (simp add: pos_ok_def)

lemma unmake_null_move:
  assumes "stack_ok p"
  shows "unmake_move (make_null_move p) = p"
  using make_null_move_fields(8) [OF assms]
  by (cases "pos_side_to_move p") (simp_all add: unmake_move_def Let_def make_null_move_def)

lemma make_null_move_hash:
  assumes "stack_ok p" "hash_ok p"
  shows "hash_ok (make_null_move p)"
proof -
  let ?q = "make_null_move p"
  note F = make_null_move_fields [OF assms(1)]
  have "hash_pieces ?q = hash_pieces p" using has_cong(5) [OF F(1,2)] .
  then show ?thesis
    using assms(2) xor_ep_split [of p "enpassant_square p" "pos_side_to_move p" "pos_hash p"]
    unfolding hash_ok_def calculate_hash_parts F(3,4,5,7) side_key_opp
    by (simp add: xor_ep_def [of _ None] xor_ac)
qed

section \<open>Castling rights and clocks\<close>

text \<open>A right that a move leaves was there before; the rights value stays in range.\<close>

lemma make_move_rights:
  assumes "stack_ok p" "cr_is_allowed r (castling_rights (make_move m p))"
  shows "castling_rights p AND r \<noteq> 0"
proof -
  obtain b ep h1 calc where a: "move_board p m (xor_ep p (enpassant_square p) (pos_side_to_move p) (pos_hash p))
      = (b, ep, h1, calc)" by (metis prod_cases4)
  have "castling_rights (make_move m p) = castling_rights p AND (castling_spoilers ! nat (from_square m)
       AND castling_spoilers ! nat (to_square m))"
    using make_move_fields(13) [OF assms(1) a] .
  then show ?thesis using assms(2) unfolding cr_is_allowed_def
    by (metis and.left_commute and.assoc and.commute and_zero_eq)
qed

section \<open>Properties\<close>

text \<open>A position for the witnesses: kings on e1 and e8, a white pawn on e2, a black pawn on d4, white
  to move, all castling rights still recorded.\<close>

definition sample_position :: position where
  "sample_position = empty_position
     \<lparr>pos_piece_bb := (\<lambda>_. 0)(KING := 0x1000000000000010, PAWN := 0x8001000),
      pos_color_bb := (\<lambda>_. 0)(WHITE := 0x1010, BLACK := 0x1000000008000000),
      pos_history := [initial_state\<lparr>st_castling_rights := 15\<rparr>], pos_fullmoves := 1\<rparr>"

definition sample_hashed :: position where
  "sample_hashed = update_state (\<lambda>st. st\<lparr>st_hash := calculate_hash sample_position\<rparr>) sample_position"

definition sample_move :: move where
  "sample_move = mk_move 12 28 DOUBLE_PUSH"

lemma sample_ok: "pos_ok sample_position" "stack_ok sample_position"
  by (simp_all add: pos_ok_def board_ok_def stack_ok_def sample_position_def empty_position_def
      all_piece_type occupancy_bb_def)

lemma sample_hashed_ok: "pos_ok sample_hashed" "hash_ok sample_hashed"
proof -
  have c: "cur_state sample_hashed = (cur_state sample_position)\<lparr>st_hash := calculate_hash sample_position\<rparr>"
    by (simp add: sample_hashed_def update_state_def cur_state_def sample_position_def empty_position_def)
  show "pos_ok sample_hashed"
    using sample_ok has_cong(1) [of sample_hashed sample_position]
    by (simp add: pos_ok_def sample_hashed_def update_state_def stack_ok_def)
  have "calculate_hash sample_hashed = calculate_hash sample_position"
    by (rule calculate_hash_cong)
      (simp_all add: enpassant_square_def castling_rights_def c, simp_all add: sample_hashed_def update_state_def)
  then show "hash_ok sample_hashed" by (simp add: hash_ok_def pos_hash_def c)
qed

lemma sample_move_ok: "move_ok sample_position sample_move" "move_ok sample_hashed sample_move"
proof -
  have f: "from_square sample_move = 12" "to_square sample_move = 28" "move_type sample_move = DOUBLE_PUSH"
    using mk_move_fields [of 12 28 DOUBLE_PUSH] by (simp_all add: sample_move_def on_board_def)
  show "move_ok sample_position sample_move" "move_ok sample_hashed sample_move"
    by (simp_all add: move_ok_def Let_def move_type_of_def f has_def free_def occupancy_bb_def
        sample_hashed_def update_state_def sample_position_def empty_position_def)
qed

text \<open>C11 (roundtrip). Taking back a move that fits the position restores the whole position: board,
  side to move, counters and state stack.\<close>

theorem unmake_make_restores:
  assumes "pos_ok p" "move_ok p m"
  shows "unmake_move (make_move m p) = p"
  using unmake_make_move [OF assms] .

theorem unmake_make_restores_witness:
  "unmake_move (make_move sample_move sample_position) = sample_position"
  by (rule unmake_make_restores [OF sample_ok(1) sample_move_ok(1)])

text \<open>C12 (equivalence). The hash that \<open>make_move\<close> maintains incrementally (piece keys, en passant key,
  castling keys, side key) equals \<open>calculate_hash\<close> of the new position.\<close>

theorem make_move_hash_from_scratch:
  assumes "pos_ok p" "move_ok p m" "pos_hash p = calculate_hash p"
  shows "pos_hash (make_move m p) = calculate_hash (make_move m p)"
  using make_move_hash [OF assms(1,2)] assms(3) by (simp add: hash_ok_def)

theorem make_move_hash_from_scratch_witness:
  "pos_hash (make_move sample_move sample_hashed) = calculate_hash (make_move sample_move sample_hashed)"
  using make_move_hash_from_scratch [OF sample_hashed_ok(1) sample_move_ok(2)] sample_hashed_ok(2)
  by (simp add: hash_ok_def)

text \<open>Making a move that fits keeps the position well formed: one piece and one colour
  per square at most, and the state stack as high as the ply.\<close>

theorem make_move_keeps_position:
  assumes "pos_ok p" "move_ok p m"
  shows "board_ok (make_move m p) \<and> stack_ok (make_move m p)"
  using make_move_ok [OF assms] by (simp add: pos_ok_def)

theorem make_move_keeps_position_witness:
  "board_ok (make_move sample_move sample_position) \<and> stack_ok (make_move sample_move sample_position)"
  by (rule make_move_keeps_position [OF sample_ok(1) sample_move_ok(1)])

text \<open>No move gives a castling right back: a right allowed after the move was allowed
  before it.\<close>

theorem castling_rights_only_shrink:
  assumes "stack_ok p" "cr_is_allowed r (castling_rights (make_move m p))"
  shows "cr_is_allowed r (castling_rights p)"
  using make_move_rights [OF assms] by (simp add: cr_is_allowed_def)

lemma sample_keeps_rights: "cr_is_allowed WHITE_KINGSIDE (castling_rights (make_move sample_move sample_position))"
proof -
  obtain b ep h1 calc where a: "move_board sample_position sample_move (xor_ep sample_position
      (enpassant_square sample_position) (pos_side_to_move sample_position) (pos_hash sample_position))
      = (b, ep, h1, calc)" by (metis prod_cases4)
  have f: "from_square sample_move = 12" "to_square sample_move = 28"
    using mk_move_fields [of 12 28 DOUBLE_PUSH] by (simp_all add: sample_move_def on_board_def)
  show ?thesis unfolding make_move_fields(13) [OF sample_ok(2) a] f
    by (simp add: castling_spoilers_def cr_is_allowed_def right_defs castling_rights_def cur_state_def
        sample_position_def empty_position_def)
qed

theorem castling_rights_only_shrink_witness: "cr_is_allowed WHITE_KINGSIDE (castling_rights sample_position)"
  by (rule castling_rights_only_shrink [OF sample_ok(2) sample_keeps_rights])

text \<open>A null move passes the turn, keeps the board, keeps the incremental hash equal to
  the hash from scratch, and is undone by \<open>unmake_move\<close>.\<close>

theorem null_move_passes_and_undoes:
  assumes "pos_ok p" "pos_hash p = calculate_hash p"
  shows "unmake_move (make_null_move p) = p \<and>
    pos_side_to_move (make_null_move p) = opp (pos_side_to_move p) \<and>
    board_ok (make_null_move p) \<and>
    pos_hash (make_null_move p) = calculate_hash (make_null_move p)"
  using assms unmake_null_move [of p] make_null_move_fields(3) [of p] make_null_move_ok [of p]
    make_null_move_hash [of p]
  by (simp_all add: pos_ok_def hash_ok_def)

theorem null_move_passes_and_undoes_witness:
  "unmake_move (make_null_move sample_hashed) = sample_hashed"
  using null_move_passes_and_undoes [of sample_hashed] sample_hashed_ok by (simp add: hash_ok_def)

end
