(* ===== verification/Leapers.thy ===== *)
theory Leapers
  imports Lookups
begin

text \<open>
  What the masks, the ray tables, the leaper tables and the line functions of theory Lookups
  contain, in coordinates: a square is its file and rank, a ray is the squares in one direction, a
  knight's moves are the squares one and two away, and \<open>intervening\<close> is the squares strictly between
  two squares of one line.
\<close>

section \<open>Coordinates\<close>

lemma on_board_coordsE:
  assumes "on_board s"
  obtains f r where "s = f + 8 * r" "0 \<le> f" "f < 8" "0 \<le> r" "r < 8" "sq_file s = f" "sq_rank s = r"
proof -
  have "s = s mod 8 + 8 * (s div 8)" by simp
  moreover have "0 \<le> s div 8" "s div 8 < 8" using assms by (auto simp: on_board_def)
  ultimately show thesis using that [of "s mod 8" "s div 8"] by (simp add: sq_file_mod sq_rank_div)
qed

lemma coords_add [simp]:
  assumes "0 \<le> f" "f < 8"
  shows "sq_file (f + 8 * r) = f" "sq_rank (f + 8 * r) = r"
  using assms by (simp_all add: sq_file_mod sq_rank_div)

lemma on_board_of_coords: "0 \<le> f \<Longrightarrow> f < 8 \<Longrightarrow> 0 \<le> r \<Longrightarrow> r < 8 \<Longrightarrow> on_board (f + 8 * r)"
  by (simp add: on_board_def)

lemma table64_nth [simp]: "on_board s \<Longrightarrow> table64 g ! nat s = g s"
  by (auto simp: table64_def SQUARES_def on_board_def)

section \<open>Masks\<close>

lemma bit_file_column: "bit FILE_A_COLUMN n \<longleftrightarrow> n < 64 \<and> n mod 8 = 0"
proof -
  have "FILE_A_COLUMN = (\<Sum>k\<leftarrow>[0,8,16,24,32,40,48,56]. push_bit k 1)" by (simp add: FILE_A_COLUMN_def)
  also have "bit \<dots> n \<longleftrightarrow> n < 64 \<and> (\<exists>k\<in>set [0,8,16,24,32,40,48,56]. k \<le> n \<and> bit (1 :: bitboard) (n - k))"
    by (rule bit_shift_sum) (auto simp: bit_1_iff)
  also have "\<dots> \<longleftrightarrow> n < 64 \<and> n \<in> {0,8,16,24,32,40,48,56}" by (auto simp: bit_1_iff)
  also have "\<dots> \<longleftrightarrow> n < 64 \<and> n mod 8 = 0" by auto
  finally show ?thesis .
qed

lemma file_index:
  fixes f n :: nat
  assumes "f < 8"
  shows "f \<le> n \<and> (n - f) mod 8 = 0 \<longleftrightarrow> n mod 8 = f"
proof
  assume *: "f \<le> n \<and> (n - f) mod 8 = 0"
  then obtain q where "n - f = 8 * q" by (auto simp: mod_eq_0_iff_dvd elim: dvdE)
  with * have "n = f + 8 * q" by linarith
  then show "n mod 8 = f" using assms by simp
next
  assume "n mod 8 = f"
  then have "n = 8 * (n div 8) + f" by (metis mult_div_mod_eq)
  then obtain q where "n = 8 * q + f" by blast
  then show "f \<le> n \<and> (n - f) mod 8 = 0" by simp
qed

lemma rank_index: "8 * r \<le> n \<and> n - 8 * r < 8 \<longleftrightarrow> n div 8 = r" for r n :: nat
proof
  assume "8 * r \<le> n \<and> n - 8 * r < 8"
  then show "n div 8 = r" by (intro div_nat_eqI) auto
next
  assume "n div 8 = r"
  then have "n = 8 * r + n mod 8" by (metis mult_div_mod_eq)
  then show "8 * r \<le> n \<and> n - 8 * r < 8" using mod_less_divisor [of 8 n] by linarith
qed

lemma int_mod_div_8:
  assumes "0 \<le> v"
  shows "int n mod 8 = v \<longleftrightarrow> n mod 8 = nat v" "int n div 8 = v \<longleftrightarrow> n div 8 = nat v"
  using assms zmod_int [of n 8] zdiv_int [of n 8] by auto

lemma bit_file_mask [bb_bits]:
  assumes "0 \<le> f" "f < 8"
  shows "bit (file_mask f) n \<longleftrightarrow> n < 64 \<and> int n mod 8 = f"
proof -
  have "file_mask f = push_bit (nat f) FILE_A_COLUMN"
    using assms by (cases rule: upto_7_cases) (simp_all add: file_mask_def FILE_MASK_def FILE_A_COLUMN_def)
  then have "bit (file_mask f) n \<longleftrightarrow> n < 64 \<and> nat f \<le> n \<and> (n - nat f) mod 8 = 0"
    by (auto simp: bit_push_bit_iff bit_file_column)
  then show ?thesis using assms by (simp add: file_index int_mod_div_8)
qed

lemma bit_rank_mask [bb_bits]:
  assumes "0 \<le> r" "r < 8"
  shows "bit (rank_mask r) n \<longleftrightarrow> n < 64 \<and> int n div 8 = r"
proof -
  have "rank_mask r = push_bit (8 * nat r) (mask 8)"
    using assms by (cases rule: upto_7_cases) (simp_all add: rank_mask_def RANK_MASK_def mask_eq_exp_minus_1)
  then have "bit (rank_mask r) n \<longleftrightarrow> n < 64 \<and> 8 * nat r \<le> n \<and> n - 8 * nat r < 8"
    by (auto simp: bit_push_bit_iff bit_mask_iff)
  then show ?thesis using assms by (simp add: rank_index int_mod_div_8)
qed

lemma bit_edge_files [bb_bits]:
  "bit FILE_A_MASK n \<longleftrightarrow> n < 64 \<and> int n mod 8 = 0"
  "bit FILE_B_MASK n \<longleftrightarrow> n < 64 \<and> int n mod 8 = 1"
  "bit FILE_G_MASK n \<longleftrightarrow> n < 64 \<and> int n mod 8 = 6"
  "bit FILE_H_MASK n \<longleftrightarrow> n < 64 \<and> int n mod 8 = 7"
  using bit_file_mask [of 0 n] bit_file_mask [of 1 n] bit_file_mask [of 6 n] bit_file_mask [of 7 n]
  by (simp_all add: file_mask_def FILE_MASK_def FILE_A_MASK_def FILE_B_MASK_def FILE_G_MASK_def FILE_H_MASK_def)

lemma square_mask_coords:
  assumes "0 \<le> f" "f < 8" "0 \<le> r" "r < 8"
  shows "square_bb (f + 8 * r) AND FILE_A_MASK = 0 \<longleftrightarrow> f \<noteq> 0"
    and "square_bb (f + 8 * r) AND FILE_H_MASK = 0 \<longleftrightarrow> f \<noteq> 7"
  using on_board_nat [OF on_board_of_coords [OF assms]] coords_add(1) [OF assms(1,2), of r] assms
  by (auto simp: word64_eq_iff bit_and_iff bb_bits on_board_def sq_file_mod)

section \<open>Rays\<close>

text \<open>
  One lemma for the eight loops.  The direction is \<open>(df, dr)\<close>, the step \<open>df + 8 * dr\<close>; the loop's
  two exit tests together must amount to leaving the board.
\<close>

definition ray_cont :: "int \<Rightarrow> bitboard \<Rightarrow> int \<Rightarrow> bool" where
  "ray_cont step wrap atk \<longleftrightarrow> (if step > 0 then atk \<le> 63 else 0 \<le> atk) \<and> square_bb atk AND wrap = 0"

definition on_ray :: "int \<Rightarrow> int \<Rightarrow> int \<Rightarrow> int \<Rightarrow> bool" where
  "on_ray df dr s t \<longleftrightarrow> (\<exists>k\<ge>1. sq_file t = sq_file s + k * df \<and> sq_rank t = sq_rank s + k * dr)"

definition valid_coords :: "int \<Rightarrow> int \<Rightarrow> bool" where
  "valid_coords f r \<longleftrightarrow> 0 \<le> f \<and> f < 8 \<and> 0 \<le> r \<and> r < 8"

lemma valid_coords_convex:
  assumes "valid_coords f r" "valid_coords (f + k * df) (r + k * dr)" "1 \<le> k"
    and "df \<in> {-1, 0, 1}" "dr \<in> {-1, 0, 1}"
  shows "valid_coords (f + df) (r + dr)"
  using assms by (auto simp: valid_coords_def)

lemma ray_loop_bits:
  assumes step: "step = df + 8 * dr" "step \<noteq> 0" "df \<in> {-1, 0, 1}" "dr \<in> {-1, 0, 1}"
    and cont: "\<And>f r. valid_coords f r \<Longrightarrow>
      ray_cont step wrap (f + 8 * r + step) \<longleftrightarrow> valid_coords (f + df) (r + dr)"
    and start: "valid_coords f r" "atk = f + 8 * r + step"
  shows "bit (ray_loop step wrap atk bb) n \<longleftrightarrow> bit bb n \<or>
    (\<exists>k\<ge>1. int n = f + k * df + 8 * (r + k * dr) \<and> valid_coords (f + k * df) (r + k * dr))"
  using step(1,2) cont start
proof (induction step wrap atk bb arbitrary: f r rule: ray_loop.induct)
  case (1 step' wrap atk bb)
  have unf: "ray_loop step' wrap atk bb =
      (if ray_cont step' wrap atk then ray_loop step' wrap (atk + step') (bb OR square_bb atk) else bb)"
    using 1(3) by (subst ray_loop.simps) (auto simp: ray_cont_def)
  show ?case
  proof (cases "valid_coords (f + df) (r + dr)")
    case False
    then have "\<not> valid_coords (f + k * df) (r + k * dr)" if "1 \<le> k" for k
      using valid_coords_convex [OF 1(5) _ that step(3,4)] by blast
    moreover have "\<not> ray_cont step' wrap atk" using False 1(4) [OF 1(5)] 1(6) by simp
    ultimately show ?thesis using unf by auto
  next
    case True
    have c: "ray_cont step' wrap atk" using True 1(4) [OF 1(5)] 1(6) by simp
    have atk: "atk = f + df + 8 * (r + dr)" using 1(2,6) by simp
    have IH: "bit (ray_loop step' wrap (atk + step') (bb OR square_bb atk)) n \<longleftrightarrow>
      bit (bb OR square_bb atk) n \<or>
      (\<exists>k\<ge>1. int n = f + df + k * df + 8 * (r + dr + k * dr) \<and> valid_coords (f + df + k * df) (r + dr + k * dr))"
      by (rule 1(1)) (use c 1(2-4) True atk in \<open>auto simp: ray_cont_def\<close>)
    have sq: "bit (square_bb atk) n \<longleftrightarrow> int n = f + 1 * df + 8 * (r + 1 * dr) \<and> valid_coords (f + 1 * df) (r + 1 * dr)"
      using True unfolding atk by (auto simp: valid_coords_def)
    let ?P = "\<lambda>k. int n = f + k * df + 8 * (r + k * dr) \<and> valid_coords (f + k * df) (r + k * dr)"
    have "(\<exists>k\<ge>1. ?P k) \<longleftrightarrow> ?P 1 \<or> (\<exists>k\<ge>1. ?P (k + 1))"
    proof
      assume "\<exists>k\<ge>1. ?P k"
      then obtain k where k: "1 \<le> k" "?P k" by blast
      show "?P 1 \<or> (\<exists>k\<ge>1. ?P (k + 1))"
      proof (cases "k = 1")
        case True
        then show ?thesis using k by blast
      next
        case False
        then have "1 \<le> k - 1" "?P (k - 1 + 1)" using k by auto
        then show ?thesis by blast
      qed
    next
      assume "?P 1 \<or> (\<exists>k\<ge>1. ?P (k + 1))"
      then obtain k where "1 \<le> k" "?P k"
      proof
        assume "\<exists>k\<ge>1. ?P (k + 1)"
        then obtain k where "1 \<le> k" "?P (k + 1)" by blast
        then show thesis by (intro that [of "k + 1"]) auto
      qed (rule that [of 1], simp_all)
      then show "\<exists>k\<ge>1. ?P k" by blast
    qed
    then show ?thesis using unf c IH sq by (simp add: bit_or_iff algebra_simps)
  qed
qed

lemma square_mask_mod:
  assumes "on_board s"
  shows "square_bb s AND FILE_A_MASK = 0 \<longleftrightarrow> s mod 8 \<noteq> 0"
    and "square_bb s AND FILE_H_MASK = 0 \<longleftrightarrow> s mod 8 \<noteq> 7"
  using assms by (auto simp: bb_bits on_board_def)

lemma ray_cont_vertical:
  assumes "valid_coords f r"
  shows "ray_cont 8 0 (f + 8 * r + 8) \<longleftrightarrow> valid_coords (f + 0) (r + 1)"
    and "ray_cont (-8) 0 (f + 8 * r + -8) \<longleftrightarrow> valid_coords (f + 0) (r + -1)"
  using assms by (auto simp: ray_cont_def valid_coords_def)

lemma ray_cont_A:
  assumes "valid_coords f r" "step \<in> {1, 9, -7}" "step = 1 + 8 * dr"
  shows "ray_cont step FILE_A_MASK (f + 8 * r + step) \<longleftrightarrow> valid_coords (f + 1) (r + dr)"
proof -
  have f: "0 \<le> f" "f < 8" using assms(1) by (auto simp: valid_coords_def)
  have m: "(f + 8 * r + step) mod 8 = (f + 1) mod 8" unfolding assms(3)
    by (metis add.assoc add.commute mod_mult_self2)
  show ?thesis
  proof (cases "on_board (f + 8 * r + step)")
    case True
    show ?thesis
      by (rule upto_7_cases [OF f])
        (use True assms square_mask_mod(1) [OF True] m in \<open>auto simp: ray_cont_def valid_coords_def on_board_def\<close>)
  next
    case False
    then show ?thesis using assms by (auto simp: ray_cont_def valid_coords_def on_board_def)
  qed
qed

lemma ray_cont_H:
  assumes "valid_coords f r" "step \<in> {-1, 7, -9}" "step = -1 + 8 * dr"
  shows "ray_cont step FILE_H_MASK (f + 8 * r + step) \<longleftrightarrow> valid_coords (f + -1) (r + dr)"
proof -
  have f: "0 \<le> f" "f < 8" using assms(1) by (auto simp: valid_coords_def)
  have m: "(f + 8 * r + step) mod 8 = (f - 1) mod 8" unfolding assms(3)
    by (metis (no_types, opaque_lifting) add.assoc add.commute mod_mult_self2 diff_conv_add_uminus)
  show ?thesis
  proof (cases "on_board (f + 8 * r + step)")
    case True
    show ?thesis
      by (rule upto_7_cases [OF f])
        (use True assms square_mask_mod(2) [OF True] m in \<open>auto simp: ray_cont_def valid_coords_def on_board_def\<close>)
  next
    case False
    then show ?thesis using assms by (auto simp: ray_cont_def valid_coords_def on_board_def)
  qed
qed

lemma ray_from_square:
  assumes "step = df + 8 * dr" "step \<noteq> 0" "df \<in> {-1, 0, 1}" "dr \<in> {-1, 0, 1}"
    and "\<And>f r. valid_coords f r \<Longrightarrow>
      ray_cont step wrap (f + 8 * r + step) \<longleftrightarrow> valid_coords (f + df) (r + dr)"
    and "on_board s" "on_board t"
    and guard: "\<not> g \<Longrightarrow> \<not> valid_coords (sq_file s + df) (sq_rank s + dr)"
  shows "bit (if g then ray_loop step wrap (s + step) 0 else 0) (nat t) \<longleftrightarrow> on_ray df dr s t"
proof -
  obtain f r where s: "s = f + 8 * r" "valid_coords f r" "sq_file s = f" "sq_rank s = r"
    using on_board_coordsE [OF assms(6)] by (metis valid_coords_def)
  obtain f' r' where t: "t = f' + 8 * r'" "valid_coords f' r'" "sq_file t = f'" "sq_rank t = r'"
    using on_board_coordsE [OF assms(7)] by (metis valid_coords_def)
  have eq: "int (nat t) = f + k * df + 8 * (r + k * dr) \<and> valid_coords (f + k * df) (r + k * dr)
      \<longleftrightarrow> f' = f + k * df \<and> r' = r + k * dr" for k
    using t assms(7) coords_add [of "f + k * df" "r + k * dr"] unfolding valid_coords_def on_board_def
    by (metis nat_0_le)
  show ?thesis
  proof (cases g)
    case True
    then show ?thesis
      using ray_loop_bits [OF assms(1-5) s(2) refl, of 0 "nat t"] eq s t
      by (simp add: on_ray_def)
  next
    case False
    have "\<not> (f' = f + k * df \<and> r' = r + k * dr)" if "1 \<le> k" for k
      using guard [OF False] valid_coords_convex [OF s(2) _ that assms(3,4)] s t by metis
    then show ?thesis using False s t by (auto simp: on_ray_def)
  qed
qed

lemma ray_tables:
  assumes "on_board s" "on_board t"
  shows "bit (north s) (nat t) \<longleftrightarrow> on_ray 0 1 s t"
    and "bit (south s) (nat t) \<longleftrightarrow> on_ray 0 (-1) s t"
    and "bit (east s) (nat t) \<longleftrightarrow> on_ray 1 0 s t"
    and "bit (west s) (nat t) \<longleftrightarrow> on_ray (-1) 0 s t"
    and "bit (northwest s) (nat t) \<longleftrightarrow> on_ray (-1) 1 s t"
    and "bit (southwest s) (nat t) \<longleftrightarrow> on_ray (-1) (-1) s t"
    and "bit (northeast s) (nat t) \<longleftrightarrow> on_ray 1 1 s t"
    and "bit (southeast s) (nat t) \<longleftrightarrow> on_ray 1 (-1) s t"
proof -
  obtain f r where s: "s = f + 8 * r" "0 \<le> f" "f < 8" "0 \<le> r" "r < 8" "sq_file s = f" "sq_rank s = r"
    using on_board_coordsE [OF assms(1)] by metis
  note R = ray_from_square [OF _ _ _ _ _ assms]
  show "bit (north s) (nat t) \<longleftrightarrow> on_ray 0 1 s t"
    unfolding north_def table64_nth [OF assms(1)] init_north_def
    by (rule R) (use s ray_cont_vertical in \<open>auto simp: valid_coords_def\<close>)
  show "bit (south s) (nat t) \<longleftrightarrow> on_ray 0 (-1) s t"
    unfolding south_def table64_nth [OF assms(1)] init_south_def diff_conv_add_uminus [of s]
    by (rule R) (use s ray_cont_vertical in \<open>auto simp: valid_coords_def\<close>)
  show "bit (east s) (nat t) \<longleftrightarrow> on_ray 1 0 s t"
    unfolding east_def table64_nth [OF assms(1)] init_east_def
    by (rule R [OF _ _ _ _ ray_cont_A [where dr = 0]]) (use s in \<open>auto simp: valid_coords_def\<close>)
  show "bit (west s) (nat t) \<longleftrightarrow> on_ray (-1) 0 s t"
    unfolding west_def table64_nth [OF assms(1)] init_west_def diff_conv_add_uminus [of s]
    by (rule R [OF _ _ _ _ ray_cont_H [where dr = 0]]) (use s in \<open>auto simp: valid_coords_def\<close>)
  show "bit (northwest s) (nat t) \<longleftrightarrow> on_ray (-1) 1 s t"
    unfolding northwest_def table64_nth [OF assms(1)] init_northwest_def
    by (rule R [OF _ _ _ _ ray_cont_H [where dr = 1]]) (use s in \<open>auto simp: valid_coords_def\<close>)
  show "bit (southwest s) (nat t) \<longleftrightarrow> on_ray (-1) (-1) s t"
    unfolding southwest_def table64_nth [OF assms(1)] init_southwest_def diff_conv_add_uminus [of s]
    by (rule R [OF _ _ _ _ ray_cont_H [where dr = "-1"]]) (use s in \<open>auto simp: valid_coords_def\<close>)
  show "bit (northeast s) (nat t) \<longleftrightarrow> on_ray 1 1 s t"
    unfolding northeast_def table64_nth [OF assms(1)] init_northeast_def
    by (rule R [OF _ _ _ _ ray_cont_A [where dr = 1]]) (use s in \<open>auto simp: valid_coords_def\<close>)
  show "bit (southeast s) (nat t) \<longleftrightarrow> on_ray 1 (-1) s t"
    unfolding southeast_def table64_nth [OF assms(1)] init_southeast_def diff_conv_add_uminus [of s]
    by (rule R [OF _ _ _ _ ray_cont_A [where dr = "-1"]]) (use s in \<open>auto simp: valid_coords_def\<close>)
qed

section \<open>Leapers\<close>

text \<open>A step of \<open>df + 8 * dr\<close> that does not land on a file it can only reach by wrapping moves by
  exactly \<open>(df, dr)\<close>.\<close>

definition no_wrap :: "int \<Rightarrow> int \<Rightarrow> bool" where
  "no_wrap df g \<longleftrightarrow> df = 0 \<or> df = 1 \<and> g \<noteq> 0 \<or> df = 2 \<and> g \<noteq> 0 \<and> g \<noteq> 1
     \<or> df = -1 \<and> g \<noteq> 7 \<or> df = -2 \<and> g \<noteq> 7 \<and> g \<noteq> 6"

lemma leap_coords:
  assumes "on_board s" "on_board t" "no_wrap df (sq_file t)"
  shows "t = s + (df + 8 * dr) \<longleftrightarrow> sq_file t - sq_file s = df \<and> sq_rank t - sq_rank s = dr"
proof -
  obtain f r where s: "s = f + 8 * r" "0 \<le> f" "f < 8" "sq_file s = f" "sq_rank s = r"
    using on_board_coordsE [OF assms(1)] by metis
  obtain g q where t: "t = g + 8 * q" "0 \<le> g" "g < 8" "sq_file t = g" "sq_rank t = q"
    using on_board_coordsE [OF assms(2)] by metis
  have "g = f + df \<and> q = r + dr" if "g + 8 * q = f + 8 * r + (df + 8 * dr)"
  proof -
    consider "q \<le> r + dr - 1" | "q = r + dr" | "q \<ge> r + dr + 1" by linarith
    then show ?thesis
      by cases (use that s(2,3) t(2,3) assms(3) t(4) in \<open>auto simp: no_wrap_def\<close>)
  qed
  then show ?thesis using s t by auto
qed

lemma leap_iff:
  assumes "on_board s" "on_board t" "df \<in> {-2, -1, 0, 1, 2}"
  shows "t = s + (df + 8 * dr) \<and> no_wrap df (sq_file t) \<longleftrightarrow>
    sq_file t - sq_file s = df \<and> sq_rank t - sq_rank s = dr"
proof -
  have "no_wrap df (sq_file t)" if "sq_file t - sq_file s = df"
    using that assms(3) sq_file_range(1,2) [of s] sq_file_range(1,2) [of t] by (auto simp: no_wrap_def simp del: sq_file_range)
  then show ?thesis using leap_coords [OF assms(1,2)] by blast
qed

lemma leap_terms:
  assumes "on_board s" "on_board t"
  shows "t = s + 17 \<and> sq_file t \<noteq> 0 \<longleftrightarrow> sq_file t - sq_file s = 1 \<and> sq_rank t - sq_rank s = 2"
    and "t = s + 15 \<and> sq_file t \<noteq> 7 \<longleftrightarrow> sq_file t - sq_file s = -1 \<and> sq_rank t - sq_rank s = 2"
    and "t = s - 17 \<and> sq_file t \<noteq> 7 \<longleftrightarrow> sq_file t - sq_file s = -1 \<and> sq_rank t - sq_rank s = -2"
    and "t = s - 15 \<and> sq_file t \<noteq> 0 \<longleftrightarrow> sq_file t - sq_file s = 1 \<and> sq_rank t - sq_rank s = -2"
    and "t = s + 10 \<and> sq_file t \<noteq> 0 \<and> sq_file t \<noteq> 1 \<longleftrightarrow> sq_file t - sq_file s = 2 \<and> sq_rank t - sq_rank s = 1"
    and "t = s + 6 \<and> sq_file t \<noteq> 7 \<and> sq_file t \<noteq> 6 \<longleftrightarrow> sq_file t - sq_file s = -2 \<and> sq_rank t - sq_rank s = 1"
    and "t = s - 10 \<and> sq_file t \<noteq> 7 \<and> sq_file t \<noteq> 6 \<longleftrightarrow> sq_file t - sq_file s = -2 \<and> sq_rank t - sq_rank s = -1"
    and "t = s - 6 \<and> sq_file t \<noteq> 0 \<and> sq_file t \<noteq> 1 \<longleftrightarrow> sq_file t - sq_file s = 2 \<and> sq_rank t - sq_rank s = -1"
    and "t = s + 9 \<and> sq_file t \<noteq> 0 \<longleftrightarrow> sq_file t - sq_file s = 1 \<and> sq_rank t - sq_rank s = 1"
    and "t = s + 7 \<and> sq_file t \<noteq> 7 \<longleftrightarrow> sq_file t - sq_file s = -1 \<and> sq_rank t - sq_rank s = 1"
    and "t = s - 9 \<and> sq_file t \<noteq> 7 \<longleftrightarrow> sq_file t - sq_file s = -1 \<and> sq_rank t - sq_rank s = -1"
    and "t = s - 7 \<and> sq_file t \<noteq> 0 \<longleftrightarrow> sq_file t - sq_file s = 1 \<and> sq_rank t - sq_rank s = -1"
    and "t = s + 1 \<and> sq_file t \<noteq> 0 \<longleftrightarrow> sq_file t - sq_file s = 1 \<and> sq_rank t - sq_rank s = 0"
    and "t = s - 1 \<and> sq_file t \<noteq> 7 \<longleftrightarrow> sq_file t - sq_file s = -1 \<and> sq_rank t - sq_rank s = 0"
    and "t = s + 8 \<longleftrightarrow> sq_file t - sq_file s = 0 \<and> sq_rank t - sq_rank s = 1"
    and "t = s - 8 \<longleftrightarrow> sq_file t - sq_file s = 0 \<and> sq_rank t - sq_rank s = -1"
  using leap_iff [OF assms, of 1 2] leap_iff [OF assms, of "-1" 2]
    leap_iff [OF assms, of "-1" "-2"] leap_iff [OF assms, of 1 "-2"]
    leap_iff [OF assms, of 2 1] leap_iff [OF assms, of "-2" 1]
    leap_iff [OF assms, of "-2" "-1"] leap_iff [OF assms, of 2 "-1"]
    leap_iff [OF assms, of 1 1] leap_iff [OF assms, of "-1" 1]
    leap_iff [OF assms, of "-1" "-1"] leap_iff [OF assms, of 1 "-1"]
    leap_iff [OF assms, of 1 0] leap_iff [OF assms, of "-1" 0]
    leap_iff [OF assms, of 0 1] leap_iff [OF assms, of 0 "-1"]
  by (simp_all add: no_wrap_def)

lemma target_bits:
  assumes "on_board t"
  shows "bit FILE_A_MASK (nat t) \<longleftrightarrow> sq_file t = 0" "bit FILE_B_MASK (nat t) \<longleftrightarrow> sq_file t = 1"
    "bit FILE_G_MASK (nat t) \<longleftrightarrow> sq_file t = 6" "bit FILE_H_MASK (nat t) \<longleftrightarrow> sq_file t = 7"
  using assms by (auto simp: bit_edge_files sq_file_mod on_board_def)

lemma abs_int_cases: "\<bar>x :: int\<bar> = 1 \<longleftrightarrow> x = 1 \<or> x = -1" "\<bar>x\<bar> = 2 \<longleftrightarrow> x = 2 \<or> x = -2"
  "\<bar>x\<bar> \<le> 1 \<longleftrightarrow> x = 0 \<or> x = 1 \<or> x = -1"
  by arith+

text \<open>One guarded term of a leaper table is one direction of the leap.\<close>

definition leaps :: "int \<Rightarrow> int \<Rightarrow> int \<Rightarrow> int \<Rightarrow> bool" where
  "leaps df dr s t \<longleftrightarrow> sq_file t - sq_file s = df \<and> sq_rank t - sq_rank s = dr"

lemma guarded_bit:
  assumes "on_board t" "t = u \<and> ok \<longleftrightarrow> leaps df dr s t" "leaps df dr s t \<Longrightarrow> g" "g \<Longrightarrow> 0 \<le> u"
    and "\<not> bit m (nat t) \<longleftrightarrow> ok"
  shows "bit (if g then square_bb u AND NOT m else 0) (nat t) \<longleftrightarrow> leaps df dr s t"
  using assms by (auto simp: bit_and_iff bit_not_iff on_board_def)

lemma guarded_square:
  assumes "on_board t" "t = u \<longleftrightarrow> leaps df dr s t" "leaps df dr s t \<Longrightarrow> g" "g \<Longrightarrow> 0 \<le> u"
  shows "bit (if g then square_bb u else 0) (nat t) \<longleftrightarrow> leaps df dr s t"
  using assms by (auto simp: on_board_def)

lemma leaps_bounds:
  assumes "on_board s" "on_board t" "leaps df dr s t"
  shows "\<exists>f r. s = f + 8 * r \<and> 0 \<le> f \<and> f \<le> 7 \<and> 0 \<le> r \<and> r \<le> 7
    \<and> 0 \<le> f + df \<and> f + df \<le> 7 \<and> 0 \<le> r + dr \<and> r + dr \<le> 7"
proof (intro exI conjI)
  show "s = sq_file s + 8 * sq_rank s" by (simp add: sq_file_mod sq_rank_div)
  show "0 \<le> sq_file s + df" "sq_file s + df \<le> 7" "0 \<le> sq_rank s + dr" "sq_rank s + dr \<le> 7"
    using assms(3) sq_file_range [of t] sq_rank_range [OF assms(2)] by (auto simp: leaps_def)
  show "0 \<le> sq_file s" "sq_file s \<le> 7" "0 \<le> sq_rank s" "sq_rank s \<le> 7"
    using sq_rank_range [OF assms(1)] by simp_all
qed

lemma leap_bits:
  assumes "on_board sq" "on_board t"
  shows
    "bit (if sq \<le> 46 then square_bb (sq + 17) AND NOT FILE_A_MASK else 0) (nat t) \<longleftrightarrow> leaps (1) (2) sq t"
    "bit (if sq \<le> 47 then square_bb (sq + 15) AND NOT FILE_H_MASK else 0) (nat t) \<longleftrightarrow> leaps (-1) (2) sq t"
    "bit (if sq \<ge> 17 then square_bb (sq - 17) AND NOT FILE_H_MASK else 0) (nat t) \<longleftrightarrow> leaps (-1) (-2) sq t"
    "bit (if sq \<ge> 16 then square_bb (sq - 15) AND NOT FILE_A_MASK else 0) (nat t) \<longleftrightarrow> leaps (1) (-2) sq t"
    "bit (if sq \<le> 53 then square_bb (sq + 10) AND NOT (FILE_A_MASK OR FILE_B_MASK) else 0) (nat t) \<longleftrightarrow> leaps (2) (1) sq t"
    "bit (if sq \<le> 55 then square_bb (sq + 6) AND NOT (FILE_H_MASK OR FILE_G_MASK) else 0) (nat t) \<longleftrightarrow> leaps (-2) (1) sq t"
    "bit (if sq \<ge> 10 then square_bb (sq - 10) AND NOT (FILE_H_MASK OR FILE_G_MASK) else 0) (nat t) \<longleftrightarrow> leaps (-2) (-1) sq t"
    "bit (if sq \<ge> 8 then square_bb (sq - 6) AND NOT (FILE_A_MASK OR FILE_B_MASK) else 0) (nat t) \<longleftrightarrow> leaps (2) (-1) sq t"
    "bit (if sq \<le> 54 then square_bb (sq + 9) AND NOT FILE_A_MASK else 0) (nat t) \<longleftrightarrow> leaps (1) (1) sq t"
    "bit (if sq \<le> 55 then square_bb (sq + 7) AND NOT FILE_H_MASK else 0) (nat t) \<longleftrightarrow> leaps (-1) (1) sq t"
    "bit (if sq \<le> 62 then square_bb (sq + 1) AND NOT FILE_A_MASK else 0) (nat t) \<longleftrightarrow> leaps (1) (0) sq t"
    "bit (if sq \<ge> 1 then square_bb (sq - 1) AND NOT FILE_H_MASK else 0) (nat t) \<longleftrightarrow> leaps (-1) (0) sq t"
    "bit (if sq \<ge> 8 then square_bb (sq - 7) AND NOT FILE_A_MASK else 0) (nat t) \<longleftrightarrow> leaps (1) (-1) sq t"
    "bit (if sq \<ge> 9 then square_bb (sq - 9) AND NOT FILE_H_MASK else 0) (nat t) \<longleftrightarrow> leaps (-1) (-1) sq t"
proof -
  note L = leap_terms [OF assms, folded leaps_def]
  note G = leaps_bounds [OF assms]
  note B = bit_or_iff target_bits [OF assms(2)] on_board_def
  show "bit (if sq \<le> 46 then square_bb (sq + 17) AND NOT FILE_A_MASK else 0) (nat t) \<longleftrightarrow> leaps (1) (2) sq t"
    by (rule guarded_bit [OF assms(2) L(1)]) (use assms(1) in \<open>auto dest: G simp: B\<close>)
  show "bit (if sq \<le> 47 then square_bb (sq + 15) AND NOT FILE_H_MASK else 0) (nat t) \<longleftrightarrow> leaps (-1) (2) sq t"
    by (rule guarded_bit [OF assms(2) L(2)]) (use assms(1) in \<open>auto dest: G simp: B\<close>)
  show "bit (if sq \<ge> 17 then square_bb (sq - 17) AND NOT FILE_H_MASK else 0) (nat t) \<longleftrightarrow> leaps (-1) (-2) sq t"
    by (rule guarded_bit [OF assms(2) L(3)]) (use assms(1) in \<open>auto dest: G simp: B\<close>)
  show "bit (if sq \<ge> 16 then square_bb (sq - 15) AND NOT FILE_A_MASK else 0) (nat t) \<longleftrightarrow> leaps (1) (-2) sq t"
    by (rule guarded_bit [OF assms(2) L(4)]) (use assms(1) in \<open>auto dest: G simp: B\<close>)
  show "bit (if sq \<le> 53 then square_bb (sq + 10) AND NOT (FILE_A_MASK OR FILE_B_MASK) else 0) (nat t) \<longleftrightarrow> leaps (2) (1) sq t"
    by (rule guarded_bit [OF assms(2) L(5)]) (use assms(1) in \<open>auto dest: G simp: B\<close>)
  show "bit (if sq \<le> 55 then square_bb (sq + 6) AND NOT (FILE_H_MASK OR FILE_G_MASK) else 0) (nat t) \<longleftrightarrow> leaps (-2) (1) sq t"
    by (rule guarded_bit [OF assms(2) L(6)]) (use assms(1) in \<open>auto dest: G simp: B\<close>)
  show "bit (if sq \<ge> 10 then square_bb (sq - 10) AND NOT (FILE_H_MASK OR FILE_G_MASK) else 0) (nat t) \<longleftrightarrow> leaps (-2) (-1) sq t"
    by (rule guarded_bit [OF assms(2) L(7)]) (use assms(1) in \<open>auto dest: G simp: B\<close>)
  show "bit (if sq \<ge> 8 then square_bb (sq - 6) AND NOT (FILE_A_MASK OR FILE_B_MASK) else 0) (nat t) \<longleftrightarrow> leaps (2) (-1) sq t"
    by (rule guarded_bit [OF assms(2) L(8)]) (use assms(1) in \<open>auto dest: G simp: B\<close>)
  show "bit (if sq \<le> 54 then square_bb (sq + 9) AND NOT FILE_A_MASK else 0) (nat t) \<longleftrightarrow> leaps (1) (1) sq t"
    by (rule guarded_bit [OF assms(2) L(9)]) (use assms(1) in \<open>auto dest: G simp: B\<close>)
  show "bit (if sq \<le> 55 then square_bb (sq + 7) AND NOT FILE_H_MASK else 0) (nat t) \<longleftrightarrow> leaps (-1) (1) sq t"
    by (rule guarded_bit [OF assms(2) L(10)]) (use assms(1) in \<open>auto dest: G simp: B\<close>)
  show "bit (if sq \<le> 62 then square_bb (sq + 1) AND NOT FILE_A_MASK else 0) (nat t) \<longleftrightarrow> leaps (1) (0) sq t"
    by (rule guarded_bit [OF assms(2) L(13)]) (use assms(1) in \<open>auto dest: G simp: B\<close>)
  show "bit (if sq \<ge> 1 then square_bb (sq - 1) AND NOT FILE_H_MASK else 0) (nat t) \<longleftrightarrow> leaps (-1) (0) sq t"
    by (rule guarded_bit [OF assms(2) L(14)]) (use assms(1) in \<open>auto dest: G simp: B\<close>)
  show "bit (if sq \<ge> 8 then square_bb (sq - 7) AND NOT FILE_A_MASK else 0) (nat t) \<longleftrightarrow> leaps (1) (-1) sq t"
    by (rule guarded_bit [OF assms(2) L(12)]) (use assms(1) in \<open>auto dest: G simp: B\<close>)
  show "bit (if sq \<ge> 9 then square_bb (sq - 9) AND NOT FILE_H_MASK else 0) (nat t) \<longleftrightarrow> leaps (-1) (-1) sq t"
    by (rule guarded_bit [OF assms(2) L(11)]) (use assms(1) in \<open>auto dest: G simp: B\<close>)
qed

lemma leap_bit_vertical:
  assumes "on_board sq" "on_board t"
  shows "bit (if sq \<le> 55 then square_bb (sq + 8) else 0) (nat t) \<longleftrightarrow> leaps 0 1 sq t"
    and "bit (if sq \<ge> 8 then square_bb (sq - 8) else 0) (nat t) \<longleftrightarrow> leaps 0 (-1) sq t"
proof -
  note L = leap_terms [OF assms, folded leaps_def]
  note G = leaps_bounds [OF assms]
  show "bit (if sq \<le> 55 then square_bb (sq + 8) else 0) (nat t) \<longleftrightarrow> leaps 0 1 sq t"
    by (rule guarded_square [OF assms(2) L(15)]) (use assms(1) in \<open>auto dest: G simp: on_board_def\<close>)
  show "bit (if sq \<ge> 8 then square_bb (sq - 8) else 0) (nat t) \<longleftrightarrow> leaps 0 (-1) sq t"
    by (rule guarded_square [OF assms(2) L(16)]) (use assms(1) in \<open>auto dest: G simp: on_board_def\<close>)
qed

lemma knight_attacks_spec:
  assumes "on_board s" "on_board t"
  shows "bit (knight_attacks s) (nat t) \<longleftrightarrow>
    \<bar>sq_file t - sq_file s\<bar> = 1 \<and> \<bar>sq_rank t - sq_rank s\<bar> = 2 \<or>
    \<bar>sq_file t - sq_file s\<bar> = 2 \<and> \<bar>sq_rank t - sq_rank s\<bar> = 1"
  unfolding knight_attacks_def table64_nth [OF assms(1)] init_knight_attacks_def bit_or_iff
    leap_bits [OF assms] unfolding leaps_def abs_int_cases by argo

lemma if_or_split: "(if g then a OR b else 0) = (if g then a else 0) OR (if g then b else 0)" for a b :: bitboard
  by simp

lemma king_attacks_spec:
  assumes "on_board s" "on_board t"
  shows "bit (king_attacks s) (nat t) \<longleftrightarrow>
    t \<noteq> s \<and> \<bar>sq_file t - sq_file s\<bar> \<le> 1 \<and> \<bar>sq_rank t - sq_rank s\<bar> \<le> 1"
proof -
  have "bit (king_attacks s) (nat t) \<longleftrightarrow> leaps 1 1 s t \<or> leaps 0 1 s t \<or> leaps (-1) 1 s t \<or>
      leaps 1 0 s t \<or> leaps (-1) 0 s t \<or> leaps 1 (-1) s t \<or> leaps 0 (-1) s t \<or> leaps (-1) (-1) s t"
    unfolding king_attacks_def table64_nth [OF assms(1)] init_king_attacks_def if_or_split bit_or_iff
      leap_bits [OF assms] leap_bit_vertical [OF assms] by argo
  also have "\<dots> \<longleftrightarrow> \<not> leaps 0 0 s t \<and> \<bar>sq_file t - sq_file s\<bar> \<le> 1 \<and> \<bar>sq_rank t - sq_rank s\<bar> \<le> 1"
    unfolding leaps_def abs_int_cases by auto
  also have "leaps 0 0 s t \<longleftrightarrow> t = s" using sq_coords_eqI [of t s] by (auto simp: leaps_def)
  finally show ?thesis .
qed

lemma pawn_attacks_spec:
  assumes "on_board s" "on_board t"
  shows "bit (pawn_attacks s c) (nat t) \<longleftrightarrow>
    \<bar>sq_file t - sq_file s\<bar> = 1 \<and> sq_rank t - sq_rank s = (if c = WHITE then 1 else -1)"
proof (cases c)
  case WHITE
  then show ?thesis
    unfolding pawn_attacks_def table64_nth [OF assms(1)] init_pawn_attacks_def WHITE color.case bit_or_iff
      leap_bits [OF assms] unfolding leaps_def abs_int_cases by auto
next
  case BLACK
  then show ?thesis
    unfolding pawn_attacks_def table64_nth [OF assms(1)] init_pawn_attacks_def BLACK color.case bit_or_iff
      leap_bits [OF assms] unfolding leaps_def abs_int_cases by auto
qed

text \<open>Attack sets of the leapers are symmetric; a pawn's is turned round by changing its colour.\<close>

lemma leapers_symmetric:
  assumes "on_board s" "on_board t"
  shows "bit (knight_attacks s) (nat t) = bit (knight_attacks t) (nat s)"
    and "bit (king_attacks s) (nat t) = bit (king_attacks t) (nat s)"
    and "bit (pawn_attacks s c) (nat t) = bit (pawn_attacks t (opp c)) (nat s)"
  using assms
  by (simp_all add: knight_attacks_spec king_attacks_spec pawn_attacks_spec abs_minus_commute)
    (auto, (cases c; simp)+)

section \<open>Lines\<close>

lemma ex_steps:
  fixes a b c d :: int
  shows "(\<exists>k\<ge>1. a = b \<and> c = d + k) \<longleftrightarrow> a = b \<and> d < c"
    and "(\<exists>k\<ge>1. a = b \<and> c = d + - k) \<longleftrightarrow> a = b \<and> c < d"
    and "(\<exists>k\<ge>1. a = b + k \<and> c = d) \<longleftrightarrow> c = d \<and> b < a"
    and "(\<exists>k\<ge>1. a = b + - k \<and> c = d) \<longleftrightarrow> c = d \<and> a < b"
    and "(\<exists>k\<ge>1. a = b + k \<and> c = d + k) \<longleftrightarrow> a - b = c - d \<and> b < a"
    and "(\<exists>k\<ge>1. a = b + - k \<and> c = d + - k) \<longleftrightarrow> a - b = c - d \<and> a < b"
    and "(\<exists>k\<ge>1. a = b + k \<and> c = d + - k) \<longleftrightarrow> a - b = d - c \<and> b < a"
    and "(\<exists>k\<ge>1. a = b + - k \<and> c = d + k) \<longleftrightarrow> a - b = d - c \<and> a < b"
proof -
  have e: "x = y + k \<longleftrightarrow> k = x - y" "x = y + - k \<longleftrightarrow> k = y - x" for x y k :: int by auto
  have one: "(\<exists>k\<ge>1. P \<and> k = z) \<longleftrightarrow> P \<and> 1 \<le> z" "(\<exists>k\<ge>1. k = z \<and> P) \<longleftrightarrow> P \<and> 1 \<le> z"
    "(\<exists>k\<ge>1. k = z \<and> k = z') \<longleftrightarrow> z = z' \<and> 1 \<le> z" for z z' :: int and P by auto
  show "(\<exists>k\<ge>1. a = b \<and> c = d + k) \<longleftrightarrow> a = b \<and> d < c"
    "(\<exists>k\<ge>1. a = b \<and> c = d + - k) \<longleftrightarrow> a = b \<and> c < d"
    "(\<exists>k\<ge>1. a = b + k \<and> c = d) \<longleftrightarrow> c = d \<and> b < a"
    "(\<exists>k\<ge>1. a = b + - k \<and> c = d) \<longleftrightarrow> c = d \<and> a < b"
    "(\<exists>k\<ge>1. a = b + k \<and> c = d + k) \<longleftrightarrow> a - b = c - d \<and> b < a"
    "(\<exists>k\<ge>1. a = b + - k \<and> c = d + - k) \<longleftrightarrow> a - b = c - d \<and> a < b"
    "(\<exists>k\<ge>1. a = b + k \<and> c = d + - k) \<longleftrightarrow> a - b = d - c \<and> b < a"
    "(\<exists>k\<ge>1. a = b + - k \<and> c = d + k) \<longleftrightarrow> a - b = d - c \<and> a < b"
    unfolding e(2) unfolding e(1) one by auto
qed

lemma on_ray_simps:
  "on_ray 0 1 s t \<longleftrightarrow> sq_file t = sq_file s \<and> sq_rank s < sq_rank t"
  "on_ray 0 (-1) s t \<longleftrightarrow> sq_file t = sq_file s \<and> sq_rank t < sq_rank s"
  "on_ray 1 0 s t \<longleftrightarrow> sq_rank t = sq_rank s \<and> sq_file s < sq_file t"
  "on_ray (-1) 0 s t \<longleftrightarrow> sq_rank t = sq_rank s \<and> sq_file t < sq_file s"
  "on_ray 1 1 s t \<longleftrightarrow> sq_file t - sq_file s = sq_rank t - sq_rank s \<and> sq_file s < sq_file t"
  "on_ray (-1) (-1) s t \<longleftrightarrow> sq_file t - sq_file s = sq_rank t - sq_rank s \<and> sq_file t < sq_file s"
  "on_ray 1 (-1) s t \<longleftrightarrow> sq_file t - sq_file s = sq_rank s - sq_rank t \<and> sq_file s < sq_file t"
  "on_ray (-1) 1 s t \<longleftrightarrow> sq_file t - sq_file s = sq_rank s - sq_rank t \<and> sq_file t < sq_file s"
  unfolding on_ray_def mult_minus_right mult_zero_right mult_1_right add_0_right
  by (simp_all only: ex_steps)

definition rook_line :: "int \<Rightarrow> int \<Rightarrow> bool" where
  "rook_line s t \<longleftrightarrow> sq_file s = sq_file t \<or> sq_rank s = sq_rank t"

definition diag_plus :: "int \<Rightarrow> int \<Rightarrow> bool" where
  "diag_plus s t \<longleftrightarrow> sq_file t - sq_file s = sq_rank t - sq_rank s"

definition diag_minus :: "int \<Rightarrow> int \<Rightarrow> bool" where
  "diag_minus s t \<longleftrightarrow> sq_file t - sq_file s = sq_rank s - sq_rank t"

definition bishop_line :: "int \<Rightarrow> int \<Rightarrow> bool" where
  "bishop_line s t \<longleftrightarrow> diag_plus s t \<or> diag_minus s t"

definition inside :: "int \<Rightarrow> int \<Rightarrow> int \<Rightarrow> bool" where
  "inside a b c \<longleftrightarrow> a < c \<and> c < b \<or> b < c \<and> c < a"

text \<open>\<open>u\<close> is strictly between \<open>s\<close> and \<open>t\<close> on a file, rank or diagonal.\<close>

definition strictly_between :: "int \<Rightarrow> int \<Rightarrow> int \<Rightarrow> bool" where
  "strictly_between s t u \<longleftrightarrow>
     sq_file s = sq_file t \<and> sq_file u = sq_file s \<and> inside (sq_rank s) (sq_rank t) (sq_rank u) \<or>
     sq_rank s = sq_rank t \<and> sq_rank u = sq_rank s \<and> inside (sq_file s) (sq_file t) (sq_file u) \<or>
     diag_plus s t \<and> diag_plus s u \<and> inside (sq_file s) (sq_file t) (sq_file u) \<or>
     diag_minus s t \<and> diag_minus s u \<and> inside (sq_file s) (sq_file t) (sq_file u)"

lemma line_sym:
  "diag_plus s t = diag_plus t s" "diag_minus s t = diag_minus t s" "inside a b c = inside b a c"
  by (auto simp: diag_plus_def diag_minus_def inside_def)

lemma diag_shared:
  "diag_plus s t \<Longrightarrow> diag_plus t u = diag_plus s u" "diag_minus s t \<Longrightarrow> diag_minus t u = diag_minus s u"
  by (auto simp: diag_plus_def diag_minus_def)

lemma strictly_between_sym: "strictly_between s t u = strictly_between t s u"
  unfolding strictly_between_def
  using line_sym diag_shared by (metis (no_types, opaque_lifting))

lemma intervening_sym: "intervening s t = intervening t s"
  by (cases s t rule: linorder_cases) (auto simp: intervening_def Let_def)

lemma sq_rank_mono: "s \<le> t \<Longrightarrow> sq_rank s \<le> sq_rank t"
  by (simp add: sq_rank_div zdiv_mono1)

lemma intervening_low_high:
  assumes "on_board s" "on_board t" "on_board u" "s < t"
  shows "bit (intervening s t) (nat u) \<longleftrightarrow> strictly_between s t u"
proof -
  have r: "sq_rank s \<le> sq_rank t" using assms by (simp add: sq_rank_mono)
  have ne: "\<not> (sq_file s = sq_file t \<and> sq_rank s = sq_rank t)" using assms sq_coords_eqI by blast
  have f: "sq_rank s = sq_rank t \<Longrightarrow> sq_file s < sq_file t"
    using assms(4) unfolding sq_file_mod sq_rank_div by (metis add_less_cancel_left mult_div_mod_eq)
  have "bit (intervening s t) (nat u) \<longleftrightarrow>
      (if sq_file t = sq_file s then on_ray 0 1 s u \<and> on_ray 0 (-1) t u
       else if sq_rank t = sq_rank s then on_ray 1 0 s u \<and> on_ray (-1) 0 t u
       else if sq_file t - sq_file s = sq_rank t - sq_rank s then on_ray 1 1 s u \<and> on_ray (-1) (-1) t u
       else if sq_file s - sq_file t = sq_rank t - sq_rank s then on_ray (-1) 1 s u \<and> on_ray 1 (-1) t u
       else False)"
    using assms ray_tables by (simp add: intervening_def Let_def bit_and_iff)
  also have "\<dots> \<longleftrightarrow> strictly_between s t u"
    unfolding on_ray_simps strictly_between_def diag_plus_def diag_minus_def inside_def
    using r ne f by (auto simp: algebra_simps)
  finally show ?thesis .
qed

lemma intervening_spec:
  assumes "on_board s" "on_board t" "on_board u"
  shows "bit (intervening s t) (nat u) \<longleftrightarrow> strictly_between s t u"
proof (cases s t rule: linorder_cases)
  case less
  then show ?thesis using assms intervening_low_high by blast
next
  case equal
  then show ?thesis by (auto simp: intervening_def strictly_between_def inside_def)
next
  case greater
  then show ?thesis using assms intervening_low_high intervening_sym strictly_between_sym by metis
qed

end
