(* ===== verification/Slider_Tables.thy ===== *)
theory Slider_Tables
  imports Leapers
begin

text \<open>
  The tables behind the kindergarten sliding attacks of theory Lookups.  Each table is checked entry
  by entry against a line-of-sight definition on one line of eight squares, and the multiplications
  that fold a line of the board into six bits are read with \<open>bit_shift_sum\<close>.  Theory Sliders puts
  the two together.
\<close>

section \<open>Line of sight on one line\<close>

text \<open>
  A line has eight squares; the six inner ones, 1 to 6, are bits 0 to 5 of the index.  \<open>btw f g\<close> masks
  the inner squares strictly between \<open>f\<close> and \<open>g\<close>; bit 6, always set in the tested index, stands for
  the slider's own square, which it does not attack.  \<open>btw_rev\<close> is the same for the file fold, which
  lists the ranks from the top.
\<close>

definition btw :: "nat \<Rightarrow> nat \<Rightarrow> int" where
  "btw f g = (if f = g then 64 else mask (max f g - 1) AND NOT (mask (min f g)))"

definition btw_rev :: "nat \<Rightarrow> nat \<Rightarrow> int" where
  "btw_rev f g = (if f = g then 64 else mask (6 - min f g) AND NOT (mask (7 - max f g)))"

fun slide :: "int \<Rightarrow> int \<Rightarrow> int list \<Rightarrow> int" where
  "slide b i [] = 0"
| "slide b i (m # ms) = (if i AND m = 0 then 1 else 0) + b * slide b i ms"

definition fill_ok :: "int list \<Rightarrow> int \<Rightarrow> bitboard \<Rightarrow> bool" where
  "fill_ok ms i w \<longleftrightarrow> w = word_of_int (slide 2 (i + 64) ms * 0x0101010101010101)"

text \<open>The entries of \<open>FILE_ATTACKS\<close> whose index lacks the slider's own square are never read (the lookup
  adds the square to the occupancy) and are zero; \<open>own\<close> is the index bit of that square, 0 on an edge.\<close>

definition file_ok :: "int \<Rightarrow> int list \<Rightarrow> int \<Rightarrow> bitboard \<Rightarrow> bool" where
  "file_ok own ms i w \<longleftrightarrow>
     (if own = 0 \<or> i AND own \<noteq> 0 then w = word_of_int (slide 256 (i + 64) ms) else True)"

lemma btw_rows:
  "map (btw 0) [0..<8] = [64,0,1,3,7,15,31,63]"
  "map (btw 1) [0..<8] = [0,64,0,2,6,14,30,62]"
  "map (btw 2) [0..<8] = [1,0,64,0,4,12,28,60]"
  "map (btw 3) [0..<8] = [3,2,0,64,0,8,24,56]"
  "map (btw 4) [0..<8] = [7,6,4,0,64,0,16,48]"
  "map (btw 5) [0..<8] = [15,14,12,8,0,64,0,32]"
  "map (btw 6) [0..<8] = [31,30,28,24,16,0,64,0]"
  "map (btw 7) [0..<8] = [63,62,60,56,48,32,0,64]"
  by (simp_all add: btw_def mask_eq_exp_minus_1 upt_rec)

lemma btw_rev_rows:
  "map (btw_rev 0) [0..<8] = [64,0,32,48,56,60,62,63]"
  "map (btw_rev 1) [0..<8] = [0,64,0,16,24,28,30,31]"
  "map (btw_rev 2) [0..<8] = [32,0,64,0,8,12,14,15]"
  "map (btw_rev 3) [0..<8] = [48,16,0,64,0,4,6,7]"
  "map (btw_rev 4) [0..<8] = [56,24,8,0,64,0,2,3]"
  "map (btw_rev 5) [0..<8] = [60,28,12,4,0,64,0,1]"
  "map (btw_rev 6) [0..<8] = [62,30,14,6,2,0,64,0]"
  "map (btw_rev 7) [0..<8] = [63,31,15,7,3,1,0,64]"
  by (simp_all add: btw_rev_def mask_eq_exp_minus_1 upt_rec)

lemma fill_rows_checked:
  "checked (fill_ok (map (btw 0) [0..<8])) 0 (FILL_ATTACKS ! 0)"
  "checked (fill_ok (map (btw 1) [0..<8])) 0 (FILL_ATTACKS ! 1)"
  "checked (fill_ok (map (btw 2) [0..<8])) 0 (FILL_ATTACKS ! 2)"
  "checked (fill_ok (map (btw 3) [0..<8])) 0 (FILL_ATTACKS ! 3)"
  "checked (fill_ok (map (btw 4) [0..<8])) 0 (FILL_ATTACKS ! 4)"
  "checked (fill_ok (map (btw 5) [0..<8])) 0 (FILL_ATTACKS ! 5)"
  "checked (fill_ok (map (btw 6) [0..<8])) 0 (FILL_ATTACKS ! 6)"
  "checked (fill_ok (map (btw 7) [0..<8])) 0 (FILL_ATTACKS ! 7)"
  unfolding btw_rows by (simp_all add: FILL_ATTACKS_def fill_ok_def)

lemma file_rows_checked:
  "checked (file_ok 0 (map (btw_rev 0) [0..<8])) 0 (FILE_ATTACKS ! 0)"
  "checked (file_ok 32 (map (btw_rev 1) [0..<8])) 0 (FILE_ATTACKS ! 1)"
  "checked (file_ok 16 (map (btw_rev 2) [0..<8])) 0 (FILE_ATTACKS ! 2)"
  "checked (file_ok 8 (map (btw_rev 3) [0..<8])) 0 (FILE_ATTACKS ! 3)"
  "checked (file_ok 4 (map (btw_rev 4) [0..<8])) 0 (FILE_ATTACKS ! 4)"
  "checked (file_ok 2 (map (btw_rev 5) [0..<8])) 0 (FILE_ATTACKS ! 5)"
  "checked (file_ok 1 (map (btw_rev 6) [0..<8])) 0 (FILE_ATTACKS ! 6)"
  "checked (file_ok 0 (map (btw_rev 7) [0..<8])) 0 (FILE_ATTACKS ! 7)"
  unfolding btw_rev_rows by (simp_all add: FILE_ATTACKS_def file_ok_def)

section \<open>What the checked entries contain\<close>

lemma bit_slide:
  assumes "0 < e"
  shows "bit (slide (2 ^ e) i ms) n \<longleftrightarrow> e dvd n \<and> n div e < length ms \<and> i AND ms ! (n div e) = 0"
proof (induction ms arbitrary: n)
  case (Cons m ms)
  let ?c = "(if i AND m = 0 then 1 else 0) :: int"
  have "slide (2 ^ e) i (m # ms) = ?c + push_bit e (slide (2 ^ e) i ms)"
    by (simp add: push_bit_eq_mult mult.commute)
  also have "\<dots> = ?c OR push_bit e (slide (2 ^ e) i ms)"
    using assms by (intro disjunctive_add) (auto simp: bit_push_bit_iff bit_1_iff)
  finally have b: "bit (slide (2 ^ e) i (m # ms)) n \<longleftrightarrow>
      n = 0 \<and> i AND m = 0 \<or> e \<le> n \<and> bit (slide (2 ^ e) i ms) (n - e)"
    by (auto simp: bit_or_iff bit_push_bit_iff bit_1_iff)
  show ?case
  proof (cases "e \<le> n")
    case True
    then have "n div e = Suc ((n - e) div e)" "e dvd n \<longleftrightarrow> e dvd (n - e)"
      using assms by (simp_all add: le_div_geq dvd_minus_self)
    then show ?thesis using b Cons True assms by auto
  next
    case False
    then have "n div e = 0" "e dvd n \<longleftrightarrow> n = 0" by (auto dest: dvd_imp_le)
    then show ?thesis using b False by auto
  qed
qed simp

lemma bit_replicate_byte:
  assumes "\<And>n. bit b n \<Longrightarrow> n < 8"
  shows "bit (word_of_int (b * 0x0101010101010101) :: bitboard) n \<longleftrightarrow> n < 64 \<and> bit b (n mod 8)"
proof -
  let ?b = "word_of_int b :: bitboard" and ?ks = "[0,8,16,24,32,40,48,56]"
  have b: "bit ?b n \<longleftrightarrow> bit b n" for n using assms [of n] by (auto simp: bit_word_of_int_iff)
  have "word_of_int (b * 0x0101010101010101) = ?b * 0x0101010101010101"
    by simp
  also have "\<dots> = (\<Sum>k\<leftarrow>?ks. push_bit k ?b)"
    by (rule mult_eq_shift_sum) simp
  also have "bit \<dots> n \<longleftrightarrow> n < 64 \<and> (\<exists>k\<in>set ?ks. k \<le> n \<and> bit ?b (n - k))"
    by (rule bit_shift_sum) (auto simp: b dest!: assms)
  also have "\<dots> \<longleftrightarrow> n < 64 \<and> bit b (n mod 8)"
  proof -
    have "(\<exists>k\<in>set ?ks. k \<le> n \<and> bit b (n - k)) \<longleftrightarrow> bit b (n mod 8)" if "n < 64"
    proof
      assume "\<exists>k\<in>set ?ks. k \<le> n \<and> bit b (n - k)"
      then obtain k where k: "k \<in> set ?ks" "k \<le> n" "bit b (n - k)" by blast
      from k(3) have "n - k < 8" by (rule assms)
      moreover from k(1) obtain q where q: "k = 8 * q" by auto
      ultimately have "n mod 8 = n - k" using k(2)
        by (metis le_add_diff_inverse mod_less mod_mult_self4 mult.commute)
      then show "bit b (n mod 8)" using k(3) by simp
    next
      assume "bit b (n mod 8)"
      moreover have "n - 8 * (n div 8) = n mod 8" by (simp add: minus_mult_div_eq_mod)
      moreover have "n div 8 < 8" using that by simp
      then have "8 * (n div 8) \<in> set ?ks" by auto
      ultimately show "\<exists>k\<in>set ?ks. k \<le> n \<and> bit b (n - k)"
        by (intro bexI [of _ "8 * (n div 8)"]) auto
    qed
    then show ?thesis unfolding b by blast
  qed
  finally show ?thesis .
qed

lemma nat_8_cases:
  assumes "(f::nat) < 8"
  obtains "f = 0" | "f = 1" | "f = 2" | "f = 3" | "f = 4" | "f = 5" | "f = 6" | "f = 7"
  using assms by linarith

lemma ex_lt_8: "(\<exists>r<(8::nat). P r) \<longleftrightarrow> P 0 \<or> P 1 \<or> P 2 \<or> P 3 \<or> P 4 \<or> P 5 \<or> P 6 \<or> P 7"
proof
  assume "\<exists>r<8. P r"
  then obtain r where "r < 8" "P r" by blast
  then show "P 0 \<or> P 1 \<or> P 2 \<or> P 3 \<or> P 4 \<or> P 5 \<or> P 6 \<or> P 7"
    by (cases rule: nat_8_cases [of r]) auto
next
  assume "P 0 \<or> P 1 \<or> P 2 \<or> P 3 \<or> P 4 \<or> P 5 \<or> P 6 \<or> P 7"
  then show "\<exists>r<8. P r"
    by (elim disjE) (rule exI, rule conjI [rotated], assumption, simp)+
qed

lemma table_lengths:
  assumes "f < 8"
  shows "length (FILL_ATTACKS ! f) = 64" "length (FILE_ATTACKS ! f) = 64"
  using assms by (cases rule: nat_8_cases; simp add: FILL_ATTACKS_def FILE_ATTACKS_def)+

lemma fill_checked: "f < 8 \<Longrightarrow> checked (fill_ok (map (btw f) [0..<8])) 0 (FILL_ATTACKS ! f)"
  by (cases rule: nat_8_cases [of f]) (simp_all only: fill_rows_checked)

lemma fill_entry:
  assumes "f < 8" "i < 64"
  shows "bit (FILL_ATTACKS ! f ! i) n \<longleftrightarrow> n < 64 \<and> (int i + 64) AND btw f (n mod 8) = 0"
proof -
  have "FILL_ATTACKS ! f ! i = word_of_int (slide 2 (int i + 64) (map (btw f) [0..<8]) * 0x0101010101010101)"
    using checked_nth [OF fill_checked [OF assms(1)]] assms table_lengths(1) [OF assms(1)]
    by (simp add: fill_ok_def)
  moreover have s: "bit (slide 2 (int i + 64) (map (btw f) [0..<8])) m \<longleftrightarrow>
      m < 8 \<and> (int i + 64) AND btw f m = 0" for m
    using bit_slide [of 1 "int i + 64" "map (btw f) [0..<8]" m] by auto
  ultimately show ?thesis using bit_replicate_byte [of "slide 2 (int i + 64) (map (btw f) [0..<8])" n]
    by auto
qed

lemma file_entry:
  assumes "r < 8" "i < 64" "0 < r \<and> r < 7 \<Longrightarrow> bit i (6 - r)"
  shows "bit (FILE_ATTACKS ! r ! i) n \<longleftrightarrow>
    n < 64 \<and> n mod 8 = 0 \<and> (int i + 64) AND btw_rev r (n div 8) = 0"
proof -
  have i: "int i AND 2 ^ (6 - r) \<noteq> 0" if "0 < r \<and> r < 7"
    using assms(3) [OF that] and_exp_eq_0_iff_not_bit [of "int i" "6 - r"] by (simp add: bit_of_nat_iff)
  have "FILE_ATTACKS ! r ! i = word_of_int (slide 256 (int i + 64) (map (btw_rev r) [0..<8]))"
    using assms(1)
  proof (cases rule: nat_8_cases)
  qed (insert i assms(2) table_lengths(2) [OF assms(1)]
      file_rows_checked [THEN checked_nth, where n = i],
      simp_all add: file_ok_def)
  moreover have s: "bit (slide 256 (int i + 64) (map (btw_rev r) [0..<8])) m \<longleftrightarrow>
      m mod 8 = 0 \<and> m div 8 < 8 \<and> (int i + 64) AND btw_rev r (m div 8) = 0" for m
    using bit_slide [of 8 "int i + 64" "map (btw_rev r) [0..<8]" m] by (auto simp: dvd_eq_mod_eq_0)
  ultimately show ?thesis by (auto simp: bit_word_of_int_iff s)
qed

text \<open>The mask tests, in terms of the index bits.\<close>

lemma bit_plus_64:
  assumes "i < 64"
  shows "bit (int i + 64) n \<longleftrightarrow> n = 6 \<or> n < 6 \<and> bit i n"
proof -
  have lt: "bit i n \<Longrightarrow> n < 6" for n
  proof -
    assume "bit i n"
    then have "bit (take_bit 6 i) n" using assms by (simp add: take_bit_nat_eq_self)
    then show "n < 6" by (simp add: bit_take_bit_iff)
  qed
  have or6: "int i + 2 ^ 6 = int i OR 2 ^ 6"
    by (rule disjunctive_add) (unfold bit_of_nat_iff bit_exp_iff, auto dest: lt)
  have "bit (int i + 2 ^ 6) n \<longleftrightarrow> bit i n \<or> n = 6"
    unfolding or6 bit_or_iff bit_of_nat_iff bit_exp_iff by auto
  moreover have "(2 :: int) ^ 6 = 64" by simp
  ultimately show ?thesis using lt [of n] by metis
qed

lemma and_eq_0_bits: "(a :: int) AND b = 0 \<longleftrightarrow> (\<forall>n. \<not> (bit a n \<and> bit b n))"
  by (metis bit_and_iff bit_0_eq bot_apply bot_bool_def bit_eqI)

lemma btw_clear:
  assumes "i < 64" "f < 8" "g < 8"
  shows "(int i + 64) AND btw f g = 0 \<longleftrightarrow>
    f \<noteq> g \<and> (\<forall>h. min f g < h \<and> h < max f g \<longrightarrow> \<not> bit i (h - 1))"
proof (cases "f = g")
  case True
  have "bit (int i + 64) 6" using bit_plus_64 [OF assms(1)] by simp
  then have "(int i + 64) AND 2 ^ 6 \<noteq> 0" by (simp add: and_exp_eq_0_iff_not_bit del: power_numeral)
  then show ?thesis using True by (simp add: btw_def)
next
  case False
  have "(int i + 64) AND btw f g = 0 \<longleftrightarrow>
      (\<forall>n. \<not> (bit (int i + 64) n \<and> n < max f g - 1 \<and> \<not> n < min f g))"
    using False by (auto simp: and_eq_0_bits btw_def bit_and_iff bit_not_iff bit_mask_iff)
  also have "\<dots> \<longleftrightarrow> (\<forall>n. \<not> (bit i n \<and> n < max f g - 1 \<and> \<not> n < min f g))"
  proof -
    have "bit (int i + 64) n \<longleftrightarrow> bit i n" if "n < max f g - 1" for n
      using that assms bit_plus_64 [OF assms(1), of n] by auto
    then show ?thesis by blast
  qed
  also have "\<dots> \<longleftrightarrow> (\<forall>h. min f g < h \<and> h < max f g \<longrightarrow> \<not> bit i (h - 1))"
  proof (intro iffI allI impI)
    fix h
    assume "\<forall>n. \<not> (bit i n \<and> n < max f g - 1 \<and> \<not> n < min f g)" "min f g < h \<and> h < max f g"
    moreover from this have "h - 1 < max f g - 1" "\<not> h - 1 < min f g" by linarith+
    ultimately show "\<not> bit i (h - 1)" by blast
  next
    fix n
    assume *: "\<forall>h. min f g < h \<and> h < max f g \<longrightarrow> \<not> bit i (h - 1)"
    show "\<not> (bit i n \<and> n < max f g - 1 \<and> \<not> n < min f g)"
    proof
      assume n: "bit i n \<and> n < max f g - 1 \<and> \<not> n < min f g"
      then have "min f g < Suc n" "Suc n < max f g" "Suc n - 1 = n" by linarith+
      then show False using * n by metis
    qed
  qed
  finally show ?thesis using False by simp
qed

lemma btw_rev_clear:
  assumes "i < 64" "f < 8" "g < 8"
  shows "(int i + 64) AND btw_rev f g = 0 \<longleftrightarrow>
    f \<noteq> g \<and> (\<forall>h. min f g < h \<and> h < max f g \<longrightarrow> \<not> bit i (6 - h))"
proof (cases "f = g")
  case True
  have "bit (int i + 64) 6" using bit_plus_64 [OF assms(1)] by simp
  then have "(int i + 64) AND 2 ^ 6 \<noteq> 0" by (simp add: and_exp_eq_0_iff_not_bit del: power_numeral)
  then show ?thesis using True by (simp add: btw_rev_def)
next
  case False
  have "(int i + 64) AND btw_rev f g = 0 \<longleftrightarrow>
      (\<forall>n. \<not> (bit (int i + 64) n \<and> n < 6 - min f g \<and> \<not> n < 7 - max f g))"
    using False by (auto simp: and_eq_0_bits btw_rev_def bit_and_iff bit_not_iff bit_mask_iff)
  also have "\<dots> \<longleftrightarrow> (\<forall>n. \<not> (bit i n \<and> n < 6 - min f g \<and> \<not> n < 7 - max f g))"
  proof -
    have "bit (int i + 64) n \<longleftrightarrow> bit i n" if "n < 6 - min f g" for n
      using that assms bit_plus_64 [OF assms(1), of n] by auto
    then show ?thesis by blast
  qed
  also have "\<dots> \<longleftrightarrow> (\<forall>h. min f g < h \<and> h < max f g \<longrightarrow> \<not> bit i (6 - h))"
  proof (intro iffI allI impI)
    fix h
    assume *: "\<forall>n. \<not> (bit i n \<and> n < 6 - min f g \<and> \<not> n < 7 - max f g)" and h: "min f g < h \<and> h < max f g"
    have "6 - h < 6 - min f g" "\<not> 6 - h < 7 - max f g" using h assms by linarith+
    then show "\<not> bit i (6 - h)" using * by blast
  next
    fix n
    assume *: "\<forall>h. min f g < h \<and> h < max f g \<longrightarrow> \<not> bit i (6 - h)"
    show "\<not> (bit i n \<and> n < 6 - min f g \<and> \<not> n < 7 - max f g)"
    proof
      assume n: "bit i n \<and> n < 6 - min f g \<and> \<not> n < 7 - max f g"
      then have "min f g < 6 - n" "6 - n < max f g" "6 - (6 - n) = n" using assms by linarith+
      then show False using * n by metis
    qed
  qed
  finally show ?thesis using False by simp
qed

section \<open>Folding a line into six bits\<close>

lemma unat_lt_64: "(\<And>n. bit (w :: bitboard) n \<Longrightarrow> n < 6) \<Longrightarrow> unat w < 64"
proof -
  assume "\<And>n. bit w n \<Longrightarrow> n < 6"
  then have "w = take_bit 6 w" by (intro word64_eqI) (auto simp: bit_take_bit_iff)
  then have "unat w = take_bit 6 (unat w)" by (metis unsigned_take_bit_eq)
  then show "unat w < 64" using take_bit_nat_less_exp [of 6 "unat w"] by simp
qed

lemma bit_unat: "bit (unat w) n = bit w n" for w :: bitboard
  by (metis bit_unsigned_iff bit_nat_iff bit_imp_possible_bit possible_bit_nat)

lemma bit_top_six: "bit (drop_bit 58 w) j \<longleftrightarrow> j < 6 \<and> bit w (58 + j)" for w :: bitboard
  by (auto simp: bit_drop_bit_eq)

lemma rank_fold:
  "bit (drop_bit (r * 8 + 1) occ AND 63) j \<longleftrightarrow> j < 6 \<and> bit occ (8 * r + 1 + j)" for occ :: bitboard
proof -
  have "(63 :: bitboard) = mask 6" by (simp add: mask_eq_exp_minus_1)
  then have "bit (63 :: bitboard) j \<longleftrightarrow> j < 6" by (simp only: bit_mask_iff) auto
  then show ?thesis by (auto simp: bit_and_iff bit_drop_bit_eq ac_simps)
qed

lemma file_fold:
  assumes "j < 6" "f < 8"
  shows "bit ((drop_bit f occ AND FILE_A_COLUMN) * DIAG_C2H7_FOLD) (58 + j) \<longleftrightarrow> bit occ (f + 8 * (6 - j))"
    (is "bit (?x * _) _ = _")
proof -
  let ?ks = "[10, 19, 28, 37, 46, 55 :: nat]"
  have x: "bit ?x n \<longleftrightarrow> n < 64 \<and> n mod 8 = 0 \<and> bit occ (f + n)" for n
    by (auto simp: bit_and_iff bit_drop_bit_eq bit_file_column)
  have "?x * DIAG_C2H7_FOLD = (\<Sum>k\<leftarrow>?ks. push_bit k ?x)"
    by (rule mult_eq_shift_sum) (simp add: DIAG_C2H7_FOLD_def)
  also have "bit \<dots> (58 + j) \<longleftrightarrow> 58 + j < 64 \<and> (\<exists>k\<in>set ?ks. k \<le> 58 + j \<and> bit ?x (58 + j - k))"
  proof (rule bit_shift_sum)
    fix k l a b
    assume "k \<in> set ?ks" "l \<in> set ?ks" "k \<noteq> l" "bit ?x a" "bit ?x b"
    moreover from this have "a mod 8 = 0" "b mod 8 = 0" by (auto simp: x)
    then have "(a + k) mod 8 = k mod 8" "(b + l) mod 8 = l mod 8" by presburger+
    ultimately show "a + k \<noteq> b + l" by auto
  qed simp
  also have "\<dots> \<longleftrightarrow> bit occ (f + 8 * (6 - j))"
  proof -
    from assms(1) consider "j = 0" | "j = 1" | "j = 2" | "j = 3" | "j = 4" | "j = 5" by linarith
    then show ?thesis by cases (simp_all add: x)
  qed
  finally show ?thesis .
qed

text \<open>On a diagonal no two squares share a file.\<close>

definition one_per_file :: "bitboard \<Rightarrow> bool" where
  "one_per_file x \<longleftrightarrow> (\<forall>a b. bit x a \<and> bit x b \<and> a mod 8 = b mod 8 \<longrightarrow> a = b)"

lemma diag_fold:
  assumes "j < 6" "one_per_file x"
  shows "bit (x * B_FILE_FOLD) (58 + j) \<longleftrightarrow> (\<exists>r<8. bit x (j + 1 + 8 * r))"
proof -
  let ?ks = "[1, 9, 17, 25, 33, 41, 49, 57 :: nat]"
  have "x * B_FILE_FOLD = (\<Sum>k\<leftarrow>?ks. push_bit k x)"
    by (rule mult_eq_shift_sum) (simp add: B_FILE_FOLD_def)
  also have "bit \<dots> (58 + j) \<longleftrightarrow> 58 + j < 64 \<and> (\<exists>k\<in>set ?ks. k \<le> 58 + j \<and> bit x (58 + j - k))"
  proof (rule bit_shift_sum)
    fix k l a b
    assume kl: "k \<in> set ?ks" "l \<in> set ?ks" "k \<noteq> l" and ab: "bit x a" "bit x b"
    show "a + k \<noteq> b + l"
    proof
      assume "a + k = b + l"
      moreover from kl obtain k' l' where "k = 8 * k' + 1" "l = 8 * l' + 1" by auto
      ultimately have "a + 8 * k' = b + 8 * l'" by simp
      then have "a mod 8 = b mod 8" by (metis mod_mult_self2)
      then have "a = b" using ab assms(2) by (auto simp: one_per_file_def)
      then show False using \<open>a + k = b + l\<close> kl(3) by simp
    qed
  qed simp
  also have "\<dots> \<longleftrightarrow> (\<exists>r<8. bit x (j + 1 + 8 * r))"
  proof -
    have "58 + j - 1 = j + 1 + 8 * 7" "58 + j - 9 = j + 1 + 8 * 6" "58 + j - 17 = j + 1 + 8 * 5"
      "58 + j - 25 = j + 1 + 8 * 4" "58 + j - 33 = j + 1 + 8 * 3" "58 + j - 41 = j + 1 + 8 * 2"
      "58 + j - 49 = j + 1 + 8 * 1" "58 + j - 57 = j + 1 + 8 * 0" by linarith+
    moreover have "k \<in> set ?ks \<Longrightarrow> k \<le> 58 + j" for k by auto
    ultimately show ?thesis using assms(1) unfolding ex_lt_8 by auto
  qed
  finally show ?thesis .
qed

section \<open>The diagonal tables\<close>

text \<open>The diagonal through a square is the main diagonal, or the main antidiagonal, shifted by whole
  ranks; the fold masks drop the squares on the edge of the board.\<close>

definition MAIN_DIAG :: bitboard where "MAIN_DIAG = 0x8040201008040201"
definition MAIN_ANTI :: bitboard where "MAIN_ANTI = 0x0102040810204080"

definition shift_ranks :: "int \<Rightarrow> bitboard \<Rightarrow> bitboard" where
  "shift_ranks d w = (if d \<ge> 0 then push_bit (nat (8 * d)) w else drop_bit (nat (8 * - d)) w)"

definition plus_line_ok :: "int \<Rightarrow> bitboard \<Rightarrow> bool" where
  "plus_line_ok s w \<longleftrightarrow> w = shift_ranks (s div 8 - s mod 8) MAIN_DIAG"

definition minus_line_ok :: "int \<Rightarrow> bitboard \<Rightarrow> bool" where
  "minus_line_ok s w \<longleftrightarrow> w = shift_ranks (s div 8 + s mod 8 - 7) MAIN_ANTI"

definition plus_fold_ok :: "int \<Rightarrow> bitboard \<Rightarrow> bool" where
  "plus_fold_ok s w \<longleftrightarrow> w = shift_ranks (s div 8 - s mod 8) MAIN_DIAG AND 0x007e7e7e7e7e7e00"

definition minus_fold_ok :: "int \<Rightarrow> bitboard \<Rightarrow> bool" where
  "minus_fold_ok s w \<longleftrightarrow> w = shift_ranks (s div 8 + s mod 8 - 7) MAIN_ANTI AND 0x007e7e7e7e7e7e00"

lemma diag_tables_checked:
  "checked plus_line_ok 0 DIAG_PLUS_LINE"
  "checked minus_line_ok 0 DIAG_MINUS_LINE"
  "checked plus_fold_ok 0 DIAG_PLUS_FOLD"
  "checked minus_fold_ok 0 DIAG_MINUS_FOLD"
  by (simp_all add: DIAG_PLUS_LINE_def DIAG_MINUS_LINE_def DIAG_PLUS_FOLD_def DIAG_MINUS_FOLD_def
      plus_line_ok_def minus_line_ok_def plus_fold_ok_def minus_fold_ok_def shift_ranks_def
      MAIN_DIAG_def MAIN_ANTI_def)

lemma main_diag_bits:
  "bit MAIN_DIAG n \<longleftrightarrow> n \<in> {0, 9, 18, 27, 36, 45, 54, 63}"
  "bit MAIN_ANTI n \<longleftrightarrow> n \<in> {7, 14, 21, 28, 35, 42, 49, 56}"
proof -
  have "MAIN_DIAG = (\<Sum>k\<leftarrow>[0,9,18,27,36,45,54,63]. push_bit k 1)" by (simp add: MAIN_DIAG_def)
  also have "bit \<dots> n \<longleftrightarrow> n < 64 \<and> (\<exists>k\<in>set [0,9,18,27,36,45,54,63]. k \<le> n \<and> bit (1 :: bitboard) (n - k))"
    by (rule bit_shift_sum) (auto simp: bit_1_iff)
  also have "\<dots> \<longleftrightarrow> n \<in> {0, 9, 18, 27, 36, 45, 54, 63}" by (auto simp: bit_1_iff)
  finally show "bit MAIN_DIAG n \<longleftrightarrow> n \<in> {0, 9, 18, 27, 36, 45, 54, 63}" .
  have "MAIN_ANTI = (\<Sum>k\<leftarrow>[7,14,21,28,35,42,49,56]. push_bit k 1)" by (simp add: MAIN_ANTI_def)
  also have "bit \<dots> n \<longleftrightarrow> n < 64 \<and> (\<exists>k\<in>set [7,14,21,28,35,42,49,56]. k \<le> n \<and> bit (1 :: bitboard) (n - k))"
    by (rule bit_shift_sum) (auto simp: bit_1_iff)
  also have "\<dots> \<longleftrightarrow> n \<in> {7, 14, 21, 28, 35, 42, 49, 56}" by (auto simp: bit_1_iff)
  finally show "bit MAIN_ANTI n \<longleftrightarrow> n \<in> {7, 14, 21, 28, 35, 42, 49, 56}" .
qed

lemma main_diag_coords:
  assumes "0 \<le> g" "g < 8" "0 \<le> q" "q < 8"
  shows "bit MAIN_DIAG (nat (g + 8 * q)) \<longleftrightarrow> g = q" "bit MAIN_ANTI (nat (g + 8 * q)) \<longleftrightarrow> g + q = 7"
  using assms(3,4)
  by (cases rule: upto_7_cases; use assms(1,2) in \<open>auto simp: main_diag_bits nat_eq_iff\<close>)+

lemma bit_shift_ranks:
  assumes "0 \<le> g" "g < 8" "0 \<le> q" "q < 8"
  shows "bit (shift_ranks d w) (nat (g + 8 * q)) \<longleftrightarrow> 0 \<le> q - d \<and> q - d < 8 \<and> bit w (nat (g + 8 * (q - d)))"
proof (cases "d \<ge> 0")
  case True
  have "nat (8 * d) \<le> nat (g + 8 * q) \<longleftrightarrow> d \<le> q" using True assms by linarith
  moreover have "nat (g + 8 * q) - nat (8 * d) = nat (g + 8 * (q - d))" if "d \<le> q"
    using True assms that by (simp add: nat_diff_distrib' algebra_simps)
  ultimately show ?thesis using True assms by (auto simp: shift_ranks_def bit_push_bit_iff nat_less_iff)
next
  case False
  have "nat (8 * - d) + nat (g + 8 * q) = nat (g + 8 * (q - d))"
    using False assms by (simp flip: nat_add_distrib add: algebra_simps)
  moreover have "q - d < 8" if "bit w (nat (g + 8 * (q - d)))" using bit_word64_lt [OF that] assms(1) by (simp add: nat_less_iff)
  ultimately show ?thesis using False assms by (auto simp: shift_ranks_def bit_drop_bit_eq)
qed

lemma diag_lengths [simp]:
  "length DIAG_PLUS_LINE = 64" "length DIAG_MINUS_LINE = 64" "length DIAG_PLUS_FOLD = 64" "length DIAG_MINUS_FOLD = 64"
  by (simp_all add: DIAG_PLUS_LINE_def DIAG_MINUS_LINE_def DIAG_PLUS_FOLD_def DIAG_MINUS_FOLD_def)

lemma diag_entries:
  assumes "on_board s"
  shows "DIAG_PLUS_LINE ! nat s = shift_ranks (sq_rank s - sq_file s) MAIN_DIAG"
    and "DIAG_MINUS_LINE ! nat s = shift_ranks (sq_rank s + sq_file s - 7) MAIN_ANTI"
    and "DIAG_PLUS_FOLD ! nat s = DIAG_PLUS_LINE ! nat s AND 0x007e7e7e7e7e7e00"
    and "DIAG_MINUS_FOLD ! nat s = DIAG_MINUS_LINE ! nat s AND 0x007e7e7e7e7e7e00"
  using diag_tables_checked [THEN checked_nth, of "nat s"] assms on_board_nat [OF assms]
  by (simp_all add: plus_line_ok_def minus_line_ok_def plus_fold_ok_def minus_fold_ok_def
      sq_rank_div sq_file_mod on_board_def)

definition inner_square :: "int \<Rightarrow> bool" where
  "inner_square u \<longleftrightarrow> 1 \<le> sq_file u \<and> sq_file u \<le> 6 \<and> 1 \<le> sq_rank u \<and> sq_rank u \<le> 6"

lemma inner_mask_bits:
  assumes "on_board u"
  shows "bit (0x007e7e7e7e7e7e00 :: bitboard) (nat u) \<longleftrightarrow> inner_square u"
proof -
  have e: "(0x007e7e7e7e7e7e00 :: bitboard) =
      NOT (file_mask 0 OR file_mask 7 OR rank_mask 0 OR rank_mask 7)"
    by (simp add: file_mask_def rank_mask_def FILE_MASK_def RANK_MASK_def)
  show ?thesis
    unfolding e using assms sq_file_range [of u] sq_rank_range [OF assms]
    by (auto simp: bit_simps bit_file_mask bit_rank_mask inner_square_def sq_file_mod sq_rank_div on_board_def)
qed

lemma diag_line_bits:
  assumes "on_board s" "on_board u"
  shows "bit (DIAG_PLUS_LINE ! nat s) (nat u) \<longleftrightarrow> diag_plus s u"
    and "bit (DIAG_MINUS_LINE ! nat s) (nat u) \<longleftrightarrow> diag_minus s u"
    and "bit (DIAG_PLUS_FOLD ! nat s) (nat u) \<longleftrightarrow> diag_plus s u \<and> inner_square u"
    and "bit (DIAG_MINUS_FOLD ! nat s) (nat u) \<longleftrightarrow> diag_minus s u \<and> inner_square u"
proof -
  obtain g q where u: "u = g + 8 * q" "0 \<le> g" "g < 8" "0 \<le> q" "q < 8" "sq_file u = g" "sq_rank u = q"
    using on_board_coordsE [OF assms(2)] by metis
  show 1: "bit (DIAG_PLUS_LINE ! nat s) (nat u) \<longleftrightarrow> diag_plus s u"
    unfolding diag_entries [OF assms(1)] diag_plus_def u(6,7) unfolding u(1) bit_shift_ranks [OF u(2-5)]
    using u(2,3) main_diag_coords(1) [of g "q - (sq_rank s - sq_file s)"] by linarith
  show 2: "bit (DIAG_MINUS_LINE ! nat s) (nat u) \<longleftrightarrow> diag_minus s u"
    unfolding diag_entries [OF assms(1)] diag_minus_def u(6,7) unfolding u(1) bit_shift_ranks [OF u(2-5)]
    using u(2,3) main_diag_coords(2) [of g "q - (sq_rank s + sq_file s - 7)"] by linarith
  show "bit (DIAG_PLUS_FOLD ! nat s) (nat u) \<longleftrightarrow> diag_plus s u \<and> inner_square u"
    "bit (DIAG_MINUS_FOLD ! nat s) (nat u) \<longleftrightarrow> diag_minus s u \<and> inner_square u"
    using 1 2 inner_mask_bits [OF assms(2)] by (simp_all add: diag_entries(3,4) [OF assms(1)] bit_and_iff)
qed

end
