(* ===== verification/Sliders.thy ===== *)
theory Sliders
  imports Slider_Tables
begin

text \<open>
  The sliding attacks are the lines of sight: \<open>rook_attacks\<close>, \<open>bishop_attacks\<close> and \<open>queen_attacks\<close>
  contain a square exactly when it is on a line of the piece and nothing stands strictly between.
  The locale \<open>slider\<close> states that contract once, with what its clients need of it (symmetry, the
  effect of adding blockers, the empty board), and is interpreted for the three pieces.
\<close>

section \<open>What a slider sees\<close>

text \<open>\<open>unblocked s t occ\<close>: no occupied square strictly between the two.\<close>

definition unblocked :: "int \<Rightarrow> int \<Rightarrow> bitboard \<Rightarrow> bool" where
  "unblocked s t occ \<longleftrightarrow> (\<forall>u. on_board u \<and> strictly_between s t u \<longrightarrow> \<not> bit occ (nat u))"

lemma inside_min_max: "inside a b c \<longleftrightarrow> min a b < c \<and> c < max a b"
  by (auto simp: inside_def min_def max_def)

lemma inside_nat:
  assumes "0 \<le> a" "0 \<le> b" "0 \<le> c"
  shows "inside a b c \<longleftrightarrow> min (nat a) (nat b) < nat c \<and> nat c < max (nat a) (nat b)"
  using assms by (auto simp: inside_def min_def max_def)

lemma not_strictly_between_self: "\<not> strictly_between s t s"
  by (auto simp: strictly_between_def inside_def)

lemma unblocked_own:
  assumes "on_board s"
  shows "unblocked s t (occ OR push_bit (nat s) 1) = unblocked s t occ"
proof -
  have "nat u = nat s \<longleftrightarrow> u = s" if "on_board u" for u using that assms by (auto simp: on_board_def)
  then show ?thesis using not_strictly_between_self [of s t]
    by (auto simp: unblocked_def bit_or_iff)
qed

lemma unblocked_intervening:
  assumes "on_board s" "on_board t"
  shows "unblocked s t occ \<longleftrightarrow> intervening s t AND occ = 0"
proof -
  have "intervening s t AND occ = 0 \<longleftrightarrow> (\<forall>n<64. \<not> (bit (intervening s t) n \<and> bit occ n))"
    by (simp add: word64_eq_iff bit_and_iff)
  also have "\<dots> \<longleftrightarrow> (\<forall>u. on_board u \<longrightarrow> \<not> (bit (intervening s t) (nat u) \<and> bit occ (nat u)))"
    by (metis nat_int nat_less_iff on_board_def of_nat_0_le_iff of_nat_less_iff of_nat_numeral on_board_nat)
  finally show ?thesis using intervening_spec [OF assms] by (auto simp: unblocked_def)
qed

lemma nat_square:
  assumes "on_board u"
  shows "nat u = nat (sq_file u) + 8 * nat (sq_rank u)"
proof -
  obtain f r where "u = f + 8 * r" "0 \<le> f" "0 \<le> r" "sq_file u = f" "sq_rank u = r"
    using on_board_coordsE [OF assms] by metis
  then show ?thesis by (simp add: nat_add_distrib nat_mult_distrib)
qed

lemma unblocked_rank:
  assumes "on_board s" "on_board t" "sq_rank s = sq_rank t" "sq_file s \<noteq> sq_file t"
  shows "unblocked s t occ \<longleftrightarrow> (\<forall>h. min (nat (sq_file s)) (nat (sq_file t)) < h
    \<and> h < max (nat (sq_file s)) (nat (sq_file t)) \<longrightarrow> \<not> bit occ (h + 8 * nat (sq_rank s)))"
    (is "_ \<longleftrightarrow> (\<forall>h. ?in h \<longrightarrow> _)")
proof -
  have sb: "strictly_between s t u \<longleftrightarrow> sq_rank u = sq_rank s \<and> ?in (nat (sq_file u))" for u
    using assms inside_nat [of "sq_file s" "sq_file t" "sq_file u"]
    by (auto simp: strictly_between_def diag_plus_def diag_minus_def inside_def)
  note r = sq_rank_range [OF assms(1)]
  show ?thesis
  proof (intro iffI allI impI)
    fix h assume u: "unblocked s t occ" and h: "?in h"
    have h8: "int h < 8" using h sq_file_range(2) [of s] sq_file_range(2) [of t] by linarith
    let ?u = "int h + 8 * sq_rank s"
    have "on_board ?u" "sq_file ?u = int h" "sq_rank ?u = sq_rank s"
      using h8 r by (simp_all add: on_board_of_coords)
    then have "\<not> bit occ (nat ?u)" using u h by (simp add: unblocked_def sb)
    moreover have "nat ?u = h + 8 * nat (sq_rank s)" using r by (simp add: nat_add_distrib nat_mult_distrib)
    ultimately show "\<not> bit occ (h + 8 * nat (sq_rank s))" by simp
  next
    assume *: "\<forall>h. ?in h \<longrightarrow> \<not> bit occ (h + 8 * nat (sq_rank s))"
    show "unblocked s t occ" unfolding unblocked_def
    proof (intro allI impI)
      fix u assume u: "on_board u \<and> strictly_between s t u"
      show "\<not> bit occ (nat u)" using * u nat_square [of u] by (simp add: sb)
    qed
  qed
qed

lemma unblocked_file:
  assumes "on_board s" "on_board t" "sq_file s = sq_file t" "sq_rank s \<noteq> sq_rank t"
  shows "unblocked s t occ \<longleftrightarrow> (\<forall>h. min (nat (sq_rank s)) (nat (sq_rank t)) < h
    \<and> h < max (nat (sq_rank s)) (nat (sq_rank t)) \<longrightarrow> \<not> bit occ (nat (sq_file s) + 8 * h))"
    (is "_ \<longleftrightarrow> (\<forall>h. ?in h \<longrightarrow> _)")
proof -
  note r = sq_rank_range [OF assms(1)] sq_rank_range [OF assms(2)]
  have sb: "strictly_between s t u \<longleftrightarrow> sq_file u = sq_file s \<and> ?in (nat (sq_rank u))" if "on_board u" for u
    using assms inside_nat [of "sq_rank s" "sq_rank t" "sq_rank u"] r sq_rank_range [OF that]
    by (auto simp: strictly_between_def diag_plus_def diag_minus_def inside_def)
  show ?thesis
  proof (intro iffI allI impI)
    fix h assume u: "unblocked s t occ" and h: "?in h"
    have h8: "int h < 8" using h r by linarith
    let ?u = "sq_file s + 8 * int h"
    have ub: "on_board ?u" "sq_file ?u = sq_file s" "sq_rank ?u = int h"
      using h8 by (simp_all add: on_board_of_coords)
    then have "\<not> bit occ (nat ?u)" using u h sb [OF ub(1)] by (simp add: unblocked_def)
    then show "\<not> bit occ (nat (sq_file s) + 8 * h)" using nat_square [OF ub(1)] ub by simp
  next
    assume *: "\<forall>h. ?in h \<longrightarrow> \<not> bit occ (nat (sq_file s) + 8 * h)"
    show "unblocked s t occ" unfolding unblocked_def
    proof (intro allI impI)
      fix u assume u: "on_board u \<and> strictly_between s t u"
      show "\<not> bit occ (nat u)" using * u nat_square [of u] sb [of u] by simp
    qed
  qed
qed

text \<open>The same on a diagonal, where the index bit of a file says whether its one square on the
  diagonal is occupied.\<close>

lemma unblocked_diag:
  assumes "on_board s" "on_board t" "sq_file s \<noteq> sq_file t"
    and diag: "diag_plus s t \<and> d = diag_plus \<or> diag_minus s t \<and> d = diag_minus"
    and x: "\<And>u. on_board u \<Longrightarrow> bit x (nat u) \<longleftrightarrow> d s u \<and> inner_square u \<and> bit occ (nat u)"
  shows "unblocked s t occ \<longleftrightarrow> (\<forall>h. min (nat (sq_file s)) (nat (sq_file t)) < h
    \<and> h < max (nat (sq_file s)) (nat (sq_file t)) \<longrightarrow> \<not> (\<exists>r<8. bit x (h + 8 * r)))"
    (is "_ \<longleftrightarrow> (\<forall>h. ?in h \<longrightarrow> _)")
proof -
  note r = sq_rank_range [OF assms(1)] sq_rank_range [OF assms(2)]
  have sb: "strictly_between s t u \<longleftrightarrow> d s u \<and> inside (sq_file s) (sq_file t) (sq_file u)" for u
    using diag assms(3) by (auto simp: strictly_between_def diag_plus_def diag_minus_def inside_def)
  have inner: "inner_square u" if "d s u" "inside (sq_file s) (sq_file t) (sq_file u)" for u
    using that diag r sq_file_range [of s] sq_file_range [of t]
    by (auto simp: inner_square_def diag_plus_def diag_minus_def inside_def simp del: sq_file_range)
  have bx: "bit x (nat u) \<longleftrightarrow> d s u \<and> bit occ (nat u)"
    if "on_board u" "inside (sq_file s) (sq_file t) (sq_file u)" for u
    using x [OF that(1)] inner [of u] that(2) by blast
  show ?thesis
  proof (intro iffI allI impI notI)
    fix h assume u: "unblocked s t occ" and h: "?in h" and "\<exists>r<8. bit x (h + 8 * r)"
    then obtain r where r8: "r < 8" "bit x (h + 8 * r)" by blast
    have h8: "int h < 8" using h sq_file_range(2) [of s] sq_file_range(2) [of t] by linarith
    let ?u = "int h + 8 * int r"
    have ub: "on_board ?u" "sq_file ?u = int h" "sq_rank ?u = int r"
      using h8 r8 by (simp_all add: on_board_of_coords)
    have nu: "nat ?u = h + 8 * r" using nat_square [OF ub(1)] ub by simp
    have ins: "inside (sq_file s) (sq_file t) (sq_file ?u)"
      using h ub(2) inside_nat [of "sq_file s" "sq_file t" "int h"] by simp
    from u ub(1) ins have "\<not> (d s ?u \<and> bit occ (nat ?u))" unfolding unblocked_def sb by blast
    then show False using bx [OF ub(1) ins] r8(2) unfolding nu by blast
  next
    assume *: "\<forall>h. ?in h \<longrightarrow> \<not> (\<exists>r<8. bit x (h + 8 * r))"
    show "unblocked s t occ" unfolding unblocked_def
    proof (intro allI impI notI)
      fix u assume u: "on_board u \<and> strictly_between s t u" and b: "bit occ (nat u)"
      then have ins: "inside (sq_file s) (sq_file t) (sq_file u)" by (simp add: sb)
      then have "bit x (nat (sq_file u) + 8 * nat (sq_rank u))"
        using bx [OF _ ins] u b nat_square [of u] by (simp add: sb)
      moreover have "nat (sq_rank u) < 8" using u sq_rank_range [of u] by simp
      moreover have "?in (nat (sq_file u))"
        using ins inside_nat [of "sq_file s" "sq_file t" "sq_file u"] by simp
      ultimately show False using * by blast
    qed
  qed
qed

section \<open>The lookups are the lines of sight\<close>

lemma nat_div_mod_on_board:
  assumes "on_board t"
  shows "nat t mod 8 = nat (sq_file t)" "nat t div 8 = nat (sq_rank t)"
  using assms by (auto simp: sq_file_mod sq_rank_div on_board_def nat_mod_distrib nat_div_distrib)

lemma own_square: "bit (occ OR push_bit (nat s) 1 :: bitboard) n \<longleftrightarrow> bit occ n \<or> n = nat s \<and> n < 64"
  by (auto simp: bit_or_iff)

lemma all_between_cong:
  "(\<And>h. a < h \<Longrightarrow> h < b \<Longrightarrow> P h = Q h) \<Longrightarrow>
    (\<forall>h. a < h \<and> h < b \<longrightarrow> \<not> P h) \<longleftrightarrow> (\<forall>h. a < h \<and> h < b \<longrightarrow> \<not> Q h)" for a b :: nat
  by blast

lemma rank_lookup:
  fixes occ :: bitboard
  assumes "on_board s" "on_board t"
  defines "idx \<equiv> drop_bit (nat (sq_rank s) * 8 + 1) occ AND 63"
  shows "bit (FILL_ATTACKS ! nat (sq_file s) ! unat idx AND rank_mask (sq_rank s)) (nat t) \<longleftrightarrow>
    sq_rank t = sq_rank s \<and> sq_file t \<noteq> sq_file s \<and> unblocked s t occ"
proof -
  note r = sq_rank_range [OF assms(1)] sq_rank_range [OF assms(2)]
  let ?f = "nat (sq_file s)" and ?g = "nat (sq_file t)"
  have fg: "?f < 8" "?g < 8" using sq_file_range(2) [of s] sq_file_range(2) [of t] by linarith+
  have ib: "bit idx j \<longleftrightarrow> j < 6 \<and> bit occ (8 * nat (sq_rank s) + 1 + j)" for j
    unfolding idx_def by (rule rank_fold)
  have lt: "unat idx < 64" by (rule unat_lt_64) (simp add: ib)
  have "bit (FILL_ATTACKS ! ?f ! unat idx) (nat t) \<longleftrightarrow> (int (unat idx) + 64) AND btw ?f ?g = 0"
    using fill_entry [OF fg(1) lt, of "nat t"] nat_div_mod_on_board [OF assms(2)] on_board_nat [OF assms(2)]
    by simp
  also have "\<dots> \<longleftrightarrow> ?f \<noteq> ?g \<and> (\<forall>h. min ?f ?g < h \<and> h < max ?f ?g \<longrightarrow> \<not> bit (unat idx) (h - 1))"
    by (rule btw_clear [OF lt fg])
  also have "\<dots> \<longleftrightarrow> ?f \<noteq> ?g \<and> (\<forall>h. min ?f ?g < h \<and> h < max ?f ?g \<longrightarrow> \<not> bit occ (h + 8 * nat (sq_rank s)))"
  proof (intro conj_cong refl all_between_cong)
    fix h assume "min ?f ?g < h" "h < max ?f ?g"
    then have "8 * nat (sq_rank s) + 1 + (h - 1) = h + 8 * nat (sq_rank s)" "h - 1 < 6"
      using fg by linarith+
    then show "bit (unat idx) (h - 1) = bit occ (h + 8 * nat (sq_rank s))" by (simp only: bit_unat ib simp_thms)
  qed
  finally have "bit (FILL_ATTACKS ! ?f ! unat idx) (nat t) \<longleftrightarrow> sq_file s \<noteq> sq_file t \<and>
      (\<forall>h. min ?f ?g < h \<and> h < max ?f ?g \<longrightarrow> \<not> bit occ (h + 8 * nat (sq_rank s)))"
    by (simp add: eq_nat_nat_iff)
  moreover have "bit (rank_mask (sq_rank s)) (nat t) \<longleftrightarrow> sq_rank t = sq_rank s"
    using r assms(2) by (auto simp: bit_rank_mask on_board_def sq_rank_div)
  ultimately show ?thesis using unblocked_rank [OF assms(1,2)] by (auto simp: bit_and_iff)
qed

lemma file_lookup:
  fixes occ :: bitboard
  assumes "on_board s" "on_board t" "bit occ (nat s)"
  defines "idx \<equiv> drop_bit 58 ((drop_bit (nat (sq_file s)) occ AND FILE_A_COLUMN) * DIAG_C2H7_FOLD)"
  shows "bit (push_bit (nat (sq_file s)) (FILE_ATTACKS ! nat (sq_rank s) ! unat idx)) (nat t) \<longleftrightarrow>
    sq_file t = sq_file s \<and> sq_rank t \<noteq> sq_rank s \<and> unblocked s t occ"
proof -
  note r = sq_rank_range [OF assms(1)] sq_rank_range [OF assms(2)]
  let ?f = "nat (sq_file s)" and ?r = "nat (sq_rank s)" and ?q = "nat (sq_rank t)" and ?g = "nat (sq_file t)"
  have f8: "?f < 8" "?g < 8" using sq_file_range(2) [of s] sq_file_range(2) [of t] by linarith+
  have rq: "?r < 8" "?q < 8" using r by linarith+
  have ib: "bit idx j \<longleftrightarrow> j < 6 \<and> bit occ (?f + 8 * (6 - j))" for j
    unfolding idx_def bit_top_six using file_fold [of j ?f occ] f8(1) by auto
  have lt: "unat idx < 64" by (rule unat_lt_64) (simp add: ib)
  have own: "bit (unat idx) (6 - ?r)" if "0 < ?r \<and> ?r < 7"
    using that assms(3) nat_square [OF assms(1)] by (simp add: bit_unat ib)
  have sub: "?f \<le> nat t \<and> (nat t - ?f) mod 8 = 0 \<longleftrightarrow> ?g = ?f"
    using file_index [OF f8(1), of "nat t"] nat_div_mod_on_board(1) [OF assms(2)] by simp
  have "bit (push_bit ?f (FILE_ATTACKS ! ?r ! unat idx)) (nat t) \<longleftrightarrow>
      ?g = ?f \<and> (int (unat idx) + 64) AND btw_rev ?r ((nat t - ?f) div 8) = 0"
    using file_entry [OF rq(1) lt own, of "nat t - ?f"] sub on_board_nat [OF assms(2)]
    by (auto simp: bit_push_bit_iff)
  also have "\<dots> \<longleftrightarrow> ?g = ?f \<and> (int (unat idx) + 64) AND btw_rev ?r ?q = 0"
    using nat_square [OF assms(2)] by auto
  also have "\<dots> \<longleftrightarrow> ?g = ?f \<and> ?r \<noteq> ?q \<and> (\<forall>h. min ?r ?q < h \<and> h < max ?r ?q \<longrightarrow> \<not> bit (unat idx) (6 - h))"
    using btw_rev_clear [OF lt rq] by blast
  also have "\<dots> \<longleftrightarrow> ?g = ?f \<and> ?r \<noteq> ?q \<and> (\<forall>h. min ?r ?q < h \<and> h < max ?r ?q \<longrightarrow> \<not> bit occ (?f + 8 * h))"
  proof (intro conj_cong refl all_between_cong)
    fix h assume "min ?r ?q < h" "h < max ?r ?q"
    then have "6 - (6 - h) = h" "6 - h < 6" using rq by linarith+
    then show "bit (unat idx) (6 - h) = bit occ (?f + 8 * h)" by (simp add: bit_unat ib)
  qed
  finally have L: "bit (push_bit ?f (FILE_ATTACKS ! ?r ! unat idx)) (nat t) \<longleftrightarrow>
      sq_file t = sq_file s \<and> sq_rank s \<noteq> sq_rank t \<and>
      (\<forall>h. min ?r ?q < h \<and> h < max ?r ?q \<longrightarrow> \<not> bit occ (?f + 8 * h))"
    using r by (simp add: eq_nat_nat_iff)
  show ?thesis
  proof (cases "sq_file s = sq_file t \<and> sq_rank s \<noteq> sq_rank t")
    case True
    then show ?thesis using L unblocked_file [OF assms(1,2), of occ] by metis
  next
    case False
    then show ?thesis using L by metis
  qed
qed

lemma rook_attacks_spec:
  assumes "on_board s" "on_board t"
  shows "bit (rook_attacks s occ) (nat t) \<longleftrightarrow> t \<noteq> s \<and> rook_line s t \<and> unblocked s t occ"
proof -
  let ?occ = "occ OR push_bit (nat s) 1"
  have "bit ?occ (nat s)" using on_board_nat [OF assms(1)] own_square by blast
  then have "bit (rook_attacks s occ) (nat t) \<longleftrightarrow>
      (sq_rank t = sq_rank s \<and> sq_file t \<noteq> sq_file s \<or> sq_file t = sq_file s \<and> sq_rank t \<noteq> sq_rank s)
      \<and> unblocked s t ?occ"
    using rank_lookup [OF assms, of ?occ] file_lookup [OF assms, of ?occ]
    by (auto simp: rook_attacks_def Let_def bit_or_iff)
  then show ?thesis using unblocked_own [OF assms(1)] sq_coords_eqI [of t s]
    by (auto simp: rook_line_def)
qed

lemma diag_lookup:
  fixes occ fm line :: bitboard
  assumes "on_board s" "on_board t" "d = diag_plus \<or> d = diag_minus"
    and fold: "\<And>u. on_board u \<Longrightarrow> bit fm (nat u) \<longleftrightarrow> d s u \<and> inner_square u"
    and line: "bit line (nat t) \<longleftrightarrow> d s t"
  defines "idx \<equiv> drop_bit 58 ((fm AND occ) * B_FILE_FOLD)"
  shows "bit (FILL_ATTACKS ! nat (sq_file s) ! unat idx AND line) (nat t) \<longleftrightarrow>
    d s t \<and> sq_file t \<noteq> sq_file s \<and> unblocked s t occ"
proof -
  let ?f = "nat (sq_file s)" and ?g = "nat (sq_file t)" and ?x = "fm AND occ"
  have fg: "?f < 8" "?g < 8" using sq_file_range(2) [of s] sq_file_range(2) [of t] by linarith+
  have x: "bit ?x (nat u) \<longleftrightarrow> d s u \<and> inner_square u \<and> bit occ (nat u)" if "on_board u" for u
    using fold [OF that] by (simp add: bit_and_iff)
  have "one_per_file ?x"
    unfolding one_per_file_def
  proof (intro allI impI)
    fix a b assume ab: "bit ?x a \<and> bit ?x b \<and> a mod 8 = b mod 8"
    then have ob: "on_board (int a)" "on_board (int b)" by (auto simp: on_board_def)
    have f: "sq_file (int a) = sq_file (int b)" using ab zmod_int [of a 8] zmod_int [of b 8] by (simp add: sq_file_mod)
    have ds: "d s (int a)" "d s (int b)" using ab x [OF ob(1)] x [OF ob(2)] by auto
    from assms(3) have "sq_rank (int a) = sq_rank (int b)"
    proof
      assume "d = diag_plus"
      then show ?thesis using ds f by (simp add: diag_plus_def)
    next
      assume "d = diag_minus"
      then show ?thesis using ds f by (simp add: diag_minus_def)
    qed
    from sq_coords_eqI [OF f this] have "int a = int b" .
    then show "a = b" by simp
  qed
  then have ib: "bit idx j \<longleftrightarrow> j < 6 \<and> (\<exists>r<8. bit ?x (j + 1 + 8 * r))" for j
    unfolding idx_def bit_top_six using diag_fold [of j ?x] by blast
  have lt: "unat idx < 64" by (rule unat_lt_64) (simp add: ib)
  have "bit (FILL_ATTACKS ! ?f ! unat idx) (nat t) \<longleftrightarrow> (int (unat idx) + 64) AND btw ?f ?g = 0"
    using fill_entry [OF fg(1) lt, of "nat t"] nat_div_mod_on_board [OF assms(2)] on_board_nat [OF assms(2)]
    by simp
  also have "\<dots> \<longleftrightarrow> ?f \<noteq> ?g \<and> (\<forall>h. min ?f ?g < h \<and> h < max ?f ?g \<longrightarrow> \<not> bit (unat idx) (h - 1))"
    by (rule btw_clear [OF lt fg])
  also have "\<dots> \<longleftrightarrow> ?f \<noteq> ?g \<and> (\<forall>h. min ?f ?g < h \<and> h < max ?f ?g \<longrightarrow> \<not> (\<exists>r<8. bit ?x (h + 8 * r)))"
  proof (intro conj_cong refl all_between_cong)
    fix h assume "min ?f ?g < h" "h < max ?f ?g"
    then have "h - 1 + 1 = h" "h - 1 < 6" using fg by linarith+
    then show "bit (unat idx) (h - 1) = (\<exists>r<8. bit ?x (h + 8 * r))" by (simp only: bit_unat ib simp_thms)
  qed
  finally have L: "bit (FILL_ATTACKS ! ?f ! unat idx) (nat t) \<longleftrightarrow> sq_file s \<noteq> sq_file t \<and>
      (\<forall>h. min ?f ?g < h \<and> h < max ?f ?g \<longrightarrow> \<not> (\<exists>r<8. bit ?x (h + 8 * r)))"
    by (simp add: eq_nat_nat_iff)
  show ?thesis
  proof (cases "d s t \<and> sq_file s \<noteq> sq_file t")
    case True
    then have "diag_plus s t \<and> d = diag_plus \<or> diag_minus s t \<and> d = diag_minus" using assms(3) by blast
    from unblocked_diag [OF assms(1,2) _ this x] True show ?thesis using L line by (simp add: bit_and_iff)
  next
    case False
    then show ?thesis using L line by (auto simp: bit_and_iff)
  qed
qed

lemma bishop_attacks_spec:
  assumes "on_board s" "on_board t"
  shows "bit (bishop_attacks s occ) (nat t) \<longleftrightarrow> t \<noteq> s \<and> bishop_line s t \<and> unblocked s t occ"
proof -
  let ?occ = "occ OR push_bit (nat s) 1"
  have "bit (bishop_attacks s occ) (nat t) \<longleftrightarrow>
      (diag_plus s t \<and> sq_file t \<noteq> sq_file s \<or> diag_minus s t \<and> sq_file t \<noteq> sq_file s) \<and> unblocked s t ?occ"
    using diag_lookup [OF assms, of diag_plus "DIAG_PLUS_FOLD ! nat s" "DIAG_PLUS_LINE ! nat s" ?occ]
      diag_lookup [OF assms, of diag_minus "DIAG_MINUS_FOLD ! nat s" "DIAG_MINUS_LINE ! nat s" ?occ]
      diag_line_bits [OF assms(1)] assms(2)
    by (auto simp: bishop_attacks_def Let_def bit_or_iff)
  moreover have "bishop_line s t \<and> sq_file t \<noteq> sq_file s \<longleftrightarrow> bishop_line s t \<and> t \<noteq> s"
    using sq_coords_eqI [of t s] by (auto simp: bishop_line_def diag_plus_def diag_minus_def)
  ultimately show ?thesis using unblocked_own [OF assms(1)] by (auto simp: bishop_line_def)
qed

section \<open>The contract of a slider\<close>

locale slider =
  fixes attacks :: "int \<Rightarrow> bitboard \<Rightarrow> bitboard"
    and line :: "int \<Rightarrow> int \<Rightarrow> bool"
  assumes sees: "on_board s \<Longrightarrow> on_board t \<Longrightarrow>
      bit (attacks s occ) (nat t) \<longleftrightarrow> t \<noteq> s \<and> line s t \<and> unblocked s t occ"
    and line_symmetric: "line s t = line t s"
begin

lemma attacks_symmetric:
  assumes "on_board s" "on_board t"
  shows "bit (attacks s occ) (nat t) = bit (attacks t occ) (nat s)"
  using assms sees [of s t occ] sees [of t s occ] line_symmetric [of s t]
  by (auto simp: unblocked_def strictly_between_sym [of s t])

lemma attacks_empty:
  assumes "on_board s" "on_board t"
  shows "bit (attacks s 0) (nat t) \<longleftrightarrow> t \<noteq> s \<and> line s t"
  using sees [OF assms, of 0] by (auto simp: unblocked_def)

text \<open>Blockers can only take squares away, and only the squares strictly between matter.\<close>

lemma attacks_antimono:
  assumes "on_board s" "on_board t" "occ AND occ' = occ" "bit (attacks s occ') (nat t)"
  shows "bit (attacks s occ) (nat t)"
proof -
  have "bit occ n \<Longrightarrow> bit occ' n" for n using assms(3) by (metis bit_and_iff)
  then show ?thesis using assms sees [OF assms(1,2)] by (auto simp: unblocked_def)
qed

lemma attacks_cong:
  assumes "on_board s" "on_board t"
    and "\<And>u. on_board u \<Longrightarrow> strictly_between s t u \<Longrightarrow> bit occ (nat u) = bit occ' (nat u)"
  shows "bit (attacks s occ) (nat t) = bit (attacks s occ') (nat t)"
  using assms sees [OF assms(1,2)] by (auto simp: unblocked_def)

lemma attacks_intervening:
  assumes "on_board s" "on_board t"
  shows "bit (attacks s occ) (nat t) \<longleftrightarrow> t \<noteq> s \<and> line s t \<and> intervening s t AND occ = 0"
  using sees [OF assms] unblocked_intervening [OF assms] by simp

end

definition queen_line :: "int \<Rightarrow> int \<Rightarrow> bool" where
  "queen_line s t \<longleftrightarrow> rook_line s t \<or> bishop_line s t"

lemma queen_attacks_spec:
  assumes "on_board s" "on_board t"
  shows "bit (queen_attacks s occ) (nat t) \<longleftrightarrow> t \<noteq> s \<and> queen_line s t \<and> unblocked s t occ"
  using rook_attacks_spec [OF assms] bishop_attacks_spec [OF assms]
  by (auto simp: queen_attacks_def queen_line_def bit_or_iff)

interpretation rook_slider: slider rook_attacks rook_line
  by unfold_locales (auto simp: rook_attacks_spec rook_line_def)

interpretation bishop_slider: slider bishop_attacks bishop_line
  by unfold_locales (auto simp: bishop_attacks_spec bishop_line_def line_sym(1,2))

interpretation queen_slider: slider queen_attacks queen_line
  by unfold_locales (auto simp: queen_attacks_spec queen_line_def rook_line_def bishop_line_def line_sym(1,2))

text \<open>The empty-board tables are the sliders' attacks on the empty board.\<close>

lemma ray_tables_spec:
  assumes "on_board s" "on_board t"
  shows "bit (rook_rays s) (nat t) \<longleftrightarrow> t \<noteq> s \<and> rook_line s t"
    and "bit (bishop_rays s) (nat t) \<longleftrightarrow> t \<noteq> s \<and> bishop_line s t"
    and "bit (queen_rays s) (nat t) \<longleftrightarrow> t \<noteq> s \<and> queen_line s t"
proof -
  have eq: "t = s \<longleftrightarrow> sq_file t = sq_file s \<and> sq_rank t = sq_rank s" using sq_coords_eqI by blast
  show 1: "bit (rook_rays s) (nat t) \<longleftrightarrow> t \<noteq> s \<and> rook_line s t"
    using assms unfolding rook_rays_def table64_nth [OF assms(1)] init_rook_attacks_def bit_or_iff
      ray_tables [OF assms] on_ray_simps rook_line_def eq by auto
  show 2: "bit (bishop_rays s) (nat t) \<longleftrightarrow> t \<noteq> s \<and> bishop_line s t"
    using assms unfolding bishop_rays_def table64_nth [OF assms(1)] init_bishop_attacks_def bit_or_iff
      ray_tables [OF assms] on_ray_simps bishop_line_def diag_plus_def diag_minus_def eq
    by (cases "sq_file s" "sq_file t" rule: linorder_cases) (simp_all, linarith+)
  have "bit (queen_rays s) (nat t) \<longleftrightarrow> bit (rook_rays s) (nat t) \<or> bit (bishop_rays s) (nat t)"
    using assms by (auto simp: queen_rays_def rook_rays_def bishop_rays_def init_queen_attacks_def
        init_rook_attacks_def init_bishop_attacks_def bit_or_iff)
  then show "bit (queen_rays s) (nat t) \<longleftrightarrow> t \<noteq> s \<and> queen_line s t"
    using 1 2 by (auto simp: queen_line_def)
qed

text \<open>\<open>full_ray\<close> is the whole line through two distinct squares of one line, and empty otherwise.\<close>

lemma full_ray_spec:
  assumes "on_board s" "on_board t" "on_board u"
  shows "bit (full_ray s t) (nat u) \<longleftrightarrow> s \<noteq> t \<and>
    (sq_file s = sq_file t \<and> sq_file u = sq_file s \<or> sq_rank s = sq_rank t \<and> sq_rank u = sq_rank s \<or>
     diag_plus s t \<and> diag_plus s u \<or> diag_minus s t \<and> diag_minus s u)"
proof (cases "s = t")
  case False
  then have ne: "\<not> (sq_file s = sq_file t \<and> sq_rank s = sq_rank t)" using sq_coords_eqI by blast
  let ?hi = "if s > t then s else t" and ?lo = "if s > t then t else s"
  have sym: "sq_file ?hi = sq_file ?lo \<longleftrightarrow> sq_file s = sq_file t" "sq_rank ?hi = sq_rank ?lo \<longleftrightarrow> sq_rank s = sq_rank t"
    "sq_file ?hi - sq_file ?lo = sq_rank ?hi - sq_rank ?lo \<longleftrightarrow> diag_plus s t"
    "sq_file ?lo - sq_file ?hi = sq_rank ?hi - sq_rank ?lo \<longleftrightarrow> diag_minus s t"
    by (auto simp: diag_plus_def diag_minus_def)
  have fm: "bit (file_mask (sq_file ?hi)) (nat u) \<longleftrightarrow> sq_file u = sq_file ?hi"
    using on_board_nat [OF assms(3)] assms(3) by (auto simp: bit_file_mask on_board_def sq_file_mod)
  have rm: "bit (rank_mask (sq_rank ?hi)) (nat u) \<longleftrightarrow> sq_rank u = sq_rank ?hi"
    using on_board_nat [OF assms(3)] assms sq_rank_range [of ?hi]
    by (auto simp: bit_rank_mask on_board_def sq_rank_div)
  have excl: "sq_file s = sq_file t \<Longrightarrow> \<not> diag_plus s t \<and> \<not> diag_minus s t"
    "sq_rank s = sq_rank t \<Longrightarrow> \<not> diag_plus s t \<and> \<not> diag_minus s t"
    "diag_plus s t \<Longrightarrow> \<not> diag_minus s t"
    using ne by (auto simp: diag_plus_def diag_minus_def)
  show ?thesis
    unfolding full_ray_def Let_def sym using False ne excl fm rm diag_line_bits [OF assms(1,3)]
    by (auto split: if_splits)
qed (simp add: full_ray_def)

section \<open>Properties\<close>

text \<open>C13 (equivalence). The kindergarten bitboard lookups of the sliders are the line-of-sight
  attacks: a square is attacked exactly when it is another square on a line of the piece with every
  square strictly between them empty.\<close>

theorem slider_lookups_are_line_of_sight:
  assumes "on_board s" "on_board t"
  shows "(bit (rook_attacks s occ) (nat t) \<longleftrightarrow> t \<noteq> s \<and> rook_line s t \<and> unblocked s t occ) \<and>
    (bit (bishop_attacks s occ) (nat t) \<longleftrightarrow> t \<noteq> s \<and> bishop_line s t \<and> unblocked s t occ) \<and>
    (bit (queen_attacks s occ) (nat t) \<longleftrightarrow> t \<noteq> s \<and> queen_line s t \<and> unblocked s t occ)"
  using rook_slider.sees [OF assms] bishop_slider.sees [OF assms] queen_slider.sees [OF assms] by blast

lemma sample_between: "strictly_between 0 24 16" "rook_line 0 24"
  by (simp_all add: strictly_between_def rook_line_def inside_def sq_file_mod sq_rank_div)

theorem slider_lookups_are_line_of_sight_witness: "\<not> bit (rook_attacks 0 (square_bb 16)) 24"
proof -
  have "\<not> unblocked 0 24 (square_bb 16)"
    using sample_between(1) by (auto simp: unblocked_def on_board_def intro!: exI [of _ 16])
  then show ?thesis using slider_lookups_are_line_of_sight [of 0 24 "square_bb 16"]
    by (simp add: on_board_def)
qed

text \<open>The leaper tables hold the geometric moves of knight, king and pawn, without
  wrap-around at the board's edges.\<close>

theorem leaper_tables_are_geometric:
  assumes "on_board s" "on_board t"
  shows "(bit (knight_attacks s) (nat t) \<longleftrightarrow>
      \<bar>sq_file t - sq_file s\<bar> = 1 \<and> \<bar>sq_rank t - sq_rank s\<bar> = 2 \<or>
      \<bar>sq_file t - sq_file s\<bar> = 2 \<and> \<bar>sq_rank t - sq_rank s\<bar> = 1) \<and>
    (bit (king_attacks s) (nat t) \<longleftrightarrow>
      t \<noteq> s \<and> \<bar>sq_file t - sq_file s\<bar> \<le> 1 \<and> \<bar>sq_rank t - sq_rank s\<bar> \<le> 1) \<and>
    (bit (pawn_attacks s c) (nat t) \<longleftrightarrow>
      \<bar>sq_file t - sq_file s\<bar> = 1 \<and> sq_rank t - sq_rank s = (if c = WHITE then 1 else -1))"
  using knight_attacks_spec [OF assms] king_attacks_spec [OF assms] pawn_attacks_spec [OF assms] by blast

theorem leaper_tables_are_geometric_witness:
  "bit (knight_attacks 6) 21 \<and> \<not> bit (knight_attacks 6) 16 \<and> \<not> bit (pawn_attacks 8 WHITE) 15"
  using leaper_tables_are_geometric [of 6 21 WHITE] leaper_tables_are_geometric [of 6 16 WHITE]
    leaper_tables_are_geometric [of 8 15 WHITE]
  by (simp add: on_board_def sq_file_mod sq_rank_div)

text \<open>\<open>intervening\<close> is the set of squares strictly between two squares of a common
  line, and \<open>full_ray\<close> is the whole line through them.\<close>

theorem intervening_and_full_ray_geometric:
  assumes "on_board s" "on_board t" "on_board u"
  shows "(bit (intervening s t) (nat u) \<longleftrightarrow> strictly_between s t u) \<and>
    (bit (full_ray s t) (nat u) \<longleftrightarrow> s \<noteq> t \<and>
      (sq_file s = sq_file t \<and> sq_file u = sq_file s \<or> sq_rank s = sq_rank t \<and> sq_rank u = sq_rank s \<or>
       diag_plus s t \<and> diag_plus s u \<or> diag_minus s t \<and> diag_minus s u))"
  using intervening_spec [OF assms] full_ray_spec [OF assms] by blast

theorem intervening_and_full_ray_geometric_witness: "bit (intervening 0 24) 16 \<and> bit (full_ray 0 24) 56"
  using intervening_and_full_ray_geometric [of 0 24 16] intervening_and_full_ray_geometric [of 0 24 56]
    sample_between(1)
  by (simp add: on_board_def sq_file_mod)

end
