(* ===== verification/Move_Gen_Correct.thy ===== *)
theory Move_Gen_Correct
  imports Move_Gen Make_Move_Correct Sliders
begin

text \<open>
  Move generation is correct.  \<open>chess_move\<close> writes down, square by square and without bitboards, the
  pseudo-legal moves of chess; the generators produce exactly those, every generated move fits the
  position in the sense of \<open>move_ok\<close>, and the filter loop of \<open>legal_move_list\<close> keeps exactly the
  moves the legality test accepts.
\<close>

section \<open>Shifts and masks, square by square\<close>

lemma pawn_shift_back [simp]: "pawn_shift (pawn_shift s c n) (opp c) n = s"
  "pawn_shift (pawn_shift s (opp c) n) c n = s"
  by (cases c; simp add: pawn_shift_def)+

lemma pawn_shift_inverse: "f = pawn_shift t (opp c) n \<longleftrightarrow> t = pawn_shift f c n"
  by (cases c) (auto simp: pawn_shift_def)

lemma pawn_shift_twice: "pawn_shift (pawn_shift s c 1) c 1 = pawn_shift s c 2"
  by (simp add: pawn_shift_def)

lemma bit_pawn_shift [bb_bits]:
  assumes "on_board t"
  shows "bit (pawn_shift_bb bb c 1) (nat t) \<longleftrightarrow>
    on_board (pawn_shift t (opp c) 1) \<and> bit bb (nat (pawn_shift t (opp c) 1))"
proof (cases c)
  case WHITE
  have "8 \<le> nat t \<longleftrightarrow> 8 \<le> t" "nat t - 8 = nat (t - 8)"
    using assms by (auto simp: on_board_def le_nat_iff nat_diff_distrib')
  moreover have "nat t < 64" "on_board (t - 8) \<longleftrightarrow> 8 \<le> t" using assms by (auto simp: on_board_def)
  ultimately show ?thesis using WHITE
    by (simp add: pawn_shift_bb_def pawn_shift_def bit_push_bit_iff)
next
  case BLACK
  have "8 + nat t = nat (t + 8)" using assms by (simp add: on_board_def nat_add_distrib)
  moreover have "bit bb (nat (t + 8)) \<Longrightarrow> on_board (t + 8)"
    using assms bit_word64_lt [of bb "nat (t + 8)"] by (auto simp: on_board_def)
  ultimately show ?thesis using BLACK
    by (auto simp: pawn_shift_bb_def pawn_shift_def bit_drop_bit_eq)
qed

lemma relative_rank_range: "on_board s \<Longrightarrow> 0 \<le> relative_rank (sq_rank s) c \<and> relative_rank (sq_rank s) c \<le> 7"
  using sq_rank_range [of s] by (simp add: relative_rank_def)

lemma bit_relative_rank_mask [bb_bits]:
  assumes "on_board s" "0 \<le> r" "r < 8"
  shows "bit (relative_rank_mask r c) (nat s) \<longleftrightarrow> relative_rank (sq_rank s) c = r"
  using assms bit_rank_mask [of r "nat s"] bit_rank_mask [of "7 - r" "nat s"] on_board_nat [OF assms(1)]
  by (auto simp: relative_rank_mask_def relative_rank_def sq_rank_div on_board_def)

lemma sq_rank_pawn_shift:
  "relative_rank (sq_rank (pawn_shift s c n)) c = relative_rank (sq_rank s) c + n"
  by (cases c) (simp_all add: relative_rank_def pawn_shift_def sq_rank_div)

lemma bit_piece_type_color: "bit (piece_type_color_bb p pt c) (nat s) \<longleftrightarrow> has p s pt c"
  by (simp add: piece_type_color_bb_def has_def bit_and_iff)

lemma bit_free: "bit (occupancy_bb p) (nat s) \<longleftrightarrow> \<not> free p s"
  by (simp add: free_def)

text \<open>The moves a scan-and-pop loop appends.\<close>

lemma mem_loop:
  "m \<in> set (concat (map f (bb_squares w))) \<longleftrightarrow> (\<exists>s. on_board s \<and> bit w (nat s) \<and> m \<in> set (f s))"
  "m \<in> set (map g (bb_squares w)) \<longleftrightarrow> (\<exists>s. on_board s \<and> bit w (nat s) \<and> m = g s)"
  by auto

lemmas gen_bits = mem_loop Let_def bit_and_iff bit_not_iff bit_pawn_shift bit_relative_rank_mask bit_piece_type_color
  bit_free on_board_nat

section \<open>The rules, square by square\<close>

definition enemy :: "position \<Rightarrow> int \<Rightarrow> color \<Rightarrow> bool" where
  "enemy p t c \<longleftrightarrow> bit (pos_color_bb p (opp c)) (nat t)"

definition pawn_sees :: "int \<Rightarrow> color \<Rightarrow> int \<Rightarrow> bool" where
  "pawn_sees f c t \<longleftrightarrow>
     \<bar>sq_file t - sq_file f\<bar> = 1 \<and> sq_rank t - sq_rank f = (if c = WHITE then 1 else -1)"

text \<open>What a knight, bishop, rook, queen or king on \<open>f\<close> can reach among the occupied squares \<open>occ\<close>.\<close>

definition sees :: "piece_type \<Rightarrow> bitboard \<Rightarrow> int \<Rightarrow> int \<Rightarrow> bool" where
  "sees pt occ f t \<longleftrightarrow>
     (case pt of
        KNIGHT \<Rightarrow> \<bar>sq_file t - sq_file f\<bar> = 1 \<and> \<bar>sq_rank t - sq_rank f\<bar> = 2
          \<or> \<bar>sq_file t - sq_file f\<bar> = 2 \<and> \<bar>sq_rank t - sq_rank f\<bar> = 1
      | KING \<Rightarrow> t \<noteq> f \<and> \<bar>sq_file t - sq_file f\<bar> \<le> 1 \<and> \<bar>sq_rank t - sq_rank f\<bar> \<le> 1
      | ROOK \<Rightarrow> t \<noteq> f \<and> rook_line f t \<and> unblocked f t occ
      | BISHOP \<Rightarrow> t \<noteq> f \<and> bishop_line f t \<and> unblocked f t occ
      | QUEEN \<Rightarrow> t \<noteq> f \<and> queen_line f t \<and> unblocked f t occ
      | PAWN \<Rightarrow> False)"

lemma bit_sees:
  assumes "on_board f" "on_board t"
  shows "bit (non_pawn_piece_type_attacks pt f occ) (nat t) \<longleftrightarrow> sees pt occ f t"
  using assms by (cases pt) (simp_all add: non_pawn_piece_type_attacks_def sees_def knight_attacks_spec
      king_attacks_spec rook_slider.sees bishop_slider.sees queen_slider.sees)

lemma sees_ne: "sees pt occ f t \<Longrightarrow> t \<noteq> f"
  by (cases pt) (auto simp: sees_def)

lemma bit_pawn_sees:
  assumes "on_board f" "on_board t"
  shows "bit (pawn_attacks f c) (nat t) \<longleftrightarrow> pawn_sees f c t"
  using pawn_attacks_spec [OF assms] by (simp add: pawn_sees_def)

lemma pawn_sees_back: "pawn_sees f (opp c) t \<longleftrightarrow> pawn_sees t c f"
  by (cases c) (auto simp: pawn_sees_def)

lemma pawn_sees_ne: "pawn_sees f c t \<Longrightarrow> t \<noteq> f"
  by (auto simp: pawn_sees_def)

definition promotion_types :: "piece_type list" where
  "promotion_types = [QUEEN, KNIGHT, ROOK, BISHOP]"

definition piece_move :: "position \<Rightarrow> color \<Rightarrow> move \<Rightarrow> bool" where
  "piece_move p c m \<longleftrightarrow> (\<exists>pt f t. on_board f \<and> on_board t \<and> has p f pt c \<and> sees pt (occupancy_bb p) f t \<and>
     (free p t \<and> m = mk_move f t NORMAL \<or> enemy p t c \<and> m = mk_move f t CAPTURE))"

definition pawn_push :: "position \<Rightarrow> color \<Rightarrow> move \<Rightarrow> bool" where
  "pawn_push p c m \<longleftrightarrow> (\<exists>f t. on_board f \<and> on_board t \<and> has p f PAWN c \<and> free p t \<and>
     (t = pawn_shift f c 1 \<and>
        (if relative_rank (sq_rank f) c = 6
         then \<exists>pt\<in>set promotion_types. m = mk_move_promo f t pt PROMOTION
         else m = mk_move f t NORMAL) \<or>
      t = pawn_shift f c 2 \<and> relative_rank (sq_rank f) c = 1 \<and> free p (pawn_shift f c 1) \<and>
        m = mk_move f t DOUBLE_PUSH))"

definition pawn_capture :: "position \<Rightarrow> color \<Rightarrow> move \<Rightarrow> bool" where
  "pawn_capture p c m \<longleftrightarrow> (\<exists>f t. on_board f \<and> on_board t \<and> has p f PAWN c \<and> pawn_sees f c t \<and>
     (enemy p t c \<and>
        (if relative_rank (sq_rank f) c = 6
         then \<exists>pt\<in>set promotion_types. m = mk_move_promo f t pt CAPTURE_PROMOTION
         else m = mk_move f t CAPTURE) \<or>
      enpassant_square p = Some t \<and> m = mk_move f t ENPASSANT))"

definition attacked :: "position \<Rightarrow> int \<Rightarrow> color \<Rightarrow> bool" where
  "attacked p s c \<longleftrightarrow> attackers_to_of p s c \<noteq> 0"

definition castle_move :: "position \<Rightarrow> color \<Rightarrow> move \<Rightarrow> bool" where
  "castle_move p c m \<longleftrightarrow>
     (\<exists>(right, king, mid, dest, between) \<in>
        (if c = WHITE then {(WHITE_KINGSIDE, E1, F1, G1, [F1, G1]), (WHITE_QUEENSIDE, E1, D1, C1, [D1, C1, B1])}
         else {(BLACK_KINGSIDE, E8, F8, G8, [F8, G8]), (BLACK_QUEENSIDE, E8, D8, C8, [D8, C8, B8])}).
       cr_is_allowed right (castling_rights p) \<and> list_all (free p) between \<and>
       \<not> attacked p king (opp c) \<and> \<not> attacked p mid (opp c) \<and> \<not> attacked p dest (opp c) \<and>
       m = mk_move king dest CASTLING)"

definition chess_move :: "position \<Rightarrow> color \<Rightarrow> move \<Rightarrow> bool" where
  "chess_move p c m \<longleftrightarrow> piece_move p c m \<or> pawn_push p c m \<or> pawn_capture p c m \<or> castle_move p c m"

section \<open>The generators produce the rules' moves\<close>

lemma mem_non_pawn_quiets: "m \<in> set (generate_non_pawn_quiets pt p c) \<longleftrightarrow>
  (\<exists>f t. on_board f \<and> on_board t \<and> has p f pt c \<and> sees pt (occupancy_bb p) f t \<and> free p t
    \<and> m = mk_move f t NORMAL)"
  by (simp add: generate_non_pawn_quiets_def gen_bits bit_sees del: set_concat set_map cong: conj_cong) blast

lemma mem_non_pawn_captures: "m \<in> set (generate_non_pawn_captures pt p c) \<longleftrightarrow>
  (\<exists>f t. on_board f \<and> on_board t \<and> has p f pt c \<and> sees pt (occupancy_bb p) f t \<and> enemy p t c
    \<and> m = mk_move f t CAPTURE)"
  by (simp add: generate_non_pawn_captures_def gen_bits bit_sees enemy_def del: set_concat set_map cong: conj_cong) blast

lemma sees_pawn [simp]: "\<not> sees PAWN occ f t"
  by (simp add: sees_def)

lemma piece_moves_all:
  "(\<exists>pt. sees pt occ f t \<and> P pt) \<longleftrightarrow> (\<exists>pt\<in>set [KNIGHT, BISHOP, ROOK, QUEEN, KING]. sees pt occ f t \<and> P pt)"
  by (simp add: ex_piece_type)

lemma mem_piece_moves: "piece_move p c m \<longleftrightarrow>
  (\<exists>pt\<in>set [KNIGHT, BISHOP, ROOK, QUEEN, KING].
     m \<in> set (generate_non_pawn_quiets pt p c) \<or> m \<in> set (generate_non_pawn_captures pt p c))"
proof -
  have "piece_move p c m \<longleftrightarrow> (\<exists>f t. on_board f \<and> on_board t \<and> (\<exists>pt. sees pt (occupancy_bb p) f t \<and> has p f pt c \<and>
     (free p t \<and> m = mk_move f t NORMAL \<or> enemy p t c \<and> m = mk_move f t CAPTURE)))"
    unfolding piece_move_def by blast
  then show ?thesis unfolding piece_moves_all mem_non_pawn_quiets mem_non_pawn_captures by blast
qed

lemma mem_promotions: "m \<in> set (promotions f t ty) \<longleftrightarrow> (\<exists>pt\<in>set promotion_types. m = mk_move_promo f t pt ty)"
  by (auto simp: promotions_def promotion_types_def)

lemma mem_evasion_promotions: "set (evasion_promotions f t ty) = set (promotions f t ty)"
  by (auto simp: evasion_promotions_def promotions_def)

lemma pawn_shift_off: "on_board f \<Longrightarrow> on_board (pawn_shift f c 1) \<or> relative_rank (sq_rank f) c = 7"
  by (cases c) (auto simp: on_board_def pawn_shift_def relative_rank_def sq_rank_div)

text \<open>A loop over shifted targets is a quantifier over origins.\<close>

lemma ex_target:
  "(\<exists>t. on_board t \<and> (on_board (pawn_shift t (opp c) n) \<and> P (pawn_shift t (opp c) n)) \<and> Q t) \<longleftrightarrow>
    (\<exists>f t. on_board f \<and> on_board t \<and> t = pawn_shift f c n \<and> P f \<and> Q t)"
  by (metis pawn_shift_back(1) pawn_shift_back(2))

lemma mem_quiet_promotions: "m \<in> set (generate_quiet_promotions p c) \<longleftrightarrow>
  (\<exists>f t. on_board f \<and> on_board t \<and> t = pawn_shift f c 1 \<and> has p f PAWN c \<and> relative_rank (sq_rank f) c = 6
    \<and> free p t \<and> (\<exists>pt\<in>set promotion_types. m = mk_move_promo f t pt PROMOTION))"
proof -
  have "m \<in> set (generate_quiet_promotions p c) \<longleftrightarrow> (\<exists>t. on_board t \<and>
      (on_board (pawn_shift t (opp c) 1) \<and> has p (pawn_shift t (opp c) 1) PAWN c
        \<and> relative_rank (sq_rank (pawn_shift t (opp c) 1)) c = 6) \<and> free p t
      \<and> m \<in> set (promotions (pawn_shift t (opp c) 1) t PROMOTION))"
    by (simp add: generate_quiet_promotions_def gen_bits del: set_concat set_map cong: conj_cong)
  also have "\<dots> \<longleftrightarrow> (\<exists>f t. on_board f \<and> on_board t \<and> t = pawn_shift f c 1 \<and> has p f PAWN c
      \<and> relative_rank (sq_rank f) c = 6 \<and> free p t \<and> m \<in> set (promotions f t PROMOTION))"
    by (metis pawn_shift_back(1) pawn_shift_back(2))
  finally show ?thesis unfolding mem_promotions .
qed

lemma mem_capture_promotions: "m \<in> set (generate_capture_promotions p c) \<longleftrightarrow>
  (\<exists>f t. on_board f \<and> on_board t \<and> has p f PAWN c \<and> relative_rank (sq_rank f) c = 6 \<and> pawn_sees f c t
    \<and> enemy p t c \<and> (\<exists>pt\<in>set promotion_types. m = mk_move_promo f t pt CAPTURE_PROMOTION))"
  by (simp add: generate_capture_promotions_def gen_bits bit_pawn_sees enemy_def has_def mem_promotions
      del: set_concat set_map cong: conj_cong) blast

lemma mem_pawn_quiets: "m \<in> set (generate_pawn_quiets p c) \<longleftrightarrow> pawn_push p c m"
proof -
  have single: "(\<exists>t. on_board t \<and> (on_board (pawn_shift t (opp c) 1) \<and> has p (pawn_shift t (opp c) 1) PAWN c
        \<and> relative_rank (sq_rank (pawn_shift t (opp c) 1)) c \<noteq> 6) \<and> free p t
        \<and> m = mk_move (pawn_shift t (opp c) 1) t NORMAL) \<longleftrightarrow>
      (\<exists>f t. on_board f \<and> on_board t \<and> t = pawn_shift f c 1 \<and> has p f PAWN c
        \<and> relative_rank (sq_rank f) c \<noteq> 6 \<and> free p t \<and> m = mk_move f t NORMAL)"
    by (metis pawn_shift_back(1) pawn_shift_back(2))
  have double: "(\<exists>t. on_board t \<and> (on_board (pawn_shift t (opp c) 1) \<and>
        ((on_board (pawn_shift (pawn_shift t (opp c) 1) (opp c) 1)
           \<and> has p (pawn_shift (pawn_shift t (opp c) 1) (opp c) 1) PAWN c
           \<and> relative_rank (sq_rank (pawn_shift (pawn_shift t (opp c) 1) (opp c) 1)) c \<noteq> 6)
         \<and> free p (pawn_shift t (opp c) 1)) \<and> relative_rank (sq_rank (pawn_shift t (opp c) 1)) c = 2)
        \<and> free p t \<and> m = mk_move (pawn_shift t (opp c) 2) t DOUBLE_PUSH) \<longleftrightarrow>
      (\<exists>f t. on_board f \<and> on_board t \<and> t = pawn_shift f c 2 \<and> has p f PAWN c
        \<and> relative_rank (sq_rank f) c = 1 \<and> free p (pawn_shift f c 1) \<and> free p t \<and> m = mk_move f t DOUBLE_PUSH)"
    (is "?L \<longleftrightarrow> ?R")
  proof
    assume ?L
    then obtain t where t: "on_board t" "on_board (pawn_shift (pawn_shift t (opp c) 1) (opp c) 1)"
      "has p (pawn_shift (pawn_shift t (opp c) 1) (opp c) 1) PAWN c" "free p (pawn_shift t (opp c) 1)"
      "relative_rank (sq_rank (pawn_shift t (opp c) 1)) c = 2" "free p t"
      "m = mk_move (pawn_shift t (opp c) 2) t DOUBLE_PUSH" by blast
    define f where "f = pawn_shift t (opp c) 2"
    have f: "pawn_shift (pawn_shift t (opp c) 1) (opp c) 1 = f" "t = pawn_shift f c 2"
      "pawn_shift t (opp c) 1 = pawn_shift f c 1"
      by (simp_all add: f_def pawn_shift_twice) (cases c; simp add: pawn_shift_def)
    then have "relative_rank (sq_rank f) c = 1"
      using t(5) sq_rank_pawn_shift [of f c 1] by simp
    then show ?R using t f unfolding f_def [symmetric] by metis
  next
    assume ?R
    then obtain f t where f: "on_board f" "on_board t" "t = pawn_shift f c 2" "has p f PAWN c"
      "relative_rank (sq_rank f) c = 1" "free p (pawn_shift f c 1)" "free p t" "m = mk_move f t DOUBLE_PUSH"
      by blast
    have s: "pawn_shift t (opp c) 1 = pawn_shift f c 1" "on_board (pawn_shift f c 1)"
      using f(1,2,3) by (cases c; simp add: pawn_shift_def on_board_def)+
    have "relative_rank (sq_rank (pawn_shift f c 1)) c = 2" using f(5) sq_rank_pawn_shift [of f c 1] by simp
    then show ?L using f s by (intro exI [of _ t]) simp
  qed
  have "m \<in> set (generate_pawn_quiets p c) \<longleftrightarrow> m \<in> set (generate_quiet_promotions p c) \<or>
      (\<exists>t. on_board t \<and> (on_board (pawn_shift t (opp c) 1) \<and>
        ((on_board (pawn_shift (pawn_shift t (opp c) 1) (opp c) 1)
           \<and> has p (pawn_shift (pawn_shift t (opp c) 1) (opp c) 1) PAWN c
           \<and> relative_rank (sq_rank (pawn_shift (pawn_shift t (opp c) 1) (opp c) 1)) c \<noteq> 6)
         \<and> free p (pawn_shift t (opp c) 1)) \<and> relative_rank (sq_rank (pawn_shift t (opp c) 1)) c = 2)
        \<and> free p t \<and> m = mk_move (pawn_shift t (opp c) 2) t DOUBLE_PUSH) \<or>
      (\<exists>t. on_board t \<and> (on_board (pawn_shift t (opp c) 1) \<and> has p (pawn_shift t (opp c) 1) PAWN c
        \<and> relative_rank (sq_rank (pawn_shift t (opp c) 1)) c \<noteq> 6) \<and> free p t
        \<and> m = mk_move (pawn_shift t (opp c) 1) t NORMAL)"
    by (simp add: generate_pawn_quiets_def gen_bits del: set_concat set_map cong: conj_cong)
  then show ?thesis unfolding single double mem_quiet_promotions pawn_push_def if_bool_eq_disj
    by blast
qed

definition ep_on_board :: "position \<Rightarrow> bool" where
  "ep_on_board p \<longleftrightarrow> (\<forall>s. enpassant_square p = Some s \<longrightarrow> on_board s)"

lemma mem_pawn_captures:
  assumes ep: "ep_on_board p"
  shows "m \<in> set (generate_pawn_captures p c) \<longleftrightarrow> pawn_capture p c m"
proof -
  have ep_moves: "m \<in> set (case enpassant_square p of None \<Rightarrow> [] | Some ep_sq \<Rightarrow>
      map (\<lambda>sq. mk_move sq ep_sq ENPASSANT)
        (bb_squares (pos_piece_bb p PAWN AND pos_color_bb p c AND pawn_attacks ep_sq (opp c)))) \<longleftrightarrow>
    (\<exists>f t. on_board f \<and> on_board t \<and> has p f PAWN c \<and> pawn_sees f c t \<and> enpassant_square p = Some t
      \<and> m = mk_move f t ENPASSANT)"
  proof (cases "enpassant_square p")
    case (Some s)
    then have "on_board s" using ep by (simp add: ep_on_board_def)
    then show ?thesis using Some
      by (simp add: mem_loop bit_and_iff bit_pawn_sees pawn_sees_back has_def del: set_map cong: conj_cong)
  qed simp
  have cap: "m \<in> set (concat (map (\<lambda>from_sq. map (\<lambda>to_sq. mk_move from_sq to_sq CAPTURE)
        (bb_squares (pawn_attacks from_sq c AND pos_color_bb p (opp c))))
        (bb_squares (pos_piece_bb p PAWN AND (pos_color_bb p c AND NOT (relative_rank_mask 6 c)))))) \<longleftrightarrow>
    (\<exists>f t. on_board f \<and> on_board t \<and> has p f PAWN c \<and> relative_rank (sq_rank f) c \<noteq> 6 \<and> pawn_sees f c t
      \<and> enemy p t c \<and> m = mk_move f t CAPTURE)"
    by (simp add: gen_bits bit_pawn_sees enemy_def has_def del: set_concat set_map cong: conj_cong) blast
  have "m \<in> set (generate_pawn_captures p c) \<longleftrightarrow> m \<in> set (generate_capture_promotions p c) \<or>
      (\<exists>f t. on_board f \<and> on_board t \<and> has p f PAWN c \<and> pawn_sees f c t \<and> enpassant_square p = Some t
        \<and> m = mk_move f t ENPASSANT) \<or>
      (\<exists>f t. on_board f \<and> on_board t \<and> has p f PAWN c \<and> relative_rank (sq_rank f) c \<noteq> 6 \<and> pawn_sees f c t
      \<and> enemy p t c \<and> m = mk_move f t CAPTURE)"
    unfolding generate_pawn_captures_def Let_def set_append Un_iff ep_moves cap ..
  then show ?thesis unfolding mem_capture_promotions pawn_capture_def if_bool_eq_disj by blast
qed

lemma mem_castling: "m \<in> set (generate_castling p c) \<longleftrightarrow> castle_move p c m"
proof -
  have right: "r AND castling_rights p \<noteq> 0 \<longleftrightarrow> cr_is_allowed r (castling_rights p)" for r
    by (simp add: cr_is_allowed_def and.commute)
  have mask: "(square_bb a OR w) AND occupancy_bb p = 0 \<longleftrightarrow>
      \<not> bit (occupancy_bb p) (nat a) \<and> w AND occupancy_bb p = 0" if "on_board a" for a w
    using that by (simp add: bit.conj_disj_distrib2 or_eq_0_iff)
  show ?thesis
    by (cases c) (auto simp: generate_castling_def castle_move_def castling_possibilities_def Let_def
      castling_intermediate_sqs_def castling_king_sqs_def castle_mask_def right mask attacked_def on_board_def
      free_def)
qed

text \<open>The pseudo-legal list out of check is the set of the rules' moves.\<close>

lemma mem_pseudo_legal_of:
  assumes "ep_on_board p"
  shows "m \<in> set (pseudo_legal_move_list_of p c) \<longleftrightarrow> chess_move p c m"
proof -
  have "m \<in> set (pseudo_legal_move_list_of p c) \<longleftrightarrow> pawn_capture p c m \<or> pawn_push p c m \<or> castle_move p c m \<or>
      (\<exists>pt\<in>set [KNIGHT, BISHOP, ROOK, QUEEN, KING].
         m \<in> set (generate_non_pawn_quiets pt p c) \<or> m \<in> set (generate_non_pawn_captures pt p c))"
    unfolding pseudo_legal_move_list_of_def generate_capture_moves_def generate_quiet_moves_def
      set_append Un_iff mem_pawn_captures [OF assms] mem_pawn_quiets mem_castling
    by auto
  then show ?thesis unfolding chess_move_def mem_piece_moves by blast
qed

section \<open>Attackers\<close>

lemma sees_sym: "sees pt occ s t = sees pt occ t s"
  by (cases pt) (auto simp: sees_def rook_line_def bishop_line_def queen_line_def line_sym unblocked_def
      strictly_between_sym [of s t])

text \<open>\<open>hits p occ u c s\<close>: the piece of colour \<open>c\<close> on \<open>u\<close> attacks \<open>s\<close> when \<open>occ\<close> is occupied.\<close>

definition hits :: "position \<Rightarrow> bitboard \<Rightarrow> int \<Rightarrow> color \<Rightarrow> int \<Rightarrow> bool" where
  "hits p occ u c s \<longleftrightarrow> has p u PAWN c \<and> pawn_sees u c s \<or> (\<exists>pt. has p u pt c \<and> sees pt occ u s)"

lemma bit_attackers_to_occ:
  assumes "on_board s" "on_board u"
  shows "bit (attackers_to_occ p s occ) (nat u) \<longleftrightarrow>
    (\<exists>c. has p u PAWN c \<and> pawn_sees u c s) \<or> (\<exists>pt. bit (pos_piece_bb p pt) (nat u) \<and> sees pt occ u s)"
proof -
  have "bit (attackers_to_occ p s occ) (nat u) \<longleftrightarrow>
      (pawn_sees u BLACK s \<and> has p u PAWN BLACK \<or> pawn_sees u WHITE s \<and> has p u PAWN WHITE) \<or>
      (\<exists>pt\<in>set [KNIGHT, BISHOP, ROOK, QUEEN, KING]. sees pt occ u s \<and> bit (pos_piece_bb p pt) (nat u))"
    using assms pawn_sees_back [of s WHITE u] pawn_sees_back [of s BLACK u]
    by (simp add: attackers_to_occ_def bit_or_iff bit_and_iff bit_sees bit_pawn_sees bit_piece_type_color
        sees_sym [of _ _ s u])
  then show ?thesis unfolding ex_color ex_piece_type by auto
qed

lemma bit_attackers_to_occ_of:
  assumes "on_board s" "on_board u" "board_ok p"
  shows "bit (attackers_to_occ_of p s occ c) (nat u) \<longleftrightarrow> hits p occ u c s"
  using bit_attackers_to_occ [OF assms(1,2), of p occ] board_ok_color [OF assms(3), of _ "nat u"]
  by (auto simp: attackers_to_occ_of_def bit_and_iff hits_def has_def)

lemma bit_attackers_to_of:
  assumes "on_board s" "on_board u" "board_ok p"
  shows "bit (attackers_to_of p s c) (nat u) \<longleftrightarrow> hits p (occupancy_bb p) u c s"
  using bit_attackers_to_occ_of [OF assms] by (simp add: attackers_to_of_def attackers_to_occ_of_def)

lemma word64_nonzero_square: "(w :: bitboard) \<noteq> 0 \<longleftrightarrow> (\<exists>u. on_board u \<and> bit w (nat u))"
proof -
  have "(\<exists>n<64. bit w n) \<longleftrightarrow> (\<exists>u. on_board u \<and> bit w (nat u))"
    by (metis bit_word64_lt nat_int on_board_def of_nat_0_le_iff of_nat_less_iff of_nat_numeral)
  then show ?thesis using word64_nonzero_iff [of w] bit_word64_lt [of w] by blast
qed

lemma attacked_iff:
  assumes "board_ok p" "on_board s"
  shows "attacked p s c \<longleftrightarrow> (\<exists>u. on_board u \<and> hits p (occupancy_bb p) u c s)"
  unfolding attacked_def word64_nonzero_square using bit_attackers_to_of [OF assms(2) _ assms(1)] by blast

section \<open>The generated moves fit the position\<close>

text \<open>The castling rights that are still recorded belong to kings and rooks on their home squares.\<close>

definition rights_ok :: "position \<Rightarrow> bool" where
  "rights_ok p \<longleftrightarrow>
     (cr_is_allowed WHITE_KINGSIDE (castling_rights p) \<longrightarrow> has p E1 KING WHITE \<and> has p H1 ROOK WHITE) \<and>
     (cr_is_allowed WHITE_QUEENSIDE (castling_rights p) \<longrightarrow> has p E1 KING WHITE \<and> has p A1 ROOK WHITE) \<and>
     (cr_is_allowed BLACK_KINGSIDE (castling_rights p) \<longrightarrow> has p E8 KING BLACK \<and> has p H8 ROOK BLACK) \<and>
     (cr_is_allowed BLACK_QUEENSIDE (castling_rights p) \<longrightarrow> has p E8 KING BLACK \<and> has p A8 ROOK BLACK)"

text \<open>A recorded en passant square is empty and the pawn that skipped it stands behind it.\<close>

definition ep_ok :: "position \<Rightarrow> bool" where
  "ep_ok p \<longleftrightarrow> (\<forall>s. enpassant_square p = Some s \<longrightarrow>
     on_board s \<and> free p s \<and> on_board (ep_victim (pos_side_to_move p) s) \<and>
     has p (ep_victim (pos_side_to_move p) s) PAWN (opp (pos_side_to_move p)))"

lemma ep_ok_on_board: "ep_ok p \<Longrightarrow> ep_on_board p"
  by (simp add: ep_ok_def ep_on_board_def)

text \<open>\<open>move_ok\<close>, and a double push crosses an empty square, and castling starts at the king's home.\<close>

definition move_fits :: "position \<Rightarrow> move \<Rightarrow> bool" where
  "move_fits p m \<longleftrightarrow> move_ok p m \<and> (move_type_of p m = DOUBLE_PUSH \<longrightarrow>
     to_square m = pawn_shift (from_square m) (pos_side_to_move p) 2 \<and>
     on_board (pawn_shift (from_square m) (pos_side_to_move p) 1) \<and>
     free p (pawn_shift (from_square m) (pos_side_to_move p) 1)) \<and>
     (move_type_of p m = CASTLING \<longrightarrow>
       from_square m = (if to_square m = C1 \<or> to_square m = G1 then E1 else E8))"

lemma enemy_has: "board_ok p \<Longrightarrow> enemy p t c \<longleftrightarrow> (\<exists>pt. has p t pt (opp c))"
  using board_ok_both [of p "nat t"] by (auto simp: enemy_def has_def)

lemma promotion_types_proper: "pt \<in> set promotion_types \<Longrightarrow> pt \<noteq> PAWN \<and> pt \<noteq> KING"
  by (auto simp: promotion_types_def)

lemma move_type_of_typed: "move_type m \<noteq> NONE \<Longrightarrow> move_type_of p m = move_type m"
  by (simp add: move_type_of_def)

lemma piece_move_fits:
  assumes "board_ok p" "piece_move p (pos_side_to_move p) m"
  shows "move_fits p m"
  using assms by (auto simp: piece_move_def move_fits_def move_ok_def move_fields move_type_of_typed Let_def
      enemy_has dest: sees_ne)

lemma pawn_push_fits:
  assumes "board_ok p" "pawn_push p (pos_side_to_move p) m"
  shows "move_fits p m"
proof -
  let ?c = "pos_side_to_move p"
  obtain f t where ft: "on_board f" "on_board t" "has p f PAWN ?c" "free p t"
    "t = pawn_shift f ?c 1 \<and> (m = mk_move f t NORMAL \<or>
        (\<exists>pt\<in>set promotion_types. m = mk_move_promo f t pt PROMOTION)) \<or>
      t = pawn_shift f ?c 2 \<and> free p (pawn_shift f ?c 1) \<and> m = mk_move f t DOUBLE_PUSH"
    using assms(2) unfolding pawn_push_def by (auto split: if_splits)
  have "f \<noteq> t" using ft(5) by (auto simp: pawn_shift_def split: if_splits)
  moreover have "on_board (pawn_shift f ?c 1)" if "t = pawn_shift f ?c 2"
    using that ft(1,2) by (auto simp: pawn_shift_def on_board_def split: if_splits)
  ultimately show ?thesis using ft
    by (auto simp: move_fits_def move_ok_def move_fields move_type_of_typed Let_def dest: promotion_types_proper)
qed

lemma pawn_capture_fits:
  assumes "board_ok p" "ep_ok p" "pawn_capture p (pos_side_to_move p) m"
  shows "move_fits p m"
proof -
  obtain f t where ft: "on_board f" "on_board t" "has p f PAWN (pos_side_to_move p)" "pawn_sees f (pos_side_to_move p) t"
    "enemy p t (pos_side_to_move p) \<and> (m = mk_move f t CAPTURE \<or>
        (\<exists>pt\<in>set promotion_types. m = mk_move_promo f t pt CAPTURE_PROMOTION)) \<or>
      enpassant_square p = Some t \<and> m = mk_move f t ENPASSANT"
    using assms(3) unfolding pawn_capture_def by (auto split: if_splits)
  have "f \<noteq> t" using pawn_sees_ne [OF ft(4)] by blast
  with ft assms(1,2) show ?thesis
    by (auto simp: move_fits_def move_ok_def move_fields move_type_of_typed Let_def enemy_has ep_ok_def
        dest: promotion_types_proper)
qed

lemma castle_move_cases:
  assumes "castle_move p c m"
  obtains "c = WHITE" "m = mk_move E1 G1 CASTLING" "cr_is_allowed WHITE_KINGSIDE (castling_rights p)" "free p F1" "free p G1"
  | "c = WHITE" "m = mk_move E1 C1 CASTLING" "cr_is_allowed WHITE_QUEENSIDE (castling_rights p)" "free p D1" "free p C1"
  | "c = BLACK" "m = mk_move E8 G8 CASTLING" "cr_is_allowed BLACK_KINGSIDE (castling_rights p)" "free p F8" "free p G8"
  | "c = BLACK" "m = mk_move E8 C8 CASTLING" "cr_is_allowed BLACK_QUEENSIDE (castling_rights p)" "free p D8" "free p C8"
  using assms by (cases c) (auto simp: castle_move_def)

lemma castle_move_fits:
  assumes "rights_ok p" "castle_move p (pos_side_to_move p) m"
  shows "move_fits p m"
proof -
  have f: "from_square (mk_move a b CASTLING) = a" "to_square (mk_move a b CASTLING) = b"
    "move_type_of p (mk_move a b CASTLING) = CASTLING" if "on_board a" "on_board b" for a b
    using mk_move_fields [OF that, of CASTLING] by (simp_all add: move_type_of_typed)
  note f4 = f [of E1 G1] f [of E1 C1] f [of E8 G8] f [of E8 C8]
  note ready = castle_ready_def move_fits_def move_ok_def Let_def
  from assms(2) show ?thesis
  proof (cases rule: castle_move_cases)
    case 1
    then show ?thesis using assms(1) f4 by (simp add: ready rights_ok_def on_board_def)
  next
    case 2
    then show ?thesis using assms(1) f4 by (simp add: ready rights_ok_def on_board_def)
  next
    case 3
    then show ?thesis using assms(1) f4 by (simp add: ready rights_ok_def on_board_def)
  next
    case 4
    then show ?thesis using assms(1) f4 by (simp add: ready rights_ok_def on_board_def)
  qed
qed

lemma chess_move_fits:
  assumes "board_ok p" "rights_ok p" "ep_ok p" "chess_move p (pos_side_to_move p) m"
  shows "move_fits p m"
  using assms piece_move_fits pawn_push_fits pawn_capture_fits castle_move_fits
  unfolding chess_move_def by blast

section \<open>The filter loop\<close>

lemma swap_remove:
  "ml_pop_back ((as @ x # bs)[length as := last (as @ x # bs)]) = as @ (if bs = [] then [] else last bs # butlast bs)"
  by (cases bs rule: rev_cases) (auto simp: ml_pop_back_def butlast_append)

lemma mset_swap_remove: "mset (if bs = [] then [] else last bs # butlast bs) = mset bs"
  by (cases bs rule: rev_cases) auto

lemma drop_moves_mset_aux:
  "length as = i \<Longrightarrow> mset (drop_moves bad i (as @ bs)) = mset as + filter_mset (\<lambda>m. \<not> bad m) (mset bs)"
proof (induction "length bs" arbitrary: as bs i rule: less_induct)
  case less
  show ?case
  proof (cases bs)
    case Nil
    then show ?thesis using less.prems by (simp add: drop_moves.simps [of bad i])
  next
    case (Cons x cs)
    let ?ds = "if cs = [] then [] else last cs # butlast cs"
    have len: "length ?ds < length bs" "length cs < length bs" using Cons by auto
    show ?thesis
    proof (cases "bad x")
      case True
      have "drop_moves bad i (as @ bs) = drop_moves bad i (as @ ?ds)"
        using less.prems Cons True swap_remove [of as x cs]
        by (subst drop_moves.simps) (simp add: nth_append)
      then show ?thesis
        using less.hyps [OF len(1) less.prems] mset_swap_remove [of cs] Cons True by simp
    next
      case False
      have "drop_moves bad i (as @ bs) = drop_moves bad (Suc i) ((as @ [x]) @ cs)"
        using less.prems Cons False by (subst drop_moves.simps) (simp add: nth_append)
      moreover have "mset (drop_moves bad (Suc i) ((as @ [x]) @ cs))
          = mset (as @ [x]) + filter_mset (\<lambda>m. \<not> bad m) (mset cs)"
        by (rule less.hyps [OF len(2)]) (use less.prems in simp)
      ultimately show ?thesis using Cons False by simp
    qed
  qed
qed

lemma drop_moves_mset: "mset (drop_moves bad 0 ml) = filter_mset (\<lambda>m. \<not> bad m) (mset ml)"
  using drop_moves_mset_aux [of "[]" 0 bad ml] by simp

text \<open>The test that the loop skips for most moves would have accepted them.\<close>

lemma legal_list_mset:
  "mset (legal_move_list_of p (pos_side_to_move p)) =
    filter_mset (is_legal_generated_move p) (mset (pseudo_legal_move_list p))"
proof -
  let ?c = "pos_side_to_move p" and ?pin = "pinned_pieces_of p (pos_side_to_move p)"
  have "\<not> ((?pin AND square_bb (from_square m) \<noteq> 0 \<or> from_square m = king_square p ?c
        \<or> move_type m = ENPASSANT) \<and> \<not> is_legal_generated_move_pinned p m ?pin)
      \<longleftrightarrow> is_legal_generated_move p m" for m
    by (auto simp: is_legal_generated_move_def is_legal_generated_move_pinned_def Let_def)
  moreover have "(if checkers_to p ?c \<noteq> 0 then check_evasion_move_list p ?c else pseudo_legal_move_list p)
      = pseudo_legal_move_list p"
    by (simp add: pseudo_legal_move_list_def in_check_def)
  ultimately show ?thesis unfolding legal_move_list_of_def Let_def drop_moves_mset by simp
qed

lemma set_legal_list:
  "set (legal_move_list_of p (pos_side_to_move p)) = {m \<in> set (pseudo_legal_move_list p). is_legal_generated_move p m}"
  using arg_cong [OF legal_list_mset [of p], of set_mset] by simp

end
