(* ===== verification/Evasions.thy ===== *)
theory Evasions
  imports Move_Gen_Correct
begin

text \<open>
  The check evasion generator produces only moves of the rules: king steps, captures of the one
  checker (promotions and en passant included) and interpositions on the squares between the checker
  and the king, which are empty because the checker sees through them.
\<close>

section \<open>The king and its checker\<close>

definition has_king :: "position \<Rightarrow> color \<Rightarrow> bool" where
  "has_king p c \<longleftrightarrow> piece_type_color_bb p KING c \<noteq> 0"

lemma king_square_has:
  assumes "has_king p c"
  shows "on_board (king_square p c)" "has p (king_square p c) KING c"
  using forward_bitscan_lowest(1,2) [of "piece_type_color_bb p KING c"] assms
  by (simp_all add: has_king_def king_square_def bit_piece_type_color)

lemma checker_hits:
  assumes "board_ok p" "has_king p c" "checkers_to p c \<noteq> 0"
  shows "on_board (forward_bitscan (checkers_to p c))"
    "hits p (occupancy_bb p) (forward_bitscan (checkers_to p c)) (opp c) (king_square p c)"
  using forward_bitscan_lowest(1,2) [OF assms(3)] bit_attackers_to_of [OF king_square_has(1) [OF assms(2)] _ assms(1)]
  unfolding checkers_to_def by blast+

lemma hits_has: "hits p occ u c s \<Longrightarrow> \<exists>pt. has p u pt c"
  by (auto simp: hits_def)

lemma hits_pawn:
  assumes "board_ok p" "has p u PAWN c"
  shows "hits p occ u c s \<longleftrightarrow> pawn_sees u c s"
proof -
  have "has p u pt' c \<longleftrightarrow> pt' = PAWN" for pt' using has_unique [OF assms] assms(2) by blast
  then show ?thesis by (simp add: hits_def)
qed

lemma hits_piece:
  assumes "board_ok p" "has p u pt c" "pt \<noteq> PAWN"
  shows "hits p occ u c s \<longleftrightarrow> sees pt occ u s"
proof -
  have "has p u pt' c \<longleftrightarrow> pt' = pt" for pt' using has_unique [OF assms(1,2)] assms(2) by blast
  then show ?thesis using assms(3) by (simp add: hits_def)
qed

lemma hits_cases:
  assumes "board_ok p" "hits p occ u c s"
  obtains "has p u PAWN c" "pawn_sees u c s"
  | pt where "has p u pt c" "pt \<noteq> PAWN" "sees pt occ u s"
  using assms(2) unfolding hits_def by (metis sees_pawn)

lemma leap_not_between:
  assumes "\<bar>sq_file t - sq_file s\<bar> \<le> 1 \<and> \<bar>sq_rank t - sq_rank s\<bar> \<le> 1 \<or>
    \<bar>sq_file t - sq_file s\<bar> = 1 \<and> \<bar>sq_rank t - sq_rank s\<bar> = 2 \<or>
    \<bar>sq_file t - sq_file s\<bar> = 2 \<and> \<bar>sq_rank t - sq_rank s\<bar> = 1"
  shows "\<not> strictly_between s t u"
  using assms unfolding strictly_between_def diag_plus_def diag_minus_def inside_def by arith

text \<open>The squares between an attacker and what it attacks are empty.\<close>

lemma hits_between_free:
  assumes "board_ok p" "hits p (occupancy_bb p) u c s" "strictly_between s u t" "on_board t"
  shows "free p t"
proof -
  have sb: "strictly_between u s t" using assms(3) strictly_between_sym by blast
  from assms(1,2) show ?thesis
  proof (cases rule: hits_cases)
    case 1
    then have "\<not> strictly_between u s t" by (intro leap_not_between) (auto simp: pawn_sees_def)
    then show ?thesis using sb by blast
  next
    case (2 pt)
    then show ?thesis
    proof (cases "unblocked u s (occupancy_bb p)")
      case True
      then show ?thesis using sb assms(4) by (simp add: unblocked_def free_def)
    next
      case False
      then have "\<not> strictly_between u s t"
        using 2(3) by (intro leap_not_between) (cases pt; auto simp: sees_def)
      then show ?thesis using sb by blast
    qed
  qed
qed

lemma forward_bitscan_on_board: "w \<noteq> 0 \<Longrightarrow> on_board (forward_bitscan w)"
  by (rule forward_bitscan_lowest(1))

section \<open>King steps\<close>

lemma king_step_sound:
  assumes "board_ok p" "has_king p c" "on_board s"
    and "bit (king_attacks (king_square p c) AND NOT (pos_color_bb p c)) (nat s)"
  shows "chess_move p c (mk_move (king_square p c) s
    (if square_bb s AND pos_color_bb p (opp c) \<noteq> 0 then CAPTURE else NORMAL))"
proof -
  note k = king_square_has [OF assms(2)]
  have sees: "sees KING (occupancy_bb p) (king_square p c) s" "\<not> bit (pos_color_bb p c) (nat s)"
    using assms(3,4) king_attacks_spec [OF k(1) assms(3)]
    by (auto simp: sees_def bit_and_iff bit_not_iff)
  have "square_bb s AND pos_color_bb p (opp c) \<noteq> 0 \<longleftrightarrow> enemy p s c"
    using assms(3) by (simp add: enemy_def)
  moreover have "free p s" if "\<not> enemy p s c"
    using that sees(2) unfolding free_def bit_occupancy enemy_def ex_color by (cases c) auto
  ultimately have "piece_move p c (mk_move (king_square p c) s
    (if square_bb s AND pos_color_bb p (opp c) \<noteq> 0 then CAPTURE else NORMAL))"
    unfolding piece_move_def using k assms(3) sees(1)
    by (intro exI [of _ KING] exI [of _ "king_square p c"] exI [of _ s]) simp
  then show ?thesis by (simp add: chess_move_def)
qed

section \<open>Capturing the checker\<close>

lemma checker_capture_sound:
  assumes "board_ok p" "ep_on_board p" "has_king p c" "checkers_to p c \<noteq> 0"
    and "m \<in> set (generate_checker_capture_moves p c)"
  shows "chess_move p c m"
proof -
  let ?s = "forward_bitscan (checkers_to p c)"
  note ch = checker_hits [OF assms(1,3,4)]
  have en: "enemy p ?s c" using hits_has [OF ch(2)] by (auto simp: enemy_def has_def)
  let ?pawns = "piece_type_color_bb p PAWN c"
  let ?att = "attackers_to_of p ?s c AND NOT (square_bb (king_square p c))"
  let ?r7 = "?pawns AND relative_rank_mask 6 c"
  note bits = mem_loop bit_and_iff bit_or_iff bit_not_iff bit_piece_type_color bit_relative_rank_mask
  from assms(5) consider
    (ep) t where "enpassant_square p = Some t"
      "m \<in> set (map (\<lambda>sq. mk_move sq t ENPASSANT) (bb_squares (?pawns AND pawn_attacks t (opp c))))"
    | (prom) "m \<in> set (concat (map (\<lambda>sq. evasion_promotions sq ?s CAPTURE_PROMOTION) (bb_squares (?att AND ?r7))))"
    | (cap) "m \<in> set (map (\<lambda>sq. mk_move sq ?s CAPTURE) (bb_squares (?att AND NOT ?r7)))"
    unfolding generate_checker_capture_moves_def Let_def set_append
    by (cases "enpassant_square p") (simp_all del: set_map set_concat split: if_splits, blast+)
  then show ?thesis
  proof cases
    case (ep t)
    then have t: "on_board t" using assms(2) by (simp add: ep_on_board_def)
    obtain sq where sq: "on_board sq" "has p sq PAWN c" "bit (pawn_attacks t (opp c)) (nat sq)"
      "m = mk_move sq t ENPASSANT" using ep(2) unfolding bits by blast
    then have "pawn_sees sq c t" using t by (simp add: bit_pawn_sees pawn_sees_back)
    then have "pawn_capture p c m" using ep sq t unfolding pawn_capture_def by blast
    then show ?thesis by (simp add: chess_move_def)
  next
    case prom
    then obtain sq where sq: "on_board sq" "bit (attackers_to_of p ?s c) (nat sq)" "has p sq PAWN c"
      "relative_rank (sq_rank sq) c = 6" "m \<in> set (evasion_promotions sq ?s CAPTURE_PROMOTION)"
      unfolding mem_loop by (auto simp: bits)
    then have "pawn_sees sq c ?s"
      using bit_attackers_to_of [OF ch(1) sq(1) assms(1)] hits_pawn [OF assms(1)] by blast
    moreover obtain pt where "pt \<in> set promotion_types" "m = mk_move_promo sq ?s pt CAPTURE_PROMOTION"
      using sq(5) unfolding mem_evasion_promotions mem_promotions by blast
    ultimately have "pawn_capture p c m" using sq ch(1) en unfolding pawn_capture_def by auto
    then show ?thesis by (simp add: chess_move_def)
  next
    case cap_list: cap
    then obtain sq where cap: "on_board sq" "bit (attackers_to_of p ?s c) (nat sq)"
      "\<not> (has p sq PAWN c \<and> relative_rank (sq_rank sq) c = 6)" "m = mk_move sq ?s CAPTURE"
      unfolding mem_loop by (auto simp: bits on_board_nat)
    have "hits p (occupancy_bb p) sq c ?s"
      using bit_attackers_to_of [OF ch(1) cap(1) assms(1)] cap(2) by blast
    with assms(1) show ?thesis
    proof (cases rule: hits_cases)
      case 1
      then have "pawn_capture p c m" using cap ch(1) en unfolding pawn_capture_def by auto
      then show ?thesis by (simp add: chess_move_def)
    next
      case (2 pt)
      then have "piece_move p c m" using cap ch(1) en unfolding piece_move_def by blast
      then show ?thesis by (simp add: chess_move_def)
    qed
  qed
qed

section \<open>Interposing\<close>

lemma checker_block_sound:
  assumes "board_ok p" "has_king p c" "checkers_to p c \<noteq> 0"
    and "m \<in> set (generate_checker_block_moves p c)"
  shows "chess_move p c m"
proof -
  let ?s = "forward_bitscan (checkers_to p c)" and ?k = "king_square p c"
  note ch = checker_hits [OF assms(1-3)] and k = king_square_has [OF assms(2)]
  have fr: "free p t" if "on_board t" "bit (intervening ?k ?s) (nat t)" for t
    using hits_between_free [OF assms(1) ch(2) _ that(1)] intervening_spec [OF k(1) ch(1) that(1)] that(2) by blast
  have r6: "c = WHITE \<and> sq_rank q = 6 \<or> c = BLACK \<and> sq_rank q = 1 \<longleftrightarrow> relative_rank (sq_rank q) c = 6" for q
    by (cases c) (auto simp: relative_rank_def)
  let ?pawns = "piece_type_color_bb p PAWN c" and ?between = "intervening ?k ?s"
  let ?shifted = "pawn_shift_bb ?between (opp c) 1"
  note bits = bit_and_iff bit_or_iff bit_not_iff bit_piece_type_color bit_relative_rank_mask on_board_nat
    bit_pawn_shift bit_free
  from assms(4) consider
    (double) "m \<in> set (map (\<lambda>f. mk_move f (pawn_shift f c 2) DOUBLE_PUSH)
      (bb_squares (pawn_shift_bb (?shifted AND NOT (occupancy_bb p)) (opp c) 1 AND ?pawns AND relative_rank_mask 1 c)))"
    | (single) "m \<in> set (concat (map (\<lambda>f. let target_sq = pawn_shift f c 1 in
        if relative_rank (sq_rank f) c = 6 then evasion_promotions f target_sq PROMOTION
        else [mk_move f target_sq NORMAL]) (bb_squares (?shifted AND ?pawns))))"
    | (piece) "m \<in> set (concat (map (\<lambda>t. map (\<lambda>f. mk_move f t NORMAL)
        (bb_squares (attackers_to_of p t c AND NOT (square_bb ?k OR ?pawns)))) (bb_squares ?between)))"
    unfolding generate_checker_block_moves_def Let_def r6 set_append
    by (simp_all del: set_map set_concat split: if_splits, blast+)
  then show ?thesis
  proof cases
    case double
    then obtain f where f: "on_board f" "on_board (pawn_shift f c 1)" "on_board (pawn_shift (pawn_shift f c 1) c 1)"
      "bit ?between (nat (pawn_shift (pawn_shift f c 1) c 1))" "free p (pawn_shift f c 1)"
      "has p f PAWN c" "relative_rank (sq_rank f) c = 1" "m = mk_move f (pawn_shift f c 2) DOUBLE_PUSH"
      unfolding mem_loop by (auto simp: bits)
    then have "pawn_push p c m" using fr [OF f(3,4)] unfolding pawn_push_def pawn_shift_twice
      by (intro exI [of _ f] exI [of _ "pawn_shift f c 2"]) auto
    then show ?thesis by (simp add: chess_move_def)
  next
    case single
    then obtain f where f: "on_board f" "on_board (pawn_shift f c 1)" "bit ?between (nat (pawn_shift f c 1))"
      "has p f PAWN c" "m \<in> set (if relative_rank (sq_rank f) c = 6
        then evasion_promotions f (pawn_shift f c 1) PROMOTION else [mk_move f (pawn_shift f c 1) NORMAL])"
      unfolding mem_loop Let_def by (auto simp: bits)
    then have "pawn_push p c m" using fr [OF f(2,3)] unfolding pawn_push_def
      by (intro exI [of _ f] exI [of _ "pawn_shift f c 1"])
        (auto simp: mem_evasion_promotions mem_promotions split: if_splits)
    then show ?thesis by (simp add: chess_move_def)
  next
    case piece_list: piece
    then obtain f t where piece: "on_board f" "on_board t" "bit ?between (nat t)"
      "bit (attackers_to_of p t c) (nat f)" "\<not> has p f PAWN c" "m = mk_move f t NORMAL"
      unfolding mem_loop by (auto simp: bits)
    have "hits p (occupancy_bb p) f c t"
      using bit_attackers_to_of [OF piece(2) piece(1) assms(1)] piece(4) by blast
    with assms(1) show ?thesis
    proof (cases rule: hits_cases)
      case 1
      then show ?thesis using piece by blast
    next
      case (2 pt)
      then have "piece_move p c m" using piece fr [OF piece(2,3)] unfolding piece_move_def by blast
      then show ?thesis by (simp add: chess_move_def)
    qed
  qed
qed

section \<open>The whole list\<close>

lemma check_evasion_sound:
  assumes "board_ok p" "ep_on_board p" "has_king p c" "checkers_to p c \<noteq> 0"
    and "m \<in> set (check_evasion_move_list p c)"
  shows "chess_move p c m"
proof -
  from assms(5) consider
    (king) s where "on_board s" "bit (king_attacks (king_square p c) AND NOT (pos_color_bb p c)) (nat s)"
      "m = mk_move (king_square p c) s (if square_bb s AND pos_color_bb p (opp c) \<noteq> 0 then CAPTURE else NORMAL)"
    | "m \<in> set (generate_checker_capture_moves p c)" | "m \<in> set (generate_checker_block_moves p c)"
    unfolding check_evasion_move_list_def Let_def by (auto split: if_splits)
  then show ?thesis
    using king_step_sound [OF assms(1,3)] checker_capture_sound [OF assms(1-4)]
      checker_block_sound [OF assms(1,3,4)] by cases blast+
qed

lemma pseudo_legal_sound:
  assumes "board_ok p" "ep_on_board p" "has_king p (pos_side_to_move p)" "m \<in> set (pseudo_legal_move_list p)"
  shows "chess_move p (pos_side_to_move p) m"
  using assms check_evasion_sound [OF assms(1-3)] mem_pseudo_legal_of [OF assms(2)]
  by (auto simp: pseudo_legal_move_list_def in_check_def split: if_splits)

end
