(* ===== verification/Game.thy ===== *)
theory Game
  imports Evasions
begin

text \<open>
  Whole games.  \<open>game_ok\<close> is the invariant of a position in play: well-formed board and stack, castling
  rights that belong to kings and rooks at home, an en passant square that was just skipped, the hash
  of \<open>calculate_hash\<close>, and both kings on the board.  Every generated move and the null move keep it,
  so it holds in every position reachable from one where it holds.
\<close>

section \<open>What a move touches\<close>

definition castle_squares :: "int \<Rightarrow> int set" where
  "castle_squares t =
     (if t = C1 then {A1, D1} else if t = G1 then {H1, F1}
      else if t = C8 then {A8, D8} else if t = G8 then {H8, F8} else {})"

definition touched :: "position \<Rightarrow> move \<Rightarrow> int set" where
  "touched p m = {from_square m, to_square m} \<union>
     (case move_type_of p m of
        ENPASSANT \<Rightarrow> {ep_victim (pos_side_to_move p) (to_square m)}
      | CASTLING \<Rightarrow> castle_squares (to_square m)
      | _ \<Rightarrow> {})"

text \<open>The piece that stands on the destination after the move.\<close>

definition arriving :: "position \<Rightarrow> move \<Rightarrow> piece_type" where
  "arriving p m =
     (case move_type_of p m of
        PROMOTION \<Rightarrow> the (promotion_piece_type m)
      | CAPTURE_PROMOTION \<Rightarrow> the (promotion_piece_type m)
      | _ \<Rightarrow> the (piece_type_on p (from_square m)))"

lemma castle_readyE':
  assumes "castle_ready p t stm"
  obtains rf rt where "on_board rf" "on_board rt" "rf \<noteq> rt" "castle_squares t = {rf, rt}"
    "has p rf ROOK stm" "free p rt" "castle_rook t stm = move_piece rf rt ROOK stm"
  using assms unfolding castle_ready_def
  by (elim disjE conjE; intro that [of "if t = C1 then A1 else if t = G1 then H1 else if t = C8 then A8 else H8"
        "if t = C1 then D1 else if t = G1 then F1 else if t = C8 then D8 else F8"])
    (auto simp: castle_squares_def castle_rook_def on_board_def fun_eq_iff)

lemma apply_move_has:
  assumes ok: "board_ok p" and m: "move_ok p m" and a: "move_board p m h = (q, ep, h', calc)" and u: "on_board u"
  shows "u \<notin> touched p m \<Longrightarrow> has q u x d \<longleftrightarrow> has p u x d"
    and "has q (to_square m) (arriving p m) (pos_side_to_move p)"
    and "\<not> has q (from_square m) x d"
proof -
  let ?stm = "pos_side_to_move p" and ?f = "from_square m" and ?t = "to_square m"
  have ft: "?f \<noteq> ?t" using m by (simp add: move_ok_def Let_def)
  note on = on_of_has [OF ok]
  have "(u \<notin> touched p m \<longrightarrow> has q u x d = has p u x d) \<and> has q ?t (arriving p m) ?stm
    \<and> \<not> has q ?f x d"
  proof (cases "move_type_of p m")
    case NORMAL
    then obtain pt where pt: "has p ?f pt ?stm" "free p ?t" using m by (auto simp: move_ok_def Let_def)
    have q: "q = move_piece ?f ?t pt ?stm p" using a on [OF pt(1)] by (simp add: apply_move_def NORMAL)
    show ?thesis unfolding q using ok ft pt u on [OF pt(1)]
      by (simp add: board.move_holds touched_def NORMAL arriving_def)
  next
    case CAPTURE
    then obtain pt pt' where pt: "has p ?f pt ?stm" "has p ?t pt' (opp ?stm)"
      using m by (auto simp: move_ok_def Let_def)
    have q: "q = move_piece ?f ?t pt ?stm (remove_piece ?t pt' (opp ?stm) p)"
      using a on [OF pt(1)] on [OF pt(2)] by (simp add: apply_move_def CAPTURE)
    show ?thesis unfolding q using ok ft pt u on [OF pt(1)]
      by (simp add: board.capture_holds touched_def CAPTURE arriving_def)
  next
    case DOUBLE_PUSH
    then have pt: "has p ?f PAWN ?stm" "free p ?t" using m by (auto simp: move_ok_def Let_def)
    have q: "q = move_piece ?f ?t PAWN ?stm p" using a by (simp add: apply_move_def DOUBLE_PUSH Let_def)
    show ?thesis unfolding q using ok ft pt u on [OF pt(1)]
      by (simp add: board.move_holds touched_def DOUBLE_PUSH arriving_def)
  next
    case ENPASSANT
    let ?v = "ep_victim ?stm ?t"
    have pt: "has p ?f PAWN ?stm" "free p ?t" "on_board ?v" "has p ?v PAWN (opp ?stm)"
      using ENPASSANT m by (auto simp: move_ok_def Let_def)
    have vf: "?v \<noteq> ?f" using has_unique [OF ok pt(1), of PAWN "opp ?stm"] pt(4) opp_simps(5) [of ?stm] by metis
    let ?r = "move_piece ?f ?t PAWN ?stm p"
    have q: "q = remove_piece ?v PAWN (opp ?stm) ?r" using a by (simp add: apply_move_def ENPASSANT)
    have r: "board_ok ?r" using ok ft pt by (intro board.move_ok) simp_all
    have rh: "has ?r s x d \<longleftrightarrow> (if s = ?t then x = PAWN \<and> d = ?stm else s \<noteq> ?f \<and> has p s x d)"
      if "on_board s" for s x d
      using that ok ft pt by (subst board.move_holds) simp_all
    have "has ?r ?v PAWN (opp ?stm)" using rh [OF pt(3)] pt(4) vf ep_victim_ne by simp
    then have "has q s x d \<longleftrightarrow> s \<noteq> ?v \<and> has ?r s x d" if "on_board s" for s x d
      unfolding q using that r pt(3) by (subst board.remove_holds) simp_all
    then show ?thesis using rh u on [OF pt(1)] ep_victim_ne [of ?stm ?t, symmetric] ft
      by (simp add: touched_def ENPASSANT arriving_def)
  next
    case CASTLING
    then have pt: "has p ?f KING ?stm" "free p ?t" "castle_ready p ?t ?stm"
      using m by (auto simp: move_ok_def Let_def)
    obtain rf rt where r: "on_board rf" "on_board rt" "rf \<noteq> rt" "castle_squares ?t = {rf, rt}"
      "has p rf ROOK ?stm" "free p rt" "castle_rook ?t ?stm = move_piece rf rt ROOK ?stm"
      by (rule castle_readyE' [OF pt(3)])
    have ne: "rf \<noteq> ?f" "rf \<noteq> ?t" "rt \<noteq> ?f"
      using has_unique [OF ok pt(1), of ROOK ?stm] r(5,6) pt free_iff [OF ok] by fastforce+
    have "rt \<noteq> ?t" using pt(3) r(4) unfolding castle_ready_def by (auto simp: castle_squares_def doubleton_eq_iff)
    let ?r = "move_piece ?f ?t KING ?stm p"
    have q: "q = move_piece rf rt ROOK ?stm ?r" using a r(7) by (simp add: apply_move_def CASTLING)
    have rok: "board_ok ?r" using ok ft pt by (intro board.move_ok) simp_all
    have rh: "has ?r s x d \<longleftrightarrow> (if s = ?t then x = KING \<and> d = ?stm else s \<noteq> ?f \<and> has p s x d)"
      if "on_board s" for s x d
      using that ok ft pt by (subst board.move_holds) simp_all
    have "has ?r rf ROOK ?stm" using rh [OF r(1)] r(5) ne by simp
    moreover have "free ?r rt"
      using rh [OF r(2)] r(6) ne \<open>rt \<noteq> ?t\<close> free_iff [OF ok] free_iff [OF rok] by simp
    ultimately have qh: "has q s x d \<longleftrightarrow> (if s = rt then x = ROOK \<and> d = ?stm else s \<noteq> rf \<and> has ?r s x d)"
      if "on_board s" for s x d
      unfolding q using that rok r(1-3) by (subst board.move_holds) simp_all
    show ?thesis using qh rh u on [OF pt(1)] ne \<open>rt \<noteq> ?t\<close> r(4) ft
      by (auto simp: touched_def CASTLING arriving_def)
  next
    case PROMOTION
    then obtain pr where pt: "has p ?f PAWN ?stm" "free p ?t" "promotion_piece_type m = Some pr"
      using m by (auto simp: move_ok_def Let_def)
    let ?r = "remove_piece ?f PAWN ?stm p"
    have q: "q = put_piece ?t pr ?stm ?r" using a pt(3) by (simp add: apply_move_def PROMOTION)
    have r: "board_ok ?r" "free ?r ?t"
      using ok pt board.vacant_remove [OF ok _ _ pt(1), of ?t] by (simp_all add: board.remove_ok)
    have "has q s x d \<longleftrightarrow> (if s = ?t then x = pr \<and> d = ?stm else s \<noteq> ?f \<and> has p s x d)" if "on_board s" for s x d
      unfolding q using that r ok pt(1) by (subst board.put_holds) (simp_all add: board.remove_holds)
    then show ?thesis using u pt(3) ft by (simp add: touched_def PROMOTION arriving_def)
  next
    case CAPTURE_PROMOTION
    then obtain pr pt' where pt: "has p ?f PAWN ?stm" "has p ?t pt' (opp ?stm)" "promotion_piece_type m = Some pr"
      using m by (auto simp: move_ok_def Let_def)
    let ?s = "remove_piece ?t pt' (opp ?stm) p"
    let ?r = "remove_piece ?f PAWN ?stm ?s"
    have q: "q = put_piece ?t pr ?stm ?r" using a pt(3) on [OF pt(2)] by (simp add: apply_move_def CAPTURE_PROMOTION)
    have sok: "board_ok ?s" and sh: "on_board s \<Longrightarrow> has ?s s x d \<longleftrightarrow> s \<noteq> ?t \<and> has p s x d" for s x d
      using ok pt(2) by (simp_all add: board.remove_ok board.remove_holds)
    have sf: "has ?s ?f PAWN ?stm" using sh pt(1) ft by simp
    have rok: "board_ok ?r" and rh: "on_board s \<Longrightarrow> has ?r s x d \<longleftrightarrow> s \<noteq> ?f \<and> s \<noteq> ?t \<and> has p s x d" for s x d
      using sok sf sh by (simp_all add: board.remove_ok board.remove_holds)
    have "free ?r ?t" using rh free_iff [OF rok] by simp
    then have "has q s x d \<longleftrightarrow> (if s = ?t then x = pr \<and> d = ?stm else s \<noteq> ?f \<and> has p s x d)" if "on_board s" for s x d
      unfolding q using that rok rh by (subst board.put_holds) auto
    then show ?thesis using u pt(3) ft by (simp add: touched_def CAPTURE_PROMOTION arriving_def)
  next
    case NONE
    then show ?thesis using m by (simp add: move_ok_def Let_def)
  qed
  then show "u \<notin> touched p m \<Longrightarrow> has q u x d \<longleftrightarrow> has p u x d" "has q ?t (arriving p m) ?stm"
    "\<not> has q ?f x d" by blast+
qed

text \<open>The same for the position \<open>make_move\<close> returns.\<close>

lemma make_move_has:
  assumes "pos_ok p" "move_ok p m" "on_board u"
  shows "u \<notin> touched p m \<Longrightarrow> has (make_move m p) u x d \<longleftrightarrow> has p u x d"
    and "has (make_move m p) (to_square m) (arriving p m) (pos_side_to_move p)"
    and "\<not> has (make_move m p) (from_square m) x d"
proof -
  obtain b ep h1 calc where a: "move_board p m (xor_ep p (enpassant_square p) (pos_side_to_move p) (pos_hash p))
      = (b, ep, h1, calc)" by (metis prod_cases4)
  have ok: "board_ok p" "stack_ok p" using assms(1) by (auto simp: pos_ok_def)
  have "has (make_move m p) = has b" using has_cong(2) make_move_fields(1,2) [OF ok(2) a] by blast
  then show "u \<notin> touched p m \<Longrightarrow> has (make_move m p) u x d \<longleftrightarrow> has p u x d"
    "has (make_move m p) (to_square m) (arriving p m) (pos_side_to_move p)"
    "\<not> has (make_move m p) (from_square m) x d"
    using apply_move_has [OF ok(1) assms(2) a assms(3)] by simp_all
qed

section \<open>The invariant\<close>

definition game_ok :: "position \<Rightarrow> bool" where
  "game_ok p \<longleftrightarrow> pos_ok p \<and> rights_ok p \<and> ep_ok p \<and> hash_ok p \<and> has_king p WHITE \<and> has_king p BLACK"

lemma has_king_iff: "has_king p c \<longleftrightarrow> (\<exists>u. on_board u \<and> has p u KING c)"
  unfolding has_king_def word64_nonzero_square bit_piece_type_color by blast

lemma spoiled:
  "castling_spoilers ! nat 4 = 12" "castling_spoilers ! nat 0 = 13" "castling_spoilers ! nat 7 = 14"
  "castling_spoilers ! nat 60 = 3" "castling_spoilers ! nat 56 = 7" "castling_spoilers ! nat 63 = 11"
  by (simp_all add: castling_spoilers_def)

lemma rights_bits: "bit (12::int) 2" "bit (12::int) 3" "\<not> bit (12::int) 0" "\<not> bit (12::int) 1" "\<not> bit (13::int) 1"
  "\<not> bit (14::int) 0" "\<not> bit (3::int) 2" "\<not> bit (3::int) 3" "\<not> bit (7::int) 3" "\<not> bit (11::int) 2"
  by (simp_all add: bit_numeral_rec)

text \<open>A right that survives was not touched at its king's or its rook's home.\<close>

lemma surviving_right:
  assumes "r' = r AND castling_spoilers ! nat f AND castling_spoilers ! nat t" "s = f \<or> s = t"
  shows "cr_is_allowed WHITE_KINGSIDE r' \<Longrightarrow> s \<noteq> E1 \<and> s \<noteq> H1"
    and "cr_is_allowed WHITE_QUEENSIDE r' \<Longrightarrow> s \<noteq> E1 \<and> s \<noteq> A1"
    and "cr_is_allowed BLACK_KINGSIDE r' \<Longrightarrow> s \<noteq> E8 \<and> s \<noteq> H8"
    and "cr_is_allowed BLACK_QUEENSIDE r' \<Longrightarrow> s \<noteq> E8 \<and> s \<noteq> A8"
  using assms(2) unfolding assms(1) cr_is_allowed_bit bit_and_iff
  by (elim disjE; metis spoiled rights_bits)+

lemma make_move_castling_rights:
  assumes "stack_ok p"
  shows "castling_rights (make_move m p) =
    castling_rights p AND castling_spoilers ! nat (from_square m) AND castling_spoilers ! nat (to_square m)"
proof -
  obtain b ep h1 calc where a: "move_board p m (xor_ep p (enpassant_square p) (pos_side_to_move p) (pos_hash p))
      = (b, ep, h1, calc)" by (metis prod_cases4)
  show ?thesis using make_move_fields(13) [OF assms a] .
qed

text \<open>A king or rook whose square is neither end of the move stands still, unless castling moves it.\<close>

lemma home_untouched:
  assumes "board_ok p" "move_fits p m" "has p u pt c" "pt \<noteq> PAWN" "u \<noteq> from_square m" "u \<noteq> to_square m"
    and "move_type_of p m = CASTLING \<Longrightarrow> u \<notin> castle_squares (to_square m)"
  shows "u \<notin> touched p m"
proof -
  have "u \<noteq> ep_victim (pos_side_to_move p) (to_square m)" if "move_type_of p m = ENPASSANT"
  proof -
    have "has p (ep_victim (pos_side_to_move p) (to_square m)) PAWN (opp (pos_side_to_move p))"
      using assms(2) that by (simp add: move_fits_def move_ok_def Let_def)
    then show ?thesis using has_unique [OF assms(1,3)] assms(4) by blast
  qed
  then show ?thesis using assms(5-7) by (auto simp: touched_def split: move_type.split)
qed

lemma castling_clears:
  assumes "move_fits p m" "move_type_of p m = CASTLING"
    and "u \<in> castle_squares (to_square m)" "u \<in> {A1, H1, E1} \<and> s = E1 \<or> u \<in> {A8, H8, E8} \<and> s = E8"
  shows "s = from_square m"
  using assms by (auto simp: move_fits_def castle_squares_def split: if_splits)

lemma make_move_rights_ok:
  assumes "pos_ok p" "rights_ok p" "move_fits p m"
  shows "rights_ok (make_move m p)"
proof -
  let ?q = "make_move m p"
  have ok: "board_ok p" "stack_ok p" and mo: "move_ok p m"
    using assms by (auto simp: pos_ok_def move_fits_def)
  note cr = make_move_castling_rights [OF ok(2), of m]
  have keep: "has ?q u pt c" if "has p u pt c" "pt \<noteq> PAWN" "on_board u"
    "u \<noteq> from_square m" "u \<noteq> to_square m" "s \<noteq> from_square m"
    "u \<in> {A1, H1, E1} \<and> s = E1 \<or> u \<in> {A8, H8, E8} \<and> s = E8" for u pt c s
    using make_move_has(1) [OF assms(1) mo that(3) home_untouched [OF ok(1) assms(3) that(1,2,4,5)]]
      castling_clears [OF assms(3) _ _ that(7)] that(1,6) by blast
  have old: "cr_is_allowed r (castling_rights ?q) \<Longrightarrow> cr_is_allowed r (castling_rights p)" for r
    using make_move_rights [OF ok(2)] by (simp add: cr_is_allowed_def)
  have pair: "has ?q k KING c \<and> has ?q r ROOK c" if "has p k KING c \<and> has p r ROOK c"
    "from_square m \<noteq> k \<and> from_square m \<noteq> r" "to_square m \<noteq> k \<and> to_square m \<noteq> r"
    "k = E1 \<and> (r = A1 \<or> r = H1) \<or> k = E8 \<and> (r = A8 \<or> r = H8)" for k r c
    using keep [of k KING c k] keep [of r ROOK c k] that by (auto simp: on_board_def)
  note sv = surviving_right [OF cr]
  show ?thesis unfolding rights_ok_def
    using pair [OF _ sv(1) sv(1)] pair [OF _ sv(2) sv(2)] pair [OF _ sv(3) sv(3)] pair [OF _ sv(4) sv(4)]
      old assms(2) unfolding rights_ok_def by simp
qed

text \<open>The en passant square that a double push leaves.\<close>

lemma make_move_ep:
  assumes "stack_ok p"
  shows "enpassant_square (make_move m p) =
    (if move_type_of p m = DOUBLE_PUSH then Some (pawn_shift (from_square m) (pos_side_to_move p) 1) else None)"
proof -
  obtain b ep h1 calc where a: "move_board p m (xor_ep p (enpassant_square p) (pos_side_to_move p) (pos_hash p))
      = (b, ep, h1, calc)" by (metis prod_cases4)
  show ?thesis unfolding make_move_fields(12) [OF assms a]
    using a by (cases "move_type_of p m") (auto simp: apply_move_def Let_def pawn_shift_def)
qed

lemma make_move_side:
  assumes "stack_ok p"
  shows "pos_side_to_move (make_move m p) = opp (pos_side_to_move p)"
proof -
  obtain b ep h1 calc where a: "move_board p m (xor_ep p (enpassant_square p) (pos_side_to_move p) (pos_hash p))
      = (b, ep, h1, calc)" by (metis prod_cases4)
  show ?thesis using make_move_fields(3) [OF assms a] .
qed

lemma make_move_ep_ok:
  assumes "pos_ok p" "move_fits p m"
  shows "ep_ok (make_move m p)"
proof -
  let ?q = "make_move m p" and ?c = "pos_side_to_move p" and ?f = "from_square m" and ?t = "to_square m"
  have ok: "board_ok p" "stack_ok p" and mo: "move_ok p m"
    using assms by (auto simp: pos_ok_def move_fits_def)
  have qok: "board_ok ?q" using make_move_ok [OF assms(1) mo] by (simp add: pos_ok_def)
  show ?thesis
  proof (cases "move_type_of p m = DOUBLE_PUSH")
    case True
    let ?e = "pawn_shift ?f ?c 1"
    have d: "?t = pawn_shift ?f ?c 2" "on_board ?e" "free p ?e" "has p ?f PAWN ?c"
      using assms(2) mo True by (auto simp: move_fits_def move_ok_def Let_def)
    have v: "ep_victim (opp ?c) ?e = ?t" unfolding d(1) by (cases ?c) (simp_all add: ep_victim_def pawn_shift_def)
    have "?e \<notin> touched p m" using d(1) True by (auto simp: touched_def pawn_shift_def split: if_splits)
    then have "free ?q ?e"
      using make_move_has(1) [OF assms(1) mo d(2)] d(3) free_iff [OF ok(1)] free_iff [OF qok] by simp
    moreover have "has ?q ?t PAWN ?c"
      using make_move_has(2) [OF assms(1) mo to_square_on_board] on_of_has [OF ok(1) d(4)]
      by (simp add: arriving_def True)
    ultimately show ?thesis using True d(2) make_move_ep [OF ok(2), of m] make_move_side [OF ok(2), of m] v
      by (simp add: ep_ok_def)
  next
    case False
    then show ?thesis using make_move_ep [OF ok(2), of m] by (simp add: ep_ok_def)
  qed
qed

lemma make_move_has_king:
  assumes "pos_ok p" "move_fits p m" "piece_type_on p (to_square m) \<noteq> Some KING" "has_king p c"
  shows "has_king (make_move m p) c"
proof -
  let ?f = "from_square m" and ?t = "to_square m"
  have ok: "board_ok p" and mo: "move_ok p m" using assms by (auto simp: pos_ok_def move_fits_def)
  obtain u where u: "on_board u" "has p u KING c" using assms(4) by (auto simp: has_king_iff)
  show ?thesis
  proof (cases "u = ?f")
    case True
    have un: "pt = KING \<and> d = c" if "has p ?f pt d" for pt d
      using that u(2) has_unique [OF ok, of ?f] unfolding True by blast
    have "\<exists>pt. has p ?f pt (pos_side_to_move p) \<and> (move_type_of p m \<in> {PROMOTION, CAPTURE_PROMOTION} \<longrightarrow> pt = PAWN)"
      using mo by (cases "move_type_of p m") (auto simp: move_ok_def Let_def)
    then have "c = pos_side_to_move p" "move_type_of p m \<notin> {PROMOTION, CAPTURE_PROMOTION}" using un by blast+
    moreover from this(2) have "arriving p m = KING"
      using on_of_has [OF ok u(2) u(1)] by (cases "move_type_of p m") (simp_all add: arriving_def True)
    ultimately have "c = pos_side_to_move p" "arriving p m = KING" by blast+
    then show ?thesis using make_move_has(2) [OF assms(1) mo u(1)] to_square_on_board [of m]
      unfolding has_king_iff by metis
  next
    case False
    moreover have "u \<noteq> ?t" using assms(3) on_of_has [OF ok u(2,1)] by auto
    moreover have "u \<notin> castle_squares ?t" if "move_type_of p m = CASTLING"
    proof -
      have "castle_ready p ?t (pos_side_to_move p)" using mo that by (simp add: move_ok_def Let_def)
      then obtain rf rt where "castle_squares ?t = {rf, rt}" "has p rf ROOK (pos_side_to_move p)" "free p rt"
        by (rule castle_readyE')
      moreover have "\<not> free p u" "\<not> has p u ROOK (pos_side_to_move p)"
        using u(2) has_unique [OF ok u(2), of ROOK] free_iff [OF ok, of u] by blast+
      ultimately show ?thesis by auto
    qed
    ultimately have "u \<notin> touched p m" using home_untouched [OF ok assms(2) u(2)] by blast
    then show ?thesis using make_move_has(1) [OF assms(1) mo u(1)] u unfolding has_king_iff by blast
  qed
qed

lemma make_move_game_ok:
  assumes "game_ok p" "move_fits p m" "piece_type_on p (to_square m) \<noteq> Some KING"
  shows "game_ok (make_move m p)"
  using assms make_move_ok make_move_rights_ok make_move_ep_ok make_move_hash make_move_has_king
  unfolding game_ok_def move_fits_def by blast

lemma make_null_move_game_ok:
  assumes "game_ok p"
  shows "game_ok (make_null_move p)"
proof -
  have ok: "pos_ok p" "stack_ok p" using assms by (auto simp: game_ok_def pos_ok_def)
  note F = make_null_move_fields [OF ok(2)]
  note C = has_cong [OF F(1,2)]
  have "rights_ok (make_null_move p)" using assms F(5) C(2) by (simp add: game_ok_def rights_ok_def)
  moreover have "ep_ok (make_null_move p)" using F(4) by (simp add: ep_ok_def)
  moreover have "has_king (make_null_move p) c = has_king p c" for c using C(2) by (simp add: has_king_iff)
  ultimately show ?thesis using assms make_null_move_ok [OF ok(1)] make_null_move_hash [OF ok(2)]
    by (simp add: game_ok_def)
qed

lemma legal_move_fits:
  assumes "game_ok p" "m \<in> set (legal_move_list p)"
  shows "move_fits p m" "chess_move p (pos_side_to_move p) m" "m \<in> set (pseudo_legal_move_list p)"
proof -
  have g: "board_ok p" "rights_ok p" "ep_ok p" "has_king p (pos_side_to_move p)"
    using assms(1) by (cases "pos_side_to_move p"; simp add: game_ok_def pos_ok_def)+
  show l: "m \<in> set (pseudo_legal_move_list p)"
    using assms(2) set_legal_list [of p] by (auto simp: legal_move_list_def split: if_splits)
  show c: "chess_move p (pos_side_to_move p) m"
    by (rule pseudo_legal_sound [OF g(1) ep_ok_on_board [OF g(3)] g(4) l])
  show "move_fits p m" by (rule chess_move_fits [OF g(1-3) c])
qed

section \<open>Reachable positions\<close>

text \<open>A game: legal moves that do not take a king, and null moves (the search's), from \<open>p0\<close>; a made
  move can be taken back.\<close>

inductive reachable :: "position \<Rightarrow> position \<Rightarrow> bool" for p0 :: position where
  start: "reachable p0 p0"
| play: "reachable p0 p \<Longrightarrow> m \<in> set (legal_move_list p) \<Longrightarrow> piece_type_on p (to_square m) \<noteq> Some KING
    \<Longrightarrow> reachable p0 (make_move m p)"
| pass: "reachable p0 p \<Longrightarrow> reachable p0 (make_null_move p)"
| take_back: "reachable p0 p \<Longrightarrow> m \<in> set (legal_move_list p) \<Longrightarrow> piece_type_on p (to_square m) \<noteq> Some KING
    \<Longrightarrow> reachable p0 (unmake_move (make_move m p))"

lemma reachable_game_ok:
  assumes "reachable p0 p" "game_ok p0"
  shows "game_ok p"
  using assms
proof (induction rule: reachable.induct)
  case (play p m)
  then show ?case using make_move_game_ok legal_move_fits(1) by blast
next
  case (take_back p m)
  then have "unmake_move (make_move m p) = p"
    using legal_move_fits(1) unmake_make_move by (simp add: game_ok_def move_fits_def)
  then show ?case using take_back by simp
qed (simp_all add: make_null_move_game_ok)

section \<open>Repetition\<close>

lemma repeat_loop_count:
  "cnt < n \<Longrightarrow> repeat_loop same n cnt xs \<longleftrightarrow> n \<le> cnt + int (length (filter same xs))"
  by (induction xs arbitrary: cnt) auto

lemma fold_count: "fold (\<lambda>i cnt. if same i then cnt + 1 else cnt) xs (c :: int) = c + int (length (filter same xs))"
  by (induction xs arbitrary: c) auto

section \<open>Small positions\<close>

text \<open>Kings on e1 and e8, a white pawn on \<open>s\<close>, no castling rights, white to move, hash up to date.\<close>

definition pawn_board :: "int \<Rightarrow> position" where
  "pawn_board s = empty_position
     \<lparr>pos_piece_bb := (\<lambda>_. 0)(KING := square_bb 4 OR square_bb 60, PAWN := square_bb s),
      pos_color_bb := (\<lambda>_. 0)(WHITE := square_bb 4 OR square_bb s, BLACK := square_bb 60),
      pos_history := [initial_state], pos_fullmoves := 1\<rparr>"

definition pawn_game :: "int \<Rightarrow> position" where
  "pawn_game s = update_state (\<lambda>st. st\<lparr>st_hash := calculate_hash (pawn_board s)\<rparr>) (pawn_board s)"

lemma pawn_game_fields:
  "pos_piece_bb (pawn_game s) = (\<lambda>_. 0)(KING := square_bb 4 OR square_bb 60, PAWN := square_bb s)"
  "pos_color_bb (pawn_game s) = (\<lambda>_. 0)(WHITE := square_bb 4 OR square_bb s, BLACK := square_bb 60)"
  "pos_side_to_move (pawn_game s) = WHITE" "pos_ply (pawn_game s) = 0" "castling_rights (pawn_game s) = 0"
  "enpassant_square (pawn_game s) = None" "halfmoves (pawn_game s) = 0" "length (pos_history (pawn_game s)) = 1"
  by (simp_all add: pawn_game_def pawn_board_def update_state_def empty_position_def castling_rights_def
      enpassant_square_def halfmoves_def cur_state_def initial_state_def CASTLING_RIGHT_NONE_def)

lemma pawn_game_hash: "hash_ok (pawn_game s)"
proof -
  have c: "cur_state (pawn_game s) = (cur_state (pawn_board s))\<lparr>st_hash := calculate_hash (pawn_board s)\<rparr>"
    by (simp add: pawn_game_def update_state_def cur_state_def pawn_board_def empty_position_def)
  have "calculate_hash (pawn_game s) = calculate_hash (pawn_board s)"
    by (rule calculate_hash_cong)
      (simp_all add: enpassant_square_def castling_rights_def c, simp_all add: pawn_game_def update_state_def)
  then show ?thesis by (simp add: hash_ok_def pos_hash_def c)
qed

lemma pawn_game_no_pins: "pinned_pieces_of (pawn_game s) c = 0"
  by (simp add: pinned_pieces_of_def pawn_game_fields)

lemma pawn_game_repeat: "\<not> is_repeat (pawn_game s) n"
  by (simp add: is_repeat_def pawn_game_fields down_by_2.simps [of "-2" 0])

lemma pawn_game_has:
  assumes "s \<in> {12, 28}"
  shows "has (pawn_game s) u pt c \<longleftrightarrow> nat u = 4 \<and> pt = KING \<and> c = WHITE \<or>
    nat u = nat s \<and> pt = PAWN \<and> c = WHITE \<or> nat u = 60 \<and> pt = KING \<and> c = BLACK"
  using assms by (cases pt; cases c; auto simp: has_def pawn_game_fields bit_or_iff)

lemma pawn_game_board_ok:
  assumes "s \<in> {12, 28}"
  shows "board_ok (pawn_game s)" "pos_ok (pawn_game s)"
  using assms by (auto simp: board_ok_def pos_ok_def stack_ok_def pawn_game_fields all_piece_type occupancy_bb_def
      square_bb_def)

lemma pawn_game_free: "s \<in> {12, 28} \<Longrightarrow> free (pawn_game s) u \<longleftrightarrow> nat u \<notin> {4, nat s, 60}"
  unfolding free_iff [OF pawn_game_board_ok(1)] by (auto simp: pawn_game_has)

lemma pawn_game_king:
  assumes "s \<in> {12, 28}"
  shows "has_king (pawn_game s) c" "king_square (pawn_game s) WHITE = 4"
proof -
  show "has_king (pawn_game s) c" using assms
    by (cases c) (auto simp: has_king_iff pawn_game_has on_board_def intro: exI [of _ 4] exI [of _ 60])
  show "king_square (pawn_game s) WHITE = 4" using assms unfolding king_square_def
    by (intro forward_bitscan_eqI) (auto simp: on_board_def piece_type_color_bb_def bit_and_iff bit_or_iff
        pawn_game_fields)
qed

lemma pawn_game_ok:
  assumes "s \<in> {12, 28}"
  shows "game_ok (pawn_game s)"
  using pawn_game_board_ok [OF assms] pawn_game_hash pawn_game_king [OF assms]
  by (simp add: game_ok_def rights_ok_def ep_ok_def pawn_game_fields cr_is_allowed_def)

lemma pawn_game_not_in_check:
  assumes "s \<in> {12, 28}"
  shows "\<not> in_check (pawn_game s)"
proof -
  have "\<not> hits (pawn_game s) (occupancy_bb (pawn_game s)) u BLACK 4" for u
    using assms by (auto simp: hits_def pawn_game_has sees_def sq_file_mod sq_rank_div nat_eq_iff)
  then have "\<not> attacked (pawn_game s) 4 BLACK"
    using attacked_iff [OF pawn_game_board_ok(1) [OF assms], of 4] by (simp add: on_board_def)
  then show ?thesis using pawn_game_king(2) [OF assms]
    by (simp add: in_check_def checkers_to_def attacked_def pawn_game_fields)
qed

lemmas small_ok = pawn_game_board_ok [of 12, simplified] pawn_game_ok [of 12, simplified]
  pawn_game_king [of 12, simplified] pawn_game_not_in_check [of 12, simplified]

abbreviation small_game :: position where
  "small_game \<equiv> pawn_game 12"

definition small_move :: move where
  "small_move = mk_move 12 28 DOUBLE_PUSH"

lemma small_move_fields: "from_square small_move = 12" "to_square small_move = 28"
  "move_type small_move = DOUBLE_PUSH"
  using mk_move_fields [of 12 28 DOUBLE_PUSH] by (simp_all add: small_move_def on_board_def)

lemma small_chess_move: "chess_move small_game WHITE small_move"
proof -
  have "pawn_push small_game WHITE small_move" unfolding pawn_push_def
    by (intro exI [of _ 12] exI [of _ 28])
      (simp add: on_board_def pawn_game_has pawn_game_free pawn_shift_def relative_rank_def sq_rank_div small_move_def)
  then show ?thesis by (simp add: chess_move_def)
qed

lemma small_legal: "small_move \<in> set (legal_move_list small_game)"
proof -
  have "small_move \<in> set (pseudo_legal_move_list small_game)"
    using mem_pseudo_legal_of [of small_game small_move WHITE] small_chess_move small_ok(6)
    by (simp add: pseudo_legal_move_list_def ep_on_board_def pawn_game_fields)
  moreover have "is_legal_generated_move small_game small_move"
    by (simp add: is_legal_generated_move_def is_legal_generated_move_pinned_def small_move_fields pawn_game_no_pins
        pawn_game_fields small_ok(5) Let_def)
  ultimately show ?thesis
    using set_legal_list [of small_game] pawn_game_repeat by (simp add: legal_move_list_def pawn_game_fields)
qed

lemma small_no_capture: "piece_type_on small_game (to_square small_move) \<noteq> Some KING"
  using piece_type_on_None [OF small_ok(1), of 28] by (simp add: small_move_fields on_board_def pawn_game_free)

section \<open>Properties\<close>

text \<open>C2 (equivalence). Out of check the pseudo-legal generator lists exactly the moves of the rules,
  stated square by square without bitboards.\<close>

theorem pseudo_legal_moves_are_the_rules:
  assumes "ep_on_board p"
  shows "m \<in> set (pseudo_legal_move_list_of p c) \<longleftrightarrow> chess_move p c m"
  by (rule mem_pseudo_legal_of [OF assms])

theorem pseudo_legal_moves_are_the_rules_witness: "small_move \<in> set (pseudo_legal_move_list_of small_game WHITE)"
  using pseudo_legal_moves_are_the_rules [of small_game small_move WHITE] small_chess_move
  by (simp add: ep_on_board_def pawn_game_fields)

text \<open>\<open>legal_move_list\<close>, whose loop overwrites an illegal move with the last one and
  tests only pinned pieces, the king and en passant captures, keeps exactly the generated moves that
  \<open>is_legal_generated_move\<close> accepts, each as often as it was generated.\<close>

theorem legal_list_is_filtered_pseudo_legal:
  "mset (legal_move_list_of p (pos_side_to_move p)) =
    filter_mset (is_legal_generated_move p) (mset (pseudo_legal_move_list p))"
  by (rule legal_list_mset)

text \<open>Every move of the legal list is a move of the rules and fits the position, so that
  making it and taking it back is covered: check evasions included.\<close>

theorem legal_moves_fit_the_position:
  assumes "game_ok p" "m \<in> set (legal_move_list p)"
  shows "chess_move p (pos_side_to_move p) m \<and> move_ok p m"
  using legal_move_fits(1,2) [OF assms] by (simp add: move_fits_def)

theorem legal_moves_fit_the_position_witness: "move_ok small_game small_move"
  using legal_moves_fit_the_position [OF small_ok(3) small_legal] by blast

text \<open>C1 (invariant). In every position of a game, after any sequence of legal moves, null moves and
  moves taken back, the board and the stack are well formed, castling rights and en passant square
  are sound, both kings stand, and the hash is the hash computed from scratch.\<close>

theorem reachable_positions_sound:
  assumes "game_ok p0" "reachable p0 p"
  shows "board_ok p \<and> stack_ok p \<and> rights_ok p \<and> ep_ok p \<and> pos_hash p = calculate_hash p \<and>
    has_king p WHITE \<and> has_king p BLACK"
  using reachable_game_ok [OF assms(2,1)] by (simp add: game_ok_def pos_ok_def hash_ok_def)

theorem reachable_positions_sound_witness:
  "pos_hash (make_null_move (make_move small_move small_game)) =
    calculate_hash (make_null_move (make_move small_move small_game))"
  using reachable_positions_sound [OF small_ok(3)
      reachable.pass [OF reachable.play [OF reachable.start small_legal small_no_capture]]] by blast

text \<open>The early-exit repetition test agrees with the full count.\<close>

theorem is_repeat_iff_repeat_count:
  assumes "0 < n"
  shows "is_repeat p n \<longleftrightarrow> n \<le> repeat_count p"
  using assms by (simp add: is_repeat_def repeat_count_def Let_def repeat_loop_count fold_count)

theorem is_repeat_iff_repeat_count_witness: "is_repeat small_game 2 \<longleftrightarrow> 2 \<le> repeat_count small_game"
  by (rule is_repeat_iff_repeat_count) simp

lemma pawn_shift_square:
  assumes "on_board t" "on_board (pawn_shift t c 1)"
  shows "pawn_shift_bb (square_bb t) c 1 = square_bb (pawn_shift t c 1)"
proof (rule word64_eqI)
  fix n :: nat
  assume n: "n < 64"
  then have u: "on_board (int n)" "n = nat (int n)" by (simp_all add: on_board_def)
  have "bit (pawn_shift_bb (square_bb t) c 1) (nat (int n)) \<longleftrightarrow> pawn_shift (int n) (opp c) 1 = t"
    using assms(1) by (subst bit_pawn_shift [OF u(1)]) (auto simp: on_board_def)
  also have "\<dots> \<longleftrightarrow> int n = pawn_shift t c 1" using pawn_shift_inverse [of t "int n" c 1] by auto
  finally show "bit (pawn_shift_bb (square_bb t) c 1) n = bit (square_bb (pawn_shift t c 1)) n"
    using assms(2) n by (auto simp: on_board_def)
qed

lemma late_double_step_not_a_rule:
  assumes "board_ok p" "has p f PAWN c" "on_board f" "on_board t" "t = pawn_shift f c 2" "free p t"
    and "relative_rank (sq_rank f) c \<noteq> 1" "chess_move p c m" "enpassant_square p \<noteq> Some t"
  shows "\<not> move_eq m (mk_move f t DOUBLE_PUSH)"
proof
  assume "move_eq m (mk_move f t DOUBLE_PUSH)"
  then have m: "from_square m = f" "to_square m = t"
    using move_eq_fields [of m "mk_move f t DOUBLE_PUSH"] mk_move_fields [OF assms(3,4)] by auto
  have ne: "\<not> enemy p t c" using assms(6) by (simp add: enemy_def free_def bit_occupancy)
  have one: "t \<noteq> pawn_shift f c 1" using assms(5) by (auto simp: pawn_shift_def split: if_splits)
  have un: "has p f pt c \<longleftrightarrow> pt = PAWN" for pt using has_unique [OF assms(1,2)] assms(2) by blast
  have "\<not> castle_move p c m"
  proof
    assume "castle_move p c m"
    then have "t = f + 2 \<or> t = f - 2"
      by (cases rule: castle_move_cases) (use m in \<open>auto simp: mk_move_fields on_board_def\<close>)
    then show False using assms(5) by (auto simp: pawn_shift_def split: if_splits)
  qed
  moreover have "\<not> piece_move p c m"
    using m ne un sees_pawn unfolding piece_move_def by (metis mk_move_fields(1,2))
  moreover have "\<not> pawn_push p c m"
    using m one assms(7) unfolding pawn_push_def if_bool_eq_conj by (metis mk_move_fields(1,2) mk_move_promo_fields(1,2))
  moreover have "\<not> pawn_capture p c m"
    using m ne assms(9) unfolding pawn_capture_def if_bool_eq_conj by (metis mk_move_fields(1,2) mk_move_promo_fields(1,2))
  ultimately show False using assms(8) by (simp add: chess_move_def)
qed

text \<open>\<open>is_legal_move\<close> accepts a pawn advance of two squares from any rank: it never asks
  that the pawn stands on its starting rank, so it accepts moves that no generator lists.\<close>

theorem is_legal_move_accepts_late_double_step:
  assumes "board_ok p" "ep_on_board p" "\<not> in_check p" "has p f PAWN (pos_side_to_move p)" "on_board f"
    and "f \<noteq> king_square p (pos_side_to_move p)" "pinned_pieces_of p (pos_side_to_move p) = 0"
    and "t = pawn_shift f (pos_side_to_move p) 2" "on_board t" "free p t"
    and "free p (pawn_shift f (pos_side_to_move p) 1)" "enpassant_square p \<noteq> Some t"
    and "relative_rank (sq_rank f) (pos_side_to_move p) \<noteq> 1"
  shows "is_legal_move p (mk_move f t DOUBLE_PUSH) \<and>
    \<not> ml_contains (pseudo_legal_move_list p) (mk_move f t DOUBLE_PUSH)"
proof
  let ?c = "pos_side_to_move p" and ?m = "mk_move f t DOUBLE_PUSH"
  note fl = mk_move_fields [OF assms(5,9), of DOUBLE_PUSH]
  have on: "piece_on p f = Some \<lparr>p_type = PAWN, p_color = ?c\<rparr>"
    using assms(1,4,5) piece_on_Some by blast
  have "color_of p t \<noteq> Some ?c"
    using color_of_Some [OF assms(1,9), of ?c] assms(10) by (simp add: free_def bit_occupancy)
  moreover have "pseudo_legal_pawn p ?c f t"
  proof -
    have mid: "on_board (pawn_shift f ?c 1)" "pawn_shift t (opp ?c) 1 = pawn_shift f ?c 1"
      using assms(5,8,9) by (cases ?c; simp add: pawn_shift_def on_board_def)+
    have occ: "pos_color_bb p ?c OR pos_color_bb p (opp ?c) = occupancy_bb p"
      by (cases ?c) (simp_all add: occupancy_bb_def or.commute)
    have "occupancy_bb p AND (square_bb t OR pawn_shift_bb (square_bb t) (opp ?c) 1) = 0"
      using pawn_shift_square [OF assms(9), of "opp ?c"] mid assms(9,10,11)
      by (simp add: bit.conj_disj_distrib or_eq_0_iff free_def)
    then show ?thesis using assms(8) by (simp add: pseudo_legal_pawn_def Let_def occ)
  qed
  moreover have "is_legal_generated_move p ?m"
    using assms(6,7) by (simp add: is_legal_generated_move_def is_legal_generated_move_pinned_def Let_def fl)
  ultimately show "is_legal_move p ?m"
    using assms(3) on by (simp add: is_legal_move_def Let_def fl)
  have "\<not> move_eq m ?m" if "m \<in> set (pseudo_legal_move_list p)" for m
  proof -
    have "chess_move p ?c m"
      using that assms(3) mem_pseudo_legal_of [OF assms(2)] by (simp add: pseudo_legal_move_list_def)
    then show ?thesis using late_double_step_not_a_rule assms by blast
  qed
  then show "\<not> ml_contains (pseudo_legal_move_list p) ?m" by (auto simp: ml_contains_def list_ex_iff)
qed

theorem is_legal_move_accepts_late_double_step_witness:
  "is_legal_move (pawn_game 28) (mk_move 28 44 DOUBLE_PUSH) \<and>
    \<not> ml_contains (pseudo_legal_move_list (pawn_game 28)) (mk_move 28 44 DOUBLE_PUSH)"
  by (rule is_legal_move_accepts_late_double_step)
    (simp_all add: pawn_game_board_ok pawn_game_not_in_check pawn_game_king pawn_game_no_pins pawn_game_has
      pawn_game_free pawn_game_fields ep_on_board_def on_board_def pawn_shift_def relative_rank_def sq_rank_div)

end
