(* ===== verification/Lines.thy ===== *)
theory Lines
  imports Evasions
begin

text \<open>
  Lines through a square, as eight directions and a distance.  \<open>strictly_between\<close>, the lines of the
  sliding pieces and \<open>full_ray\<close> are restated in these terms, so that what a move opens or closes is
  arithmetic on distances along one direction.
\<close>

section \<open>Directions\<close>

definition dirs :: "(int \<times> int) list" where
  "dirs = [(0, 1), (0, -1), (1, 0), (-1, 0), (1, 1), (-1, -1), (1, -1), (-1, 1)]"

definition ray :: "int \<Rightarrow> int \<times> int \<Rightarrow> int \<Rightarrow> int \<Rightarrow> bool" where
  "ray s d n t \<longleftrightarrow> 0 < n \<and> d \<in> set dirs \<and>
     sq_file t = sq_file s + n * fst d \<and> sq_rank t = sq_rank s + n * snd d"

definition slides :: "piece_type \<Rightarrow> int \<times> int \<Rightarrow> bool" where
  "slides pt d \<longleftrightarrow>
     (case pt of ROOK \<Rightarrow> fst d = 0 \<or> snd d = 0 | BISHOP \<Rightarrow> fst d \<noteq> 0 \<and> snd d \<noteq> 0 | QUEEN \<Rightarrow> True | _ \<Rightarrow> False)"

lemma dirs_cases:
  assumes "d \<in> set dirs"
  obtains "d = (0, 1)" | "d = (0, -1)" | "d = (1, 0)" | "d = (-1, 0)" | "d = (1, 1)" | "d = (-1, -1)"
    | "d = (1, -1)" | "d = (-1, 1)"
  using assms by (auto simp: dirs_def)

lemma ray_dist: "ray s d n t \<Longrightarrow> n = max \<bar>sq_file t - sq_file s\<bar> \<bar>sq_rank t - sq_rank s\<bar>"
  unfolding ray_def by (elim conjE dirs_cases; simp)

lemma ray_dir: "ray s d n t \<Longrightarrow> d = (sgn (sq_file t - sq_file s), sgn (sq_rank t - sq_rank s))"
  unfolding ray_def by (elim conjE dirs_cases; simp)

lemma ray_unique: "ray s d n t \<Longrightarrow> ray s d' n' t \<Longrightarrow> d = d' \<and> n = n'"
  using ray_dist ray_dir by blast

lemma ray_same: "ray s d n t \<Longrightarrow> ray s d n u \<Longrightarrow> t = u"
  by (rule sq_coords_eqI) (simp_all add: ray_def)

lemma ray_ne: "ray s d n t \<Longrightarrow> t \<noteq> s"
  unfolding ray_def by (elim conjE dirs_cases; auto)

lemma ray_shift: "ray s d m u \<Longrightarrow> ray s d n t \<Longrightarrow> m < n \<Longrightarrow> ray u d (n - m) t"
  by (simp add: ray_def algebra_simps)

lemma ray_extend: "ray s d m u \<Longrightarrow> ray u d n t \<Longrightarrow> ray s d (m + n) t"
  by (simp add: ray_def algebra_simps)

lemma dirs_minus: "d \<in> set dirs \<Longrightarrow> (- fst d, - snd d) \<in> set dirs"
  by (elim dirs_cases) (simp_all add: dirs_def)

lemma ray_flip: "ray s d n t \<longleftrightarrow> ray t (- fst d, - snd d) n s"
  using dirs_minus [of d] dirs_minus [of "(- fst d, - snd d)"] by (auto simp: ray_def)

lemma slides_flip: "slides pt (- fst d, - snd d) \<longleftrightarrow> slides pt d"
  by (cases pt) (auto simp: slides_def)

lemma inside_dir: "inside a b c \<longleftrightarrow> (a < b \<and> a < c \<and> c < b) \<or> (b < a \<and> b < c \<and> c < a)"
  by (auto simp: inside_def)

lemma ray_intro:
  assumes "t \<noteq> s" "queen_line s t"
  shows "ray s (sgn (sq_file t - sq_file s), sgn (sq_rank t - sq_rank s))
    (max \<bar>sq_file t - sq_file s\<bar> \<bar>sq_rank t - sq_rank s\<bar>) t"
proof -
  have "\<not> (sq_file s = sq_file t \<and> sq_rank s = sq_rank t)" using assms(1) sq_coords_eqI by blast
  then show ?thesis using assms(2)
    unfolding queen_line_def rook_line_def bishop_line_def diag_plus_def diag_minus_def ray_def dirs_def
    by (cases "sq_file s" "sq_file t" rule: linorder_cases; cases "sq_rank s" "sq_rank t" rule: linorder_cases)
      (auto simp: max_def abs_if)
qed

lemma queen_line_ray: "t \<noteq> s \<and> queen_line s t \<longleftrightarrow> (\<exists>d n. ray s d n t)"
proof
  show "\<exists>d n. ray s d n t" if "t \<noteq> s \<and> queen_line s t" using ray_intro that by blast
  show "t \<noteq> s \<and> queen_line s t" if ex: "\<exists>d n. ray s d n t"
  proof -
    obtain d n where r: "ray s d n t" using ex by blast
    then have "queen_line s t"
      unfolding ray_def queen_line_def rook_line_def bishop_line_def diag_plus_def diag_minus_def
      by (elim conjE dirs_cases; simp)
    then show ?thesis using ray_ne [OF r] by blast
  qed
qed

lemma ray_lines:
  assumes "ray s d n t"
  shows "rook_line s t \<longleftrightarrow> slides ROOK d" "bishop_line s t \<longleftrightarrow> slides BISHOP d"
  using assms unfolding ray_def rook_line_def bishop_line_def diag_plus_def diag_minus_def slides_def
  by (elim conjE dirs_cases; auto)+

lemma slider_line_ray:
  "t \<noteq> s \<and> rook_line s t \<longleftrightarrow> (\<exists>d n. ray s d n t \<and> slides ROOK d)"
  "t \<noteq> s \<and> bishop_line s t \<longleftrightarrow> (\<exists>d n. ray s d n t \<and> slides BISHOP d)"
  using queen_line_ray [of t s] ray_lines [of s _ _ t] unfolding queen_line_def by blast+

lemma between_ray: "strictly_between s t u \<longleftrightarrow> (\<exists>d n m. ray s d n t \<and> ray s d m u \<and> m < n)"
proof
  assume sb: "strictly_between s t u"
  then have "queen_line s t" "t \<noteq> s" "queen_line s u" "u \<noteq> s"
    unfolding strictly_between_def queen_line_def rook_line_def bishop_line_def inside_def by auto
  note r = ray_intro [OF this(2,1)] ray_intro [OF this(4,3)]
  have "(sgn (sq_file t - sq_file s), sgn (sq_rank t - sq_rank s)) = (sgn (sq_file u - sq_file s), sgn (sq_rank u - sq_rank s))
    \<and> max \<bar>sq_file u - sq_file s\<bar> \<bar>sq_rank u - sq_rank s\<bar> < max \<bar>sq_file t - sq_file s\<bar> \<bar>sq_rank t - sq_rank s\<bar>"
    using sb unfolding strictly_between_def inside_dir diag_plus_def diag_minus_def
    by (elim disjE conjE) simp_all
  then show "\<exists>d n m. ray s d n t \<and> ray s d m u \<and> m < n" using r by metis
next
  assume "\<exists>d n m. ray s d n t \<and> ray s d m u \<and> m < n"
  then show "strictly_between s t u"
    unfolding ray_def strictly_between_def inside_def diag_plus_def diag_minus_def
    by (elim exE conjE dirs_cases; simp)
qed

lemma between_on_ray: "ray s d n t \<Longrightarrow> strictly_between s t u \<longleftrightarrow> (\<exists>m<n. ray s d m u)"
  unfolding between_ray using ray_unique by blast

lemma between_on_rays: "ray s d n t \<Longrightarrow> ray s d m u \<Longrightarrow> strictly_between s t u \<longleftrightarrow> m < n"
  unfolding between_on_ray using ray_unique by blast

text \<open>Two squares behind the same square, seen from \<open>k\<close>, are the same or one hides the other.\<close>

lemma same_side:
  assumes "strictly_between k u f" "strictly_between k v f"
  shows "u = v \<or> strictly_between k u v \<or> strictly_between k v u"
proof -
  obtain d n m d' n' m' where r: "ray k d n u" "ray k d m f" "ray k d' n' v" "ray k d' m' f"
    using assms unfolding between_ray by blast
  then have [simp]: "d' = d" using ray_unique by blast
  show ?thesis using r between_on_rays [OF r(1), of n' v] between_on_rays [of k d n' v n u] ray_same [of k d n u v]
    by (cases n n' rule: linorder_cases) auto
qed

lemma between_trans: "strictly_between k u f \<Longrightarrow> strictly_between k f v \<Longrightarrow> strictly_between k u v"
  unfolding between_ray by (metis order_less_trans ray_unique)

lemma between_ne: "strictly_between s t u \<Longrightarrow> u \<noteq> s \<and> u \<noteq> t \<and> s \<noteq> t"
  unfolding strictly_between_def inside_def by auto

lemma unblocked_sym: "unblocked s t occ = unblocked t s occ"
  by (simp add: unblocked_def strictly_between_sym [of s t])

section \<open>Leaping and sliding attackers\<close>

definition leap_hit :: "position \<Rightarrow> int \<Rightarrow> color \<Rightarrow> int \<Rightarrow> bool" where
  "leap_hit p u c s \<longleftrightarrow> has p u PAWN c \<and> pawn_sees u c s \<or>
     (\<exists>pt\<in>{KNIGHT, KING}. has p u pt c \<and> sees pt 0 u s)"

definition slide_hit :: "position \<Rightarrow> int \<Rightarrow> color \<Rightarrow> int \<Rightarrow> bool" where
  "slide_hit p u c s \<longleftrightarrow> (\<exists>pt d n. has p u pt c \<and> ray s d n u \<and> slides pt d)"

lemma sees_slide:
  assumes "pt \<in> {BISHOP, ROOK, QUEEN}"
  shows "sees pt occ s u \<longleftrightarrow> (\<exists>d n. ray s d n u \<and> slides pt d) \<and> unblocked s u occ"
  using assms slider_line_ray [of u s] queen_line_ray [of u s]
  by (elim insertE emptyE) (auto simp: sees_def slides_def)

lemma sees_leap: "pt \<notin> {BISHOP, ROOK, QUEEN} \<Longrightarrow> sees pt occ s u = sees pt 0 s u"
  by (cases pt) (auto simp: sees_def)

lemma slides_slider: "slides pt d \<Longrightarrow> pt \<in> {BISHOP, ROOK, QUEEN}"
  by (cases pt) (auto simp: slides_def)

lemma hits_split: "hits p occ u c s \<longleftrightarrow> leap_hit p u c s \<or> slide_hit p u c s \<and> unblocked s u occ"
proof -
  have "(\<exists>pt. has p u pt c \<and> sees pt occ u s) \<longleftrightarrow>
    (\<exists>pt. has p u pt c \<and> pt \<in> {KNIGHT, KING} \<and> sees pt 0 u s) \<or>
    (\<exists>pt. has p u pt c \<and> (\<exists>d n. ray s d n u \<and> slides pt d)) \<and> unblocked s u occ"
    (is "_ \<longleftrightarrow> ?L \<or> ?S \<and> _")
  proof -
    have "sees pt occ u s \<longleftrightarrow> pt \<in> {KNIGHT, KING} \<and> sees pt 0 u s \<or>
        (\<exists>d n. ray s d n u \<and> slides pt d) \<and> unblocked s u occ" for pt
      using sees_slide [of pt occ s u] sees_leap [of pt occ u s] slides_slider [of pt] sees_sym [of pt occ u s]
      by (cases pt) auto
    then show ?thesis by blast
  qed
  then show ?thesis unfolding hits_def leap_hit_def slide_hit_def by blast
qed

lemma leap_hit_not_between: "leap_hit p u c s \<Longrightarrow> \<not> strictly_between s u t"
  unfolding leap_hit_def strictly_between_sym [of s]
  by (intro leap_not_between) (auto simp: pawn_sees_def sees_def split: if_splits)

lemma leap_not_slide:
  assumes "board_ok p" "leap_hit p u c s"
  shows "\<not> slide_hit p u c s"
proof -
  obtain pt where pt: "has p u pt c" "pt \<in> {PAWN, KNIGHT, KING}" using assms(2) by (auto simp: leap_hit_def)
  have "pt' = pt" if "has p u pt' c" for pt' using has_unique [OF assms(1) pt(1) that] by blast
  then show ?thesis using pt(2) slides_slider unfolding slide_hit_def by blast
qed

lemma slide_hit_ray: "slide_hit p u c s \<Longrightarrow> \<exists>d n. ray s d n u"
  by (auto simp: slide_hit_def)

text \<open>What slides over a square on its way also slides onto it.\<close>

lemma slide_hit_nearer:
  assumes "slide_hit p u c t" "strictly_between t u k"
  shows "slide_hit p u c k"
proof -
  obtain pt d n where r: "has p u pt c" "ray t d n u" "slides pt d" using assms(1) by (auto simp: slide_hit_def)
  then obtain m where "m < n" "ray t d m k" using assms(2) between_on_ray by blast
  then have "ray k d (n - m) u" using ray_shift r(2) by blast
  then show ?thesis using r unfolding slide_hit_def by blast
qed

lemma between_nearer:
  assumes "strictly_between t u k" "strictly_between k u v"
  shows "strictly_between t u v"
proof -
  obtain d n m where r: "ray t d n u" "ray t d m k" "m < n" using assms(1) unfolding between_ray by blast
  then obtain j where j: "j < n - m" "ray k d j v" using assms(2) ray_shift between_on_ray by blast
  then have "ray t d (m + j) v" "m + j < n" using r ray_extend by auto
  then show ?thesis using r(1) unfolding between_ray by blast
qed

lemma between_further:
  assumes "strictly_between t u k" "strictly_between t k v"
  shows "strictly_between t u v" "\<not> strictly_between k u v"
proof -
  obtain d n m where r: "ray t d n u" "ray t d m k" "m < n" using assms(1) unfolding between_ray by blast
  then obtain j where j: "j < m" "ray t d j v" using assms(2) between_on_ray by blast
  show "strictly_between t u v" using r j order_less_trans [of j m n] unfolding between_ray by blast
  show "\<not> strictly_between k u v"
  proof
    assume "strictly_between k u v"
    then obtain i where i: "ray k d i v" using r ray_shift between_on_ray by blast
    then have "ray t d (m + i) v" using r ray_extend by blast
    then have "m + i = j" using j ray_unique by blast
    then show False using i j by (simp add: ray_def)
  qed
qed

text \<open>The line through \<open>k\<close> and \<open>f\<close>, both ways.\<close>

lemma full_ray_ray:
  assumes "on_board k" "on_board f" "on_board t" "ray k d m f"
  shows "bit (full_ray k f) (nat t) \<longleftrightarrow> (\<exists>j. sq_file t = sq_file k + j * fst d \<and> sq_rank t = sq_rank k + j * snd d)"
proof -
  have ex: "\<exists>j. a = b + j" "\<exists>j. a = b + - j" "\<exists>j. a = b - j" for a b :: int
    by presburger+
  show ?thesis
    unfolding full_ray_spec [OF assms(1-3)] diag_plus_def diag_minus_def using assms(4) ray_ne [OF assms(4)] unfolding ray_def
    by (elim conjE dirs_cases) (simp_all add: ex, presburger+)
qed

end
