(* ===== verification/After_Move.thy ===== *)
theory After_Move
  imports Game Lines
begin

text \<open>
  The board after a move, square by square: which piece of which colour stands where, what is still
  occupied and where the king of the side that moved is.
\<close>

section \<open>Every square after a move\<close>

lemma make_move_ep_victim:
  assumes "pos_ok p" "move_ok p m" "move_type_of p m = ENPASSANT"
  shows "\<not> has (make_move m p) (ep_victim (pos_side_to_move p) (to_square m)) x d"
proof -
  let ?c = "pos_side_to_move p" and ?f = "from_square m" and ?t = "to_square m"
  let ?v = "ep_victim ?c ?t" and ?r = "move_piece ?f ?t PAWN ?c p"
  have ok: "board_ok p" "stack_ok p" using assms(1) by (auto simp: pos_ok_def)
  have pt: "?f \<noteq> ?t" "has p ?f PAWN ?c" "free p ?t" "on_board ?v" "has p ?v PAWN (opp ?c)"
    using assms(2,3) by (auto simp: move_ok_def Let_def)
  obtain b ep h1 calc where a: "move_board p m (xor_ep p (enpassant_square p) ?c (pos_hash p)) = (b, ep, h1, calc)"
    by (metis prod_cases4)
  have b: "b = remove_piece ?v PAWN (opp ?c) ?r" using a by (simp add: apply_move_def assms(3))
  have r: "board_ok ?r" using ok pt by (intro board.move_ok) simp_all
  have "?v \<noteq> ?f" using has_unique [OF ok(1) pt(2), of PAWN "opp ?c"] pt(5) opp_simps(5) [of ?c] by metis
  then have "has ?r ?v PAWN (opp ?c)" using ok pt ep_victim_ne by (subst board.move_holds) simp_all
  then have "\<not> has b ?v x d" unfolding b using r pt(4) by (subst board.remove_holds) simp_all
  then show ?thesis using has_cong(2) [OF make_move_fields(1,2) [OF ok(2) a]] by simp
qed

text \<open>Castling moves the rook from \<open>castle_from\<close> to \<open>castle_to\<close>.\<close>

definition castle_from :: "int \<Rightarrow> int" where
  "castle_from t = (if t = C1 then A1 else if t = G1 then H1 else if t = C8 then A8 else H8)"

definition castle_to :: "int \<Rightarrow> int" where
  "castle_to t = (if t = C1 then D1 else if t = G1 then F1 else if t = C8 then D8 else F8)"

lemma castle_ready_squares:
  assumes "castle_ready p t c"
  shows "on_board (castle_from t)" "on_board (castle_to t)" "castle_from t \<noteq> castle_to t"
    "castle_squares t = {castle_from t, castle_to t}" "has p (castle_from t) ROOK c" "free p (castle_to t)"
    "castle_rook t c = move_piece (castle_from t) (castle_to t) ROOK c" "castle_to t \<noteq> t" "castle_from t \<noteq> t"
  using assms unfolding castle_ready_def
  by (elim disjE conjE; simp add: castle_squares_def castle_rook_def on_board_def fun_eq_iff castle_from_def castle_to_def)+

lemma make_move_castle_squares:
  assumes "pos_ok p" "move_ok p m" "move_type_of p m = CASTLING"
  shows "has (make_move m p) (castle_to (to_square m)) x d \<longleftrightarrow> x = ROOK \<and> d = pos_side_to_move p"
    and "\<not> has (make_move m p) (castle_from (to_square m)) x d"
proof -
  let ?c = "pos_side_to_move p" and ?f = "from_square m" and ?t = "to_square m"
  let ?rf = "castle_from ?t" and ?rt = "castle_to ?t" and ?r = "move_piece ?f ?t KING ?c p"
  have ok: "board_ok p" "stack_ok p" using assms(1) by (auto simp: pos_ok_def)
  have pt: "?f \<noteq> ?t" "has p ?f KING ?c" "free p ?t" "castle_ready p ?t ?c"
    using assms(2,3) by (auto simp: move_ok_def Let_def)
  note cs = castle_ready_squares [OF pt(4)]
  obtain b ep h1 calc where a: "move_board p m (xor_ep p (enpassant_square p) ?c (pos_hash p)) = (b, ep, h1, calc)"
    by (metis prod_cases4)
  have b: "b = move_piece ?rf ?rt ROOK ?c ?r" using a by (simp add: apply_move_def assms(3) cs(7))
  have r: "board_ok ?r" using ok pt by (intro board.move_ok) simp_all
  have rh: "has ?r s x d \<longleftrightarrow> (if s = ?t then x = KING \<and> d = ?c else s \<noteq> ?f \<and> has p s x d)"
    if "on_board s" for s x d
    using that ok pt by (subst board.move_holds) simp_all
  have ne: "?rf \<noteq> ?f" using has_unique [OF ok(1) pt(2), of ROOK ?c] cs(5) by auto
  have "has ?r ?rf ROOK ?c" using rh [OF cs(1)] cs(5,9) ne by simp
  moreover have "free ?r ?rt"
    using rh [OF cs(2)] cs(6,8) free_iff [OF ok(1), of ?rt] free_iff [OF r, of ?rt] by simp
  ultimately have "has b s x d \<longleftrightarrow> (if s = ?rt then x = ROOK \<and> d = ?c else s \<noteq> ?rf \<and> has ?r s x d)"
    if "on_board s" for s x d
    unfolding b using that r cs(1-3) by (subst board.move_holds) simp_all
  then show "has (make_move m p) ?rt x d \<longleftrightarrow> x = ROOK \<and> d = ?c" "\<not> has (make_move m p) ?rf x d"
    using has_cong(2) [OF make_move_fields(1,2) [OF ok(2) a]] cs(1-3) by simp_all
qed

lemma make_move_board:
  assumes "pos_ok p" "move_ok p m" "on_board u"
  shows "has (make_move m p) u x d \<longleftrightarrow>
    (if u = to_square m then x = arriving p m \<and> d = pos_side_to_move p
     else if u = from_square m then False
     else if move_type_of p m = ENPASSANT \<and> u = ep_victim (pos_side_to_move p) (to_square m) then False
     else if move_type_of p m = CASTLING \<and> u = castle_to (to_square m) then x = ROOK \<and> d = pos_side_to_move p
     else if move_type_of p m = CASTLING \<and> u = castle_from (to_square m) then False
     else has p u x d)"
proof -
  have qok: "board_ok (make_move m p)" using make_move_ok [OF assms(1,2)] by (simp add: pos_ok_def)
  note mm = make_move_has [OF assms(1,2)]
  have t: "has (make_move m p) (to_square m) x d \<longleftrightarrow> x = arriving p m \<and> d = pos_side_to_move p"
    using mm(2) [OF assms(3)] has_unique [OF qok mm(2) [OF assms(3)]] by blast
  have cs: "castle_squares (to_square m) = {castle_from (to_square m), castle_to (to_square m)}"
    if "move_type_of p m = CASTLING"
    using that assms(2) castle_ready_squares(4) [of p "to_square m" "pos_side_to_move p"]
    by (auto simp: move_ok_def Let_def)
  have un: "u \<in> touched p m \<longleftrightarrow> u = from_square m \<or> u = to_square m \<or>
      move_type_of p m = ENPASSANT \<and> u = ep_victim (pos_side_to_move p) (to_square m) \<or>
      move_type_of p m = CASTLING \<and> (u = castle_to (to_square m) \<or> u = castle_from (to_square m))"
    using cs by (cases "move_type_of p m") (auto simp: touched_def)
  show ?thesis
    using t mm(3) [OF assms(3), of x d] mm(1) [OF assms(3), of x d] un make_move_ep_victim [OF assms(1,2), of x d]
      make_move_castle_squares [OF assms(1,2), of x d]
    by (auto split: if_splits)
qed

section \<open>What the other side keeps\<close>

lemma make_move_enemies:
  assumes "pos_ok p" "move_ok p m" "on_board u"
  shows "has (make_move m p) u x (opp (pos_side_to_move p)) \<longleftrightarrow> has p u x (opp (pos_side_to_move p)) \<and>
    u \<noteq> to_square m \<and> (move_type_of p m = ENPASSANT \<longrightarrow> u \<noteq> ep_victim (pos_side_to_move p) (to_square m))"
proof -
  let ?c = "pos_side_to_move p"
  have ok: "board_ok p" using assms(1) by (simp add: pos_ok_def)
  have "\<exists>pt. has p (from_square m) pt ?c"
    using assms(2) by (cases "move_type_of p m") (auto simp: move_ok_def Let_def)
  then have f: "\<not> has p (from_square m) x (opp ?c)" using has_unique [OF ok] opp_simps(5) by metis
  have "\<not> has p (castle_to (to_square m)) x (opp ?c) \<and> \<not> has p (castle_from (to_square m)) x (opp ?c)"
    if "move_type_of p m = CASTLING"
  proof -
    have cr: "castle_ready p (to_square m) ?c" using that assms(2) by (auto simp: move_ok_def Let_def)
    then show ?thesis using castle_ready_squares(5,6) [OF cr] free_iff [OF ok] has_unique [OF ok] opp_simps(5)
      by metis
  qed
  then show ?thesis unfolding make_move_board [OF assms] using f opp_simps(5) [of ?c] by auto
qed

lemma make_move_occupied:
  assumes "pos_ok p" "move_ok p m" "on_board u"
  shows "\<not> free (make_move m p) u \<longleftrightarrow> u = to_square m \<or>
    move_type_of p m = CASTLING \<and> u = castle_to (to_square m) \<or>
    \<not> free p u \<and> u \<noteq> from_square m \<and>
      (move_type_of p m = ENPASSANT \<longrightarrow> u \<noteq> ep_victim (pos_side_to_move p) (to_square m)) \<and>
      (move_type_of p m = CASTLING \<longrightarrow> u \<noteq> castle_from (to_square m))"
proof -
  have ok: "board_ok p" "board_ok (make_move m p)" using assms(1) make_move_ok [OF assms(1,2)] by (simp_all add: pos_ok_def)
  have "castle_to (to_square m) \<noteq> from_square m" if "move_type_of p m = CASTLING"
  proof -
    have "castle_ready p (to_square m) (pos_side_to_move p)" "has p (from_square m) KING (pos_side_to_move p)"
      using that assms(2) by (auto simp: move_ok_def Let_def)
    then show ?thesis using castle_ready_squares(6) free_iff [OF ok(1)] by metis
  qed
  then show ?thesis unfolding free_iff [OF ok(2)] free_iff [OF ok(1)] make_move_board [OF assms]
    by (cases "u = to_square m"; cases "u = from_square m"; cases "move_type_of p m = ENPASSANT";
        cases "move_type_of p m = CASTLING"; cases "u = ep_victim (pos_side_to_move p) (to_square m)";
        cases "u = castle_to (to_square m)"; cases "u = castle_from (to_square m)"; simp)
qed

end
