(* ===== verification/Legality.thy ===== *)
theory Legality
  imports After_Move
begin

text \<open>
  Full legality.  The legal list of a position holds exactly the moves of the rules that do not leave
  the mover's own king attacked, whatever path of the code produced it: the pin test, the king's
  step test, the simulated en passant capture or the check evasion generator.
\<close>

section \<open>One king a side\<close>

definition lone_king :: "position \<Rightarrow> color \<Rightarrow> bool" where
  "lone_king p c \<longleftrightarrow> has_king p c \<and> (\<forall>u. on_board u \<and> has p u KING c \<longrightarrow> u = king_square p c)"

definition king_attacked :: "position \<Rightarrow> color \<Rightarrow> bool" where
  "king_attacked p c \<longleftrightarrow> attacked p (king_square p c) (opp c)"

lemma in_check_attacked: "in_check p \<longleftrightarrow> king_attacked p (pos_side_to_move p)"
  by (simp add: in_check_def king_attacked_def attacked_def checkers_to_def)

lemma lone_kingD:
  assumes "lone_king p c"
  shows "on_board (king_square p c)" "has p (king_square p c) KING c"
    and "on_board u \<Longrightarrow> has p u KING c \<Longrightarrow> u = king_square p c"
  using assms king_square_has unfolding lone_king_def by blast+

lemma lone_kingI:
  assumes "on_board k" "has p k KING c" "\<And>u. on_board u \<Longrightarrow> has p u KING c \<Longrightarrow> u = k"
  shows "lone_king p c" "king_square p c = k"
proof -
  have h: "has_king p c" using assms(1,2) has_king_iff by blast
  show k: "king_square p c = k" by (rule assms(3)) (use king_square_has [OF h] in auto)
  then show "lone_king p c" using h assms(3) by (simp add: lone_king_def)
qed

section \<open>The mover's king after the move\<close>

text \<open>What a move of the rules does, in the terms of \<open>make_move_board\<close>.\<close>

lemma move_ends:
  assumes "board_ok p" "move_ok p m"
  shows "from_square m \<noteq> to_square m" "\<exists>pt. has p (from_square m) pt (pos_side_to_move p)"
    "\<not> has p (to_square m) x (pos_side_to_move p)"
proof -
  show "from_square m \<noteq> to_square m" using assms(2) by (simp add: move_ok_def Let_def)
  show "\<exists>pt. has p (from_square m) pt (pos_side_to_move p)"
    using assms(2) by (cases "move_type_of p m") (auto simp: move_ok_def Let_def)
  have "free p (to_square m) \<or> (\<exists>pt. has p (to_square m) pt (opp (pos_side_to_move p)))"
    using assms(2) by (cases "move_type_of p m") (auto simp: move_ok_def Let_def)
  then show "\<not> has p (to_square m) x (pos_side_to_move p)"
  proof (elim disjE exE)
    assume "free p (to_square m)"
    then show ?thesis using free_iff [OF assms(1)] by simp
  next
    fix pt assume "has p (to_square m) pt (opp (pos_side_to_move p))"
    then show ?thesis using has_unique [OF assms(1), of "to_square m" pt] opp_simps(5) [of "pos_side_to_move p"] by metis
  qed
qed

lemma promotion_not_king: "promotion_piece_type m \<noteq> Some KING"
  by (auto simp: promotion_piece_type_def Let_def)

lemma arriving_king:
  assumes "board_ok p" "move_ok p m"
  shows "arriving p m = KING \<longleftrightarrow> has p (from_square m) KING (pos_side_to_move p)"
proof -
  obtain pt where pt: "has p (from_square m) pt (pos_side_to_move p)" using move_ends(2) [OF assms] by blast
  have pon: "piece_type_on p (from_square m) = Some pt" using on_of_has [OF assms(1) pt] by simp
  have un: "has p (from_square m) x (pos_side_to_move p) \<longleftrightarrow> x = pt" for x using has_unique [OF assms(1) pt] pt by blast
  show ?thesis
  proof (cases "move_type_of p m \<in> {PROMOTION, CAPTURE_PROMOTION}")
    case True
    then have "has p (from_square m) PAWN (pos_side_to_move p)" "\<exists>pr. promotion_piece_type m = Some pr \<and> pr \<noteq> KING"
      using True assms(2) promotion_not_king [of m] by (auto simp: move_ok_def Let_def)
    moreover from this(2) have "arriving p m \<noteq> KING" using True by (auto simp: arriving_def)
    ultimately show ?thesis using un [of KING] un [of PAWN] by blast
  next
    case False
    then have "arriving p m = pt" using pon by (cases "move_type_of p m") (simp_all add: arriving_def)
    then show ?thesis using un [of KING] by metis
  qed
qed

lemma king_after:
  assumes "pos_ok p" "move_ok p m" "lone_king p (pos_side_to_move p)"
  defines "k \<equiv> king_square p (pos_side_to_move p)"
  shows "lone_king (make_move m p) (pos_side_to_move p)"
    and "king_square (make_move m p) (pos_side_to_move p) = (if from_square m = k then to_square m else k)"
proof -
  let ?c = "pos_side_to_move p" and ?q = "make_move m p" and ?t = "to_square m" and ?f = "from_square m"
  have ok: "board_ok p" using assms(1) by (simp add: pos_ok_def)
  note K = lone_kingD [OF assms(3), folded k_def]
  note B = make_move_board [OF assms(1,2)]
  have cr: "castle_ready p ?t ?c" "has p ?f KING ?c" if "move_type_of p m = CASTLING"
    using that assms(2) by (auto simp: move_ok_def Let_def)
  have fk: "has p ?f KING ?c \<longleftrightarrow> ?f = k" using K(2) K(3) [of ?f] by auto
  have kt: "k \<noteq> ?t" using move_ends(3) [OF ok assms(2)] K(2) by blast
  have v: "k \<noteq> ep_victim ?c ?t" if "move_type_of p m = ENPASSANT"
  proof -
    have "has p (ep_victim ?c ?t) PAWN (opp ?c)" using that assms(2) by (auto simp: move_ok_def Let_def)
    then show ?thesis using has_unique [OF ok K(2)] by blast
  qed
  have "has ?q u KING ?c \<longleftrightarrow> u = (if ?f = k then ?t else k)" if u: "on_board u" for u
  proof (cases "?f = k")
    case True
    moreover have "arriving p m = KING" using True fk arriving_king [OF ok assms(2)] by blast
    moreover have "has p u KING ?c \<longleftrightarrow> u = ?f" using True K(2) K(3) [OF u] by blast
    ultimately show ?thesis using B [OF u, of KING ?c] by simp
  next
    case False
    then have "move_type_of p m \<noteq> CASTLING" using cr(2) fk by blast
    moreover have "arriving p m \<noteq> KING" using False fk arriving_king [OF ok assms(2)] by blast
    moreover have "has p u KING ?c \<longleftrightarrow> u = k" using K(2) K(3) [OF u] by blast
    ultimately show ?thesis using B [OF u, of KING ?c] False kt v by auto
  qed
  moreover have "on_board (if ?f = k then ?t else k)" using K(1) by simp
  ultimately show "lone_king ?q ?c" "king_square ?q ?c = (if ?f = k then ?t else k)"
    using lone_kingI [of "if ?f = k then ?t else k" ?q ?c] by blast+
qed

text \<open>Who attacks a square after the move: an enemy that is still there, over what is occupied then.\<close>

lemma attacked_after:
  assumes "pos_ok p" "move_ok p m" "on_board s"
  shows "attacked (make_move m p) s (opp (pos_side_to_move p)) \<longleftrightarrow>
    (\<exists>u. on_board u \<and> u \<noteq> to_square m \<and>
      (move_type_of p m = ENPASSANT \<longrightarrow> u \<noteq> ep_victim (pos_side_to_move p) (to_square m)) \<and>
      hits p (occupancy_bb (make_move m p)) u (opp (pos_side_to_move p)) s)"
proof -
  have qok: "board_ok (make_move m p)" using make_move_ok [OF assms(1,2)] by (simp add: pos_ok_def)
  have "hits (make_move m p) occ u (opp (pos_side_to_move p)) s \<longleftrightarrow> u \<noteq> to_square m \<and>
      (move_type_of p m = ENPASSANT \<longrightarrow> u \<noteq> ep_victim (pos_side_to_move p) (to_square m)) \<and>
      hits p occ u (opp (pos_side_to_move p)) s" if "on_board u" for u occ
    unfolding hits_def make_move_enemies [OF assms(1,2) that] by blast
  then show ?thesis unfolding attacked_iff [OF qok assms(3)] by blast
qed

lemma unblocked_free: "unblocked s t (occupancy_bb p) \<longleftrightarrow> (\<forall>u. on_board u \<and> strictly_between s t u \<longrightarrow> free p u)"
  by (simp add: unblocked_def free_def)

lemma hits_split_free:
  "hits p (occupancy_bb q) u c s \<longleftrightarrow>
    leap_hit p u c s \<or> slide_hit p u c s \<and> (\<forall>v. on_board v \<and> strictly_between s u v \<longrightarrow> free q v)"
  unfolding hits_split unblocked_free ..

section \<open>King steps\<close>

lemma not_hits_self: "\<not> hits p occ u c u"
  unfolding hits_split leap_hit_def slide_hit_def using ray_ne pawn_sees_ne sees_ne by blast

lemma bit_xor_square:
  assumes "on_board k" "on_board v" "\<not> free p k"
  shows "bit (occupancy_bb p XOR square_bb k) (nat v) \<longleftrightarrow> \<not> free p v \<and> v \<noteq> k"
  using assms nat_eq_square [of k v] by (auto simp: bit_xor_iff free_def on_board_def)

text \<open>The king's square counts as empty for the attackers of its destination.\<close>

lemma king_step_safe:
  assumes "pos_ok p" "move_ok p m" "lone_king p (pos_side_to_move p)"
    and "from_square m = king_square p (pos_side_to_move p)" "move_type_of p m \<noteq> CASTLING"
  shows "king_attacked (make_move m p) (pos_side_to_move p) \<longleftrightarrow>
    attackers_to_occ_of p (to_square m) (occupancy_bb p XOR square_bb (from_square m)) (opp (pos_side_to_move p)) \<noteq> 0"
proof -
  let ?c = "pos_side_to_move p" and ?t = "to_square m" and ?k = "from_square m"
  have ok: "board_ok p" using assms(1) by (simp add: pos_ok_def)
  have kk: "has p ?k KING ?c" using lone_kingD(2) [OF assms(3)] assms(4) by simp
  have occ: "\<not> free p ?k" using kk free_iff [OF ok] by blast
  have "move_type_of p m \<noteq> ENPASSANT"
  proof
    assume "move_type_of p m = ENPASSANT"
    then have "has p ?k PAWN ?c" using assms(2) by (auto simp: move_ok_def Let_def)
    then show False using has_unique [OF ok kk] by blast
  qed
  then have fr: "\<not> free (make_move m p) v \<longleftrightarrow> v = ?t \<or> \<not> free p v \<and> v \<noteq> ?k" if "on_board v" for v
    using make_move_occupied [OF assms(1,2) that] assms(5) by simp
  have ub: "unblocked ?t u (occupancy_bb (make_move m p)) = unblocked ?t u (occupancy_bb p XOR square_bb ?k)" for u
  proof -
    have "bit (occupancy_bb (make_move m p)) (nat v) = bit (occupancy_bb p XOR square_bb ?k) (nat v)"
      if "on_board v" "strictly_between ?t u v" for v
      using fr [OF that(1)] between_ne [OF that(2)] bit_xor_square [OF _ that(1) occ] by (simp add: free_def)
    then show ?thesis unfolding unblocked_def by blast
  qed
  have "king_attacked (make_move m p) ?c \<longleftrightarrow> (\<exists>u. on_board u \<and> u \<noteq> ?t \<and>
      hits p (occupancy_bb (make_move m p)) u (opp ?c) ?t)"
    using attacked_after [OF assms(1,2) to_square_on_board] \<open>move_type_of p m \<noteq> ENPASSANT\<close>
      king_after(2) [OF assms(1-3)] assms(4) by (simp add: king_attacked_def)
  also have "\<dots> \<longleftrightarrow> (\<exists>u. on_board u \<and> hits p (occupancy_bb p XOR square_bb ?k) u (opp ?c) ?t)"
    using ub not_hits_self [of p "occupancy_bb p XOR square_bb ?k" ?t "opp ?c"] unfolding hits_split by metis
  also have "\<dots> \<longleftrightarrow> attackers_to_occ_of p ?t (occupancy_bb p XOR square_bb ?k) (opp ?c) \<noteq> 0"
    unfolding word64_nonzero_square using bit_attackers_to_occ_of [OF to_square_on_board _ ok] by blast
  finally show ?thesis .
qed

text \<open>Looking through the king adds attackers only when it is in check.\<close>

lemma king_step_test:
  assumes "board_ok p" "has p k KING c" "on_board k" "on_board t"
  shows "attackers_to_occ_of p t (occupancy_bb p XOR square_bb k) (opp c) = 0 \<Longrightarrow>
      attackers_to p t AND pos_color_bb p (opp c) = 0"
    and "\<not> attacked p k (opp c) \<Longrightarrow> attackers_to p t AND pos_color_bb p (opp c) = 0 \<Longrightarrow>
      attackers_to_occ_of p t (occupancy_bb p XOR square_bb k) (opp c) = 0"
proof -
  have occ: "\<not> free p k" using assms(2) free_iff [OF assms(1)] by blast
  have b: "bit (occupancy_bb p XOR square_bb k) (nat v) \<longleftrightarrow> \<not> free p v \<and> v \<noteq> k" if "on_board v" for v
    by (rule bit_xor_square [OF assms(3) that occ])
  have at: "attackers_to p t AND pos_color_bb p (opp c) = attackers_to_of p t (opp c)"
    by (simp add: attackers_to_def attackers_to_of_def)
  have 0: "w = 0 \<longleftrightarrow> (\<forall>u. on_board u \<longrightarrow> \<not> bit w (nat u))" for w :: bitboard
    using word64_nonzero_square [of w] by blast
  have 1: "attackers_to_occ_of p t occ (opp c) = 0 \<longleftrightarrow> (\<forall>u. on_board u \<longrightarrow> \<not> hits p occ u (opp c) t)" for occ
    unfolding 0 using bit_attackers_to_occ_of [OF assms(4) _ assms(1)] by blast
  have 2: "attackers_to_of p t (opp c) = 0 \<longleftrightarrow> (\<forall>u. on_board u \<longrightarrow> \<not> hits p (occupancy_bb p) u (opp c) t)"
    unfolding 0 using bit_attackers_to_of [OF assms(4) _ assms(1)] by blast
  have "unblocked t u (occupancy_bb p) \<Longrightarrow> unblocked t u (occupancy_bb p XOR square_bb k)" for u
    using b by (auto simp: unblocked_def free_def)
  then have "hits p (occupancy_bb p) u (opp c) t \<Longrightarrow> hits p (occupancy_bb p XOR square_bb k) u (opp c) t" for u
    unfolding hits_split by blast
  then show "attackers_to_occ_of p t (occupancy_bb p XOR square_bb k) (opp c) = 0 \<Longrightarrow>
      attackers_to p t AND pos_color_bb p (opp c) = 0"
    unfolding at 1 2 by blast
  have "hits p (occupancy_bb p) u (opp c) t \<or> hits p (occupancy_bb p) u (opp c) k"
    if u: "on_board u" "hits p (occupancy_bb p XOR square_bb k) u (opp c) t" for u
  proof (cases "leap_hit p u (opp c) t \<or> unblocked t u (occupancy_bb p)")
    case True
    then show ?thesis using u(2) unfolding hits_split by blast
  next
    case False
    then have s: "slide_hit p u (opp c) t" "unblocked t u (occupancy_bb p XOR square_bb k)"
      "\<not> unblocked t u (occupancy_bb p)" using u(2) unfolding hits_split by blast+
    have only: "v = k" if "on_board v" "strictly_between t u v" "\<not> free p v" for v
      using s(2) that b [OF that(1)] unfolding unblocked_def by blast
    then have tk: "strictly_between t u k" using s(3) unfolding unblocked_free by blast
    have "free p v" if "on_board v" "strictly_between k u v" for v
      using only [OF that(1) between_nearer [OF tk that(2)]] between_ne [OF that(2)] by blast
    then have "unblocked k u (occupancy_bb p)" unfolding unblocked_free by blast
    then show ?thesis using slide_hit_nearer [OF s(1) tk] unfolding hits_split by blast
  qed
  then show "\<not> attacked p k (opp c) \<Longrightarrow> attackers_to p t AND pos_color_bb p (opp c) = 0 \<Longrightarrow>
      attackers_to_occ_of p t (occupancy_bb p XOR square_bb k) (opp c) = 0"
    unfolding at 1 2 attacked_iff [OF assms(1,3)] by blast
qed

section \<open>Other moves\<close>

text \<open>\<open>f\<close> alone stands between \<open>k\<close> and \<open>u\<close>.\<close>

definition only_blocker :: "position \<Rightarrow> int \<Rightarrow> int \<Rightarrow> int \<Rightarrow> bool" where
  "only_blocker p k u f \<longleftrightarrow> strictly_between k u f \<and>
     (\<forall>v. on_board v \<and> strictly_between k u v \<and> v \<noteq> f \<longrightarrow> free p v)"

text \<open>\<open>stops p c t u\<close>: a piece on \<open>t\<close> captures \<open>u\<close> or stands between it and the king.\<close>

definition stops :: "position \<Rightarrow> color \<Rightarrow> int \<Rightarrow> int \<Rightarrow> bool" where
  "stops p c t u \<longleftrightarrow> u = t \<or> strictly_between (king_square p c) u t"

lemma ordinary_safe:
  assumes "pos_ok p" "move_ok p m" "lone_king p (pos_side_to_move p)"
    and "from_square m \<noteq> king_square p (pos_side_to_move p)" "move_type_of p m \<noteq> CASTLING"
    and "move_type_of p m \<noteq> ENPASSANT"
  defines "c \<equiv> pos_side_to_move p" and "k \<equiv> king_square p (pos_side_to_move p)"
  shows "\<not> king_attacked (make_move m p) c \<longleftrightarrow>
    (\<forall>u. on_board u \<and> hits p (occupancy_bb p) u (opp c) k \<longrightarrow> stops p c (to_square m) u) \<and>
    (\<forall>u. on_board u \<and> slide_hit p u (opp c) k \<and> only_blocker p k u (from_square m) \<longrightarrow> stops p c (to_square m) u)"
    (is "_ \<longleftrightarrow> ?A \<and> ?B")
proof -
  let ?t = "to_square m" and ?f = "from_square m"
  have k: "on_board k" using lone_kingD(1) [OF assms(3)] by (simp add: k_def)
  have fr: "free (make_move m p) v \<longleftrightarrow> v \<noteq> ?t \<and> (free p v \<or> v = ?f)" if "on_board v" for v
    using make_move_occupied [OF assms(1,2) that] assms(5,6) by blast
  have "king_square (make_move m p) c = k"
    using king_after(2) [OF assms(1-3)] assms(4) by (simp add: c_def k_def)
  then have ka: "king_attacked (make_move m p) c \<longleftrightarrow> (\<exists>u. on_board u \<and> u \<noteq> ?t \<and>
      (leap_hit p u (opp c) k \<or> slide_hit p u (opp c) k \<and>
        (\<forall>v. on_board v \<and> strictly_between k u v \<longrightarrow> v \<noteq> ?t \<and> (free p v \<or> v = ?f))))"
    using attacked_after [OF assms(1,2) k] assms(6) fr unfolding king_attacked_def c_def [symmetric] hits_split_free
    by metis
  have st: "stops p c ?t u \<longleftrightarrow> u = ?t \<or> strictly_between k u ?t" for u by (simp add: stops_def k_def c_def)
  show ?thesis
  proof
    assume "\<not> king_attacked (make_move m p) c"
    then have *: "leap_hit p u (opp c) k \<or> slide_hit p u (opp c) k \<and>
        (\<forall>v. on_board v \<and> strictly_between k u v \<longrightarrow> free p v \<or> v = ?f) \<Longrightarrow> on_board u \<Longrightarrow> stops p c ?t u" for u
      unfolding ka st by blast
    show "?A \<and> ?B"
    proof (intro conjI allI impI; elim conjE)
      show "stops p c ?t u" if "on_board u" "hits p (occupancy_bb p) u (opp c) k" for u
        by (rule *) (use that in \<open>auto simp: hits_split_free\<close>)
      show "stops p c ?t u" if "on_board u" "slide_hit p u (opp c) k" "only_blocker p k u ?f" for u
        by (rule *) (use that in \<open>auto simp: only_blocker_def\<close>)
    qed
  next
    assume AB: "?A \<and> ?B"
    show "\<not> king_attacked (make_move m p) c"
    proof
      assume "king_attacked (make_move m p) c"
      then obtain u where u: "on_board u" "u \<noteq> ?t" "leap_hit p u (opp c) k \<or> slide_hit p u (opp c) k \<and>
        (\<forall>v. on_board v \<and> strictly_between k u v \<longrightarrow> v \<noteq> ?t \<and> (free p v \<or> v = ?f))" unfolding ka by blast
      have ns: "\<not> stops p c ?t u" using u leap_hit_not_between [of p u "opp c" k ?t] to_square_on_board
        unfolding st by blast
      have "\<not> leap_hit p u (opp c) k" using AB u(1) ns unfolding hits_split by blast
      then have s: "slide_hit p u (opp c) k"
        "\<And>v. on_board v \<Longrightarrow> strictly_between k u v \<Longrightarrow> free p v \<or> v = ?f" using u(3) by blast+
      show False
      proof (cases "strictly_between k u ?f")
        case True
        then have "only_blocker p k u ?f" using s(2) unfolding only_blocker_def by blast
        then show False using AB u(1) s(1) ns by blast
      next
        case False
        then have "hits p (occupancy_bb p) u (opp c) k" using s unfolding hits_split_free by blast
        then show False using AB u(1) ns by blast
      qed
    qed
  qed
qed

end
