(* ===== verification/Pins.thy ===== *)
theory Pins
  imports Legality
begin

text \<open>
  Pins.  \<open>pinned_pieces_of\<close> toggles a bit for every pinner, so it relies on no piece being pinned
  twice; with that it holds exactly the pieces that alone stand between the king and an enemy slider.
  Staying on the line through the king is then the same as shielding it or taking the pinner.
\<close>

section \<open>The pinned pieces\<close>

lemma bit_fold_xor:
  assumes "distinct xs" "\<And>s t. s \<in> set xs \<Longrightarrow> t \<in> set xs \<Longrightarrow> bit (g s) n \<Longrightarrow> bit (g t) n \<Longrightarrow> s = t"
  shows "bit (fold (\<lambda>s h. h XOR g s) xs (a :: 64 word)) n \<longleftrightarrow> bit a n \<noteq> (\<exists>s\<in>set xs. bit (g s) n)"
  using assms
proof (induction xs arbitrary: a)
  case (Cons x xs)
  have "bit (fold (\<lambda>s h. h XOR g s) xs (a XOR g x)) n \<longleftrightarrow> bit (a XOR g x) n \<noteq> (\<exists>s\<in>set xs. bit (g s) n)"
    by (rule Cons.IH) (use Cons.prems in auto)
  moreover have "\<not> (bit (g x) n \<and> (\<exists>s\<in>set xs. bit (g s) n))" using Cons.prems by auto
  ultimately show ?case by (auto simp: bit_xor_iff)
qed simp

lemma popcount_one: "popcount w = 1 \<longleftrightarrow> (\<exists>s. on_board s \<and> bit w (nat s) \<and> (\<forall>v. on_board v \<and> bit w (nat v) \<longrightarrow> v = s))"
proof -
  have "popcount w = 1 \<longleftrightarrow> length (bb_squares w) = Suc 0" unfolding popcount_eq_length by linarith
  also have "\<dots> \<longleftrightarrow> card (set (bb_squares w)) = Suc 0" using distinct_card [of "bb_squares w"] by simp
  also have "\<dots> \<longleftrightarrow> (\<exists>s. set (bb_squares w) = {s})" by (rule card_1_singleton_iff)
  also have "\<dots> \<longleftrightarrow> (\<exists>s. on_board s \<and> bit w (nat s) \<and> (\<forall>v. on_board v \<and> bit w (nat v) \<longrightarrow> v = s))"
    by (auto simp: set_eq_iff)
  finally show ?thesis .
qed

lemma one_blocker:
  assumes "on_board k" "on_board u" "on_board f"
  shows "popcount (intervening u k AND occupancy_bb p) = 1 \<and> bit (intervening u k AND occupancy_bb p) (nat f) \<longleftrightarrow>
    only_blocker p k u f \<and> \<not> free p f"
proof -
  have b: "bit (intervening u k AND occupancy_bb p) (nat v) \<longleftrightarrow> strictly_between k u v \<and> \<not> free p v"
    if "on_board v" for v
    using intervening_spec [OF assms(2,1) that] strictly_between_sym [of u k] by (simp add: bit_and_iff free_def)
  show ?thesis unfolding popcount_one only_blocker_def using b assms(3) by (metis (no_types, lifting))
qed

lemma slide_hit_lines: "slide_hit p u e k \<longleftrightarrow>
  (has p u QUEEN e \<or> has p u ROOK e) \<and> (u \<noteq> k \<and> rook_line k u) \<or>
  (has p u QUEEN e \<or> has p u BISHOP e) \<and> (u \<noteq> k \<and> bishop_line k u)"
proof -
  have "slide_hit p u e k \<longleftrightarrow> (\<exists>d n. ray k d n u \<and> (\<exists>pt. has p u pt e \<and> slides pt d))"
    unfolding slide_hit_def by blast
  also have "\<dots> \<longleftrightarrow> (\<exists>d n. ray k d n u \<and> ((has p u QUEEN e \<or> has p u ROOK e) \<and> slides ROOK d \<or>
      (has p u QUEEN e \<or> has p u BISHOP e) \<and> slides BISHOP d))"
    unfolding ex_piece_type by (intro ex_cong1 conj_cong refl) (auto simp: slides_def)
  finally show ?thesis unfolding slider_line_ray by blast
qed

lemma pinner_bits:
  assumes "board_ok p" "on_board k" "on_board u"
  shows "bit ((pos_piece_bb p QUEEN OR pos_piece_bb p ROOK) AND pos_color_bb p e AND rook_rays k
      OR (pos_piece_bb p QUEEN OR pos_piece_bb p BISHOP) AND pos_color_bb p e AND bishop_rays k) (nat u)
    \<longleftrightarrow> slide_hit p u e k"
  unfolding slide_hit_lines using ray_tables_spec [OF assms(2,3)] by (auto simp: bit_or_iff bit_and_iff has_def)

lemma pinner_unique:
  assumes "board_ok p" "on_board u" "on_board v" "has p u x e" "has p v y e"
    and "only_blocker p k u f" "only_blocker p k v f"
    and "\<not> has p f x e" "\<not> has p f y e"
  shows "u = v"
proof -
  have "\<not> free p u" "\<not> free p v" using assms(4,5) free_iff [OF assms(1), of u] free_iff [OF assms(1), of v] by blast+
  moreover have "u \<noteq> f" "v \<noteq> f" using assms(4,5,8,9) by blast+
  ultimately have "\<not> strictly_between k u v" "\<not> strictly_between k v u"
    using assms(2,3,6,7) unfolding only_blocker_def by blast+
  then show ?thesis using same_side [of k u f v] assms(6,7) unfolding only_blocker_def by blast
qed

lemma pinned_pieces_spec:
  assumes "board_ok p" "on_board (king_square p c)" "on_board f" "has p f pt c"
  shows "bit (pinned_pieces_of p c) (nat f) \<longleftrightarrow>
    (\<exists>u. on_board u \<and> slide_hit p u (opp c) (king_square p c) \<and> only_blocker p (king_square p c) u f)"
proof -
  let ?k = "king_square p c" and ?e = "opp c"
  let ?pinners = "(pos_piece_bb p QUEEN OR pos_piece_bb p ROOK) AND pos_color_bb p ?e AND rook_rays ?k
      OR (pos_piece_bb p QUEEN OR pos_piece_bb p BISHOP) AND pos_color_bb p ?e AND bishop_rays ?k"
  define g where "g sq = (if popcount (intervening sq ?k AND occupancy_bb p) = 1
      then intervening sq ?k AND occupancy_bb p AND pos_color_bb p c else 0)" for sq
  have pin: "pinned_pieces_of p c = fold (\<lambda>sq h. h XOR g sq) (bb_squares ?pinners) 0"
    unfolding pinned_pieces_of_def Let_def g_def
    by (intro arg_cong [where f = "\<lambda>x. fold x _ _"] ext) (simp add: and.assoc)
  have pf: "\<not> free p f" "bit (pos_color_bb p c) (nat f)" "\<not> has p f x ?e" for x
    using assms(4) free_iff [OF assms(1), of f] has_unique [OF assms(1,4), of x ?e] opp_simps(5) [of c]
    by (auto simp: has_def)
  have g: "bit (g u) (nat f) \<longleftrightarrow> only_blocker p ?k u f" if "on_board u" for u
    using one_blocker [OF assms(2) that assms(3), of p] pf by (auto simp: g_def bit_and_iff)
  have mem: "u \<in> set (bb_squares ?pinners) \<longleftrightarrow> on_board u \<and> slide_hit p u ?e ?k" for u
    using pinner_bits [OF assms(1,2), of u ?e] by (simp only: mem_bb_squares cong: conj_cong)
  have "bit (pinned_pieces_of p c) (nat f) \<longleftrightarrow> bit (0 :: 64 word) (nat f) \<noteq> (\<exists>u\<in>set (bb_squares ?pinners). bit (g u) (nat f))"
    unfolding pin
  proof (rule bit_fold_xor)
    show "distinct (bb_squares ?pinners)" by (rule distinct_bb_squares)
    show "u = v" if "u \<in> set (bb_squares ?pinners)" "v \<in> set (bb_squares ?pinners)" "bit (g u) (nat f)" "bit (g v) (nat f)" for u v
    proof -
      have uv: "on_board u" "on_board v" "slide_hit p u ?e ?k" "slide_hit p v ?e ?k" using that mem by blast+
      then obtain x y where "has p u x ?e" "has p v y ?e" by (auto simp: slide_hit_def)
      then show ?thesis using pinner_unique [OF assms(1) uv(1,2)] g that(3,4) uv(1,2) pf(3) by blast
    qed
  qed
  also have "\<dots> \<longleftrightarrow> (\<exists>u\<in>set (bb_squares ?pinners). bit (g u) (nat f))" by (simp only: bit_0_eq bot_apply bot_bool_def simp_thms)
  also have "\<dots> \<longleftrightarrow> (\<exists>u. on_board u \<and> slide_hit p u ?e ?k \<and> only_blocker p ?k u f)"
    unfolding Bex_def mem using g by blast
  finally show ?thesis .
qed

section \<open>Staying on the line\<close>

text \<open>No move of the rules but castling jumps over a piece.\<close>

lemma pawn_steps_between:
  assumes "strictly_between f (pawn_shift f c 2) v"
  shows "v = pawn_shift f c 1"
proof (rule sq_coords_eqI)
  have f: "sq_file (s + 8 * n) = sq_file s" "sq_rank (s + 8 * n) = sq_rank s + n" for s n :: int
    by (simp_all add: sq_file_mod sq_rank_div)
  note f' = f [of f 1] f [of f 2] f [of f "-1"] f [of f "-2"]
  show "sq_file v = sq_file (pawn_shift f c 1)"
    using assms f' unfolding strictly_between_def pawn_shift_def diag_plus_def diag_minus_def inside_def
    by (cases c) simp_all
  show "sq_rank v = sq_rank (pawn_shift f c 1)"
    using assms f' unfolding strictly_between_def pawn_shift_def diag_plus_def diag_minus_def inside_def
    by (cases c) (simp_all, linarith+)
qed

lemma sees_unblocked: "sees pt occ f t \<Longrightarrow> unblocked f t occ"
proof -
  assume s: "sees pt occ f t"
  show ?thesis
  proof (cases "pt \<in> {BISHOP, ROOK, QUEEN}")
    case True
    then show ?thesis using s by (auto simp: sees_def)
  next
    case False
    then have "\<not> strictly_between f t u" for u using s by (intro leap_not_between) (cases pt; auto simp: sees_def)
    then show ?thesis by (simp add: unblocked_def)
  qed
qed

lemma chess_move_unblocked:
  assumes "chess_move p c m" "\<not> castle_move p c m"
  shows "unblocked (from_square m) (to_square m) (occupancy_bb p)"
proof -
  from assms consider "piece_move p c m" | "pawn_push p c m" | "pawn_capture p c m" by (auto simp: chess_move_def)
  then show ?thesis
  proof cases
    case 1
    then show ?thesis using sees_unblocked by (auto simp: piece_move_def mk_move_fields)
  next
    case 2
    then obtain f t where ft: "on_board f" "on_board t" "from_square m = f" "to_square m = t"
      "t = pawn_shift f c 1 \<or> t = pawn_shift f c 2 \<and> free p (pawn_shift f c 1)"
      unfolding pawn_push_def by (auto simp: mk_move_fields mk_move_promo_fields split: if_splits)
    have "free p v" if "on_board v" "strictly_between f t v" for v
    proof (cases "t = pawn_shift f c 1")
      case True
      have "\<not> strictly_between f t v" unfolding True
        by (rule leap_not_between) (auto simp: pawn_shift_def sq_file_mod sq_rank_div)
      then show ?thesis using that by blast
    next
      case False
      then show ?thesis using ft(5) that pawn_steps_between by blast
    qed
    then show ?thesis unfolding ft(3,4) unblocked_free by blast
  next
    case 3
    then have "pawn_sees (from_square m) c (to_square m)"
      unfolding pawn_capture_def by (auto simp: mk_move_fields mk_move_promo_fields split: if_splits)
    then have "\<not> strictly_between (from_square m) (to_square m) v" for v
      by (intro leap_not_between) (auto simp: pawn_sees_def split: if_splits)
    then show ?thesis by (simp add: unblocked_def)
  qed
qed

lemma pin_line:
  assumes "board_ok p" "on_board k" "on_board f" "on_board t" "on_board u"
    and "\<not> free p k" "\<not> free p u" "t \<noteq> k" "unblocked f t (occupancy_bb p)" "only_blocker p k u f"
  shows "bit (full_ray k f) (nat t) \<longleftrightarrow> u = t \<or> strictly_between k u t"
proof -
  obtain d n m where r: "ray k d n u" "ray k d m f" "m < n"
    using assms(10) unfolding only_blocker_def between_ray by blast
  note fr = full_ray_ray [OF assms(2-4) r(2)]
  have un: "free p v" if "on_board v" "strictly_between f t v" for v
    using assms(9) that unfolding unblocked_free by blast
  show ?thesis
  proof
    assume "bit (full_ray k f) (nat t)"
    then obtain j where j: "sq_file t = sq_file k + j * fst d" "sq_rank t = sq_rank k + j * snd d"
      using fr by blast
    consider "j < 0" | "j = 0" | "0 < j" "j < n" | "j = n" | "n < j" by linarith
    then show "u = t \<or> strictly_between k u t"
    proof cases
      case 1
      have "ray f (- fst d, - snd d) (m - j) t" "ray f (- fst d, - snd d) m k"
        using r(2) 1 j dirs_minus [of d] by (auto simp: ray_def algebra_simps)
      then have "strictly_between f t k" using 1 between_on_rays by fastforce
      then show ?thesis using un assms(2,6) by blast
    next
      case 2
      then show ?thesis using j assms(8) sq_coords_eqI [of t k] by simp
    next
      case 3
      then have "ray k d j t" using j r(1) by (simp add: ray_def)
      then show ?thesis using between_on_rays [OF r(1)] 3 by blast
    next
      case 4
      then have "ray k d n t" using j r(1) by (simp add: ray_def)
      then show ?thesis using ray_same [OF r(1)] by blast
    next
      case 5
      then have "ray k d j t" using j r(1) by (simp add: ray_def)
      then have "ray f d (j - m) t" "ray f d (n - m) u" using ray_shift [OF r(2)] r 5 by simp_all
      then have "strictly_between f t u" using 5 between_on_rays by fastforce
      then show ?thesis using un assms(5,7) by blast
    qed
  next
    assume "u = t \<or> strictly_between k u t"
    then obtain j where "ray k d j t" using r(1) between_on_ray by blast
    then show "bit (full_ray k f) (nat t)" unfolding fr by (auto simp: ray_def)
  qed
qed

text \<open>The pin test of \<open>is_legal_generated_move\<close>.\<close>

lemma pin_test:
  assumes "board_ok p" "lone_king p c" "on_board f" "on_board t" "has p f pt c" "t \<noteq> king_square p c"
    and "unblocked f t (occupancy_bb p)"
  shows "(pinned_pieces_of p c AND square_bb f = 0 \<or> square_bb t AND full_ray (king_square p c) f \<noteq> 0) \<longleftrightarrow>
    (\<forall>u. on_board u \<and> slide_hit p u (opp c) (king_square p c) \<and> only_blocker p (king_square p c) u f
      \<longrightarrow> stops p c t u)"
proof -
  let ?k = "king_square p c"
  note K = lone_kingD [OF assms(2)]
  have nf: "\<not> free p ?k" using K(2) free_iff [OF assms(1)] by blast
  have "bit (full_ray ?k f) (nat t) \<longleftrightarrow> stops p c t u"
    if "on_board u" "slide_hit p u (opp c) ?k" "only_blocker p ?k u f" for u
    unfolding stops_def using that free_iff [OF assms(1), of u]
    by (intro pin_line [OF assms(1) K(1) assms(3,4) that(1) nf _ assms(6,7) that(3)]) (auto simp: slide_hit_def)
  moreover have "pinned_pieces_of p c AND square_bb f = 0 \<longleftrightarrow> \<not> bit (pinned_pieces_of p c) (nat f)"
    using assms(3) by simp
  moreover have "square_bb t AND full_ray ?k f \<noteq> 0 \<longleftrightarrow> bit (full_ray ?k f) (nat t)"
    using assms(4) by (simp add: and.commute)
  ultimately show ?thesis unfolding pinned_pieces_spec [OF assms(1) K(1) assms(3,5)] by blast
qed

end
