(* ===== verification/Evasions_Complete.thy ===== *)
theory Evasions_Complete
  imports Legal_Moves
begin

text \<open>
  The check evasion generator is complete: every move of the rules that answers all checkers is on
  its list, and a non-king move on its list answers the one checker there is.
\<close>

section \<open>The kinds of moves\<close>

lemma piece_move_facts:
  assumes "piece_move p c m"
  shows "\<exists>pt. has p (from_square m) pt c \<and> sees pt (occupancy_bb p) (from_square m) (to_square m)"
    "move_type m \<in> {NORMAL, CAPTURE}" "free p (to_square m) \<or> enemy p (to_square m) c"
  using assms unfolding piece_move_def by (auto simp: mk_move_fields)

lemma pawn_push_facts:
  assumes "pawn_push p c m"
  shows "has p (from_square m) PAWN c" "free p (to_square m)" "move_type m \<in> {NORMAL, DOUBLE_PUSH, PROMOTION}"
  using assms unfolding pawn_push_def by (auto simp: mk_move_fields mk_move_promo_fields split: if_splits)

lemma pawn_capture_facts:
  assumes "pawn_capture p c m"
  shows "has p (from_square m) PAWN c" "pawn_sees (from_square m) c (to_square m)"
    "enemy p (to_square m) c \<and> move_type m \<in> {CAPTURE, CAPTURE_PROMOTION} \<or>
      enpassant_square p = Some (to_square m) \<and> m = mk_move (from_square m) (to_square m) ENPASSANT"
  using assms unfolding pawn_capture_def by (auto simp: mk_move_fields mk_move_promo_fields split: if_splits)

lemma enpassant_move_cases:
  assumes "rights_ok p" "chess_move p c m" "move_type m = ENPASSANT"
  shows "pawn_capture p c m" "enpassant_square p = Some (to_square m)"
    "m = mk_move (from_square m) (to_square m) ENPASSANT"
proof -
  show pc: "pawn_capture p c m" using assms piece_move_facts(2) [of p c m] pawn_push_facts(3) [of p c m]
      castle_move_facts(4) [of p c m] unfolding chess_move_def by auto
  show "enpassant_square p = Some (to_square m)" "m = mk_move (from_square m) (to_square m) ENPASSANT"
    using pawn_capture_facts(3) [OF pc] assms(3) by auto
qed

section \<open>One checker\<close>

abbreviation checker_sq :: "position \<Rightarrow> color \<Rightarrow> int" where
  "checker_sq p c \<equiv> forward_bitscan (checkers_to p c)"

abbreviation checks :: "position \<Rightarrow> color \<Rightarrow> int \<Rightarrow> bool" where
  "checks p c u \<equiv> hits p (occupancy_bb p) u (opp c) (king_square p c)"

lemma bit_checkers:
  assumes "board_ok p" "has_king p c" "on_board u"
  shows "bit (checkers_to p c) (nat u) \<longleftrightarrow> checks p c u"
  unfolding checkers_to_def using bit_attackers_to_of [OF king_square_has(1) [OF assms(2)] assms(3,1)] .

lemma popcount_le_one:
  assumes "w \<noteq> 0"
  shows "\<not> popcount w > 1 \<longleftrightarrow> (\<forall>v. on_board v \<and> bit w (nat v) \<longrightarrow> v = forward_bitscan w)"
proof -
  note lo = forward_bitscan_lowest(1,2) [OF assms]
  have "bb_squares w \<noteq> []" using lo mem_bb_squares [of "forward_bitscan w" w] by (auto simp del: mem_bb_squares)
  then have "\<not> popcount w > 1 \<longleftrightarrow> popcount w = 1" unfolding popcount_eq_length
    using length_greater_0_conv [of "bb_squares w"] by linarith
  then show ?thesis unfolding popcount_one using lo by metis
qed

lemma single_checker:
  assumes "board_ok p" "has_king p c" "checkers_to p c \<noteq> 0"
  shows "\<not> popcount (checkers_to p c) > 1 \<longleftrightarrow> (\<forall>u. on_board u \<and> checks p c u \<longrightarrow> u = checker_sq p c)"
  unfolding popcount_le_one [OF assms(3)] using bit_checkers [OF assms(1,2)] by metis

text \<open>No single square answers two checkers.\<close>

lemma double_check_unanswered:
  assumes "board_ok p" "on_board u" "on_board v" "checks p c u" "checks p c v" "stops p c t u" "stops p c t v"
  shows "u = v"
proof -
  have not_free: "\<not> free p u" "\<not> free p v"
    using assms(4,5) hits_has free_iff [OF assms(1)] by meson+
  have "\<not> strictly_between (king_square p c) u v" "\<not> strictly_between (king_square p c) v u"
    using hits_between_free [OF assms(1,4) _ assms(3)] hits_between_free [OF assms(1,5) _ assms(2)] not_free by blast+
  then show ?thesis using assms(6,7) same_side unfolding stops_def by metis
qed

lemma answered_single:
  assumes "board_ok p" "has_king p c" "checkers_to p c \<noteq> 0"
    and "\<And>u. on_board u \<Longrightarrow> checks p c u \<Longrightarrow> stops p c t u"
  shows "\<not> popcount (checkers_to p c) > 1" "stops p c t (checker_sq p c)"
  using assms checker_hits [OF assms(1-3)] double_check_unanswered [OF assms(1)]
  unfolding single_checker [OF assms(1-3)] by blast+

section \<open>The three lists\<close>

lemma mem_king_steps:
  assumes "board_ok p" "lone_king p c" "chess_move p c m" "\<not> castle_move p c m" "from_square m = king_square p c"
    and "attackers_to_occ_of p (to_square m) (occupancy_bb p XOR square_bb (king_square p c)) (opp c) = 0"
  shows "m \<in> set (check_evasion_move_list p c)"
proof -
  let ?k = "king_square p c"
  note K = lone_kingD [OF assms(2)]
  have "\<not> has p ?k PAWN c" using has_unique [OF assms(1) K(2), of PAWN c] by auto
  then have "piece_move p c m" using assms(3-5) pawn_push_facts(1) [of p c m] pawn_capture_facts(1) [of p c m]
    unfolding chess_move_def by auto
  then obtain pt f t where "on_board f" and m': "on_board t" "has p f pt c" "sees pt (occupancy_bb p) f t"
    "free p t \<and> m = mk_move f t NORMAL \<or> enemy p t c \<and> m = mk_move f t CAPTURE" unfolding piece_move_def by blast
  moreover have "f = ?k" using m' assms(5) mk_move_fields(1) [OF \<open>on_board f\<close> m'(1)] by auto
  ultimately have m: "on_board t" "has p ?k pt c" "sees pt (occupancy_bb p) ?k t"
    "free p t \<and> m = mk_move ?k t NORMAL \<or> enemy p t c \<and> m = mk_move ?k t CAPTURE" by blast+
  have "pt = KING" using has_unique [OF assms(1) K(2) m(2)] by simp
  then have ka: "bit (king_attacks ?k) (nat t)" using m(3) king_attacks_spec [OF K(1) m(1)] by (simp add: sees_def)
  have own: "\<not> bit (pos_color_bb p c) (nat t)" using m(4)
    board_ok_color [OF assms(1), of c "nat t" "opp c"] opp_simps(5) [of c] by (auto simp: enemy_def free_def bit_occupancy)
  have cap: "square_bb t AND pos_color_bb p (opp c) \<noteq> 0 \<longleftrightarrow> enemy p t c" using m(1) by (simp add: enemy_def)
  have to: "to_square m = t" using m(4) mk_move_fields [OF K(1) m(1)] by auto
  have "\<not> enemy p t c" if "free p t" using that by (auto simp: enemy_def free_def bit_occupancy)
  then have m': "m = mk_move ?k t (if square_bb t AND pos_color_bb p (opp c) \<noteq> 0 then CAPTURE else NORMAL)"
    unfolding cap using m(4) by auto
  have "m \<in> set (concat (map (\<lambda>sq. if attackers_to_occ_of p sq (occupancy_bb p XOR square_bb ?k) (opp c) = 0
      then [mk_move ?k sq (if square_bb sq AND pos_color_bb p (opp c) \<noteq> 0 then CAPTURE else NORMAL)] else [])
      (bb_squares (king_attacks ?k AND NOT (pos_color_bb p c)))))"
    unfolding mem_loop
    by (intro exI [of _ t]) (use m(1) ka own assms(6) to m' in \<open>simp add: bit_and_iff bit_not_iff on_board_nat\<close>)
  then show ?thesis unfolding check_evasion_move_list_def Let_def by (simp del: set_concat set_map split: if_splits)
qed

text \<open>A capture of the checker that is not the king's or en passant.\<close>

lemma mem_checker_captures:
  assumes "board_ok p" "rights_ok p" "lone_king p c" "checkers_to p c \<noteq> 0" "\<not> popcount (checkers_to p c) > 1"
    and "chess_move p c m" "from_square m \<noteq> king_square p c" "move_type m \<noteq> ENPASSANT" "to_square m = checker_sq p c"
  shows "m \<in> set (generate_checker_capture_moves p c)"
proof -
  let ?s = "checker_sq p c" and ?k = "king_square p c"
  let ?pawns = "piece_type_color_bb p PAWN c"
  let ?att = "attackers_to_of p ?s c AND NOT (square_bb ?k)" and ?r7 = "?pawns AND relative_rank_mask 6 c"
  note K = lone_kingD [OF assms(3)]
  have hk: "has_king p c" using assms(3) by (simp add: lone_king_def)
  note ch = checker_hits [OF assms(1) hk assms(4)]
  have sf: "\<not> free p ?s" using hits_has [OF ch(2)] free_iff [OF assms(1)] by blast
  have nc: "\<not> castle_move p c m" using castle_move_facts(2) [OF assms(2)] K(3) assms(7) from_square_on_board by blast
  have npush: "\<not> pawn_push p c m" using assms(9) sf pawn_push_facts(2) [of p c m] by auto
  have att: "bit ?att (nat f) \<longleftrightarrow> hits p (occupancy_bb p) f c ?s \<and> f \<noteq> ?k" if "on_board f" for f
    using that bit_attackers_to_of [OF ch(1) that assms(1)] nat_eq_square [OF K(1) that] K(1)
    by (auto simp: bit_and_iff bit_not_iff on_board_def)
  have r7: "bit ?r7 (nat f) \<longleftrightarrow> has p f PAWN c \<and> relative_rank (sq_rank f) c = 6" if "on_board f" for f
    using that by (simp add: bit_and_iff bit_piece_type_color bit_relative_rank_mask)
  have cap: "m = mk_move f ?s CAPTURE \<Longrightarrow> m \<in> set (map (\<lambda>sq. mk_move sq ?s CAPTURE) (bb_squares (?att AND NOT ?r7)))"
    if "on_board f" "hits p (occupancy_bb p) f c ?s" "f \<noteq> ?k" "\<not> (has p f PAWN c \<and> relative_rank (sq_rank f) c = 6)" for f
  proof -
    have "bit (?att AND NOT ?r7) (nat f)" unfolding bit_and_iff [of ?att] bit_not_iff
      using that att [of f] r7 [of f] on_board_nat [of f] by (simp only: possible_bit_word simp_thms) auto
    then show "m = mk_move f ?s CAPTURE \<Longrightarrow> m \<in> set (map (\<lambda>sq. mk_move sq ?s CAPTURE) (bb_squares (?att AND NOT ?r7)))"
      unfolding mem_loop using that(1) by blast
  qed
  have prom: "m \<in> set (evasion_promotions f ?s CAPTURE_PROMOTION) \<Longrightarrow>
      m \<in> set (concat (map (\<lambda>sq. evasion_promotions sq ?s CAPTURE_PROMOTION) (bb_squares (?att AND ?r7))))"
    if "on_board f" "hits p (occupancy_bb p) f c ?s" "f \<noteq> ?k" "has p f PAWN c" "relative_rank (sq_rank f) c = 6" for f
  proof -
    have "bit (?att AND ?r7) (nat f)" unfolding bit_and_iff [of ?att] using that att [of f] r7 [of f] by blast
    then show "m \<in> set (evasion_promotions f ?s CAPTURE_PROMOTION) \<Longrightarrow>
      m \<in> set (concat (map (\<lambda>sq. evasion_promotions sq ?s CAPTURE_PROMOTION) (bb_squares (?att AND ?r7))))"
      unfolding mem_loop using that(1) by blast
  qed
  have "m \<in> set (concat (map (\<lambda>sq. evasion_promotions sq ?s CAPTURE_PROMOTION) (bb_squares (?att AND ?r7)))) \<or>
    m \<in> set (map (\<lambda>sq. mk_move sq ?s CAPTURE) (bb_squares (?att AND NOT ?r7)))"
  proof (cases "piece_move p c m")
    case True
    then obtain pt f t where m: "on_board f" "on_board t" "has p f pt c" "sees pt (occupancy_bb p) f t"
      "m = mk_move f t NORMAL \<and> free p t \<or> m = mk_move f t CAPTURE" unfolding piece_move_def by blast
    have ft: "from_square m = f" "to_square m = t" using m(5) mk_move_fields [OF m(1,2)] by auto
    have "m = mk_move f ?s CAPTURE" using m(5) ft assms(9) sf by auto
    moreover have "hits p (occupancy_bb p) f c ?s" using m(3,4) ft assms(9) unfolding hits_def by auto
    moreover have "\<not> has p f PAWN c" using has_unique [OF assms(1) m(3), of PAWN c] m(4) by auto
    ultimately show ?thesis using cap [OF m(1)] ft assms(7) by blast
  next
    case False
    then have "pawn_capture p c m" using assms(6) nc npush unfolding chess_move_def by blast
    then obtain f t where m: "on_board f" "on_board t" "has p f PAWN c" "pawn_sees f c t"
      "if relative_rank (sq_rank f) c = 6 then \<exists>pt\<in>set promotion_types. m = mk_move_promo f t pt CAPTURE_PROMOTION
         else m = mk_move f t CAPTURE"
      using assms(8) unfolding pawn_capture_def by (auto simp: mk_move_fields)
    have ft: "from_square m = f" "to_square m = t"
      using m(5) mk_move_fields [OF m(1,2)] mk_move_promo_fields [OF m(1,2)] by (auto split: if_splits)
    have h: "hits p (occupancy_bb p) f c ?s" using m(3,4) ft assms(9) unfolding hits_def by auto
    show ?thesis
    proof (cases "relative_rank (sq_rank f) c = 6")
      case True
      then have "m \<in> set (evasion_promotions f ?s CAPTURE_PROMOTION)"
        using m(5) ft assms(9) unfolding mem_evasion_promotions mem_promotions by auto
      then show ?thesis using prom [OF m(1) h _ m(3) True] ft assms(7) by blast
    next
      case False
      then show ?thesis using cap [OF m(1) h] m(5) ft assms(7,9) by auto
    qed
  qed
  then show ?thesis unfolding generate_checker_capture_moves_def Let_def set_append
    using assms(5) by (simp del: set_concat set_map)
qed

text \<open>An interposition that is not en passant.\<close>

lemma mem_checker_blocks:
  assumes "board_ok p" "rights_ok p" "lone_king p c" "checkers_to p c \<noteq> 0" "\<not> popcount (checkers_to p c) > 1"
    and "chess_move p c m" "from_square m \<noteq> king_square p c" "move_type m \<noteq> ENPASSANT"
    and "strictly_between (king_square p c) (checker_sq p c) (to_square m)"
  shows "m \<in> set (generate_checker_block_moves p c)"
proof -
  let ?s = "checker_sq p c" and ?k = "king_square p c"
  let ?pawns = "piece_type_color_bb p PAWN c" and ?between = "intervening ?k ?s"
  let ?shifted = "pawn_shift_bb ?between (opp c) 1"
  note K = lone_kingD [OF assms(3)]
  have hk: "has_king p c" using assms(3) by (simp add: lone_king_def)
  note ch = checker_hits [OF assms(1) hk assms(4)]
  have bt: "bit ?between (nat t) \<longleftrightarrow> strictly_between ?k ?s t" if "on_board t" for t
    by (rule intervening_spec [OF K(1) ch(1) that])
  have tf: "free p (to_square m)" by (rule hits_between_free [OF assms(1) ch(2) assms(9) to_square_on_board])
  have bm: "bit ?between (nat (to_square m))" using bt [OF to_square_on_board] assms(9) by blast
  then have nz: "?between \<noteq> 0" by auto
  have nc: "\<not> castle_move p c m" using castle_move_facts(2) [OF assms(2)] K(3) assms(7) from_square_on_board by blast
  have ne: "\<not> enemy p (to_square m) c" using tf by (auto simp: enemy_def free_def bit_occupancy)
  have r6: "c = WHITE \<and> sq_rank q = 6 \<or> c = BLACK \<and> sq_rank q = 1 \<longleftrightarrow> relative_rank (sq_rank q) c = 6" for q
    by (cases c) (auto simp: relative_rank_def)
  note bits = bit_and_iff bit_or_iff bit_not_iff bit_piece_type_color bit_relative_rank_mask on_board_nat
    bit_pawn_shift bit_free
  let ?dbl = "pawn_shift_bb (?shifted AND NOT (occupancy_bb p)) (opp c) 1 AND ?pawns AND relative_rank_mask 1 c"
  have "m \<in> set (map (\<lambda>f. mk_move f (pawn_shift f c 2) DOUBLE_PUSH) (bb_squares ?dbl)) \<or>
    m \<in> set (concat (map (\<lambda>f. let target_sq = pawn_shift f c 1 in
        if relative_rank (sq_rank f) c = 6 then evasion_promotions f target_sq PROMOTION
        else [mk_move f target_sq NORMAL]) (bb_squares (?shifted AND ?pawns)))) \<or>
    m \<in> set (concat (map (\<lambda>t. map (\<lambda>f. mk_move f t NORMAL)
        (bb_squares (attackers_to_of p t c AND NOT (square_bb ?k OR ?pawns)))) (bb_squares ?between)))"
    (is "?D \<or> ?S \<or> ?P")
  proof (cases "piece_move p c m")
    case True
    then obtain pt f t where m: "on_board f" "on_board t" "has p f pt c" "sees pt (occupancy_bb p) f t"
      "m = mk_move f t NORMAL \<or> m = mk_move f t CAPTURE \<and> enemy p t c" unfolding piece_move_def by blast
    have ft: "from_square m = f" "to_square m = t" using m(5) mk_move_fields [OF m(1,2)] by auto
    have "m = mk_move f t NORMAL" using m(5) ft ne by auto
    moreover have "bit (attackers_to_of p t c) (nat f)"
      using bit_attackers_to_of [OF m(2,1) assms(1)] m(3,4) unfolding hits_def by blast
    moreover have "\<not> has p f PAWN c" using has_unique [OF assms(1) m(3), of PAWN c] m(4) by auto
    moreover have "\<not> bit (square_bb ?k) (nat f)"
      using nat_eq_square [OF K(1) m(1)] K(1) ft assms(7) by (simp add: on_board_def)
    ultimately have "m \<in> set (map (\<lambda>f. mk_move f t NORMAL)
        (bb_squares (attackers_to_of p t c AND NOT (square_bb ?k OR ?pawns))))"
      unfolding mem_loop using m(1) by (intro exI [of _ f]) (simp add: bits)
    then have ?P unfolding mem_loop(1) using m(2) bm ft by (intro exI [of _ t]) simp
    then show ?thesis by blast
  next
    case False
    moreover have "\<not> pawn_capture p c m" using ne assms(8) pawn_capture_facts(3) [of p c m] mk_move_fields(4)
      from_square_on_board to_square_on_board by metis
    ultimately have "pawn_push p c m" using assms(6) nc unfolding chess_move_def by blast
    then obtain f t where m: "on_board f" "on_board t" "has p f PAWN c"
      "t = pawn_shift f c 1 \<and> (if relative_rank (sq_rank f) c = 6
         then \<exists>pt\<in>set promotion_types. m = mk_move_promo f t pt PROMOTION else m = mk_move f t NORMAL) \<or>
       t = pawn_shift f c 2 \<and> relative_rank (sq_rank f) c = 1 \<and> free p (pawn_shift f c 1) \<and> m = mk_move f t DOUBLE_PUSH"
      unfolding pawn_push_def by blast
    have ft: "to_square m = t"
      using m(4) mk_move_fields [OF m(1,2)] mk_move_promo_fields [OF m(1,2)] by (auto split: if_splits)
    from m(4) show ?thesis
    proof (elim disjE conjE)
      assume t: "t = pawn_shift f c 1" and mm: "if relative_rank (sq_rank f) c = 6
         then \<exists>pt\<in>set promotion_types. m = mk_move_promo f t pt PROMOTION else m = mk_move f t NORMAL"
      have "bit (?shifted AND ?pawns) (nat f)" using m(1-3) bm ft t by (simp add: bits)
      moreover have "m \<in> set (let target_sq = pawn_shift f c 1 in
        if relative_rank (sq_rank f) c = 6 then evasion_promotions f target_sq PROMOTION else [mk_move f target_sq NORMAL])"
        using mm t unfolding Let_def by (auto simp: mem_evasion_promotions mem_promotions split: if_splits)
      ultimately have ?S unfolding mem_loop(1) using m(1) by blast
      then show ?thesis by blast
    next
      assume t: "t = pawn_shift f c 2" "relative_rank (sq_rank f) c = 1" "free p (pawn_shift f c 1)" "m = mk_move f t DOUBLE_PUSH"
      have mid: "on_board (pawn_shift f c 1)" using m(1,2) t(1) by (cases c; simp add: pawn_shift_def on_board_def)
      have "bit ?dbl (nat f)" using m(1-3) mid bm ft t by (simp add: bits pawn_shift_twice)
      then have ?D unfolding mem_loop(2) using m(1) t(1,4) by blast
      then show ?thesis by blast
    qed
  qed
  then show ?thesis unfolding generate_checker_block_moves_def Let_def r6 set_append
    using assms(5) nz by (simp del: set_concat set_map)
qed

text \<open>En passant against the pawn that gives check.\<close>

lemma mem_checker_ep:
  assumes "board_ok p" "ep_ok p" "lone_king p c" "c = pos_side_to_move p" "checkers_to p c \<noteq> 0" "\<not> popcount (checkers_to p c) > 1"
    and "chess_move p c m" "move_type m = ENPASSANT" "checks p c (ep_victim c (to_square m))"
    and "rights_ok p"
  shows "m \<in> set (generate_checker_capture_moves p c)"
proof -
  let ?f = "from_square m" and ?t = "to_square m"
  note E = enpassant_move_cases [OF assms(10,7,8)] and P = pawn_capture_facts [OF enpassant_move_cases(1) [OF assms(10,7,8)]]
  have v: "on_board (ep_victim c ?t)" using assms(2,4) E(2) by (simp add: ep_ok_def)
  have hk: "has_king p c" using assms(3) by (simp add: lone_king_def)
  have "pawn_shift_bb (square_bb ?t) (opp c) 1 = square_bb (ep_victim c ?t)"
    using pawn_shift_square [OF to_square_on_board, of m "opp c"] v by (simp add: ep_victim_shift)
  then have "pawn_shift_bb (square_bb ?t) (opp c) 1 AND checkers_to p c \<noteq> 0"
    using bit_checkers [OF assms(1) hk v] assms(9) v by (simp add: and.commute)
  moreover have "m \<in> set (map (\<lambda>sq. mk_move sq ?t ENPASSANT) (bb_squares (piece_type_color_bb p PAWN c AND pawn_attacks ?t (opp c))))"
    unfolding mem_loop using P(1,2) E(3)
    by (intro exI [of _ ?f]) (simp add: bit_and_iff bit_piece_type_color bit_pawn_sees pawn_sees_back)
  ultimately show ?thesis unfolding generate_checker_capture_moves_def Let_def set_append
    using assms(6) E(2) by (simp del: set_concat set_map)
qed

end
