(* ===== verification/Fair_Play.thy ===== *)
theory Fair_Play
  imports Evasions_Complete
begin

text \<open>
  Move generation as a whole.  In a position of lawful play the legal list holds exactly the moves of
  the rules that leave the mover's king safe; playing one keeps the position lawful, so no king is
  ever captured and the generator stays correct along every game.
\<close>

section \<open>What the evasion list holds\<close>

lemma checker_blocksE:
  assumes "m \<in> set (generate_checker_block_moves p c)"
    and "\<And>f. bit (piece_type_color_bb p PAWN c) (nat f) \<Longrightarrow> f \<noteq> king_square p c"
    and "\<And>f. on_board f \<Longrightarrow> bit (square_bb (king_square p c)) (nat f) \<longleftrightarrow> f = king_square p c"
  obtains f t ty where "on_board f" "on_board t" "bit (intervening (king_square p c) (checker_sq p c)) (nat t)"
    "f \<noteq> king_square p c" "m = mk_move f t ty \<or> (\<exists>pt. m = mk_move_promo f t pt PROMOTION)"
proof -
  let ?k = "king_square p c" and ?s = "checker_sq p c" and ?pawns = "piece_type_color_bb p PAWN c"
  let ?between = "intervening ?k ?s"
  let ?shifted = "pawn_shift_bb ?between (opp c) 1"
  have r6: "c = WHITE \<and> sq_rank q = 6 \<or> c = BLACK \<and> sq_rank q = 1 \<longleftrightarrow> relative_rank (sq_rank q) c = 6" for q
    by (cases c) (auto simp: relative_rank_def)
  note bits = bit_and_iff bit_or_iff bit_not_iff on_board_nat bit_pawn_shift
  from assms(1) consider
    (double) "m \<in> set (map (\<lambda>f. mk_move f (pawn_shift f c 2) DOUBLE_PUSH)
      (bb_squares (pawn_shift_bb (?shifted AND NOT (occupancy_bb p)) (opp c) 1 AND ?pawns AND relative_rank_mask 1 c)))"
    | (single) "m \<in> set (concat (map (\<lambda>f. let target_sq = pawn_shift f c 1 in
        if relative_rank (sq_rank f) c = 6 then evasion_promotions f target_sq PROMOTION
        else [mk_move f target_sq NORMAL]) (bb_squares (?shifted AND ?pawns))))"
    | (piece) "m \<in> set (concat (map (\<lambda>t. map (\<lambda>f. mk_move f t NORMAL)
        (bb_squares (attackers_to_of p t c AND NOT (square_bb ?k OR ?pawns)))) (bb_squares ?between)))"
    unfolding generate_checker_block_moves_def Let_def r6 set_append
    by (simp_all del: set_map set_concat split: if_splits, blast+)
  then show thesis
  proof cases
    case double
    then obtain f where f: "on_board f" "on_board (pawn_shift (pawn_shift f c 1) c 1)"
      "bit ?between (nat (pawn_shift (pawn_shift f c 1) c 1))" "bit ?pawns (nat f)" "m = mk_move f (pawn_shift f c 2) DOUBLE_PUSH"
      unfolding mem_loop by (auto simp: bits)
    then show thesis using that [of f "pawn_shift f c 2" DOUBLE_PUSH] assms(2) unfolding pawn_shift_twice by blast
  next
    case single
    then obtain f where f: "on_board f" "on_board (pawn_shift f c 1)" "bit ?between (nat (pawn_shift f c 1))"
      "bit ?pawns (nat f)" "m \<in> set (if relative_rank (sq_rank f) c = 6
        then evasion_promotions f (pawn_shift f c 1) PROMOTION else [mk_move f (pawn_shift f c 1) NORMAL])"
      unfolding mem_loop Let_def by (auto simp: bits)
    then have "m = mk_move f (pawn_shift f c 1) NORMAL \<or> (\<exists>pt. m = mk_move_promo f (pawn_shift f c 1) pt PROMOTION)"
      by (auto simp: mem_evasion_promotions mem_promotions split: if_splits)
    then show thesis using that f assms(2) by blast
  next
    case piece
    then obtain f t where "on_board f" "on_board t" "bit ?between (nat t)"
      "bit (NOT (square_bb ?k OR ?pawns)) (nat f)" "m = mk_move f t NORMAL"
      unfolding mem_loop bit_and_iff by blast
    then show thesis using that [of f t NORMAL] assms(3) by (auto simp: bits)
  qed
qed

lemma check_evasion_answers:
  assumes "board_ok p" "lone_king p c" "checkers_to p c \<noteq> 0" "m \<in> set (check_evasion_move_list p c)"
    and "ep_on_board p"
  shows "from_square m = king_square p c \<and> move_type m \<in> {NORMAL, CAPTURE} \<and>
      attackers_to_occ_of p (to_square m) (occupancy_bb p XOR square_bb (king_square p c)) (opp c) = 0 \<or>
    from_square m \<noteq> king_square p c \<and> \<not> popcount (checkers_to p c) > 1 \<and>
      (move_type m = ENPASSANT \<or> stops p c (to_square m) (checker_sq p c))"
proof -
  let ?k = "king_square p c" and ?s = "checker_sq p c" and ?pawns = "piece_type_color_bb p PAWN c"
  note K = lone_kingD [OF assms(2)]
  have hk: "has_king p c" using assms(2) by (simp add: lone_king_def)
  note ch = checker_hits [OF assms(1) hk assms(3)]
  have pk: "f \<noteq> ?k" if "bit ?pawns (nat f)" for f
    using that has_unique [OF assms(1) K(2), of PAWN c] by (auto simp: bit_piece_type_color)
  have kk: "bit (square_bb ?k) (nat f) \<longleftrightarrow> f = ?k" if "on_board f" for f
    using nat_eq_square [OF K(1) that] on_board_nat [OF that] by auto
  from assms(4) consider
    (king) s where "on_board s" "attackers_to_occ_of p s (occupancy_bb p XOR square_bb ?k) (opp c) = 0"
      "m = mk_move ?k s (if square_bb s AND pos_color_bb p (opp c) \<noteq> 0 then CAPTURE else NORMAL)"
    | (cap) "\<not> popcount (checkers_to p c) > 1" "m \<in> set (generate_checker_capture_moves p c)"
    | (block) "\<not> popcount (checkers_to p c) > 1" "m \<in> set (generate_checker_block_moves p c)"
    unfolding check_evasion_move_list_def Let_def by (auto split: if_splits)
  then show ?thesis
  proof cases
    case king
    then show ?thesis using mk_move_fields [OF K(1) king(1)] by simp
  next
    case cap
    from cap(2) consider
      (ep) t where "enpassant_square p = Some t" "m \<in> set (map (\<lambda>sq. mk_move sq t ENPASSANT) (bb_squares (?pawns AND pawn_attacks t (opp c))))"
      | (prom) "m \<in> set (concat (map (\<lambda>sq. evasion_promotions sq ?s CAPTURE_PROMOTION)
          (bb_squares ((attackers_to_of p ?s c AND NOT (square_bb ?k)) AND (?pawns AND relative_rank_mask 6 c)))))"
      | (plain) "m \<in> set (map (\<lambda>sq. mk_move sq ?s CAPTURE)
          (bb_squares ((attackers_to_of p ?s c AND NOT (square_bb ?k)) AND NOT (?pawns AND relative_rank_mask 6 c))))"
      unfolding generate_checker_capture_moves_def Let_def set_append
      by (cases "enpassant_square p") (simp_all del: set_map set_concat split: if_splits, blast+)
    then show ?thesis
    proof cases
      case ep
      then obtain f where f: "on_board f" "bit ?pawns (nat f)" "m = mk_move f t ENPASSANT" unfolding mem_loop by (auto simp: bit_and_iff)
      then show ?thesis using cap(1) pk [OF f(2)] mk_move_fields [OF f(1), of t] ep(1) assms(5) by (simp add: ep_on_board_def)
    next
      case prom
      then obtain f pt where f: "on_board f" "bit (NOT (square_bb ?k)) (nat f)" "m = mk_move_promo f ?s pt CAPTURE_PROMOTION"
        unfolding mem_loop mem_evasion_promotions mem_promotions bit_and_iff by blast
      have "f \<noteq> ?k" using f(2) kk [OF f(1)] unfolding bit_not_iff by blast
      then show ?thesis using f(3) cap(1) mk_move_promo_fields [OF f(1) ch(1)] by (simp add: stops_def)
    next
      case plain
      then obtain f where f: "on_board f" "bit (NOT (square_bb ?k)) (nat f)" "m = mk_move f ?s CAPTURE"
        unfolding mem_loop bit_and_iff by blast
      have "f \<noteq> ?k" using f(2) kk [OF f(1)] unfolding bit_not_iff by blast
      then show ?thesis using f(3) cap(1) mk_move_fields [OF f(1) ch(1)] by (simp add: stops_def)
    qed
  next
    case block
    let ?between = "intervening ?k ?s"
    let ?shifted = "pawn_shift_bb ?between (opp c) 1"
    have st: "stops p c t ?s" if "on_board t" "bit ?between (nat t)" for t
      using that intervening_spec [OF K(1) ch(1) that(1)] by (simp add: stops_def)
    from block(2) obtain f t ty where ft: "on_board f" "on_board t" "bit ?between (nat t)" "f \<noteq> ?k"
        "m = mk_move f t ty \<or> (\<exists>pt. m = mk_move_promo f t pt PROMOTION)"
      by (rule checker_blocksE [OF _ pk kk])
    then have "from_square m = f" "to_square m = t"
      using mk_move_fields [OF ft(1,2)] mk_move_promo_fields [OF ft(1,2)] by auto
    then show ?thesis using block(1) st ft by blast
  qed
qed

section \<open>Legal means legal\<close>

lemma chess_move_kind:
  assumes "chess_move p c m"
  shows "move_type m \<noteq> NONE" "move_type m = CASTLING \<longleftrightarrow> castle_move p c m"
proof -
  have c: "castle_move p c m \<Longrightarrow> move_type m = CASTLING"
    unfolding castle_move_def by (auto simp: mk_move_fields on_board_def split: if_splits)
  have "piece_move p c m \<or> pawn_push p c m \<or> pawn_capture p c m \<Longrightarrow> move_type m \<notin> {NONE, CASTLING}"
    using piece_move_facts(2) [of p c m] pawn_push_facts(3) [of p c m] pawn_capture_facts(3) [of p c m]
      mk_move_fields(4) [of "from_square m" "to_square m" ENPASSANT] by auto
  then show "move_type m \<noteq> NONE" "move_type m = CASTLING \<longleftrightarrow> castle_move p c m"
    using assms c unfolding chess_move_def by auto
qed

text \<open>Where the side to move stands: what \<open>legal_iff\<close> needs of a position.\<close>

definition movable :: "position \<Rightarrow> bool" where
  "movable p \<longleftrightarrow> pos_ok p \<and> rights_ok p \<and> ep_ok p \<and> lone_king p (pos_side_to_move p) \<and> ep_fresh p"

lemma king_move_legal:
  assumes "movable p" "c = pos_side_to_move p" "chess_move p c m" "\<not> castle_move p c m" "from_square m = king_square p c"
  shows "m \<in> set (pseudo_legal_move_list p) \<and> is_legal_generated_move p m \<longleftrightarrow> \<not> king_attacked (make_move m p) c"
proof -
  have P: "pos_ok p" "rights_ok p" "ep_ok p" "lone_king p c" "board_ok p"
    using assms(1,2) by (auto simp: movable_def pos_ok_def)
  note K = lone_kingD [OF P(4)]
  have mo: "move_ok p m" using chess_move_fits [OF P(5,2,3)] assms(2,3) by (simp add: move_fits_def)
  note ty = chess_move_kind [OF assms(3)]
  have "move_type m \<noteq> ENPASSANT"
  proof
    assume "move_type m = ENPASSANT"
    then have "has p (from_square m) PAWN c" using enpassant_move_cases(1) [OF P(2) assms(3)] pawn_capture_facts(1) by blast
    then show False using has_unique [OF P(5) K(2)] assms(5) by auto
  qed
  then have test: "is_legal_generated_move p m \<longleftrightarrow> attackers_to p (to_square m) AND pos_color_bb p (opp c) = 0"
    using assms(2,4,5) ty unfolding is_legal_generated_move_def is_legal_generated_move_pinned_def Let_def by auto
  have safe: "\<not> king_attacked (make_move m p) c \<longleftrightarrow>
      attackers_to_occ_of p (to_square m) (occupancy_bb p XOR square_bb (king_square p c)) (opp c) = 0"
    using king_step_safe [OF P(1) mo] P(4) assms(2,4,5) ty by (simp add: move_type_of_typed)
  note st = king_step_test [OF P(5) K(2,1) to_square_on_board [of m]]
  show ?thesis
  proof (cases "in_check p")
    case False
    then have "m \<in> set (pseudo_legal_move_list p)"
      using assms(2,3) mem_pseudo_legal_of [OF ep_ok_on_board [OF P(3)]] by (simp add: pseudo_legal_move_list_def)
    moreover have "\<not> attacked p (king_square p c) (opp c)" using False assms(2) by (simp add: in_check_attacked king_attacked_def)
    ultimately show ?thesis using test safe st by blast
  next
    case True
    then have ch: "checkers_to p c \<noteq> 0" "pseudo_legal_move_list p = check_evasion_move_list p c"
      using assms(2) by (auto simp: in_check_def pseudo_legal_move_list_def)
    show ?thesis unfolding ch(2) test safe
      using mem_king_steps [OF P(5,4) assms(3-5)] st(1) assms(5)
        check_evasion_answers [OF P(5,4) ch(1) _ ep_ok_on_board [OF P(3)], of m] by blast
  qed
qed

lemma ordinary_move_legal:
  assumes "movable p" "c = pos_side_to_move p" "chess_move p c m" "\<not> castle_move p c m" "from_square m \<noteq> king_square p c"
    and "move_type m \<noteq> ENPASSANT"
  shows "m \<in> set (pseudo_legal_move_list p) \<and> is_legal_generated_move p m \<longleftrightarrow> \<not> king_attacked (make_move m p) c"
proof -
  let ?k = "king_square p c" and ?t = "to_square m"
  have P: "pos_ok p" "rights_ok p" "ep_ok p" "lone_king p c" "board_ok p" "has_king p c"
    using assms(1,2) by (auto simp: movable_def pos_ok_def lone_king_def)
  note K = lone_kingD [OF P(4)]
  have mo: "move_ok p m" using chess_move_fits [OF P(5,2,3)] assms(2,3) by (simp add: move_fits_def)
  note ty = chess_move_kind [OF assms(3)] and E = move_ends [OF P(5) mo, folded assms(2)]
  have tk: "?t \<noteq> ?k" using E(3) K(2) by metis
  obtain pt where pt: "has p (from_square m) pt c" using E(2) by blast
  have test: "is_legal_generated_move p m \<longleftrightarrow> (\<forall>u. on_board u \<and> slide_hit p u (opp c) ?k \<and>
      only_blocker p ?k u (from_square m) \<longrightarrow> stops p c ?t u)"
    unfolding pin_test [OF P(5,4) from_square_on_board to_square_on_board pt tk chess_move_unblocked [OF assms(3,4)], symmetric]
    using assms(2,5,6) by (simp add: is_legal_generated_move_def is_legal_generated_move_pinned_def Let_def)
  have safe: "\<not> king_attacked (make_move m p) c \<longleftrightarrow>
      (\<forall>u. on_board u \<and> checks p c u \<longrightarrow> stops p c ?t u) \<and> is_legal_generated_move p m"
    unfolding test using ordinary_safe [OF P(1) mo] P(4) assms(2,4-6) ty by (simp add: move_type_of_typed)
  have "m \<in> set (pseudo_legal_move_list p) \<longleftrightarrow> (\<forall>u. on_board u \<and> checks p c u \<longrightarrow> stops p c ?t u)"
  proof (cases "in_check p")
    case False
    then have "m \<in> set (pseudo_legal_move_list p)"
      using assms(2,3) mem_pseudo_legal_of [OF ep_ok_on_board [OF P(3)]] by (simp add: pseudo_legal_move_list_def)
    moreover have "\<not> checks p c u" if "on_board u" for u
      using False that assms(2) attacked_iff [OF P(5) K(1)] by (auto simp: in_check_attacked king_attacked_def)
    ultimately show ?thesis by blast
  next
    case True
    then have ch: "checkers_to p c \<noteq> 0" "pseudo_legal_move_list p = check_evasion_move_list p c"
      using assms(2) by (auto simp: in_check_def pseudo_legal_move_list_def)
    show ?thesis unfolding ch(2)
    proof
      assume "m \<in> set (check_evasion_move_list p c)"
      then show "\<forall>u. on_board u \<and> checks p c u \<longrightarrow> stops p c ?t u"
        using check_evasion_answers [OF P(5,4) ch(1) _ ep_ok_on_board [OF P(3)], of m] assms(5,6)
          single_checker [OF P(5,6) ch(1)] by blast
    next
      assume "\<forall>u. on_board u \<and> checks p c u \<longrightarrow> stops p c ?t u"
      then have one: "\<not> popcount (checkers_to p c) > 1" "stops p c ?t (checker_sq p c)"
        using answered_single [OF P(5,6) ch(1)] by blast+
      then have "m \<in> set (generate_checker_capture_moves p c) \<or> m \<in> set (generate_checker_block_moves p c)"
        using mem_checker_captures [OF P(5,2,4) ch(1) one(1) assms(3,5,6)] mem_checker_blocks [OF P(5,2,4) ch(1) one(1) assms(3,5,6)]
        unfolding stops_def by metis
      then show "m \<in> set (check_evasion_move_list p c)"
        using one(1) unfolding check_evasion_move_list_def Let_def by auto
    qed
  qed
  then show ?thesis using safe by blast
qed

lemma ep_move_legal:
  assumes "movable p" "c = pos_side_to_move p" "chess_move p c m" "move_type m = ENPASSANT"
  shows "m \<in> set (pseudo_legal_move_list p) \<and> is_legal_generated_move p m \<longleftrightarrow> \<not> king_attacked (make_move m p) c"
proof -
  have P: "pos_ok p" "rights_ok p" "ep_ok p" "lone_king p c" "board_ok p" "has_king p c" "ep_fresh p"
    using assms(1,2) by (auto simp: movable_def pos_ok_def lone_king_def)
  have mo: "move_ok p m" using chess_move_fits [OF P(5,2,3)] assms(2,3) by (simp add: move_fits_def)
  note E = enpassant_move_cases [OF P(2) assms(3,4)]
  have safe: "\<not> king_attacked (make_move m p) c \<longleftrightarrow> is_legal_generated_move p m"
    using ep_safe [OF P(1) mo assms(4) E(2)] P(4,7) assms(2) by simp
  have "m \<in> set (pseudo_legal_move_list p)" if lg: "is_legal_generated_move p m"
  proof (cases "in_check p")
    case False
    then show ?thesis
      using assms(2,3) mem_pseudo_legal_of [OF ep_ok_on_board [OF P(3)]] by (simp add: pseudo_legal_move_list_def)
  next
    case True
    then have ch: "checkers_to p c \<noteq> 0" "pseudo_legal_move_list p = check_evasion_move_list p c"
      using assms(2) by (auto simp: in_check_def pseudo_legal_move_list_def)
    have all: "u = ep_victim c (to_square m)" if "on_board u" "checks p c u" for u
      using ep_answers [OF P(1) mo assms(4) E(2) _ P(7) lg that(1)] P(4) assms(2) that(2) by blast
    note s = checker_hits [OF P(5,6) ch(1)]
    have v: "checker_sq p c = ep_victim c (to_square m)" using all [OF s] .
    have one: "\<not> popcount (checkers_to p c) > 1" unfolding single_checker [OF P(5,6) ch(1)] v using all by blast
    have "m \<in> set (generate_checker_capture_moves p c)"
      by (rule mem_checker_ep [OF P(5,3,4) assms(2) ch(1) one assms(3,4) _ P(2)]) (use s v in simp)
    then show ?thesis unfolding ch(2) check_evasion_move_list_def Let_def using one by auto
  qed
  then show ?thesis using safe by blast
qed

lemma castle_move_legal:
  assumes "movable p" "c = pos_side_to_move p" "castle_move p c m"
  shows "m \<in> set (pseudo_legal_move_list p) \<and> is_legal_generated_move p m \<and> \<not> king_attacked (make_move m p) c"
proof -
  have P: "pos_ok p" "rights_ok p" "ep_ok p" "lone_king p c" "board_ok p"
    using assms(1,2) by (auto simp: movable_def pos_ok_def)
  have cm: "chess_move p c m" using assms(3) by (simp add: chess_move_def)
  have mo: "move_ok p m" using chess_move_fits [OF P(5,2,3)] assms(2) cm by (simp add: move_fits_def)
  note F = castle_move_facts [OF P(2) assms(3)]
  have k: "from_square m = king_square p c" using lone_kingD(3) [OF P(4) _ F(2)] by simp
  then have "\<not> in_check p" using F(5) assms(2) by (simp add: in_check_attacked king_attacked_def)
  then have "m \<in> set (pseudo_legal_move_list p)"
    using assms(2) cm mem_pseudo_legal_of [OF ep_ok_on_board [OF P(3)]] by (simp add: pseudo_legal_move_list_def)
  moreover have "is_legal_generated_move p m"
    using F(4) k assms(2) by (simp add: is_legal_generated_move_def is_legal_generated_move_pinned_def Let_def)
  ultimately show ?thesis using castle_safe [OF P(1,2) mo] P(4) assms(2,3) by blast
qed

lemma legal_iff:
  assumes "movable p" "c = pos_side_to_move p"
  shows "m \<in> set (legal_move_list_of p c) \<longleftrightarrow> chess_move p c m \<and> \<not> king_attacked (make_move m p) c"
proof (cases "chess_move p c m")
  case True
  have "m \<in> set (pseudo_legal_move_list p) \<and> is_legal_generated_move p m \<longleftrightarrow> \<not> king_attacked (make_move m p) c"
    using castle_move_legal [OF assms] king_move_legal [OF assms True] ordinary_move_legal [OF assms True]
      ep_move_legal [OF assms True] by blast
  then show ?thesis using True set_legal_list [of p] assms(2) by simp
next
  case False
  have "board_ok p" "ep_on_board p" "has_king p c"
    using assms ep_ok_on_board by (auto simp: movable_def pos_ok_def lone_king_def)
  then have "m \<notin> set (pseudo_legal_move_list p)" using False pseudo_legal_sound assms(2) by blast
  then show ?thesis using False set_legal_list [of p] assms(2) by simp
qed

section \<open>Lawful play\<close>

definition fair_game :: "position \<Rightarrow> bool" where
  "fair_game p \<longleftrightarrow> game_ok p \<and> lone_king p WHITE \<and> lone_king p BLACK \<and>
     \<not> king_attacked p (opp (pos_side_to_move p)) \<and> ep_fresh p"

lemma fair_lone: "fair_game p \<Longrightarrow> lone_king p c"
  by (cases c) (simp_all add: fair_game_def)

lemma fair_movable: "fair_game p \<Longrightarrow> movable p"
  using fair_lone [of p "pos_side_to_move p"] by (simp add: movable_def fair_game_def game_ok_def)

text \<open>The enemy king is never on a square the mover can take.\<close>

lemma fair_no_king_capture:
  assumes "fair_game p" "chess_move p (pos_side_to_move p) m"
  shows "piece_type_on p (to_square m) \<noteq> Some KING"
proof
  let ?c = "pos_side_to_move p" and ?t = "to_square m"
  have ok: "board_ok p" "rights_ok p" "ep_ok p" using assms(1) by (auto simp: fair_game_def game_ok_def pos_ok_def)
  assume "piece_type_on p ?t = Some KING"
  then have kt: "bit (pos_piece_bb p KING) (nat ?t)" using piece_type_on_Some [OF ok(1) to_square_on_board] by blast
  then obtain d where d: "has p ?t KING d" using board_ok_both [OF ok(1), of "nat ?t"] by (auto simp: has_def)
  have mo: "move_ok p m" using chess_move_fits [OF ok assms(2)] by (simp add: move_fits_def)
  have "d \<noteq> ?c" using move_ends(3) [OF ok(1) mo] d by metis
  then have dk: "has p ?t KING (opp ?c)" using d by (cases d; cases ?c; simp)
  then have nf: "\<not> free p ?t" using free_iff [OF ok(1)] by blast
  have k: "?t = king_square p (opp ?c)" using lone_kingD(3) [OF fair_lone [OF assms(1)] to_square_on_board dk] .
  have "hits p (occupancy_bb p) (from_square m) ?c ?t"
  proof -
    have "\<not> castle_move p ?c m"
    proof
      assume "castle_move p ?c m"
      then have "move_type_of p m = CASTLING" using castle_move_facts(4) [OF ok(2)] by (simp add: move_type_of_typed)
      then show False using mo nf by (auto simp: move_ok_def Let_def)
    qed
    moreover have "enpassant_square p \<noteq> Some ?t" using ok(3) nf by (auto simp: ep_ok_def)
    ultimately show ?thesis
      using assms(2) piece_move_facts(1) [of p ?c m] pawn_push_facts(2) [of p ?c m] pawn_capture_facts [of p ?c m] nf
      unfolding chess_move_def hits_def by blast
  qed
  then have "attacked p ?t ?c" using attacked_iff [OF ok(1) to_square_on_board] from_square_on_board by blast
  then show False using assms(1) k by (simp add: fair_game_def king_attacked_def)
qed

lemma king_stays:
  assumes "pos_ok p" "move_ok p m" "lone_king p (opp (pos_side_to_move p))"
    and "piece_type_on p (to_square m) \<noteq> Some KING"
  shows "lone_king (make_move m p) (opp (pos_side_to_move p))"
    and "king_square (make_move m p) (opp (pos_side_to_move p)) = king_square p (opp (pos_side_to_move p))"
proof -
  let ?c = "pos_side_to_move p" and ?k = "king_square p (opp (pos_side_to_move p))"
  have ok: "board_ok p" using assms(1) by (simp add: pos_ok_def)
  note K = lone_kingD [OF assms(3)]
  have kt: "?k \<noteq> to_square m" using on_of_has [OF ok K(2,1)] assms(4) by auto
  have kv: "?k \<noteq> ep_victim ?c (to_square m)" if "move_type_of p m = ENPASSANT"
  proof -
    have "has p (ep_victim ?c (to_square m)) PAWN (opp ?c)" using that assms(2) by (auto simp: move_ok_def Let_def)
    then show ?thesis using has_unique [OF ok K(2), of PAWN "opp ?c"] by fastforce
  qed
  have "has (make_move m p) ?k KING (opp ?c)"
    using make_move_enemies [OF assms(1,2) K(1), of KING] K(2) kt kv by blast
  moreover have "u = ?k" if "on_board u" "has (make_move m p) u KING (opp ?c)" for u
    using make_move_enemies [OF assms(1,2) that(1), of KING] that K(3) by blast
  ultimately show "lone_king (make_move m p) (opp ?c)" "king_square (make_move m p) (opp ?c) = ?k"
    using lone_kingI K(1) by blast+
qed

lemma make_move_ep_fresh:
  assumes "pos_ok p" "move_fits p m" "\<not> king_attacked p (opp (pos_side_to_move p))"
    and "lone_king p (opp (pos_side_to_move p))" "piece_type_on p (to_square m) \<noteq> Some KING"
  shows "ep_fresh (make_move m p)"
proof -
  let ?c = "pos_side_to_move p" and ?q = "make_move m p" and ?f = "from_square m" and ?t = "to_square m"
  let ?k = "king_square p (opp ?c)"
  have ok: "board_ok p" "stack_ok p" and mo: "move_ok p m" using assms(1,2) by (auto simp: pos_ok_def move_fits_def)
  note K = lone_kingD [OF assms(4)]
  have side: "pos_side_to_move ?q = opp ?c" by (rule make_move_side [OF ok(2)])
  have "u = ?t \<or> strictly_between ?k u ?f"
    if ty: "move_type_of p m = DOUBLE_PUSH" and u: "on_board u" "hits ?q (occupancy_bb ?q) u ?c ?k" for u
  proof (cases "u = ?t")
    case False
    have "has ?q u x ?c \<Longrightarrow> has p u x ?c" for x
      using make_move_board [OF assms(1) mo u(1), of x ?c] False ty by (simp split: if_splits)
    then have h: "hits p (occupancy_bb ?q) u ?c ?k" using u(2) unfolding hits_def by blast
    have "\<not> hits p (occupancy_bb p) u ?c ?k"
      using assms(3) attacked_iff [OF ok(1) K(1)] u(1) by (auto simp: king_attacked_def)
    then obtain w where w: "on_board w" "strictly_between ?k u w" "\<not> free p w" "free ?q w"
      using h unfolding hits_split unblocked_free by blast
    then have "w = ?f" using make_move_occupied [OF assms(1) mo w(1)] ty by auto
    then show ?thesis using w(2) by blast
  qed simp
  moreover have "ep_victim (opp ?c) (pawn_shift ?f ?c 1) = ?t" if "move_type_of p m = DOUBLE_PUSH"
    using assms(2) that by (cases ?c) (simp_all add: move_fits_def ep_victim_def pawn_shift_def)
  ultimately show ?thesis
    unfolding ep_fresh_def Let_def side make_move_ep [OF ok(2)] king_stays(2) [OF assms(1) mo assms(4,5)]
    by simp
qed

lemma make_move_fair:
  assumes "fair_game p" "m \<in> set (legal_move_list_of p (pos_side_to_move p))"
  shows "fair_game (make_move m p)"
proof -
  let ?c = "pos_side_to_move p" and ?q = "make_move m p"
  have ok: "pos_ok p" "board_ok p" "rights_ok p" "ep_ok p" "stack_ok p" "game_ok p"
    using assms(1) by (auto simp: fair_game_def game_ok_def pos_ok_def)
  have cm: "chess_move p ?c m" "\<not> king_attacked ?q ?c"
    using legal_iff [OF fair_movable [OF assms(1)] refl] assms(2) by blast+
  have fits: "move_fits p m" and mo: "move_ok p m"
    using chess_move_fits [OF ok(2-4) cm(1)] by (simp_all add: move_fits_def)
  note nk = fair_no_king_capture [OF assms(1) cm(1)]
  have "game_ok ?q" by (rule make_move_game_ok [OF ok(6) fits nk])
  moreover have "lone_king ?q d" for d
    using king_after(1) [OF ok(1) mo fair_lone [OF assms(1)]] king_stays(1) [OF ok(1) mo fair_lone [OF assms(1)] nk]
    by (cases d; cases ?c; simp)
  moreover have "ep_fresh ?q"
    by (rule make_move_ep_fresh [OF ok(1) fits _ fair_lone [OF assms(1)] nk]) (use assms(1) in \<open>simp add: fair_game_def\<close>)
  ultimately show ?thesis using cm(2) make_move_side [OF ok(5), of m] by (simp add: fair_game_def)
qed

lemma make_null_move_fair:
  assumes "fair_game p" "\<not> in_check p"
  shows "fair_game (make_null_move p)"
proof -
  have ok: "stack_ok p" "game_ok p" using assms(1) by (auto simp: fair_game_def game_ok_def pos_ok_def)
  note F = make_null_move_fields [OF ok(1)] and C = has_cong [OF make_null_move_fields(1,2) [OF ok(1)]]
  have k: "king_square (make_null_move p) c = king_square p c" for c by (simp add: king_square_def C)
  have "attacked (make_null_move p) s c = attacked p s c" for s c
    using F(1,2) C(4) by (simp add: attacked_def attackers_to_of_def attackers_to_occ_def piece_type_color_bb_def)
  then have a: "king_attacked (make_null_move p) c = king_attacked p c" for c by (simp add: king_attacked_def k)
  have l: "lone_king (make_null_move p) c = lone_king p c" for c
    unfolding lone_king_def has_king_iff C(2) k ..
  show ?thesis
    using assms make_null_move_game_ok [OF ok(2)] F
    by (simp add: fair_game_def a l in_check_attacked ep_fresh_def)
qed

text \<open>Legal moves and, out of check, null moves.\<close>

inductive lawful :: "position \<Rightarrow> position \<Rightarrow> bool" for p0 :: position where
  start: "lawful p0 p0"
| play: "lawful p0 p \<Longrightarrow> m \<in> set (legal_move_list_of p (pos_side_to_move p)) \<Longrightarrow> lawful p0 (make_move m p)"
| pass: "lawful p0 p \<Longrightarrow> \<not> in_check p \<Longrightarrow> lawful p0 (make_null_move p)"

lemma lawful_fair: "lawful p0 p \<Longrightarrow> fair_game p0 \<Longrightarrow> fair_game p"
  by (induction rule: lawful.induct) (auto intro: make_move_fair make_null_move_fair)

section \<open>The end of the game\<close>

lemma is_repeat_mono:
  assumes "is_repeat p n" "0 < k" "k \<le> n"
  shows "is_repeat p k"
  using assms by (simp add: is_repeat_def Let_def repeat_loop_count)

lemma no_moves_iff:
  assumes "fair_game p" "\<not> is_repeat p 2" "halfmoves p < 100"
  shows "legal_move_list p = [] \<longleftrightarrow>
    (\<forall>m. chess_move p (pos_side_to_move p) m \<longrightarrow> king_attacked (make_move m p) (pos_side_to_move p))"
proof -
  have "legal_move_list p = legal_move_list_of p (pos_side_to_move p)"
    using assms(2,3) is_repeat_mono [of p 4 2] by (auto simp: legal_move_list_def)
  then have "legal_move_list p = [] \<longleftrightarrow> (\<forall>m. m \<notin> set (legal_move_list_of p (pos_side_to_move p)))"
    using all_not_in_conv [of "set (legal_move_list_of p (pos_side_to_move p))"] by simp
  then show ?thesis unfolding legal_iff [OF fair_movable [OF assms(1)] refl] by blast
qed

section \<open>The small position is fair\<close>

lemma pawn_game_fair:
  assumes "s \<in> {12, 28}"
  shows "fair_game (pawn_game s)"
proof -
  note P = pawn_game_board_ok(1) [OF assms] pawn_game_has [OF assms]
  have l: "lone_king (pawn_game s) WHITE" "king_square (pawn_game s) WHITE = 4"
    using lone_kingI [of 4 "pawn_game s" WHITE] by (simp_all add: on_board_def P nat_eq_iff)
  have b: "lone_king (pawn_game s) BLACK" "king_square (pawn_game s) BLACK = 60"
    using lone_kingI [of 60 "pawn_game s" BLACK] by (simp_all add: on_board_def P nat_eq_iff)
  have "\<not> hits (pawn_game s) (occupancy_bb (pawn_game s)) u WHITE 60" for u
    using assms by (auto simp: hits_def P sees_def pawn_sees_def sq_file_mod sq_rank_div nat_eq_iff)
  then have "\<not> king_attacked (pawn_game s) BLACK"
    using attacked_iff [OF P(1), of 60] b(2) by (simp add: king_attacked_def on_board_def)
  then show ?thesis using l b pawn_game_ok [OF assms]
    by (simp add: fair_game_def pawn_game_fields ep_fresh_def)
qed

lemmas small_fair = pawn_game_fair [of 12, simplified]

lemma small_legal_of: "small_move \<in> set (legal_move_list_of small_game WHITE)"
  using small_legal by (simp add: legal_move_list_def pawn_game_fields split: if_splits)

section \<open>Properties\<close>

text \<open>C3 (equivalence). The legal list is legal chess: in every position of lawful play (legal moves,
  and null moves out of check) \<open>legal_move_list_of\<close> holds exactly the moves of the rules after which
  the mover's own king is not attacked, in check or not, pins and en passant captures included.\<close>

theorem legal_list_is_legal_chess:
  assumes "fair_game p0" "lawful p0 p"
  shows "m \<in> set (legal_move_list_of p (pos_side_to_move p)) \<longleftrightarrow>
    chess_move p (pos_side_to_move p) m \<and>
    \<not> attacked (make_move m p) (king_square (make_move m p) (pos_side_to_move p)) (opp (pos_side_to_move p))"
  using legal_iff [OF fair_movable [OF lawful_fair [OF assms(2,1)]] refl] by (simp add: king_attacked_def)

theorem legal_list_is_legal_chess_witness:
  "\<not> attacked (make_move small_move small_game) (king_square (make_move small_move small_game) WHITE) BLACK"
  using legal_list_is_legal_chess [OF small_fair lawful.start, of small_move] small_legal_of
  by (simp add: pawn_game_fields)

text \<open>C15 (invariant). Lawful play keeps one king a side and never leaves the side that has just moved
  in check, so no legal move takes a king.\<close>

theorem lawful_play_keeps_kings:
  assumes "fair_game p0" "lawful p0 p"
  shows "(\<exists>!u. on_board u \<and> has p u KING c) \<and>
    \<not> attacked p (king_square p (opp (pos_side_to_move p))) (pos_side_to_move p) \<and>
    (m \<in> set (legal_move_list_of p (pos_side_to_move p)) \<longrightarrow> piece_type_on p (to_square m) \<noteq> Some KING)"
proof -
  have fg: "fair_game p" using lawful_fair assms by blast
  have "\<exists>!u. on_board u \<and> has p u KING c" using lone_kingD [OF fair_lone [OF fg]] by blast
  then show ?thesis using fg fair_no_king_capture [OF fg] legal_iff [OF fair_movable [OF fg] refl]
    by (auto simp: fair_game_def king_attacked_def)
qed

theorem lawful_play_keeps_kings_witness:
  "\<exists>!u. on_board u \<and> has (make_move small_move small_game) u KING BLACK"
  using lawful_play_keeps_kings [OF small_fair lawful.play [OF lawful.start, of small_move]] small_legal_of
  by (simp add: pawn_game_fields)

text \<open>C16 (functional). What \<open>game_state\<close> reports, in this order of precedence: the position has come three times; 100 half moves
  have passed, even if the last one gave mate; every move of the rules leaves the king attacked and the king is attacked, checkmate, or
  is not, stalemate; else the game goes on.  So below 100 half moves and unrepeated, mate and stalemate are reported exactly when they
  are on the board.\<close>

theorem game_state_reports_mate:
  assumes "fair_game p0" "lawful p0 p"
  shows "game_state p = (if is_repeat p 2 then THREEFOLD_REPETITION
     else if halfmoves p \<ge> 100 then FIFTY_MOVES
     else if \<forall>m. chess_move p (pos_side_to_move p) m \<longrightarrow> king_attacked (make_move m p) (pos_side_to_move p)
       then (if king_attacked p (pos_side_to_move p) then CHECKMATE else STALEMATE)
     else IN_PROGRESS)"
  using no_moves_iff [OF lawful_fair [OF assms(2,1)]] by (auto simp: game_state_def in_check_attacked)

theorem game_state_reports_mate_witness: "game_state small_game = IN_PROGRESS"
proof -
  have "chess_move small_game WHITE small_move" "\<not> king_attacked (make_move small_move small_game) WHITE"
    using legal_iff [OF fair_movable [OF small_fair] refl, of small_move] small_legal_of by (auto simp: pawn_game_fields)
  then show ?thesis
    using game_state_reports_mate [OF small_fair lawful.start] pawn_game_repeat by (auto simp: pawn_game_fields)
qed

end
