(* ===== verification/Texts.thy ===== *)
theory Texts
  imports Board_Types
begin

text \<open>
  The parts of the C++ library's text handling that the program uses, as functions on character
  lists: reading words with \<open>istringstream >> word\<close>, \<open>std::to_string\<close>, \<open>strtol\<close> with base 10, and the
  program's own \<open>split\<close> (\<open>app/src/str.cpp\<close>).  The lemmas show what reading returns on well-formed
  text and that numbers round trip.
\<close>

section \<open>Words\<close>

definition is_space :: "char \<Rightarrow> bool" where
  "is_space c \<longleftrightarrow> c \<in> {CHR '' '', CHR 0x09, CHR 0x0A, CHR 0x0B, CHR 0x0C, CHR 0x0D}"

text \<open>\<open>stream >> word\<close>: the rest of the stream and the new contents of the variable.  At the end of
  the text nothing is extracted and the variable keeps its old contents.\<close>

definition read_word :: "string \<Rightarrow> string \<Rightarrow> string \<times> string" where
  "read_word rest word =
     (let text = dropWhile is_space rest
      in if text = [] then ([], word)
         else (dropWhile (Not \<circ> is_space) text, takeWhile (Not \<circ> is_space) text))"

text \<open>All the words of the rest of a stream: the loop \<open>while (stream >> word)\<close>.\<close>

function read_words :: "string \<Rightarrow> string list" where
  "read_words rest =
     (let text = dropWhile is_space rest
      in if text = [] then []
         else takeWhile (Not \<circ> is_space) text # read_words (dropWhile (Not \<circ> is_space) text))"
  by pat_completeness auto

lemma dropWhile_word_shorter:
  assumes "dropWhile is_space rest \<noteq> []"
  shows "length (dropWhile (Not \<circ> is_space) (dropWhile is_space rest)) < length rest"
proof -
  obtain c cs where c: "dropWhile is_space rest = c # cs" using assms by (cases "dropWhile is_space rest") auto
  then have "\<not> is_space c" by (simp add: dropWhile_eq_Cons_conv)
  then have "length (dropWhile (Not \<circ> is_space) (c # cs)) \<le> length cs"
    using length_dropWhile_le [of "Not \<circ> is_space" cs] by simp
  also have "\<dots> < length rest" using length_dropWhile_le [of is_space rest] c by simp
  finally show ?thesis using c by simp
qed

termination read_words
  by (relation "measure length") (auto simp: dropWhile_word_shorter)

declare read_words.simps [simp del]

definition is_word :: "string \<Rightarrow> bool" where
  "is_word w \<longleftrightarrow> w \<noteq> [] \<and> list_all (Not \<circ> is_space) w"

lemma is_word_append: "is_word v \<Longrightarrow> list_all (Not \<circ> is_space) w \<Longrightarrow> is_word (v @ w)"
  by (simp add: is_word_def)

lemma word_scan:
  assumes "is_word w" "s = [] \<or> is_space (hd s)"
  shows "dropWhile is_space (w @ s) = w @ s" "takeWhile (Not \<circ> is_space) (w @ s) = w"
    "dropWhile (Not \<circ> is_space) (w @ s) = s"
proof -
  obtain c cs where c: "w = c # cs" using assms(1) by (cases w) (auto simp: is_word_def)
  then have "\<not> is_space c" using assms(1) by (simp add: is_word_def)
  then show "dropWhile is_space (w @ s) = w @ s" using c by simp
  have all: "\<forall>x\<in>set w. (Not \<circ> is_space) x" using assms(1) by (simp add: is_word_def list_all_iff)
  then show "takeWhile (Not \<circ> is_space) (w @ s) = w" using assms(2)
    by (cases s) (auto simp: takeWhile_append2)
  show "dropWhile (Not \<circ> is_space) (w @ s) = s" using all assms(2)
    by (cases s) (auto simp: dropWhile_append2)
qed

lemma read_word_here:
  assumes "is_word w" "s = [] \<or> is_space (hd s)"
  shows "read_word (w @ s) v = (s, w)"
  using word_scan [OF assms] assms(1) by (simp add: read_word_def is_word_def)

lemma read_word_next:
  assumes "is_word w" "s = [] \<or> is_space (hd s)"
  shows "read_word (CHR '' '' # w @ s) v = (s, w)"
  using word_scan [OF assms] assms(1) by (simp add: read_word_def is_word_def is_space_def)

lemma read_words_join:
  assumes "list_all is_word ws"
  shows "read_words (concat (map (\<lambda>w. CHR '' '' # w) ws)) = ws"
  using assms
proof (induction ws)
  case (Cons w ws)
  let ?s = "concat (map (\<lambda>w. CHR '' '' # w) ws)"
  have s: "?s = [] \<or> is_space (hd ?s)" by (cases ws) (auto simp: is_space_def)
  have "is_word w" using Cons.prems by simp
  from word_scan [OF this s] show ?case using Cons
    by (subst read_words.simps) (simp add: is_space_def is_word_def)
qed (simp add: read_words.simps)

section \<open>Numbers\<close>

definition digit_char :: "nat \<Rightarrow> char" where
  "digit_char d = char_of (48 + d)"

definition is_digit :: "char \<Rightarrow> bool" where
  "is_digit c \<longleftrightarrow> CHR ''0'' \<le> c \<and> c \<le> CHR ''9''"

fun nat_to_str :: "nat \<Rightarrow> string" where
  "nat_to_str n = (if n < 10 then [digit_char n] else nat_to_str (n div 10) @ [digit_char (n mod 10)])"

declare nat_to_str.simps [simp del]

definition to_string :: "int \<Rightarrow> string" where
  "to_string i = (if i < 0 then CHR ''-'' # nat_to_str (nat (- i)) else nat_to_str (nat i))"

definition digits_value :: "string \<Rightarrow> nat" where
  "digits_value ds = fold (\<lambda>c v. v * 10 + (of_char c - 48)) ds 0"

text \<open>\<open>strtol(s, &end, 10)\<close>: white space, a sign, digits; saturated to 64 bits, 0 without digits.\<close>

definition strtol :: "string \<Rightarrow> int" where
  "strtol s =
     (let text = dropWhile is_space s;
          negative = (text \<noteq> [] \<and> hd text = CHR ''-'');
          signed = (text \<noteq> [] \<and> (hd text = CHR ''-'' \<or> hd text = CHR ''+''));
          magnitude = int (digits_value (takeWhile is_digit (if signed then tl text else text)))
      in if negative then max (- (2 ^ 63)) (- magnitude) else min (2 ^ 63 - 1) magnitude)"

text \<open>The conversion of a \<open>long\<close> to \<open>int\<close>: the low 32 bits, two's complement.\<close>

definition to_int32 :: "int \<Rightarrow> int" where
  "to_int32 v = signed_take_bit 31 v"

lemma of_char_digit [simp]: "d < 10 \<Longrightarrow> of_char (digit_char d) = 48 + d"
  by (simp add: digit_char_def of_char_of)

lemma digit_char_props: "d < 10 \<Longrightarrow> is_digit (digit_char d) \<and> \<not> is_space (digit_char d)
    \<and> digit_char d \<noteq> CHR ''-'' \<and> digit_char d \<noteq> CHR ''+''"
proof -
  assume "d < 10"
  moreover have "list_all (\<lambda>d. is_digit (digit_char d) \<and> \<not> is_space (digit_char d)
    \<and> digit_char d \<noteq> CHR ''-'' \<and> digit_char d \<noteq> CHR ''+'') [0..<10]" by code_simp
  ultimately show ?thesis by (auto simp: list_all_iff)
qed

lemma nat_to_str_digits: "list_all is_digit (nat_to_str n) \<and> list_all (Not \<circ> is_space) (nat_to_str n) \<and> nat_to_str n \<noteq> []
    \<and> hd (nat_to_str n) \<noteq> CHR ''-'' \<and> hd (nat_to_str n) \<noteq> CHR ''+''"
proof (induction n rule: nat_to_str.induct)
  case (1 n)
  have eq: "nat_to_str n = (if n < 10 then [digit_char n] else nat_to_str (n div 10) @ [digit_char (n mod 10)])"
    by (rule nat_to_str.simps)
  show ?case
  proof (cases "n < 10")
    case True
    then show ?thesis using digit_char_props [of n] by (simp add: eq)
  next
    case False
    then show ?thesis using 1 digit_char_props [of "n mod 10"] by (simp add: eq)
  qed
qed

lemma digits_value_snoc: "digits_value (ds @ [c]) = digits_value ds * 10 + (of_char c - 48)"
  by (simp add: digits_value_def)

lemma digits_value_nat_to_str [simp]: "digits_value (nat_to_str n) = n"
proof (induction n rule: nat_to_str.induct)
  case (1 n)
  then show ?case by (subst nat_to_str.simps) (auto simp: digits_value_snoc, simp add: digits_value_def)
qed

lemma takeWhile_digits: "takeWhile is_digit (nat_to_str n) = nat_to_str n"
  using nat_to_str_digits [of n] by (auto simp: takeWhile_eq_all_conv list_all_iff)

lemma dropWhile_space_word: "is_word w \<Longrightarrow> dropWhile is_space w = w"
  using word_scan(1) [of w "[]"] by simp

lemma is_word_nat_to_str: "is_word (nat_to_str n)"
  using nat_to_str_digits [of n] by (simp add: is_word_def)

lemma is_word_to_string: "is_word (to_string i)"
  using nat_to_str_digits [of "nat (- i)"] nat_to_str_digits [of "nat i"]
  by (auto simp: is_word_def to_string_def is_space_def)

lemma strtol_to_string:
  assumes "- (2 ^ 63) \<le> i" "i < 2 ^ 63"
  shows "strtol (to_string i) = i"
proof (cases "i < 0")
  case True
  then show ?thesis using assms is_word_to_string [of i]
    by (simp add: strtol_def dropWhile_space_word Let_def) (simp add: to_string_def takeWhile_digits)
next
  case False
  then show ?thesis using assms is_word_to_string [of i] nat_to_str_digits [of "nat i"]
    by (simp add: strtol_def dropWhile_space_word Let_def) (simp add: to_string_def takeWhile_digits)
qed

lemma to_int32_id:
  assumes "- (2 ^ 31) \<le> i" "i < 2 ^ 31"
  shows "to_int32 i = i"
  using assms by (simp add: to_int32_def signed_take_bit_int_eq_self)

section \<open>Splitting\<close>

text \<open>\<open>in.find(splitter)\<close>: the first position the splitter occurs at.\<close>

fun find_sub :: "string \<Rightarrow> string \<Rightarrow> nat option" where
  "find_sub pat [] = (if pat = [] then Some 0 else None)"
| "find_sub pat (c # cs) =
     (if take (length pat) (c # cs) = pat then Some 0 else map_option Suc (find_sub pat cs))"

lemma find_sub_Some:
  "find_sub pat s = Some i \<Longrightarrow> i + length pat \<le> length s \<and> take (length pat) (drop i s) = pat"
proof (induction s arbitrary: i)
  case (Cons c cs)
  show ?case
  proof (cases "take (length pat) (c # cs) = pat")
    case True
    then have "length pat \<le> length (c # cs)" by (metis length_take min.cobounded1 nat_le_linear take_all)
    then show ?thesis using True Cons.prems by auto
  next
    case False
    then obtain j where "find_sub pat cs = Some j" "i = Suc j" using Cons.prems by auto
    then show ?thesis using Cons.IH [of j] by simp
  qed
qed (auto split: if_splits)

text \<open>\<open>split\<close>: an empty splitter is found again and again at position 0, so the loop may not end.\<close>

partial_function (option) split_loop :: "string \<Rightarrow> string \<Rightarrow> string list \<Rightarrow> string list option" where
  "split_loop sep inp out =
     (case find_sub sep inp of
        None \<Rightarrow> Some (if inp = [] then out else out @ [inp])
      | Some pos \<Rightarrow>
          if drop (pos + length sep) inp = [] then Some (out @ [take pos inp, []])
          else split_loop sep (drop (pos + length sep) inp) (out @ [take pos inp]))"

definition split_str :: "string \<Rightarrow> string \<Rightarrow> string list option" where
  "split_str inp sep = split_loop sep inp []"

fun join :: "string \<Rightarrow> string list \<Rightarrow> string" where
  "join sep [] = []"
| "join sep [w] = w"
| "join sep (w # v # ws) = w @ sep @ join sep (v # ws)"

lemma split_loop_join:
  assumes "sep \<noteq> []"
  shows "\<exists>r. split_loop sep inp out = Some (out @ r) \<and> join sep r = inp"
proof (induction "length inp" arbitrary: inp out rule: less_induct)
  case less
  show ?case
  proof (cases "find_sub sep inp")
    case None
    then show ?thesis by (subst split_loop.simps) (auto intro: exI [of _ "[]"] exI [of _ "[inp]"])
  next
    case (Some pos)
    note fs = find_sub_Some [OF Some]
    let ?rest = "drop (pos + length sep) inp"
    have inp: "inp = take pos inp @ sep @ ?rest"
    proof -
      have "drop pos inp = take (length sep) (drop pos inp) @ drop (length sep) (drop pos inp)"
        by (rule append_take_drop_id [symmetric])
      also have "\<dots> = sep @ ?rest" using fs by (simp add: add.commute)
      finally show ?thesis by (metis append_take_drop_id)
    qed
    show ?thesis
    proof (cases "?rest = []")
      case True
      then have "split_loop sep inp out = Some (out @ [take pos inp, []])"
        using Some by (subst split_loop.simps) simp
      moreover have "join sep [take pos inp, []] = inp" using inp True by simp
      ultimately show ?thesis by blast
    next
      case False
      have "length ?rest < length inp" using False assms by (cases sep) auto
      from less.hyps [OF this, of "out @ [take pos inp]"] obtain r where
        r: "split_loop sep ?rest (out @ [take pos inp]) = Some ((out @ [take pos inp]) @ r)" "join sep r = ?rest"
        by blast
      have "r \<noteq> []" using r(2) False by auto
      then have "join sep (take pos inp # r) = inp" using r(2) inp by (cases r) auto
      moreover have "split_loop sep inp out = Some (out @ take pos inp # r)"
        using Some False r(1) by (subst split_loop.simps) simp
      ultimately show ?thesis by blast
    qed
  qed
qed

section \<open>Properties\<close>

text \<open>With a non-empty splitter \<open>split\<close> returns, and joining its parts with the
  splitter gives back the text.\<close>

theorem split_returns_parts:
  assumes "sep \<noteq> []"
  shows "\<exists>r. split_str inp sep = Some r \<and> join sep r = inp"
  using split_loop_join [OF assms, of inp "[]"] by (simp add: split_str_def)

theorem split_returns_parts_witness:
  "\<exists>r. split_str ''go wtime 1'' '' '' = Some r \<and> join '' '' r = ''go wtime 1''"
  by (rule split_returns_parts) simp

end
