(* ===== verification/Fen.thy ===== *)
theory Fen
  imports Texts Move_Gen
begin

text \<open>
  \<open>Position/Utilities.h\<close>: the FEN text of a position and its parser, UCI position lines, the vertical
  flip, and the exchange evaluation \<open>see_to\<close> and \<open>see_for\<close> that plays out captures on one square.
  \<open>display_raw\<close> and \<open>display\<close> only print and are not modelled.
\<close>

section \<open>Printing\<close>

text \<open>One rank of the board, from the given files on, with the count of empty squares so far.\<close>

fun fen_files :: "position \<Rightarrow> int \<Rightarrow> int \<Rightarrow> int list \<Rightarrow> string" where
  "fen_files p rank empty_sq_count [] = (if empty_sq_count \<noteq> 0 then to_string empty_sq_count else [])"
| "fen_files p rank empty_sq_count (file # files) =
     (case piece_on p (the (sq_from (Some file) (Some rank))) of
        Some sq_piece \<Rightarrow>
          (if empty_sq_count \<noteq> 0 then to_string empty_sq_count else [])
          @ piece_to_char sq_piece # fen_files p rank 0 files
      | None \<Rightarrow> fen_files p rank (empty_sq_count + 1) files)"

definition fen_board :: "position \<Rightarrow> string" where
  "fen_board p =
     concat (map (\<lambda>rank. fen_files p rank 0 [0..7] @ (if rank \<noteq> 0 then ''/'' else [])) (rev [0..7]))"

definition fen :: "position \<Rightarrow> string" where
  "fen p = fen_board p @ '' '' @ [color_to_char (pos_side_to_move p)] @ '' '' @ cr_to_str (castling_rights p)
     @ '' '' @ (case enpassant_square p of Some s \<Rightarrow> sq_to_str s | None \<Rightarrow> ''-'')
     @ '' '' @ to_string (halfmoves p) @ '' '' @ to_string (pos_fullmoves p)"

definition uci_line :: "position \<Rightarrow> string" where
  "uci_line p = ''position '' @ pos_start_fen p @ '' moves''
     @ concat (map (\<lambda>i. '' '' @ (case st_previous_move (state_at p i) of Some m \<Rightarrow> move_to_str m | None \<Rightarrow> ''0000''))
         [1..pos_ply p])"

section \<open>Parsing\<close>

text \<open>One character of the piece list: the position and the square it has come to.\<close>

definition fen_step :: "char \<Rightarrow> position \<times> int \<Rightarrow> position \<times> int" where
  "fen_step c = (\<lambda>(pos, current_square).
     if CHR ''1'' \<le> c \<and> c \<le> CHR ''9'' then (pos, current_square + (of_char c - 48))
     else if c = CHR ''/'' then (pos, current_square - 16)
     else case piece_from_char c of
         Some piece \<Rightarrow> (put_piece current_square (p_type piece) (p_color piece) pos, current_square + 1)
       | None \<Rightarrow> (pos, current_square + 1))"

text \<open>The check of the en passant square: the pawn that skipped it must stand one rank behind.\<close>

definition fen_enpassant :: "position \<Rightarrow> int option \<Rightarrow> int option" where
  "fen_enpassant pos ep =
     (case ep of
        None \<Rightarrow> None
      | Some s \<Rightarrow>
          let stm = pos_side_to_move pos; ep_rank = sq_rank s;
              push_rank = (if stm = WHITE then ep_rank - 1 else ep_rank + 1)
          in if push_rank < 0 \<or> push_rank > 7 then None
             else case piece_on pos (push_rank * 8 + sq_file s) of
                 None \<Rightarrow> None
               | Some pawn \<Rightarrow> if p_type pawn \<noteq> PAWN \<or> p_color pawn = stm then None else Some s)"

definition from_fen :: "string \<Rightarrow> position" where
  "from_fen text =
     (let (rest, w) = read_word text [];
          pos = fst (fold fen_step w (empty_position\<lparr>pos_history := [initial_state]\<rparr>, A8));
          (rest, w) = read_word rest w;
          pos = pos\<lparr>pos_side_to_move := (case color_from (str_at w 0) of Some c \<Rightarrow> c | None \<Rightarrow> WHITE)\<rparr>;
          (rest, w) = read_word rest w;
          pos = update_state (\<lambda>st. st\<lparr>st_castling_rights := cr_from w\<rparr>) pos;
          (rest, w) = read_word rest w;
          pos = update_state (\<lambda>st. st\<lparr>st_enpassant_square := fen_enpassant pos (sq_from_str w)\<rparr>) pos;
          (rest, w) = read_word rest w;
          pos = update_state (\<lambda>st. st\<lparr>st_halfmoves := to_int32 (strtol w)\<rparr>) pos;
          (rest, w) = read_word rest w;
          pos = pos\<lparr>pos_fullmoves := to_int32 (strtol w)\<rparr>
      in (update_state (\<lambda>st. st\<lparr>st_hash := calculate_hash pos\<rparr>) pos)\<lparr>pos_start_fen := text\<rparr>)"

fun play_line :: "string list \<Rightarrow> position \<Rightarrow> position option" where
  "play_line [] pos = Some pos"
| "play_line (w # ws) pos =
     (case move_from_str w of None \<Rightarrow> None | Some m \<Rightarrow> play_line ws (make_move m pos))"

definition from_uci_position_line :: "string \<Rightarrow> position option" where
  "from_uci_position_line line =
     (let (rest, tmp) = read_word line [] in
      if tmp \<noteq> ''position'' then None
      else let (rest, board) = read_word rest tmp;
               (rest, side) = read_word rest board;
               (rest, castling) = read_word rest side;
               (rest, ep) = read_word rest castling;
               (rest, half) = read_word rest ep;
               (rest, full) = read_word rest half;
               (rest, tmp) = read_word rest full in
      if tmp \<noteq> ''moves'' then None
      else play_line (read_words rest)
        (from_fen (board @ '' '' @ side @ '' '' @ castling @ '' '' @ ep @ '' '' @ half @ '' '' @ full)))"

section \<open>The vertical flip\<close>

text \<open>\<open>__builtin_bswap64\<close>.\<close>

definition bswap64 :: "64 word \<Rightarrow> 64 word" where
  "bswap64 w = fold (\<lambda>i v. v OR push_bit (56 - 8 * i) (drop_bit (8 * i) w AND 0xff)) [0..<8] 0"

definition vflip :: "position \<Rightarrow> position" where
  "vflip p =
     (let pos = p\<lparr>pos_piece_bb := (\<lambda>pt. bswap64 (pos_piece_bb p pt)),
                 pos_color_bb := (\<lambda>c. bswap64 (pos_color_bb p (opp c)))\<rparr>;
          flip_state = (\<lambda>st.
            let tmp_cr = push_bit 2 (st_castling_rights st AND 3)
            in st\<lparr>st_enpassant_square := map_option sq_flipped (st_enpassant_square st),
                  st_castling_rights := drop_bit 2 (st_castling_rights st) XOR tmp_cr\<rparr>);
          pos = (update_state flip_state pos)\<lparr>pos_side_to_move := opp (pos_side_to_move p)\<rparr>
      in update_state (\<lambda>st. st\<lparr>st_hash := calculate_hash pos\<rparr>) pos)"

section \<open>Exchanges on one square\<close>

definition smallest_capture_move_to :: "position \<Rightarrow> int \<Rightarrow> move option" where
  "smallest_capture_move_to p square =
     (let stm = pos_side_to_move p;
          pawn_attackers_bb = pawn_attacks square (opp stm) AND piece_type_color_bb p PAWN stm in
      if pawn_attackers_bb \<noteq> 0 then
        let from_sq = forward_bitscan pawn_attackers_bb in
        if enpassant_square p = Some square then Some (mk_move from_sq square ENPASSANT)
        else if relative_rank (sq_rank square) stm = 7
          then Some (mk_move_promo from_sq square QUEEN CAPTURE_PROMOTION)
        else Some (mk_move from_sq square CAPTURE)
      else
        let attackers = (\<lambda>pt. non_pawn_piece_type_attacks pt square (occupancy_bb p) AND piece_type_color_bb p pt stm)
        in map_option (\<lambda>pt. mk_move (forward_bitscan (attackers pt)) square CAPTURE)
             (find (\<lambda>pt. attackers pt \<noteq> 0) (tl PIECE_TYPES)))"

text \<open>What the capture wins: the captured piece and the gain of a promotion.\<close>

definition capture_value :: "(piece_type \<Rightarrow> int) \<Rightarrow> bool \<Rightarrow> piece option \<Rightarrow> piece_type option \<Rightarrow> int" where
  "capture_value piece_values is_enpassant square_pt prom =
     (let piece_val = (if is_enpassant then piece_values PAWN else piece_values (p_type (the square_pt)))
      in case prom of
           None \<Rightarrow> piece_val
         | Some pt \<Rightarrow> piece_val + (piece_values pt - piece_values PAWN))"

partial_function (option) see_to :: "(piece_type \<Rightarrow> int) \<Rightarrow> int \<Rightarrow> position \<Rightarrow> int option" where
  "see_to piece_values square p =
     (case smallest_capture_move_to p square of
        None \<Rightarrow> Some 0
      | Some m \<Rightarrow>
          if piece_on p square = None \<and> move_type m \<noteq> ENPASSANT then Some 0
          else Option.bind (see_to piece_values square (make_move m p))
            (\<lambda>v. Some (max 0 (capture_value piece_values (move_type m = ENPASSANT) (piece_on p square)
                        (promotion_piece_type m) - v))))"

definition see_for :: "(piece_type \<Rightarrow> int) \<Rightarrow> move \<Rightarrow> position \<Rightarrow> int option" where
  "see_for piece_values m p =
     (let is_enpassant = (move_type_of p m = ENPASSANT); square_pt = piece_on p (to_square m) in
      if square_pt = None \<and> \<not> is_enpassant then Some 0
      else Option.bind (see_to piece_values (to_square m) (make_move m p))
        (\<lambda>v. Some (max 0 (capture_value piece_values is_enpassant square_pt (promotion_piece_type m) - v))))"

end
