(* ===== verification/Fen_Correct.thy ===== *)
theory Fen_Correct
  imports Fen Game
begin

text \<open>
  FEN text round trips: parsing the text of a well-formed position gives back its board, side to
  move, castling rights, en passant square and counters, with the hash from scratch.  The en passant
  check of the parser is characterised, the vertical flip is an involution, and the exchange
  evaluation ends on every sound position.
\<close>

section \<open>Characters\<close>

lemma digit_step:
  assumes "1 \<le> n" "n \<le> 8"
  shows "fold fen_step (to_string n) (q, s) = (q, s + n)"
proof -
  have n: "nat n < 10" using assms by simp
  have "list_all (\<lambda>d. CHR ''1'' \<le> digit_char d \<and> digit_char d \<le> CHR ''9'') [1..<10]" by code_simp
  then have "CHR ''1'' \<le> digit_char (nat n) \<and> digit_char (nat n) \<le> CHR ''9''"
    using assms unfolding list_all_iff by (metis One_nat_def atLeastLessThan_iff n nat_mono nat_one_as_int set_upt)
  moreover have "to_string n = [digit_char (nat n)]"
    using assms n by (simp add: to_string_def nat_to_str.simps [of "nat n"])
  moreover have "(of_char (digit_char (nat n)) :: int) = 48 + n"
    using of_char_digit [OF n] assms by (metis int_nat_eq of_nat_add of_nat_numeral of_nat_of_char zero_le_one
        order_trans)
  ultimately show ?thesis by (simp add: fen_step_def)
qed

lemma piece_step:
  "fen_step (piece_to_char pc) (q, s) = (put_piece s (p_type pc) (p_color pc) q, s + 1)"
proof -
  let ?c = "piece_to_char pc"
  have c: "(CHR ''1'' \<le> ?c \<and> ?c \<le> CHR ''9'') = False" "(?c = CHR ''/'') = False"
    using piece_to_char_not_digit_or_slash [of pc] by blast+
  show ?thesis unfolding fen_step_def prod.case piece_char_roundtrip c if_False option.case ..
qed

lemma slash_step: "fen_step (CHR ''/'') (q, s) = (q, s - 16)"
proof -
  have "\<not> (CHR ''1'' \<le> CHR ''/'')" by code_simp
  then show ?thesis by (simp add: fen_step_def)
qed

section \<open>The board\<close>

text \<open>\<open>q\<close> holds what \<open>p\<close> holds on the squares of \<open>S\<close>, and nothing elsewhere.\<close>

definition placed :: "position \<Rightarrow> position \<Rightarrow> int set \<Rightarrow> bool" where
  "placed q p S \<longleftrightarrow>
     (\<forall>x n. bit (pos_piece_bb q x) n \<longleftrightarrow> bit (pos_piece_bb p x) n \<and> int n \<in> S) \<and>
     (\<forall>c n. bit (pos_color_bb q c) n \<longleftrightarrow> bit (pos_color_bb p c) n \<and> int n \<in> S)"

lemma placed_put:
  assumes "placed q p S" "board_ok p" "on_board s" "has p s pt c"
  shows "placed (put_piece s pt c q) p (insert s S)"
proof -
  have n: "int n = s \<longleftrightarrow> n = nat s" "nat s < 64" for n using assms(3) by (auto simp: on_board_def)
  have p: "bit (pos_piece_bb p x) (nat s) \<longleftrightarrow> x = pt" "bit (pos_color_bb p d) (nat s) \<longleftrightarrow> d = c" for x d
    using has_bits [OF assms(2,4)] by blast+
  show ?thesis using assms(1) n p unfolding placed_def put_piece_def
    by (auto simp: bit_or_iff)
qed

lemma placed_free:
  assumes "placed q p S" "board_ok p" "on_board s" "free p s"
  shows "placed q p (insert s S)"
proof -
  have n: "int n = s \<longleftrightarrow> n = nat s" for n using assms(3) by (auto simp: on_board_def)
  show ?thesis using assms(1) n free_bits [OF assms(2,4)] unfolding placed_def by auto
qed

lemma piece_on_None:
  assumes "board_ok p" "on_board s"
  shows "piece_on p s = None \<longleftrightarrow> free p s"
proof -
  have "piece_on p s = Some pc \<longleftrightarrow> has p s (p_type pc) (p_color pc)" for pc
    using piece_on_Some [OF assms, of "p_type pc" "p_color pc"] by (cases pc) simp
  then show ?thesis unfolding free_iff [OF assms(1)]
    by (metis option.exhaust option.distinct(1) piece.select_convs(1) piece.select_convs(2))
qed

lemma piece_on_has: "board_ok p \<Longrightarrow> on_board s \<Longrightarrow> piece_on p s = Some pc \<longleftrightarrow> has p s (p_type pc) (p_color pc)"
  using piece_on_Some [of p s "p_type pc" "p_color pc"] by (cases pc) simp

definition same_stack :: "position \<Rightarrow> position \<Rightarrow> bool" where
  "same_stack q q' \<longleftrightarrow> pos_ply q' = pos_ply q \<and> pos_history q' = pos_history q"

lemma fen_files_parse:
  assumes "board_ok p" "0 \<le> r" "r < 8" "0 \<le> f" "f \<le> 8" "0 \<le> k" "k \<le> f" "placed q p S"
  shows "\<exists>q'. fold fen_step (fen_files p r k [f..7]) (q, 8 * r + f - k) = (q', 8 * r + 8) \<and>
    placed q' p (S \<union> {8 * r + f..<8 * r + 8}) \<and> same_stack q q'"
  using assms
proof (induction "nat (8 - f)" arbitrary: f k q S)
  case 0
  then have f: "f = 8" by simp
  show ?case
  proof (cases "k = 0")
    case True
    then show ?thesis using f 0 by (simp add: same_stack_def)
  next
    case False
    then have "fold fen_step (to_string k) (q, 8 * r + f - k) = (q, 8 * r + 8)"
      using digit_step [of k q "8 * r + f - k"] 0 f by simp
    then show ?thesis using f 0 False by (simp add: same_stack_def)
  qed
next
  case (Suc j)
  then have f: "f \<le> 7" "[f..7] = f # [f + 1..7]" by (simp_all add: upto_rec1)
  let ?s = "f + 8 * r"
  have s: "on_board ?s" "the (sq_from (Some f) (Some r)) = ?s"
    using Suc.prems f(1) by (auto simp: on_board_def sq_from_def file_or_rank)
  have set: "insert ?s S \<union> {8 * r + (f + 1)..<8 * r + 8} = S \<union> {8 * r + f..<8 * r + 8}"
    using f(1) by auto
  show ?case
  proof (cases "piece_on p ?s")
    case None
    then have "placed q p (insert ?s S)"
      using placed_free [OF Suc.prems(8,1) s(1)] piece_on_None [OF Suc.prems(1) s(1)] by blast
    then have "\<exists>q'. fold fen_step (fen_files p r (k + 1) [f + 1..7]) (q, 8 * r + (f + 1) - (k + 1)) = (q', 8 * r + 8) \<and>
        placed q' p (insert ?s S \<union> {8 * r + (f + 1)..<8 * r + 8}) \<and> same_stack q q'"
      using Suc.prems f(1) Suc.hyps(2) by (intro Suc.hyps(1)) auto
    then show ?thesis unfolding set using None f(2) s(2) by (simp add: algebra_simps)
  next
    case (Some pc)
    let ?q = "put_piece ?s (p_type pc) (p_color pc) q"
    have "placed ?q p (insert ?s S)"
      using placed_put [OF Suc.prems(8,1) s(1)] piece_on_has [OF Suc.prems(1) s(1)] Some by blast
    then have "\<exists>q'. fold fen_step (fen_files p r 0 [f + 1..7]) (?q, 8 * r + (f + 1) - 0) = (q', 8 * r + 8) \<and>
        placed q' p (insert ?s S \<union> {8 * r + (f + 1)..<8 * r + 8}) \<and> same_stack ?q q'"
      using Suc.prems f(1) Suc.hyps(2) by (intro Suc.hyps(1)) auto
    moreover have "fold fen_step (if k \<noteq> 0 then to_string k else []) (q, 8 * r + f - k) = (q, ?s)"
      using digit_step [of k q "8 * r + f - k"] Suc.prems f(1) by simp
    moreover have "same_stack ?q q' = same_stack q q'" for q' by (simp add: same_stack_def put_piece_def)
    ultimately show ?thesis unfolding set using Some f(2) s(2) by (simp add: piece_step algebra_simps)
  qed
qed

lemma fen_ranks_parse:
  assumes "board_ok p" "r < 8" "placed q p S"
  shows "\<exists>q' e. fold fen_step (concat (map (\<lambda>rank. fen_files p rank 0 [0..7] @ (if rank \<noteq> 0 then ''/'' else []))
      (rev [0..int r]))) (q, 8 * int r) = (q', e) \<and> placed q' p (S \<union> {0..<8 * int r + 8}) \<and> same_stack q q'"
  using assms(2,3)
proof (induction r arbitrary: q S)
  case 0
  obtain q' where q': "fold fen_step (fen_files p 0 0 [0..7]) (q, 0) = (q', 8)" "placed q' p (S \<union> {0..<8})" "same_stack q q'"
    using fen_files_parse [OF assms(1), of 0 0 0 q S] 0 by auto
  then show ?case by simp
next
  case (Suc r)
  let ?r = "int (Suc r)"
  have "\<exists>q'. fold fen_step (fen_files p ?r 0 [0..7]) (q, 8 * ?r + 0 - 0) = (q', 8 * ?r + 8) \<and>
    placed q' p (S \<union> {8 * ?r + 0..<8 * ?r + 8}) \<and> same_stack q q'"
    using Suc.prems by (intro fen_files_parse [OF assms(1)]) auto
  then obtain q1 where q1: "fold fen_step (fen_files p ?r 0 [0..7]) (q, 8 * ?r) = (q1, 8 * ?r + 8)"
    "placed q1 p (S \<union> {8 * ?r..<8 * ?r + 8})" "same_stack q q1" by auto
  obtain q2 e where q2: "fold fen_step (concat (map (\<lambda>rank. fen_files p rank 0 [0..7] @ (if rank \<noteq> 0 then ''/'' else []))
      (rev [0..int r]))) (q1, 8 * int r) = (q2, e)"
    "placed q2 p (S \<union> {8 * ?r..<8 * ?r + 8} \<union> {0..<8 * int r + 8})" "same_stack q1 q2"
    using Suc.IH [OF _ q1(2)] Suc.prems by auto
  have "S \<union> {8 * ?r..<8 * ?r + 8} \<union> {0..<8 * int r + 8} = S \<union> {0..<8 * ?r + 8}" by auto
  moreover have "[0..?r] = [0..int r] @ [?r]" by (simp add: upto_rec2)
  moreover have "8 * ?r + 8 - 16 = 8 * int r" by simp
  ultimately show ?case using q1(1,3) q2 by (auto simp: slash_step same_stack_def)
qed

lemma fen_board_parse:
  assumes "board_ok p" "pos_piece_bb q = (\<lambda>_. 0)" "pos_color_bb q = (\<lambda>_. 0)"
  obtains q' e where "fold fen_step (fen_board p) (q, A8) = (q', e)"
    "pos_piece_bb q' = pos_piece_bb p" "pos_color_bb q' = pos_color_bb p" "same_stack q q'"
proof -
  have "placed q p {}" using assms(2,3) by (simp add: placed_def)
  from fen_ranks_parse [OF assms(1) _ this, of 7] obtain q' e where
    q': "fold fen_step (fen_board p) (q, A8) = (q', e)" "placed q' p {0..<64}" "same_stack q q'"
    by (auto simp: fen_board_def)
  have "pos_piece_bb q' x = pos_piece_bb p x" "pos_color_bb q' c = pos_color_bb p c" for x c
    using q'(2) by (auto simp: placed_def intro!: word64_eqI)
  then show thesis using q'(1,3) by (intro that) (auto simp: fun_eq_iff)
qed

section \<open>The words of a FEN text\<close>

lemma is_word_list: "w \<noteq> [] \<Longrightarrow> (\<And>c. c \<in> set w \<Longrightarrow> \<not> is_space c) \<Longrightarrow> is_word w"
  by (auto simp: is_word_def list_all_iff)

lemma piece_to_char_not_space: "\<not> is_space (piece_to_char pc)"
proof -
  have "\<forall>t c. \<not> is_space (piece_to_char \<lparr>p_type = t, p_color = c\<rparr>)" by code_simp
  then show ?thesis by (cases pc) auto
qed

lemma color_char: "is_word [color_to_char c]" "color_from (color_to_char c) = Some c"
  by (cases c; simp add: is_word_def is_space_def color_to_char_def color_from_def)+

lemma is_word_cr: "is_word (cr_to_str r)"
  by (auto simp: cr_to_str_def is_word_def is_space_def Let_def)

lemma is_word_square: "on_board s \<Longrightarrow> is_word (sq_to_str s)"
proof -
  have "list_all (\<lambda>f. \<not> is_space (file_to_char f) \<and> \<not> is_space (rank_to_char f)) [0..7]" by code_simp
  then show "on_board s \<Longrightarrow> is_word (sq_to_str s)"
    using sq_rank_range [of s] by (simp add: list_all_iff sq_to_str_def is_word_def)
qed

lemma fen_files_no_space: "c \<in> set (fen_files p r k fs) \<Longrightarrow> \<not> is_space c"
proof (induction fs arbitrary: k)
  case Nil
  then show ?case using is_word_to_string [of k] by (auto simp: is_word_def list_all_iff split: if_splits)
next
  case (Cons f fs)
  then show ?case using is_word_to_string [of k] piece_to_char_not_space
    by (auto simp: is_word_def list_all_iff split: if_splits option.splits)
qed

lemma is_word_fen_board: "is_word (fen_board p)"
proof (rule is_word_list)
  have "CHR ''/'' \<in> set (fen_board p)" by (auto simp: fen_board_def intro!: bexI [of _ 1])
  then show "fen_board p \<noteq> []" by auto
  fix c
  assume "c \<in> set (fen_board p)"
  then consider rank where "c \<in> set (fen_files p rank 0 [0..7])" | "c = CHR ''/''"
    by (auto simp: fen_board_def split: if_splits)
  then show "\<not> is_space c" using fen_files_no_space by cases (blast, simp add: is_space_def)
qed

section \<open>The round trip\<close>

lemma cr_from_str: "castling_ok r \<Longrightarrow> cr_from (cr_to_str r) = r"
  by (rule cr_from_to_str)

lemma to_string_read: "- (2 ^ 31) \<le> i \<Longrightarrow> i < 2 ^ 31 \<Longrightarrow> to_int32 (strtol (to_string i)) = i"
  using strtol_to_string [of i] to_int32_id [of i] by simp

definition ep_text :: "int option \<Rightarrow> string" where
  "ep_text ep = (case ep of Some s \<Rightarrow> sq_to_str s | None \<Rightarrow> ''-'')"

lemma ep_text_props:
  assumes "\<And>s. ep = Some s \<Longrightarrow> on_board s"
  shows "is_word (ep_text ep)" "sq_from_str (ep_text ep) = ep"
proof -
  have "sq_from_str ''-'' = None" "is_word ''-''" by code_simp+
  then show "is_word (ep_text ep)" "sq_from_str (ep_text ep) = ep"
    using assms by (auto simp: ep_text_def is_word_square sq_from_str_to_str split: option.split)
qed

lemma fen_enpassant_ok:
  assumes "board_ok p" "ep_ok p" "enpassant_square p = Some s"
    and "pos_piece_bb q = pos_piece_bb p" "pos_color_bb q = pos_color_bb p" "pos_side_to_move q = pos_side_to_move p"
  shows "fen_enpassant q (Some s) = Some s"
proof -
  let ?c = "pos_side_to_move p" and ?v = "ep_victim (pos_side_to_move p) s"
  have v: "on_board s" "on_board ?v" "has p ?v PAWN (opp ?c)"
    using assms(2,3) by (auto simp: ep_ok_def)
  have sq: "?v = (if ?c = WHITE then sq_rank s - 1 else sq_rank s + 1) * 8 + sq_file s"
    using mult_div_mod_eq [of 8 s] by (simp add: ep_victim_def sq_file_mod sq_rank_div algebra_simps)
  then have range: "\<not> ((if ?c = WHITE then sq_rank s - 1 else sq_rank s + 1) < 0 \<or>
      (if ?c = WHITE then sq_rank s - 1 else sq_rank s + 1) > 7)"
    using v(2) sq_file_range [of s] unfolding on_board_def by linarith
  have "piece_on q ?v = piece_on p ?v"
    using has_cong(6,7) [OF assms(4,5)] by (simp add: piece_on_def)
  also have "\<dots> = Some \<lparr>p_type = PAWN, p_color = opp ?c\<rparr>" using piece_on_Some [OF assms(1) v(2)] v(3) by blast
  finally have "piece_on q ((if ?c = WHITE then sq_rank s - 1 else sq_rank s + 1) * 8 + sq_file s)
      = Some \<lparr>p_type = PAWN, p_color = opp ?c\<rparr>" unfolding sq .
  then show ?thesis using range by (simp add: fen_enpassant_def Let_def assms(6))
qed

lemma fen_words:
  assumes "\<And>s. enpassant_square p = Some s \<Longrightarrow> on_board s"
  shows "read_word (fen p) v = (CHR '' '' # color_to_char (pos_side_to_move p) # CHR '' '' #
      cr_to_str (castling_rights p) @ CHR '' '' # ep_text (enpassant_square p) @ CHR '' '' #
      to_string (halfmoves p) @ CHR '' '' # to_string (pos_fullmoves p), fen_board p)"
proof -
  have "fen p = fen_board p @ CHR '' '' # color_to_char (pos_side_to_move p) # CHR '' '' #
      cr_to_str (castling_rights p) @ CHR '' '' # ep_text (enpassant_square p) @ CHR '' '' #
      to_string (halfmoves p) @ CHR '' '' # to_string (pos_fullmoves p)"
    by (simp add: fen_def ep_text_def)
  then show ?thesis using read_word_here [OF is_word_fen_board] by (simp add: is_space_def)
qed

lemma update_state_cur:
  assumes "nat (pos_ply p) < length (pos_history p)"
  shows "cur_state (update_state f p) = f (cur_state p)"
  using assms by (simp add: update_state_def cur_state_def)

lemma update_state_fields [pos_simps]:
  "pos_piece_bb (update_state f p) = pos_piece_bb p" "pos_color_bb (update_state f p) = pos_color_bb p"
  "pos_side_to_move (update_state f p) = pos_side_to_move p" "pos_ply (update_state f p) = pos_ply p"
  "pos_fullmoves (update_state f p) = pos_fullmoves p"
  "length (pos_history (update_state f p)) = length (pos_history p)"
  by (simp_all add: update_state_def)

text \<open>What the parser builds from six words.\<close>

lemma from_fen_words:
  assumes r: "read_word text [] = (r1, w1)" "read_word r1 w1 = (r2, w2)" "read_word r2 w2 = (r3, w3)"
      "read_word r3 w3 = (r4, w4)" "read_word r4 w4 = (r5, w5)" "read_word r5 w5 = (r6, w6)"
    and b: "fold fen_step w1 (empty_position\<lparr>pos_history := [initial_state]\<rparr>, A8) = (b, e)"
      "same_stack (empty_position\<lparr>pos_history := [initial_state]\<rparr>) b"
  defines "q \<equiv> from_fen text"
  shows "pos_piece_bb q = pos_piece_bb b" "pos_color_bb q = pos_color_bb b"
    "pos_side_to_move q = (case color_from (str_at w2 0) of Some c \<Rightarrow> c | None \<Rightarrow> WHITE)"
    "castling_rights q = cr_from w3"
    "\<exists>q'. pos_piece_bb q' = pos_piece_bb b \<and> pos_color_bb q' = pos_color_bb b \<and>
       pos_side_to_move q' = pos_side_to_move q \<and> enpassant_square q = fen_enpassant q' (sq_from_str w4)"
    "halfmoves q = to_int32 (strtol w5)" "pos_fullmoves q = to_int32 (strtol w6)"
    "pos_hash q = calculate_hash q" "stack_ok q" "pos_ply q = 0" "pos_start_fen q = text"
proof -
  define p1 where "p1 = b\<lparr>pos_side_to_move := (case color_from (str_at w2 0) of Some c \<Rightarrow> c | None \<Rightarrow> WHITE)\<rparr>"
  define p2 where "p2 = update_state (\<lambda>st. st\<lparr>st_castling_rights := cr_from w3\<rparr>) p1"
  define p3 where "p3 = update_state (\<lambda>st. st\<lparr>st_enpassant_square := fen_enpassant p2 (sq_from_str w4)\<rparr>) p2"
  define p4 where "p4 = update_state (\<lambda>st. st\<lparr>st_halfmoves := to_int32 (strtol w5)\<rparr>) p3"
  define p5 where "p5 = p4\<lparr>pos_fullmoves := to_int32 (strtol w6)\<rparr>"
  define p6 where "p6 = update_state (\<lambda>st. st\<lparr>st_hash := calculate_hash p5\<rparr>) p5"
  have q: "q = p6\<lparr>pos_start_fen := text\<rparr>"
    unfolding q_def from_fen_def Let_def r b(1) prod.case fst_conv p6_def p5_def p4_def p3_def p2_def p1_def
    by simp
  note F = pos_simps
  have ply1: "pos_ply p1 = 0 \<and> length (pos_history p1) = 1"
    using b(2) by (simp add: p1_def same_stack_def empty_position_def)
  have ply2: "pos_ply p2 = 0 \<and> length (pos_history p2) = 1" unfolding p2_def F by (rule ply1)
  have ply3: "pos_ply p3 = 0 \<and> length (pos_history p3) = 1" unfolding p3_def F by (rule ply2)
  have ply4: "pos_ply p4 = 0 \<and> length (pos_history p4) = 1" unfolding p4_def F by (rule ply3)
  have ply5: "pos_ply p5 = 0 \<and> length (pos_history p5) = 1" using ply4 by (simp add: p5_def)
  have ply6: "pos_ply p6 = 0 \<and> length (pos_history p6) = 1" unfolding p6_def F by (rule ply5)
  have c: "cur_state p2 = (cur_state p1)\<lparr>st_castling_rights := cr_from w3\<rparr>"
    "cur_state p3 = (cur_state p2)\<lparr>st_enpassant_square := fen_enpassant p2 (sq_from_str w4)\<rparr>"
    "cur_state p4 = (cur_state p3)\<lparr>st_halfmoves := to_int32 (strtol w5)\<rparr>"
    "cur_state p5 = cur_state p4"
    "cur_state p6 = (cur_state p5)\<lparr>st_hash := calculate_hash p5\<rparr>"
  proof -
    show "cur_state p2 = (cur_state p1)\<lparr>st_castling_rights := cr_from w3\<rparr>"
      unfolding p2_def by (rule update_state_cur) (use ply1 in simp)
    show "cur_state p3 = (cur_state p2)\<lparr>st_enpassant_square := fen_enpassant p2 (sq_from_str w4)\<rparr>"
      unfolding p3_def by (rule update_state_cur) (use ply2 in simp)
    show "cur_state p4 = (cur_state p3)\<lparr>st_halfmoves := to_int32 (strtol w5)\<rparr>"
      unfolding p4_def by (rule update_state_cur) (use ply3 in simp)
    show "cur_state p5 = cur_state p4" unfolding p5_def cur_state_def by simp
    show "cur_state p6 = (cur_state p5)\<lparr>st_hash := calculate_hash p5\<rparr>"
      unfolding p6_def by (rule update_state_cur) (use ply5 in simp)
  qed
  have cq: "cur_state q = cur_state p6" by (simp add: q cur_state_def)
  have board2: "pos_piece_bb p2 = pos_piece_bb b" "pos_color_bb p2 = pos_color_bb b"
    "pos_side_to_move p2 = pos_side_to_move p1" unfolding p2_def F by (simp_all add: p1_def)
  have board5: "pos_piece_bb p5 = pos_piece_bb b" "pos_color_bb p5 = pos_color_bb b"
    "pos_side_to_move p5 = pos_side_to_move p1"
    using board2 by (simp_all add: p5_def p4_def p3_def F)
  have boardq: "pos_piece_bb q = pos_piece_bb b" "pos_color_bb q = pos_color_bb b"
    "pos_side_to_move q = pos_side_to_move p1"
    using board5 by (simp_all add: q p6_def F)
  show "pos_piece_bb q = pos_piece_bb b" "pos_color_bb q = pos_color_bb b"
    "pos_side_to_move q = (case color_from (str_at w2 0) of Some c \<Rightarrow> c | None \<Rightarrow> WHITE)"
    using boardq by (simp_all add: p1_def)
  show "castling_rights q = cr_from w3" by (simp add: castling_rights_def cq c)
  show "halfmoves q = to_int32 (strtol w5)" by (simp add: halfmoves_def cq c)
  show "pos_fullmoves q = to_int32 (strtol w6)" by (simp add: q p6_def p5_def F)
  show "\<exists>q'. pos_piece_bb q' = pos_piece_bb b \<and> pos_color_bb q' = pos_color_bb b \<and>
       pos_side_to_move q' = pos_side_to_move q \<and> enpassant_square q = fen_enpassant q' (sq_from_str w4)"
    using board2 boardq by (intro exI [of _ p2]) (simp add: enpassant_square_def cq c)
  have "calculate_hash q = calculate_hash p5"
    using board5 boardq
    by (intro calculate_hash_cong) (simp_all add: enpassant_square_def castling_rights_def cq c)
  then show "pos_hash q = calculate_hash q" by (simp add: pos_hash_def cq c)
  show "stack_ok q" "pos_ply q = 0" "pos_start_fen q = text"
    using ply6 by (simp_all add: stack_ok_def q)
qed

text \<open>The whole text.\<close>

lemma from_fen_fen:
  assumes "board_ok p" "ep_ok p" "castling_ok (castling_rights p)"
    and "- (2 ^ 31) \<le> halfmoves p" "halfmoves p < 2 ^ 31" "- (2 ^ 31) \<le> pos_fullmoves p" "pos_fullmoves p < 2 ^ 31"
  defines "q \<equiv> from_fen (fen p)"
  shows "pos_piece_bb q = pos_piece_bb p" "pos_color_bb q = pos_color_bb p"
    "pos_side_to_move q = pos_side_to_move p" "castling_rights q = castling_rights p"
    "enpassant_square q = enpassant_square p" "halfmoves q = halfmoves p" "pos_fullmoves q = pos_fullmoves p"
    "pos_hash q = calculate_hash p" "stack_ok q"
proof -
  have on: "enpassant_square p = Some s \<Longrightarrow> on_board s" for s using assms(2) by (simp add: ep_ok_def)
  note ep = ep_text_props [of "enpassant_square p", OF on]
  let ?init = "empty_position\<lparr>pos_history := [initial_state]\<rparr>"
  obtain b e where b: "fold fen_step (fen_board p) (?init, A8) = (b, e)"
    "pos_piece_bb b = pos_piece_bb p" "pos_color_bb b = pos_color_bb p" "same_stack ?init b"
    by (rule fen_board_parse [OF assms(1), of ?init]) (simp_all add: empty_position_def)
  have sp: "CHR '' '' # x = [] \<or> is_space (hd (CHR '' '' # x))" for x by (simp add: is_space_def)
  note R = from_fen_words [OF fen_words [OF on] read_word_next [OF color_char(1) sp, unfolded append_Cons append_Nil]
      read_word_next [OF is_word_cr sp] read_word_next [OF ep(1) sp] read_word_next [OF is_word_to_string sp]
      read_word_next [OF is_word_to_string, of "[]", unfolded append_Nil2] b(1) b(4), folded q_def, simplified]
  show 1: "pos_piece_bb q = pos_piece_bb p" "pos_color_bb q = pos_color_bb p" using R(1,2) b(2,3) by simp_all
  show 2: "pos_side_to_move q = pos_side_to_move p" using R(3) by (simp add: str_at_def color_char(2))
  show 3: "castling_rights q = castling_rights p" using R(4) cr_from_str [OF assms(3)] by simp
  show "halfmoves q = halfmoves p" using R(6) to_string_read [OF assms(4,5)] by simp
  show "pos_fullmoves q = pos_fullmoves p" using R(7) to_string_read [OF assms(6,7)] by simp
  show 4: "enpassant_square q = enpassant_square p"
  proof -
    obtain q' where q': "pos_piece_bb q' = pos_piece_bb p" "pos_color_bb q' = pos_color_bb p"
      "pos_side_to_move q' = pos_side_to_move p" "enpassant_square q = fen_enpassant q' (enpassant_square p)"
      using R(5) ep(2) b(2,3) 2 by auto
    show ?thesis
    proof (cases "enpassant_square p")
      case None
      then show ?thesis using q'(4) by (simp add: fen_enpassant_def)
    next
      case (Some s)
      then show ?thesis using q'(4) fen_enpassant_ok [OF assms(1,2) Some q'(1-3)] by simp
    qed
  qed
  show "stack_ok q" using R by simp
  have "calculate_hash q = calculate_hash p" by (rule calculate_hash_cong [OF 1 2 4 3])
  then show "pos_hash q = calculate_hash p" using R(8) by simp
qed

text \<open>C19 (roundtrip). The FEN text of a position with a sound board, en passant square and rights, and
  counters that fit an \<open>int\<close>, parses back to the same board, side, rights, en passant square and
  counters, with the hash computed from scratch and a one-entry state stack.\<close>

theorem fen_text_roundtrip:
  assumes "board_ok p" "ep_ok p" "castling_ok (castling_rights p)"
    and "- (2 ^ 31) \<le> halfmoves p \<and> halfmoves p < 2 ^ 31"
    and "- (2 ^ 31) \<le> pos_fullmoves p \<and> pos_fullmoves p < 2 ^ 31"
  shows "let q = from_fen (fen p) in
    pos_piece_bb q = pos_piece_bb p \<and> pos_color_bb q = pos_color_bb p \<and>
    pos_side_to_move q = pos_side_to_move p \<and> castling_rights q = castling_rights p \<and>
    enpassant_square q = enpassant_square p \<and> halfmoves q = halfmoves p \<and>
    pos_fullmoves q = pos_fullmoves p \<and> pos_hash q = calculate_hash p \<and> stack_ok q"
  using from_fen_fen [OF assms(1-3) conjunct1 [OF assms(4)] conjunct2 [OF assms(4)]
      conjunct1 [OF assms(5)] conjunct2 [OF assms(5)]] by (simp only: Let_def simp_thms)

theorem fen_text_roundtrip_witness:
  "pos_piece_bb (from_fen (fen small_game)) = pos_piece_bb small_game \<and> castling_rights (from_fen (fen small_game)) = 0"
proof -
  have "castling_ok (castling_rights small_game)" by (simp add: pawn_game_fields castling_ok_def)
  moreover have "pos_fullmoves small_game = 1"
    by (simp add: pawn_game_def pawn_board_def update_state_def empty_position_def)
  ultimately show ?thesis
    using fen_text_roundtrip [of small_game] small_ok(1,3) by (simp add: Let_def game_ok_def pawn_game_fields)
qed

text \<open>The parser keeps an en passant square exactly when an enemy pawn stands one rank behind
  it: the rank and the emptiness of the square are never looked at, so a square no pawn can have passed
  over on a double push, even an occupied one, is kept.\<close>

theorem fen_enpassant_looks_at_the_pawn_only:
  assumes "board_ok p" "on_board s"
  shows "fen_enpassant p (Some s) =
    (if on_board (ep_victim (pos_side_to_move p) s) \<and>
        has p (ep_victim (pos_side_to_move p) s) PAWN (opp (pos_side_to_move p)) then Some s else None)"
proof -
  let ?c = "pos_side_to_move p" and ?v = "ep_victim (pos_side_to_move p) s"
  let ?r = "if ?c = WHITE then sq_rank s - 1 else sq_rank s + 1"
  have sq: "?v = ?r * 8 + sq_file s"
    using mult_div_mod_eq [of 8 s] by (simp add: ep_victim_def sq_file_mod sq_rank_div algebra_simps)
  have on: "on_board ?v \<longleftrightarrow> \<not> (?r < 0 \<or> ?r > 7)"
    unfolding sq on_board_def using sq_file_range [of s] by linarith
  have "has p ?v PAWN (opp ?c) \<longleftrightarrow> (\<exists>pc. piece_on p ?v = Some pc \<and> p_type pc = PAWN \<and> p_color pc \<noteq> ?c)"
    if "on_board ?v"
  proof -
    have "pc = \<lparr>p_type = PAWN, p_color = opp ?c\<rparr>" if "p_type pc = PAWN" "p_color pc \<noteq> ?c" for pc :: piece
      using that color_cases_of [of "p_color pc" ?c] by (cases pc) auto
    then show ?thesis
      using piece_on_has [OF assms(1) that, of "\<lparr>p_type = PAWN, p_color = opp ?c\<rparr>"] by (cases ?c) auto
  qed
  then show ?thesis using on unfolding sq
    by (auto simp: fen_enpassant_def Let_def split: option.splits)
qed

theorem fen_enpassant_looks_at_the_pawn_only_witness:
  "fen_enpassant (small_game\<lparr>pos_side_to_move := BLACK\<rparr>) (Some 4) = Some 4 \<and>
    \<not> free (small_game\<lparr>pos_side_to_move := BLACK\<rparr>) 4"
proof -
  let ?p = "small_game\<lparr>pos_side_to_move := BLACK\<rparr>"
  have h: "has ?p u pt c = has small_game u pt c" for u pt c by (simp add: has_def)
  have "board_ok ?p" using small_ok(1) by (simp add: board_ok_def all_piece_type occupancy_bb_def)
  moreover have "\<not> free ?p 4" using pawn_game_free [of 12 4] by (simp add: free_def occupancy_bb_def)
  ultimately show ?thesis
    using fen_enpassant_looks_at_the_pawn_only [of ?p 4]
    by (simp add: on_board_def ep_victim_def h pawn_game_has)
qed

end
