(* ===== verification/Exchange.thy ===== *)
theory Exchange
  imports Fen_Correct
begin

text \<open>
  The vertical flip of \<open>Position/Utilities.h\<close> and the exchange evaluation \<open>see_to\<close>: the flip mirrors
  the board with colours swapped and is an involution; the recursion of \<open>see_to\<close>, which the source
  does not bound, always ends, because every capture takes a piece off the board.
\<close>

section \<open>Byte swap\<close>

lemma bit_byte: "bit (push_bit (56 - 8 * i) (drop_bit (8 * i) w AND 0xff)) n \<longleftrightarrow>
    n < 64 \<and> 56 - 8 * i \<le> n \<and> n - (56 - 8 * i) < 8 \<and> bit w (8 * i + (n - (56 - 8 * i)))" for w :: "64 word"
proof -
  have e: "(0xff :: 64 word) = mask 8" by (simp add: mask_eq_exp_minus_1)
  have "bit (0xff :: 64 word) m \<longleftrightarrow> m < 8" for m unfolding e bit_mask_iff by auto
  then show ?thesis by (auto simp: bit_push_bit_iff bit_and_iff bit_drop_bit_eq)
qed

lemma bit_bswap64_byte:
  assumes "r < 8" "k < 8"
  shows "bit (bswap64 w) (8 * r + k) \<longleftrightarrow> bit w (8 * (7 - r) + k)"
proof -
  have "bit (bswap64 w) (8 * r + k) \<longleftrightarrow> (\<exists>i\<in>set [0..<8]. 56 - 8 * i \<le> 8 * r + k \<and> 8 * r + k - (56 - 8 * i) < 8
      \<and> bit w (8 * i + (8 * r + k - (56 - 8 * i))))"
  proof -
    have "bit (fold (\<lambda>i v. v OR push_bit (56 - 8 * i) (drop_bit (8 * i) w AND 0xff)) xs v) n \<longleftrightarrow>
      bit v n \<or> (\<exists>i\<in>set xs. bit (push_bit (56 - 8 * i) (drop_bit (8 * i) w AND 0xff)) n)" for xs v n
      by (induction xs arbitrary: v) (auto simp: bit_or_iff)
    then show ?thesis using assms unfolding bswap64_def bit_byte by auto
  qed
  also have "\<dots> \<longleftrightarrow> bit w (8 * (7 - r) + k)"
  proof -
    have only: "56 - 8 * i \<le> 8 * r + k \<and> 8 * r + k - (56 - 8 * i) < 8 \<longleftrightarrow> i = 7 - r" if "i < 8" for i
      using assms that by linarith
    have "(\<exists>i\<in>set [0..<8]. 56 - 8 * i \<le> 8 * r + k \<and> 8 * r + k - (56 - 8 * i) < 8
      \<and> bit w (8 * i + (8 * r + k - (56 - 8 * i)))) \<longleftrightarrow>
      (\<exists>i\<in>set [0..<8]. i = 7 - r \<and> bit w (8 * i + (8 * r + k - (56 - 8 * i))))"
      using only by (metis (no_types, lifting) atLeastLessThan_iff set_upt)
    also have "\<dots> \<longleftrightarrow> bit w (8 * (7 - r) + (8 * r + k - (56 - 8 * (7 - r))))" using assms by auto
    also have "8 * r + k - (56 - 8 * (7 - r)) = k" using assms by linarith
    finally show ?thesis .
  qed
  finally show ?thesis .
qed

lemma bit_bswap64:
  assumes "on_board s"
  shows "bit (bswap64 w) (nat s) \<longleftrightarrow> bit w (nat (sq_flipped s))"
proof -
  have f: "on_board (sq_flipped s)"
    using sq_flipped_coords(2) [OF assms] assms by (simp add: on_board_coords)
  note r = sq_rank_range [OF assms]
  have "nat s = 8 * nat (sq_rank s) + nat (sq_file s)" using nat_square [OF assms] by simp
  moreover have "nat (sq_flipped s) = 8 * (7 - nat (sq_rank s)) + nat (sq_file s)"
    using nat_square [OF f] sq_flipped_coords [OF assms] r by (simp add: nat_diff_distrib)
  moreover have "nat (sq_rank s) < 8" "nat (sq_file s) < 8" using r sq_file_range [of s] by linarith+
  ultimately show ?thesis using bit_bswap64_byte by simp
qed

lemma sq_flipped_on_board: "on_board s \<Longrightarrow> on_board (sq_flipped s)"
  using sq_flipped_coords(2) by (simp add: on_board_coords)

lemma bswap64_involution: "bswap64 (bswap64 w) = w"
proof (rule word64_eqI)
  fix n :: nat
  assume "n < 64"
  then have s: "on_board (int n)" by (simp add: on_board_def)
  show "bit (bswap64 (bswap64 w)) n = bit w n"
    using bit_bswap64 [OF s, of "bswap64 w"] bit_bswap64 [OF sq_flipped_on_board [OF s], of w] sq_flipped_involution
    by simp
qed

section \<open>The flip\<close>

lemma swap_rights:
  assumes "castling_ok r"
  shows "castling_ok (drop_bit 2 r XOR push_bit 2 (r AND 3))"
    "drop_bit 2 (drop_bit 2 r XOR push_bit 2 (r AND 3)) XOR push_bit 2 ((drop_bit 2 r XOR push_bit 2 (r AND 3)) AND 3) = r"
proof -
  have "\<forall>r\<in>set [0..15 :: int]. castling_ok (drop_bit 2 r XOR push_bit 2 (r AND 3)) \<and>
    drop_bit 2 (drop_bit 2 r XOR push_bit 2 (r AND 3)) XOR push_bit 2 ((drop_bit 2 r XOR push_bit 2 (r AND 3)) AND 3) = r"
    by code_simp
  then show "castling_ok (drop_bit 2 r XOR push_bit 2 (r AND 3))"
    "drop_bit 2 (drop_bit 2 r XOR push_bit 2 (r AND 3)) XOR push_bit 2 ((drop_bit 2 r XOR push_bit 2 (r AND 3)) AND 3) = r"
    using castling_ok_cases [OF assms] by blast+
qed

definition flip_state :: "64 word \<Rightarrow> state \<Rightarrow> state" where
  "flip_state h st = st\<lparr>st_enpassant_square := map_option sq_flipped (st_enpassant_square st),
     st_castling_rights := drop_bit 2 (st_castling_rights st) XOR push_bit 2 (st_castling_rights st AND 3),
     st_hash := h\<rparr>"

lemma vflip_form:
  assumes "stack_ok p"
  shows "\<exists>h. vflip p = p\<lparr>pos_piece_bb := (\<lambda>pt. bswap64 (pos_piece_bb p pt)),
      pos_color_bb := (\<lambda>c. bswap64 (pos_color_bb p (opp c))), pos_side_to_move := opp (pos_side_to_move p),
      pos_history := (pos_history p)[nat (pos_ply p) := flip_state h (cur_state p)]\<rparr> \<and> h = calculate_hash (vflip p)"
proof -
  define p1 where "p1 = (update_state (\<lambda>st. let tmp_cr = push_bit 2 (st_castling_rights st AND 3)
            in st\<lparr>st_enpassant_square := map_option sq_flipped (st_enpassant_square st),
                  st_castling_rights := drop_bit 2 (st_castling_rights st) XOR tmp_cr\<rparr>)
       (p\<lparr>pos_piece_bb := (\<lambda>pt. bswap64 (pos_piece_bb p pt)), pos_color_bb := (\<lambda>c. bswap64 (pos_color_bb p (opp c)))\<rparr>))
    \<lparr>pos_side_to_move := opp (pos_side_to_move p)\<rparr>"
  have v: "vflip p = update_state (\<lambda>st. st\<lparr>st_hash := calculate_hash p1\<rparr>) p1"
    by (simp add: vflip_def p1_def Let_def)
  have l: "nat (pos_ply p) < length (pos_history p)" by (rule nat_ply_less [OF assms])
  then have l1: "nat (pos_ply p1) < length (pos_history p1)" by (simp add: p1_def update_state_def)
  have "calculate_hash (vflip p) = calculate_hash p1"
    by (rule calculate_hash_cong)
      (simp_all add: v pos_simps enpassant_square_def castling_rights_def update_state_cur [OF l1])
  moreover have "vflip p = p\<lparr>pos_piece_bb := (\<lambda>pt. bswap64 (pos_piece_bb p pt)),
      pos_color_bb := (\<lambda>c. bswap64 (pos_color_bb p (opp c))), pos_side_to_move := opp (pos_side_to_move p),
      pos_history := (pos_history p)[nat (pos_ply p) := flip_state (calculate_hash p1) (cur_state p)]\<rparr>"
    using l unfolding v by (simp add: update_state_def [of _ p1])
      (simp add: p1_def update_state_def cur_state_def flip_state_def Let_def)
  ultimately show ?thesis by auto
qed

lemma vflip_twice:
  assumes "stack_ok p" "castling_ok (castling_rights p)" "pos_hash p = calculate_hash p"
  shows "vflip (vflip p) = p"
proof -
  let ?q = "vflip p"
  obtain h where q: "?q = p\<lparr>pos_piece_bb := (\<lambda>pt. bswap64 (pos_piece_bb p pt)),
      pos_color_bb := (\<lambda>c. bswap64 (pos_color_bb p (opp c))), pos_side_to_move := opp (pos_side_to_move p),
      pos_history := (pos_history p)[nat (pos_ply p) := flip_state h (cur_state p)]\<rparr>"
    using vflip_form [OF assms(1)] by blast
  have l: "nat (pos_ply p) < length (pos_history p)" by (rule nat_ply_less [OF assms(1)])
  have sq: "stack_ok ?q" using assms(1) by (simp add: q stack_ok_def)
  have cq: "cur_state ?q = flip_state h (cur_state p)" using l by (simp add: q cur_state_def)
  obtain h' where r: "vflip ?q = ?q\<lparr>pos_piece_bb := (\<lambda>pt. bswap64 (pos_piece_bb ?q pt)),
      pos_color_bb := (\<lambda>c. bswap64 (pos_color_bb ?q (opp c))), pos_side_to_move := opp (pos_side_to_move ?q),
      pos_history := (pos_history ?q)[nat (pos_ply ?q) := flip_state h' (cur_state ?q)]\<rparr>"
    "h' = calculate_hash (vflip ?q)"
    using vflip_form [OF sq] by blast
  have ep: "map_option sq_flipped (map_option sq_flipped e) = e" for e
    by (cases e) (simp_all add: sq_flipped_involution)
  have two: "flip_state h' (flip_state h (cur_state p)) = (cur_state p)\<lparr>st_hash := h'\<rparr>"
    using swap_rights(2) [OF assms(2)] ep by (simp add: flip_state_def castling_rights_def)
  have form: "vflip ?q = p\<lparr>pos_history := (pos_history p)[nat (pos_ply p) := (cur_state p)\<lparr>st_hash := h'\<rparr>]\<rparr>"
    unfolding r(1) cq two by (simp add: q bswap64_involution)
  have "calculate_hash (vflip ?q) = calculate_hash p"
    using l unfolding form by (intro calculate_hash_cong) (simp_all add: enpassant_square_def castling_rights_def cur_state_def)
  then have "(cur_state p)\<lparr>st_hash := h'\<rparr> = cur_state p"
    using r(2) assms(3) by (simp add: pos_hash_def)
  then show ?thesis unfolding form by (simp add: cur_state_def)
qed

lemma vflip_has:
  assumes "stack_ok p" "on_board s"
  shows "has (vflip p) s pt c \<longleftrightarrow> has p (sq_flipped s) pt (opp c)"
    "pos_side_to_move (vflip p) = opp (pos_side_to_move p)"
proof -
  obtain h where q: "vflip p = p\<lparr>pos_piece_bb := (\<lambda>pt. bswap64 (pos_piece_bb p pt)),
      pos_color_bb := (\<lambda>c. bswap64 (pos_color_bb p (opp c))), pos_side_to_move := opp (pos_side_to_move p),
      pos_history := (pos_history p)[nat (pos_ply p) := flip_state h (cur_state p)]\<rparr>"
    using vflip_form [OF assms(1)] by blast
  show "has (vflip p) s pt c \<longleftrightarrow> has p (sq_flipped s) pt (opp c)"
    "pos_side_to_move (vflip p) = opp (pos_side_to_move p)"
    by (simp_all add: q has_def bit_bswap64 [OF assms(2)])
qed

section \<open>Exchanges end\<close>

definition occupied :: "position \<Rightarrow> int set" where
  "occupied p = {u. on_board u \<and> \<not> free p u}"

lemma finite_occupied [simp]: "finite (occupied p)"
proof -
  have "occupied p \<subseteq> {0..63}" by (auto simp: occupied_def on_board_def)
  then show ?thesis using finite_atLeastAtMost_int finite_subset by blast
qed

lemma smallest_capture_fits:
  assumes "pos_ok p" "ep_ok p" "on_board s" "color_of p s \<noteq> Some (pos_side_to_move p)"
    and "smallest_capture_move_to p s = Some m" "piece_on p s \<noteq> None \<or> move_type m = ENPASSANT"
  shows "move_fits p m" "to_square m = s"
    "move_type_of p m \<in> {CAPTURE, CAPTURE_PROMOTION} \<and> \<not> free p s \<or> move_type_of p m = ENPASSANT \<and> enpassant_square p = Some s"
proof -
  let ?c = "pos_side_to_move p"
  have ok: "board_ok p" using assms(1) by (simp add: pos_ok_def)
  have target: "\<exists>pt. has p s pt (opp ?c)" if piece: "piece_on p s \<noteq> None"
  proof -
    obtain pc where "piece_on p s = Some pc" using piece by auto
    then have pc: "has p s (p_type pc) (p_color pc)" using piece_on_has [OF ok assms(3)] by blast
    then have "p_color pc \<noteq> ?c" using assms(4) has_iff_on [OF ok assms(3)] by auto
    then show ?thesis using pc color_cases_of [of "p_color pc" ?c] by auto
  qed
  have cap: "move_fits p (mk_move f s CAPTURE) \<and> to_square (mk_move f s CAPTURE) = s \<and>
      move_type_of p (mk_move f s CAPTURE) = CAPTURE \<and> \<not> free p s"
    if "on_board f" "f \<noteq> s" "has p f pt ?c" "piece_on p s \<noteq> None" for f pt
    using that target [OF that(4)] assms(3) piece_on_None [OF ok assms(3)]
    by (auto simp: move_fits_def move_ok_def mk_move_fields move_type_of_typed Let_def)
  let ?pawns = "pawn_attacks s (opp ?c) AND piece_type_color_bb p PAWN ?c"
  have "move_fits p m \<and> to_square m = s \<and> (move_type_of p m \<in> {CAPTURE, CAPTURE_PROMOTION} \<and> \<not> free p s \<or>
      move_type_of p m = ENPASSANT \<and> enpassant_square p = Some s)"
  proof (cases "?pawns = 0")
    case False
    let ?f = "forward_bitscan ?pawns"
    have f: "on_board ?f" "has p ?f PAWN ?c" "pawn_sees ?f ?c s"
      using forward_bitscan_lowest(1,2) [OF False] assms(3)
      by (auto simp: bit_and_iff bit_piece_type_color bit_pawn_sees pawn_sees_back)
    have fs: "?f \<noteq> s" using pawn_sees_ne [OF f(3)] by (rule not_sym)
    consider "enpassant_square p = Some s" "m = mk_move ?f s ENPASSANT"
      | "piece_on p s \<noteq> None" "m = mk_move_promo ?f s QUEEN CAPTURE_PROMOTION"
      | "piece_on p s \<noteq> None" "m = mk_move ?f s CAPTURE"
      using assms(3,5,6) False f(1)
      by (auto simp: smallest_capture_move_to_def Let_def mk_move_fields mk_move_promo_fields split: if_splits)
    then show ?thesis
    proof cases
      case 1
      then show ?thesis using f fs assms(2,3)
        by (auto simp: move_fits_def move_ok_def mk_move_fields move_type_of_typed Let_def ep_ok_def)
    next
      case 2
      then show ?thesis using f fs target assms(3) piece_on_None [OF ok assms(3)]
        by (auto simp: move_fits_def move_ok_def mk_move_promo_fields move_type_of_typed Let_def)
    next
      case 3
      then show ?thesis using cap [OF f(1) fs f(2)] by simp
    qed
  next
    case True
    let ?a = "\<lambda>pt. non_pawn_piece_type_attacks pt s (occupancy_bb p) AND piece_type_color_bb p pt ?c"
    obtain pt where pt: "?a pt \<noteq> 0" "m = mk_move (forward_bitscan (?a pt)) s CAPTURE"
      using assms(5) True by (auto simp: smallest_capture_move_to_def Let_def find_Some_iff)
    let ?f = "forward_bitscan (?a pt)"
    have f: "on_board ?f" "has p ?f pt ?c" "sees pt (occupancy_bb p) s ?f"
      using forward_bitscan_lowest(1,2) [OF pt(1)] assms(3)
      by (auto simp: bit_and_iff bit_piece_type_color bit_sees)
    have "piece_on p s \<noteq> None" using assms(3,6) f(1) pt(2) by (simp add: mk_move_fields)
    then show ?thesis using cap [OF f(1) sees_ne [OF f(3)] f(2)] pt(2) by simp
  qed
  then show "move_fits p m" "to_square m = s"
    "move_type_of p m \<in> {CAPTURE, CAPTURE_PROMOTION} \<and> \<not> free p s \<or> move_type_of p m = ENPASSANT \<and> enpassant_square p = Some s"
    by blast+
qed

lemma capture_decreases:
  assumes "pos_ok p" "move_fits p m"
    and "move_type_of p m \<in> {CAPTURE, CAPTURE_PROMOTION} \<and> \<not> free p (to_square m) \<or> move_type_of p m = ENPASSANT"
  shows "card (occupied (make_move m p)) + (if move_type_of p m = ENPASSANT then 0 else 1) \<le> card (occupied p)"
proof -
  let ?q = "make_move m p" and ?f = "from_square m" and ?t = "to_square m"
  have ok: "board_ok p" and mo: "move_ok p m" using assms by (auto simp: pos_ok_def move_fits_def)
  have qok: "board_ok ?q" using make_move_ok [OF assms(1) mo] by (simp add: pos_ok_def)
  note M = make_move_has [OF assms(1) mo]
  have f: "?f \<in> occupied p" "?f \<noteq> ?t"
    using mo unfolding occupied_def free_iff [OF ok] by (auto simp: move_ok_def Let_def split: move_type.splits)
  have sub: "occupied ?q \<subseteq> insert ?t (occupied p - {?f})"
  proof
    fix u
    assume u: "u \<in> occupied ?q"
    then have on: "on_board u" "u \<noteq> ?f" using M(3) free_iff [OF qok] by (auto simp: occupied_def)
    show "u \<in> insert ?t (occupied p - {?f})"
    proof (cases "u \<in> touched p m")
      case False
      then have "u \<in> occupied p"
        using u M(1) [OF on(1)] free_iff [OF ok] free_iff [OF qok] by (auto simp: occupied_def)
      then show ?thesis using on by simp
    next
      case True
      then consider "u = ?t" | "move_type_of p m = ENPASSANT" "u = ep_victim (pos_side_to_move p) ?t"
        using on(2) assms(3) by (auto simp: touched_def split: move_type.splits)
      then show ?thesis
      proof cases
        case 2
        then have "u \<in> occupied p"
          using mo on(1) free_iff [OF ok] by (auto simp: occupied_def move_ok_def Let_def)
        then show ?thesis using on by simp
      qed simp
    qed
  qed
  have c: "card (occupied p - {?f}) + 1 = card (occupied p)"
    using f(1) by (metis Suc_eq_plus1 card_Suc_Diff1 finite_occupied)
  show ?thesis
  proof (cases "move_type_of p m = ENPASSANT")
    case True
    have "card (occupied ?q) \<le> card (insert ?t (occupied p - {?f}))" by (rule card_mono [OF _ sub]) simp
    also have "\<dots> \<le> card (occupied p - {?f}) + 1" by (simp add: card_insert_if)
    finally show ?thesis using c True by simp
  next
    case False
    then have "?t \<in> occupied p - {?f}" using assms(3) f(2) by (auto simp: occupied_def)
    then have "card (occupied ?q) \<le> card (occupied p - {?f})"
      using sub by (intro card_mono) (auto simp: insert_absorb)
    then show ?thesis using c False by simp
  qed
qed

definition exchange_size :: "position \<Rightarrow> int \<Rightarrow> nat" where
  "exchange_size p s = 2 * card (occupied p) + (if enpassant_square p = Some s then 1 else 0)"

lemma see_to_ends:
  assumes "pos_ok p" "ep_ok p" "on_board s" "color_of p s \<noteq> Some (pos_side_to_move p)"
  shows "\<exists>v\<ge>0. see_to values s p = Some v"
  using assms
proof (induction "exchange_size p s" arbitrary: p rule: less_induct)
  case less
  note ok = less.prems
  show ?case
  proof (cases "smallest_capture_move_to p s")
    case None
    then show ?thesis by (subst see_to.simps) simp
  next
    case (Some m)
    show ?thesis
    proof (cases "piece_on p s = None \<and> move_type m \<noteq> ENPASSANT")
      case True
      then show ?thesis using Some by (subst see_to.simps) simp
    next
      case False
      then have live: "piece_on p s \<noteq> None \<or> move_type m = ENPASSANT" by simp
      note fits = smallest_capture_fits [OF ok Some live]
      let ?q = "make_move m p"
      have mo: "move_ok p m" using fits(1) by (simp add: move_fits_def)
      have stack: "stack_ok p" using ok(1) by (simp add: pos_ok_def)
      have q: "pos_ok ?q" "ep_ok ?q" using make_move_ok [OF ok(1) mo] make_move_ep_ok [OF ok(1) fits(1)] by blast+
      have "has ?q s (arriving p m) (pos_side_to_move p)"
        using make_move_has(2) [OF ok(1) mo ok(3)] fits(2) by simp
      then have "color_of ?q s = Some (pos_side_to_move p)"
        using has_iff_on [OF _ ok(3)] q(1) by (simp add: pos_ok_def)
      then have side: "color_of ?q s \<noteq> Some (pos_side_to_move ?q)"
        using make_move_side [OF stack] by simp
      have "enpassant_square ?q = None" using make_move_ep [OF stack, of m] fits(3) by auto
      then have "exchange_size ?q s < exchange_size p s"
        using capture_decreases [OF ok(1) fits(1)] fits(2,3) by (auto simp: exchange_size_def)
      from less.hyps [OF this q ok(3) side] obtain v where "see_to values s ?q = Some v" by blast
      then have "\<exists>w. see_to values s p = Some (max 0 w)"
        using Some False by (subst see_to.simps) auto
      then show ?thesis by auto
    qed
  qed
qed

section \<open>Moves read from text\<close>

text \<open>A move read from its text has no type; \<open>move_type_of\<close> recovers the type the generator gave it.\<close>

lemma chess_move_form:
  assumes "chess_move p c m"
  obtains f t pt ty where "on_board f" "on_board t" "pt \<noteq> KING" "m = mk_move_promo f t pt ty"
proof -
  have "\<exists>f t pt ty. on_board f \<and> on_board t \<and> pt \<noteq> KING \<and> m = mk_move_promo f t pt ty"
  proof -
    have on: "on_board E1" "on_board G1" "on_board C1" "on_board E8" "on_board G8" "on_board C8"
      by (simp_all add: on_board_def)
    have pw: "\<exists>f t pt ty. on_board f \<and> on_board t \<and> pt \<noteq> KING \<and> mk_move a b y = mk_move_promo f t pt ty"
      if "on_board a" "on_board b" for a b y
      using that mk_move_eq_promo [of a b y] by (intro exI [of _ a] exI [of _ b] exI [of _ PAWN] exI [of _ y]) simp
    have pr: "\<exists>f t pt ty. on_board f \<and> on_board t \<and> pt \<noteq> KING \<and> mk_move_promo a b x y = mk_move_promo f t pt ty"
      if "on_board a" "on_board b" "x \<in> set promotion_types" for a b x y
      using that promotion_types_proper by blast
    from assms consider "piece_move p c m" | "pawn_push p c m" | "pawn_capture p c m" | "castle_move p c m"
      by (auto simp: chess_move_def)
    then show ?thesis
    proof cases
      case 1 then show ?thesis unfolding piece_move_def using pw by blast
    next
      case 2 then show ?thesis unfolding pawn_push_def if_bool_eq_disj using pw pr by blast
    next
      case 3 then show ?thesis unfolding pawn_capture_def if_bool_eq_disj using pw pr by blast
    next
      case 4 then show ?thesis using pw on by (cases rule: castle_move_cases) blast+
    qed
  qed
  then show thesis using that by blast
qed

definition same_fields :: "move \<Rightarrow> move \<Rightarrow> bool" where
  "same_fields a b \<longleftrightarrow> from_square a = from_square b \<and> to_square a = to_square b \<and>
     promotion_piece_type a = promotion_piece_type b"

lemma infer_type:
  assumes "same_fields m' m" "move_type m' = NONE" "board_ok p"
  defines "f \<equiv> from_square m" and "t \<equiv> to_square m"
  shows "promotion_piece_type m \<noteq> None \<Longrightarrow> free p t \<Longrightarrow> move_type_of p m' = PROMOTION"
    and "promotion_piece_type m \<noteq> None \<Longrightarrow> \<not> free p t \<Longrightarrow> move_type_of p m' = CAPTURE_PROMOTION"
    and "promotion_piece_type m = None \<Longrightarrow> \<not> free p t \<Longrightarrow> move_type_of p m' = CAPTURE"
    and "promotion_piece_type m = None \<Longrightarrow> free p t \<Longrightarrow> has p f PAWN c \<Longrightarrow> move_type_of p m' =
      (if \<bar>t - f\<bar> = 16 then DOUBLE_PUSH else if \<bar>t - f\<bar> = 9 \<or> \<bar>t - f\<bar> = 7 then ENPASSANT else NORMAL)"
    and "promotion_piece_type m = None \<Longrightarrow> free p t \<Longrightarrow> has p f pt c \<Longrightarrow> pt \<noteq> PAWN \<Longrightarrow> move_type_of p m' =
      (if pt = KING \<and> \<bar>t - f\<bar> = 2 then CASTLING else NORMAL)"
proof -
  have e: "from_square m' = f" "to_square m' = t" "promotion_piece_type m' = promotion_piece_type m"
    using assms(1) by (simp_all add: same_fields_def f_def t_def)
  have cap: "piece_type_on p t = None \<longleftrightarrow> free p t"
    using piece_type_on_None [OF assms(3), of t] by (simp add: t_def)
  have mv: "has p f pt c \<Longrightarrow> piece_type_on p f = Some pt" for pt c
    using on_of_has [OF assms(3), of f] by (simp add: f_def)
  show "promotion_piece_type m \<noteq> None \<Longrightarrow> free p t \<Longrightarrow> move_type_of p m' = PROMOTION"
    "promotion_piece_type m \<noteq> None \<Longrightarrow> \<not> free p t \<Longrightarrow> move_type_of p m' = CAPTURE_PROMOTION"
    "promotion_piece_type m = None \<Longrightarrow> \<not> free p t \<Longrightarrow> move_type_of p m' = CAPTURE"
    using cap by (auto simp: move_type_of_def assms(2) e Let_def)
  show "promotion_piece_type m = None \<Longrightarrow> free p t \<Longrightarrow> has p f PAWN c \<Longrightarrow> move_type_of p m' =
      (if \<bar>t - f\<bar> = 16 then DOUBLE_PUSH else if \<bar>t - f\<bar> = 9 \<or> \<bar>t - f\<bar> = 7 then ENPASSANT else NORMAL)"
    using cap mv by (simp add: move_type_of_def assms(2) e Let_def)
  show "promotion_piece_type m = None \<Longrightarrow> free p t \<Longrightarrow> has p f pt c \<Longrightarrow> pt \<noteq> PAWN \<Longrightarrow> move_type_of p m' =
      (if pt = KING \<and> \<bar>t - f\<bar> = 2 then CASTLING else NORMAL)"
    using cap mv by (simp add: move_type_of_def assms(2) e Let_def)
qed

lemma square_diff: "t - f = (sq_file t - sq_file f) + 8 * (sq_rank t - sq_rank f)"
proof -
  have e: "sq_file s + 8 * sq_rank s = s" for s
    using mult_div_mod_eq [of 8 s] by (simp add: sq_file_mod sq_rank_div)
  have "(sq_file t - sq_file f) + 8 * (sq_rank t - sq_rank f) = (sq_file t + 8 * sq_rank t) - (sq_file f + 8 * sq_rank f)"
    by (simp add: algebra_simps)
  then show ?thesis unfolding e by simp
qed

lemma small_steps:
  fixes a b d :: int
  assumes "d = a + 8 * b"
  shows "\<bar>a\<bar> \<le> 1 \<Longrightarrow> \<bar>b\<bar> \<le> 1 \<Longrightarrow> \<bar>d\<bar> \<noteq> 2"
    and "\<bar>a\<bar> = 1 \<Longrightarrow> b = 1 \<or> b = -1 \<Longrightarrow> \<bar>d\<bar> = 9 \<or> \<bar>d\<bar> = 7"
proof -
  have "\<bar>a\<bar> \<le> 1 \<Longrightarrow> a = -1 \<or> a = 0 \<or> a = 1" "\<bar>b\<bar> \<le> 1 \<Longrightarrow> b = -1 \<or> b = 0 \<or> b = 1" by linarith+
  then show "\<bar>a\<bar> \<le> 1 \<Longrightarrow> \<bar>b\<bar> \<le> 1 \<Longrightarrow> \<bar>d\<bar> \<noteq> 2"
    "\<bar>a\<bar> = 1 \<Longrightarrow> b = 1 \<or> b = -1 \<Longrightarrow> \<bar>d\<bar> = 9 \<or> \<bar>d\<bar> = 7"
    using assms by auto
qed

lemma king_step_diff:
  assumes "sees KING occ f t"
  shows "\<bar>t - f\<bar> \<noteq> 2"
proof -
  have "\<bar>sq_file t - sq_file f\<bar> \<le> 1" "\<bar>sq_rank t - sq_rank f\<bar> \<le> 1" using assms by (simp_all add: sees_def)
  then show ?thesis by (rule small_steps(1) [OF square_diff])
qed

lemma pawn_sees_diff:
  assumes "pawn_sees f c t"
  shows "\<bar>t - f\<bar> = 9 \<or> \<bar>t - f\<bar> = 7"
proof -
  have "\<bar>sq_file t - sq_file f\<bar> = 1" "sq_rank t - sq_rank f = 1 \<or> sq_rank t - sq_rank f = -1"
    using assms by (auto simp: pawn_sees_def split: if_splits)
  then show ?thesis by (rule small_steps(2) [OF square_diff])
qed

lemma type_recovered:
  assumes "board_ok p" "rights_ok p" "ep_ok p" "chess_move p c m" "same_fields m' m" "move_type m' = NONE"
    and "c = pos_side_to_move p"
  shows "move_type_of p m' = move_type m"
proof -
  note I = infer_type [OF assms(5,6,1)]
  have ne: "enemy p t c \<Longrightarrow> \<not> free p t" for t by (auto simp: enemy_def free_def bit_occupancy)
  from assms(4) consider "piece_move p c m" | "pawn_push p c m" | "pawn_capture p c m" | "castle_move p c m"
    by (auto simp: chess_move_def)
  then show ?thesis
  proof cases
    case 1
    then obtain pt f t where h: "on_board f" "on_board t" "has p f pt c" "sees pt (occupancy_bb p) f t"
      "free p t \<and> m = mk_move f t NORMAL \<or> enemy p t c \<and> m = mk_move f t CAPTURE"
      unfolding piece_move_def by blast
    have "pt \<noteq> PAWN" "pt = KING \<Longrightarrow> \<bar>t - f\<bar> \<noteq> 2" using h(4) king_step_diff by auto
    with h(5) show ?thesis using I(3) I(5) [of pt c] ne h(1-3) by (elim disjE) (auto simp: mk_move_fields)
  next
    case 2
    then obtain f t where h: "on_board f" "on_board t" "has p f PAWN c" "free p t"
      "t = pawn_shift f c 1 \<and> (m = mk_move f t NORMAL \<or>
        (\<exists>pt\<in>set promotion_types. m = mk_move_promo f t pt PROMOTION)) \<or>
      t = pawn_shift f c 2 \<and> m = mk_move f t DOUBLE_PUSH"
      unfolding pawn_push_def by (auto split: if_splits)
    then consider "\<bar>t - f\<bar> = 8" "m = mk_move f t NORMAL" | "\<bar>t - f\<bar> = 16" "m = mk_move f t DOUBLE_PUSH"
      | pt where "pt \<in> set promotion_types" "m = mk_move_promo f t pt PROMOTION"
      by (auto simp: pawn_shift_def split: if_splits)
    then show ?thesis
    proof cases
      case (3 pt)
      then show ?thesis using I(1) h promotion_types_proper [OF 3(1)] by (simp add: mk_move_promo_fields)
    qed (use I(4) [of c] h in \<open>simp_all add: mk_move_fields\<close>)
  next
    case 3
    then obtain f t where h: "on_board f" "on_board t" "has p f PAWN c" "pawn_sees f c t"
      "enemy p t c \<and> (m = mk_move f t CAPTURE \<or>
        (\<exists>pt\<in>set promotion_types. m = mk_move_promo f t pt CAPTURE_PROMOTION)) \<or>
      enpassant_square p = Some t \<and> m = mk_move f t ENPASSANT"
      unfolding pawn_capture_def by (auto split: if_splits)
    then consider "enemy p t c" "m = mk_move f t CAPTURE" | "free p t" "m = mk_move f t ENPASSANT"
      | pt where "enemy p t c" "pt \<in> set promotion_types" "m = mk_move_promo f t pt CAPTURE_PROMOTION"
      using assms(3) by (auto simp: ep_ok_def)
    then show ?thesis
    proof cases
      case (3 pt)
      then show ?thesis using I(2) h(1,2) ne promotion_types_proper [OF 3(2)] by (simp add: mk_move_promo_fields)
    next
      case 2
      then show ?thesis using I(4) [of c] h(1-3) pawn_sees_diff [OF h(4)] by (auto simp: mk_move_fields)
    qed (use I(3) h(1,2) ne in \<open>simp add: mk_move_fields\<close>)
  next
    case 4
    have cast: ?thesis if "m = mk_move f t CASTLING" "on_board f" "on_board t" "free p t" "has p f KING c"
      "\<bar>t - f\<bar> = 2" for f t
      using I(5) [of KING c] that by (simp add: mk_move_fields)
    from 4 show ?thesis
      by (cases rule: castle_move_cases) (use assms(2) cast in \<open>simp_all add: rights_ok_def on_board_def\<close>)
  qed
qed

text \<open>What \<open>make_move\<close> does depends on the fields and the recovered type only; the move itself is
  only recorded.\<close>

lemma make_move_same_fields:
  assumes "stack_ok p" "same_fields m' m" "move_type_of p m' = move_type_of p m"
  defines "q \<equiv> make_move m p" and "q' \<equiv> make_move m' p"
  shows "pos_piece_bb q' = pos_piece_bb q" "pos_color_bb q' = pos_color_bb q"
    "pos_side_to_move q' = pos_side_to_move q" "castling_rights q' = castling_rights q"
    "enpassant_square q' = enpassant_square q" "halfmoves q' = halfmoves q" "pos_hash q' = pos_hash q"
proof -
  let ?h = "xor_ep p (enpassant_square p) (pos_side_to_move p) (pos_hash p)"
  obtain b ep h1 calc where a: "move_board p m ?h = (b, ep, h1, calc)" by (metis prod_cases4)
  have e: "from_square m' = from_square m" "to_square m' = to_square m"
    "promotion_piece_type m' = promotion_piece_type m" using assms(2) by (simp_all add: same_fields_def)
  have a': "move_board p m' ?h = (b, ep, h1, calc)" using a by (simp add: e assms(3))
  note F = make_move_fields [OF assms(1) a, folded q_def] and F' = make_move_fields [OF assms(1) a', folded q'_def]
  show 1: "pos_piece_bb q' = pos_piece_bb q" "pos_color_bb q' = pos_color_bb q"
    "pos_side_to_move q' = pos_side_to_move q" "castling_rights q' = castling_rights q"
    "enpassant_square q' = enpassant_square q" "halfmoves q' = halfmoves q"
    using F F' by (simp_all add: e)
  have "calculate_hash q' = calculate_hash q" by (rule calculate_hash_cong [OF 1(1-3) 1(5) 1(4)])
  then show "pos_hash q' = pos_hash q" using F(15) F'(15) 1(4) by simp
qed

section \<open>Properties\<close>

text \<open>The vertical flip mirrors the board, swaps the colours and the side to move,
  and undoes itself, rights, en passant square and hash included.\<close>

theorem vflip_mirrors_and_undoes:
  assumes "stack_ok p" "castling_ok (castling_rights p)" "hash_ok p"
  shows "vflip (vflip p) = p \<and> hash_ok (vflip p) \<and> pos_side_to_move (vflip p) = opp (pos_side_to_move p) \<and>
    (\<forall>s pt c. has (vflip p) (int s) pt c = (s < 64 \<and> has p (sq_flipped (int s)) pt (opp c)))"
proof -
  have out: "\<not> has q (int s) pt c" if "\<not> s < 64" for q s pt c
    using that bit_imp_le_length [of "pos_piece_bb q pt" s] by (auto simp: has_def)
  have "has (vflip p) (int s) pt c = (s < 64 \<and> has p (sq_flipped (int s)) pt (opp c))" for s pt c
    using vflip_has(1) [OF assms(1), of "int s"] out [of s] by (cases "s < 64") (auto simp: on_board_def)
  moreover have "hash_ok (vflip p)"
  proof -
    obtain h where q: "vflip p = p\<lparr>pos_piece_bb := (\<lambda>pt. bswap64 (pos_piece_bb p pt)),
      pos_color_bb := (\<lambda>c. bswap64 (pos_color_bb p (opp c))), pos_side_to_move := opp (pos_side_to_move p),
      pos_history := (pos_history p)[nat (pos_ply p) := flip_state h (cur_state p)]\<rparr>" "h = calculate_hash (vflip p)"
      using vflip_form [OF assms(1)] by blast
    have "cur_state (vflip p) = flip_state h (cur_state p)"
      using nat_ply_less [OF assms(1)] unfolding q(1) by (simp add: cur_state_def)
    then show ?thesis using q(2) by (simp add: hash_ok_def pos_hash_def flip_state_def)
  qed
  ultimately show ?thesis
    using vflip_twice [OF assms(1,2)] vflip_has(2) [OF assms(1), of 0] assms(3) by (auto simp: hash_ok_def on_board_def)
qed

theorem vflip_mirrors_and_undoes_witness: "vflip (vflip small_game) = small_game \<and> vflip small_game \<noteq> small_game"
proof -
  have "castling_ok (castling_rights small_game)" by (simp add: pawn_game_fields castling_ok_def)
  then have "vflip (vflip small_game) = small_game \<and> pos_side_to_move (vflip small_game) = opp (pos_side_to_move small_game)"
    using vflip_mirrors_and_undoes [of small_game] small_ok(2,3) by (simp add: pos_ok_def game_ok_def)
  then show ?thesis using opp_simps(5) [of "pos_side_to_move small_game"] by auto
qed

lemma see_for_ends:
  assumes "pos_ok p" "ep_ok p" "move_fits p m"
  shows "\<exists>v\<ge>0. see_for values m p = Some v"
proof -
  let ?q = "make_move m p" and ?t = "to_square m"
  have mo: "move_ok p m" using assms(3) by (simp add: move_fits_def)
  then have t: "on_board ?t" by (simp add: move_ok_def Let_def)
  have stack: "stack_ok p" using assms(1) by (simp add: pos_ok_def)
  have q: "pos_ok ?q" "ep_ok ?q" using make_move_ok [OF assms(1) mo] make_move_ep_ok [OF assms(1,3)] by blast+
  have "has ?q ?t (arriving p m) (pos_side_to_move p)" using make_move_has(2) [OF assms(1) mo t] by simp
  then have "color_of ?q ?t = Some (pos_side_to_move p)"
    using has_iff_on [OF _ t] q(1) by (simp add: pos_ok_def)
  then obtain v where "see_to values ?t ?q = Some v"
    using see_to_ends [OF q t] make_move_side [OF stack] by auto
  then show ?thesis by (auto simp: see_for_def Let_def)
qed

text \<open>C36 (termination). The exchange evaluations return a value that is not negative: the recursion of
  \<open>see_to\<close>, which the code does not bound, ends on every sound position and square not held by the side to
  move, and \<open>see_for\<close> ends for every move that fits the position.\<close>

theorem exchanges_terminate:
  assumes "pos_ok p" "ep_ok p" "on_board s" "color_of p s \<noteq> Some (pos_side_to_move p)" "move_fits p m"
  shows "(\<exists>v\<ge>0. see_to values s p = Some v) \<and> (\<exists>v\<ge>0. see_for values m p = Some v)"
  using see_to_ends [OF assms(1-4)] see_for_ends [OF assms(1,2,5)] by blast

theorem exchanges_terminate_witness:
  "(\<exists>v\<ge>0. see_to (\<lambda>_. 100) 60 small_game = Some v) \<and> (\<exists>v\<ge>0. see_for (\<lambda>_. 100) small_move small_game = Some v)"
proof (rule exchanges_terminate)
  show "pos_ok small_game" by (rule small_ok(2))
  show "ep_ok small_game" using small_ok(3) by (simp add: game_ok_def)
  show "on_board 60" by (simp add: on_board_def)
  show "color_of small_game 60 \<noteq> Some (pos_side_to_move small_game)"
    using has_iff_on [OF small_ok(1), of 60 KING BLACK] by (simp add: on_board_def pawn_game_has pawn_game_fields)
  show "move_fits small_game small_move" by (rule legal_move_fits(1) [OF small_ok(3) small_legal])
qed

text \<open>A legal move written as text and read back by the UCI line reader carries no type,
  yet playing it gives the same board, side, rights, en passant square, clock and hash as playing the
  generated move.\<close>

theorem uci_text_replays_legal_move:
  assumes "game_ok p" "m \<in> set (legal_move_list p)"
  shows "\<exists>q. play_line [move_to_str m] p = Some q \<and>
    pos_piece_bb q = pos_piece_bb (make_move m p) \<and> pos_color_bb q = pos_color_bb (make_move m p) \<and>
    pos_side_to_move q = pos_side_to_move (make_move m p) \<and> castling_rights q = castling_rights (make_move m p) \<and>
    enpassant_square q = enpassant_square (make_move m p) \<and> halfmoves q = halfmoves (make_move m p) \<and>
    pos_hash q = pos_hash (make_move m p)"
proof -
  let ?c = "pos_side_to_move p"
  have ok: "board_ok p" "stack_ok p" "rights_ok p" "ep_ok p" using assms(1) by (simp_all add: game_ok_def pos_ok_def)
  have cm: "chess_move p ?c m" by (rule legal_move_fits(2) [OF assms])
  obtain f t pt ty where m: "on_board f" "on_board t" "pt \<noteq> KING" "m = mk_move_promo f t pt ty"
    by (rule chess_move_form [OF cm])
  let ?m' = "mk_move_promo f t pt NONE"
  have read: "move_from_str (move_to_str m) = Some ?m'" unfolding m(4) by (rule move_from_to_str_mk [OF m(1-3)])
  have same: "same_fields ?m' m" "move_type ?m' = NONE"
    unfolding m(4) same_fields_def by (simp_all add: mk_move_promo_fields [OF m(1,2)])
  have ty: "move_type_of p ?m' = move_type m" by (rule type_recovered [OF ok(1,3,4) cm same]) simp
  have "move_type_of p m = move_type m"
  proof -
    have "move_type_of p ?m' \<noteq> NONE" unfolding move_type_of_def using same(2) by (auto simp: Let_def)
    then show ?thesis using ty by (simp add: move_type_of_typed)
  qed
  with ty have "move_type_of p ?m' = move_type_of p m" by simp
  from make_move_same_fields [OF ok(2) same(1) this] read show ?thesis by simp
qed

theorem uci_text_replays_legal_move_witness:
  "\<exists>q. play_line [move_to_str small_move] small_game = Some q \<and> pos_hash q = pos_hash (make_move small_move small_game)"
  using uci_text_replays_legal_move [OF small_ok(3) small_legal] by blast

end
