(* ===== verification/Transposition.thy ===== *)
theory Transposition
  imports Exchange
begin

text \<open>
  \<open>tt.h\<close> and \<open>tt.cpp\<close>: the transposition table of the search, an array of two-entry buckets indexed by
  the high bits of the hash, with a small two-way front cache (L0) before it; its replacement policy, the packing of a move
  into the 18 bits of an entry, and the shift of mate scores between root and node distance.
  The model is the desktop build: \<open>fastrange\<close> is the 64-bit one.  The allocator is an argument: the two
  arrays that \<open>malloc\<close> returned, or none.
\<close>

section \<open>Entries\<close>

datatype tt_entry_flag = NOTVALID | EXACT | LOWERBOUND | UPPERBOUND

record tt_entry =
  e_hash :: "16 word"
  e_score :: "16 word"
  e_depth :: "8 word"
  e_M :: "18 word"
  e_flags :: tt_entry_flag
  e_age :: "2 word"
  e_filler :: "2 word"

text \<open>An entry of eight zero bytes.\<close>

definition zero_entry :: tt_entry where
  "zero_entry = \<lparr>e_hash = 0, e_score = 0, e_depth = 0, e_M = 0, e_flags = NOTVALID, e_age = 0, e_filler = 0\<rparr>"

record tt =
  tt_entries :: "tt_entry list option"
  tt_l0 :: "tt_entry list option"
  tt_generation :: "8 word"
  tt_n_entries :: "64 word"

definition L0_ENTRIES :: "64 word" where
  "L0_ENTRIES = 16384"

section \<open>Allocation\<close>

text \<open>\<open>allocate\<close>: the arrays the allocator hands out, with whatever they hold.\<close>

definition tt_allocate :: "tt_entry list option \<Rightarrow> tt_entry list option \<Rightarrow> tt \<Rightarrow> tt" where
  "tt_allocate main_mem l0_mem t = t\<lparr>tt_entries := main_mem, tt_l0 := l0_mem\<rparr>"

definition tt_reset :: "tt \<Rightarrow> tt" where
  "tt_reset t =
     (case tt_entries t of
        None \<Rightarrow> t
      | Some es \<Rightarrow>
          t\<lparr>tt_entries := Some (map (\<lambda>_. zero_entry) es), tt_l0 := map_option (map (\<lambda>_. zero_entry)) (tt_l0 t)\<rparr>)"

definition tt_set_size :: "tt_entry list option \<Rightarrow> tt_entry list option \<Rightarrow> 64 word \<Rightarrow> tt \<Rightarrow> tt" where
  "tt_set_size main_mem l0_mem s t = tt_reset (tt_allocate main_mem l0_mem (t\<lparr>tt_n_entries := max 2 (s div 8)\<rparr>))"

definition tt_new :: "tt_entry list option \<Rightarrow> tt_entry list option \<Rightarrow> tt" where
  "tt_new main_mem l0_mem =
     tt_reset (tt_allocate main_mem l0_mem
       \<lparr>tt_entries = None, tt_l0 = None, tt_generation = 1, tt_n_entries = 16 * 1024 * 1024 div 8\<rparr>)"

text \<open>\<open>get_size\<close> narrows the number of bytes to an \<open>int\<close>.\<close>

definition tt_get_size :: "tt \<Rightarrow> int" where
  "tt_get_size t = signed_take_bit 31 (uint (tt_n_entries t * 8))"

definition tt_get_n :: "tt \<Rightarrow> 64 word" where
  "tt_get_n t = tt_n_entries t"

definition tt_new_search :: "tt \<Rightarrow> tt" where
  "tt_new_search t =
     (let g = (tt_generation t + 1) AND 3 in t\<lparr>tt_generation := (if g = 0 then 1 else g)\<rparr>)"

definition tt_get_per_mille_filled :: "tt \<Rightarrow> int" where
  "tt_get_per_mille_filled t =
     (let n = min 1000 (signed_take_bit 31 (uint (tt_n_entries t)))
      in fold (\<lambda>i count. count + (if e_hash (the (tt_entries t) ! nat i) \<noteq> 0 then 1 else 0)) [0..n - 1] 0)"

section \<open>Lookup and replacement\<close>

definition fastrange64 :: "64 word \<Rightarrow> 64 word \<Rightarrow> 64 word" where
  "fastrange64 w p = ucast (drop_bit 64 ((ucast w :: 128 word) * ucast p))"

text \<open>The index of the first slot of the bucket of a hash.\<close>

definition bucket :: "64 word \<Rightarrow> 64 word \<Rightarrow> nat" where
  "bucket n hash = unat (fastrange64 hash (n div 2) * 2)"

definition slot_value :: "8 word \<Rightarrow> tt_entry \<Rightarrow> int" where
  "slot_value generation e =
     (let rel_age = (uint generation - uint (e_age e)) AND 3 in uint (e_depth e) - 4 * rel_age)"

text \<open>The slot of the two from \<open>base\<close> on that is to be overwritten.\<close>

definition replace_slot :: "tt_entry list \<Rightarrow> nat \<Rightarrow> 16 word \<Rightarrow> 8 word \<Rightarrow> nat" where
  "replace_slot slots base hash16 generation =
     (case find (\<lambda>i. e_hash (slots ! (base + i)) = hash16) [0, 1] of
        Some i \<Rightarrow> base + i
      | None \<Rightarrow>
          let (best_val, best) =
            fold (\<lambda>i (best_val, best).
              let val = slot_value generation (slots ! (base + i))
              in if val < best_val then (val, i) else (best_val, best)) [0, 1] (2 ^ 30, 0)
          in base + best)"

text \<open>Copies an entry to the front cache, when there is one.\<close>

definition l0_mirror :: "64 word \<Rightarrow> tt_entry \<Rightarrow> tt \<Rightarrow> tt" where
  "l0_mirror hash e t =
     (case tt_l0 t of
        None \<Rightarrow> t
      | Some ls \<Rightarrow>
          t\<lparr>tt_l0 := Some (ls[replace_slot ls (bucket L0_ENTRIES hash) (ucast hash) (tt_generation t) := e])\<rparr>)"

definition probe :: "tt_entry list \<Rightarrow> nat \<Rightarrow> 16 word \<Rightarrow> tt_entry option" where
  "probe es base hash16 =
     (if e_hash (es ! base) = hash16 then Some (es ! base)
      else if e_hash (es ! (base + 1)) = hash16 then Some (es ! (base + 1))
      else None)"

definition tt_lookup :: "64 word \<Rightarrow> tt \<Rightarrow> tt_entry option \<times> tt" where
  "tt_lookup hash t =
     (case tt_entries t of
        None \<Rightarrow> (None, t)
      | Some es \<Rightarrow>
          (case Option.bind (tt_l0 t) (\<lambda>ls. probe ls (bucket L0_ENTRIES hash) (ucast hash)) of
             Some e \<Rightarrow> (Some e, t)
           | None \<Rightarrow>
               (case probe es (bucket (tt_n_entries t) hash) (ucast hash) of
                  Some e \<Rightarrow> (Some e, l0_mirror hash e t)
                | None \<Rightarrow> (None, t))))"

text \<open>What both overloads of \<open>store\<close> do around the fields they write.\<close>

definition store_with :: "64 word \<Rightarrow> (tt_entry \<Rightarrow> tt_entry) \<Rightarrow> tt \<Rightarrow> tt" where
  "store_with hash upd t =
     (case tt_entries t of
        None \<Rightarrow> t
      | Some es \<Rightarrow>
          let k = replace_slot es (bucket (tt_n_entries t) hash) (ucast hash) (tt_generation t);
              cur = upd (es ! k)
          in l0_mirror hash cur (t\<lparr>tt_entries := Some (es[k := cur])\<rparr>))"

section \<open>Packing a move\<close>

definition libchessmove_to_uint :: "move \<Rightarrow> 32 word" where
  "libchessmove_to_uint m =
     (let v = word_of_int (sq_file (from_square m)) OR push_bit 3 (word_of_int (sq_rank (from_square m)))
            OR push_bit 6 (word_of_int (sq_file (to_square m))) OR push_bit 9 (word_of_int (sq_rank (to_square m)))
            OR push_bit 15 (word_of_nat (mt_value (move_type m)))
      in case promotion_piece_type m of
           Some pt \<Rightarrow> v OR push_bit 12 (word_of_int (pt_value pt))
         | None \<Rightarrow> v)"

text \<open>The constructors of \<open>Move\<close> are written out, because the three bits may name no piece type.\<close>

definition uint_to_libchessmove :: "32 word \<Rightarrow> move" where
  "uint_to_libchessmove v =
     (let promo = drop_bit 12 v AND 7;
          from = the (sq_from (Some (uint (v AND 7))) (Some (uint (drop_bit 3 v AND 7))));
          to = the (sq_from (Some (uint (drop_bit 6 v AND 7))) (Some (uint (drop_bit 9 v AND 7))));
          type = drop_bit 15 v AND 0xff
      in if promo \<noteq> 0
         then word_of_int from OR push_bit 6 (word_of_int to) OR push_bit 12 promo OR push_bit 15 type
         else word_of_int from OR push_bit 6 (word_of_int to) OR push_bit 12 (word_of_int (pt_value PAWN))
           OR push_bit 15 type)"

definition tt_store_move :: "64 word \<Rightarrow> tt_entry_flag \<Rightarrow> int \<Rightarrow> int \<Rightarrow> move \<Rightarrow> tt \<Rightarrow> tt" where
  "tt_store_move hash f d score m t =
     store_with hash (\<lambda>cur. cur\<lparr>e_score := word_of_int score, e_depth := word_of_int d, e_flags := f,
       e_M := ucast (libchessmove_to_uint m), e_hash := ucast hash, e_age := ucast (tt_generation t)\<rparr>) t"

definition tt_store :: "64 word \<Rightarrow> tt_entry_flag \<Rightarrow> int \<Rightarrow> int \<Rightarrow> tt \<Rightarrow> tt" where
  "tt_store hash f d score t =
     store_with hash (\<lambda>cur. (if e_hash cur \<noteq> ucast hash then cur\<lparr>e_M := 0\<rparr> else cur)
       \<lparr>e_score := word_of_int score, e_depth := word_of_int d, e_flags := f,
        e_hash := ucast hash, e_age := ucast (tt_generation t)\<rparr>) t"

section \<open>Mate scores\<close>

definition max_eval :: int where
  "max_eval = 30000"

definition max_non_mate :: int where
  "max_non_mate = 29500"

definition eval_to_tt :: "int \<Rightarrow> int \<Rightarrow> int" where
  "eval_to_tt eval ply =
     (if eval > max_non_mate then eval + ply else if eval < - max_non_mate then eval - ply else eval)"

definition eval_from_tt :: "int \<Rightarrow> int \<Rightarrow> int" where
  "eval_from_tt eval ply =
     (if eval > max_non_mate then eval - ply else if eval < - max_non_mate then eval + ply else eval)"

section \<open>Well-formed tables\<close>

definition tt_ok :: "tt \<Rightarrow> bool" where
  "tt_ok t \<longleftrightarrow> 2 \<le> tt_n_entries t \<and> tt_generation t \<in> {1, 2, 3} \<and>
     (\<forall>es. tt_entries t = Some es \<longrightarrow> length es = unat (tt_n_entries t)) \<and>
     (\<forall>ls. tt_l0 t = Some ls \<longrightarrow> length ls = unat L0_ENTRIES)"

lemma fastrange64_nat: "unat (fastrange64 w p) = unat w * unat p div 2 ^ 64"
proof -
  have b: "unat w < 2 ^ 64" "unat p < 2 ^ 64" using unsigned_less [of w, where ?'a = nat] unsigned_less [of p, where ?'a = nat] by simp_all
  then have lt: "unat w * unat p < 2 ^ 64 * 2 ^ 64" by (intro mult_strict_mono) simp_all
  have "unat ((ucast w :: 128 word) * ucast p) = unat w * unat p"
    using lt b by (simp add: unat_word_ariths unsigned_ucast_eq take_bit_nat_eq_self)
  then have "unat (drop_bit 64 ((ucast w :: 128 word) * ucast p)) = unat w * unat p div 2 ^ 64"
    unfolding unat_drop_bit_eq by (simp add: drop_bit_eq_div)
  moreover have "unat w * unat p div 2 ^ 64 < 2 ^ 64"
    using lt by (intro less_mult_imp_div_less) simp
  ultimately show ?thesis unfolding fastrange64_def by (simp add: unsigned_ucast_eq take_bit_nat_eq_self)
qed

lemma bucket_range:
  assumes "2 \<le> n"
  shows "bucket n h + 1 < unat n"
proof -
  let ?p = "n div 2"
  have p: "unat ?p = unat n div 2" by (simp add: unat_div)
  have n2: "2 \<le> unat n" using assms by (simp add: word_le_nat_alt)
  have "unat h < 2 ^ 64" using unsigned_less [of h, where ?'a = nat] by simp
  then have "unat h * unat ?p < 2 ^ 64 * unat ?p" using p n2 by simp
  then have q: "unat (fastrange64 h ?p) < unat ?p"
    unfolding fastrange64_nat by (intro less_mult_imp_div_less) (simp add: mult.commute)
  have "unat n < 2 ^ 64" using unsigned_less [of n, where ?'a = nat] by simp
  then have "bucket n h = unat (fastrange64 h ?p) * 2"
    using q p unfolding bucket_def by (simp add: unat_word_ariths)
  then show ?thesis using q p by linarith
qed

lemma l0_bucket_range: "bucket L0_ENTRIES h + 1 < unat L0_ENTRIES"
  by (rule bucket_range) (simp add: L0_ENTRIES_def)

text \<open>The slot that is overwritten: the one holding the hash, otherwise the cheaper one.\<close>

lemma slot_value_small: "slot_value g e < 2 ^ 30"
proof -
  have "uint (e_depth e) < 256" using uint_lt2p [of "e_depth e"] by simp
  moreover have "0 \<le> (uint g - uint (e_age e)) AND 3" by simp
  ultimately have "uint (e_depth e) - 4 * ((uint g - uint (e_age e)) AND 3) < 256" by linarith
  then show ?thesis unfolding slot_value_def Let_def by simp
qed

lemma replace_slot_eq:
  "replace_slot es b h g =
    (if e_hash (es ! b) = h then b else if e_hash (es ! (b + 1)) = h then b + 1
     else if slot_value g (es ! (b + 1)) < slot_value g (es ! b) then b + 1 else b)"
  using slot_value_small [of g "es ! b"] by (simp add: replace_slot_def Let_def)

lemma replace_slot_two: "replace_slot es b h g = b \<or> replace_slot es b h g = b + 1"
  by (simp add: replace_slot_eq)

lemma probe_stored:
  assumes "b + 1 < length es" "e_hash e = h"
  shows "probe (es[replace_slot es b h g := e]) b h = Some e"
  using assms by (auto simp: probe_def replace_slot_eq)

lemma probe_hash: "probe es b h = Some e \<Longrightarrow> e_hash e = h"
  by (auto simp: probe_def split: if_splits)

lemma probe_in: "b + 1 < length es \<Longrightarrow> probe es b h = Some e \<Longrightarrow> e = es ! b \<or> e = es ! (b + 1)"
  by (auto simp: probe_def split: if_splits)

text \<open>The hash of a stored entry is the low sixteen bits of the key.\<close>

lemma l0_mirror_fields [simp]:
  "tt_entries (l0_mirror h e t) = tt_entries t" "tt_generation (l0_mirror h e t) = tt_generation t"
  "tt_n_entries (l0_mirror h e t) = tt_n_entries t"
  by (simp_all add: l0_mirror_def split: option.split)

lemma l0_mirror_ok: "tt_ok t \<Longrightarrow> tt_ok (l0_mirror h e t)"
  unfolding tt_ok_def l0_mirror_fields by (auto simp: l0_mirror_def split: option.splits)

lemma store_with_ok: "tt_ok t \<Longrightarrow> tt_ok (store_with h upd t)"
  unfolding store_with_def Let_def
  by (auto split: option.split intro!: l0_mirror_ok) (auto simp: tt_ok_def)

lemma tt_lookup_ok: "tt_ok t \<Longrightarrow> tt_ok (snd (tt_lookup h t))"
  by (auto simp: tt_lookup_def split: option.split intro: l0_mirror_ok)

lemma tt_reset_ok: "tt_ok t \<Longrightarrow> tt_ok (tt_reset t)"
  by (auto simp: tt_reset_def tt_ok_def split: option.splits)

lemma mirrored:
  assumes "tt_ok t" "e_hash e = ucast h"
  shows "Option.bind (tt_l0 (l0_mirror h e t)) (\<lambda>ls. probe ls (bucket L0_ENTRIES h) (ucast h)) =
    (if tt_l0 t = None then None else Some e)"
  using assms l0_bucket_range [of h]
  by (auto simp: l0_mirror_def tt_ok_def split: option.splits intro!: probe_stored)

lemma lookup_stored:
  assumes "tt_ok t" "tt_entries t \<noteq> None" "\<And>cur. e_hash (upd cur) = ucast h"
  shows "\<exists>cur. fst (tt_lookup h (store_with h upd t)) = Some (upd cur)"
proof -
  obtain es where es: "tt_entries t = Some es" using assms(2) by blast
  let ?k = "replace_slot es (bucket (tt_n_entries t) h) (ucast h) (tt_generation t)"
  let ?t = "t\<lparr>tt_entries := Some (es[?k := upd (es ! ?k)])\<rparr>"
  have b: "bucket (tt_n_entries t) h + 1 < length es" "2 \<le> tt_n_entries t"
    using assms(1) es bucket_range [of "tt_n_entries t" h] by (auto simp: tt_ok_def)
  have ok: "tt_ok ?t" using assms(1) es by (simp add: tt_ok_def)
  have s: "store_with h upd t = l0_mirror h (upd (es ! ?k)) ?t" by (simp add: store_with_def es Let_def)
  have "probe (es[?k := upd (es ! ?k)]) (bucket (tt_n_entries t) h) (ucast h) = Some (upd (es ! ?k))"
    by (rule probe_stored [OF b(1) assms(3)])
  then have "fst (tt_lookup h (store_with h upd t)) = Some (upd (es ! ?k))"
    unfolding s tt_lookup_def using mirrored [OF ok assms(3)] by simp
  then show ?thesis by blast
qed

lemma lookup_again: 
  assumes "tt_ok t"
  shows "fst (tt_lookup h (snd (tt_lookup h t))) = fst (tt_lookup h t)"
proof (cases "tt_entries t")
  case (Some es)
  let ?front = "\<lambda>t. Option.bind (tt_l0 t) (\<lambda>ls. probe ls (bucket L0_ENTRIES h) (ucast h))"
  show ?thesis
  proof (cases "?front t")
    case None
    show ?thesis
    proof (cases "probe es (bucket (tt_n_entries t) h) (ucast h)")
      case (Some e)
      then have "e_hash e = ucast h" by (rule probe_hash)
      with mirrored [OF assms this] None Some \<open>tt_entries t = Some es\<close> show ?thesis
        by (auto simp: tt_lookup_def)
    qed (use None Some in \<open>simp add: tt_lookup_def\<close>)
  qed (use Some in \<open>simp add: tt_lookup_def\<close>)
qed (simp add: tt_lookup_def)

section \<open>The packed move\<close>

text \<open>The packing is the move word itself: file and rank side by side are the square.\<close>

lemma square_word: "word_of_int (sq_file s) OR push_bit 3 (word_of_int (sq_rank s)) = (word_of_int s :: 32 word)"
proof (rule bit_word_eqI)
  fix n :: nat
  assume "n < LENGTH(32)"
  have f: "bit (sq_file s) n \<longleftrightarrow> n < 3 \<and> bit s n"
    using take_bit_eq_mask [of 3 s] by (simp add: sq_file_def mask_eq_exp_minus_1 flip: bit_take_bit_iff)
  show "bit (word_of_int (sq_file s) OR push_bit 3 (word_of_int (sq_rank s)) :: 32 word) n = bit (word_of_int s :: 32 word) n"
    using \<open>n < LENGTH(32)\<close> f
    by (auto simp: bit_or_iff bit_push_bit_iff bit_word_of_int_iff sq_rank_def bit_drop_bit_eq)
qed

lemma packed_move:
  assumes "on_board f" "on_board t" "pt \<noteq> KING"
  shows "libchessmove_to_uint (mk_move_promo f t pt ty) = mk_move_promo f t pt ty"
proof -
  note F = mk_move_promo_fields [OF assms(1,2), of pt ty]
  have to: "push_bit 6 (word_of_int (sq_file t)) OR push_bit 9 (word_of_int (sq_rank t)) = push_bit 6 (word_of_int t :: 32 word)"
    unfolding square_word [of t, symmetric] push_bit_or by simp
  let ?v = "word_of_int (sq_file f) OR push_bit 3 (word_of_int (sq_rank f)) OR push_bit 6 (word_of_int (sq_file t))
    OR push_bit 9 (word_of_int (sq_rank t)) OR push_bit 15 (word_of_nat (mt_value ty)) :: 32 word"
  have v: "?v = word_of_int f OR push_bit 6 (word_of_int t) OR push_bit 15 (word_of_nat (mt_value ty))"
  proof -
    have "?v = (word_of_int (sq_file f) OR push_bit 3 (word_of_int (sq_rank f))) OR
      (push_bit 6 (word_of_int (sq_file t)) OR push_bit 9 (word_of_int (sq_rank t))) OR push_bit 15 (word_of_nat (mt_value ty))"
      by (simp only: or.assoc)
    then show ?thesis unfolding to square_word by (simp only: or.assoc)
  qed
  show ?thesis
  proof (cases "pt = PAWN")
    case True
    then show ?thesis unfolding libchessmove_to_uint_def F Let_def v
      by (simp add: mk_move_promo_def pt_value_def)
  next
    case False
    then show ?thesis using assms(3) unfolding libchessmove_to_uint_def F Let_def v
      by (simp add: mk_move_promo_def or.assoc or.left_commute or.commute)
  qed
qed

lemma unpacked_move:
  assumes "\<And>n. bit v n \<Longrightarrow> n < 18"
  shows "uint_to_libchessmove v = v"
proof -
  have seven: "(7 :: 32 word) = mask 3" "(0xff :: 32 word) = mask 8" by (simp_all add: mask_eq_exp_minus_1)
  have sq: "word_of_int (the (sq_from (Some (uint a)) (Some (uint b)))) = a OR push_bit 3 b"
    for a b :: "32 word"
    by (rule bit_word_eqI) (auto simp: sq_from_def bit_word_of_int_iff bit_or_iff bit_push_bit_iff bit_uint_iff)
  have field: "bit (push_bit k (drop_bit k v AND mask j)) n \<longleftrightarrow> k \<le> n \<and> n < k + j \<and> bit v n" if "n < 32" for k j n
    using that by (auto simp: bit_push_bit_iff bit_and_iff bit_drop_bit_eq bit_mask_iff)
  have parts: "(v AND 7) OR push_bit 3 (drop_bit 3 v AND 7) OR push_bit 6 ((drop_bit 6 v AND 7) OR push_bit 3 (drop_bit 9 v AND 7))
    OR push_bit 12 (drop_bit 12 v AND 7) OR push_bit 15 (drop_bit 15 v AND 0xff) = v" (is "?w = v")
  proof -
    have w: "?w = push_bit 0 (drop_bit 0 v AND mask 3) OR push_bit 3 (drop_bit 3 v AND mask 3) OR
      push_bit 6 (drop_bit 6 v AND mask 3) OR push_bit 9 (drop_bit 9 v AND mask 3) OR
      push_bit 12 (drop_bit 12 v AND mask 3) OR push_bit 15 (drop_bit 15 v AND mask 8)"
      unfolding seven push_bit_or push_bit_push_bit by (simp add: or.assoc)
    show ?thesis
    proof (rule bit_word_eqI)
      fix n :: nat
      assume "n < LENGTH(32)"
      then have n: "n < 32" by simp
      show "bit ?w n = bit v n"
        unfolding w bit_or_iff field [OF n] using assms [of n] by linarith
    qed
  qed
  show ?thesis
  proof (cases "drop_bit 12 v AND 7 = 0")
    case True
    then show ?thesis using parts unfolding uint_to_libchessmove_def Let_def sq by (simp add: pt_value_def or.assoc)
  next
    case False
    then show ?thesis using parts unfolding uint_to_libchessmove_def Let_def sq by (simp add: or.assoc)
  qed
qed

lemma move_through_entry:
  fixes ty :: move_type
  assumes "on_board f" "on_board t" "pt \<noteq> KING"
  defines "m \<equiv> mk_move_promo f t pt ty"
  shows "uint_to_libchessmove (ucast (ucast (libchessmove_to_uint m) :: 18 word)) = m"
proof -
  have small: "n < 18" if "bit m n" for n
  proof -
    have b: "f < 2 ^ 6" "0 \<le> f" "t < 2 ^ 6" "0 \<le> t" using assms(1,2) by (simp_all add: on_board_def)
    have "0 \<le> pt_value pt" using pt_value_range [of pt] by simp
    from that show ?thesis
      using bit_word_of_int_less [OF b(2,1), of n] bit_word_of_int_less [OF b(4,3), of "n - 6"]
        bit_word_of_int_less [OF \<open>0 \<le> pt_value pt\<close> pt_value_less, of "n - 12"]
        bit_word_of_nat_less [OF mt_value_less, of ty "n - 15"]
      unfolding m_def mk_move_promo_def by (auto simp: bit_or_iff bit_push_bit_iff)
  qed
  have "ucast (ucast m :: 18 word) = m"
    by (rule bit_word_eqI) (use small in \<open>auto simp: bit_ucast_iff\<close>)
  then show ?thesis using packed_move [OF assms(1-3), of ty] unpacked_move [OF small] by (simp add: m_def)
qed

section \<open>The table as a lossy cache\<close>

text \<open>What the search relies on: what it has just stored it finds, and looking up changes no answer.  The
  cache may forget: nothing is promised about a key once another one has been stored.\<close>

locale lossy_cache =
  fixes good :: "'t \<Rightarrow> bool" and put :: "'k \<Rightarrow> 'v \<Rightarrow> 't \<Rightarrow> 't"
    and get :: "'k \<Rightarrow> 't \<Rightarrow> 'e option \<times> 't" and holds :: "'e \<Rightarrow> 'v \<Rightarrow> bool"
  assumes put_good: "good t \<Longrightarrow> good (put k v t)"
    and get_good: "good t \<Longrightarrow> good (snd (get k t))"
    and get_put: "good t \<Longrightarrow> \<exists>e. fst (get k (put k v t)) = Some e \<and> holds e v"
    and get_get: "good t \<Longrightarrow> fst (get k (snd (get k t))) = fst (get k t)"
begin

lemma gets_good: "good t \<Longrightarrow> good (((\<lambda>t. snd (get k t)) ^^ n) t)"
  by (induction n) (simp_all add: get_good)

lemma gets_stable: "good t \<Longrightarrow> fst (get k (((\<lambda>t. snd (get k t)) ^^ n) t)) = fst (get k t)"
  by (induction n) (simp_all add: get_get gets_good)

lemma put_gets:
  "good t \<Longrightarrow> \<exists>e. fst (get k (((\<lambda>t. snd (get k t)) ^^ n) (put k v t))) = Some e \<and> holds e v"
  using gets_stable [OF put_good] get_put by metis

end

definition tt_live :: "tt \<Rightarrow> bool" where
  "tt_live t \<longleftrightarrow> tt_ok t \<and> tt_entries t \<noteq> None"

lemma store_with_live: "tt_live t \<Longrightarrow> tt_live (store_with h upd t)"
  using store_with_ok by (auto simp: tt_live_def store_with_def Let_def split: option.split)

lemma tt_lookup_live: "tt_live t \<Longrightarrow> tt_live (snd (tt_lookup h t))"
  using tt_lookup_ok [of t h] by (auto simp: tt_live_def tt_lookup_def split: option.splits)

definition entry_holds :: "tt_entry \<Rightarrow> tt_entry_flag \<times> int \<times> int \<Rightarrow> bool" where
  "entry_holds e = (\<lambda>(f, d, score). e_flags e = f \<and> e_depth e = word_of_int d \<and> e_score e = word_of_int score)"

text \<open>Both overloads of \<open>store\<close> keep the contract.\<close>

interpretation plain_store: lossy_cache tt_live "\<lambda>h (f, d, score). tt_store h f d score" tt_lookup entry_holds
proof unfold_locales
  fix t h and v :: "tt_entry_flag \<times> int \<times> int"
  assume t: "tt_live t"
  obtain f d score where v: "v = (f, d, score)" by (metis prod_cases3)
  show "tt_live ((case v of (f, d, score) \<Rightarrow> tt_store h f d score) t)"
    using store_with_live [OF t] by (simp add: v tt_store_def)
  show "tt_live (snd (tt_lookup h t))" by (rule tt_lookup_live [OF t])
  show "fst (tt_lookup h (snd (tt_lookup h t))) = fst (tt_lookup h t)" using t lookup_again by (simp add: tt_live_def)
  let ?upd = "\<lambda>cur. (if e_hash cur \<noteq> ucast h then cur\<lparr>e_M := 0\<rparr> else cur)
       \<lparr>e_score := word_of_int score, e_depth := word_of_int d, e_flags := f,
        e_hash := ucast h, e_age := ucast (tt_generation t)\<rparr>"
  obtain cur where "fst (tt_lookup h (store_with h ?upd t)) = Some (?upd cur)"
    using lookup_stored [of t ?upd h] t by (auto simp: tt_live_def)
  then show "\<exists>e. fst (tt_lookup h ((case v of (f, d, score) \<Rightarrow> tt_store h f d score) t)) = Some e \<and> entry_holds e v"
    by (simp add: v tt_store_def entry_holds_def)
qed

definition entry_holds_move :: "tt_entry \<Rightarrow> tt_entry_flag \<times> int \<times> int \<times> move \<Rightarrow> bool" where
  "entry_holds_move e = (\<lambda>(f, d, score, m). entry_holds e (f, d, score) \<and> e_M e = ucast (libchessmove_to_uint m))"

interpretation move_store: lossy_cache tt_live "\<lambda>h (f, d, score, m). tt_store_move h f d score m" tt_lookup
  entry_holds_move
proof unfold_locales
  fix t h and v :: "tt_entry_flag \<times> int \<times> int \<times> move"
  assume t: "tt_live t"
  obtain f d score m where v: "v = (f, d, score, m)" by (metis prod_cases4)
  show "tt_live ((case v of (f, d, score, m) \<Rightarrow> tt_store_move h f d score m) t)"
    using store_with_live [OF t] by (simp add: v tt_store_move_def)
  show "tt_live (snd (tt_lookup h t))" by (rule tt_lookup_live [OF t])
  show "fst (tt_lookup h (snd (tt_lookup h t))) = fst (tt_lookup h t)" using t lookup_again by (simp add: tt_live_def)
  let ?upd = "\<lambda>cur. cur\<lparr>e_score := word_of_int score, e_depth := word_of_int d, e_flags := f,
       e_M := ucast (libchessmove_to_uint m), e_hash := ucast h, e_age := ucast (tt_generation t)\<rparr>"
  obtain cur where "fst (tt_lookup h (store_with h ?upd t)) = Some (?upd cur)"
    using lookup_stored [of t ?upd h] t by (auto simp: tt_live_def)
  then show "\<exists>e. fst (tt_lookup h ((case v of (f, d, score, m) \<Rightarrow> tt_store_move h f d score m) t)) = Some e \<and>
      entry_holds_move e v"
    by (simp add: v tt_store_move_def entry_holds_move_def entry_holds_def)
qed

section \<open>Where answers come from\<close>

text \<open>The operations of the search on its table.\<close>

datatype tt_op = Store "64 word" tt_entry_flag int int "move option" | Look "64 word" | New_search | Clear

definition tt_step :: "tt_op \<Rightarrow> tt \<Rightarrow> tt" where
  "tt_step op t =
     (case op of
        Store h f d score (Some m) \<Rightarrow> tt_store_move h f d score m t
      | Store h f d score None \<Rightarrow> tt_store h f d score t
      | Look h \<Rightarrow> snd (tt_lookup h t)
      | New_search \<Rightarrow> tt_new_search t
      | Clear \<Rightarrow> tt_reset t)"

definition stored_by :: "tt_op \<Rightarrow> tt_entry \<Rightarrow> bool" where
  "stored_by op e \<longleftrightarrow> (\<exists>h f d score m. op = Store h f d score m \<and> e_hash e = ucast h \<and> entry_holds e (f, d, score))"

definition known :: "tt_op list \<Rightarrow> tt \<Rightarrow> bool" where
  "known ops t \<longleftrightarrow> (\<forall>e \<in> \<Union>(set ` (set_option (tt_entries t) \<union> set_option (tt_l0 t))).
     e = zero_entry \<or> (\<exists>op\<in>set ops. stored_by op e))"

lemma known_update:
  assumes "known ops t" "e = zero_entry \<or> (\<exists>op\<in>set ops. stored_by op e)"
  shows "known ops (t\<lparr>tt_entries := map_option (\<lambda>es. es[k := e]) (tt_entries t)\<rparr>)"
    and "known ops (l0_mirror h e t)"
  using assms set_update_subset_insert [of _ _ e]
  by (auto simp: known_def l0_mirror_def split: option.splits) blast+

lemma known_store_with:
  assumes "known ops t" "\<And>cur. \<exists>op\<in>set ops. stored_by op (upd cur)"
  shows "known ops (store_with h upd t)"
proof (cases "tt_entries t")
  case (Some es)
  show ?thesis
    using known_update(2) [OF known_update(1) [OF assms(1)]] assms(2) by (auto simp: store_with_def Some Let_def)
qed (use assms in \<open>simp add: store_with_def\<close>)

lemma lookup_in:
  assumes "tt_ok t" "fst (tt_lookup h t) = Some e"
  shows "e \<in> \<Union>(set ` (set_option (tt_entries t) \<union> set_option (tt_l0 t)))" "e_hash e = ucast h"
proof -
  obtain es where es: "tt_entries t = Some es" "length es = unat (tt_n_entries t)" "2 \<le> tt_n_entries t"
    using assms by (auto simp: tt_lookup_def tt_ok_def split: option.splits)
  have b: "bucket (tt_n_entries t) h + 1 < length es" using bucket_range es by simp
  from assms(2) consider ls where "tt_l0 t = Some ls" "probe ls (bucket L0_ENTRIES h) (ucast h) = Some e"
    | "probe es (bucket (tt_n_entries t) h) (ucast h) = Some e"
    by (auto simp: tt_lookup_def es split: option.splits simp: bind_eq_Some_conv)
  then have "e \<in> \<Union>(set ` (set_option (tt_entries t) \<union> set_option (tt_l0 t))) \<and> e_hash e = ucast h"
  proof cases
    case 1
    have l: "bucket L0_ENTRIES h + 1 < length ls" using assms(1) 1(1) l0_bucket_range by (simp add: tt_ok_def)
    have "e \<in> set ls" using probe_in [OF l 1(2)] l by auto
    then show ?thesis using 1(1) probe_hash [OF 1(2)] by auto
  next
    case 2
    have "e \<in> set es" using probe_in [OF b 2] b by auto
    then show ?thesis using es probe_hash [OF 2] by auto
  qed
  then show "e \<in> \<Union>(set ` (set_option (tt_entries t) \<union> set_option (tt_l0 t)))" "e_hash e = ucast h" by blast+
qed

lemma tt_new_search_ok: "tt_ok t \<Longrightarrow> tt_ok (tt_new_search t)"
  by (auto simp: tt_ok_def tt_new_search_def Let_def)

lemma step_known:
  assumes "tt_ok t" "known ops t" "op \<in> set ops"
  shows "tt_ok (tt_step op t)" "known ops (tt_step op t)"
proof -
  have "tt_ok (tt_step op t) \<and> known ops (tt_step op t)"
  proof (cases op)
    case (Store h f d score mo)
    have st: "\<exists>op\<in>set ops. stored_by op e" if "e_hash e = ucast h" "entry_holds e (f, d, score)" for e
      using that assms(3) Store unfolding stored_by_def by blast
    show ?thesis
    proof (cases mo)
      case None
      then show ?thesis using assms(1,2) Store
        by (auto simp: tt_step_def tt_store_def entry_holds_def intro!: store_with_ok known_store_with st)
    next
      case (Some m)
      then show ?thesis using assms(1,2) Store
        by (auto simp: tt_step_def tt_store_move_def entry_holds_def intro!: store_with_ok known_store_with st)
    qed
  next
    case (Look h)
    have "known ops (snd (tt_lookup h t))"
    proof (cases "snd (tt_lookup h t) = t")
      case False
      then obtain e where e: "fst (tt_lookup h t) = Some e" "snd (tt_lookup h t) = l0_mirror h e t"
        by (auto simp: tt_lookup_def split: option.splits)
      have "e = zero_entry \<or> (\<exists>op\<in>set ops. stored_by op e)"
        using lookup_in(1) [OF assms(1) e(1)] assms(2) unfolding known_def by blast
      then show ?thesis unfolding e(2) by (rule known_update(2) [OF assms(2)])
    qed (use assms in simp)
    then show ?thesis using Look tt_lookup_ok [OF assms(1)] by (simp add: tt_step_def)
  next
    case New_search
    have "known ops (tt_new_search t)" using assms(2) by (simp add: tt_new_search_def known_def Let_def)
    then show ?thesis using New_search tt_new_search_ok [OF assms(1)] by (simp add: tt_step_def)
  next
    case Clear
    have "known ops (tt_reset t)" using assms(2) by (auto simp: tt_reset_def known_def split: option.splits)
    then show ?thesis using Clear tt_reset_ok [OF assms(1)] by (simp add: tt_step_def)
  qed
  then show "tt_ok (tt_step op t)" "known ops (tt_step op t)" by blast+
qed

lemma steps_known:
  assumes "tt_ok t" "known ops t" "set xs \<subseteq> set ops"
  shows "tt_ok (fold tt_step xs t) \<and> known ops (fold tt_step xs t)"
  using assms
proof (induction xs arbitrary: t)
  case (Cons x xs)
  then have "x \<in> set ops" "set xs \<subseteq> set ops" by auto
  then show ?case using Cons.IH [of "tt_step x t"] step_known [OF Cons.prems(1,2)] by simp
qed simp

section \<open>Properties\<close>

text \<open>A table of two buckets, without a front cache.\<close>

definition tiny_table :: tt where
  "tiny_table = \<lparr>tt_entries = Some (replicate 4 zero_entry), tt_l0 = None, tt_generation = 1, tt_n_entries = 4\<rparr>"

lemma tiny_ok: "tt_ok tiny_table" "tt_live tiny_table"
  by (simp_all add: tiny_table_def tt_ok_def tt_live_def)

text \<open>C23 (roundtrip). What \<open>store\<close> writes for a key a lookup of that key finds, however often the key was
  looked up before: bound, depth, score and move come back unchanged through the packed entry and the
  front cache.\<close>

theorem tt_store_then_lookup:
  assumes "tt_live t" "on_board from" "on_board to" "pt \<noteq> KING"
    and "- (2 ^ 15) \<le> score \<and> score < 2 ^ 15" "0 \<le> d \<and> d < 256"
  shows "\<exists>e. fst (tt_lookup h (((\<lambda>t. snd (tt_lookup h t)) ^^ n)
        (tt_store_move h f d score (mk_move_promo from to pt ty) t))) = Some e \<and>
    e_flags e = f \<and> uint (e_depth e) = d \<and> sint (e_score e) = score \<and>
    uint_to_libchessmove (ucast (e_M e)) = mk_move_promo from to pt ty"
proof -
  have "sint (word_of_int score :: 16 word) = score"
    using assms(5) by (simp add: signed_of_int signed_take_bit_int_eq_self)
  moreover have "uint (word_of_int d :: 8 word) = d"
    using assms(6) by (simp add: uint_word_of_int_eq take_bit_int_eq_self)
  ultimately show ?thesis
    using move_store.put_gets [OF assms(1), of h n "(f, d, score, mk_move_promo from to pt ty)"]
      move_through_entry [OF assms(2-4), of ty]
    by (auto simp: entry_holds_move_def entry_holds_def)
qed

theorem tt_store_then_lookup_witness:
  "\<exists>e. fst (tt_lookup 7 (tt_store_move 7 EXACT 5 (-3) (mk_move_promo 12 28 PAWN DOUBLE_PUSH) tiny_table)) = Some e \<and>
    sint (e_score e) = -3"
  using tt_store_then_lookup [OF tiny_ok(2), of 12 28 PAWN "-3" 5 7 0 EXACT DOUBLE_PUSH] by (auto simp: on_board_def)

text \<open>C24 (safety). Whatever stores, lookups, new searches and clears went before, a lookup answers with a
  cleared entry, for a key whose low sixteen bits are zero, or with the bound, depth and score that one of the stores wrote
  for a key with the same low sixteen bits.\<close>

theorem tt_answers_were_stored:
  assumes "tt_ok t" "fst (tt_lookup h (fold tt_step ops (tt_reset t))) = Some e"
  shows "e = zero_entry \<and> (ucast h :: 16 word) = 0 \<or>
    (\<exists>h' f d score m. Store h' f d score m \<in> set ops \<and> (ucast h' :: 16 word) = ucast h \<and>
      e_flags e = f \<and> e_depth e = word_of_int d \<and> e_score e = word_of_int score)"
proof -
  let ?t = "fold tt_step ops (tt_reset t)"
  have "known ops (tt_reset t) \<or> tt_entries t = None"
    by (auto simp: known_def tt_reset_def split: option.splits)
  moreover have "tt_entries (fold tt_step xs q) = None" if "tt_entries q = None" for xs q
    using that by (induction xs arbitrary: q) (auto simp: tt_step_def tt_store_move_def tt_store_def store_with_def
      tt_lookup_def tt_new_search_def tt_reset_def Let_def split: tt_op.split option.split)
  then have none: "tt_entries ?t = None" if "tt_entries t = None" using that by (simp add: tt_reset_def)
  have "tt_entries t \<noteq> None"
  proof
    assume "tt_entries t = None"
    then show False using none assms(2) by (simp add: tt_lookup_def)
  qed
  ultimately have "tt_ok ?t \<and> known ops ?t" using steps_known [OF tt_reset_ok [OF assms(1)]] by blast
  then have "e_hash e = ucast h" "e = zero_entry \<or> (\<exists>op\<in>set ops. stored_by op e)"
    using lookup_in [OF _ assms(2)] unfolding known_def by blast+
  then show ?thesis
  proof (elim disjE)
    assume "e = zero_entry" "e_hash e = ucast h"
    then show ?thesis by (simp add: zero_entry_def)
  next
    assume h: "e_hash e = ucast h" and "\<exists>op\<in>set ops. stored_by op e"
    then obtain h' f d score m where "Store h' f d score m \<in> set ops" "e_hash e = ucast h'" "entry_holds e (f, d, score)"
      unfolding stored_by_def by blast
    with h show ?thesis
      by (intro disjI2 exI [of _ h'] exI [of _ f] exI [of _ d] exI [of _ score] exI [of _ m]) (simp add: entry_holds_def)
  qed
qed

theorem tt_answers_were_stored_witness:
  "\<exists>e. fst (tt_lookup 7 (fold tt_step [Look 3, Store 7 EXACT 5 9 None] (tt_reset tiny_table))) = Some e \<and> e_flags e = EXACT"
proof -
  have "tt_live (tt_step (Look 3) (tt_reset tiny_table))"
    using tt_lookup_live [of "tt_reset tiny_table" 3] tt_reset_ok [OF tiny_ok(1)]
    by (simp add: tt_step_def tt_live_def) (simp add: tt_reset_def tiny_table_def)
  then obtain e where e: "fst (tt_lookup 7 (fold tt_step [Look 3, Store 7 EXACT 5 9 None] (tt_reset tiny_table))) = Some e"
    using plain_store.get_put [of _ 7 "(EXACT, 5, 9)"] by (auto simp: tt_step_def)
  then have "e_flags e = EXACT" using tt_answers_were_stored [OF tiny_ok(1) e] by auto
  then show ?thesis using e by blast
qed

text \<open>A mate score stored relative to its node and read back at the same distance from the root
  is unchanged, also through the sixteen bits of an entry.\<close>

theorem mate_scores_survive_the_table:
  assumes "- max_eval \<le> eval \<and> eval \<le> max_eval" "0 \<le> ply \<and> ply \<le> 2767"
  shows "eval_from_tt (sint (word_of_int (eval_to_tt eval ply) :: 16 word)) ply = eval"
proof -
  have "- (2 ^ 15) \<le> eval_to_tt eval ply \<and> eval_to_tt eval ply < 2 ^ 15"
    using assms by (simp add: eval_to_tt_def max_eval_def max_non_mate_def)
  then have "sint (word_of_int (eval_to_tt eval ply) :: 16 word) = eval_to_tt eval ply"
    by (simp add: signed_of_int signed_take_bit_int_eq_self)
  then show ?thesis using assms(2) by (simp add: eval_to_tt_def eval_from_tt_def max_non_mate_def)
qed

theorem mate_scores_survive_the_table_witness:
  "eval_from_tt (sint (word_of_int (eval_to_tt 29990 12) :: 16 word)) 12 = 29990"
  by (rule mate_scores_survive_the_table) (simp_all add: max_eval_def)

text \<open>The age of an entry is a difference modulo four of a counter that skips zero: in the
  first generation, entered again after the third one, an entry of the search before counts two searches old, and a
  cleared slot one, so the live entry is overwritten while its neighbour is empty.\<close>

theorem replacement_prefers_live_entry_to_empty_slot:
  assumes "es ! b = zero_entry" "e_age (es ! (b + 1)) = 3" "uint (e_depth (es ! (b + 1))) < 4"
    and "e_hash (es ! (b + 1)) \<noteq> h" "h \<noteq> 0" "tt_generation t = 3"
  shows "tt_generation (tt_new_search t) = 1 \<and> replace_slot es b h (tt_generation (tt_new_search t)) = b + 1"
proof -
  have g: "tt_generation (tt_new_search t) = 1" using assms(6) by (simp add: tt_new_search_def Let_def)
  have "slot_value 1 (es ! b) = -4" using assms(1) by (simp add: slot_value_def zero_entry_def)
  moreover have "slot_value 1 (es ! (b + 1)) < -4" using assms(2,3) by (simp add: slot_value_def)
  ultimately show ?thesis unfolding replace_slot_eq g using assms(1,4,5) by (simp add: zero_entry_def)
qed

theorem replacement_prefers_live_entry_to_empty_slot_witness:
  "replace_slot [zero_entry, zero_entry\<lparr>e_hash := 9, e_depth := 3, e_age := 3\<rparr>] 0 5
    (tt_generation (tt_new_search (tiny_table\<lparr>tt_generation := 3\<rparr>))) = 1"
  using replacement_prefers_live_entry_to_empty_slot
    [of "[zero_entry, zero_entry\<lparr>e_hash := 9, e_depth := 3, e_age := 3\<rparr>]" 0 5 "tiny_table\<lparr>tt_generation := 3\<rparr>",
      THEN conjunct2]
  by simp

end
