(* ===== verification/Eval_Net.thy ===== *)
theory Eval_Net
  imports Transposition
begin

text \<open>
  The evaluation network: \<open>nnue.cpp\<close>, \<open>nnue_kernels.h\<close> and the incremental updates of \<open>eval.cpp\<close>.  Two accumulators of 16-bit
  lanes, one per perspective, hold the sum of the weight rows of the pieces on the board; \<open>make_move\<close>
  adds and subtracts the rows a move touches and \<open>unmake_move\<close> replays the journal backwards.  The weights
  are an argument: every fact here holds whatever the trained numbers are.  The model is the
  desktop build with the scalar kernels; arrays are functions of the index.
\<close>

section \<open>The weights\<close>

type_synonym lanes = "nat \<Rightarrow> 16 word"

definition HIDDEN_SIZE :: nat where
  "HIDDEN_SIZE = 256"

definition QA :: int where "QA = 255"
definition QB :: int where "QB = 64"
definition SCALE :: int where "SCALE = 400"
definition PAIRED_ROWS :: nat where "PAIRED_ROWS = 384"

text \<open>The blob is the array of all weights in the order of \<open>Network\<close>: 768 feature rows, the feature bias,
  two output rows and the output bias; the paired table is a permuted copy of the feature rows.\<close>

record net =
  net_blob :: lanes
  net_paired :: "lanes option"

definition feature_weights :: "net \<Rightarrow> nat \<Rightarrow> lanes" where
  "feature_weights nt r = (\<lambda>i. net_blob nt (r * HIDDEN_SIZE + i))"

definition feature_bias :: "net \<Rightarrow> lanes" where
  "feature_bias nt = (\<lambda>i. net_blob nt (768 * HIDDEN_SIZE + i))"

definition output_weights :: "net \<Rightarrow> nat \<Rightarrow> lanes" where
  "output_weights nt k = (\<lambda>i. net_blob nt ((769 + k) * HIDDEN_SIZE + i))"

definition output_bias :: "net \<Rightarrow> 16 word" where
  "output_bias nt = net_blob nt (771 * HIDDEN_SIZE)"

section \<open>The paired table\<close>

text \<open>\<open>memcpy\<close> of \<open>n\<close> elements from \<open>src + s\<close> to \<open>dst + d\<close>.\<close>

definition copy_row :: "lanes \<Rightarrow> nat \<Rightarrow> nat \<Rightarrow> nat \<Rightarrow> lanes \<Rightarrow> lanes" where
  "copy_row src s d n dst = (\<lambda>i. if d \<le> i \<and> i < d + n then src (s + (i - d)) else dst i)"

definition other_half_source_row :: "nat \<Rightarrow> nat" where
  "other_half_source_row j = (let t = j mod 64 in PAIRED_ROWS + j + (t XOR 56) - t)"

definition permute_rows :: "lanes \<Rightarrow> lanes \<Rightarrow> lanes" where
  "permute_rows src dst =
     fold (\<lambda>j dst. copy_row src (other_half_source_row j * HIDDEN_SIZE) ((2 * j + 1) * HIDDEN_SIZE) HIDDEN_SIZE
         (copy_row src (j * HIDDEN_SIZE) (2 * j * HIDDEN_SIZE) HIDDEN_SIZE dst))
       [0..<PAIRED_ROWS] dst"

definition init_perm_square :: "nat \<Rightarrow> nat" where
  "init_perm_square =
     fold (\<lambda>k perm. fold (\<lambda>half perm. perm(k * 2 + half := k mod 64 * 12 + k div 64 * 2 + half)) [0..<2] perm)
       [0..<384] (\<lambda>_. 0)"

definition reorder_by_square :: "lanes \<Rightarrow> lanes \<Rightarrow> lanes" where
  "reorder_by_square tmp a =
     copy_row (fold (\<lambda>k tmp. copy_row a (k * HIDDEN_SIZE) (init_perm_square k * HIDDEN_SIZE) HIDDEN_SIZE tmp) [0..<768] tmp)
       0 0 (768 * HIDDEN_SIZE) a"

text \<open>\<open>ensure_init\<close>: the static arrays start out zero.\<close>

definition ensure_init :: "lanes \<Rightarrow> net" where
  "ensure_init blob =
     \<lparr>net_blob = blob, net_paired = Some (reorder_by_square (\<lambda>_. 0) (permute_rows blob (\<lambda>_. 0)))\<rparr>"

section \<open>Deltas\<close>

record delta =
  d_a :: lanes
  d_b :: lanes
  d_add :: bool

definition push_delta :: "net \<Rightarrow> int \<Rightarrow> int \<Rightarrow> bool \<Rightarrow> bool \<Rightarrow> delta" where
  "push_delta nt piece square is_white add =
     (let flipped = square XOR 56;
          k = nat (64 * piece + (if is_white then square else flipped));
          half_own = (if is_white then 0 else 1)
      in case net_paired nt of
           Some paired \<Rightarrow>
             let p_w = init_perm_square (k * 2 + half_own);
                 p_b = init_perm_square (k * 2 + (1 - half_own))
             in \<lparr>d_a = (\<lambda>i. paired (p_w * HIDDEN_SIZE + i)), d_b = (\<lambda>i. paired (p_b * HIDDEN_SIZE + i)), d_add = add\<rparr>
         | None \<Rightarrow>
             let t = k mod 64; oth = PAIRED_ROWS + k + (t XOR 56) - t
             in \<lparr>d_a = feature_weights nt (if half_own = 1 then oth else k),
                 d_b = feature_weights nt (if half_own = 1 then k else oth), d_add = add\<rparr>)"

text \<open>The scalar \<open>apply\<close>: every lane of both accumulators takes all deltas in one sweep.\<close>

definition apply_lane :: "(delta \<Rightarrow> lanes) \<Rightarrow> delta list \<Rightarrow> lanes \<Rightarrow> lanes" where
  "apply_lane row ops acc =
     (\<lambda>i. if i < HIDDEN_SIZE then fold (\<lambda>d w. if d_add d then w + row d i else w - row d i) ops (acc i) else acc i)"

record eval =
  acc_white :: lanes
  acc_black :: lanes

definition nnue_apply :: "delta list \<Rightarrow> eval \<Rightarrow> eval" where
  "nnue_apply ops e = \<lparr>acc_white = apply_lane d_a ops (acc_white e), acc_black = apply_lane d_b ops (acc_black e)\<rparr>"

definition eval_reset :: "net \<Rightarrow> eval" where
  "eval_reset nt = \<lparr>acc_white = feature_bias nt, acc_black = feature_bias nt\<rparr>"

text \<open>\<open>while (bb && n < 32)\<close>: the deltas of the pieces of one type and colour, at most 32 in all.\<close>

function collect_deltas :: "net \<Rightarrow> piece_type \<Rightarrow> color \<Rightarrow> 64 word \<Rightarrow> delta list \<Rightarrow> delta list" where
  "collect_deltas nt pt c bb deltas =
     (if bb \<noteq> 0 \<and> length deltas < 32
      then collect_deltas nt pt c (forward_popbit bb)
        (deltas @ [push_delta nt (pt_value pt) (forward_bitscan bb) (c = WHITE) True])
      else deltas)"
  by pat_completeness auto
termination
  by (relation "measure (\<lambda>(_, _, _, _, ds). 32 - length ds)") auto

declare collect_deltas.simps [simp del]

definition eval_set :: "net \<Rightarrow> position \<Rightarrow> eval" where
  "eval_set nt p =
     nnue_apply (fold (\<lambda>pt ds. collect_deltas nt pt BLACK (piece_type_color_bb p pt BLACK)
         (collect_deltas nt pt WHITE (piece_type_color_bb p pt WHITE) ds)) PIECE_TYPES []) (eval_reset nt)"

definition eval_add_piece :: "net \<Rightarrow> int \<Rightarrow> int \<Rightarrow> bool \<Rightarrow> eval \<Rightarrow> eval" where
  "eval_add_piece nt piece square is_white e = nnue_apply [push_delta nt piece square is_white True] e"

definition eval_remove_piece :: "net \<Rightarrow> int \<Rightarrow> int \<Rightarrow> bool \<Rightarrow> eval \<Rightarrow> eval" where
  "eval_remove_piece nt piece square is_white e = nnue_apply [push_delta nt piece square is_white False] e"

section \<open>The output layer\<close>

text \<open>Division of signed integers truncates.\<close>

definition trunc_div :: "int \<Rightarrow> int \<Rightarrow> int" where
  "trunc_div a b = sgn a * sgn b * (\<bar>a\<bar> div \<bar>b\<bar>)"

text \<open>The value of an \<open>int\<close> operation; none when it overflows, which the language leaves undefined.\<close>

definition as_int :: "int \<Rightarrow> int option" where
  "as_int v = (if - (2 ^ 31) \<le> v \<and> v < 2 ^ 31 then Some v else None)"

definition lane_output :: "16 word \<Rightarrow> 16 word \<Rightarrow> int" where
  "lane_output acc w =
     (let input = (if sint acc < 0 then 0 else if sint acc > QA then QA else sint acc);
          weight = signed_take_bit 15 (input * sint w)
      in input * weight)"

definition output_dot :: "lanes \<Rightarrow> lanes \<Rightarrow> int option" where
  "output_dot acc w =
     fold (\<lambda>i output. Option.bind output (\<lambda>v. as_int (v + lane_output (acc i) (w i)))) [0..<HIDDEN_SIZE] (Some 0)"

definition net_evaluate :: "net \<Rightarrow> lanes \<Rightarrow> lanes \<Rightarrow> int option" where
  "net_evaluate nt us them =
     Option.bind (output_dot us (output_weights nt 0)) (\<lambda>a.
     Option.bind (output_dot them (output_weights nt 1)) (\<lambda>b.
     Option.bind (as_int (a + b)) (\<lambda>v.
     Option.bind (as_int (trunc_div v QA + sint (output_bias nt))) (\<lambda>v.
     Option.bind (as_int (v * SCALE)) (\<lambda>v.
     Some (max (- max_non_mate) (min max_non_mate (trunc_div v (QA * QB)))))))))"

definition eval_evaluate :: "net \<Rightarrow> bool \<Rightarrow> eval \<Rightarrow> int option" where
  "eval_evaluate nt white_to_move e =
     (if white_to_move then net_evaluate nt (acc_white e) (acc_black e)
      else net_evaluate nt (acc_black e) (acc_white e))"

definition nnue_evaluate :: "net \<Rightarrow> eval \<Rightarrow> position \<Rightarrow> int option" where
  "nnue_evaluate nt e p = eval_evaluate nt (pos_side_to_move p = WHITE) e"

section \<open>Making and unmaking moves\<close>

record undo =
  u_location :: int
  u_type :: piece_type
  u_is_white :: bool
  u_is_put :: bool

text \<open>The piece events of a move, in the order the switch issues them: an undo record says what takes
  the event back.\<close>

definition remove_event :: "int \<Rightarrow> piece_type \<Rightarrow> bool \<Rightarrow> undo" where
  "remove_event loc pt was_white = \<lparr>u_location = loc, u_type = pt, u_is_white = was_white, u_is_put = True\<rparr>"

definition add_event :: "int \<Rightarrow> piece_type \<Rightarrow> bool \<Rightarrow> undo" where
  "add_event loc pt now_white = \<lparr>u_location = loc, u_type = pt, u_is_white = now_white, u_is_put = False\<rparr>"

definition move_events :: "position \<Rightarrow> move \<Rightarrow> undo list" where
  "move_events p m =
     (let from_sq = from_square m; to_sq = to_square m;
          moving_pt = piece_type_on p from_sq; captured_pt = piece_type_on p to_sq;
          promotion_pt = promotion_piece_type m;
          is_white = (pos_side_to_move p = WHITE);
          move_piece = (\<lambda>f t pt w. [remove_event f pt w, add_event t pt w])
      in case move_type m of
           NORMAL \<Rightarrow> move_piece from_sq to_sq (the moving_pt) is_white
         | DOUBLE_PUSH \<Rightarrow> move_piece from_sq to_sq (the moving_pt) is_white
         | CAPTURE \<Rightarrow>
             remove_event to_sq (the captured_pt) (\<not> is_white) # move_piece from_sq to_sq (the moving_pt) is_white
         | ENPASSANT \<Rightarrow>
             [remove_event from_sq PAWN is_white,
              remove_event (if is_white then to_sq - 8 else to_sq + 8) PAWN (\<not> is_white),
              add_event to_sq PAWN is_white]
         | CASTLING \<Rightarrow>
             (if to_sq = C1 then [remove_event E1 KING True, remove_event A1 ROOK True, add_event C1 KING True, add_event D1 ROOK True]
              else if to_sq = G1 then [remove_event E1 KING True, remove_event H1 ROOK True, add_event G1 KING True, add_event F1 ROOK True]
              else if to_sq = C8 then [remove_event E8 KING False, remove_event A8 ROOK False, add_event C8 KING False, add_event D8 ROOK False]
              else if to_sq = G8 then [remove_event E8 KING False, remove_event H8 ROOK False, add_event G8 KING False, add_event F8 ROOK False]
              else [])
         | PROMOTION \<Rightarrow> [remove_event from_sq PAWN is_white, add_event to_sq (the promotion_pt) is_white]
         | CAPTURE_PROMOTION \<Rightarrow>
             [remove_event to_sq (the captured_pt) (\<not> is_white), remove_event from_sq PAWN is_white,
              add_event to_sq (the promotion_pt) is_white]
         | NONE \<Rightarrow> [])"

definition eval_make_move :: "net \<Rightarrow> move \<Rightarrow> eval \<times> position \<Rightarrow> undo list \<times> eval \<times> position" where
  "eval_make_move nt m = (\<lambda>(e, p).
     let actions = move_events p m;
         deltas = map (\<lambda>u. push_delta nt (pt_value (u_type u)) (u_location u) (u_is_white u) (\<not> u_is_put u)) actions
     in (actions, nnue_apply deltas e, make_move m p))"

text \<open>The inverse batch: removals in a first pass over the journal, additions in a second.\<close>

definition eval_unmake_move :: "net \<Rightarrow> undo list \<Rightarrow> eval \<times> position \<Rightarrow> eval \<times> position" where
  "eval_unmake_move nt actions = (\<lambda>(e, p).
     let deltas = concat (map (\<lambda>pass. map (\<lambda>u. push_delta nt (pt_value (u_type u)) (u_location u) (u_is_white u) (u_is_put u))
           (filter (\<lambda>u. \<not> ((pass = 0) = u_is_put u)) actions)) [0, 1 :: nat])
     in (nnue_apply deltas e, unmake_move p))"

end
