(* ===== verification/Eval_Correct.thy ===== *)
theory Eval_Correct
  imports Eval_Net
begin

text \<open>
  The incremental evaluation is the evaluation from scratch: after a legal move the accumulators are those that
  \<open>Eval::set\<close> computes on the new position, taking the move back restores them bit for bit, the permuted weight table
  gives the rows of the flat one, and the dot product of the output layer never overflows.
\<close>

section \<open>Sums over the pieces of a board\<close>

definition pieces :: "position \<Rightarrow> (int \<times> piece_type \<times> color) set" where
  "pieces p = {(s, pt, c). on_board s \<and> has p s pt c}"

definition piece_sum :: "(int \<Rightarrow> piece_type \<Rightarrow> color \<Rightarrow> 'g::ab_group_add) \<Rightarrow> position \<Rightarrow> 'g" where
  "piece_sum row p = (\<Sum>(s, pt, c)\<in>pieces p. row s pt c)"

lemma finite_pieces [simp]: "finite (pieces p)"
proof -
  have "pieces p \<subseteq> {0..63} \<times> UNIV" by (auto simp: pieces_def on_board_def)
  then show ?thesis by (rule finite_subset) simp
qed

lemma mem_pieces: "(s, pt, c) \<in> pieces p \<longleftrightarrow> on_board s \<and> has p s pt c"
  by (simp add: pieces_def)

lemma piece_sum_cong: "has q = has p \<Longrightarrow> piece_sum row q = piece_sum row p"
  by (simp add: piece_sum_def pieces_def)

lemma piece_sum_insert:
  assumes "on_board s" "\<not> has p s pt c"
    and "\<And>u x d. on_board u \<Longrightarrow> has q u x d \<longleftrightarrow> has p u x d \<or> u = s \<and> x = pt \<and> d = c"
  shows "piece_sum row q = piece_sum row p + row s pt c"
proof -
  have "pieces q = insert (s, pt, c) (pieces p)" using assms(1,3) by (auto simp: mem_pieces)
  moreover have "(s, pt, c) \<notin> pieces p" using assms(2) by (simp add: mem_pieces)
  ultimately show ?thesis by (simp add: piece_sum_def add.commute)
qed

text \<open>A total over the pieces of a board, in any commutative group: each update of the board changes it
  by the rows of the squares it touches.\<close>

locale summed_board = piece_board +
  fixes total :: "'a \<Rightarrow> 'g::ab_group_add" and row :: "int \<Rightarrow> piece_type \<Rightarrow> color \<Rightarrow> 'g"
  assumes put_total: "ok p \<Longrightarrow> on_board s \<Longrightarrow> vacant p s \<Longrightarrow> total (put s pt c p) = total p + row s pt c"
    and remove_total: "ok p \<Longrightarrow> on_board s \<Longrightarrow> holds p s pt c \<Longrightarrow> total (remove s pt c p) = total p - row s pt c"
    and move_total: "ok p \<Longrightarrow> on_board s \<Longrightarrow> on_board t \<Longrightarrow> s \<noteq> t \<Longrightarrow> holds p s pt c \<Longrightarrow> vacant p t \<Longrightarrow>
      total (move s t pt c p) = total p - row s pt c + row t pt c"
begin

lemma capture_total:
  assumes "ok p" "on_board f" "on_board t" "f \<noteq> t" "holds p f pt c" "holds p t pt' c'"
  shows "total (move f t pt c (remove t pt' c' p)) = total p - row t pt' c' - row f pt c + row t pt c"
  using assms by (simp add: move_total remove_total board_laws vacant_remove)

lemma enpassant_total:
  assumes "ok p" "on_board f" "on_board t" "on_board v" "f \<noteq> t" "v \<noteq> f" "v \<noteq> t" "holds p f pt c"
    and "vacant p t" "holds p v pt' c'"
  shows "total (remove v pt' c' (move f t pt c p)) = total p - row f pt c + row t pt c - row v pt' c'"
  using assms by (simp add: move_total remove_total board_laws)

lemma castle_total:
  assumes "ok p" "on_board f" "on_board t" "f \<noteq> t" "holds p f pt c" "vacant p t"
    and "on_board f'" "on_board t'" "f' \<noteq> t'" "f' \<noteq> f" "f' \<noteq> t" "t' \<noteq> f" "t' \<noteq> t" "holds p f' pt' c" "vacant p t'"
  shows "total (move f' t' pt' c (move f t pt c p)) = total p - row f pt c + row t pt c - row f' pt' c + row t' pt' c"
  using assms by (simp add: move_total board_laws vacant_move)

lemma promotion_total:
  assumes "ok p" "on_board f" "on_board t" "f \<noteq> t" "holds p f pt c" "vacant p t"
  shows "total (put t q c (remove f pt c p)) = total p - row f pt c + row t q c"
  using assms by (simp add: put_total remove_total board_laws vacant_remove)

lemma capture_promotion_total:
  assumes "ok p" "on_board f" "on_board t" "f \<noteq> t" "holds p f pt c" "holds p t pt' c'"
  shows "total (put t q c (remove f pt c (remove t pt' c' p))) = total p - row t pt' c' - row f pt c + row t q c"
  using assms by (simp add: put_total remove_total board_laws vacant_remove)

end

lemma put_piece_sum:
  assumes "board_ok p" "on_board s" "free p s"
  shows "piece_sum row (put_piece s pt c p) = piece_sum row p + row s pt c"
proof (rule piece_sum_insert [OF assms(2)])
  show "\<not> has p s pt c" using assms free_iff by blast
  show "has (put_piece s pt c p) u x d \<longleftrightarrow> has p u x d \<or> u = s \<and> x = pt \<and> d = c" if "on_board u" for u x d
    using put_piece_has [OF assms(1,2) that assms(3)] free_iff [OF assms(1), of s] assms(3) by auto
qed

lemma remove_piece_sum:
  assumes "board_ok p" "on_board s" "has p s pt c"
  shows "piece_sum row (remove_piece s pt c p) = piece_sum row p - row s pt c"
proof -
  have "piece_sum row p = piece_sum row (remove_piece s pt c p) + row s pt c"
  proof (rule piece_sum_insert [OF assms(2)])
    show "\<not> has (remove_piece s pt c p) s pt c" using remove_piece_has [OF assms(1,2,2,3)] by simp
    show "has p u x d \<longleftrightarrow> has (remove_piece s pt c p) u x d \<or> u = s \<and> x = pt \<and> d = c" if "on_board u" for u x d
      using remove_piece_has [OF assms(1,2) that assms(3)] has_bits [OF assms(1,3)] assms(3)
      by (cases "u = s") (auto simp: has_def)
  qed
  then show ?thesis by simp
qed

lemma move_piece_sum:
  assumes "board_ok p" "on_board s" "on_board t" "s \<noteq> t" "has p s pt c" "free p t"
  shows "piece_sum row (move_piece s t pt c p) = piece_sum row p - row s pt c + row t pt c"
  using move_piece_eq [OF assms] put_piece_sum [OF remove_piece_ok [OF assms(1,2,5)] assms(3), where row = row]
    remove_piece_sum [OF assms(1,2,5), where row = row] by simp

interpretation summed: summed_board board_ok has free put_piece remove_piece move_piece "piece_sum row" row
  for row :: "int \<Rightarrow> piece_type \<Rightarrow> color \<Rightarrow> 'g::ab_group_add"
  by unfold_locales (rule put_piece_sum remove_piece_sum move_piece_sum; assumption)+

section \<open>The piece events of a move\<close>

definition u_color :: "undo \<Rightarrow> color" where
  "u_color u = (if u_is_white u then WHITE else BLACK)"

definition event_sum :: "(int \<Rightarrow> piece_type \<Rightarrow> color \<Rightarrow> 'g::ab_group_add) \<Rightarrow> undo list \<Rightarrow> 'g" where
  "event_sum row us = (\<Sum>u\<leftarrow>us. if u_is_put u then - row (u_location u) (u_type u) (u_color u)
     else row (u_location u) (u_type u) (u_color u))"

lemma event_sum_simps [simp]:
  "event_sum row [] = 0"
  "event_sum row (remove_event s pt w # us) = - row s pt (if w then WHITE else BLACK) + event_sum row us"
  "event_sum row (add_event s pt w # us) = row s pt (if w then WHITE else BLACK) + event_sum row us"
  by (simp_all add: event_sum_def remove_event_def add_event_def u_color_def)

text \<open>What the switch of \<open>eval.cpp\<close> takes for granted: the move carries its type, and castling is that of the
  side to move from its home square.\<close>

definition eval_fits :: "position \<Rightarrow> move \<Rightarrow> bool" where
  "eval_fits p m \<longleftrightarrow> move_ok p m \<and> move_type m \<noteq> NONE \<and>
     (move_type m = CASTLING \<longrightarrow>
        pos_side_to_move p = WHITE \<and> from_square m = E1 \<and> (to_square m = C1 \<or> to_square m = G1) \<or>
        pos_side_to_move p = BLACK \<and> from_square m = E8 \<and> (to_square m = C8 \<or> to_square m = G8))"

lemma chess_move_eval_fits:
  assumes "board_ok p" "rights_ok p" "ep_ok p" "chess_move p (pos_side_to_move p) m"
  shows "eval_fits p m"
proof -
  have mo: "move_ok p m" using chess_move_fits [OF assms] by (simp add: move_fits_def)
  from assms(4) consider "piece_move p (pos_side_to_move p) m" | "pawn_push p (pos_side_to_move p) m"
    | "pawn_capture p (pos_side_to_move p) m" | "castle_move p (pos_side_to_move p) m"
    by (auto simp: chess_move_def)
  then have "move_type m \<noteq> NONE \<and> (move_type m = CASTLING \<longrightarrow> castle_move p (pos_side_to_move p) m)"
  proof cases
    case 1
    then obtain f t where "on_board f" "on_board t" "m = mk_move f t NORMAL \<or> m = mk_move f t CAPTURE"
      unfolding piece_move_def by blast
    then show ?thesis by (auto simp: mk_move_fields)
  next
    case 2
    then obtain f t pt where "on_board f" "on_board t"
      "m = mk_move f t NORMAL \<or> m = mk_move_promo f t pt PROMOTION \<or> m = mk_move f t DOUBLE_PUSH"
      unfolding pawn_push_def if_bool_eq_disj by blast
    then show ?thesis by (auto simp: mk_move_fields mk_move_promo_fields)
  next
    case 3
    then obtain f t pt where "on_board f" "on_board t"
      "m = mk_move f t CAPTURE \<or> m = mk_move_promo f t pt CAPTURE_PROMOTION \<or> m = mk_move f t ENPASSANT"
      unfolding pawn_capture_def if_bool_eq_disj by blast
    then show ?thesis by (auto simp: mk_move_fields mk_move_promo_fields)
  next
    case 4
    then have "move_type m = CASTLING" by (cases rule: castle_move_cases) (simp_all add: mk_move_fields on_board_def)
    then show ?thesis using 4 by simp
  qed
  then show ?thesis using mo unfolding eval_fits_def
    by (auto elim!: castle_move_cases simp: mk_move_fields on_board_def)
qed

lemma color_of_flag: "(if pos_side_to_move p = WHITE then WHITE else BLACK) = pos_side_to_move p"
  "(if \<not> pos_side_to_move p = WHITE then WHITE else BLACK) = opp (pos_side_to_move p)"
  by (cases "pos_side_to_move p"; simp)+

lemma castle_rook_at:
  "castle_rook C1 c = move_piece A1 D1 ROOK c" "castle_rook G1 c = move_piece H1 F1 ROOK c"
  "castle_rook C8 c = move_piece A8 D8 ROOK c" "castle_rook G8 c = move_piece H8 F8 ROOK c"
  by (simp_all add: castle_rook_def fun_eq_iff)

lemma castle_total_at:
  assumes "board_ok p" "has p f KING c" "free p t" "has p rf ROOK c" "free p rt"
    and "on_board f" "on_board t" "on_board rf" "on_board rt" "distinct [f, t, rf, rt]"
  shows "piece_sum row (move_piece rf rt ROOK c (move_piece f t KING c p)) =
    piece_sum row p + (- row f KING c + (- row rf ROOK c + (row t KING c + row rt ROOK c)))"
  using summed.castle_total [OF assms(1,6,7) _ assms(2,3,8,9) _ _ _ _ _ assms(4,5), where row = row] assms(10) by (simp add: algebra_simps)

lemma apply_move_sum:
  assumes ok: "board_ok p" and m: "eval_fits p m" and a: "move_board p m h = (q, ep, h', calc)"
  shows "piece_sum row q = piece_sum row p + event_sum row (move_events p m)"
proof -
  let ?stm = "pos_side_to_move p" and ?f = "from_square m" and ?t = "to_square m"
  have mo: "move_ok p m" and ty: "move_type_of p m = move_type m"
    using m by (auto simp: eval_fits_def move_type_of_typed)
  have ft: "?f \<noteq> ?t" using mo by (simp add: move_ok_def Let_def)
  note on = on_of_has [OF ok]
  note F = color_of_flag ty Let_def apply_move_def move_events_def
  show ?thesis
  proof (cases "move_type m")
    case NORMAL
    then obtain pt where pt: "has p ?f pt ?stm" "free p ?t" using mo ty by (auto simp: move_ok_def Let_def)
    have "q = move_piece ?f ?t pt ?stm p" using a on [OF pt(1)] by (simp add: F NORMAL)
    then show ?thesis using summed.move_total [OF ok _ _ ft pt, where row = row] on [OF pt(1)] by (simp add: F NORMAL algebra_simps)
  next
    case DOUBLE_PUSH
    then have pt: "has p ?f PAWN ?stm" "free p ?t" using mo ty by (auto simp: move_ok_def Let_def)
    have "q = move_piece ?f ?t PAWN ?stm p" using a by (simp add: F DOUBLE_PUSH)
    then show ?thesis using summed.move_total [OF ok _ _ ft pt, where row = row] on [OF pt(1)] by (simp add: F DOUBLE_PUSH algebra_simps)
  next
    case CAPTURE
    then obtain pt pt' where pt: "has p ?f pt ?stm" "has p ?t pt' (opp ?stm)"
      using mo ty by (auto simp: move_ok_def Let_def)
    have "q = move_piece ?f ?t pt ?stm (remove_piece ?t pt' (opp ?stm) p)"
      using a on [OF pt(1)] on [OF pt(2)] by (simp add: F CAPTURE)
    then show ?thesis using summed.capture_total [OF ok _ _ ft pt, where row = row] on [OF pt(1)] on [OF pt(2)]
      by (simp add: F CAPTURE algebra_simps)
  next
    case ENPASSANT
    let ?v = "ep_victim ?stm ?t"
    have pt: "has p ?f PAWN ?stm" "free p ?t" "on_board ?v" "has p ?v PAWN (opp ?stm)"
      using ENPASSANT mo ty by (auto simp: move_ok_def Let_def)
    have vf: "?v \<noteq> ?f" using has_unique [OF ok pt(1), of PAWN "opp ?stm"] pt(4) opp_simps(5) [of ?stm] by metis
    have "q = remove_piece ?v PAWN (opp ?stm) (move_piece ?f ?t PAWN ?stm p)" using a by (simp add: F ENPASSANT)
    then show ?thesis
      using summed.enpassant_total [OF ok _ _ pt(3) ft vf ep_victim_ne pt(1,2,4), where row = row]
      by (simp add: F ENPASSANT algebra_simps ep_victim_def)
  next
    case CASTLING
    have c: "has p ?f KING ?stm" "free p ?t" "castle_ready p ?t ?stm" using CASTLING mo ty by (auto simp: move_ok_def Let_def)
    have q: "q = castle_rook ?t ?stm (move_piece ?f ?t KING ?stm p)" using a by (simp add: F CASTLING)
    from m CASTLING consider
        "?stm = WHITE" "?f = E1" "?t = C1" "has p A1 ROOK WHITE" "free p D1"
      | "?stm = WHITE" "?f = E1" "?t = G1" "has p H1 ROOK WHITE" "free p F1"
      | "?stm = BLACK" "?f = E8" "?t = C8" "has p A8 ROOK BLACK" "free p D8"
      | "?stm = BLACK" "?f = E8" "?t = G8" "has p H8 ROOK BLACK" "free p F8"
      using c(3) by (auto simp: eval_fits_def castle_ready_def)
    then show ?thesis
    proof cases
      case 1
      then show ?thesis using c(1,2) castle_total_at [OF ok, of E1 WHITE C1 A1 D1 row]
        by (simp add: q castle_rook_at F CASTLING on_board_def)
    next
      case 2
      then show ?thesis using c(1,2) castle_total_at [OF ok, of E1 WHITE G1 H1 F1 row]
        by (simp add: q castle_rook_at F CASTLING on_board_def)
    next
      case 3
      then show ?thesis using c(1,2) castle_total_at [OF ok, of E8 BLACK C8 A8 D8 row]
        by (simp add: q castle_rook_at F CASTLING on_board_def)
    next
      case 4
      then show ?thesis using c(1,2) castle_total_at [OF ok, of E8 BLACK G8 H8 F8 row]
        by (simp add: q castle_rook_at F CASTLING on_board_def)
    qed
  next
    case PROMOTION
    then obtain pr where pt: "has p ?f PAWN ?stm" "free p ?t" "promotion_piece_type m = Some pr"
      using mo ty by (auto simp: move_ok_def Let_def)
    have "q = put_piece ?t pr ?stm (remove_piece ?f PAWN ?stm p)" using a pt(3) by (simp add: F PROMOTION)
    then show ?thesis using summed.promotion_total [OF ok _ _ ft pt(1,2), where row = row] pt(3) by (simp add: F PROMOTION algebra_simps)
  next
    case CAPTURE_PROMOTION
    then obtain pr pt' where pt: "has p ?f PAWN ?stm" "has p ?t pt' (opp ?stm)" "promotion_piece_type m = Some pr"
      using mo ty by (auto simp: move_ok_def Let_def)
    have "q = put_piece ?t pr ?stm (remove_piece ?f PAWN ?stm (remove_piece ?t pt' (opp ?stm) p))"
      using a pt(3) on [OF pt(2)] by (simp add: F CAPTURE_PROMOTION)
    then show ?thesis using summed.capture_promotion_total [OF ok _ _ ft pt(1,2), where row = row] pt(3) on [OF pt(2)]
      by (simp add: F CAPTURE_PROMOTION algebra_simps)
  qed (use m in \<open>simp add: eval_fits_def\<close>)
qed

lemma make_move_sum:
  assumes "pos_ok p" "eval_fits p m"
  shows "piece_sum row (make_move m p) = piece_sum row p + event_sum row (move_events p m)"
proof -
  obtain b ep h1 calc where a: "move_board p m (xor_ep p (enpassant_square p) (pos_side_to_move p) (pos_hash p))
      = (b, ep, h1, calc)" by (metis prod_cases4)
  have ok: "board_ok p" "stack_ok p" using assms(1) by (auto simp: pos_ok_def)
  have "has (make_move m p) = has b" using has_cong(2) make_move_fields(1,2) [OF ok(2) a] by blast
  then show ?thesis using apply_move_sum [OF ok(1) assms(2) a] piece_sum_cong by metis
qed

section \<open>The accumulators\<close>

definition white_row :: "net \<Rightarrow> nat \<Rightarrow> int \<Rightarrow> piece_type \<Rightarrow> color \<Rightarrow> 16 word" where
  "white_row nt i s pt c = d_a (push_delta nt (pt_value pt) s (c = WHITE) True) i"

definition black_row :: "net \<Rightarrow> nat \<Rightarrow> int \<Rightarrow> piece_type \<Rightarrow> color \<Rightarrow> 16 word" where
  "black_row nt i s pt c = d_b (push_delta nt (pt_value pt) s (c = WHITE) True) i"

lemma push_delta_rows:
  "d_a (push_delta nt (pt_value pt) s w add) i = white_row nt i s pt (if w then WHITE else BLACK)"
  "d_b (push_delta nt (pt_value pt) s w add) i = black_row nt i s pt (if w then WHITE else BLACK)"
  "d_add (push_delta nt (pt_value pt) s w add) = add"
  by (simp_all add: white_row_def black_row_def push_delta_def Let_def split: option.split)

lemma apply_lane_sum:
  "apply_lane row ops acc i =
    acc i + (if i < HIDDEN_SIZE then \<Sum>d\<leftarrow>ops. if d_add d then row d i else - row d i else 0)"
proof -
  have "fold (\<lambda>d w. if d_add d then w + row d i else w - row d i) ops w =
      w + (\<Sum>d\<leftarrow>ops. if d_add d then row d i else - row d i)" for w
    by (induction ops arbitrary: w) (simp_all add: algebra_simps)
  then show ?thesis by (simp add: apply_lane_def)
qed

definition lanes_for :: "net \<Rightarrow> (nat \<Rightarrow> int \<Rightarrow> piece_type \<Rightarrow> color \<Rightarrow> 16 word) \<Rightarrow> position \<Rightarrow> lanes" where
  "lanes_for nt row p = (\<lambda>i. feature_bias nt i + (if i < HIDDEN_SIZE then piece_sum (row i) p else 0))"

text \<open>\<open>set\<close> adds one row per piece, for up to 32 pieces.\<close>

lemma collect_deltas_take:
  "collect_deltas nt pt c bb ds =
    ds @ take (32 - length ds) (map (\<lambda>s. push_delta nt (pt_value pt) s (c = WHITE) True) (bb_squares bb))"
proof (induction nt pt c bb ds rule: collect_deltas.induct)
  case (1 nt pt c bb ds)
  show ?case
  proof (cases "bb \<noteq> 0 \<and> length ds < 32")
    case True
    then obtain k where k: "32 - length ds = Suc k" "32 - Suc (length ds) = k" by (metis Suc_diff_Suc)
    have "bb_squares bb = forward_bitscan bb # bb_squares (forward_popbit bb)"
      using True by (subst bb_squares.simps) simp
    then show ?thesis using 1 [OF True] True k by (subst collect_deltas.simps) simp
  next
    case False
    then show ?thesis by (subst collect_deltas.simps) auto
  qed
qed

definition piece_list :: "position \<Rightarrow> (int \<times> piece_type \<times> color) list" where
  "piece_list p = concat (map (\<lambda>pt. map (\<lambda>s. (s, pt, WHITE)) (bb_squares (piece_type_color_bb p pt WHITE))
     @ map (\<lambda>s. (s, pt, BLACK)) (bb_squares (piece_type_color_bb p pt BLACK))) PIECE_TYPES)"

definition piece_delta :: "net \<Rightarrow> int \<times> piece_type \<times> color \<Rightarrow> delta" where
  "piece_delta nt = (\<lambda>(s, pt, c). push_delta nt (pt_value pt) s (c = WHITE) True)"

lemma set_piece_list: "set (piece_list p) = pieces p"
proof -
  have "(s, pt, c) \<in> set (piece_list p) \<longleftrightarrow> on_board s \<and> has p s pt c" for s pt c
    by (cases pt; cases c) (auto simp: piece_list_def PIECE_TYPES_def bit_piece_type_color)
  then show ?thesis by (auto simp: pieces_def)
qed

lemma distinct_piece_list: "distinct (piece_list p)"
  by (auto simp: piece_list_def PIECE_TYPES_def distinct_map inj_on_def)

lemma length_piece_list: "length (piece_list p) = card (pieces p)"
  using distinct_card [OF distinct_piece_list] by (simp add: set_piece_list)

lemma take_room: "ds @ take (k - length ds) a @ take (k - length (ds @ take (k - length ds) a)) b = ds @ take (k - length ds) (a @ b)"
  by (cases "length a \<le> k - length ds") auto

lemma fold_take_room:
  "fold (\<lambda>x ds. ds @ take (k - length ds) (g x)) xs ds = ds @ take (k - length ds) (concat (map g xs))"
proof (induction xs arbitrary: ds)
  case (Cons x xs)
  have "fold (\<lambda>x ds. ds @ take (k - length ds) (g x)) (x # xs) ds =
      (ds @ take (k - length ds) (g x)) @ take (k - length (ds @ take (k - length ds) (g x))) (concat (map g xs))"
    using Cons.IH by simp
  also have "\<dots> = ds @ take (k - length ds) (g x @ concat (map g xs))" unfolding append_assoc by (rule take_room)
  finally show ?case by simp
qed simp

lemma eval_set_deltas:
  "eval_set nt p = nnue_apply (take 32 (map (piece_delta nt) (piece_list p))) (eval_reset nt)"
proof -
  let ?row = "\<lambda>pt c. map (\<lambda>s. push_delta nt (pt_value pt) s (c = WHITE) True) (bb_squares (piece_type_color_bb p pt c))"
  have two: "(\<lambda>pt ds. collect_deltas nt pt BLACK (piece_type_color_bb p pt BLACK)
      (collect_deltas nt pt WHITE (piece_type_color_bb p pt WHITE) ds)) =
      (\<lambda>pt ds. ds @ take (32 - length ds) (?row pt WHITE @ ?row pt BLACK))"
    unfolding fun_eq_iff collect_deltas_take by (simp only: append_assoc take_room simp_thms)
  have "fold (\<lambda>pt ds. collect_deltas nt pt BLACK (piece_type_color_bb p pt BLACK)
      (collect_deltas nt pt WHITE (piece_type_color_bb p pt WHITE) ds)) pts ds =
      ds @ take (32 - length ds) (concat (map (\<lambda>pt. ?row pt WHITE @ ?row pt BLACK) pts))" for pts ds
    unfolding two by (rule fold_take_room)
  moreover have "concat (map (\<lambda>pt. ?row pt WHITE @ ?row pt BLACK) PIECE_TYPES) = map (piece_delta nt) (piece_list p)"
    by (simp add: piece_list_def piece_delta_def map_concat comp_def)
  ultimately show ?thesis by (simp add: eval_set_def)
qed

lemma eval_set_sums:
  assumes "card (pieces p) \<le> 32"
  shows "eval_set nt p = \<lparr>acc_white = lanes_for nt (white_row nt) p, acc_black = lanes_for nt (black_row nt) p\<rparr>"
proof -
  have t: "take 32 (map (piece_delta nt) (piece_list p)) = map (piece_delta nt) (piece_list p)"
    using assms by (simp add: length_piece_list)
  have flag: "(if c = WHITE then WHITE else BLACK) = c" for c by (cases c) simp_all
  have s: "(\<Sum>d\<leftarrow>map (piece_delta nt) (piece_list p). f d) = (\<Sum>x\<in>pieces p. f (piece_delta nt x))" for f :: "delta \<Rightarrow> 16 word"
    using sum_list_distinct_conv_sum_set [OF distinct_piece_list] by (simp add: comp_def set_piece_list)
  have sums: "(\<Sum>d\<leftarrow>map (piece_delta nt) (piece_list p). if d_add d then d_a d i else - d_a d i) = piece_sum (white_row nt i) p"
    "(\<Sum>d\<leftarrow>map (piece_delta nt) (piece_list p). if d_add d then d_b d i else - d_b d i) = piece_sum (black_row nt i) p" for i
    unfolding s piece_sum_def by (auto simp: piece_delta_def push_delta_rows flag intro!: sum.cong)
  show ?thesis unfolding eval_set_deltas t nnue_apply_def apply_lane_sum [abs_def] sums
    by (simp add: lanes_for_def eval_reset_def)
qed

section \<open>Incremental updates\<close>

definition event_deltas :: "net \<Rightarrow> bool \<Rightarrow> undo list \<Rightarrow> delta list" where
  "event_deltas nt back us =
     map (\<lambda>u. push_delta nt (pt_value (u_type u)) (u_location u) (u_is_white u) (u_is_put u = back)) us"

lemma event_deltas_sum:
  "(\<Sum>d\<leftarrow>event_deltas nt False us. if d_add d then d_a d i else - d_a d i) = event_sum (white_row nt i) us"
  "(\<Sum>d\<leftarrow>event_deltas nt False us. if d_add d then d_b d i else - d_b d i) = event_sum (black_row nt i) us"
  "(\<Sum>d\<leftarrow>event_deltas nt True us. if d_add d then d_a d i else - d_a d i) = - event_sum (white_row nt i) us"
  "(\<Sum>d\<leftarrow>event_deltas nt True us. if d_add d then d_b d i else - d_b d i) = - event_sum (black_row nt i) us"
  by (induction us; simp add: event_deltas_def event_sum_def push_delta_rows u_color_def)+

lemma nnue_apply_events:
  "nnue_apply (event_deltas nt False us) e =
    \<lparr>acc_white = (\<lambda>i. acc_white e i + (if i < HIDDEN_SIZE then event_sum (white_row nt i) us else 0)),
     acc_black = (\<lambda>i. acc_black e i + (if i < HIDDEN_SIZE then event_sum (black_row nt i) us else 0))\<rparr>"
  by (simp add: nnue_apply_def fun_eq_iff apply_lane_sum event_deltas_sum)

lemma nnue_apply_back:
  "nnue_apply (event_deltas nt True (filter (Not \<circ> u_is_put) us @ filter u_is_put us))
    (nnue_apply (event_deltas nt False us) e) = e"
proof -
  have parts: "event_sum row (filter (Not \<circ> u_is_put) us @ filter u_is_put us) = event_sum row us"
    for row :: "int \<Rightarrow> piece_type \<Rightarrow> color \<Rightarrow> 16 word"
    by (induction us) (simp_all add: event_sum_def algebra_simps)
  show ?thesis
    unfolding nnue_apply_events
    by (simp add: nnue_apply_def fun_eq_iff apply_lane_sum event_deltas_sum parts del: filter_append) 
qed

lemma eval_make_move_deltas:
  "eval_make_move nt m (e, p) = (move_events p m, nnue_apply (event_deltas nt False (move_events p m)) e, make_move m p)"
  by (simp add: eval_make_move_def event_deltas_def Let_def)

lemma eval_unmake_move_deltas:
  "eval_unmake_move nt us (e, p) =
    (nnue_apply (event_deltas nt True (filter (Not \<circ> u_is_put) us @ filter u_is_put us)) e, unmake_move p)"
  by (simp add: eval_unmake_move_def event_deltas_def Let_def comp_def cong: filter_cong)

section \<open>The permuted weight table\<close>

lemma copy_row_at:
  assumes "l < HIDDEN_SIZE"
  shows "copy_row src (s * HIDDEN_SIZE) (d * HIDDEN_SIZE) HIDDEN_SIZE dst (r * HIDDEN_SIZE + l) =
    (if r = d then src (s * HIDDEN_SIZE + l) else dst (r * HIDDEN_SIZE + l))"
proof -
  have "d * HIDDEN_SIZE \<le> r * HIDDEN_SIZE + l \<and> r * HIDDEN_SIZE + l < d * HIDDEN_SIZE + HIDDEN_SIZE \<longleftrightarrow> r = d"
    using assms unfolding HIDDEN_SIZE_def by auto
  then show ?thesis by (auto simp: copy_row_def)
qed

lemma permute_rows_at:
  assumes "l < HIDDEN_SIZE" "r < 2 * PAIRED_ROWS"
  shows "permute_rows src dst (r * HIDDEN_SIZE + l) =
    src ((if r mod 2 = 1 then other_half_source_row (r div 2) else r div 2) * HIDDEN_SIZE + l)"
proof -
  let ?step = "\<lambda>j dst. copy_row src (other_half_source_row j * HIDDEN_SIZE) ((2 * j + 1) * HIDDEN_SIZE) HIDDEN_SIZE
         (copy_row src (j * HIDDEN_SIZE) (2 * j * HIDDEN_SIZE) HIDDEN_SIZE dst)"
  have "fold ?step [0..<n] dst (r * HIDDEN_SIZE + l) = (if r < 2 * n then
      src ((if r mod 2 = 1 then other_half_source_row (r div 2) else r div 2) * HIDDEN_SIZE + l)
    else dst (r * HIDDEN_SIZE + l))" for n
  proof (induction n)
    case (Suc n)
    have step: "fold ?step [0..<Suc n] dst = ?step n (fold ?step [0..<n] dst)" by simp
    consider "r < 2 * n" | "r = 2 * n" | "r = 2 * n + 1" | "2 * n + 1 < r" by linarith
    then show ?case unfolding step copy_row_at [OF assms(1)] Suc.IH by cases auto
  qed simp
  then show ?thesis using assms(2) by (simp add: permute_rows_def)
qed

lemma init_perm_square_at:
  assumes "p < 768"
  shows "init_perm_square p = p div 2 mod 64 * 12 + p div 2 div 64 * 2 + p mod 2"
proof -
  have "fold (\<lambda>k perm. fold (\<lambda>half perm. perm(k * 2 + half := k mod 64 * 12 + k div 64 * 2 + half)) [0..<2] perm)
       [0..<n] (\<lambda>_. 0) p = (if p < 2 * n then p div 2 mod 64 * 12 + p div 2 div 64 * 2 + p mod 2 else 0)" for n
  proof (induction n)
    case (Suc n)
    let ?step = "\<lambda>k perm. fold (\<lambda>half perm. perm(k * 2 + half := k mod 64 * 12 + k div 64 * 2 + half)) [0..<2] perm"
    have two: "[0..<2] = [0, 1 :: nat]" by (simp add: upt_rec)
    have one: "?step k perm p = (if p = k * 2 + 1 then k mod 64 * 12 + k div 64 * 2 + 1
      else if p = k * 2 then k mod 64 * 12 + k div 64 * 2 else perm p)" for k perm
      unfolding two by simp
    have step: "fold ?step [0..<Suc n] (\<lambda>_. 0) = ?step n (fold ?step [0..<n] (\<lambda>_. 0))" by simp
    consider "p < 2 * n" | "p = 2 * n" | "p = 2 * n + 1" | "2 * n + 1 < p" by linarith
    then show ?case unfolding step one Suc.IH by cases auto
  qed simp
  then show ?thesis using assms by (simp add: init_perm_square_def)
qed

lemma pair_half_range:
  assumes "p < (768 :: nat)"
  shows "p div 2 div 64 * 2 + p mod 2 < 12"
proof -
  have "p div 2 div 64 < 6" "p mod 2 < 2" using assms by (simp_all add: less_mult_imp_div_less)
  then show ?thesis by linarith
qed

lemma init_perm_square_range:
  assumes "p < 768"
  shows "init_perm_square p < 768"
proof -
  have "p div 2 mod 64 < 64" by simp
  then show ?thesis using pair_half_range [OF assms] unfolding init_perm_square_at [OF assms] by linarith
qed

lemma init_perm_square_inj: "inj_on init_perm_square {..<768}"
proof (rule inj_onI)
  fix p q :: nat
  assume pq: "p \<in> {..<768}" "q \<in> {..<768}" and e: "init_perm_square p = init_perm_square q"
  have parts: "init_perm_square x div 12 = x div 2 mod 64" "init_perm_square x mod 12 div 2 = x div 2 div 64"
    "init_perm_square x mod 2 = x mod 2" if "x < 768" for x
  proof -
    let ?r = "x div 2 div 64 * 2 + x mod 2"
    have r: "?r < 12" by (rule pair_half_range [OF that])
    have v: "init_perm_square x = ?r + x div 2 mod 64 * 12" unfolding init_perm_square_at [OF that] by simp
    show "init_perm_square x div 12 = x div 2 mod 64" unfolding v using r by simp
    have "init_perm_square x mod 12 = ?r" unfolding v using r by simp
    then show "init_perm_square x mod 12 div 2 = x div 2 div 64" by simp
    have "init_perm_square x = x mod 2 + (x div 2 div 64 + x div 2 mod 64 * 6) * 2" unfolding v by simp
    then show "init_perm_square x mod 2 = x mod 2" by (simp only: mod_mult_self1 mod_mod_trivial)
  qed
  have lt: "p < 768" "q < 768" using pq by simp_all
  note P = parts [OF lt(1), unfolded e] and Q = parts [OF lt(2)]
  have "p div 2 mod 64 = q div 2 mod 64" by (rule trans [OF sym [OF P(1)] Q(1)])
  moreover have "p div 2 div 64 = q div 2 div 64" by (rule trans [OF sym [OF P(2)] Q(2)])
  moreover have "p mod 2 = q mod 2" by (rule trans [OF sym [OF P(3)] Q(3)])
  ultimately have "p div 2 div 64 * 64 + p div 2 mod 64 = q div 2 div 64 * 64 + q div 2 mod 64" by (simp only:)
  then have "p div 2 = q div 2" unfolding div_mult_mod_eq .
  then have "p div 2 * 2 + p mod 2 = q div 2 * 2 + q mod 2" using trans [OF sym [OF P(3)] Q(3)] by (simp only:)
  then show "p = q" unfolding div_mult_mod_eq .
qed

lemma reorder_rows_at:
  assumes "l < HIDDEN_SIZE" "inj_on f (set ks)" "k \<in> set ks"
  shows "fold (\<lambda>k tmp. copy_row a (k * HIDDEN_SIZE) (f k * HIDDEN_SIZE) HIDDEN_SIZE tmp) ks tmp (f k * HIDDEN_SIZE + l) =
    a (k * HIDDEN_SIZE + l)"
  using assms(2,3)
proof (induction ks rule: rev_induct)
  case (snoc x ks)
  show ?case
  proof (cases "k = x")
    case False
    then have "k \<in> set ks" "f k \<noteq> f x" using snoc.prems inj_onD [OF snoc.prems(1), of k x] by auto
    moreover have "inj_on f (set ks)" using snoc.prems(1) by simp
    ultimately show ?thesis using snoc.IH by (simp add: copy_row_at [OF assms(1)])
  qed (simp add: copy_row_at [OF assms(1)])
qed simp

lemma paired_at:
  assumes "l < HIDDEN_SIZE" "p < 768"
  shows "the (net_paired (ensure_init blob)) (init_perm_square p * HIDDEN_SIZE + l) =
    blob ((if p mod 2 = 1 then other_half_source_row (p div 2) else p div 2) * HIDDEN_SIZE + l)"
proof -
  let ?a = "permute_rows blob (\<lambda>_. 0)"
  have i: "init_perm_square p * HIDDEN_SIZE + l < 768 * HIDDEN_SIZE"
    using init_perm_square_range [OF assms(2)] assms(1) unfolding HIDDEN_SIZE_def by linarith
  have "reorder_by_square (\<lambda>_. 0) ?a (init_perm_square p * HIDDEN_SIZE + l) = ?a (p * HIDDEN_SIZE + l)"
  proof -
    have "reorder_by_square (\<lambda>_. 0) ?a (init_perm_square p * HIDDEN_SIZE + l) =
        fold (\<lambda>k tmp. copy_row ?a (k * HIDDEN_SIZE) (init_perm_square k * HIDDEN_SIZE) HIDDEN_SIZE tmp) [0..<768] (\<lambda>_. 0)
          (init_perm_square p * HIDDEN_SIZE + l)"
      using i unfolding reorder_by_square_def copy_row_def [of _ 0 0 "768 * HIDDEN_SIZE"] by simp
    also have "\<dots> = ?a (p * HIDDEN_SIZE + l)"
      by (rule reorder_rows_at [OF assms(1)]) (use init_perm_square_inj assms(2) in \<open>simp_all add: lessThan_atLeast0\<close>)
    finally show ?thesis .
  qed
  then show ?thesis using permute_rows_at [OF assms(1), of p] assms(2) by (simp add: ensure_init_def PAIRED_ROWS_def)
qed

section \<open>The output layer\<close>

lemma lane_output_bound: "\<bar>lane_output a w\<bar> \<le> 8355840"
proof -
  let ?input = "if sint a < 0 then 0 else if sint a > QA then QA else sint a"
  let ?weight = "signed_take_bit 15 (?input * sint w)"
  have i: "0 \<le> ?input" "?input \<le> 255" by (auto simp: QA_def)
  have "- (2 ^ 15) \<le> ?weight" "?weight < 2 ^ 15"
    by (rule signed_take_bit_int_greater_eq_minus_exp signed_take_bit_int_less_exp)+
  then have w: "\<bar>?weight\<bar> \<le> 32768" by simp
  have "\<bar>?input * ?weight\<bar> = ?input * \<bar>?weight\<bar>" using i(1) by (simp add: abs_mult)
  also have "\<dots> \<le> 255 * 32768" using i w by (intro mult_mono) simp_all
  finally show ?thesis by (simp add: lane_output_def Let_def)
qed

lemma output_dot_sum: "output_dot a w = Some (\<Sum>i<HIDDEN_SIZE. lane_output (a i) (w i))"
proof -
  let ?sum = "\<lambda>n. \<Sum>i<n. lane_output (a i) (w i)"
  have bound: "\<bar>?sum n\<bar> \<le> int n * 8355840" for n
  proof (induction n)
    case (Suc n)
    have "\<bar>?sum (Suc n)\<bar> \<le> \<bar>?sum n\<bar> + \<bar>lane_output (a n) (w n)\<bar>" by (simp add: abs_triangle_ineq)
    also have "\<dots> \<le> int n * 8355840 + 8355840" using Suc lane_output_bound [of "a n" "w n"] by linarith
    finally show ?case by (simp add: algebra_simps)
  qed simp
  have "fold (\<lambda>i output. Option.bind output (\<lambda>v. as_int (v + lane_output (a i) (w i)))) [0..<n] (Some 0) = Some (?sum n)"
    if "n \<le> 256" for n
    using that
  proof (induction n)
    case (Suc n)
    have "\<bar>?sum n + lane_output (a n) (w n)\<bar> \<le> 256 * 8355840"
      using bound [of "Suc n"] Suc.prems by (intro order.trans [OF bound [of "Suc n", simplified]]) simp
    then have "as_int (?sum n + lane_output (a n) (w n)) = Some (?sum n + lane_output (a n) (w n))"
      by (auto simp: as_int_def)
    then show ?case using Suc by simp
  qed simp
  then show ?thesis by (simp add: output_dot_def HIDDEN_SIZE_def)
qed

section \<open>Properties\<close>

lemma pieces_do_not_grow:
  assumes "pos_ok p" "eval_fits p m"
  shows "card (pieces (make_move m p)) \<le> card (pieces p)"
proof -
  let ?one = "\<lambda>s pt c. 1 :: int"
  have "event_sum ?one (move_events p m) \<le> 0"
    by (simp add: move_events_def Let_def split: move_type.split)
  then have "piece_sum ?one (make_move m p) \<le> piece_sum ?one p"
    using make_move_sum [OF assms, where row = ?one] by simp
  then show ?thesis by (simp add: piece_sum_def case_prod_unfold)
qed

lemma eval_make_move_fresh:
  assumes "game_ok p" "chess_move p (pos_side_to_move p) m" "card (pieces p) \<le> 32"
  shows "eval_make_move nt m (eval_set nt p, p) = (move_events p m, eval_set nt (make_move m p), make_move m p)"
    and "eval_unmake_move nt (move_events p m) (eval_set nt (make_move m p), make_move m p) = (eval_set nt p, p)"
    and "card (pieces (make_move m p)) \<le> 32"
proof -
  have ok: "pos_ok p" "board_ok p" "rights_ok p" "ep_ok p" using assms(1) by (simp_all add: game_ok_def pos_ok_def)
  have fits: "eval_fits p m" by (rule chess_move_eval_fits [OF ok(2-4) assms(2)])
  let ?q = "make_move m p" and ?us = "move_events p m"
  show small: "card (pieces ?q) \<le> 32" using pieces_do_not_grow [OF ok(1) fits] assms(3) by simp
  have fresh: "nnue_apply (event_deltas nt False ?us) (eval_set nt p) = eval_set nt ?q"
    unfolding nnue_apply_events eval_set_sums [OF assms(3)] eval_set_sums [OF small] lanes_for_def
      make_move_sum [OF ok(1) fits]
    by (simp add: fun_eq_iff)
  then show "eval_make_move nt m (eval_set nt p, p) = (?us, eval_set nt ?q, ?q)" by (simp add: eval_make_move_deltas)
  have "unmake_move ?q = p" using fits by (intro unmake_make_move ok(1)) (simp add: eval_fits_def)
  then show "eval_unmake_move nt ?us (eval_set nt ?q, ?q) = (eval_set nt p, p)"
    using nnue_apply_back [of nt ?us "eval_set nt p"] unfolding eval_unmake_move_deltas fresh by simp
qed

text \<open>C17 (equivalence). On a board of at most 32 pieces the accumulators after a legal move are the ones
  computed from scratch on the new position, for any weights, and \<open>unmake_move\<close> gives back accumulators
  and position bit for bit.\<close>

theorem incremental_evaluation_is_fresh:
  assumes "game_ok p" "m \<in> set (legal_move_list p)" "card (pieces p) \<le> 32"
  shows "\<exists>journal. eval_make_move nt m (eval_set nt p, p) = (journal, eval_set nt (make_move m p), make_move m p) \<and>
    eval_unmake_move nt journal (eval_set nt (make_move m p), make_move m p) = (eval_set nt p, p)"
  using eval_make_move_fresh(1,2) [OF assms(1) legal_move_fits(2) [OF assms(1,2)] assms(3)] by blast

theorem incremental_evaluation_is_fresh_witness:
  "\<exists>journal. eval_make_move (ensure_init word_of_nat) small_move (eval_set (ensure_init word_of_nat) small_game, small_game) =
    (journal, eval_set (ensure_init word_of_nat) (make_move small_move small_game), make_move small_move small_game)"
proof -
  have "pieces small_game \<subseteq> {(4, KING, WHITE), (60, KING, BLACK), (12, PAWN, WHITE)}"
    by (auto simp: pieces_def pawn_game_has on_board_def nat_eq_iff)
  then have "card (pieces small_game) \<le> card {(4 :: int, KING, WHITE), (60, KING, BLACK), (12, PAWN, WHITE)}"
    by (rule card_mono [rotated]) simp
  then have "card (pieces small_game) \<le> 32" by simp
  then show ?thesis using incremental_evaluation_is_fresh [OF small_ok(3) small_legal] by blast
qed

text \<open>The weight table that is paired by perspective and reordered by square at start-up gives
  every piece the rows the flat table has: its own row for its own side, and for the other side the row of
  the other colour on the flipped square.\<close>

theorem permuted_weights_are_the_flat_ones:
  assumes "on_board s" "i < HIDDEN_SIZE"
  shows "let d = (\<lambda>nt w. push_delta nt (pt_value pt) s w add); row = (\<lambda>r. blob (nat r * HIDDEN_SIZE + i)) in
    d_a (d (ensure_init blob) True) i = row (64 * pt_value pt + s) \<and>
    d_b (d (ensure_init blob) True) i = row (384 + 64 * pt_value pt + sq_flipped s) \<and>
    d_a (d (ensure_init blob) False) i = row (384 + 64 * pt_value pt + s) \<and>
    d_b (d (ensure_init blob) False) i = row (64 * pt_value pt + sq_flipped s) \<and>
    d_a (d \<lparr>net_blob = blob, net_paired = None\<rparr> w) i = d_a (d (ensure_init blob) w) i \<and>
    d_b (d \<lparr>net_blob = blob, net_paired = None\<rparr> w) i = d_b (d (ensure_init blob) w) i"
proof -
  have pt: "0 \<le> pt_value pt" "pt_value pt \<le> 5" by (cases pt; simp add: pt_value_def)+
  have key: "nat (64 * pt_value pt + u) < 384" "nat (64 * pt_value pt + u) mod 64 = nat u" if "on_board u" for u
  proof -
    show "nat (64 * pt_value pt + u) < 384" using that pt unfolding on_board_def by linarith
    have "nat (64 * pt_value pt + u) = nat u + nat (pt_value pt) * 64"
      using that pt by (simp add: on_board_def nat_add_distrib nat_mult_distrib)
    moreover have "nat u < 64" using that unfolding on_board_def by linarith
    ultimately show "nat (64 * pt_value pt + u) mod 64 = nat u" by simp
  qed
  have flip: "nat u XOR 56 = nat (sq_flipped u)" if "on_board u" for u
  proof -
    have "int (nat u XOR 56) = sq_flipped u" using that by (simp add: of_nat_xor_eq sq_flipped_def on_board_def)
    then show ?thesis by (metis nat_int)
  qed
  have other: "PAIRED_ROWS + nat (64 * pt_value pt + u) + (nat (64 * pt_value pt + u) mod 64 XOR 56) - nat (64 * pt_value pt + u) mod 64 =
      nat (384 + 64 * pt_value pt + sq_flipped u)" if "on_board u" for u
    using that sq_flipped_on_board [OF that] pt unfolding key(2) [OF that] flip [OF that] PAIRED_ROWS_def on_board_def
    by (simp add: nat_add_distrib nat_mult_distrib)
  obtain paired where paired: "net_paired (ensure_init blob) = Some paired" by (simp add: ensure_init_def)
  have at: "paired (init_perm_square (k * 2) * HIDDEN_SIZE + i) = blob (k * HIDDEN_SIZE + i)"
    "paired (init_perm_square (k * 2 + 1) * HIDDEN_SIZE + i) = blob (other_half_source_row k * HIDDEN_SIZE + i)" if "k < 384" for k
  proof -
    have h: "k * 2 < 768" "k * 2 + 1 < 768" using that by simp_all
    have e: "k * 2 mod 2 = 0" "k * 2 div 2 = k" "(k * 2 + 1) mod 2 = 1" "(k * 2 + 1) div 2 = k"
      "(0 = (1 :: nat)) = False" "((1 :: nat) = 1) = True" by presburger+
    show "paired (init_perm_square (k * 2) * HIDDEN_SIZE + i) = blob (k * HIDDEN_SIZE + i)"
      using paired_at [OF assms(2) h(1), of blob] unfolding e paired option.sel if_False .
    show "paired (init_perm_square (k * 2 + 1) * HIDDEN_SIZE + i) = blob (other_half_source_row k * HIDDEN_SIZE + i)"
      using paired_at [OF assms(2) h(2), of blob] unfolding e paired option.sel if_True .
  qed
  have o: "other_half_source_row (nat (64 * pt_value pt + u)) = nat (384 + 64 * pt_value pt + sq_flipped u)" if "on_board u" for u
    using other [OF that] by (simp only: other_half_source_row_def Let_def)
  note on = assms(1) and fl = sq_flipped_on_board [OF assms(1)]
  have loaded: "d_a (push_delta (ensure_init blob) (pt_value pt) s True add) i = blob (nat (64 * pt_value pt + s) * HIDDEN_SIZE + i)"
    "d_b (push_delta (ensure_init blob) (pt_value pt) s True add) i = blob (nat (384 + 64 * pt_value pt + sq_flipped s) * HIDDEN_SIZE + i)"
    "d_a (push_delta (ensure_init blob) (pt_value pt) s False add) i = blob (nat (384 + 64 * pt_value pt + s) * HIDDEN_SIZE + i)"
    "d_b (push_delta (ensure_init blob) (pt_value pt) s False add) i = blob (nat (64 * pt_value pt + sq_flipped s) * HIDDEN_SIZE + i)"
    using at [OF key(1) [OF on], unfolded o [OF on]] at [OF key(1) [OF fl], unfolded o [OF fl] sq_flipped_involution]
    by (simp_all only: push_delta_def paired Let_def option.case delta.simps if_True if_False sq_flipped_def [symmetric] add_0_right diff_zero
        diff_self_eq_0)
  have flat: "d_a (push_delta \<lparr>net_blob = blob, net_paired = None\<rparr> (pt_value pt) s True add) i = blob (nat (64 * pt_value pt + s) * HIDDEN_SIZE + i)"
    "d_b (push_delta \<lparr>net_blob = blob, net_paired = None\<rparr> (pt_value pt) s True add) i = blob (nat (384 + 64 * pt_value pt + sq_flipped s) * HIDDEN_SIZE + i)"
    "d_a (push_delta \<lparr>net_blob = blob, net_paired = None\<rparr> (pt_value pt) s False add) i = blob (nat (384 + 64 * pt_value pt + s) * HIDDEN_SIZE + i)"
    "d_b (push_delta \<lparr>net_blob = blob, net_paired = None\<rparr> (pt_value pt) s False add) i = blob (nat (64 * pt_value pt + sq_flipped s) * HIDDEN_SIZE + i)"
    using other [OF fl, unfolded sq_flipped_involution]
    by (simp_all only: push_delta_def net.simps Let_def option.case delta.simps if_True if_False sq_flipped_def [symmetric]
        feature_weights_def other [OF on] zero_neq_one refl)
  show ?thesis by (cases w) (simp_all only: Let_def loaded flat simp_thms)
qed

theorem permuted_weights_are_the_flat_ones_witness:
  "d_a (push_delta (ensure_init word_of_nat) (pt_value KNIGHT) 6 False True) 3 = word_of_nat (454 * HIDDEN_SIZE + 3)"
  using permuted_weights_are_the_flat_ones [of 6 3 KNIGHT True word_of_nat False]
  by (simp add: on_board_def HIDDEN_SIZE_def pt_value_def Let_def)

text \<open>C32 (bounds). The dot product of one perspective never overflows an \<open>int\<close>, whatever the weights, and
  an evaluation that the later steps define lies strictly inside the mate scores.\<close>

theorem evaluation_stays_below_mate:
  "output_dot acc w \<noteq> None \<and> (\<forall>v. nnue_evaluate nt e p = Some v \<longrightarrow> - max_non_mate \<le> v \<and> v \<le> max_non_mate)"
proof -
  have "net_evaluate nt us them = Some v \<Longrightarrow> - max_non_mate \<le> v \<and> v \<le> max_non_mate" for us them v
    by (auto simp: net_evaluate_def bind_eq_Some_conv max_non_mate_def)
  then show ?thesis by (auto simp: output_dot_sum nnue_evaluate_def eval_evaluate_def)
qed

theorem evaluation_stays_below_mate_witness:
  "\<exists>v. nnue_evaluate (ensure_init (\<lambda>_. 0)) (eval_set (ensure_init (\<lambda>_. 0)) small_game) small_game = Some v \<and>
    - max_non_mate \<le> v \<and> v \<le> max_non_mate"
proof -
  have "output_dot acc (output_weights (ensure_init (\<lambda>_. 0)) k) = Some 0" for acc k
    by (simp add: output_dot_sum lane_output_def output_weights_def ensure_init_def)
  then have "\<exists>v. nnue_evaluate (ensure_init (\<lambda>_. 0)) (eval_set (ensure_init (\<lambda>_. 0)) small_game) small_game = Some v"
    by (simp add: nnue_evaluate_def eval_evaluate_def net_evaluate_def as_int_def trunc_div_def output_bias_def ensure_init_def max_non_mate_def)
  then show ?thesis using evaluation_stays_below_mate by blast
qed

end
