(* ===== verification/Search_State.thy ===== *)
theory Search_State
  imports Fair_Play Eval_Correct
begin

text \<open>
  What the search works on: the statistics of \<open>stats.h\<close>, the search parameters of \<open>main.h\<close> and the move
  ordering, draw test and static exchange evaluation of \<open>search.cpp\<close>.  Counters wrap at their width, the
  history tables hold \<open>int16_t\<close> values, the stop flag, which other threads set, is read through an arbitrary
  sequence of answers.  Desktop build: the code under \<open>defined(ESP32)\<close> is left out.
\<close>

section \<open>Statistics\<close>

datatype stat = Nodes | Qnodes | N_standing_pat | N_draws | N_checkmate | N_stalemate
  | Alpha_distance | Beta_distance | N_alpha_distances | N_beta_distances | Asp_win_resizes
  | Tt_query | Tt_hit | Tt_store | Tt_invalid | Tt_cutoff | Qtt_store | N_null_move | N_null_move_hit
  | N_lmr | N_lmr_hit | N_static_eval | N_static_eval_hit | N_razor | N_futility_prune
  | N_moves_cutoff | Nmc_nodes | N_qmoves_cutoff | Nmc_qnodes | Syzygy_queries | Syzygy_query_hits | Large_stack

definition stat_width :: "stat \<Rightarrow> nat" where
  "stat_width s =
     (if s \<in> {N_moves_cutoff, Nmc_nodes, N_qmoves_cutoff, Nmc_qnodes, Syzygy_queries, Syzygy_query_hits} then 64 else 32)"

record chess_stats =
  cs_data :: "stat \<Rightarrow> nat"
  cs_win :: "color \<Rightarrow> 32 word"
  cs_draw :: "32 word"

definition stats_reset :: "chess_stats \<Rightarrow> chess_stats" where
  "stats_reset c = c\<lparr>cs_data := (\<lambda>_. 0)\<rparr>"

definition stats_reset_wdl :: "chess_stats \<Rightarrow> chess_stats" where
  "stats_reset_wdl c = c\<lparr>cs_win := (\<lambda>_. 0), cs_draw := 0\<rparr>"

text \<open>\<open>add\<close> names the counters it sums; the aspiration distances, \<open>n_razor\<close> and the tablebase counters are
  not among them.\<close>

definition added_stats :: "stat set" where
  "added_stats = {Nodes, Qnodes, N_draws, N_standing_pat, N_checkmate, N_stalemate, Asp_win_resizes,
     Tt_query, Tt_hit, Tt_store, Tt_cutoff, Tt_invalid, Qtt_store, N_null_move, N_null_move_hit, N_lmr, N_lmr_hit,
     N_static_eval, N_static_eval_hit, N_futility_prune, N_moves_cutoff, Nmc_nodes, N_qmoves_cutoff, Nmc_qnodes,
     Large_stack}"

definition stats_add :: "chess_stats \<Rightarrow> chess_stats \<Rightarrow> chess_stats" where
  "stats_add source c =
     c\<lparr>cs_data := (\<lambda>s. if s \<in> added_stats then (cs_data c s + cs_data source s) mod 2 ^ stat_width s else cs_data c s)\<rparr>"

section \<open>Search parameters\<close>

definition n_search_scratch_levels :: int where
  "n_search_scratch_levels = 64"

definition n_qs_scratch_levels :: int where
  "n_qs_scratch_levels = 24"

definition history_size :: int where "history_size = 2 * 6 * 64"
definition capture_history_size :: int where "capture_history_size = 12 * 64 * 6"
definition butterfly_history_size :: int where "butterfly_history_size = 2 * 64 * 64"
definition cont_history_size :: int where "cont_history_size = 64 * 64"

text \<open>The move list and scores of a level are rewritten on entry to a node; \<open>scr_fills\<close> counts the times, so that
  a node can tell that another one has taken its buffers over.\<close>

record node_scratch =
  scr_fills :: nat
  scr_pv :: "move list"

text \<open>\<open>sp_stop\<close> answers the reads of the stop flag, \<open>sp_reads\<close> is the number of reads so far.  The transposition
  table, a global of the source, is the field \<open>sp_tt\<close>.  \<open>sp_asserts\<close> tells whether every assertion of the history updates has
  held so far.\<close>

record search_pars =
  sp_history :: "int list"
  sp_capture_history :: "int list option"
  sp_butterfly_history :: "int list option"
  sp_cont_history :: "int list option"
  sp_stop :: "nat \<Rightarrow> bool"
  sp_reads :: nat
  sp_thread_nr :: int
  sp_cs :: chess_stats
  sp_cur_move :: move
  sp_md :: "16 word"
  sp_pos :: position
  sp_best_moves :: "move list"
  sp_nnue_eval :: eval
  sp_scratch :: "int \<Rightarrow> node_scratch"
  sp_tt :: tt
  sp_asserts :: bool

definition bump_by :: "nat \<Rightarrow> stat \<Rightarrow> search_pars \<Rightarrow> search_pars" where
  "bump_by k s sp =
     sp\<lparr>sp_cs := (sp_cs sp)\<lparr>cs_data := (cs_data (sp_cs sp))(s := (cs_data (sp_cs sp) s + k) mod 2 ^ stat_width s)\<rparr>\<rparr>"

abbreviation bump :: "stat \<Rightarrow> search_pars \<Rightarrow> search_pars" where
  "bump \<equiv> bump_by 1"

definition bump_win :: "color \<Rightarrow> search_pars \<Rightarrow> search_pars" where
  "bump_win c sp = sp\<lparr>sp_cs := (sp_cs sp)\<lparr>cs_win := (cs_win (sp_cs sp))(c := cs_win (sp_cs sp) c + 1)\<rparr>\<rparr>"

definition bump_draw :: "search_pars \<Rightarrow> search_pars" where
  "bump_draw sp = sp\<lparr>sp_cs := (sp_cs sp)\<lparr>cs_draw := cs_draw (sp_cs sp) + 1\<rparr>\<rparr>"

definition read_stop :: "search_pars \<Rightarrow> bool \<times> search_pars" where
  "read_stop sp = (sp_stop sp (sp_reads sp), sp\<lparr>sp_reads := sp_reads sp + 1\<rparr>)"

text \<open>The static evaluation; \<open>nnue_evaluate\<close> is \<open>None\<close> only where the source overflows an \<open>int\<close>.\<close>

definition static_eval :: "net \<Rightarrow> search_pars \<Rightarrow> int" where
  "static_eval nt sp = the (nnue_evaluate nt (sp_nnue_eval sp) (sp_pos sp))"

section \<open>History tables\<close>

definition history_index :: "color \<Rightarrow> piece_type \<Rightarrow> int \<Rightarrow> int" where
  "history_index side from_type sq = color_value side * 6 * 64 + pt_value from_type * 64 + sq"

definition capture_history_index :: "color \<Rightarrow> piece_type \<Rightarrow> int \<Rightarrow> piece_type \<Rightarrow> int" where
  "capture_history_index side pt to captured =
     (let piece = color_value side * 6 + pt_value pt in piece * 64 * 6 + to * 6 + pt_value captured)"

definition butterfly_history_index :: "color \<Rightarrow> int \<Rightarrow> int \<Rightarrow> int" where
  "butterfly_history_index side from to = color_value side * 64 * 64 + from * 64 + to"

definition cont_history_index :: "int \<Rightarrow> int \<Rightarrow> int" where
  "cont_history_index prev_to curr_to = prev_to * 64 + curr_to"

text \<open>The common step of the four updates: the sum is stored in an \<open>int16_t\<close>, after two assertions that it fits.  An index
  outside the table is no access of the model's list, and asserts nothing.\<close>

definition gravity_sum :: "int \<Rightarrow> int \<Rightarrow> int" where
  "gravity_sum h bonus =
     (let max_history = 1023; min_history = - max_history;
          clamped_bonus = max min_history (min max_history bonus);
          final_value = clamped_bonus - trunc_div (h * \<bar>clamped_bonus\<bar>) max_history
      in h + final_value)"

definition gravity :: "int \<Rightarrow> int \<Rightarrow> int" where
  "gravity h bonus = signed_take_bit 15 (gravity_sum h bonus)"

definition update_asserts :: "int \<Rightarrow> int \<Rightarrow> int list \<Rightarrow> bool" where
  "update_asserts index bonus t \<longleftrightarrow>
     (nat index < length t \<longrightarrow> gravity_sum (t ! nat index) bonus \<le> 32767 \<and> gravity_sum (t ! nat index) bonus \<ge> -32768)"

definition update_history :: "int \<Rightarrow> int \<Rightarrow> search_pars \<Rightarrow> search_pars" where
  "update_history index bonus sp =
     sp\<lparr>sp_asserts := sp_asserts sp \<and> update_asserts index bonus (sp_history sp),
        sp_history := (sp_history sp)[nat index := gravity (sp_history sp ! nat index) bonus]\<rparr>"

definition update_capture_history :: "int \<Rightarrow> int \<Rightarrow> search_pars \<Rightarrow> search_pars" where
  "update_capture_history index bonus sp =
     sp\<lparr>sp_asserts := sp_asserts sp \<and> pred_option (update_asserts index bonus) (sp_capture_history sp),
        sp_capture_history := map_option (\<lambda>t. t[nat index := gravity (t ! nat index) bonus]) (sp_capture_history sp)\<rparr>"

definition update_butterfly_history :: "int \<Rightarrow> int \<Rightarrow> search_pars \<Rightarrow> search_pars" where
  "update_butterfly_history index bonus sp =
     sp\<lparr>sp_asserts := sp_asserts sp \<and> pred_option (update_asserts index bonus) (sp_butterfly_history sp),
        sp_butterfly_history := map_option (\<lambda>t. t[nat index := gravity (t ! nat index) bonus]) (sp_butterfly_history sp)\<rparr>"

definition update_cont_history :: "int \<Rightarrow> int \<Rightarrow> search_pars \<Rightarrow> search_pars" where
  "update_cont_history index bonus sp =
     sp\<lparr>sp_asserts := sp_asserts sp \<and> pred_option (update_asserts index bonus) (sp_cont_history sp),
        sp_cont_history := map_option (\<lambda>t. t[nat index := gravity (t ! nat index) bonus]) (sp_cont_history sp)\<rparr>"

section \<open>Move ordering\<close>

text \<open>The score of a move: \<open>first_moves\<close> in front, then captures and promotions by victim and attacker, then
  quiet moves by their histories.\<close>

definition capture_type :: "position \<Rightarrow> move \<Rightarrow> piece_type" where
  "capture_type p m =
     (if move_type m = ENPASSANT then PAWN
      else case piece_on p (to_square m) of Some pc \<Rightarrow> p_type pc | None \<Rightarrow> PAWN)"

definition capture_score :: "search_pars \<Rightarrow> piece_type \<Rightarrow> move \<Rightarrow> int" where
  "capture_score sp from_type m =
     (let p = sp_pos sp;
          victim = (if move_type m = ENPASSANT then pt_value PAWN * 2 ^ 19
                    else case piece_on p (to_square m) of Some pc \<Rightarrow> pt_value (p_type pc) * 2 ^ 19 | None \<Rightarrow> 0);
          attacker = (if from_type \<noteq> KING then (pt_value QUEEN - pt_value from_type) * 2 ^ 8 else 0);
          idx = capture_history_index (pos_side_to_move p) from_type (to_square m) (capture_type p m);
          learned = (case sp_capture_history sp of
              Some t \<Rightarrow> if 0 \<le> idx \<and> idx < capture_history_size then t ! nat idx * 16 else 0
            | None \<Rightarrow> 0)
      in victim + attacker + learned)"

definition quiet_score :: "search_pars \<Rightarrow> piece_type \<Rightarrow> move \<Rightarrow> int" where
  "quiet_score sp from_type m =
     (let p = sp_pos sp; stm = pos_side_to_move p;
          bf_idx = butterfly_history_index stm (from_square m) (to_square m)
      in sp_history sp ! nat (history_index stm from_type (to_square m))
         + (case sp_butterfly_history sp of
              Some t \<Rightarrow> if 0 \<le> bf_idx \<and> bf_idx < butterfly_history_size then t ! nat bf_idx else 0
            | None \<Rightarrow> 0)
         + (case (previous_move p, sp_cont_history sp) of
              (Some prev, Some t) \<Rightarrow>
                let c_idx = cont_history_index (to_square prev) (to_square m)
                in if 0 \<le> c_idx \<and> c_idx < cont_history_size then t ! nat c_idx else 0
            | _ \<Rightarrow> 0))"

definition move_evaluater :: "search_pars \<Rightarrow> move list \<Rightarrow> move \<Rightarrow> int" where
  "move_evaluater sp first_moves m =
     (case find (\<lambda>i. move_eq m (first_moves ! i)) [0..<length first_moves] of
        Some i \<Rightarrow> 2 ^ 31 - 1 - int i
      | None \<Rightarrow>
          (case piece_on (sp_pos sp) (from_square m) of
             None \<Rightarrow> 0
           | Some pf \<Rightarrow>
               let from_type = p_type pf;
                   promo = (if is_promotion_move m then pt_value (the (promotion_piece_type m)) * 2 ^ 19 else 0)
               in promo + (if is_capture_move m then capture_score sp from_type m else quiet_score sp from_type m)))"

text \<open>The selection both searches share: the first maximum of the scores from \<open>m_idx\<close> on is swapped to \<open>m_idx\<close>.\<close>

definition selected_idx :: "int list \<Rightarrow> nat \<Rightarrow> nat \<Rightarrow> nat" where
  "selected_idx scores m_idx n_moves = fold (\<lambda>i s. if scores ! i > scores ! s then i else s) [m_idx..<n_moves] m_idx"

definition swap_at :: "nat \<Rightarrow> nat \<Rightarrow> 'a list \<Rightarrow> 'a list" where
  "swap_at i j xs = xs[i := xs ! j, j := xs ! i]"

definition select_move :: "nat \<Rightarrow> nat \<Rightarrow> int list \<times> move list \<Rightarrow> int list \<times> move list" where
  "select_move m_idx n_moves = (\<lambda>(scores, ml).
     let s = selected_idx scores m_idx n_moves in (swap_at s m_idx scores, swap_at s m_idx ml))"

section \<open>Tests on a position\<close>

definition str_to_move :: "position \<Rightarrow> string \<Rightarrow> move option" where
  "str_to_move p m =
     (case move_from_str m of
        None \<Rightarrow> None
      | Some m_obj \<Rightarrow>
          if move_type m_obj \<noteq> NONE then Some m_obj
          else find (\<lambda>m_compare. move_eq m_compare m_obj) (legal_move_list p))"

definition is_check :: "position \<Rightarrow> bool" where
  "is_check p \<longleftrightarrow> attackers_to_of p (forward_bitscan (piece_type_color_bb p KING (opp (pos_side_to_move p))))
     (pos_side_to_move p) \<noteq> 0"

definition white_squares :: bitboard where "white_squares = 0x55aa55aa55aa55aa"
definition black_squares :: bitboard where "black_squares = 0xaa55aa55aa55aa55"

definition is_insufficient_material_draw :: "position \<Rightarrow> bool" where
  "is_insufficient_material_draw p =
     (let bb = piece_type_color_bb p in
      if pos_piece_bb p PAWN \<noteq> 0 \<or> pos_piece_bb p QUEEN \<noteq> 0 \<or> pos_piece_bb p ROOK \<noteq> 0 then False
      else if bb KNIGHT WHITE \<noteq> 0 \<and> bb BISHOP WHITE \<noteq> 0 \<or> bb KNIGHT BLACK \<noteq> 0 \<and> bb BISHOP BLACK \<noteq> 0 then False
      else if popcount (bb KNIGHT WHITE) \<ge> 2 \<or> popcount (bb KNIGHT BLACK) \<ge> 2 then False
      else if bb BISHOP WHITE \<noteq> 0 \<and> (bb KNIGHT BLACK \<noteq> 0 \<or> bb PAWN BLACK \<noteq> 0)
        \<or> bb BISHOP BLACK \<noteq> 0 \<and> (bb KNIGHT WHITE \<noteq> 0 \<or> bb PAWN WHITE \<noteq> 0) then False
      else if (bb ROOK WHITE \<noteq> 0 \<or> bb BISHOP WHITE \<noteq> 0 \<or> bb KNIGHT WHITE \<noteq> 0 \<or> bb PAWN WHITE \<noteq> 0) \<and> bb KNIGHT BLACK \<noteq> 0
        \<or> (bb ROOK BLACK \<noteq> 0 \<or> bb BISHOP BLACK \<noteq> 0 \<or> bb KNIGHT BLACK \<noteq> 0 \<or> bb PAWN BLACK \<noteq> 0) \<and> bb KNIGHT WHITE \<noteq> 0
        then False
      else if pos_piece_bb p BISHOP AND black_squares \<noteq> 0 \<and> pos_piece_bb p BISHOP AND white_squares \<noteq> 0 then False
      else True)"

definition gen_qs_moves_into :: "position \<Rightarrow> move_list" where
  "gen_qs_moves_into p =
     (let side = pos_side_to_move p in
      if checkers_to p side \<noteq> 0 then pseudo_legal_move_list p
      else generate_promotions p side @ generate_capture_moves p side)"

section \<open>Static exchange evaluation\<close>

definition piece_values :: "int list" where
  "piece_values = [100, 320, 330, 500, 900, 20000]"

definition piece_value_of :: "piece_type \<Rightarrow> int" where
  "piece_value_of pt = piece_values ! nat (pt_value pt)"

definition least_attacker :: "position \<Rightarrow> bitboard \<Rightarrow> piece_type \<times> int" where
  "least_attacker p mine =
     (case find (\<lambda>pt. mine AND pos_piece_bb p pt \<noteq> 0) PIECE_TYPES of
        Some pt \<Rightarrow> (pt, forward_bitscan (mine AND pos_piece_bb p pt))
      | None \<Rightarrow> (KING, 0))"

function see_rec :: "position \<Rightarrow> bitboard \<Rightarrow> int \<Rightarrow> color \<Rightarrow> int \<Rightarrow> int \<Rightarrow> int" where
  "see_rec p occ to stm captured depth =
     (if depth > 31 then 0
      else let attackers = attackers_to_occ p to occ AND occ; mine = attackers AND pos_color_bb p stm in
        if mine = 0 then 0
        else let (pt, from) = least_attacker p mine in
          if pt = KING then
            let after = occ XOR square_bb from in
            if attackers_to_occ p to after AND pos_color_bb p (opp stm) AND after \<noteq> 0 then 0 else captured
          else max 0 (captured - see_rec p (occ XOR square_bb from) to (opp stm) (piece_value_of pt) (depth + 1)))"
  by pat_completeness auto
termination by (relation "measure (\<lambda>(_, _, _, _, _, depth). nat (32 - depth))") auto

declare see_rec.simps [simp del]

definition see :: "position \<Rightarrow> move \<Rightarrow> int" where
  "see p m =
     (if \<not> is_capture_move m \<and> piece_type_on p (to_square m) = None then
        (case promotion_piece_type m of None \<Rightarrow> 0 | Some pt \<Rightarrow> piece_value_of pt - piece_values ! 0)
      else
        let captured_value = (case piece_type_on p (to_square m) of None \<Rightarrow> 100 | Some pt \<Rightarrow> piece_value_of pt);
            moving_value = (case promotion_piece_type m of
                None \<Rightarrow> piece_value_of (the (piece_type_on p (from_square m)))
              | Some pt \<Rightarrow> piece_value_of pt);
            occ = occupancy_bb p XOR square_bb (from_square m);
            occ = (if move_type m = ENPASSANT
                   then occ XOR square_bb (to_square m + (if pos_side_to_move p = WHITE then -8 else 8)) else occ)
        in captured_value - see_rec p occ (to_square m) (opp (pos_side_to_move p)) moving_value 0)"

end
