(* ===== verification/Quiescence.thy ===== *)
theory Quiescence
  imports Search_State
begin

text \<open>
  The quiescence search \<open>qs\<close> of \<open>search.cpp\<close>.  A node is a function of the search that plays its
  children, so the recursion, which goes one ply deeper each time and ends at depth 127, is fuel that counts
  down from there; \<open>qs_unfold\<close> is the equation of the source.  The move and score buffers of a level are
  filled before they are read and deeper levels use others, so here they are local.
\<close>

section \<open>Making a move in the search\<close>

definition sp_make_move :: "net \<Rightarrow> move \<Rightarrow> search_pars \<Rightarrow> undo list \<times> search_pars" where
  "sp_make_move nt m sp =
     (let (undo_actions, e, p) = eval_make_move nt m (sp_nnue_eval sp, sp_pos sp)
      in (undo_actions, sp\<lparr>sp_nnue_eval := e, sp_pos := p\<rparr>))"

definition sp_unmake_move :: "net \<Rightarrow> undo list \<Rightarrow> search_pars \<Rightarrow> search_pars" where
  "sp_unmake_move nt undo_actions sp =
     (let (e, p) = eval_unmake_move nt undo_actions (sp_nnue_eval sp, sp_pos sp)
      in sp\<lparr>sp_nnue_eval := e, sp_pos := p\<rparr>)"

section \<open>Nodes\<close>

text \<open>\<open>searcher\<close>: alpha, beta, depth and the parameters to the score and the parameters afterwards.\<close>

type_synonym searcher = "int \<Rightarrow> int \<Rightarrow> int \<Rightarrow> search_pars \<Rightarrow> int \<times> search_pars"

definition is_drawn :: "position \<Rightarrow> bool" where
  "is_drawn p \<longleftrightarrow> halfmoves p \<ge> 100 \<or> is_repeat p 1 \<or> is_insufficient_material_draw p"

definition qs_draw :: "int \<Rightarrow> search_pars \<Rightarrow> int \<times> search_pars" where
  "qs_draw qsdepth sp =
     (if in_check (sp_pos sp) \<and> legal_move_list (sp_pos sp) = []
      then (- max_eval + qsdepth, bump N_checkmate (bump_win (opp (pos_side_to_move (sp_pos sp))) sp))
      else (0, bump_draw sp))"

record qs_state =
  qs_scores :: "int list"
  qs_ml :: "move list"
  qs_n_played :: int
  qs_best :: int
  qs_m :: "move option"
  qs_alpha :: int

text \<open>The loop over the moves; \<open>k\<close> of the \<open>n_moves\<close> moves are left.\<close>

primrec qs_loop :: "searcher \<Rightarrow> net \<Rightarrow> bitboard \<Rightarrow> int \<Rightarrow> int \<Rightarrow> nat \<Rightarrow> nat \<Rightarrow> qs_state \<Rightarrow> search_pars \<Rightarrow> qs_state \<times> search_pars"
where
  "qs_loop rec nt pinned beta qsdepth n_moves 0 st sp = (st, sp)"
| "qs_loop rec nt pinned beta qsdepth n_moves (Suc k) st sp =
     (let m_idx = n_moves - Suc k;
          (scores, ml) = select_move m_idx n_moves (qs_scores st, qs_ml st);
          st = st\<lparr>qs_scores := scores, qs_ml := ml\<rparr>;
          move = ml ! m_idx
      in if scores ! m_idx < 0 \<and> \<not> in_check (sp_pos sp) then qs_loop rec nt pinned beta qsdepth n_moves k st sp
         else if \<not> is_legal_generated_move_pinned (sp_pos sp) move pinned
           then qs_loop rec nt pinned beta qsdepth n_moves k st sp
         else
           let st = st\<lparr>qs_n_played := qs_n_played st + 1\<rparr>;
               (undo_actions, sp) = sp_make_move nt move sp;
               (child, sp) = rec (- beta) (- qs_alpha st) (qsdepth + 1) sp;
               score = - child;
               sp = sp_unmake_move nt undo_actions sp
           in if score > qs_best st \<and> score > qs_alpha st \<and> score \<ge> beta then
                (st\<lparr>qs_best := score, qs_m := Some move\<rparr>, bump Nmc_qnodes (bump_by (nat (qs_n_played st)) N_qmoves_cutoff sp))
              else
                let st = (if score > qs_best st
                          then st\<lparr>qs_best := score, qs_m := Some move, qs_alpha := (if score > qs_alpha st then score else qs_alpha st)\<rparr>
                          else st)
                in if qs_n_played st \<ge> 3 \<and> qs_best st \<ge> max_non_mate then (st, sp)
                   else qs_loop rec nt pinned beta qsdepth n_moves k st sp)"

text \<open>The store at the end of a node, unless the search has been stopped.\<close>

definition bound_flag :: "int \<Rightarrow> int \<Rightarrow> int \<Rightarrow> tt_entry_flag" where
  "bound_flag start_alpha beta best_score =
     (if best_score \<le> start_alpha then UPPERBOUND else if best_score \<ge> beta then LOWERBOUND else EXACT)"

definition tt_put :: "64 word \<Rightarrow> tt_entry_flag \<Rightarrow> int \<Rightarrow> int \<Rightarrow> move option \<Rightarrow> search_pars \<Rightarrow> search_pars" where
  "tt_put hash flag d score m sp =
     sp\<lparr>sp_tt := (case m of Some m \<Rightarrow> tt_store_move hash flag d score m (sp_tt sp) | None \<Rightarrow> tt_store hash flag d score (sp_tt sp))\<rparr>"

definition qs_store :: "64 word \<Rightarrow> int \<Rightarrow> int \<Rightarrow> int \<Rightarrow> int \<Rightarrow> move option \<Rightarrow> search_pars \<Rightarrow> search_pars" where
  "qs_store hash start_alpha beta qsdepth best_score m sp =
     (let (stopped, sp) = read_stop sp in
      if stopped then sp
      else tt_put hash (bound_flag start_alpha beta best_score) 0 (eval_to_tt best_score qsdepth)
             (if best_score > start_alpha then m else None) (bump Qtt_store sp))"

text \<open>No move was played: checkmate, or the standing pat stays.\<close>

definition qs_finish :: "net \<Rightarrow> int \<Rightarrow> bool \<Rightarrow> qs_state \<Rightarrow> search_pars \<Rightarrow> int \<times> search_pars" where
  "qs_finish nt qsdepth chk st sp =
     (if qs_n_played st = 0 then
        if chk then (- max_eval + qsdepth, bump_win (opp (pos_side_to_move (sp_pos sp))) (bump N_checkmate sp))
        else if qs_best st = -32767 then (static_eval nt sp, sp)
        else (qs_best st, sp)
      else (qs_best st, sp))"

definition qs_node :: "searcher \<Rightarrow> net \<Rightarrow> searcher" where
  "qs_node rec nt alpha beta qsdepth sp =
     (let sp = bump Qnodes sp; sp = sp\<lparr>sp_md := max (sp_md sp) (word_of_int qsdepth)\<rparr> in
      if is_drawn (sp_pos sp) then qs_draw qsdepth sp
      else
        let start_alpha = alpha; hash = pos_hash (sp_pos sp); in_check = in_check (sp_pos sp);
            best_score = (if in_check then -32767 else static_eval nt sp)
        in if \<not> in_check \<and> best_score > alpha \<and> best_score \<ge> beta then (best_score, bump N_standing_pat sp)
        else
          let alpha = (if in_check then alpha else max alpha best_score);
              move_list = gen_qs_moves_into (sp_pos sp); n_moves = length move_list;
              pinned = pinned_pieces_of (sp_pos sp) (pos_side_to_move (sp_pos sp));
              move_scores = map (see (sp_pos sp)) move_list;
              (st, sp) = qs_loop rec nt pinned beta qsdepth n_moves n_moves
                \<lparr>qs_scores = move_scores, qs_ml = move_list, qs_n_played = 0, qs_best = best_score, qs_m = None,
                 qs_alpha = alpha\<rparr> sp;
              (best_score, sp) = qs_finish nt qsdepth in_check st sp
          in (best_score, qs_store hash start_alpha beta qsdepth best_score (qs_m st) sp))"

primrec qs_rec :: "net \<Rightarrow> nat \<Rightarrow> searcher" where
  "qs_rec nt 0 = (\<lambda>alpha beta qsdepth sp. (static_eval nt sp, sp))"
| "qs_rec nt (Suc n) = qs_node (qs_rec nt n) nt"

definition qs :: "net \<Rightarrow> searcher" where
  "qs nt alpha beta qsdepth sp = qs_rec nt (nat (127 - qsdepth)) alpha beta qsdepth sp"

section \<open>The recursion of the source\<close>

text \<open>A node only asks its child searcher for the next depth.\<close>

lemma qs_loop_cong:
  assumes "\<And>a b sp. rec a b (qsdepth + 1) sp = rec' a b (qsdepth + 1) sp"
  shows "qs_loop rec nt pinned beta qsdepth n k st sp = qs_loop rec' nt pinned beta qsdepth n k st sp"
  by (induction k arbitrary: st sp) (simp_all add: assms Let_def case_prod_unfold)

lemma qs_unfold:
  "qs nt alpha beta qsdepth sp =
     (if qsdepth \<ge> 127 then (static_eval nt sp, sp) else qs_node (qs nt) nt alpha beta qsdepth sp)"
proof (cases "qsdepth \<ge> 127")
  case False
  then have "nat (127 - qsdepth) = Suc (nat (127 - (qsdepth + 1)))" by simp
  then have "qs nt alpha beta qsdepth sp = qs_node (qs_rec nt (nat (127 - (qsdepth + 1)))) nt alpha beta qsdepth sp"
    by (simp add: qs_def)
  also have "\<dots> = qs_node (qs nt) nt alpha beta qsdepth sp"
    unfolding qs_node_def Let_def by (subst qs_loop_cong [where rec' = "qs nt"]) (simp_all add: qs_def)
  finally show ?thesis using False by simp
qed (simp add: qs_def)

section \<open>What the bookkeeping leaves alone\<close>

lemma bookkeeping [simp]:
  "sp_pos (bump_by k s sp) = sp_pos sp" "sp_nnue_eval (bump_by k s sp) = sp_nnue_eval sp"
  "sp_pos (bump_win c sp) = sp_pos sp" "sp_nnue_eval (bump_win c sp) = sp_nnue_eval sp"
  "sp_pos (bump_draw sp) = sp_pos sp" "sp_nnue_eval (bump_draw sp) = sp_nnue_eval sp"
  "sp_pos (snd (read_stop sp)) = sp_pos sp" "sp_nnue_eval (snd (read_stop sp)) = sp_nnue_eval sp"
  "sp_pos (tt_put h f d v m sp) = sp_pos sp" "sp_nnue_eval (tt_put h f d v m sp) = sp_nnue_eval sp"
  "sp_pos (qs_store h a b d v m sp) = sp_pos sp" "sp_nnue_eval (qs_store h a b d v m sp) = sp_nnue_eval sp"
  by (simp_all add: bump_by_def bump_win_def bump_draw_def read_stop_def tt_put_def qs_store_def Let_def case_prod_unfold)

end
