(* ===== verification/Search.thy ===== *)
theory Search
  imports Quiescence Lmr_Table
begin

text \<open>
  The alpha-beta search \<open>search\<close> of \<open>search.cpp\<close>.  Its extensions keep the depth, so no measure of the
  arguments goes down along every line of play: a node is a function of the search that plays its children
  and the recursion has fuel, the number of nested calls.  Running out of it is a fault of its own.  From
  level 63 on a node shares its move buffer with its children; one that finds its buffer refilled under its
  loop has no defined behaviour, the other fault.
\<close>

section \<open>Outcomes\<close>

datatype fault = Out_of_fuel | Buffers_overwritten | No_legal_move

definition and_then :: "fault + 'a \<Rightarrow> ('a \<Rightarrow> fault + 'b) \<Rightarrow> fault + 'b" where
  "and_then r f = (case r of Inl e \<Rightarrow> Inl e | Inr x \<Rightarrow> f x)"

lemma and_then_simps [simp]: "and_then (Inl e) f = Inl e" "and_then (Inr x) f = f x"
  by (simp_all add: and_then_def)

lemma and_then_Inr: "and_then r f = Inr y \<longleftrightarrow> (\<exists>x. r = Inr x \<and> f x = Inr y)"
  by (cases r) simp_all

text \<open>Depth, alpha, beta, null move depth, level, the move behind the pointer and the parameters to the score,
  the move left behind the pointer and the parameters.\<close>

type_synonym result = "int \<times> move \<times> search_pars"
type_synonym node_search = "int \<Rightarrow> int \<Rightarrow> int \<Rightarrow> int \<Rightarrow> int \<Rightarrow> move \<Rightarrow> search_pars \<Rightarrow> fault + result"

text \<open>The endgame tablebases, read by a library: whether they are on, the largest number of pieces they hold
  and what a probe answers.\<close>

record tablebases =
  with_syzygy :: bool
  TB_LARGEST :: int
  probe_fathom_nonroot :: "position \<Rightarrow> int option"

section \<open>Before the moves\<close>

definition search_drawn :: "position \<Rightarrow> bool" where
  "search_drawn p \<longleftrightarrow> is_repeat p 1 \<or> halfmoves p > 100 \<or> is_insufficient_material_draw p"

definition search_draw :: "int \<Rightarrow> search_pars \<Rightarrow> int \<times> search_pars" where
  "search_draw csd sp =
     (if in_check (sp_pos sp) \<and> legal_move_list (sp_pos sp) = []
      then (- max_eval + csd, bump N_checkmate (bump_win (opp (pos_side_to_move (sp_pos sp))) sp))
      else (0, bump N_draws (bump_draw sp)))"

definition tt_query :: "64 word \<Rightarrow> search_pars \<Rightarrow> tt_entry option \<times> search_pars" where
  "tt_query hash sp = (let (te, t) = tt_lookup hash (sp_tt sp) in (te, bump Tt_query (sp\<lparr>sp_tt := t\<rparr>)))"

text \<open>The move of an entry, if the position allows it.\<close>

definition tt_hit :: "tt_entry option \<Rightarrow> search_pars \<Rightarrow> move option \<times> search_pars" where
  "tt_hit te sp =
     (case te of
        None \<Rightarrow> (None, sp)
      | Some e \<Rightarrow>
          let sp = bump Tt_hit sp in
          if e_M e \<noteq> 0 then
            let tt_move = uint_to_libchessmove (ucast (e_M e))
            in if is_legal_move (sp_pos sp) tt_move then (Some tt_move, sp) else (None, bump Tt_invalid sp)
          else (None, sp))"

text \<open>The score of an entry deep enough to use, in a null window.\<close>

definition tt_score :: "tt_entry option \<Rightarrow> int \<Rightarrow> int \<Rightarrow> int \<Rightarrow> int \<Rightarrow> int option" where
  "tt_score te depth alpha beta csd =
     (case te of
        None \<Rightarrow> None
      | Some e \<Rightarrow>
          if uint (e_depth e) \<ge> depth \<and> alpha = beta - 1 then
            let work_score = eval_from_tt (sint (e_score e)) csd; flag = e_flags e
            in if flag = EXACT \<or> flag = LOWERBOUND \<and> work_score \<ge> beta \<or> flag = UPPERBOUND \<and> work_score \<le> alpha
               then Some work_score else None
          else None)"

definition syzygy_score :: "tablebases \<Rightarrow> search_pars \<Rightarrow> int option \<times> search_pars" where
  "syzygy_score tb sp =
     (if popcount (occupancy_bb (sp_pos sp)) \<le> TB_LARGEST tb then
        let sp = bump Syzygy_queries sp in
        case probe_fathom_nonroot tb (sp_pos sp) of
          None \<Rightarrow> (None, sp)
        | Some score \<Rightarrow> (Some (if score < 0 then - max_non_mate - 1 else if score > 0 then max_non_mate + 1 else score),
                          bump Syzygy_query_hits sp)
      else (None, sp))"

text \<open>The pruning on the static evaluation: a result, or the evaluation and whether futility pruning may use it.\<close>

definition shallow :: "net \<Rightarrow> int \<Rightarrow> bool \<Rightarrow> int \<Rightarrow> int \<Rightarrow> int \<Rightarrow> move option \<Rightarrow> search_pars \<Rightarrow>
    (int \<times> search_pars) + (int \<times> bool \<times> search_pars)" where
  "shallow nt max_depth is_root depth alpha beta tt_move sp =
     (if \<not> is_root \<and> \<not> in_check (sp_pos sp) \<and> depth \<le> 7 \<and> beta \<le> max_non_mate then
        let sp = bump N_static_eval sp; staticeval = static_eval nt sp in
        if staticeval - depth * 121 > beta then Inl (trunc_div (beta + staticeval) 2, bump N_static_eval_hit sp)
        else if alpha = beta - 1 \<and> tt_move = None \<and> depth \<le> 3 \<and> beta \<le> max_non_mate \<and> staticeval + 350 + depth * 150 < alpha
          then Inl (qs nt alpha beta max_depth (bump N_razor sp))
        else Inr (staticeval, depth \<le> 2, sp)
      else Inr (0, False, sp))"

text \<open>The score of a child, seen from the parent.\<close>

definition negated :: "node_search \<Rightarrow> node_search" where
  "negated rec depth alpha beta null_move_depth level m sp =
     and_then (rec depth alpha beta null_move_depth level m sp) (\<lambda>(score, m, sp). Inr (- score, m, sp))"

text \<open>The null move search and its verification: a score that ends the node, or none.\<close>

definition try_null_move :: "node_search \<Rightarrow> bool \<Rightarrow> int \<Rightarrow> int \<Rightarrow> int \<Rightarrow> int \<Rightarrow> search_pars \<Rightarrow> fault + (int option \<times> search_pars)"
where
  "try_null_move rec is_root depth beta null_move_depth level sp =
     (let nm_depth = max 0 (depth - (if depth > 6 then 4 else 3)) in
      if depth \<ge> 2 \<and> \<not> in_check (sp_pos sp) \<and> \<not> is_root \<and> null_move_depth < 2 then
        let sp = bump N_null_move sp; sp = sp\<lparr>sp_pos := make_null_move (sp_pos sp)\<rparr> in
        and_then (negated rec nm_depth (- beta) (- beta + 1) (null_move_depth + 1) (level + 1) 0 sp) (\<lambda>(nmscore, _, sp).
          let sp = sp\<lparr>sp_pos := unmake_move (sp_pos sp)\<rparr> in
          if nmscore \<ge> beta then
            and_then (rec nm_depth (beta - 1) beta null_move_depth (level + 1) 0 sp) (\<lambda>(verification, _, sp).
              if verification \<ge> beta
              then Inr (Some (if \<bar>nmscore\<bar> \<ge> max_non_mate then beta else nmscore), bump N_null_move_hit sp)
              else Inr (None, sp))
          else Inr (None, sp))
      else Inr (None, sp))"

section \<open>The moves of a node\<close>

text \<open>\<open>scr_of\<close>: the buffers of a level.\<close>

definition scr_of :: "int \<Rightarrow> int" where
  "scr_of level = (if level < n_search_scratch_levels then level else n_search_scratch_levels - 1)"

definition set_scratch :: "int \<Rightarrow> node_scratch \<Rightarrow> search_pars \<Rightarrow> search_pars" where
  "set_scratch i scr sp = sp\<lparr>sp_scratch := (sp_scratch sp)(i := scr)\<rparr>"

definition clear_pv :: "int \<Rightarrow> search_pars \<Rightarrow> search_pars" where
  "clear_pv level sp = (let i = scr_of level in set_scratch i ((sp_scratch sp i)\<lparr>scr_pv := []\<rparr>) sp)"

definition fill_buffers :: "int \<Rightarrow> search_pars \<Rightarrow> search_pars" where
  "fill_buffers level sp =
     (let i = scr_of level; scr = sp_scratch sp i in set_scratch i (scr\<lparr>scr_fills := scr_fills scr + 1\<rparr>) sp)"

text \<open>The move and the line of the child, at most 64 moves; where the child shares the buffer, the copy reads the
  move it has just written until the buffer is full.\<close>

definition update_pv :: "int \<Rightarrow> move \<Rightarrow> search_pars \<Rightarrow> search_pars" where
  "update_pv level m sp =
     (let i = scr_of level; j = scr_of (level + 1);
          pv = (if i = j then replicate 64 m else take 64 (m # scr_pv (sp_scratch sp j)))
      in set_scratch i ((sp_scratch sp i)\<lparr>scr_pv := pv\<rparr>) sp)"

text \<open>What the loop over the moves reads and does not change.\<close>

record node_vars =
  nv_depth :: int
  nv_beta :: int
  nv_null_move_depth :: int
  nv_level :: int
  nv_is_pv :: bool
  nv_tt_move :: "move option"
  nv_staticeval :: int
  nv_futility_ok :: bool
  nv_lmr_start :: int
  nv_n_moves :: nat
  nv_pinned :: bitboard
  nv_new_depth_basic :: int
  nv_recapture_square :: "int option"
  nv_fills :: nat

record loop_state =
  ls_scores :: "int list"
  ls_ml :: "move list"
  ls_n_played :: int
  ls_best :: int
  ls_m :: move
  ls_new_move :: move
  ls_alpha :: int
  ls_cutoff :: "move option"

definition recapture_ext :: "node_vars \<Rightarrow> move \<Rightarrow> int" where
  "recapture_ext nv m = (if nv_recapture_square nv = Some (to_square m) \<and> is_capture_move m then 1 else 0)"

definition futile :: "node_vars \<Rightarrow> loop_state \<Rightarrow> move \<Rightarrow> bool" where
  "futile nv st m \<longleftrightarrow> nv_futility_ok nv \<and> \<not> nv_is_pv nv \<and> ls_n_played st > 0 \<and> nv_n_moves nv > 1 \<and>
     \<not> is_capture_move m \<and> \<not> is_promotion_move m \<and>
     \<not> (case nv_tt_move nv of Some t \<Rightarrow> move_eq m t | None \<Rightarrow> False) \<and>
     nv_staticeval nv + 180 + nv_depth nv * 150 < ls_alpha st"

definition lmr_depth :: "node_vars \<Rightarrow> loop_state \<Rightarrow> int" where
  "lmr_depth nv st =
     (if ls_alpha st = nv_beta nv - 1 then
        max (nv_new_depth_basic nv
             - lmr_reductions ! nat (min (N_LMR_DEPTH - 1) (nv_depth nv)) ! nat (min (N_LMR_MOVES - 1) (ls_n_played st))) 0
      else if ls_n_played st \<ge> nv_lmr_start nv + 2 then trunc_div (nv_new_depth_basic nv * 2) 3
      else nv_new_depth_basic nv - 1)"

text \<open>The searches of one move: the first in the full window, the others in a null window, reduced when late, and
  again where that was not enough.\<close>

definition child_search :: "node_search \<Rightarrow> node_vars \<Rightarrow> loop_state \<Rightarrow> move \<Rightarrow> search_pars \<Rightarrow> fault + (bool \<times> result)" where
  "child_search rec nv st m sp =
     (let nmd = nv_null_move_depth nv; level = nv_level nv + 1; alpha = ls_alpha st; beta = nv_beta nv;
          new_depth = nv_new_depth_basic nv + recapture_ext nv m
      in if ls_n_played st = 0 then
           and_then (negated rec new_depth (- beta) (- alpha) nmd level (ls_new_move st) sp) (\<lambda>r. Inr (False, r))
         else
           let is_lmr = (ls_n_played st \<ge> nv_lmr_start nv \<and> \<not> is_capture_move m \<and> \<not> is_promotion_move m);
               sp = (if is_lmr then bump N_lmr sp else sp);
               new_depth = (if is_lmr then lmr_depth nv st else new_depth)
           in and_then (negated rec new_depth (- alpha - 1) (- alpha) nmd level (ls_new_move st) sp) (\<lambda>(score, new_move, sp).
              and_then (if is_lmr \<and> score > alpha
                        then negated rec (nv_depth nv - 1) (- alpha - 1) (- alpha) nmd level new_move sp
                        else Inr (score, new_move, sp)) (\<lambda>(score, new_move, sp).
              and_then (if score > alpha \<and> score < beta
                        then negated rec (nv_depth nv - 1) (- beta) (- alpha) nmd level new_move sp
                        else Inr (score, new_move, sp)) (\<lambda>r. Inr (is_lmr, r)))))"

primrec search_loop :: "node_search \<Rightarrow> net \<Rightarrow> node_vars \<Rightarrow> nat \<Rightarrow> loop_state \<Rightarrow> search_pars \<Rightarrow>
    fault + (loop_state \<times> search_pars)"
where
  "search_loop rec nt nv 0 st sp = Inr (st, sp)"
| "search_loop rec nt nv (Suc k) st sp =
     (let m_idx = nv_n_moves nv - Suc k;
          (scores, ml) = select_move m_idx (nv_n_moves nv) (ls_scores st, ls_ml st);
          st = st\<lparr>ls_scores := scores, ls_ml := ml\<rparr>;
          move = ml ! m_idx
      in if \<not> is_legal_generated_move_pinned (sp_pos sp) move (nv_pinned nv) then search_loop rec nt nv k st sp
         else if futile nv st move then search_loop rec nt nv k st (bump N_futility_prune sp)
         else
           let sp = sp\<lparr>sp_cur_move := move\<rparr>; (undo_actions, sp) = sp_make_move nt move sp in
           and_then (child_search rec nv st move sp) (\<lambda>(is_lmr, score, new_move, sp).
             if scr_fills (sp_scratch sp (scr_of (nv_level nv))) \<noteq> nv_fills nv then Inl Buffers_overwritten
             else
               let sp = sp_unmake_move nt undo_actions sp;
                   st = st\<lparr>ls_n_played := ls_n_played st + 1, ls_new_move := new_move\<rparr>
               in if score > ls_best st then
                    let st = st\<lparr>ls_best := score, ls_m := move\<rparr>; sp = update_pv (nv_level nv) move sp in
                    if score > ls_alpha st then
                      if score \<ge> nv_beta nv
                      then Inr (st\<lparr>ls_cutoff := Some move\<rparr>, if is_lmr then bump N_lmr_hit sp else sp)
                      else search_loop rec nt nv k (st\<lparr>ls_alpha := score\<rparr>) sp
                    else search_loop rec nt nv k st sp
                  else search_loop rec nt nv k st sp))"

section \<open>After the moves\<close>

text \<open>The histories learn from a cutoff: the moves of its kind tried before it lose, the cutting move gains.\<close>

primrec learn_captures :: "move \<Rightarrow> int \<Rightarrow> move list \<Rightarrow> search_pars \<Rightarrow> search_pars" where
  "learn_captures cutoff bonus [] sp = sp"
| "learn_captures cutoff bonus (m # ms) sp =
     (if \<not> is_capture_move m then learn_captures cutoff bonus ms sp
      else case piece_on (sp_pos sp) (from_square m) of
        None \<Rightarrow> learn_captures cutoff bonus ms sp
      | Some pf \<Rightarrow>
          let idx = capture_history_index (pos_side_to_move (sp_pos sp)) (p_type pf) (to_square m) (capture_type (sp_pos sp) m)
          in if idx < 0 \<or> idx \<ge> capture_history_size then learn_captures cutoff bonus ms sp
             else if move_eq m cutoff then update_capture_history idx bonus sp
             else learn_captures cutoff bonus ms (update_capture_history idx (- bonus) sp))"

definition learn_quiet :: "piece_type \<Rightarrow> move \<Rightarrow> int \<Rightarrow> search_pars \<Rightarrow> search_pars" where
  "learn_quiet piece_type_from m bonus sp =
     (let stm = pos_side_to_move (sp_pos sp);
          bf_idx = butterfly_history_index stm (from_square m) (to_square m);
          c_idx = (case (previous_move (sp_pos sp), sp_cont_history sp) of
              (Some prev, Some _) \<Rightarrow> cont_history_index (to_square prev) (to_square m)
            | _ \<Rightarrow> -1);
          sp = update_history (history_index stm piece_type_from (to_square m)) bonus sp;
          sp = (if 0 \<le> bf_idx \<and> bf_idx < butterfly_history_size then update_butterfly_history bf_idx bonus sp else sp)
      in if 0 \<le> c_idx \<and> c_idx < cont_history_size then update_cont_history c_idx bonus sp else sp)"

primrec learn_quiets :: "move \<Rightarrow> int \<Rightarrow> move list \<Rightarrow> search_pars \<Rightarrow> search_pars" where
  "learn_quiets cutoff bonus [] sp = sp"
| "learn_quiets cutoff bonus (m # ms) sp =
     (if is_capture_move m then learn_quiets cutoff bonus ms sp
      else case piece_type_on (sp_pos sp) (from_square m) of
        None \<Rightarrow> learn_quiets cutoff bonus ms sp
      | Some piece_type_from \<Rightarrow>
          if move_eq m cutoff then learn_quiet piece_type_from m bonus sp
          else learn_quiets cutoff bonus ms (learn_quiet piece_type_from m (- bonus) sp))"

definition learn :: "int \<Rightarrow> loop_state \<Rightarrow> search_pars \<Rightarrow> search_pars" where
  "learn depth st sp =
     (case ls_cutoff st of
        None \<Rightarrow> sp
      | Some cutoff \<Rightarrow>
          let bonus = depth * 30 - 25;
              sp = (if is_capture_move cutoff then learn_captures cutoff bonus (ls_ml st) sp else learn_quiets cutoff bonus (ls_ml st) sp)
          in bump Nmc_nodes (bump_by (nat (ls_n_played st)) N_moves_cutoff sp))"

text \<open>No move was played: mate or stalemate.\<close>

definition no_moves :: "bool \<Rightarrow> int \<Rightarrow> loop_state \<Rightarrow> search_pars \<Rightarrow> int \<times> search_pars" where
  "no_moves chk csd st sp =
     (if ls_n_played st = 0 then
        if chk then (- max_eval + csd, bump_win (opp (pos_side_to_move (sp_pos sp))) (bump N_checkmate sp))
        else (0, bump N_stalemate (bump_draw sp))
      else (ls_best st, sp))"

definition search_store :: "64 word \<Rightarrow> int \<Rightarrow> int \<Rightarrow> int \<Rightarrow> int \<Rightarrow> int \<Rightarrow> move \<Rightarrow> search_pars \<Rightarrow> search_pars" where
  "search_store hash start_alpha beta depth csd best_score m sp =
     (let (stopped, sp) = read_stop sp in
      if stopped then sp
      else tt_put hash (bound_flag start_alpha beta best_score) depth (eval_to_tt best_score csd)
             (if best_score > start_alpha \<and> m \<noteq> 0 then Some m else None) (bump Tt_store sp))"

section \<open>A node\<close>

text \<open>From the generation of the moves on.\<close>

definition play_moves :: "node_search \<Rightarrow> net \<Rightarrow> 64 word \<Rightarrow> int \<Rightarrow> int \<Rightarrow> int \<Rightarrow> int \<Rightarrow> int \<Rightarrow> int \<Rightarrow> move option \<Rightarrow>
    int \<Rightarrow> bool \<Rightarrow> move \<Rightarrow> search_pars \<Rightarrow> fault + result" where
  "play_moves rec nt hash csd depth alpha beta null_move_depth level tt_move staticeval futility_ok m sp =
     (let in_check = in_check (sp_pos sp);
          sp = fill_buffers level sp; move_list = pseudo_legal_move_list (sp_pos sp);
          first_moves = (case tt_move of Some t \<Rightarrow> [t] | None \<Rightarrow> []) @ (if m \<noteq> 0 \<and> is_capture_move m then [m] else []);
          n_moves = length move_list;
          nv = \<lparr>nv_depth = depth, nv_beta = beta, nv_null_move_depth = null_move_depth, nv_level = level,
            nv_is_pv = (alpha \<noteq> beta - 1), nv_tt_move = tt_move, nv_staticeval = staticeval, nv_futility_ok = futility_ok,
            nv_lmr_start = (if \<not> in_check \<and> depth \<ge> 2 then 4 else 999), nv_n_moves = n_moves,
            nv_pinned = pinned_pieces_of (sp_pos sp) (pos_side_to_move (sp_pos sp)),
            nv_new_depth_basic = depth - 1 + (if in_check \<or> n_moves = 1 then 1 else 0),
            nv_recapture_square = (case previous_move (sp_pos sp) of
                Some prev \<Rightarrow> if is_capture_move prev then Some (to_square prev) else None
              | None \<Rightarrow> None),
            nv_fills = scr_fills (sp_scratch sp (scr_of level))\<rparr>
      in and_then (search_loop rec nt nv n_moves
           \<lparr>ls_scores = map (move_evaluater sp first_moves) move_list, ls_ml = move_list, ls_n_played = 0, ls_best = -32767,
            ls_m = m, ls_new_move = 0, ls_alpha = alpha, ls_cutoff = None\<rparr> sp) (\<lambda>(st, sp).
         let (best_score, sp) = no_moves in_check csd st (learn depth st sp)
         in Inr (best_score, ls_m st, search_store hash alpha beta depth csd best_score (ls_m st) sp)))"

text \<open>The mate distance test: the score that ends the node, if any.\<close>

definition mate_distance :: "tt_entry option \<Rightarrow> move option \<Rightarrow> int \<Rightarrow> int \<Rightarrow> int \<Rightarrow> int option" where
  "mate_distance te tt_move csd alpha beta =
     (if alpha \<noteq> beta - 1 \<and> te \<noteq> None \<or> alpha = beta - 1 \<and> tt_move \<noteq> None then
        let mdp_alpha = max (- max_eval + csd) alpha; mdp_beta = min (max_eval - csd - 1) beta
        in if mdp_alpha \<ge> mdp_beta then Some mdp_alpha else None
      else None)"

definition search_node :: "tablebases \<Rightarrow> net \<Rightarrow> int \<Rightarrow> node_search \<Rightarrow> node_search" where
  "search_node tb nt max_depth rec depth alpha beta null_move_depth level m sp =
     (let sp = bump Nodes sp; csd = max_depth - depth + 1; is_root = (max_depth = depth) in
      if \<not> is_root \<and> search_drawn (sp_pos sp) then (let (score, sp) = search_draw csd sp in Inr (score, m, sp))
      else
        let hash = pos_hash (sp_pos sp);
            (te, sp) = tt_query hash sp;
            (tt_move, sp) = tt_hit te sp;
            used = tt_score te depth alpha beta csd;
            sp = (if used \<noteq> None then bump Tt_cutoff sp else sp)
        in if used \<noteq> None \<and> (tt_move \<noteq> None \<or> \<not> is_root)
           then Inr (the used, case tt_move of Some t \<Rightarrow> t | None \<Rightarrow> m, sp)
           else
             let depth = (if te = None \<and> alpha \<noteq> beta - 1 \<and> depth \<ge> 4 then depth - 1 else depth) in
             case mate_distance te tt_move csd alpha beta of
               Some score \<Rightarrow> Inr (score, m, sp)
             | None \<Rightarrow>
                 let (tb_score, sp) = (if with_syzygy tb \<and> \<not> is_root then syzygy_score tb sp else (None, sp)) in
                 case tb_score of
                   Some score \<Rightarrow> Inr (score, m, sp)
                 | None \<Rightarrow>
                     (case shallow nt max_depth is_root depth alpha beta tt_move sp of
                        Inl (score, sp) \<Rightarrow> Inr (score, m, sp)
                      | Inr (staticeval, futility_ok, sp) \<Rightarrow>
                          and_then (try_null_move rec is_root depth beta null_move_depth level sp) (\<lambda>(nm_score, sp).
                            case nm_score of
                              Some score \<Rightarrow> Inr (score, m, sp)
                            | None \<Rightarrow> play_moves rec nt hash csd depth alpha beta null_move_depth level tt_move staticeval
                                        futility_ok m sp)))"

definition search_enter :: "tablebases \<Rightarrow> net \<Rightarrow> int \<Rightarrow> node_search \<Rightarrow> node_search" where
  "search_enter tb nt max_depth rec depth alpha beta null_move_depth level m sp =
     (let (stopped, sp) = read_stop sp in
      if stopped then Inr (0, m, sp)
      else
        let sp = clear_pv level sp in
        if depth = 0 then (let (score, sp) = qs nt alpha beta max_depth sp in Inr (score, m, sp))
        else search_node tb nt max_depth rec depth alpha beta null_move_depth level m sp)"

primrec search :: "tablebases \<Rightarrow> net \<Rightarrow> int \<Rightarrow> nat \<Rightarrow> node_search" where
  "search tb nt max_depth 0 = (\<lambda>depth alpha beta null_move_depth level m sp. Inl Out_of_fuel)"
| "search tb nt max_depth (Suc n) = search_enter tb nt max_depth (search tb nt max_depth n)"

end
