(* ===== verification/Doubles.thy ===== *)
theory Doubles
  imports Complex_Main "HOL-Library.Log_Nat"
begin

text \<open>
  The \<open>double\<close> arithmetic the program uses, on rationals: an operation is the exact one followed by \<open>fl\<close>,
  rounding to 53 significant bits, halves to even.  The values of the program stay far from the largest and the
  smallest doubles, so overflow and subnormal numbers do not arise.
\<close>

definition pow2 :: "int \<Rightarrow> rat" where
  "pow2 k = (if k \<ge> 0 then 2 ^ nat k else 1 / 2 ^ nat (- k))"

definition round_even :: "rat \<Rightarrow> int" where
  "round_even x =
     (let f = \<lfloor>x\<rfloor>; r = x - of_int f
      in if r < 1 / 2 then f else if r > 1 / 2 then f + 1 else if even f then f else f + 1)"

text \<open>The power of two a positive number lies above.\<close>

definition binade :: "rat \<Rightarrow> int" where
  "binade x =
     (let (a, b) = quotient_of x; d = int (floorlog 2 (nat a)) - int (floorlog 2 (nat b))
      in if pow2 d \<le> x then d else d - 1)"

definition fl :: "rat \<Rightarrow> rat" where
  "fl x = (if x = 0 then 0 else let u = pow2 (binade \<bar>x\<bar> - 52) in of_int (round_even (x / u)) * u)"

text \<open>\<open>lround\<close>: to the nearest integer, halves away from zero; conversion to \<open>int\<close> drops the fraction.\<close>

definition lround :: "rat \<Rightarrow> int" where
  "lround x = (if x < 0 then - \<lfloor>- x + 1 / 2\<rfloor> else \<lfloor>x + 1 / 2\<rfloor>)"

definition to_int :: "rat \<Rightarrow> int" where
  "to_int x = (if x < 0 then \<lceil>x\<rceil> else \<lfloor>x\<rfloor>)"

section \<open>Exact values\<close>

lemma pow2_powr: "pow2 k > 0" "pow2 (k + 1) = 2 * pow2 k"
proof -
  show "pow2 k > 0" by (simp add: pow2_def)
  show "pow2 (k + 1) = 2 * pow2 k"
  proof (cases "k \<ge> 0")
    case True
    then have "nat (k + 1) = Suc (nat k)" by simp
    then show ?thesis using True by (simp add: pow2_def)
  next
    case False
    then have "nat (- k) = Suc (nat (- (k + 1)))" by simp
    then show ?thesis using False by (cases "k + 1 = 0") (auto simp: pow2_def)
  qed
qed

lemma pow2_add: "pow2 (k + int n) = pow2 k * 2 ^ n"
proof (induction n)
  case (Suc n)
  have "pow2 (k + int (Suc n)) = 2 * pow2 (k + int n)" using pow2_powr(2) [of "k + int n"] by (simp add: add.commute add.left_commute)
  then show ?case using Suc by simp
qed simp

lemma pow2_diff: "j \<le> k \<Longrightarrow> pow2 k = pow2 j * 2 ^ nat (k - j)"
  using pow2_add [of j "nat (k - j)"] by simp

lemma pow2_mono: "j \<le> k \<Longrightarrow> pow2 j \<le> pow2 k"
  using pow2_diff [of j k] pow2_powr(1) [of j] by simp

lemma round_even_int [simp]: "round_even (of_int k) = k"
  by (simp add: round_even_def)

lemma bits_bounds: "0 < n \<Longrightarrow> 2 ^ (floorlog 2 n - 1) \<le> n \<and> n < 2 ^ floorlog 2 n \<and> 0 < floorlog 2 n"
  using floorlog_bounds [of n 2] by (simp add: floorlog_def)

lemma bits_rat:
  assumes "0 < a"
  shows "(2 :: rat) ^ (floorlog 2 (nat a) - 1) \<le> of_int a" "of_int a < (2 :: rat) ^ floorlog 2 (nat a)"
proof -
  have B: "2 ^ (floorlog 2 (nat a) - 1) \<le> nat a" "nat a < 2 ^ floorlog 2 (nat a)" using bits_bounds [of "nat a"] assms by simp_all
  have "(of_nat (2 ^ (floorlog 2 (nat a) - 1)) :: rat) \<le> of_nat (nat a)" "(of_nat (nat a) :: rat) < of_nat (2 ^ floorlog 2 (nat a))"
    unfolding of_nat_le_iff of_nat_less_iff by (fact B)+
  then show "(2 :: rat) ^ (floorlog 2 (nat a) - 1) \<le> of_int a" "of_int a < (2 :: rat) ^ floorlog 2 (nat a)"
    using assms by simp_all
qed

lemma binade_bounds:
  assumes "0 < x"
  shows "pow2 (binade x) \<le> x \<and> x < 2 * pow2 (binade x)"
proof -
  obtain a b where q: "quotient_of x = (a, b)" by (cases "quotient_of x")
  have b: "0 < b" and x: "x = of_int a / of_int b"
    using quotient_of_denom_pos [OF q] quotient_of_div [OF q] by simp_all
  then have a: "0 < a" using assms by (simp add: zero_less_divide_iff)
  let ?m = "floorlog 2 (nat a)" and ?n = "floorlog 2 (nat b)"
  let ?d = "int ?m - int ?n"
  have A: "2 ^ (?m - 1) \<le> nat a" "nat a < 2 ^ ?m" "0 < ?m" using bits_bounds [of "nat a"] a by simp_all
  have B: "2 ^ (?n - 1) \<le> nat b" "nat b < 2 ^ ?n" "0 < ?n" using bits_bounds [of "nat b"] b by simp_all
  have A': "(2 :: rat) ^ (?m - 1) \<le> of_int a" "of_int a < (2 :: rat) ^ ?m" by (rule bits_rat [OF a])+
  have B': "(2 :: rat) ^ (?n - 1) \<le> of_int b" "of_int b < (2 :: rat) ^ ?n" by (rule bits_rat [OF b])+
  have m: "(2 :: rat) ^ ?m = 2 * 2 ^ (?m - 1)" "(2 :: rat) ^ ?n = 2 * 2 ^ (?n - 1)" 
    using A(3) B(3) by (simp_all flip: power_Suc)
  have d: "pow2 ?d * 2 ^ ?n = 2 ^ ?m"
    using pow2_add [of ?d ?n] by (simp add: pow2_def)
  have lo: "pow2 (?d - 1) \<le> x" 
  proof -
    have "2 * pow2 (?d - 1) * of_int b \<le> pow2 ?d * 2 ^ ?n"
      using pow2_powr [of "?d - 1"] B'(2) by simp
    then have "pow2 (?d - 1) * of_int b \<le> of_int a" using A'(1) m(1) d by linarith
    then show ?thesis using b by (simp add: x pos_le_divide_eq)
  qed
  have hi: "x < 2 * pow2 ?d"
  proof -
    have "2 * pow2 ?d * 2 ^ (?n - 1) \<le> 2 * pow2 ?d * of_int b" using B'(1) pow2_powr(1) [of ?d] by (intro mult_left_mono) auto
    moreover have "2 * pow2 ?d * 2 ^ (?n - 1) = 2 ^ ?m" using d unfolding m(2) by (simp add: ac_simps)
    ultimately have "of_int a < 2 * pow2 ?d * of_int b" using A'(2) by linarith
    then show ?thesis using b by (simp add: x pos_divide_less_eq)
  qed
  show ?thesis using lo hi pow2_powr(2) [of "?d - 1"] by (auto simp: binade_def q Let_def)
qed

text \<open>An integer of at most 53 bits times a power of two is a double.\<close>

lemma fl_exact:
  assumes "\<bar>k\<bar> \<le> 2 ^ 53"
  shows "fl (of_int k * pow2 j) = of_int k * pow2 j"
proof (cases "k = 0")
  case False
  let ?x = "of_int k * pow2 j :: rat"
  have x0: "?x \<noteq> 0" using False pow2_powr(1) [of j] by simp
  have ab: "\<bar>?x\<bar> = of_int \<bar>k\<bar> * pow2 j" using pow2_powr(1) [of j] by (simp add: abs_mult)
  define e where "e = binade \<bar>?x\<bar>"
  have e: "pow2 e \<le> \<bar>?x\<bar>" "\<bar>?x\<bar> < 2 * pow2 e" using binade_bounds [of "\<bar>?x\<bar>"] x0 by (simp_all add: e_def)
  have "(of_int \<bar>k\<bar> :: rat) \<le> of_int (2 ^ 53)" unfolding of_int_le_iff by (fact assms)
  then have k53: "(of_int \<bar>k\<bar> :: rat) \<le> 2 ^ 53" by simp
  then have le: "\<bar>?x\<bar> \<le> pow2 (j + 53)" using pow2_powr(1) [of j] pow2_add [of j 53] unfolding ab by (simp add: mult.commute)
  have j: "e \<le> j + 53"
  proof (rule ccontr)
    assume "\<not> e \<le> j + 53"
    then have "pow2 (j + 53 + 1) \<le> pow2 e" by (intro pow2_mono) simp
    then show False using e(1) le pow2_powr [of "j + 53"] by linarith
  qed
  have "\<exists>i. ?x / pow2 (e - 52) = of_int i"
  proof (cases "e - 52 \<le> j")
    case True
    have "pow2 j = pow2 (e - 52) * 2 ^ nat (j - (e - 52))" by (rule pow2_diff [OF True])
    then have "?x / pow2 (e - 52) = of_int (k * 2 ^ nat (j - (e - 52)))" using pow2_powr(1) [of "e - 52"] by simp
    then show ?thesis by blast
  next
    case False
    then have ej: "e = j + 53" using j by simp
    have "(2 :: rat) ^ 53 * pow2 j \<le> of_int \<bar>k\<bar> * pow2 j" using e(1) pow2_add [of j 53] unfolding ab ej by (simp add: mult.commute)
    then have "(2 :: rat) ^ 53 \<le> of_int \<bar>k\<bar>" using pow2_powr(1) [of j] by simp
    then have "(of_int \<bar>k\<bar> :: rat) = of_int (2 ^ 53)" using k53 by simp
    then have "\<bar>k\<bar> = 2 ^ 53" by (simp only: of_int_eq_iff)
    then have "k = 2 ^ 53 \<or> k = - (2 ^ 53)" by linarith
    moreover have "pow2 (e - 52) = 2 * pow2 j" using pow2_powr(2) [of j] by (simp add: ej add.commute)
    ultimately have "?x / pow2 (e - 52) = of_int (2 ^ 52) \<or> ?x / pow2 (e - 52) = of_int (- (2 ^ 52))" using pow2_powr(1) [of j] by auto
    then show ?thesis by blast
  qed
  then obtain i where i: "?x / pow2 (e - 52) = of_int i" by blast
  have "fl ?x = of_int (round_even (?x / pow2 (e - 52))) * pow2 (e - 52)"
    using x0 by (simp add: fl_def e_def Let_def)
  also have "\<dots> = ?x / pow2 (e - 52) * pow2 (e - 52)" by (simp only: i round_even_int)
  finally show ?thesis using pow2_powr(1) [of "e - 52"] by simp
qed (simp add: fl_def)

lemma fl_int: "\<bar>k\<bar> \<le> 2 ^ 53 \<Longrightarrow> fl (of_int k) = of_int k"
  using fl_exact [of k 0] by (simp add: pow2_def)

lemma round_even_bound:
  assumes "\<bar>x\<bar> \<le> of_int n"
  shows "\<bar>round_even x\<bar> \<le> n"
proof -
  have x: "- of_int n \<le> x" "x \<le> of_int n" using assms by linarith+
  have f: "of_int \<lfloor>x\<rfloor> \<le> x" "x < of_int \<lfloor>x\<rfloor> + 1" by linarith+
  have lo: "- n \<le> \<lfloor>x\<rfloor>" using x(1) by (simp add: le_floor_iff)
  have hi: "\<lfloor>x\<rfloor> \<le> n" using x(2) f(1) by linarith
  have up: "\<lfloor>x\<rfloor> + 1 \<le> n" if "x - of_int \<lfloor>x\<rfloor> > 0"
  proof -
    have "of_int \<lfloor>x\<rfloor> < (of_int n :: rat)" using that x(2) by linarith
    then show ?thesis by simp
  qed
  show ?thesis using lo hi up unfolding round_even_def Let_def by auto
qed

lemma fl_fl [simp]: "fl (fl x) = fl x"
proof (cases "x = 0")
  case False
  let ?u = "pow2 (binade \<bar>x\<bar> - 52)"
  have b: "\<bar>x\<bar> < 2 * pow2 (binade \<bar>x\<bar>)" using binade_bounds [of "\<bar>x\<bar>"] False by simp
  have u: "pow2 (binade \<bar>x\<bar>) = ?u * 2 ^ 52" using pow2_add [of "binade \<bar>x\<bar> - 52" 52] by simp
  have "\<bar>x / ?u\<bar> \<le> of_int (2 ^ 53)"
    using b pow2_powr(1) [of "binade \<bar>x\<bar> - 52"] unfolding u by (simp add: pos_divide_le_eq)
  then have "\<bar>round_even (x / ?u)\<bar> \<le> 2 ^ 53" by (rule round_even_bound)
  then have "fl (of_int (round_even (x / ?u)) * ?u) = of_int (round_even (x / ?u)) * ?u" by (rule fl_exact)
  then show ?thesis using False by (simp add: fl_def [of x] Let_def)
qed (simp add: fl_def)

text \<open>Rounding does not cross an integer a double can hold.\<close>

lemma round_even_ge: "of_int n \<le> x \<Longrightarrow> n \<le> round_even x"
proof -
  assume "of_int n \<le> x"
  then have "n \<le> \<lfloor>x\<rfloor>" by (simp add: le_floor_iff)
  then show "n \<le> round_even x" by (auto simp: round_even_def Let_def)
qed

lemma fl_ge_0: "0 \<le> x \<Longrightarrow> 0 \<le> fl x"
  using round_even_ge [of 0 "x / pow2 (binade \<bar>x\<bar> - 52)"] pow2_powr(1) [of "binade \<bar>x\<bar> - 52"]
  by (simp add: fl_def Let_def)

lemma fl_ge_int:
  assumes "0 < k" "k \<le> 2 ^ 53" "of_int k \<le> x"
  shows "of_int k \<le> fl x"
proof -
  have x: "0 < x" using assms(1,3) by (meson less_le_trans of_int_0_less_iff)
  define e where "e = binade x"
  have b: "pow2 e \<le> x" using binade_bounds [OF x] by (simp add: e_def)
  define u where "u = pow2 (e - 52)"
  have u: "0 < u" "pow2 e = u * 2 ^ 52" using pow2_powr(1) pow2_add [of "e - 52" 52] by (simp_all add: u_def)
  have f: "fl x = of_int (round_even (x / u)) * u" using x by (simp add: fl_def Let_def u_def e_def)
  have le: "of_int n * u \<le> fl x" if "of_int n * u \<le> x" for n
  proof -
    have "of_int n \<le> x / u" using that u(1) by (simp add: pos_le_divide_eq)
    then have "(of_int n :: rat) \<le> of_int (round_even (x / u))" using round_even_ge by simp
    then show ?thesis unfolding f using u(1) by (intro mult_right_mono) auto
  qed
  show ?thesis
  proof (cases "e \<le> 52")
    case True
    have "pow2 0 = u * 2 ^ nat (52 - e)" using pow2_diff [of "e - 52" 0] True by (simp add: u_def)
    then have one: "u * 2 ^ nat (52 - e) = 1" by (simp add: pow2_def)
    have "of_int (k * 2 ^ nat (52 - e)) * u = (of_int k :: rat)" using one by (simp add: mult.assoc mult.commute [of _ u])
    then show ?thesis using le [of "k * 2 ^ nat (52 - e)"] assms(3) by (simp only:)
  next
    case False
    have "(of_int k :: rat) \<le> of_int (2 ^ 53)" unfolding of_int_le_iff by (rule assms(2))
    also have "\<dots> = pow2 53" by (simp add: pow2_def)
    also have "\<dots> \<le> pow2 e" by (rule pow2_mono) (use False in simp)
    also have "\<dots> \<le> fl x" using le [of "2 ^ 52"] b u(2) by (simp add: mult.commute)
    finally show ?thesis .
  qed
qed

lemma round_even_le: "x \<le> of_int n \<Longrightarrow> round_even x \<le> n"
proof -
  assume x: "x \<le> of_int n"
  then have "\<lfloor>x\<rfloor> \<le> n" by (simp add: floor_le_iff)
  moreover have "x = of_int n" if "\<lfloor>x\<rfloor> = n" using x that of_int_floor_le [of x] by simp
  ultimately show "round_even x \<le> n" by (cases "\<lfloor>x\<rfloor> = n") (auto simp: round_even_def Let_def)
qed

lemma fl_le_int:
  assumes "0 < k" "k \<le> 2 ^ 53" "0 \<le> x" "x \<le> of_int k"
  shows "fl x \<le> of_int k"
proof (cases "x = 0")
  case True
  then show ?thesis using assms(1) by (simp add: fl_def)
next
  case False
  then have x: "0 < x" using assms(3) by simp
  define e where "e = binade x"
  have b: "pow2 e \<le> x" using binade_bounds [OF x] by (simp add: e_def)
  define u where "u = pow2 (e - 52)"
  have u: "0 < u" using pow2_powr(1) by (simp add: u_def)
  have f: "fl x = of_int (round_even (x / u)) * u" using x by (simp add: fl_def Let_def u_def e_def)
  have le: "fl x \<le> of_int n * u" if "x \<le> of_int n * u" for n
  proof -
    have "x / u \<le> of_int n" using that u by (simp add: pos_divide_le_eq)
    then have "(of_int (round_even (x / u)) :: rat) \<le> of_int n" using round_even_le by simp
    then show ?thesis unfolding f using u by (intro mult_right_mono) auto
  qed
  show ?thesis
  proof (cases "e \<le> 52")
    case True
    have "pow2 0 = u * 2 ^ nat (52 - e)" using pow2_diff [of "e - 52" 0] True by (simp add: u_def)
    then have one: "u * 2 ^ nat (52 - e) = 1" by (simp add: pow2_def)
    have "of_int (k * 2 ^ nat (52 - e)) * u = (of_int k :: rat)" using one by (simp add: mult.assoc mult.commute [of _ u])
    then show ?thesis using le [of "k * 2 ^ nat (52 - e)"] assms(4) by (simp only:)
  next
    case False
    have "pow2 53 \<le> pow2 e" by (rule pow2_mono) (use False in simp)
    then have top: "(of_int (2 ^ 53) :: rat) \<le> pow2 e" by (simp add: pow2_def)
    have "(of_int k :: rat) \<le> of_int (2 ^ 53)" unfolding of_int_le_iff by (rule assms(2))
    then have p: "pow2 e = of_int k" "x = of_int k" using top b assms(4) by linarith+
    have "pow2 e = u * 2 ^ 52" using pow2_add [of "e - 52" 52] by (simp add: u_def)
    then show ?thesis using le [of "2 ^ 52"] p by (simp add: mult.commute)
  qed
qed

lemma lround_le_int: "0 \<le> x \<Longrightarrow> x \<le> of_int k \<Longrightarrow> lround x \<le> k"
proof -
  assume "0 \<le> x" "x \<le> of_int k"
  then have "\<lfloor>x + 1 / 2\<rfloor> < k + 1" unfolding floor_less_iff by simp
  then show "lround x \<le> k" using \<open>0 \<le> x\<close> by (simp add: lround_def)
qed

lemma lround_ge_int: "0 \<le> k \<Longrightarrow> of_int k \<le> x \<Longrightarrow> k \<le> lround x"
proof -
  assume "0 \<le> k" "of_int k \<le> x"
  moreover from this have "0 \<le> x" by (meson of_int_0_le_iff order_trans)
  ultimately show "k \<le> lround x" by (simp add: lround_def le_floor_iff)
qed

end
