(* ===== verification/Deepening.thy ===== *)
theory Deepening
  imports Search Doubles
begin

text \<open>
  Iterative deepening: \<open>search_it\<close> of \<open>search.cpp\<close>.  Its loop, which repeats a depth when the score falls
  outside the aspiration window, has fuel, the number of turns.  The clock and the node counters of other
  threads are read through \<open>it_env\<close>, indexed by the turn; what is printed is kept as the list of the
  arguments given to \<open>emit_result\<close>.
\<close>

section \<open>Arguments, reports, state\<close>

datatype output_type = O_NONE | O_MINIMAL | O_FULL

record it_args =
  ia_search_time_min :: int
  ia_search_time_max :: int
  ia_is_absolute_time :: bool
  ia_ultimate_max_depth :: int
  ia_max_n_nodes :: "nat option"
  ia_output :: output_type

record it_env =
  ie_thought_ms :: "nat \<Rightarrow> nat"
  ie_others :: "nat \<Rightarrow> nat \<times> nat"

record report =
  rp_best_score :: int
  rp_thought_ms :: nat
  rp_node_counts :: "nat list"
  rp_max_depth :: int
  rp_nodes :: "nat \<times> nat"
  rp_pv :: "move list"
  rp_time_left :: int

record it_state =
  it_max_depth :: int
  it_alpha :: int
  it_beta :: int
  it_add_alpha :: int
  it_add_beta :: int
  it_cur_move :: move
  it_alpha_repeat :: int
  it_beta_repeat :: int
  it_best_move :: move
  it_best_score :: int
  it_node_counts :: "nat list"
  it_previous_node_count :: nat
  it_itd_moves :: "string set"
  it_should_output :: "report option"
  it_emitted :: "report list"

section \<open>Statistics, time and reports\<close>

definition simple_search_statistics :: "nat \<times> nat \<Rightarrow> search_pars \<Rightarrow> nat \<times> nat" where
  "simple_search_statistics others sp =
     (let d = cs_data (sp_cs sp)
      in ((fst others + (d Nodes + d Qnodes) mod 2 ^ 32) mod 2 ^ 64, (snd others + d Syzygy_query_hits) mod 2 ^ 64))"

definition calculate_EBF_counts :: "nat list \<Rightarrow> (nat \<times> nat) option" where
  "calculate_EBF_counts node_counts =
     (let n = length node_counts in if n \<ge> 3 then Some (node_counts ! (n - 1), node_counts ! (n - 3)) else None)"

definition search_time :: "it_args \<Rightarrow> nat \<Rightarrow> int \<Rightarrow> int" where
  "search_time ia n_moves max_depth =
     to_int (fl (fl (fl (of_nat n_moves / of_int max_depth) * of_int (ia_search_time_max ia - ia_search_time_min ia))
       + of_int (ia_search_time_min ia)))"

definition time_is_up :: "it_args \<Rightarrow> nat \<Rightarrow> nat \<Rightarrow> int \<Rightarrow> bool" where
  "time_is_up ia thought_ms n_moves max_depth =
     (let t = signed_take_bit 31 (int thought_ms); s = search_time ia n_moves max_depth
      in t > trunc_div s 2 \<and> s > 0 \<and> \<not> ia_is_absolute_time ia \<or> t \<ge> s \<and> ia_is_absolute_time ia)"

text \<open>A full report goes out at once, a minimal one is kept for the end.\<close>

definition give :: "it_args \<Rightarrow> report \<Rightarrow> it_state \<Rightarrow> it_state" where
  "give ia r st =
     (if ia_output ia = O_FULL then st\<lparr>it_emitted := it_emitted st @ [r]\<rparr> else st\<lparr>it_should_output := Some r\<rparr>)"

definition report_of :: "it_args \<Rightarrow> nat \<Rightarrow> nat \<times> nat \<Rightarrow> move list \<Rightarrow> it_state \<Rightarrow> report" where
  "report_of ia thought_ms counts pv st =
     \<lparr>rp_best_score = it_best_score st, rp_thought_ms = thought_ms, rp_node_counts = it_node_counts st,
      rp_max_depth = it_max_depth st, rp_nodes = counts, rp_pv = pv,
      rp_time_left = (ia_search_time_max ia - int thought_ms) mod 2 ^ 32\<rparr>"

definition give_if :: "it_args \<Rightarrow> search_pars \<Rightarrow> nat \<Rightarrow> nat \<times> nat \<Rightarrow> move list \<Rightarrow> it_state \<Rightarrow> it_state" where
  "give_if ia sp thought_ms counts pv st =
     (if sp_thread_nr sp = 0 \<and> ia_output ia \<noteq> O_NONE then give ia (report_of ia thought_ms counts pv st) st else st)"

section \<open>A turn\<close>

definition fail_low :: "int \<Rightarrow> it_state \<Rightarrow> it_state" where
  "fail_low score st =
     (if it_alpha_repeat st \<ge> 3 then st\<lparr>it_alpha := - max_eval\<rparr>
      else st\<lparr>it_beta := trunc_div (it_alpha st + it_beta st) 2, it_alpha := max (- max_eval) (score - it_add_alpha st),
              it_add_alpha := it_add_alpha st + (trunc_div (it_add_alpha st) 15 + 1), it_alpha_repeat := it_alpha_repeat st + 1\<rparr>)"

definition fail_high :: "int \<Rightarrow> it_state \<Rightarrow> it_state" where
  "fail_high score st =
     (if it_beta_repeat st \<ge> 3 then st\<lparr>it_beta := max_eval\<rparr>
      else st\<lparr>it_alpha := trunc_div (it_alpha st + it_beta st) 2, it_beta := min max_eval (score + it_add_beta st),
              it_add_beta := it_add_beta st + (trunc_div (it_add_beta st) 15 + 1), it_beta_repeat := it_beta_repeat st + 1\<rparr>)"

definition note_window :: "int \<Rightarrow> it_state \<Rightarrow> search_pars \<Rightarrow> search_pars" where
  "note_window score st sp =
     (let sp = (if it_alpha st \<noteq> -32767 then bump N_alpha_distances (bump_by (nat \<bar>score - it_alpha st\<bar>) Alpha_distance sp) else sp)
      in if it_beta st \<noteq> 32767 then bump N_beta_distances (bump_by (nat \<bar>it_beta st - score\<bar>) Beta_distance sp) else sp)"

text \<open>The score is inside the window: the move counts, and unless time is up the next depth follows.\<close>

definition completed :: "it_args \<Rightarrow> nat \<Rightarrow> int \<Rightarrow> nat \<times> nat \<Rightarrow> move list \<Rightarrow> it_state \<Rightarrow> search_pars \<Rightarrow> bool \<times> it_state \<times> search_pars"
where
  "completed ia thought_ms score counts pv st sp =
     (let sp = note_window score st sp;
          st = st\<lparr>it_alpha_repeat := 0, it_beta_repeat := 0, it_add_alpha := 75, it_add_beta := 75,
            it_alpha := max (- max_eval) (score - 75), it_beta := min max_eval (score + 75),
            it_best_move := it_cur_move st, it_best_score := score\<rparr>;
          st = give_if ia sp thought_ms counts pv st;
          st = st\<lparr>it_itd_moves := insert (move_to_str (it_best_move st)) (it_itd_moves st)\<rparr>
      in if sp_thread_nr sp = 0 \<and> time_is_up ia thought_ms (card (it_itd_moves st)) (it_max_depth st) then (True, st, sp)
         else if it_max_depth st = 127 then (True, st, sp)
         else (False, st\<lparr>it_max_depth := it_max_depth st + 1\<rparr>,
               sp\<lparr>sp_best_moves := (sp_best_moves sp)[nat (it_max_depth st) := it_best_move st]\<rparr>))"

definition it_turn :: "tablebases \<Rightarrow> net \<Rightarrow> it_args \<Rightarrow> it_env \<Rightarrow> nat \<Rightarrow> nat \<Rightarrow> it_state \<Rightarrow> search_pars \<Rightarrow>
    fault + (bool \<times> it_state \<times> search_pars)" where
  "it_turn tb nt ia env fuel turn st sp =
     (let sp = sp\<lparr>sp_md := 0, sp_tt := tt_new_search (sp_tt sp)\<rparr>; d = it_max_depth st;
          hint = (if d \<ge> 4 then sp_best_moves sp ! nat (d - 3) else it_cur_move st)
      in and_then (search tb nt d fuel d (it_alpha st) (it_beta st) 0 0 hint sp) (\<lambda>(score, cur_move, sp).
           let st = st\<lparr>it_cur_move := cur_move\<rparr>;
               pv = take 64 (scr_pv (sp_scratch sp 0));
               thought_ms = ie_thought_ms env turn;
               counts = simple_search_statistics (ie_others env turn) sp;
               (stopped, sp) = read_stop sp
           in if stopped then Inr (True, give_if ia sp thought_ms counts [it_best_move st] st, sp)
              else
                let n = fst counts;
                    st = st\<lparr>it_node_counts := it_node_counts st @ [nat ((int n - int (it_previous_node_count st)) mod 2 ^ 64)],
                            it_previous_node_count := n\<rparr>;
                    (done, st, sp) =
                      (if score \<le> it_alpha st then (False, fail_low score st, bump Asp_win_resizes sp)
                       else if score \<ge> it_beta st then (False, fail_high score st, bump Asp_win_resizes sp)
                       else completed ia thought_ms score counts pv st sp)
                in Inr (done \<or> (case ia_max_n_nodes ia of Some k \<Rightarrow> n \<ge> k | None \<Rightarrow> False), st, sp)))"

primrec it_loop :: "tablebases \<Rightarrow> net \<Rightarrow> it_args \<Rightarrow> it_env \<Rightarrow> nat \<Rightarrow> nat \<Rightarrow> nat \<Rightarrow> it_state \<Rightarrow> search_pars \<Rightarrow>
    fault + (it_state \<times> search_pars)" where
  "it_loop tb nt ia env fuel 0 turn st sp = Inl Out_of_fuel"
| "it_loop tb nt ia env fuel (Suc turns) turn st sp =
     (if ia_ultimate_max_depth ia = -1 \<or> it_max_depth st \<le> ia_ultimate_max_depth ia then
        and_then (it_turn tb nt ia env fuel turn st sp) (\<lambda>(done, st, sp).
          if done then Inr (st, sp) else it_loop tb nt ia env fuel turns (turn + 1) st sp)
      else Inr (st, sp))"

section \<open>The driver\<close>

definition set_flag :: "search_pars \<Rightarrow> search_pars" where
  "set_flag sp = sp\<lparr>sp_stop := (\<lambda>_. True)\<rparr>"

definition it_start :: "move \<Rightarrow> it_state" where
  "it_start m =
     \<lparr>it_max_depth = 1, it_alpha = -32767, it_beta = 32767, it_add_alpha = 75, it_add_beta = 75, it_cur_move = 0,
      it_alpha_repeat = 0, it_beta_repeat = 0, it_best_move = m, it_best_score = 0, it_node_counts = [],
      it_previous_node_count = 0, it_itd_moves = {}, it_should_output = None, it_emitted = []\<rparr>"

definition only_move :: "net \<Rightarrow> it_args \<Rightarrow> move \<Rightarrow> search_pars \<Rightarrow> it_state" where
  "only_move nt ia m sp =
     (let st = (it_start m)\<lparr>it_best_score := static_eval nt sp\<rparr>
      in give ia ((report_of ia 0 (0, 0) [m] st)\<lparr>rp_max_depth := 0\<rparr>) st)"

definition search_it :: "tablebases \<Rightarrow> net \<Rightarrow> it_args \<Rightarrow> it_env \<Rightarrow> nat \<Rightarrow> nat \<Rightarrow> search_pars \<Rightarrow>
    fault + ((move \<times> int \<times> int) \<times> report list \<times> search_pars)" where
  "search_it tb nt ia env fuel turns sp =
     (case legal_move_list (sp_pos sp) of
        [] \<Rightarrow> Inl No_legal_move
      | m # ms \<Rightarrow>
          and_then (if ms \<noteq> [] then it_loop tb nt ia env fuel turns 0 (it_start m) sp else Inr (only_move nt ia m sp, sp))
            (\<lambda>(st, sp).
              let sp = (if sp_thread_nr sp = 0 then set_flag sp else sp);
                  out = (case it_should_output st of
                      Some r \<Rightarrow> if ia_output ia = O_MINIMAL then it_emitted st @ [r] else it_emitted st
                    | None \<Rightarrow> it_emitted st)
              in Inr ((it_best_move st, it_best_score st, it_max_depth st), out, sp)))"

end
