(* ===== verification/Quiescence_Correct.thy ===== *)
theory Quiescence_Correct
  imports Quiescence
begin

text \<open>
  The quiescence search is a clipped negamax.  \<open>qs_value\<close> states its tree without windows, ordering,
  counters or tables; \<open>qs\<close> with any window answers a bound or the value of that tree, up to clipping at
  the mate threshold, where the loop gives up early.  Position and accumulators come back unchanged.
\<close>

section \<open>The tree\<close>

definition fresh_eval :: "net \<Rightarrow> position \<Rightarrow> int" where
  "fresh_eval nt p = the (nnue_evaluate nt (eval_set nt p) p)"

text \<open>The moves a node plays: legal, and out of check without a losing exchange.\<close>

definition qs_plays :: "position \<Rightarrow> move \<Rightarrow> bool" where
  "qs_plays p m \<longleftrightarrow> \<not> (see p m < 0 \<and> \<not> in_check p) \<and> is_legal_generated_move p m"

definition qs_moves :: "position \<Rightarrow> move set" where
  "qs_moves p = {m \<in> set (gen_qs_moves_into p). qs_plays p m}"

primrec qs_value :: "net \<Rightarrow> nat \<Rightarrow> int \<Rightarrow> position \<Rightarrow> int" where
  "qs_value nt 0 depth p = fresh_eval nt p"
| "qs_value nt (Suc n) depth p =
     (if is_drawn p then (if in_check p \<and> legal_move_list p = [] then - max_eval + depth else 0)
      else if in_check p \<and> qs_moves p = {} then - max_eval + depth
      else Max (insert (if in_check p then -32767 else fresh_eval nt p)
        ((\<lambda>m. - qs_value nt n (depth + 1) (make_move m p)) ` qs_moves p)))"

section \<open>Fail-soft answers\<close>

definition clip :: "int \<Rightarrow> int" where
  "clip x = max (- max_non_mate) (min max_non_mate x)"

lemma clip_mono: "x \<le> y \<Longrightarrow> clip x \<le> clip y"
  by (auto simp: clip_def)

lemma clip_minus [simp]: "clip (- x) = - clip x"
  by (auto simp: clip_def max_non_mate_def)

lemma clip_max: "clip (max x y) = max (clip x) (clip y)"
  by (auto simp: clip_def)

lemma clip_range: "- max_non_mate \<le> clip x" "clip x \<le> max_non_mate"
  by (auto simp: clip_def max_non_mate_def)

text \<open>The answer \<open>r\<close> to the window \<open>(a, b)\<close> for a position worth \<open>v\<close>.\<close>

definition answers :: "int \<Rightarrow> int \<Rightarrow> int \<Rightarrow> int \<Rightarrow> bool" where
  "answers a b r v \<longleftrightarrow>
     (r \<le> a \<longrightarrow> clip v \<le> clip r) \<and> (a < r \<and> r < b \<longrightarrow> clip r = clip v) \<and> (b \<le> r \<longrightarrow> clip r \<le> clip v)"

lemma answers_exact: "answers a b r r"
  by (simp add: answers_def)

lemma answers_negate: "answers (- b) (- a) r v \<Longrightarrow> answers a b (- r) (- v)"
  unfolding answers_def clip_minus by linarith

section \<open>The positions of a search\<close>

definition searchable :: "net \<Rightarrow> search_pars \<Rightarrow> bool" where
  "searchable nt sp \<longleftrightarrow> fair_game (sp_pos sp) \<and> card (pieces (sp_pos sp)) \<le> 32 \<and>
     sp_nnue_eval sp = eval_set nt (sp_pos sp)"

definition same_board :: "search_pars \<Rightarrow> search_pars \<Rightarrow> bool" where
  "same_board sp sp' \<longleftrightarrow> sp_pos sp' = sp_pos sp \<and> sp_nnue_eval sp' = sp_nnue_eval sp"

lemma same_board_refl [simp]: "same_board sp sp"
  by (simp add: same_board_def)

lemma same_board_trans: "same_board sp sq \<Longrightarrow> same_board sq sr \<Longrightarrow> same_board sp sr"
  by (simp add: same_board_def)

lemma same_board_searchable: "same_board sp sq \<Longrightarrow> searchable nt sp \<Longrightarrow> searchable nt sq"
  by (simp add: same_board_def searchable_def)

lemma searchable_eval: "searchable nt sp \<Longrightarrow> static_eval nt sp = fresh_eval nt (sp_pos sp)"
  by (simp add: searchable_def static_eval_def fresh_eval_def)

lemma qs_generated_pseudo_legal: "m \<in> set (gen_qs_moves_into p) \<Longrightarrow> m \<in> set (pseudo_legal_move_list p)"
  unfolding gen_qs_moves_into_def pseudo_legal_move_list_def pseudo_legal_move_list_of_def in_check_def Let_def
    generate_promotions_def generate_capture_moves_def generate_pawn_captures_def generate_quiet_moves_def
    generate_pawn_quiets_def
  by (auto split: if_splits)

lemma generated_legal:
  assumes "m \<in> set (pseudo_legal_move_list p)" "is_legal_generated_move p m"
  shows "m \<in> set (legal_move_list_of p (pos_side_to_move p))"
  using assms set_legal_list by blast

text \<open>A legal move takes a searchable state to a searchable state and restored.\<close>

lemma make_unmake:
  assumes "searchable nt sp" "m \<in> set (legal_move_list_of (sp_pos sp) (pos_side_to_move (sp_pos sp)))"
    and "sp_make_move nt m sp = (undo, sq)"
  shows "searchable nt sq" "sp_pos sq = make_move m (sp_pos sp)"
    "same_board sq sq' \<Longrightarrow> same_board sp (sp_unmake_move nt undo sq')"
proof -
  let ?p = "sp_pos sp"
  have fg: "fair_game ?p" "card (pieces ?p) \<le> 32" "sp_nnue_eval sp = eval_set nt ?p"
    using assms(1) by (simp_all add: searchable_def)
  then have go: "game_ok ?p" by (simp add: fair_game_def)
  have cm: "chess_move ?p (pos_side_to_move ?p) m" using legal_iff [OF fair_movable [OF fg(1)] refl] assms(2) by blast
  note E = eval_make_move_fresh [OF go cm fg(2)]
  have sq: "undo = move_events ?p m" "sq = sp\<lparr>sp_nnue_eval := eval_set nt (make_move m ?p), sp_pos := make_move m ?p\<rparr>"
    using assms(3) E(1) fg(3) by (simp_all add: sp_make_move_def)
  show "sp_pos sq = make_move m ?p" by (simp add: sq)
  show "searchable nt sq" using make_move_fair [OF fg(1) assms(2)] E(3) by (simp add: searchable_def sq)
  show "same_board sp (sp_unmake_move nt undo sq')" if "same_board sq sq'"
    using that E(2) fg(3) by (simp add: same_board_def sp_unmake_move_def sq)
qed

section \<open>The selection loop\<close>

lemma selected_range: "i < n \<Longrightarrow> i \<le> selected_idx scores i n \<and> selected_idx scores i n < n"
proof -
  have "i \<le> fold (\<lambda>j s. if scores ! j > scores ! s then j else s) js i0 \<and>
      fold (\<lambda>j s. if scores ! j > scores ! s then j else s) js i0 < n"
    if "set js \<subseteq> {i..<n}" "i \<le> i0" "i0 < n" for js i0
    using that by (induction js arbitrary: i0) auto
  then show "i < n \<Longrightarrow> ?thesis" by (simp add: selected_idx_def)
qed

lemma swap_at_nth: "j < length xs \<Longrightarrow> i < length xs \<Longrightarrow> k < length xs \<Longrightarrow>
    swap_at i j xs ! k = xs ! (if k = i then j else if k = j then i else k)"
  by (auto simp: swap_at_def nth_list_update)

lemma length_swap_at [simp]: "length (swap_at i j xs) = length xs"
  by (simp add: swap_at_def)

lemma mset_swap_at: "i < length xs \<Longrightarrow> j < length xs \<Longrightarrow> mset (swap_at i j xs) = mset xs"
  unfolding swap_at_def by (simp add: mset_swap)

lemma set_drop_swap:
  assumes "i \<le> s" "s < length xs"
  shows "set (drop i xs) = insert (swap_at s i xs ! i) (set (drop (Suc i) (swap_at s i xs)))"
proof -
  let ?ys = "swap_at s i xs"
  have i: "i < length xs" "i < length ?ys" using assms by simp_all
  have "take i ?ys = take i xs" using assms(1) by (simp add: swap_at_def)
  moreover have "mset (take i ?ys) + mset (drop i ?ys) = mset (take i xs) + mset (drop i xs)"
    unfolding mset_append [symmetric] append_take_drop_id using assms by (intro mset_swap_at) simp_all
  ultimately have "mset (drop i ?ys) = mset (drop i xs)" by simp
  then have "set (drop i xs) = set (drop i ?ys)" by (metis set_mset_mset)
  then show ?thesis using Cons_nth_drop_Suc [OF i(2)] by (metis list.simps(15))
qed

text \<open>The scores and moves stay paired while the loop swaps them.\<close>

definition paired :: "(move \<Rightarrow> int) \<Rightarrow> nat \<Rightarrow> int list \<Rightarrow> move list \<Rightarrow> bool" where
  "paired f n scores ml \<longleftrightarrow> length scores = n \<and> length ml = n \<and> (\<forall>i<n. scores ! i = f (ml ! i))"

lemma select_paired:
  assumes "paired f n scores ml" "i < n" "select_move i n (scores, ml) = (scores', ml')"
  shows "paired f n scores' ml'" "set (drop i ml) = insert (ml' ! i) (set (drop (Suc i) ml'))" "set ml' = set ml"
    "scores' ! i = f (ml' ! i)"
proof -
  let ?s = "selected_idx scores i n"
  have s: "i \<le> ?s" "?s < n" using selected_range [OF assms(2)] by auto
  have eq: "scores' = swap_at ?s i scores" "ml' = swap_at ?s i ml" using assms(3) by (simp_all add: select_move_def Let_def)
  have len: "length scores = n" "length ml = n" using assms(1) by (simp_all add: paired_def)
  show p: "paired f n scores' ml'" using assms(1,2) s by (auto simp: paired_def eq swap_at_nth)
  then show "scores' ! i = f (ml' ! i)" using assms(2) by (simp add: paired_def)
  show "set (drop i ml) = insert (ml' ! i) (set (drop (Suc i) ml'))"
    unfolding eq by (rule set_drop_swap) (use s len in simp_all)
  have "mset ml' = mset ml" unfolding eq by (rule mset_swap_at) (use s len assms(2) in simp_all)
  then show "set ml' = set ml" by (metis set_mset_mset)
qed

section \<open>The loop keeps a bound\<close>

text \<open>\<open>best\<close> stands for the best value \<open>v\<close> so far, in a window that starts at \<open>a0\<close>.\<close>

definition tracks :: "int \<Rightarrow> int \<Rightarrow> int \<Rightarrow> int \<Rightarrow> int \<Rightarrow> bool" where
  "tracks a0 beta alpha best v \<longleftrightarrow> -32767 \<le> a0 \<and> beta \<le> 32767 \<and> alpha = max a0 best \<and> a0 < beta \<and> best < beta \<and>
     (best \<le> a0 \<longrightarrow> clip v \<le> clip best) \<and> (a0 < best \<longrightarrow> clip best = clip v)"

lemma tracks_answers: "tracks a0 beta alpha best v \<Longrightarrow> answers a0 beta best v"
  by (auto simp: tracks_def answers_def)

lemma tracks_cutoff:
  assumes "tracks a0 beta alpha best v" "answers alpha beta score x" "score \<ge> beta" "x \<le> w"
  shows "answers a0 beta score w"
  using assms clip_mono [OF assms(4)] unfolding tracks_def answers_def by linarith

lemma tracks_step:
  assumes "tracks a0 beta alpha best v" "answers alpha beta score x" "\<not> (score > best \<and> score > alpha \<and> score \<ge> beta)"
  shows "tracks a0 beta (if score > best then if score > alpha then score else alpha else alpha)
    (if score > best then score else best) (max v x)"
proof (cases "score > best")
  case True
  have le: "clip best \<le> clip score" using True by (intro clip_mono) simp
  have sb: "score < beta" using assms(1,3) True unfolding tracks_def by linarith
  have "clip v \<le> clip score" using assms(1) le unfolding tracks_def by linarith
  moreover have "clip x \<le> clip score" if "score \<le> alpha" using that assms(2) unfolding answers_def by blast
  moreover have "clip score = clip x" if "alpha < score" using that sb assms(2) unfolding answers_def by blast
  ultimately show ?thesis using assms(1) True sb unfolding tracks_def clip_max
    by (cases "score > alpha") auto
next
  case False
  have le: "clip score \<le> clip best" using False by (intro clip_mono) simp
  have "clip x \<le> clip score" using assms False unfolding tracks_def answers_def by (auto simp: max_def split: if_splits)
  then show ?thesis using assms False le unfolding tracks_def clip_max by auto
qed

lemma tracks_early:
  assumes "tracks a0 beta alpha best v" "best \<ge> max_non_mate" "v \<le> w"
  shows "answers a0 beta best w"
proof -
  have "clip best = max_non_mate" using assms(2) by (simp add: clip_def max_non_mate_def)
  moreover have "clip w \<le> max_non_mate" "clip v \<le> clip w" using clip_range clip_mono [OF assms(3)] by blast+
  ultimately show ?thesis using assms(1) unfolding tracks_def answers_def by linarith
qed

text \<open>What a node may expect of the searcher that plays its children.\<close>

definition plays_for :: "net \<Rightarrow> nat \<Rightarrow> int \<Rightarrow> searcher \<Rightarrow> bool" where
  "plays_for nt n depth rec \<longleftrightarrow> (\<forall>a b sp. searchable nt sp \<longrightarrow> same_board sp (snd (rec a b depth sp)) \<and>
     (-32767 \<le> a \<and> a < b \<and> b \<le> 32767 \<longrightarrow> answers a b (fst (rec a b depth sp)) (qs_value nt n depth (sp_pos sp))))"

text \<open>The two ways through an iteration.\<close>

lemma qs_loop_skip:
  assumes "select_move (n - Suc k) n (qs_scores st, qs_ml st) = (scores, ml)"
    and "scores ! (n - Suc k) < 0 \<and> \<not> in_check (sp_pos sp) \<or>
      \<not> is_legal_generated_move_pinned (sp_pos sp) (ml ! (n - Suc k)) pinned"
  shows "qs_loop rec nt pinned beta d n (Suc k) st sp =
    qs_loop rec nt pinned beta d n k (st\<lparr>qs_scores := scores, qs_ml := ml\<rparr>) sp"
  using assms by (auto simp: Let_def)

definition qs_next :: "int list \<Rightarrow> move list \<Rightarrow> move \<Rightarrow> int \<Rightarrow> qs_state \<Rightarrow> qs_state" where
  "qs_next scores ml m score st =
     \<lparr>qs_scores = scores, qs_ml = ml, qs_n_played = qs_n_played st + 1,
      qs_best = (if score > qs_best st then score else qs_best st),
      qs_m = (if score > qs_best st then Some m else qs_m st),
      qs_alpha = (if score > qs_best st then if score > qs_alpha st then score else qs_alpha st else qs_alpha st)\<rparr>"

lemma qs_loop_play:
  assumes "select_move (n - Suc k) n (qs_scores st, qs_ml st) = (scores, ml)"
    and "\<not> (scores ! (n - Suc k) < 0 \<and> \<not> in_check (sp_pos sp) \<or>
      \<not> is_legal_generated_move_pinned (sp_pos sp) (ml ! (n - Suc k)) pinned)"
    and "sp_make_move nt (ml ! (n - Suc k)) sp = (undo, sq)" "rec (- beta) (- qs_alpha st) (d + 1) sq = (- score, sr)"
  defines "sp' \<equiv> sp_unmake_move nt undo sr" and "st' \<equiv> qs_next scores ml (ml ! (n - Suc k)) score st"
  shows "qs_loop rec nt pinned beta d n (Suc k) st sp =
    (if score > qs_best st \<and> score > qs_alpha st \<and> score \<ge> beta
     then (st'\<lparr>qs_alpha := qs_alpha st\<rparr>, bump Nmc_qnodes (bump_by (nat (qs_n_played st + 1)) N_qmoves_cutoff sp'))
     else if qs_n_played st + 1 \<ge> 3 \<and> qs_best st' \<ge> max_non_mate then (st', sp')
     else qs_loop rec nt pinned beta d n k st' sp')"
proof -
  have c: "(scores ! (n - Suc k) < 0 \<and> \<not> in_check (sp_pos sp)) = False"
    "is_legal_generated_move_pinned (sp_pos sp) (ml ! (n - Suc k)) pinned = True" using assms(2) by blast+
  show ?thesis using assms(4) unfolding qs_loop.simps(2) Let_def assms(1,3) case_prod_conv qs_state.select_convs qs_state.update_convs
      c if_False simp_thms sp'_def st'_def qs_next_def by (cases st) auto
qed

lemma Max_insert_twice: "finite S \<Longrightarrow> Max (insert v (insert x S)) = Max (insert (max v x) (S :: int set))"
  by (cases "S = {}") (simp_all add: max.assoc)

lemma qs_loop_correct:
  assumes child: "plays_for nt n' (d + 1) rec"
    and run: "qs_loop rec nt pinned beta d n k st sp = (st', sp')"
    and sp: "searchable nt sp" "pinned = pinned_pieces_of (sp_pos sp) (pos_side_to_move (sp_pos sp))"
    and ml: "paired (see (sp_pos sp)) n (qs_scores st) (qs_ml st)" "k \<le> n"
      "set (qs_ml st) \<subseteq> set (pseudo_legal_move_list (sp_pos sp))" "0 \<le> qs_n_played st"
  shows "same_board sp sp' \<and> 0 \<le> qs_n_played st' \<and>
    (qs_n_played st' = 0 \<longleftrightarrow> qs_n_played st = 0 \<and> {m \<in> set (drop (n - k) (qs_ml st)). qs_plays (sp_pos sp) m} = {}) \<and>
    ({m \<in> set (drop (n - k) (qs_ml st)). qs_plays (sp_pos sp) m} = {} \<longrightarrow> qs_best st' = qs_best st) \<and>
    (tracks a0 beta (qs_alpha st) (qs_best st) v \<longrightarrow> answers a0 beta (qs_best st')
      (Max (insert v ((\<lambda>m. - qs_value nt n' (d + 1) (make_move m (sp_pos sp))) `
        {m \<in> set (drop (n - k) (qs_ml st)). qs_plays (sp_pos sp) m}))))"
  using run sp ml
proof (induction k arbitrary: st sp v)
  case 0
  have "drop n (qs_ml st) = []" using "0.prems"(4) by (simp add: paired_def)
  then show ?case using "0.prems"(1,7) tracks_answers by auto
next
  case (Suc k)
  let ?p = "sp_pos sp" and ?i = "n - Suc k"
  let ?val = "\<lambda>m. - qs_value nt n' (d + 1) (make_move m ?p)"
  obtain scores ml where sel: "select_move ?i n (qs_scores st, qs_ml st) = (scores, ml)"
    by (cases "select_move ?i n (qs_scores st, qs_ml st)")
  have i: "?i < n" "Suc ?i = n - k" using Suc.prems(5) by simp_all
  note S = select_paired [OF Suc.prems(4) i(1) sel, unfolded i(2)]
  let ?m = "ml ! ?i"
  let ?Rest = "{m \<in> set (drop (n - k) ml). qs_plays ?p m}"
  have m: "?m \<in> set (pseudo_legal_move_list ?p)" "set ml \<subseteq> set (pseudo_legal_move_list ?p)"
    using S(1,3) i Suc.prems(6) nth_mem [of ?i ml] by (auto simp: paired_def)
  have pl: "qs_plays ?p ?m \<longleftrightarrow> \<not> (scores ! ?i < 0 \<and> \<not> in_check ?p \<or> \<not> is_legal_generated_move_pinned ?p ?m pinned)"
    using S(4) Suc.prems(3) by (simp add: qs_plays_def is_legal_generated_move_def)
  have kn: "k \<le> n" using Suc.prems(5) by simp
  show ?case
  proof (cases "qs_plays ?p ?m")
    case False
    then have R: "{m \<in> set (drop ?i (qs_ml st)). qs_plays ?p m} = ?Rest" unfolding S(2) by auto
    have "qs_loop rec nt pinned beta d n k (st\<lparr>qs_scores := scores, qs_ml := ml\<rparr>) sp = (st', sp')"
      using Suc.prems(1) qs_loop_skip [OF sel] False pl by metis
    from Suc.IH [OF this Suc.prems(2,3) _ kn, of v] show ?thesis unfolding R using S(1) m(2) Suc.prems(7) by simp
  next
    case True
    then have R: "{m \<in> set (drop ?i (qs_ml st)). qs_plays ?p m} = insert ?m ?Rest" unfolding S(2) by auto
    have lg: "?m \<in> set (legal_move_list_of ?p (pos_side_to_move ?p))"
      using generated_legal [OF m(1)] True by (simp add: qs_plays_def)
    obtain undo sq where mk: "sp_make_move nt ?m sp = (undo, sq)" by (cases "sp_make_move nt ?m sp")
    note M = make_unmake [OF Suc.prems(2) lg mk]
    obtain score sr where rec: "rec (- beta) (- qs_alpha st) (d + 1) sq = (- score, sr)"
      by (metis minus_minus surj_pair)
    let ?sp' = "sp_unmake_move nt undo sr" and ?st' = "qs_next scores ml ?m score st"
    have "same_board sq sr" using child M(1) rec unfolding plays_for_def by (metis snd_conv)
    then have restored: "same_board sp ?sp'" by (rule M(3))
    then have p': "sp_pos ?sp' = ?p" by (simp add: same_board_def)
    have ans: "answers (qs_alpha st) beta score (?val ?m)" if "tracks a0 beta (qs_alpha st) (qs_best st) v"
    proof -
      have "-32767 \<le> - beta \<and> - beta < - qs_alpha st \<and> - qs_alpha st \<le> 32767" using that by (auto simp: tracks_def)
      then have "answers (- beta) (- qs_alpha st) (- score) (qs_value nt n' (d + 1) (sp_pos sq))"
        using child M(1) rec unfolding plays_for_def by (metis fst_conv)
      then show ?thesis using answers_negate [of beta "qs_alpha st" "- score"] M(2) by simp
    qed
    have fin: "finite (?val ` ?Rest)" by simp
    have vm: "?val ?m \<le> Max (insert v (?val ` insert ?m ?Rest))" by (rule Max_ge) simp_all
    have "v \<le> Max (insert v (?val ` insert ?m ?Rest))" by (rule Max_ge) simp_all
    note W = max.boundedI [OF this vm] vm
    have Meq: "Max (insert v (?val ` insert ?m ?Rest)) = Max (insert (max v (?val ?m)) (?val ` ?Rest))"
      unfolding image_insert by (rule Max_insert_twice [OF fin])
    note eq = qs_loop_play [where st = st and sp = sp and rec = rec, OF sel _ mk rec]
    have st'_best: "qs_best ?st' = (if score > qs_best st then score else qs_best st)"
      "qs_n_played ?st' = qs_n_played st + 1" "qs_scores ?st' = scores" "qs_ml ?st' = ml"
      "qs_alpha ?st' = (if score > qs_best st then if score > qs_alpha st then score else qs_alpha st else qs_alpha st)"
      by (simp_all add: qs_next_def)
    consider (cut) "score > qs_best st \<and> score > qs_alpha st \<and> score \<ge> beta"
      | (early) "\<not> (score > qs_best st \<and> score > qs_alpha st \<and> score \<ge> beta)" "qs_n_played st + 1 \<ge> 3 \<and> qs_best ?st' \<ge> max_non_mate"
      | (go) "\<not> (score > qs_best st \<and> score > qs_alpha st \<and> score \<ge> beta)" "\<not> (qs_n_played st + 1 \<ge> 3 \<and> qs_best ?st' \<ge> max_non_mate)"
      by blast
    then show ?thesis
    proof cases
      case cut
      then have "st' = ?st'\<lparr>qs_alpha := qs_alpha st\<rparr>" "same_board sp sp'"
        using Suc.prems(1) eq True pl restored by (auto simp: same_board_def)
      then show ?thesis unfolding R using Suc.prems(7) cut st'_best(1,2) tracks_cutoff [OF _ ans _ W(2)] by auto
    next
      case early
      then have "st' = ?st'" "sp' = ?sp'" using Suc.prems(1) eq True pl by auto
      then show ?thesis unfolding R using Suc.prems(7) restored early st'_best
          tracks_early [OF tracks_step [OF _ ans early(1)] _ W(1)] by auto
    next
      case go
      then have "qs_loop rec nt pinned beta d n k ?st' ?sp' = (st', sp')" using Suc.prems(1) eq True pl by auto
      from Suc.IH [OF this same_board_searchable [OF restored Suc.prems(2)] _ _ kn, of "max v (?val ?m)"]
      have IH: "same_board ?sp' sp' \<and> 0 \<le> qs_n_played st' \<and> (qs_n_played st' = 0 \<longleftrightarrow> qs_n_played st + 1 = 0 \<and> ?Rest = {}) \<and>
        (tracks a0 beta (qs_alpha ?st') (qs_best ?st') (max v (?val ?m)) \<longrightarrow>
          answers a0 beta (qs_best st') (Max (insert (max v (?val ?m)) (?val ` ?Rest))))"
        using S(1) m(2) Suc.prems(3,7) by (simp add: p' st'_best)
      show ?thesis unfolding R Meq
        using IH Suc.prems(7) same_board_trans [OF restored] tracks_step [OF _ ans go(1)] unfolding st'_best(1,5) by auto
    qed
  qed
qed

section \<open>Nodes and the whole search\<close>

lemma qs_draw_same_board: "same_board sp (snd (qs_draw d sp))"
  by (simp add: qs_draw_def same_board_def)

lemma qs_node_plays:
  assumes child: "plays_for nt n (d + 1) rec"
  shows "plays_for nt (Suc n) d (qs_node rec nt)"
  unfolding plays_for_def
proof (intro allI impI)
  fix a b sp
  assume sp: "searchable nt sp"
  let ?p = "sp_pos sp" and ?c = "in_check (sp_pos sp)" and ?sp0 = "bump Qnodes sp"
  define sp1 where "sp1 = ?sp0\<lparr>sp_md := max (sp_md ?sp0) (word_of_int d)\<rparr>"
  have p1: "sp_pos sp1 = ?p" "same_board sp sp1" by (simp_all add: sp1_def same_board_def)
  have sp1: "searchable nt sp1" by (rule same_board_searchable [OF p1(2) sp])
  define base where "base = (if ?c then -32767 else static_eval nt sp1)"
  have base: "base = (if ?c then -32767 else fresh_eval nt ?p)" using searchable_eval [OF sp1] p1(1) by (simp add: base_def)
  let ?ml = "gen_qs_moves_into ?p" and ?pin = "pinned_pieces_of ?p (pos_side_to_move ?p)"
  let ?val = "\<lambda>m. - qs_value nt n (d + 1) (make_move m ?p)"
  define st0 where "st0 = \<lparr>qs_scores = map (see ?p) ?ml, qs_ml = ?ml, qs_n_played = 0, qs_best = base, qs_m = None,
      qs_alpha = (if ?c then a else max a base)\<rparr>"
  obtain st2 sp2 where run: "qs_loop rec nt ?pin b d (length ?ml) (length ?ml) st0 sp1 = (st2, sp2)"
    by (cases "qs_loop rec nt ?pin b d (length ?ml) (length ?ml) st0 sp1")
  have st0: "qs_scores st0 = map (see ?p) ?ml" "qs_ml st0 = ?ml" "qs_n_played st0 = 0" "qs_best st0 = base"
    "qs_alpha st0 = (if ?c then a else max a base)" by (simp_all add: st0_def)
  have Rest: "{m \<in> set (drop (length ?ml - length ?ml) (qs_ml st0)). qs_plays ?p m} = qs_moves ?p"
    by (simp add: st0 qs_moves_def)
  have L: "same_board sp1 sp2 \<and> 0 \<le> qs_n_played st2 \<and> (qs_n_played st2 = 0 \<longleftrightarrow> qs_moves ?p = {}) \<and>
    (qs_moves ?p = {} \<longrightarrow> qs_best st2 = base) \<and>
    (tracks a b (if ?c then a else max a base) base base \<longrightarrow> answers a b (qs_best st2) (Max (insert base (?val ` qs_moves ?p))))"
  proof -
    have pr: "paired (see (sp_pos sp1)) (length ?ml) (qs_scores st0) (qs_ml st0)" by (simp add: paired_def st0 p1(1))
    have sub: "set (qs_ml st0) \<subseteq> set (pseudo_legal_move_list (sp_pos sp1))"
      using qs_generated_pseudo_legal by (auto simp: st0 p1(1))
    have pin: "?pin = pinned_pieces_of (sp_pos sp1) (pos_side_to_move (sp_pos sp1))" by (simp add: p1(1))
    from qs_loop_correct [OF child run sp1 pin pr order.refl sub, of a base]
    show ?thesis unfolding p1(1) Rest unfolding st0 by simp
  qed
  then have sb2: "same_board sp sp2" using same_board_trans [OF p1(2)] by blast
  then have ev2: "static_eval nt sp2 = fresh_eval nt ?p" "sp_pos sp2 = ?p"
    using searchable_eval [OF same_board_searchable [OF sb2 sp]] by (simp_all add: same_board_def)
  define fin where "fin = qs_finish nt d ?c st2 sp2"
  have node: "qs_node rec nt a b d sp =
     (if is_drawn ?p then qs_draw d sp1
      else if \<not> ?c \<and> base > a \<and> base \<ge> b then (base, bump N_standing_pat sp1)
      else (fst fin, qs_store (pos_hash ?p) a b d (fst fin) (qs_m st2) (snd fin)))"
    unfolding qs_node_def Let_def sp1_def [symmetric] p1(1) base_def [symmetric] st0_def [symmetric] run fin_def case_prod_conv
    by (simp add: case_prod_unfold cong: if_cong)
  have sbfin: "same_board sp (snd fin)" using sb2 by (simp add: fin_def qs_finish_def same_board_def)
  have sb: "same_board sp (snd (qs_node rec nt a b d sp))"
    unfolding node using p1(2) qs_draw_same_board [of sp1 d] sbfin by (auto simp: same_board_def)
  have "answers a b (fst (qs_node rec nt a b d sp)) (qs_value nt (Suc n) d ?p)"
    if win: "-32767 \<le> a \<and> a < b \<and> b \<le> 32767"
  proof -
    have fst_fin: "fst fin = (if qs_moves ?p = {} then if ?c then - max_eval + d else base else qs_best st2)"
      using L ev2 base by (auto simp: fin_def qs_finish_def)
    consider (drawn) "is_drawn ?p" | (pat) "\<not> is_drawn ?p" "\<not> ?c \<and> base > a \<and> base \<ge> b"
      | (mate) "\<not> is_drawn ?p" "?c" "qs_moves ?p = {}"
      | (quiet) "\<not> is_drawn ?p" "\<not> ?c" "\<not> (base > a \<and> base \<ge> b)" "qs_moves ?p = {}"
      | (loop) "\<not> is_drawn ?p" "\<not> (\<not> ?c \<and> base > a \<and> base \<ge> b)" "qs_moves ?p \<noteq> {}" by blast
    then show ?thesis
    proof cases
      case drawn
      then show ?thesis unfolding node by (simp add: qs_draw_def p1(1) answers_exact)
    next
      case pat
      have "base \<le> Max (insert base (?val ` qs_moves ?p))" by (rule Max_ge) (simp_all add: qs_moves_def)
      then have "clip base \<le> clip (Max (insert base (?val ` qs_moves ?p)))" by (rule clip_mono)
      then show ?thesis unfolding node using pat base by (auto simp: answers_def)
    next
      case mate
      then show ?thesis unfolding node by (simp add: fst_fin answers_exact)
    next
      case quiet
      then show ?thesis unfolding node using base by (simp add: fst_fin answers_exact)
    next
      case loop
      have "tracks a b (if ?c then a else max a base) base base" using win loop(2) base by (auto simp: tracks_def)
      then show ?thesis unfolding node using L loop base by (auto simp: fst_fin)
    qed
  qed
  then show "same_board sp (snd (qs_node rec nt a b d sp)) \<and> (-32767 \<le> a \<and> a < b \<and> b \<le> 32767 \<longrightarrow>
      answers a b (fst (qs_node rec nt a b d sp)) (qs_value nt (Suc n) d ?p))"
    using sb by blast
qed

lemma qs_rec_plays: "plays_for nt n d (qs_rec nt n)"
proof (induction n arbitrary: d)
  case 0
  show ?case by (simp add: plays_for_def searchable_eval answers_exact)
next
  case (Suc n)
  then show ?case unfolding qs_rec.simps by (rule qs_node_plays)
qed

lemma qs_same_board: "searchable nt sp \<Longrightarrow> same_board sp (snd (qs nt a b d sp))"
  using qs_rec_plays unfolding plays_for_def qs_def by blast

section \<open>Bounds\<close>

text \<open>No arithmetic of the network overflows for the loaded weights.\<close>

definition net_defined :: "net \<Rightarrow> bool" where
  "net_defined nt \<longleftrightarrow> (\<forall>e p. nnue_evaluate nt e p \<noteq> None)"

lemma static_eval_bounds:
  assumes "net_defined nt"
  shows "- max_non_mate \<le> static_eval nt sp" "static_eval nt sp \<le> max_non_mate"
proof -
  obtain v where v: "nnue_evaluate nt (sp_nnue_eval sp) (sp_pos sp) = Some v" using assms by (auto simp: net_defined_def)
  have "net_evaluate nt us them = Some v \<Longrightarrow> - max_non_mate \<le> v \<and> v \<le> max_non_mate" for us them
    by (auto simp: net_evaluate_def bind_eq_Some_conv max_non_mate_def)
  then show "- max_non_mate \<le> static_eval nt sp" "static_eval nt sp \<le> max_non_mate"
    using v by (auto simp: static_eval_def nnue_evaluate_def eval_evaluate_def split: if_splits)
qed

definition bounded :: "int \<Rightarrow> bool" where
  "bounded v \<longleftrightarrow> - max_eval \<le> v \<and> v \<le> max_eval"

lemma qs_loop_bounded:
  assumes "\<And>a b sp. bounded (fst (rec a b (d + 1) sp))"
    and "0 \<le> qs_n_played st" "qs_best st \<le> max_eval" "-32767 \<le> qs_best st" "0 < qs_n_played st \<longrightarrow> - max_eval \<le> qs_best st"
  shows "(let st' = fst (qs_loop rec nt pinned beta d n k st sp) in qs_n_played st \<le> qs_n_played st' \<and> qs_best st' \<le> max_eval \<and>
    (0 < qs_n_played st' \<longrightarrow> - max_eval \<le> qs_best st') \<and> (qs_n_played st' = 0 \<longrightarrow> qs_best st' = qs_best st))"
  using assms(2-)
proof (induction k arbitrary: st sp)
  case (Suc k)
  let ?i = "n - Suc k"
  obtain scores ml where sel: "select_move ?i n (qs_scores st, qs_ml st) = (scores, ml)"
    by (cases "select_move ?i n (qs_scores st, qs_ml st)")
  show ?case
  proof (cases "scores ! ?i < 0 \<and> \<not> in_check (sp_pos sp) \<or> \<not> is_legal_generated_move_pinned (sp_pos sp) (ml ! ?i) pinned")
    case True
    show ?thesis unfolding qs_loop_skip [OF sel True] using Suc.IH [of "st\<lparr>qs_scores := scores, qs_ml := ml\<rparr>" sp] Suc.prems by simp
  next
    case False
    obtain undo sq where mk: "sp_make_move nt (ml ! ?i) sp = (undo, sq)" by (cases "sp_make_move nt (ml ! ?i) sp")
    obtain score sr where rec: "rec (- beta) (- qs_alpha st) (d + 1) sq = (- score, sr)"
      by (metis minus_minus surj_pair)
    have s: "- max_eval \<le> score" "score \<le> max_eval" using assms(1) [of "- beta" "- qs_alpha st" sq] rec by (auto simp: bounded_def)
    let ?st' = "qs_next scores ml (ml ! ?i) score st"
    have st': "qs_n_played ?st' = qs_n_played st + 1" "0 < qs_n_played ?st'" "qs_best ?st' \<le> max_eval" "- max_eval \<le> qs_best ?st'"
      using Suc.prems s by (auto simp: qs_next_def)
    then have low: "- 32767 \<le> qs_best ?st'" by (simp add: max_eval_def)
    have IH: "let st'' = fst (qs_loop rec nt pinned beta d n k ?st' (sp_unmake_move nt undo sr)) in
        qs_n_played ?st' \<le> qs_n_played st'' \<and> qs_best st'' \<le> max_eval \<and> (0 < qs_n_played st'' \<longrightarrow> - max_eval \<le> qs_best st'') \<and>
        (qs_n_played st'' = 0 \<longrightarrow> qs_best st'' = qs_best ?st')"
      by (rule Suc.IH) (use st' low in simp_all)
    show ?thesis unfolding qs_loop_play [where st = st and sp = sp and rec = rec, OF sel False mk rec]
      using IH st' Suc.prems(1) by (simp add: Let_def)
  qed
qed (use assms(2-) in simp)

lemma qs_node_bounded:
  assumes "net_defined nt" "0 \<le> d" "d \<le> 2 * max_eval" "\<And>a b sp. bounded (fst (rec a b (d + 1) sp))"
  shows "bounded (fst (qs_node rec nt a b d sp))"
proof -
  note ev = static_eval_bounds [OF assms(1)]
  have B: "- max_eval \<le> - max_non_mate" "max_non_mate \<le> max_eval" "- 32767 \<le> - max_non_mate" "- 32767 \<le> max_eval" "0 \<le> max_eval"
    "- 32767 \<le> - max_eval"
    by (simp_all add: max_eval_def max_non_mate_def)
  have draw: "bounded (fst (qs_draw d sp))" for sp using assms(2,3) B by (auto simp: qs_draw_def bounded_def)
  have mate: "bounded (- max_eval + d)" using assms(2,3) by (simp add: bounded_def)
  have se: "bounded (static_eval nt sp)" for sp using ev [of sp] B unfolding bounded_def by linarith
  have loop: "bounded (fst (qs_finish nt d c (fst (qs_loop rec nt pinned beta d n k st sp)) sp'))"
    if "qs_n_played st = 0" "qs_best st = -32767 \<or> bounded (qs_best st)" for c pinned beta n k st sp sp'
    using qs_loop_bounded [of rec d st nt pinned beta n k sp, OF assms(4)] that B se [of sp'] mate
    by (auto simp: qs_finish_def Let_def bounded_def)
  show ?thesis
    unfolding qs_node_def Let_def case_prod_unfold fst_conv using draw se loop by simp
qed

lemma qs_rec_bounded:
  assumes "net_defined nt"
  shows "0 \<le> d \<Longrightarrow> d + int n \<le> 127 \<Longrightarrow> bounded (fst (qs_rec nt n a b d sp))"
proof (induction n arbitrary: d a b sp)
  case 0
  show ?case using static_eval_bounds [OF assms, of sp] by (simp add: bounded_def max_eval_def max_non_mate_def)
next
  case (Suc n)
  show ?case unfolding qs_rec.simps
    by (rule qs_node_bounded [OF assms]) (use Suc in \<open>simp_all add: max_eval_def\<close>)
qed

lemma qs_bounded:
  assumes "net_defined nt" "0 \<le> d" "d \<le> 127"
  shows "bounded (fst (qs nt a b d sp))"
  unfolding qs_def by (rule qs_rec_bounded [OF assms(1,2)]) (use assms(3) in simp)

section \<open>A small search\<close>

definition flat_net :: net where
  "flat_net = ensure_init (\<lambda>_. 0)"

definition small_search :: search_pars where
  "small_search =
     \<lparr>sp_history = replicate (nat history_size) 0, sp_capture_history = Some (replicate (nat capture_history_size) 0),
      sp_butterfly_history = Some (replicate (nat butterfly_history_size) 0),
      sp_cont_history = Some (replicate (nat cont_history_size) 0),
      sp_stop = (\<lambda>n. n \<ge> 1000), sp_reads = 0, sp_thread_nr = 0,
      sp_cs = \<lparr>cs_data = (\<lambda>_. 0), cs_win = (\<lambda>_. 0), cs_draw = 0\<rparr>, sp_cur_move = 0, sp_md = 0,
      sp_pos = small_game, sp_best_moves = replicate 128 0, sp_nnue_eval = eval_set flat_net small_game,
      sp_scratch = (\<lambda>_. \<lparr>scr_fills = 0, scr_pv = []\<rparr>), sp_tt = tiny_table, sp_asserts = True\<rparr>"

lemma flat_net_evaluates: "nnue_evaluate flat_net e p = Some 0"
proof -
  have "output_dot acc (output_weights (ensure_init (\<lambda>_. 0)) k) = Some 0" for acc k
    by (simp add: output_dot_sum lane_output_def output_weights_def ensure_init_def)
  then show ?thesis
    by (simp add: flat_net_def nnue_evaluate_def eval_evaluate_def net_evaluate_def as_int_def trunc_div_def output_bias_def
        ensure_init_def max_non_mate_def)
qed

lemma flat_net_defined: "net_defined flat_net"
  by (simp add: net_defined_def flat_net_evaluates)

lemma small_pieces: "card (pieces small_game) \<le> 32"
proof -
  have "pieces small_game \<subseteq> {(4, KING, WHITE), (60, KING, BLACK), (12, PAWN, WHITE)}"
    by (auto simp: pieces_def pawn_game_has on_board_def nat_eq_iff)
  then have "card (pieces small_game) \<le> card {(4 :: int, KING, WHITE), (60, KING, BLACK), (12, PAWN, WHITE)}"
    by (rule card_mono [rotated]) simp
  then show ?thesis by simp
qed

lemma small_searchable: "searchable flat_net small_search"
  using small_pieces small_fair by (simp add: searchable_def small_search_def)

section \<open>Properties\<close>

text \<open>C4 (refinement). The quiescence search implements its abstract tree: whatever the window, the order of the
  moves and the contents of the tables, its answer is the value of the tree, an upper bound when it is at or
  below alpha, a lower bound when it is at or above beta, all up to clipping at the mate threshold, where
  the loop stops early.\<close>

theorem quiescence_refines_negamax:
  assumes "searchable nt sp" "-32767 \<le> alpha" "alpha < beta" "beta \<le> 32767"
  shows "let r = fst (qs nt alpha beta qsdepth sp); v = qs_value nt (nat (127 - qsdepth)) qsdepth (sp_pos sp) in
    (r \<le> alpha \<longrightarrow> clip v \<le> clip r) \<and> (alpha < r \<and> r < beta \<longrightarrow> clip r = clip v) \<and> (beta \<le> r \<longrightarrow> clip r \<le> clip v)"
  using qs_rec_plays [of nt "nat (127 - qsdepth)" qsdepth] assms unfolding plays_for_def qs_def answers_def Let_def by blast

theorem quiescence_refines_negamax_witness:
  "let r = fst (qs flat_net (-100) 100 0 small_search); v = qs_value flat_net 127 0 small_game in
    (r \<le> -100 \<longrightarrow> clip v \<le> clip r) \<and> (-100 < r \<and> r < 100 \<longrightarrow> clip r = clip v) \<and> (100 \<le> r \<longrightarrow> clip r \<le> clip v)"
  using quiescence_refines_negamax [OF small_searchable, of "-100" 100 0] by (simp add: small_search_def)

text \<open>C31 (bounds). The assertions at the end of \<open>qs\<close> hold: from any state its score lies between
  \<open>-max_eval\<close> and \<open>max_eval\<close>, whatever the window.\<close>

theorem quiescence_score_in_range:
  assumes "net_defined nt" "0 \<le> qsdepth" "qsdepth \<le> 127"
  shows "- max_eval \<le> fst (qs nt alpha beta qsdepth sp) \<and> fst (qs nt alpha beta qsdepth sp) \<le> max_eval"
  using qs_bounded [OF assms] by (simp add: bounded_def)

theorem quiescence_score_in_range_witness: "fst (qs flat_net (-5) 7 3 small_search) \<le> max_eval"
  using quiescence_score_in_range [OF flat_net_defined, of 3] by simp

end
