(* ===== verification/Search_Frame.thy ===== *)
theory Search_Frame
  imports Search Quiescence_Correct
begin

text \<open>
  What a search leaves behind.  The locale \<open>search_frame\<close> is the contract between the search and a property of
  its parameters: a precondition \<open>ok\<close> that may use the fuel, a relation \<open>rel\<close> that every step at a level keeps
  and the faults allowed.  Its theorem \<open>search_keeps\<close> is the one induction over the search; the properties
  of the search are interpretations.
\<close>

section \<open>Outcomes\<close>

definition ensures :: "(fault \<Rightarrow> bool) \<Rightarrow> ('a \<Rightarrow> bool) \<Rightarrow> fault + 'a \<Rightarrow> bool" where
  "ensures F P r = (case r of Inl e \<Rightarrow> F e | Inr x \<Rightarrow> P x)"

lemma ensures_simps [simp]: "ensures F P (Inl e) = F e" "ensures F P (Inr x) = P x"
  by (simp_all add: ensures_def)

lemma ensures_then:
  assumes "ensures G Q r" "\<And>e. G e \<Longrightarrow> F e" "\<And>x. r = Inr x \<Longrightarrow> Q x \<Longrightarrow> ensures F P (f x)"
  shows "ensures F P (and_then r f)"
  using assms by (cases r) auto

lemma ensures_mono: "ensures G Q r \<Longrightarrow> (\<And>e. G e \<Longrightarrow> F e) \<Longrightarrow> (\<And>x. Q x \<Longrightarrow> P x) \<Longrightarrow> ensures F P r"
  by (cases r) auto

section \<open>Passing\<close>

lemma eval_set_cong:
  assumes "pos_piece_bb q = pos_piece_bb p" "pos_color_bb q = pos_color_bb p"
  shows "eval_set nt q = eval_set nt p"
  using assms unfolding eval_set_def by (simp add: piece_type_color_bb_def)

lemma pass_searchable:
  assumes "searchable nt sp" "\<not> in_check (sp_pos sp)"
  shows "searchable nt (sp\<lparr>sp_pos := make_null_move (sp_pos sp)\<rparr>)" "unmake_move (make_null_move (sp_pos sp)) = sp_pos sp"
proof -
  let ?p = "sp_pos sp"
  have f: "fair_game ?p" using assms(1) by (simp add: searchable_def)
  then have ok: "stack_ok ?p" by (simp add: fair_game_def game_ok_def pos_ok_def)
  note F = make_null_move_fields [OF ok]
  have "pieces (make_null_move ?p) = pieces ?p" using has_cong [OF F(1,2)] by (simp add: pieces_def)
  then show "searchable nt (sp\<lparr>sp_pos := make_null_move ?p\<rparr>)"
    using assms make_null_move_fair [OF f assms(2)] eval_set_cong [OF F(1,2)] by (simp add: searchable_def)
  show "unmake_move (make_null_move ?p) = ?p" by (rule unmake_null_move [OF ok])
qed

section \<open>One turn of the loop\<close>

lemma search_loop_skip:
  assumes "select_move (nv_n_moves nv - Suc k) (nv_n_moves nv) (ls_scores st, ls_ml st) = (scores, ml)"
    and "\<not> is_legal_generated_move_pinned (sp_pos sp) (ml ! (nv_n_moves nv - Suc k)) (nv_pinned nv)"
  shows "search_loop rec nt nv (Suc k) st sp = search_loop rec nt nv k (st\<lparr>ls_scores := scores, ls_ml := ml\<rparr>) sp"
  using assms by simp

lemma search_loop_futile:
  assumes "select_move (nv_n_moves nv - Suc k) (nv_n_moves nv) (ls_scores st, ls_ml st) = (scores, ml)"
    and "is_legal_generated_move_pinned (sp_pos sp) (ml ! (nv_n_moves nv - Suc k)) (nv_pinned nv)"
    and "futile nv (st\<lparr>ls_scores := scores, ls_ml := ml\<rparr>) (ml ! (nv_n_moves nv - Suc k))"
  shows "search_loop rec nt nv (Suc k) st sp =
    search_loop rec nt nv k (st\<lparr>ls_scores := scores, ls_ml := ml\<rparr>) (bump N_futility_prune sp)"
  using assms by simp

definition ls_next :: "int list \<Rightarrow> move list \<Rightarrow> move \<Rightarrow> int \<Rightarrow> move \<Rightarrow> loop_state \<Rightarrow> loop_state" where
  "ls_next scores ml m score new_move st =
     st\<lparr>ls_scores := scores, ls_ml := ml, ls_n_played := ls_n_played st + 1, ls_new_move := new_move,
      ls_best := (if score > ls_best st then score else ls_best st), ls_m := (if score > ls_best st then m else ls_m st),
      ls_alpha := (if score > ls_best st \<and> score > ls_alpha st then score else ls_alpha st)\<rparr>"

lemma search_loop_play:
  assumes "select_move (nv_n_moves nv - Suc k) (nv_n_moves nv) (ls_scores st, ls_ml st) = (scores, ml)"
    and "is_legal_generated_move_pinned (sp_pos sp) (ml ! (nv_n_moves nv - Suc k)) (nv_pinned nv)"
    and "\<not> futile nv (st\<lparr>ls_scores := scores, ls_ml := ml\<rparr>) (ml ! (nv_n_moves nv - Suc k))"
    and "sp_make_move nt (ml ! (nv_n_moves nv - Suc k)) (sp\<lparr>sp_cur_move := ml ! (nv_n_moves nv - Suc k)\<rparr>) = (undo, sq)"
  defines "m \<equiv> ml ! (nv_n_moves nv - Suc k)"
  shows "search_loop rec nt nv (Suc k) st sp =
    and_then (child_search rec nv (st\<lparr>ls_scores := scores, ls_ml := ml\<rparr>) m sq) (\<lambda>(is_lmr, score, new_move, sr).
      if scr_fills (sp_scratch sr (scr_of (nv_level nv))) \<noteq> nv_fills nv then Inl Buffers_overwritten
      else let sp' = sp_unmake_move nt undo sr; st' = ls_next scores ml m score new_move st;
               sp'' = (if score > ls_best st then update_pv (nv_level nv) m sp' else sp')
           in if score > ls_best st \<and> score > ls_alpha st \<and> score \<ge> nv_beta nv
              then Inr (st'\<lparr>ls_alpha := ls_alpha st, ls_cutoff := Some m\<rparr>, if is_lmr then bump N_lmr_hit sp'' else sp'')
              else search_loop rec nt nv k st' sp'')"
proof -
  have c: "(\<not> is_legal_generated_move_pinned (sp_pos sp) m (nv_pinned nv)) = False"
    "futile nv (st\<lparr>ls_scores := scores, ls_ml := ml\<rparr>) m = False" using assms(2,3) unfolding m_def by blast+
  show ?thesis
    unfolding search_loop.simps(2) Let_def assms(1,4) case_prod_conv m_def [symmetric] c if_False
    unfolding assms(4) [folded m_def] case_prod_conv
    by (rule arg_cong [where f = "and_then _"], rule ext) (cases st, auto simp: ls_next_def Let_def)
qed

text \<open>What a run over the last \<open>k\<close> moves of a position returns: if it improves the best score, a legal move, and if
  nothing is pruned and a legal move is left, some move is played.\<close>

definition loop_result :: "node_vars \<Rightarrow> nat \<Rightarrow> position \<Rightarrow> loop_state \<Rightarrow> loop_state \<Rightarrow> bool" where
  "loop_result nv k p st st' \<longleftrightarrow> ls_n_played st \<le> ls_n_played st' \<and>
     (ls_best st' = ls_best st \<and> ls_m st' = ls_m st \<or>
      ls_best st < ls_best st' \<and> ls_m st' \<in> set (legal_move_list_of p (pos_side_to_move p))) \<and>
     (\<not> nv_futility_ok nv \<and> (\<exists>m\<in>set (drop (nv_n_moves nv - k) (ls_ml st)). is_legal_generated_move p m) \<longrightarrow>
      ls_n_played st < ls_n_played st')"

lemma paired_map: "paired f (length xs) (map f xs) xs"
  by (simp add: paired_def)

lemma update_pv_fills [simp]: "scr_fills (sp_scratch (update_pv l m sp) i) = scr_fills (sp_scratch sp i)"
  by (simp add: update_pv_def set_scratch_def Let_def)

lemma bump_scratch [simp]: "sp_scratch (bump_by k s sp) = sp_scratch sp"
  by (simp add: bump_by_def)

lemma update_pv_board [simp]: "sp_pos (update_pv l m sp) = sp_pos sp"
  by (simp add: update_pv_def set_scratch_def Let_def)

section \<open>The contract\<close>

text \<open>Away and back: the board and the accumulators, which making a move replaces.\<close>

definition with_board :: "eval \<Rightarrow> position \<Rightarrow> search_pars \<Rightarrow> search_pars" where
  "with_board e p sp = sp\<lparr>sp_nnue_eval := e, sp_pos := p\<rparr>"

locale search_frame =
  fixes nt :: net
    and ok :: "nat \<Rightarrow> search_pars \<Rightarrow> bool"
    and rel :: "int \<Rightarrow> search_pars \<Rightarrow> search_pars \<Rightarrow> bool"
    and faults :: "nat \<Rightarrow> int \<Rightarrow> fault \<Rightarrow> bool"
  assumes ok_searchable: "ok n sp \<Longrightarrow> searchable nt sp"
    and rel_same: "rel l a b \<Longrightarrow> same_board a b"
    and rel_refl: "rel l sp sp"
    and rel_trans: "rel l a b \<Longrightarrow> rel l b c \<Longrightarrow> rel l a c"
    and rel_deeper: "rel (l + 1) a b \<Longrightarrow> rel l a b"
    and ok_rel: "ok n a \<Longrightarrow> rel l a b \<Longrightarrow> ok n b"
    and rel_cs: "rel l sp (sp\<lparr>sp_cs := cs\<rparr>)"
    and rel_tt: "rel l sp (sp\<lparr>sp_tt := t\<rparr>)"
    and rel_cur_move: "rel l sp (sp\<lparr>sp_cur_move := m\<rparr>)"
    and rel_read: "rel l sp (snd (read_stop sp))"
    and rel_pv: "rel l sp (set_scratch i ((sp_scratch sp i)\<lparr>scr_pv := pv\<rparr>) sp)"
    and rel_fill: "rel l sp (fill_buffers l sp)"
    and rel_history: "rel l sp (update_history i d sp)"
    and rel_capture_history: "rel l sp (update_capture_history i d sp)"
    and rel_butterfly_history: "rel l sp (update_butterfly_history i d sp)"
    and rel_cont_history: "rel l sp (update_cont_history i d sp)"
    and rel_qs: "ok n sp \<Longrightarrow> rel l sp (snd (qs nt alpha beta depth sp))"
    and ok_away: "ok n sp \<Longrightarrow> searchable nt (with_board e p sp) \<Longrightarrow> ok n (with_board e p sp)"
    and rel_back: "rel l (with_board e p sp) sq \<Longrightarrow> same_board sp (with_board e' p' sq) \<Longrightarrow> rel l sp (with_board e' p' sq)"
    and ok_read: "ok (Suc n) sp \<Longrightarrow> \<not> fst (read_stop sp) \<Longrightarrow> ok n (snd (read_stop sp))"
    and no_fuel: "ok 0 sp \<Longrightarrow> faults 0 l Out_of_fuel"
    and faults_up: "faults n (l + 1) f \<Longrightarrow> faults (Suc n) l f"
    and overwritten: "rel (l + 1) a b \<Longrightarrow> scr_fills (sp_scratch b (scr_of l)) \<noteq> scr_fills (sp_scratch a (scr_of l)) \<Longrightarrow>
      faults (Suc n) l Buffers_overwritten"
begin

subsection \<open>Steps that only keep books\<close>

lemma rel_step: "rel l a b \<Longrightarrow> rel l b c \<Longrightarrow> rel l a c"
  by (rule rel_trans)

lemma rel_bump: "rel l a b \<Longrightarrow> rel l a (bump_by k s b)" "rel l a b \<Longrightarrow> rel l a (bump_win c b)" "rel l a b \<Longrightarrow> rel l a (bump_draw b)"
  by (auto simp: bump_by_def bump_win_def bump_draw_def intro: rel_trans rel_cs)

lemma rel_table: "rel l a b \<Longrightarrow> rel l a (snd (tt_query h b))" "rel l a b \<Longrightarrow> rel l a (tt_put h f d v m b)"
  using rel_bump(1) rel_trans rel_tt unfolding tt_query_def tt_put_def Let_def case_prod_unfold snd_conv by blast+

lemma rel_tt_hit: "rel l a b \<Longrightarrow> rel l a (snd (tt_hit te b))"
  by (auto simp: tt_hit_def Let_def intro: rel_bump split: option.split)

lemma rel_search_draw: "rel l a b \<Longrightarrow> rel l a (snd (search_draw csd b))"
  by (auto simp: search_draw_def intro: rel_bump)

lemma rel_syzygy: "rel l a b \<Longrightarrow> rel l a (snd (syzygy_score tb b))"
  by (auto simp: syzygy_score_def Let_def intro: rel_bump split: option.split)

lemma rel_no_moves: "rel l a b \<Longrightarrow> rel l a (snd (no_moves c csd st b))"
  by (auto simp: no_moves_def intro: rel_bump)

lemma rel_store: "rel l a b \<Longrightarrow> rel l a (search_store h al be d csd v m b)"
  unfolding search_store_def Let_def case_prod_unfold
  by (auto intro: rel_table rel_bump rel_trans [OF _ rel_read])

lemma rel_learn_captures: "rel l a b \<Longrightarrow> rel l a (learn_captures c d ms b)"
  by (induction ms arbitrary: b)
    (auto simp: Let_def intro: rel_trans [OF _ rel_capture_history] split: option.split)

lemma rel_learn_quiet: "rel l a b \<Longrightarrow> rel l a (learn_quiet pt m d b)"
  unfolding learn_quiet_def Let_def
  by (auto intro!: rel_trans [OF _ rel_history] rel_trans [OF _ rel_butterfly_history] rel_trans [OF _ rel_cont_history])

lemma rel_learn_quiets: "rel l a b \<Longrightarrow> rel l a (learn_quiets c d ms b)"
  by (induction ms arbitrary: b) (auto intro: rel_learn_quiet split: option.split)

lemma rel_learn: "rel l a b \<Longrightarrow> rel l a (learn d st b)"
  by (auto simp: learn_def Let_def intro!: rel_bump rel_learn_captures rel_learn_quiets split: option.split)

lemma rel_clear_pv: "rel l a b \<Longrightarrow> rel l a (clear_pv k b)"
  unfolding clear_pv_def Let_def by (rule rel_trans [OF _ rel_pv])

lemma rel_update_pv: "rel l a b \<Longrightarrow> rel l a (update_pv k m b)"
  unfolding update_pv_def Let_def by (rule rel_trans [OF _ rel_pv])

lemma rel_shallow:
  assumes "ok n b" "rel l a b"
  shows "case shallow nt md is_root d al be tm b of Inl (v, c) \<Rightarrow> rel l a c | Inr (v, f, c) \<Rightarrow> rel l a c"
proof -
  let ?c = "bump N_razor (bump N_static_eval b)"
  have "rel l b ?c" by (intro rel_bump(1) rel_refl)
  then have "rel l b (snd (qs nt al be md ?c))" using rel_trans rel_qs ok_rel [OF assms(1)] by blast
  then have "rel l a (snd (qs nt al be md ?c))" by (rule rel_trans [OF assms(2)])
  then show ?thesis using assms(2)
    by (auto simp: shallow_def Let_def case_prod_unfold intro: rel_bump)
qed

subsection \<open>Searches of children\<close>

text \<open>What a node may expect of the searcher of its children.\<close>

definition child_keeps :: "nat \<Rightarrow> int \<Rightarrow> node_search \<Rightarrow> bool" where
  "child_keeps n l rec \<longleftrightarrow> (\<forall>d al be nmd m sp. ok n sp \<longrightarrow>
     ensures (faults n l) (\<lambda>(_, _, sp'). rel l sp sp') (rec d al be nmd l m sp))"

lemma negated_keeps:
  assumes "child_keeps n l rec" "ok n sp"
  shows "ensures (faults n l) (\<lambda>(_, _, sp'). rel l sp sp') (negated rec d al be nmd l m sp)"
  unfolding negated_def
  by (rule ensures_then [where Q = "\<lambda>(_, _, sp'). rel l sp sp'"]) (use assms in \<open>auto simp: child_keeps_def\<close>)

lemma chained:
  assumes "child_keeps n l rec" "ok n a" "rel l a b" "P \<Longrightarrow> r = negated rec d al be nmd l m b" "\<not> P \<Longrightarrow> r = Inr (v, m', b)"
  shows "ensures (faults n l) (\<lambda>(_, _, c). rel l a c) r"
proof (cases P)
  case True
  show ?thesis unfolding assms(4) [OF True]
    by (rule ensures_mono [OF negated_keeps [OF assms(1) ok_rel [OF assms(2,3)]]]) (auto intro: rel_trans [OF assms(3)])
qed (use assms(3,5) in simp)

lemma child_search_keeps:
  assumes "child_keeps n (nv_level nv + 1) rec" "ok n sp"
  shows "ensures (faults n (nv_level nv + 1)) (\<lambda>(_, _, _, sp'). rel (nv_level nv + 1) sp sp') (child_search rec nv st m sp)"
proof (cases "ls_n_played st = 0")
  case True
  then show ?thesis unfolding child_search_def Let_def if_P [OF True]
    by (auto intro!: ensures_then [OF negated_keeps [OF assms]])
next
  case False
  let ?l = "nv_level nv + 1" and ?lmr = "ls_n_played st \<ge> nv_lmr_start nv \<and> \<not> is_capture_move m \<and> \<not> is_promotion_move m"
  let ?Q = "\<lambda>(_, _, c). rel ?l sp c"
  define sp1 where "sp1 = (if ?lmr then bump N_lmr sp else sp)"
  have r1: "rel ?l sp sp1" by (simp add: sp1_def rel_refl rel_bump)
  show ?thesis
    unfolding child_search_def Let_def if_not_P [OF False] sp1_def [symmetric]
    apply (rule ensures_then [where Q = ?Q])
      apply (rule chained [OF assms r1 refl, where P = True], simp, assumption)
    apply (clarsimp split del: if_split)
    apply (rule ensures_then [where Q = ?Q])
      apply (rule chained [OF assms], assumption, erule if_P, erule if_not_P, assumption)
    apply (clarsimp split del: if_split)
    apply (rule ensures_then [where Q = ?Q])
      apply (rule chained [OF assms], assumption, erule if_P, erule if_not_P, assumption)
    apply auto
    done
qed

lemma try_null_move_keeps:
  assumes "child_keeps n (l + 1) rec" "ok n sp"
  shows "ensures (faults n (l + 1)) (\<lambda>(_, sp'). rel (l + 1) sp sp') (try_null_move rec is_root d be nmd l sp)"
proof (cases "d \<ge> 2 \<and> \<not> in_check (sp_pos sp) \<and> \<not> is_root \<and> nmd < 2")
  case False
  show ?thesis unfolding try_null_move_def Let_def if_not_P [OF False] by (simp add: rel_refl)
next
  case True
  let ?p = "sp_pos sp"
  define sp1 where "sp1 = bump N_null_move sp"
  have r1: "rel (l + 1) sp sp1" by (simp add: sp1_def rel_refl rel_bump(1))
  have ok1: "ok n sp1" by (rule ok_rel [OF assms(2) r1])
  have p1: "sp_pos sp1 = ?p" by (simp add: sp1_def)
  have pass: "searchable nt (sp1\<lparr>sp_pos := make_null_move ?p\<rparr>)" "unmake_move (make_null_move ?p) = ?p"
    using pass_searchable [OF ok_searchable [OF ok1]] True unfolding p1 by blast+
  have away: "sp1\<lparr>sp_pos := make_null_move ?p\<rparr> = with_board (sp_nnue_eval sp1) (make_null_move ?p) sp1"
    by (simp add: with_board_def)
  have ok2: "ok n (sp1\<lparr>sp_pos := make_null_move ?p\<rparr>)"
    using ok_away [OF ok1] pass(1) unfolding away by blast
  have home: "rel (l + 1) sp (sq\<lparr>sp_pos := unmake_move (sp_pos sq)\<rparr>)" if "rel (l + 1) (sp1\<lparr>sp_pos := make_null_move ?p\<rparr>) sq" for sq
  proof -
    have eq: "sq\<lparr>sp_pos := unmake_move (sp_pos sq)\<rparr> = with_board (sp_nnue_eval sq) (unmake_move (sp_pos sq)) sq"
      by (simp add: with_board_def)
    have "same_board sp1 (sq\<lparr>sp_pos := unmake_move (sp_pos sq)\<rparr>)"
      using rel_same [OF that] pass(2) by (simp add: same_board_def p1)
    then show ?thesis using rel_trans [OF r1 rel_back] that unfolding eq away by blast
  qed
  show ?thesis
    unfolding try_null_move_def Let_def if_P [OF True] sp1_def [symmetric] p1
    apply (rule ensures_then [OF negated_keeps [OF assms(1) ok2]], assumption)
    apply (clarsimp split del: if_split)
    subgoal premises prems for nmscore m' sq
    proof -
      note b = home [OF prems(2)]
      have r: "ensures (faults n (l + 1)) (\<lambda>(_, _, c). rel (l + 1) sp c) (rec d' al be' nmd' (l + 1) 0 (sq\<lparr>sp_pos := unmake_move (sp_pos sq)\<rparr>))"
        for d' al be' nmd'
        by (rule ensures_mono [where Q = "\<lambda>(_, _, c). rel (l + 1) (sq\<lparr>sp_pos := unmake_move (sp_pos sq)\<rparr>) c"])
          (use assms(1) ok_rel [OF assms(2) b] rel_trans [OF b] in \<open>auto simp: child_keeps_def\<close>)
      show ?thesis using b by (auto intro!: ensures_then [OF r] rel_bump(1))
    qed
    done
qed

lemma make_move_away:
  assumes "ok n sp" "m \<in> set (legal_move_list_of (sp_pos sp) (pos_side_to_move (sp_pos sp)))"
    and "sp_make_move nt m sp = (undo, sq)"
  shows "ok n sq" "sp_scratch sq = sp_scratch sp" "sp_scratch (sp_unmake_move nt undo sr) = sp_scratch sr"
    and "rel (l + 1) sq sr \<Longrightarrow> rel l sp (sp_unmake_move nt undo sr)"
proof -
  note M = make_unmake [OF ok_searchable [OF assms(1)] assms(2,3)]
  obtain e p where sq: "sq = with_board e p sp"
    using assms(3) by (auto simp: sp_make_move_def with_board_def case_prod_unfold Let_def)
  obtain e' p' where un: "sp_unmake_move nt undo sr = with_board e' p' sr"
    by (simp add: sp_unmake_move_def with_board_def case_prod_unfold Let_def)
  show "ok n sq" using ok_away [OF assms(1)] M(1) unfolding sq by blast
  show "sp_scratch sq = sp_scratch sp" "sp_scratch (sp_unmake_move nt undo sr) = sp_scratch sr"
    by (simp_all add: sq un with_board_def)
  assume r: "rel (l + 1) sq sr"
  show "rel l sp (sp_unmake_move nt undo sr)"
    using rel_back [of l e p sp sr e' p'] rel_deeper [OF r] M(3) [OF rel_same [OF r]] unfolding sq un by blast
qed

lemma loop_keeps:
  assumes rec: "child_keeps n (l + 1) rec" "nv_level nv = l"
    and sp: "ok n sp" "nv_pinned nv = pinned_pieces_of (sp_pos sp) (pos_side_to_move (sp_pos sp))"
      "scr_fills (sp_scratch sp (scr_of l)) = nv_fills nv"
    and ml: "paired f (nv_n_moves nv) (ls_scores st) (ls_ml st)" "k \<le> nv_n_moves nv"
      "set (ls_ml st) \<subseteq> set (pseudo_legal_move_list (sp_pos sp))" "0 \<le> ls_n_played st"
  shows "ensures (faults (Suc n) l) (\<lambda>(st', sp'). rel l sp sp' \<and> loop_result nv k (sp_pos sp) st st')
    (search_loop rec nt nv k st sp)"
  using sp ml
proof (induction k arbitrary: st sp)
  case 0
  then show ?case by (simp add: rel_refl loop_result_def paired_def)
next
  case (Suc k)
  let ?p = "sp_pos sp" and ?n = "nv_n_moves nv" and ?i = "nv_n_moves nv - Suc k"
  let ?Legal = "set (legal_move_list_of ?p (pos_side_to_move ?p))"
  obtain scores ml where sel: "select_move ?i ?n (ls_scores st, ls_ml st) = (scores, ml)"
    by (cases "select_move ?i ?n (ls_scores st, ls_ml st)")
  have i: "?i < ?n" "Suc ?i = ?n - k" using Suc.prems(5) by simp_all
  note S = select_paired [OF Suc.prems(4) i(1) sel, unfolded i(2)]
  let ?m = "ml ! ?i" and ?st = "st\<lparr>ls_scores := scores, ls_ml := ml\<rparr>"
  have m: "?m \<in> set (pseudo_legal_move_list ?p)" "set ml \<subseteq> set (pseudo_legal_move_list ?p)"
    using S(1,3) i Suc.prems(6) nth_mem [of ?i ml] by (auto simp: paired_def)
  have leg: "is_legal_generated_move_pinned ?p ?m (nv_pinned nv) \<longleftrightarrow> is_legal_generated_move ?p ?m"
    using Suc.prems(2) by (simp add: is_legal_generated_move_def)
  have kn: "k \<le> ?n" using Suc.prems(5) by simp
  have IH: "ensures (faults (Suc n) l) (\<lambda>(st', sp'). rel l sp sp' \<and> loop_result nv (Suc k) ?p st st') (search_loop rec nt nv k st1 sp1)"
    if "rel l sp sp1" "scr_fills (sp_scratch sp1 (scr_of l)) = nv_fills nv" "ls_scores st1 = scores" "ls_ml st1 = ml"
      "0 \<le> ls_n_played st1" "\<And>st'. loop_result nv k ?p st1 st' \<Longrightarrow> loop_result nv (Suc k) ?p st st'" for st1 sp1
  proof -
    have p1: "sp_pos sp1 = ?p" using rel_same [OF that(1)] by (simp add: same_board_def)
    have "ensures (faults (Suc n) l) (\<lambda>(st', sp'). rel l sp1 sp' \<and> loop_result nv k (sp_pos sp1) st1 st') (search_loop rec nt nv k st1 sp1)"
      by (rule Suc.IH) (use that S(1) m(2) kn Suc.prems(2) ok_rel [OF Suc.prems(1) that(1)] in \<open>simp_all add: p1\<close>)
    then show ?thesis by (rule ensures_mono) (auto simp: p1 intro: rel_trans [OF that(1)] that(6))
  qed
  consider (skip) "\<not> is_legal_generated_move ?p ?m" | (futile) "is_legal_generated_move ?p ?m" "futile nv ?st ?m"
    | (play) "is_legal_generated_move ?p ?m" "\<not> futile nv ?st ?m" by blast
  then show ?case
  proof cases
    case skip
    then have eq: "search_loop rec nt nv (Suc k) st sp = search_loop rec nt nv k ?st sp" using search_loop_skip [OF sel] leg by blast
    have "loop_result nv k ?p ?st st' \<Longrightarrow> loop_result nv (Suc k) ?p st st'" for st'
      using skip unfolding loop_result_def S(2) by auto
    then show ?thesis unfolding eq by (intro IH) (use Suc.prems(3,7) rel_refl in auto)
  next
    case futile
    then have eq: "search_loop rec nt nv (Suc k) st sp = search_loop rec nt nv k ?st (bump N_futility_prune sp)"
      using search_loop_futile [OF sel] leg by blast
    have "loop_result nv k ?p ?st st' \<Longrightarrow> loop_result nv (Suc k) ?p st st'" for st'
      using futile(2) unfolding loop_result_def by (auto simp: futile_def)
    then show ?thesis unfolding eq
      by (intro IH rel_bump(1) rel_refl) (use Suc.prems(3,7) in auto)
  next
    case play
    let ?sp = "sp\<lparr>sp_cur_move := ?m\<rparr>"
    obtain undo sq where mk: "sp_make_move nt ?m ?sp = (undo, sq)" by (cases "sp_make_move nt ?m ?sp")
    have legal: "?m \<in> ?Legal" by (rule generated_legal [OF m(1) play(1)])
    have A: "ok n sq" "sp_scratch sq = sp_scratch sp" "sp_scratch (sp_unmake_move nt undo sr) = sp_scratch sr"
      "rel (l + 1) sq sr \<Longrightarrow> rel l sp (sp_unmake_move nt undo sr)" for sr
    proof -
      have ok1: "ok n ?sp" by (rule ok_rel [OF Suc.prems(1) rel_cur_move])
      have legal1: "?m \<in> set (legal_move_list_of (sp_pos ?sp) (pos_side_to_move (sp_pos ?sp)))" using legal by simp
      note M = make_move_away [OF ok1 legal1 mk]
      show "ok n sq" "sp_scratch sq = sp_scratch sp" "sp_scratch (sp_unmake_move nt undo sr) = sp_scratch sr"
        using M(1-3) by simp_all
      show "rel (l + 1) sq sr \<Longrightarrow> rel l sp (sp_unmake_move nt undo sr)"
        by (rule rel_trans [OF rel_cur_move M(4)])
    qed
    note child = child_search_keeps [OF rec(1) [folded rec(2)] A(1), where st = ?st and m = ?m, unfolded rec(2)]
    show ?thesis
      unfolding search_loop_play [where nv = nv and rec = rec, OF sel leg [THEN iffD2, OF play(1)] play(2) mk]
    proof (rule ensures_then [OF child faults_up], assumption, clarify)
      fix is_lmr score new_move sr
      assume r: "rel (l + 1) sq sr"
      let ?sp1 = "sp_unmake_move nt undo sr" and ?st1 = "ls_next scores ml ?m score new_move st"
      let ?sp2 = "if score > ls_best st then update_pv l ?m ?sp1 else ?sp1"
      have r2: "rel l sp ?sp2" using A(4) [OF r] rel_update_pv by simp
      have res: "loop_result nv k ?p ?st1 st' \<Longrightarrow> loop_result nv (Suc k) ?p st st'" for st'
        using legal unfolding loop_result_def ls_next_def by (auto split: if_splits)
      show "ensures (faults (Suc n) l) (\<lambda>(st', sp'). rel l sp sp' \<and> loop_result nv (Suc k) ?p st st')
        (if scr_fills (sp_scratch sr (scr_of (nv_level nv))) \<noteq> nv_fills nv then Inl Buffers_overwritten
         else let sp' = ?sp1; st' = ?st1; sp'' = (if score > ls_best st then update_pv (nv_level nv) ?m sp' else sp')
           in if score > ls_best st \<and> score > ls_alpha st \<and> score \<ge> nv_beta nv
              then Inr (st'\<lparr>ls_alpha := ls_alpha st, ls_cutoff := Some ?m\<rparr>, if is_lmr then bump N_lmr_hit sp'' else sp'')
              else search_loop rec nt nv k st' sp'')"
      proof (cases "scr_fills (sp_scratch sr (scr_of l)) = nv_fills nv")
        case False
        then show ?thesis using overwritten [OF r] Suc.prems(3) A(2) rec(2) by simp
      next
        case True
        have f2: "scr_fills (sp_scratch ?sp2 (scr_of l)) = nv_fills nv" using True A(3) by simp
        have "ensures (faults (Suc n) l) (\<lambda>(st', sp'). rel l sp sp' \<and> loop_result nv (Suc k) ?p st st')
          (search_loop rec nt nv k ?st1 ?sp2)"
          by (rule IH [OF r2 f2]) (use Suc.prems(7) res in \<open>auto simp: ls_next_def\<close>)
        moreover have "loop_result nv (Suc k) ?p st (?st1\<lparr>ls_alpha := ls_alpha st, ls_cutoff := Some ?m\<rparr>)"
          using legal unfolding loop_result_def ls_next_def by auto
        ultimately show ?thesis using True r2 rec(2) rel_bump(1) [OF r2] by (auto simp: Let_def)
      qed
    qed
  qed
qed

subsection \<open>Nodes\<close>

definition move_result :: "position \<Rightarrow> int \<Rightarrow> bool \<Rightarrow> int \<Rightarrow> move \<Rightarrow> bool" where
  "move_result p alpha futility_ok score m' \<longleftrightarrow>
     \<not> futility_ok \<and> -32767 \<le> alpha \<and> alpha < score \<and> legal_move_list_of p (pos_side_to_move p) \<noteq> [] \<longrightarrow>
     m' \<in> set (legal_move_list_of p (pos_side_to_move p))"

lemma rel_finish:
  assumes "rel l a b"
  shows "rel l a (search_store h al be d csd v m (snd (no_moves c csd st (learn dd st b))))"
  by (intro rel_store rel_no_moves rel_learn assms)

lemma play_moves_keeps:
  assumes rec: "child_keeps n (l + 1) rec" and ok: "ok n sp"
  shows "ensures (faults (Suc n) l) (\<lambda>(v, m', sp'). rel l sp sp' \<and> move_result (sp_pos sp) alpha fo v m')
    (play_moves rec nt hash csd d alpha be nmd l tm se fo m sp)"
proof -
  let ?p = "sp_pos sp" and ?ml = "pseudo_legal_move_list (sp_pos sp)"
  define sp1 where "sp1 = fill_buffers l sp"
  have r1: "rel l sp sp1" by (simp add: sp1_def rel_fill)
  have p1: "sp_pos sp1 = ?p" using rel_same [OF r1] by (simp add: same_board_def)
  show ?thesis
    unfolding play_moves_def Let_def sp1_def [symmetric] p1
  proof (rule ensures_then [OF loop_keeps [OF rec, where f = "move_evaluater sp1
      ((case tm of Some t \<Rightarrow> [t] | None \<Rightarrow> []) @ (if m \<noteq> 0 \<and> is_capture_move m then [m] else []))"]], goal_cases)
    case (10 x)
    obtain st sp2 where x: "x = (st, sp2)" by (cases x)
    note L = 10(2) [unfolded x case_prod_conv loop_result_def p1 node_vars.select_convs loop_state.select_convs
        diff_self_eq_0 drop_0]
    have r: "rel l sp sp2" by (rule rel_trans [OF r1 conjunct1 [OF L]])
    have 1: "ls_n_played st = 0 \<Longrightarrow> \<not> fo \<Longrightarrow> {m \<in> set ?ml. is_legal_generated_move ?p m} = {}"
      using L by auto
    have 2: "ls_best st = -32767 \<or> ls_m st \<in> set (legal_move_list_of ?p (pos_side_to_move ?p))" using L by blast
    have "move_result ?p alpha fo (fst (no_moves (in_check ?p) csd st (learn d st sp2))) (ls_m st)"
    proof (cases "ls_n_played st = 0")
      case True
      have "fo \<or> set (legal_move_list_of ?p (pos_side_to_move ?p)) = {}" using 1 [OF True] unfolding set_legal_list by blast
      then show ?thesis by (auto simp: move_result_def)
    next
      case False
      then show ?thesis using 2 by (auto simp: move_result_def no_moves_def)
    qed
    then show ?case using rel_finish [OF r] by (simp add: x case_prod_unfold)
  next
    case 2
    show ?case by (rule ok_rel [OF ok r1])
  next
    case 5
    show ?case unfolding node_vars.select_convs loop_state.select_convs by (rule paired_map)
  qed (simp_all add: p1)
qed

lemma node_keeps:
  assumes rec: "child_keeps n (l + 1) rec" and ok: "ok n sp"
  shows "ensures (faults (Suc n) l)
    (\<lambda>(v, m', sp'). rel l sp sp' \<and> (d = md \<and> alpha < v \<and> v < be \<longrightarrow> move_result (sp_pos sp) alpha False v m'))
    (search_node tb nt md rec d alpha be nmd l m sp)"
proof -
  let ?p = "sp_pos sp" and ?csd = "md - d + 1" and ?h = "pos_hash (sp_pos sp)"
  let ?P = "\<lambda>(v, m', sp'). rel l sp sp' \<and> (d = md \<and> alpha < v \<and> v < be \<longrightarrow> move_result ?p alpha False v m')"
  have pos: "sp_pos b = ?p" if "rel l sp b" for b using rel_same [OF that] by (simp add: same_board_def)
  define sp1 where "sp1 = bump Nodes sp"
  have r1: "rel l sp sp1" by (simp add: sp1_def rel_refl rel_bump(1))
  obtain te sp2 where q: "tt_query ?h sp1 = (te, sp2)" by (cases "tt_query ?h sp1")
  have r2: "rel l sp sp2" using rel_table(1) [OF r1, of ?h] q by simp
  obtain tm sp3 where h: "tt_hit te sp2 = (tm, sp3)" by (cases "tt_hit te sp2")
  have r3: "rel l sp sp3" using rel_tt_hit [OF r2, of te] h by simp
  define used where "used = tt_score te d alpha be ?csd"
  define sp4 where "sp4 = (if used \<noteq> None then bump Tt_cutoff sp3 else sp3)"
  have r4: "rel l sp sp4" using r3 rel_bump(1) [OF r3] by (simp add: sp4_def)
  define d' where "d' = (if te = None \<and> alpha \<noteq> be - 1 \<and> d \<ge> 4 then d - 1 else d)"
  define tbr where "tbr = (if with_syzygy tb \<and> md \<noteq> d then syzygy_score tb sp4 else (None, sp4))"
  have r5: "rel l sp (snd tbr)" using r4 rel_syzygy [OF r4] by (simp add: tbr_def)
  have ok5: "ok n (snd tbr)" by (rule ok_rel [OF ok r5])
  have node: "search_node tb nt md rec d alpha be nmd l m sp =
     (if md \<noteq> d \<and> search_drawn ?p then (let (score, sp) = search_draw ?csd sp1 in Inr (score, m, sp))
      else if used \<noteq> None \<and> (tm \<noteq> None \<or> md \<noteq> d) then Inr (the used, case tm of Some t \<Rightarrow> t | None \<Rightarrow> m, sp4)
      else case mate_distance te tm ?csd alpha be of
        Some score \<Rightarrow> Inr (score, m, sp4)
      | None \<Rightarrow> (case fst tbr of
          Some score \<Rightarrow> Inr (score, m, snd tbr)
        | None \<Rightarrow> (case shallow nt md (md = d) d' alpha be tm (snd tbr) of
            Inl (score, sp) \<Rightarrow> Inr (score, m, sp)
          | Inr (staticeval, futility_ok, sp) \<Rightarrow>
              and_then (try_null_move rec (md = d) d' be nmd l sp) (\<lambda>(nm_score, sp). case nm_score of
                Some score \<Rightarrow> Inr (score, m, sp)
              | None \<Rightarrow> play_moves rec nt ?h ?csd d' alpha be nmd l tm staticeval futility_ok m sp))))"
    unfolding search_node_def Let_def sp1_def [symmetric] pos [OF r1] q case_prod_conv h used_def [symmetric] sp4_def [symmetric]
      d'_def [symmetric] tbr_def [symmetric]
    by (simp add: case_prod_unfold cong: option.case_cong)
  have draw: "rel l sp (snd (search_draw ?csd sp1))" by (rule rel_search_draw [OF r1])
  have mate: "\<not> (alpha < v \<and> v < be)" if "mate_distance te tm ?csd alpha be = Some v" "d = md" for v
    using that by (auto simp: mate_distance_def max_eval_def Let_def split: if_splits)
  have used: "\<not> (alpha < the used \<and> the used < be)" if "used \<noteq> None"
    using that by (auto simp: used_def tt_score_def split: option.splits if_splits)
  have rest: "ensures (faults (Suc n) l) ?P
    (case shallow nt md (md = d) d' alpha be tm (snd tbr) of
       Inl (score, sp) \<Rightarrow> Inr (score, m, sp)
     | Inr (staticeval, futility_ok, sp) \<Rightarrow>
         and_then (try_null_move rec (md = d) d' be nmd l sp) (\<lambda>(nm_score, sp). case nm_score of
           Some score \<Rightarrow> Inr (score, m, sp)
         | None \<Rightarrow> play_moves rec nt ?h ?csd d' alpha be nmd l tm staticeval futility_ok m sp))"
  proof (cases "shallow nt md (md = d) d' alpha be tm (snd tbr)")
    case (Inl r)
    obtain v b where r: "r = (v, b)" by (cases r)
    have "md \<noteq> d" using Inl by (auto simp: shallow_def split: if_splits)
    moreover have "rel l sp b" using rel_shallow [OF ok5 r5, of md "md = d" d' alpha be tm] Inl by (simp add: r)
    ultimately show ?thesis unfolding Inl r sum.case case_prod_conv by simp
  next
    case (Inr r)
    obtain se fo b where r: "r = (se, fo, b)" by (cases r)
    have rb: "rel l sp b" using rel_shallow [OF ok5 r5, of md "md = d" d' alpha be tm] Inr by (simp add: r)
    have fo: "\<not> fo" if "md = d" using that Inr by (auto simp: shallow_def r)
    show ?thesis unfolding Inr r sum.case case_prod_conv
    proof (rule ensures_then [OF try_null_move_keeps [OF rec ok_rel [OF ok rb]] faults_up], assumption, clarify)
      fix nm c
      assume nm: "try_null_move rec (md = d) d' be nmd l b = Inr (nm, c)" and bc: "rel (l + 1) b c"
      have rc: "rel l sp c" by (rule rel_trans [OF rb rel_deeper [OF bc]])
      have "nm = None" if "md = d" using nm that by (simp add: try_null_move_def)
      moreover have "ensures (faults (Suc n) l) ?P (play_moves rec nt ?h ?csd d' alpha be nmd l tm se fo m c)"
        by (rule ensures_mono [OF play_moves_keeps [OF rec ok_rel [OF ok rc]]])
          (use fo in \<open>auto simp: pos [OF rc] move_result_def intro: rel_trans [OF rc]\<close>)
      ultimately show "ensures (faults (Suc n) l) ?P (case nm of
          Some score \<Rightarrow> Inr (score, m, c)
        | None \<Rightarrow> play_moves rec nt ?h ?csd d' alpha be nmd l tm se fo m c)"
        using rc by (cases nm) auto
    qed
  qed
  show ?thesis unfolding node
    using draw r4 r5 mate used rest
    by (auto simp: case_prod_unfold tbr_def Let_def split: option.split)
qed

lemma enter_keeps:
  assumes rec: "child_keeps n (l + 1) rec" and ok: "ok (Suc n) sp"
  shows "ensures (faults (Suc n) l)
    (\<lambda>(v, m', sp'). rel l sp sp' \<and>
      (d = md \<and> d \<noteq> 0 \<and> \<not> fst (read_stop sp) \<and> alpha < v \<and> v < be \<longrightarrow> move_result (sp_pos sp) alpha False v m'))
    (search_enter tb nt md rec d alpha be nmd l m sp)"
proof (cases "fst (read_stop sp)")
  case True
  then show ?thesis using rel_read [of l sp] by (simp add: search_enter_def case_prod_unfold Let_def)
next
  case False
  define sp1 where "sp1 = clear_pv l (snd (read_stop sp))"
  have r1: "rel l sp sp1" unfolding sp1_def by (intro rel_clear_pv rel_read)
  have ok1: "ok n sp1"
    using ok_rel [OF ok_read [OF ok False] rel_clear_pv [OF rel_refl]] by (simp add: sp1_def)
  have p1: "sp_pos sp1 = sp_pos sp" using rel_same [OF r1] by (simp add: same_board_def)
  have enter: "search_enter tb nt md rec d alpha be nmd l m sp =
     (if d = 0 then (let (score, sp) = qs nt alpha be md sp1 in Inr (score, m, sp))
      else search_node tb nt md rec d alpha be nmd l m sp1)"
    using False by (simp add: search_enter_def case_prod_unfold Let_def sp1_def)
  show ?thesis
  proof (cases "d = 0")
    case True
    then show ?thesis unfolding enter using rel_trans [OF r1 rel_qs [OF ok1]] by (simp add: case_prod_unfold Let_def)
  next
    case False
    then show ?thesis unfolding enter if_not_P [OF False]
      by (auto intro!: ensures_mono [OF node_keeps [OF rec ok1]] simp: p1 intro: rel_trans [OF r1])
  qed
qed

theorem search_keeps: "child_keeps n l (search tb nt md n)"
proof (induction n arbitrary: l)
  case 0
  show ?case by (simp add: child_keeps_def no_fuel)
next
  case (Suc n)
  show ?case unfolding child_keeps_def search.simps
    by (intro allI impI, rule ensures_mono [OF enter_keeps [OF Suc]]) auto
qed

text \<open>The root: a score inside the window comes with a legal move.\<close>

lemma root_move:
  assumes "ok (Suc n) sp" "md \<noteq> 0" "\<not> fst (read_stop sp)" "-32767 \<le> alpha"
    "legal_move_list_of (sp_pos sp) (pos_side_to_move (sp_pos sp)) \<noteq> []"
  shows "ensures (faults (Suc n) l) (\<lambda>(v, m', sp'). rel l sp sp' \<and> (alpha < v \<and> v < be \<longrightarrow>
      m' \<in> set (legal_move_list_of (sp_pos sp) (pos_side_to_move (sp_pos sp)))))
    (search tb nt md (Suc n) md alpha be nmd l m sp)"
  unfolding search.simps
  by (rule ensures_mono [OF enter_keeps [OF search_keeps assms(1)]]) (use assms in \<open>auto simp: move_result_def\<close>)

end

end
