(* ===== verification/Search_Correct.thy ===== *)
theory Search_Correct
  imports Search_Frame
begin

text \<open>
  The properties of the alpha-beta search, each an interpretation of \<open>search_frame\<close>: it gives the position and
  the accumulators back, keeps the history tables within the bounds its assertions state, and returns once
  the stop flag is set.
\<close>

section \<open>What the quiescence search leaves alone\<close>

definition same_tables :: "search_pars \<Rightarrow> search_pars \<Rightarrow> bool" where
  "same_tables a b \<longleftrightarrow> sp_history b = sp_history a \<and> sp_capture_history b = sp_capture_history a \<and>
     sp_butterfly_history b = sp_butterfly_history a \<and> sp_cont_history b = sp_cont_history a \<and>
     sp_asserts b = sp_asserts a \<and> sp_stop b = sp_stop a \<and> sp_scratch b = sp_scratch a \<and> sp_reads a \<le> sp_reads b"

lemma same_tables_refl [simp]: "same_tables sp sp"
  by (simp add: same_tables_def)

lemma same_tables_trans: "same_tables a b \<Longrightarrow> same_tables b c \<Longrightarrow> same_tables a c"
  by (auto simp: same_tables_def)

lemma same_tables_step:
  "same_tables a b \<Longrightarrow> same_tables a (bump_by k s b)" "same_tables a b \<Longrightarrow> same_tables a (bump_win c b)"
  "same_tables a b \<Longrightarrow> same_tables a (bump_draw b)" "same_tables a b \<Longrightarrow> same_tables a (b\<lparr>sp_md := d\<rparr>)"
  "same_tables a b \<Longrightarrow> same_tables a (snd (sp_make_move nt m b))" "same_tables a b \<Longrightarrow> same_tables a (sp_unmake_move nt u b)"
  "same_tables a b \<Longrightarrow> same_tables a (snd (read_stop b))" "same_tables a b \<Longrightarrow> same_tables a (tt_put h f v w mo b)"
  by (simp_all add: same_tables_def bump_by_def bump_win_def bump_draw_def sp_make_move_def sp_unmake_move_def
      read_stop_def tt_put_def Let_def case_prod_unfold)

lemma qs_loop_tables:
  assumes "\<And>a b sp. same_tables sp (snd (rec a b (d + 1) sp))"
  shows "same_tables sp (snd (qs_loop rec nt pinned beta d n k st sp))"
proof (induction k arbitrary: st sp)
  case (Suc k)
  obtain scores ml where sel: "select_move (n - Suc k) n (qs_scores st, qs_ml st) = (scores, ml)"
    by (cases "select_move (n - Suc k) n (qs_scores st, qs_ml st)")
  show ?case
  proof (cases "scores ! (n - Suc k) < 0 \<and> \<not> in_check (sp_pos sp) \<or>
      \<not> is_legal_generated_move_pinned (sp_pos sp) (ml ! (n - Suc k)) pinned")
    case True
    show ?thesis unfolding qs_loop_skip [OF sel True] by (rule Suc.IH)
  next
    case False
    obtain undo sq where mk: "sp_make_move nt (ml ! (n - Suc k)) sp = (undo, sq)" by (cases "sp_make_move nt (ml ! (n - Suc k)) sp")
    obtain score sr where rec: "rec (- beta) (- qs_alpha st) (d + 1) sq = (- score, sr)" by (metis minus_minus surj_pair)
    have "same_tables sp sq" using same_tables_step(5) [of sp sp nt "ml ! (n - Suc k)"] mk by simp
    moreover have "same_tables sq sr" using assms [of sq "- beta" "- qs_alpha st"] rec by simp
    ultimately have t: "same_tables sp (sp_unmake_move nt undo sr)" by (intro same_tables_step(6)) (rule same_tables_trans)
    show ?thesis unfolding qs_loop_play [where st = st and sp = sp and rec = rec, OF sel False mk rec]
      using same_tables_trans [OF t Suc.IH] same_tables_step(1) t by simp
  qed
qed simp

lemma qs_node_tables:
  assumes "\<And>a b sp. same_tables sp (snd (rec a b (d + 1) sp))"
  shows "same_tables sp (snd (qs_node rec nt a b d sp))"
proof -
  have draw: "same_tables sp t \<Longrightarrow> same_tables sp (snd (qs_draw d t))" for t
    by (auto simp: qs_draw_def intro: same_tables_step)
  have loop: "same_tables sp t \<Longrightarrow> same_tables sp (snd (qs_loop rec nt pinned b d n k st t))" for t pinned n k st
    by (rule same_tables_trans [OF _ qs_loop_tables]) (use assms in simp_all)
  have fin: "same_tables sp t \<Longrightarrow> same_tables sp (snd (qs_finish nt d c st t))" for t c st
    by (auto simp: qs_finish_def intro: same_tables_step)
  have store: "same_tables sp t \<Longrightarrow> same_tables sp (qs_store h a b d v m t)" for t h a v m
    by (auto simp: qs_store_def Let_def case_prod_unfold intro: same_tables_step)
  show ?thesis unfolding qs_node_def Let_def case_prod_unfold
    by (simp add: draw loop fin store same_tables_step)
qed

lemma qs_tables: "same_tables sp (snd (qs nt a b d sp))"
proof -
  have "same_tables sp (snd (qs_rec nt n a b d sp))" for n
  proof (induction n arbitrary: a b d sp)
    case (Suc n)
    show ?case unfolding qs_rec.simps by (rule qs_node_tables) (rule Suc)
  qed simp
  then show ?thesis by (simp add: qs_def)
qed

section \<open>Steps that keep the board\<close>

lemma board_kept [simp]:
  "same_board sp (sp\<lparr>sp_cs := cs\<rparr>)" "same_board sp (sp\<lparr>sp_tt := t\<rparr>)" "same_board sp (sp\<lparr>sp_cur_move := m\<rparr>)"
  "same_board sp (snd (read_stop sp))" "same_board sp (set_scratch i scr sp)" "same_board sp (fill_buffers l sp)"
  "same_board sp (update_history k d sp)" "same_board sp (update_capture_history k d sp)"
  "same_board sp (update_butterfly_history k d sp)" "same_board sp (update_cont_history k d sp)"
  by (simp_all add: same_board_def read_stop_def set_scratch_def fill_buffers_def Let_def update_history_def
      update_capture_history_def update_butterfly_history_def update_cont_history_def)

lemma searchable_read [simp]: "searchable nt (snd (read_stop sp)) = searchable nt sp"
  by (simp add: searchable_def)

section \<open>History tables\<close>

definition tame :: "int list \<Rightarrow> bool" where
  "tame t \<longleftrightarrow> (\<forall>h\<in>set t. - 1023 \<le> h \<and> h \<le> 1023)"

definition histories_ok :: "search_pars \<Rightarrow> bool" where
  "histories_ok sp \<longleftrightarrow> sp_asserts sp \<and> tame (sp_history sp) \<and> pred_option tame (sp_capture_history sp) \<and>
     pred_option tame (sp_butterfly_history sp) \<and> pred_option tame (sp_cont_history sp)"

lemma gravity_step:
  fixes h :: int
  assumes "\<bar>h\<bar> \<le> 1023" "\<bar>c\<bar> \<le> 1023"
  shows "\<bar>h + (c - trunc_div (h * \<bar>c\<bar>) 1023)\<bar> \<le> 1023"
proof -
  define q where "q = \<bar>h\<bar> * \<bar>c\<bar> div 1023"
  have q: "q * 1023 \<le> \<bar>h\<bar> * \<bar>c\<bar>" "\<bar>h\<bar> * \<bar>c\<bar> < q * 1023 + 1023"
    unfolding q_def by presburger+
  have t: "trunc_div (h * \<bar>c\<bar>) 1023 = (if h < 0 then - q else q)"
    by (cases "h = 0 \<or> c = 0") (auto simp: trunc_div_def q_def abs_mult sgn_mult)
  have "0 \<le> (1023 - \<bar>h\<bar>) * (1023 - \<bar>c\<bar>)" using assms by simp
  then have low: "1023 * \<bar>h\<bar> + 1023 * \<bar>c\<bar> - 1023 * 1023 \<le> \<bar>h\<bar> * \<bar>c\<bar>" by (simp add: algebra_simps)
  have high: "\<bar>h\<bar> * \<bar>c\<bar> \<le> \<bar>h\<bar> * 1023" by (rule mult_left_mono) (use assms in simp_all)
  have "0 \<le> q" unfolding q_def by (simp add: pos_imp_zdiv_nonneg_iff)
  then have "\<bar>h\<bar> + \<bar>c\<bar> - q \<le> 1023" "q \<le> \<bar>h\<bar>" "0 \<le> q" using q low high by linarith+
  then show ?thesis using assms unfolding t by (auto split: if_splits)
qed

lemma gravity_tame:
  assumes "- 1023 \<le> h" "h \<le> 1023"
  shows "- 1023 \<le> gravity_sum h b \<and> gravity_sum h b \<le> 1023" "- 1023 \<le> gravity h b \<and> gravity h b \<le> 1023"
proof -
  define c where "c = max (- 1023) (min 1023 b)"
  define v where "v = h + (c - trunc_div (h * \<bar>c\<bar>) 1023)"
  have "\<bar>v\<bar> \<le> 1023" unfolding v_def by (rule gravity_step) (use assms in \<open>auto simp: c_def\<close>)
  then have v: "- 1023 \<le> v" "v \<le> 1023" by linarith+
  have s: "gravity_sum h b = v" by (simp add: gravity_sum_def Let_def v_def c_def)
  show "- 1023 \<le> gravity_sum h b \<and> gravity_sum h b \<le> 1023" unfolding s using v by blast
  have "signed_take_bit 15 v = v" using v by (intro signed_take_bit_int_eq_self) simp_all
  then show "- 1023 \<le> gravity h b \<and> gravity h b \<le> 1023" unfolding gravity_def s using v by simp
qed

lemma tame_update:
  assumes "tame t"
  shows "tame (t[i := gravity (t ! i) b])"
proof (cases "i < length t")
  case True
  then have "t ! i \<in> set t" by simp
  then show ?thesis using assms gravity_tame(2) [of "t ! i" b] set_update_subset_insert [of t i "gravity (t ! i) b"]
    unfolding tame_def by blast
qed (use assms in \<open>simp add: list_update_beyond\<close>)

lemma tame_asserts:
  assumes "tame t"
  shows "update_asserts i b t"
proof -
  have "- 1023 \<le> gravity_sum (t ! nat i) b \<and> gravity_sum (t ! nat i) b \<le> 1023" if "nat i < length t"
    by (rule gravity_tame(1)) (use assms nth_mem [OF that] in \<open>auto simp: tame_def\<close>)
  then show ?thesis unfolding update_asserts_def by fastforce
qed

lemma qs_histories: "histories_ok sp \<Longrightarrow> histories_ok (snd (qs nt a b d sp))"
  using qs_tables [of sp nt a b d] by (simp add: histories_ok_def same_tables_def)

lemma histories_kept [simp]:
  "histories_ok (sp\<lparr>sp_cs := cs\<rparr>) = histories_ok sp" "histories_ok (sp\<lparr>sp_tt := t\<rparr>) = histories_ok sp"
  "histories_ok (sp\<lparr>sp_cur_move := m\<rparr>) = histories_ok sp" "histories_ok (snd (read_stop sp)) = histories_ok sp"
  "histories_ok (set_scratch i scr sp) = histories_ok sp" "histories_ok (fill_buffers l sp) = histories_ok sp"
  "histories_ok (with_board e p sp) = histories_ok sp"
  by (simp_all add: histories_ok_def read_stop_def set_scratch_def fill_buffers_def with_board_def Let_def)

lemma histories_learn:
  assumes "histories_ok sp"
  shows "histories_ok (update_history i d sp)" "histories_ok (update_capture_history i d sp)"
    "histories_ok (update_butterfly_history i d sp)" "histories_ok (update_cont_history i d sp)"
  using assms by (auto simp: histories_ok_def tame_update tame_asserts update_history_def update_capture_history_def
      update_butterfly_history_def update_cont_history_def pred_option_def)

interpretation histories: search_frame nt "\<lambda>_ sp. searchable nt sp"
    "\<lambda>_ a b. same_board a b \<and> (histories_ok a \<longrightarrow> histories_ok b)" "\<lambda>_ _ _. True" for nt
  by unfold_locales (auto simp: qs_same_board qs_histories histories_learn intro: same_board_trans same_board_searchable)

section \<open>Returning\<close>

text \<open>The stop flag is set from read \<open>N\<close> on, and the fuel lasts to there.\<close>

definition stops_within :: "net \<Rightarrow> nat \<Rightarrow> nat \<Rightarrow> search_pars \<Rightarrow> bool" where
  "stops_within nt N n sp \<longleftrightarrow> searchable nt sp \<and> (\<forall>k\<ge>N. sp_stop sp k) \<and> 0 < n \<and> N < n + sp_reads sp"

definition reads_on :: "int \<Rightarrow> search_pars \<Rightarrow> search_pars \<Rightarrow> bool" where
  "reads_on l a b \<longleftrightarrow> same_board a b \<and> sp_stop b = sp_stop a \<and> sp_reads a \<le> sp_reads b \<and>
     (\<forall>i < min l 63. scr_fills (sp_scratch b i) = scr_fills (sp_scratch a i))"

lemma reads_on_kept [simp]:
  "reads_on l sp sp" "reads_on l sp (sp\<lparr>sp_cs := cs\<rparr>)" "reads_on l sp (sp\<lparr>sp_tt := t\<rparr>)" "reads_on l sp (sp\<lparr>sp_cur_move := m\<rparr>)"
  "reads_on l sp (snd (read_stop sp))" "reads_on l sp (set_scratch i ((sp_scratch sp i)\<lparr>scr_pv := pv\<rparr>) sp)"
  "reads_on l sp (fill_buffers l sp)" "reads_on l sp (update_history k d sp)" "reads_on l sp (update_capture_history k d sp)"
  "reads_on l sp (update_butterfly_history k d sp)" "reads_on l sp (update_cont_history k d sp)"
  by (simp_all add: reads_on_def same_board_def read_stop_def set_scratch_def fill_buffers_def Let_def scr_of_def
      n_search_scratch_levels_def update_history_def update_capture_history_def update_butterfly_history_def
      update_cont_history_def)

lemma reads_on_same: "reads_on l a b \<Longrightarrow> same_board a b"
  by (simp add: reads_on_def)

lemma reads_on_trans: "reads_on l a b \<Longrightarrow> reads_on l b c \<Longrightarrow> reads_on l a c"
  by (auto simp: reads_on_def intro: same_board_trans)

lemma reads_on_up: "reads_on (l + 1) a b \<Longrightarrow> reads_on l a b"
  by (simp add: reads_on_def)

lemma reads_on_board:
  "reads_on l (with_board e p sp) sq \<Longrightarrow> same_board sp (with_board e' p' sq) \<Longrightarrow> reads_on l sp (with_board e' p' sq)"
  by (simp add: reads_on_def with_board_def)

lemma reads_on_qs: "searchable nt sp \<Longrightarrow> reads_on l sp (snd (qs nt a b d sp))"
  using qs_tables [of sp nt a b d] qs_same_board by (simp add: reads_on_def same_tables_def)

lemma reads_on_refill:
  assumes "reads_on (l + 1) a b" "scr_fills (sp_scratch b (scr_of l)) \<noteq> scr_fills (sp_scratch a (scr_of l))"
  shows "63 \<le> l"
  using assms by (auto simp: reads_on_def scr_of_def n_search_scratch_levels_def split: if_splits)

interpretation stopping: search_frame nt "stops_within nt N" reads_on
    "\<lambda>n l e. e = Buffers_overwritten \<and> 63 < l + int n" for nt N
proof unfold_locales
  show "stops_within nt N n b" if "stops_within nt N n a" "reads_on l a b" for n a b l
    using that same_board_searchable by (auto simp: stops_within_def reads_on_def)
  show "stops_within nt N n (snd (read_stop sp))" if "stops_within nt N (Suc n) sp" "\<not> fst (read_stop sp)" for n sp
  proof -
    have "sp_reads sp < N" using that by (auto simp: stops_within_def read_stop_def not_le)
    then show ?thesis using that by (simp add: stops_within_def) (simp add: read_stop_def)
  qed
qed (auto simp: stops_within_def reads_on_qs with_board_def dest: reads_on_refill reads_on_same
    intro: reads_on_trans reads_on_up reads_on_board [unfolded with_board_def])

text \<open>Without a promise about the flag the same relation holds of every search: the board comes back.\<close>

interpretation steady: search_frame nt "\<lambda>_. searchable nt" reads_on "\<lambda>_ _ _. True" for nt
  by unfold_locales
    (auto simp: reads_on_qs intro: reads_on_trans reads_on_up reads_on_board same_board_searchable dest: reads_on_same)

section \<open>Searches that return\<close>

lemma search_stopping:
  assumes "stops_within nt N fuel sp"
  shows "search tb nt md fuel d alpha be nmd level m sp \<noteq> Inl Out_of_fuel"
    and "level + int fuel \<le> 63 \<Longrightarrow> \<exists>v m' sp'. search tb nt md fuel d alpha be nmd level m sp = Inr (v, m', sp')"
proof -
  have e: "ensures (\<lambda>e. e = Buffers_overwritten \<and> 63 < level + int fuel) (\<lambda>(_, _, sp'). reads_on level sp sp')
      (search tb nt md fuel d alpha be nmd level m sp)"
    using stopping.search_keeps assms unfolding stopping.child_keeps_def by blast
  then show "search tb nt md fuel d alpha be nmd level m sp \<noteq> Inl Out_of_fuel" by auto
  show "\<exists>v m' sp'. search tb nt md fuel d alpha be nmd level m sp = Inr (v, m', sp')" if "level + int fuel \<le> 63"
    using e that by (cases "search tb nt md fuel d alpha be nmd level m sp") auto
qed

definition no_tablebases :: tablebases where
  "no_tablebases = \<lparr>with_syzygy = False, TB_LARGEST = 0, probe_fathom_nonroot = (\<lambda>_. None)\<rparr>"

definition quick_search :: search_pars where
  "quick_search = small_search\<lparr>sp_stop := (\<lambda>k. k \<ge> 30)\<rparr>"

lemma quick_searchable: "searchable flat_net quick_search" "sp_pos quick_search = small_game" "sp_reads quick_search = 0"
  using small_searchable by (simp_all add: quick_search_def searchable_def small_search_def)

lemma quick_stops: "stops_within flat_net 30 40 quick_search"
  by (simp add: stops_within_def quick_searchable) (simp add: quick_search_def)

lemma quick_histories: "histories_ok quick_search"
  by (simp add: histories_ok_def tame_def quick_search_def small_search_def)

section \<open>Properties\<close>

text \<open>C6 (safety). A search gives back what it was given: whatever its depth, window, tables and extensions, and
  whenever it is stopped, it returns with the position, its hash and history included, and both accumulators
  as they were.\<close>

theorem search_restores_board:
  assumes "searchable nt sp" "search tb nt max_depth fuel depth alpha beta null_move_depth level m sp = Inr (score, m', sp')"
  shows "sp_pos sp' = sp_pos sp \<and> sp_nnue_eval sp' = sp_nnue_eval sp"
proof -
  have "ensures (\<lambda>_. True) (\<lambda>(_, _, sp'). reads_on level sp sp') (search tb nt max_depth fuel depth alpha beta null_move_depth level m sp)"
    using steady.search_keeps assms(1) unfolding steady.child_keeps_def by blast
  then show ?thesis by (simp add: assms(2) reads_on_def same_board_def)
qed

theorem search_restores_board_witness:
  "\<exists>score m' sp'. search no_tablebases flat_net 3 40 3 (-100) 100 0 0 0 quick_search = Inr (score, m', sp') \<and>
     sp_pos sp' = small_game"
proof -
  obtain score m' sp' where r: "search no_tablebases flat_net 3 40 3 (-100) 100 0 0 0 quick_search = Inr (score, m', sp')"
    using search_stopping(2) [OF quick_stops, of 0] by fastforce
  show ?thesis using search_restores_board [OF quick_searchable(1) r] r by (simp add: quick_searchable(2))
qed

text \<open>C10 (invariant). A search that returns, started with the entries of the four history tables between -1023 and 1023, leaves
  them so, and the assertions of every update it has made on the way, before each of its cutoffs, have held: no sum was
  outside 16 bits, so none wrapped.\<close>

theorem search_keeps_histories_tame:
  assumes "searchable nt sp" "histories_ok sp"
    "search tb nt max_depth fuel depth alpha beta null_move_depth level m sp = Inr (score, m', sp')"
  shows "histories_ok sp'"
proof -
  have "ensures (\<lambda>_. True) (\<lambda>(_, _, sp'). same_board sp sp' \<and> (histories_ok sp \<longrightarrow> histories_ok sp'))
      (search tb nt max_depth fuel depth alpha beta null_move_depth level m sp)"
    using histories.search_keeps assms(1) unfolding histories.child_keeps_def by blast
  then show ?thesis using assms(2) by (simp add: assms(3))
qed

theorem search_keeps_histories_tame_witness:
  "\<exists>score m' sp'. search no_tablebases flat_net 3 40 3 (-100) 100 0 0 0 quick_search = Inr (score, m', sp') \<and>
     histories_ok sp'"
proof -
  obtain score m' sp' where r: "search no_tablebases flat_net 3 40 3 (-100) 100 0 0 0 quick_search = Inr (score, m', sp')"
    using search_stopping(2) [OF quick_stops, of 0] by fastforce
  show ?thesis using search_keeps_histories_tame [OF quick_searchable(1) quick_histories r] r by blast
qed

text \<open>C7 (liveness). A search that is told to stop returns: when the stop flag reads as set from read \<open>N\<close> on, no
  search needs more nested calls than there are reads left, however the extensions keep the depth; with
  that fuel it never runs out, and within the levels that have buffers of their own it returns.\<close>

theorem search_stops_when_told:
  assumes "searchable nt sp" "\<forall>k\<ge>N. sp_stop sp k" "0 < fuel" "N < fuel + sp_reads sp"
  shows "search tb nt max_depth fuel depth alpha beta null_move_depth level m sp \<noteq> Inl Out_of_fuel \<and>
    (level + int fuel \<le> 63 \<longrightarrow>
      (\<exists>score m' sp'. search tb nt max_depth fuel depth alpha beta null_move_depth level m sp = Inr (score, m', sp')))"
  using search_stopping [of nt N fuel sp] assms by (simp add: stops_within_def)

theorem search_stops_when_told_witness:
  "\<exists>score m' sp'. search no_tablebases flat_net 5 31 5 (-100) 100 0 0 0 quick_search = Inr (score, m', sp')"
  using search_stops_when_told [OF quick_searchable(1), of 30 31] quick_searchable(3) by (simp add: quick_search_def)

end
