(* ===== verification/Deepening_Correct.thy ===== *)
theory Deepening_Correct
  imports Deepening Search_Correct
begin

text \<open>
  Iterative deepening answers with a legal move: every move it takes over comes from a search whose score fell
  inside the window, and such a score comes with a legal move (\<open>root_move\<close>).  Once the stop flag is set it
  returns.
\<close>

section \<open>The loop\<close>

abbreviation legal_moves :: "position \<Rightarrow> move set" where
  "legal_moves p \<equiv> set (legal_move_list_of p (pos_side_to_move p))"

text \<open>Nobody clears the flag while a search runs.\<close>

definition latched :: "search_pars \<Rightarrow> bool" where
  "latched sp \<longleftrightarrow> (\<forall>j k. j \<le> k \<longrightarrow> sp_stop sp j \<longrightarrow> sp_stop sp k)"

definition it_ok :: "net \<Rightarrow> position \<Rightarrow> it_state \<Rightarrow> search_pars \<Rightarrow> bool" where
  "it_ok nt p st sp \<longleftrightarrow> searchable nt sp \<and> sp_pos sp = p \<and> latched sp \<and> it_best_move st \<in> legal_moves p \<and>
     -32767 \<le> it_alpha st \<and> -32767 \<le> it_beta st \<and> 0 \<le> it_add_beta st \<and> 1 \<le> it_max_depth st"

definition it_step :: "search_pars \<Rightarrow> bool \<Rightarrow> search_pars \<Rightarrow> bool" where
  "it_step sp done sp' \<longleftrightarrow> sp_stop sp' = sp_stop sp \<and> sp_reads sp \<le> sp_reads sp' \<and>
     (\<not> done \<longrightarrow> sp_reads sp < sp_reads sp' \<and> \<not> sp_stop sp (sp_reads sp))"

lemma give_if_fields [simp]:
  "it_best_move (give_if ia sp t c pv st) = it_best_move st" "it_alpha (give_if ia sp t c pv st) = it_alpha st"
  "it_beta (give_if ia sp t c pv st) = it_beta st" "it_max_depth (give_if ia sp t c pv st) = it_max_depth st"
  "it_add_beta (give_if ia sp t c pv st) = it_add_beta st"
  by (simp_all add: give_if_def give_def)

lemma trunc_half: "-32767 \<le> a \<Longrightarrow> -32767 \<le> b \<Longrightarrow> -32767 \<le> trunc_div (a + b) 2"
  by (auto simp: trunc_div_def sgn_if)

lemma fail_ok:
  assumes "it_ok nt p st sp" "same_board sp sp'" "sp_stop sp' = sp_stop sp"
  shows "it_ok nt p (fail_low v st) sp'" "it_beta st \<le> v \<Longrightarrow> it_ok nt p (fail_high v st) sp'"
proof -
  have I: "searchable nt sp" "sp_pos sp = p" "latched sp" "it_best_move st \<in> legal_moves p" "-32767 \<le> it_alpha st"
    "-32767 \<le> it_beta st" "0 \<le> it_add_beta st" "1 \<le> it_max_depth st" using assms(1) by (simp_all add: it_ok_def)
  have S: "searchable nt sp'" "sp_pos sp' = p" "latched sp'"
    using same_board_searchable [OF assms(2) I(1)] assms(2,3) I(2,3) by (simp_all add: same_board_def latched_def)
  have t: "0 \<le> trunc_div (it_add_beta st) 15" using I(7) by (simp add: trunc_div_def sgn_if pos_imp_zdiv_nonneg_iff)
  show "it_ok nt p (fail_low v st) sp'"
    using I S trunc_half [OF I(5,6)] by (auto simp: it_ok_def fail_low_def max_eval_def)
  show "it_ok nt p (fail_high v st) sp'" if "it_beta st \<le> v"
    using I S t that trunc_half [OF I(5,6)] by (simp add: it_ok_def fail_high_def max_eval_def)
qed

lemma reads_on_misc [simp]:
  "reads_on l sp (sp\<lparr>sp_best_moves := bm\<rparr>)" "reads_on l sp (sp\<lparr>sp_md := d, sp_tt := t\<rparr>)"
  by (simp_all add: reads_on_def same_board_def)

lemma reads_on_note_window: "reads_on l sp (note_window v st sp)"
  by (simp add: note_window_def Let_def steady.rel_bump)

lemma completed_ok:
  assumes "it_ok nt p st sp" "it_cur_move st \<in> legal_moves p" "it_alpha st < v" "completed ia t v c pv st sp = (fin, st', sp')"
  shows "reads_on 0 sp sp'" "it_ok nt p st' sp'"
proof -
  have I: "searchable nt sp" "sp_pos sp = p" "latched sp" "-32767 \<le> it_alpha st" "1 \<le> it_max_depth st"
    using assms(1) by (simp_all add: it_ok_def)
  have sp': "sp' = note_window v st sp \<or> (\<exists>bm. sp' = (note_window v st sp)\<lparr>sp_best_moves := bm\<rparr>)"
    using assms(4) by (auto simp: completed_def Let_def split: if_splits)
  then show r: "reads_on 0 sp sp'" using reads_on_note_window [of 0 sp v st] reads_on_trans [OF reads_on_note_window reads_on_misc(1)] by auto
  then have S: "searchable nt sp'" "sp_pos sp' = p" "latched sp'"
    using same_board_searchable [OF reads_on_same [OF r] I(1)] I(2,3) by (simp_all add: reads_on_def same_board_def latched_def)
  have "it_best_move st' = it_cur_move st \<and> it_alpha st' = max (- max_eval) (v - 75) \<and> it_beta st' = min max_eval (v + 75) \<and>
      it_add_beta st' = 75 \<and> it_max_depth st \<le> it_max_depth st'"
    using assms(4) by (auto simp: completed_def Let_def give_if_def give_def split: if_splits)
  then show "it_ok nt p st' sp'" using S I(4,5) assms(2,3) by (auto simp: it_ok_def max_eval_def)
qed

section \<open>A turn\<close>

text \<open>A search of the root from \<open>steady\<close>.\<close>

lemma root_search:
  assumes "it_ok nt p st sp" "legal_moves p \<noteq> {}" "search tb nt (it_max_depth st) fuel (it_max_depth st) (it_alpha st) be 0 0 m sp = Inr (v, m', sp')"
  shows "reads_on 0 sp sp'"
    "\<not> sp_stop sp (sp_reads sp) \<Longrightarrow> it_alpha st < v \<Longrightarrow> v < be \<Longrightarrow> m' \<in> legal_moves p"
proof -
  have I: "searchable nt sp" "sp_pos sp = p" "-32767 \<le> it_alpha st" "it_max_depth st \<noteq> 0" using assms(1) by (simp_all add: it_ok_def)
  obtain n where n: "fuel = Suc n" using assms(3) by (cases fuel) auto
  have "ensures (\<lambda>_. True) (\<lambda>(_, _, b). reads_on 0 sp b) (Inr (v, m', sp'))"
    unfolding assms(3) [symmetric] using steady.search_keeps I(1) unfolding steady.child_keeps_def by blast
  then show "reads_on 0 sp sp'" by simp
  show "m' \<in> legal_moves p" if "\<not> sp_stop sp (sp_reads sp)" "it_alpha st < v" "v < be"
    using steady.root_move [where nt = nt and sp = sp and md = "it_max_depth st" and alpha = "it_alpha st" and n = n and l = 0
        and be = be and tb = tb and nmd = 0 and m = m] that I assms(2,3) n
    by (simp add: read_stop_def)
qed

lemma turn_ok:
  assumes ok: "it_ok nt p st sp" and legal: "legal_moves p \<noteq> {}"
    and E: "\<And>d a b m. ensures F (\<lambda>_. True) (search tb nt d fuel d a b 0 0 m (sp\<lparr>sp_md := 0, sp_tt := tt_new_search (sp_tt sp)\<rparr>))"
  shows "ensures F (\<lambda>(done, st', sp'). it_ok nt p st' sp' \<and> it_step sp done sp') (it_turn tb nt ia env fuel turn st sp)"
proof -
  define sp0 where "sp0 = sp\<lparr>sp_md := 0, sp_tt := tt_new_search (sp_tt sp)\<rparr>"
  have r0: "reads_on 0 sp sp0" "sp_stop sp0 = sp_stop sp" "sp_reads sp0 = sp_reads sp" by (simp_all add: sp0_def)
  have ok_rel: "it_ok nt p st b" if "reads_on 0 sp b" for b
    using ok that same_board_searchable [OF reads_on_same [OF that]] by (simp add: it_ok_def reads_on_def same_board_def latched_def)
  let ?d = "it_max_depth st" and ?hint = "if it_max_depth st \<ge> 4 then sp_best_moves sp0 ! nat (it_max_depth st - 3) else it_cur_move st"
  show ?thesis
  proof (cases "search tb nt ?d fuel ?d (it_alpha st) (it_beta st) 0 0 ?hint sp0")
    case (Inl e)
    then have "F e" using E [of ?d "it_alpha st" "it_beta st" ?hint] by (simp add: sp0_def [symmetric])
    then show ?thesis using Inl by (simp add: it_turn_def Let_def sp0_def [symmetric])
  next
    case (Inr r)
    obtain v m' sp1 where r: "r = (v, m', sp1)" by (cases r)
    note R = root_search [OF ok_rel [OF r0(1)] legal Inr [unfolded r]]
    have r1: "reads_on 0 sp sp1" by (rule reads_on_trans [OF r0(1) R(1)])
    define sp2 where "sp2 = snd (read_stop sp1)"
    define stopped where "stopped = fst (read_stop sp1)"
    have r2: "reads_on 0 sp sp2" unfolding sp2_def by (rule reads_on_trans [OF r1 reads_on_kept(5)])
    have reads: "sp_reads sp < sp_reads sp2" using r1 by (simp add: sp2_def read_stop_def reads_on_def)
    have go: "\<not> sp_stop sp (sp_reads sp)" if "\<not> stopped"
      using that r1 ok by (auto simp: stopped_def read_stop_def reads_on_def it_ok_def latched_def)
    have step: "it_step sp fin b" if "reads_on 0 sp2 b" "\<not> stopped" for fin b
      using reads_on_trans [OF r2 that(1)] reads that go by (simp add: it_step_def reads_on_def)
    define c where "c = simple_search_statistics (ie_others env turn) sp1"
    define st2 where "st2 = st\<lparr>it_cur_move := m', it_node_counts := it_node_counts st @
        [nat ((int (fst c) - int (it_previous_node_count st)) mod 2 ^ 64)], it_previous_node_count := fst c\<rparr>"
    define k where "k = (case ia_max_n_nodes ia of Some k \<Rightarrow> fst c \<ge> k | None \<Rightarrow> False)"
    let ?t = "ie_thought_ms env turn" and ?pv = "take 64 (scr_pv (sp_scratch sp1 0))"
    have turn: "it_turn tb nt ia env fuel turn st sp =
      (if stopped then Inr (True, give_if ia sp2 ?t c [it_best_move st] (st\<lparr>it_cur_move := m'\<rparr>), sp2)
       else if v \<le> it_alpha st then Inr (k, fail_low v st2, bump Asp_win_resizes sp2)
       else if v \<ge> it_beta st then Inr (k, fail_high v st2, bump Asp_win_resizes sp2)
       else (case completed ia ?t v c ?pv st2 sp2 of (done, st', sp') \<Rightarrow> Inr (done \<or> k, st', sp')))"
      by (simp add: it_turn_def Let_def sp0_def [symmetric] Inr r c_def [symmetric] sp2_def stopped_def k_def st2_def case_prod_unfold)
    have ok2: "it_ok nt p st2 sp2" using ok_rel [OF r2] by (simp add: it_ok_def st2_def)
    have fields: "it_alpha st2 = it_alpha st" "it_beta st2 = it_beta st" by (simp_all add: st2_def)
    consider (stopped) stopped | (low) "\<not> stopped" "v \<le> it_alpha st" | (high) "\<not> stopped" "\<not> v \<le> it_alpha st" "it_beta st \<le> v"
      | (inside) "\<not> stopped" "it_alpha st < v" "v < it_beta st" by linarith
    then show ?thesis
    proof cases
      case stopped
      then show ?thesis using ok2 r2 by (simp add: turn it_ok_def st2_def it_step_def reads_on_def)
    next
      case low
      have "it_ok nt p (fail_low v st2) (bump Asp_win_resizes sp2)"
        by (rule fail_ok(1) [OF ok2]) (simp_all add: same_board_def bump_by_def)
      then show ?thesis using low step [OF steady.rel_bump(1) [OF reads_on_kept(1)]] by (simp add: turn)
    next
      case high
      have "it_ok nt p (fail_high v st2) (bump Asp_win_resizes sp2)"
        by (rule fail_ok(2) [OF ok2]) (use high fields in \<open>simp_all add: same_board_def bump_by_def\<close>)
      then show ?thesis using high step [OF steady.rel_bump(1) [OF reads_on_kept(1)]] by (simp add: turn)
    next
      case inside
      obtain fin st' sp' where com: "completed ia ?t v c ?pv st2 sp2 = (fin, st', sp')"
        by (cases "completed ia ?t v c ?pv st2 sp2")
      have "m' \<in> legal_moves p" using R(2) go [OF inside(1)] inside(2,3) r0 by simp
      then have "reads_on 0 sp2 sp'" "it_ok nt p st' sp'"
        using completed_ok [OF ok2 _ _ com] inside(2) fields by (simp_all add: st2_def)
      then show ?thesis using inside step com by (simp add: turn)
    qed
  qed
qed

section \<open>The answer\<close>

lemma loop_ok:
  assumes "legal_moves p \<noteq> {}"
    and E: "\<And>d a b m sp. G sp \<Longrightarrow> ensures F (\<lambda>_. True) (search tb nt d fuel d a b 0 0 m sp)"
    and G: "\<And>a b. G a \<Longrightarrow> searchable nt b \<Longrightarrow> sp_stop b = sp_stop a \<Longrightarrow> sp_reads a \<le> sp_reads b \<Longrightarrow> G b"
    and out: "F Out_of_fuel \<or> T"
  shows "it_ok nt p st sp \<Longrightarrow> G sp \<Longrightarrow> T \<longrightarrow> (\<forall>k\<ge>N. sp_stop sp k) \<and> 0 < turns \<and> N < turns + sp_reads sp \<Longrightarrow>
    ensures F (\<lambda>(st', sp'). it_ok nt p st' sp') (it_loop tb nt ia env fuel turns turn st sp)"
proof (induction turns arbitrary: turn st sp)
  case 0
  then show ?case using out by simp
next
  case (Suc turns)
  have "ensures F (\<lambda>(done, st', sp'). it_ok nt p st' sp' \<and> it_step sp done sp') (it_turn tb nt ia env fuel turn st sp)"
  proof (rule turn_ok [OF Suc.prems(1) assms(1)])
    have "searchable nt sp" using Suc.prems(1) by (simp add: it_ok_def)
    then have "G (sp\<lparr>sp_md := 0, sp_tt := tt_new_search (sp_tt sp)\<rparr>)" by (intro G [OF Suc.prems(2)]) (simp_all add: searchable_def)
    then show "ensures F (\<lambda>_. True) (search tb nt d fuel d a b 0 0 m (sp\<lparr>sp_md := 0, sp_tt := tt_new_search (sp_tt sp)\<rparr>))" for d a b m
      by (rule E)
  qed
  then show ?case unfolding it_loop.simps
  proof (cases "ia_ultimate_max_depth ia = -1 \<or> it_max_depth st \<le> ia_ultimate_max_depth ia", goal_cases)
    case 1
    show ?case unfolding if_P [OF 1(2)]
    proof (rule ensures_then [OF 1(1)], assumption, clarify)
      fix fin st' sp'
      assume ok: "it_ok nt p st' sp'" and step: "it_step sp fin sp'"
      have "ensures F (\<lambda>(st', sp'). it_ok nt p st' sp') (it_loop tb nt ia env fuel turns (turn + 1) st' sp')" if "\<not> fin"
      proof (rule Suc.IH [OF ok])
        show "G sp'" using G [OF Suc.prems(2)] ok step by (simp add: it_ok_def it_step_def)
        have "sp_reads sp < N" if T using that Suc.prems(3) step \<open>\<not> fin\<close> by (auto simp: it_step_def not_le [symmetric])
        then show "T \<longrightarrow> (\<forall>k\<ge>N. sp_stop sp' k) \<and> 0 < turns \<and> N < turns + sp_reads sp'"
          using Suc.prems(3) step \<open>\<not> fin\<close> by (auto simp: it_step_def)
      qed
      then show "ensures F (\<lambda>(st', sp'). it_ok nt p st' sp')
          (if fin then Inr (st', sp') else it_loop tb nt ia env fuel turns (turn + 1) st' sp')"
        using ok by simp
    qed
  next
    case 2
    show ?case unfolding if_not_P [OF 2(2)] using Suc.prems(1) by simp
  qed
qed

lemma search_it_ok:
  assumes sp: "searchable nt sp" "latched sp" "legal_move_list (sp_pos sp) \<noteq> []"
    and E: "\<And>d a b m sp. G sp \<Longrightarrow> ensures F (\<lambda>_. True) (search tb nt d fuel d a b 0 0 m sp)"
    and G: "G sp" "\<And>a b. G a \<Longrightarrow> searchable nt b \<Longrightarrow> sp_stop b = sp_stop a \<Longrightarrow> sp_reads a \<le> sp_reads b \<Longrightarrow> G b"
    and out: "F Out_of_fuel \<or> (\<forall>k\<ge>N. sp_stop sp k) \<and> 0 < turns \<and> N < turns + sp_reads sp"
  shows "ensures F (\<lambda>((m, _, _), _, sp'). m \<in> set (legal_move_list (sp_pos sp)) \<and> same_board sp sp')
    (search_it tb nt ia env fuel turns sp)"
proof -
  let ?p = "sp_pos sp"
  have leg: "set (legal_move_list ?p) = legal_moves ?p" using sp(3) by (auto simp: legal_move_list_def split: if_splits)
  obtain m ms where ml: "legal_move_list ?p = m # ms" using sp(3) by (cases "legal_move_list ?p") auto
  have m: "m \<in> legal_moves ?p" using leg ml by auto
  have start: "it_ok nt ?p (it_start m) sp" using sp(1,2) m by (simp add: it_ok_def it_start_def)
  have "ensures F (\<lambda>(st, sp'). it_best_move st \<in> legal_moves ?p \<and> searchable nt sp' \<and> sp_pos sp' = ?p)
      (it_loop tb nt ia env fuel turns 0 (it_start m) sp)"
    by (rule ensures_mono [OF loop_ok [where T = "\<not> F Out_of_fuel" and G = G and N = N, OF _ E G(2) _ start G(1)]])
      (use m out in \<open>auto simp: it_ok_def\<close>)
  moreover have "it_best_move (only_move nt ia m sp) = m" by (simp add: only_move_def give_def it_start_def Let_def)
  ultimately have "ensures F (\<lambda>(st, sp'). it_best_move st \<in> legal_moves ?p \<and> searchable nt sp' \<and> sp_pos sp' = ?p)
      (if ms \<noteq> [] then it_loop tb nt ia env fuel turns 0 (it_start m) sp else Inr (only_move nt ia m sp, sp))"
    using m sp(1) by simp
  then show ?thesis unfolding search_it_def ml list.case
    by (rule ensures_then) (use sp(1) leg ml in \<open>auto simp: Let_def same_board_def searchable_def set_flag_def\<close>)
qed


section \<open>Properties\<close>

text \<open>C5 (safety). The engine never answers with an illegal move: whatever the tables, the clock, the other threads and
  the moment of the stop, provided nobody clears the flag while the search runs, the move \<open>search_it\<close>
  returns is in the legal list of the position, which it gives back unchanged.\<close>

theorem search_it_answers_legally:
  assumes "searchable nt sp" "latched sp" "legal_move_list (sp_pos sp) \<noteq> []"
    "search_it tb nt ia env fuel turns sp = Inr ((best_move, best_score, max_depth), out, sp')"
  shows "best_move \<in> set (legal_move_list (sp_pos sp)) \<and> sp_pos sp' = sp_pos sp \<and> sp_nnue_eval sp' = sp_nnue_eval sp"
proof -
  have "ensures (\<lambda>_. True) (\<lambda>((m, _, _), _, sp'). m \<in> set (legal_move_list (sp_pos sp)) \<and> same_board sp sp')
      (search_it tb nt ia env fuel turns sp)"
    by (rule search_it_ok [where G = "\<lambda>_. True", OF assms(1-3)]) (auto simp: ensures_def split: sum.split)
  then show ?thesis by (simp add: assms(4) same_board_def)
qed

definition quick_args :: it_args where
  "quick_args = \<lparr>ia_search_time_min = 100, ia_search_time_max = 300, ia_is_absolute_time = False, ia_ultimate_max_depth = 6,
     ia_max_n_nodes = None, ia_output = O_FULL\<rparr>"

definition quick_env :: it_env where
  "quick_env = \<lparr>ie_thought_ms = (\<lambda>t. t), ie_others = (\<lambda>_. (0, 0))\<rparr>"

lemma search_it_stopping:
  assumes "searchable nt sp" "latched sp" "legal_move_list (sp_pos sp) \<noteq> []" "\<forall>k\<ge>N. sp_stop sp k"
    "0 < fuel" "N < fuel + sp_reads sp" "0 < turns" "N < turns + sp_reads sp"
  shows "ensures (\<lambda>e. e = Buffers_overwritten \<and> 63 < fuel) (\<lambda>_. True) (search_it tb nt ia env fuel turns sp)"
proof -
  have "ensures (\<lambda>e. e = Buffers_overwritten \<and> 63 < fuel) (\<lambda>((m, _, _), _, sp').
      m \<in> set (legal_move_list (sp_pos sp)) \<and> same_board sp sp') (search_it tb nt ia env fuel turns sp)"
  proof (rule search_it_ok [where G = "stops_within nt N fuel" and N = N, OF assms(1-3)])
    fix d a b m sq
    assume "stops_within nt N fuel sq"
    then have "ensures (\<lambda>e. e = Buffers_overwritten \<and> 63 < 0 + int fuel) (\<lambda>(_, _, sp'). reads_on 0 sq sp')
        (search tb nt d fuel d a b 0 0 m sq)"
      using stopping.search_keeps unfolding stopping.child_keeps_def by blast
    then show "ensures (\<lambda>e. e = Buffers_overwritten \<and> 63 < fuel) (\<lambda>_. True) (search tb nt d fuel d a b 0 0 m sq)"
      by (rule ensures_mono) auto
  qed (use assms in \<open>auto simp: stops_within_def\<close>)
  then show ?thesis by (rule ensures_mono) auto
qed

lemma quick_latched: "latched quick_search"
  by (simp add: latched_def quick_search_def)

lemma quick_moves: "legal_move_list (sp_pos quick_search) \<noteq> []"
  using small_legal quick_searchable(2) by (cases "legal_move_list small_game") auto

text \<open>C8 (liveness). Iterative deepening stops once it is told to: when the stop flag reads as set from read \<open>N\<close> on, then with as
  many turns and nested calls as there are reads left before it, neither repeated aspiration windows nor the extensions of the
  search exhaust them: it returns an answer.  The one other outcome, which takes more than 63 nested calls, is the fault that a
  level without buffers of its own has overwritten those of another; with at most 63 it always returns.\<close>

theorem search_it_stops_when_told:
  assumes "searchable nt sp" "latched sp" "legal_move_list (sp_pos sp) \<noteq> []" "\<forall>k\<ge>N. sp_stop sp k"
    "0 < fuel" "N < fuel + sp_reads sp" "0 < turns" "N < turns + sp_reads sp"
  shows "(\<exists>answer out sp'. search_it tb nt ia env fuel turns sp = Inr (answer, out, sp')) \<or>
    search_it tb nt ia env fuel turns sp = Inl Buffers_overwritten \<and> 63 < fuel"
  using search_it_stopping [OF assms, of tb ia env] by (cases "search_it tb nt ia env fuel turns sp") auto

theorem search_it_stops_when_told_witness:
  "\<exists>answer out sp'. search_it no_tablebases flat_net quick_args quick_env 40 40 quick_search = Inr (answer, out, sp')"
  using search_it_stops_when_told [OF quick_searchable(1) quick_latched quick_moves, of 30 40 40] quick_searchable(3)
  by (simp add: quick_search_def)

theorem search_it_answers_legally_witness:
  "\<exists>m v d out sp'. search_it no_tablebases flat_net quick_args quick_env 40 40 quick_search = Inr ((m, v, d), out, sp') \<and>
     m \<in> set (legal_move_list small_game)"
proof -
  have "ensures (\<lambda>e. e = Buffers_overwritten \<and> 63 < (40 :: nat)) (\<lambda>_. True)
      (search_it no_tablebases flat_net quick_args quick_env 40 40 quick_search)"
    by (rule search_it_stopping [OF quick_searchable(1) quick_latched quick_moves, of 30])
      (use quick_searchable(3) in \<open>simp_all add: quick_search_def\<close>)
  then obtain m v d out sp' where r: "search_it no_tablebases flat_net quick_args quick_env 40 40 quick_search = Inr ((m, v, d), out, sp')"
    by (cases "search_it no_tablebases flat_net quick_args quick_env 40 40 quick_search") auto
  show ?thesis using search_it_answers_legally [OF quick_searchable(1) quick_latched quick_moves r] r
    by (simp add: quick_searchable(2))
qed

end
