(* ===== verification/Searchers.thy ===== *)
theory Searchers
  imports Game
begin

text \<open>
  The searcher threads of \<open>main.cpp\<close> and the two threads that command them: the UCI loop, which reads
  commands, and the thread of a \<open>go\<close>.  They share the struct \<open>work\<close>, guarded by its mutex, and one stop flag
  per searcher.  A system state holds \<open>work\<close>, the flags, the positions and where each thread is; an event is a
  critical section or a step between two of them, so a run is any interleaving of events.  A wait on a condition
  variable is an event that is possible once the condition holds.

  Parameters: the number of searchers, the Ponder option, what a search of a position for a job may find, and what
  the opening book or the tablebases know.  The Threads option, which replaces the searchers, is not an event.
\<close>

section \<open>State\<close>

record job =
  job_time_min :: int
  job_time_max :: int
  job_is_abs :: bool
  job_max_depth :: int
  job_max_nodes :: "nat option"
  job_output :: bool

text \<open>A searcher waits, with the version it has served last, or searches: its local copies of the version and the
  job and the position it started from.\<close>

datatype worker = Waiting int | Searching int position job

datatype command = Position position | Go job | Stop

text \<open>Where the UCI loop is: reading, in \<open>stop_search\<close> (the flag to set next, the join), or in the position handler.\<close>

datatype uci_place = Reading | Stopping nat command | Joining command | Dispatch command
  | Pos_flags position | Pos_wait position | Pos_write position

text \<open>Where the thread of a \<open>go\<close> is, from \<open>stop_ponder\<close> to the end of the handler.\<close>

datatype go_place = No_thread | Go_flags job | Go_wait job | Go_look job | Go_put job | Go_started | Go_get
  | Go_answer "move \<times> int" | Go_ponder | Go_ponder_put | Go_done

record system =
  search_version :: int
  search_job :: job
  search_best :: "(move \<times> int) option"
  search_n_started :: nat
  search_count_running :: int
  stop_flag :: "nat \<Rightarrow> bool"
  board_of :: "nat \<Rightarrow> position"
  worker_at :: "nat \<Rightarrow> worker"
  uci_at :: uci_place
  go_at :: go_place

record team =
  n_searchers :: nat
  allow_ponder :: bool
  may_find :: "position \<Rightarrow> job \<Rightarrow> move \<times> int \<Rightarrow> bool"
  suggestion :: "position \<Rightarrow> (move \<times> int) option"

definition no_job :: job where
  "no_job = \<lparr>job_time_min = 0, job_time_max = 0, job_is_abs = False, job_max_depth = 0, job_max_nodes = None, job_output = False\<rparr>"

definition ponder_max_depth :: int where
  "ponder_max_depth = 40"

definition ponder_max_time_ms :: int where
  "ponder_max_time_ms = 5 * 60 * 1000"

definition ponder_job :: job where
  "ponder_job = \<lparr>job_time_min = -1, job_time_max = ponder_max_time_ms, job_is_abs = False,
     job_max_depth = ponder_max_depth, job_max_nodes = None, job_output = False\<rparr>"

definition start_system :: "position \<Rightarrow> system" where
  "start_system p = \<lparr>search_version = -1, search_job = no_job, search_best = None, search_n_started = 0,
     search_count_running = 0, stop_flag = (\<lambda>_. False), board_of = (\<lambda>_. p), worker_at = (\<lambda>_. Waiting (-1)),
     uci_at = Reading, go_at = No_thread\<rparr>"

section \<open>Events\<close>

definition set_flags :: "team \<Rightarrow> bool \<Rightarrow> system \<Rightarrow> system" where
  "set_flags e b s = s\<lparr>stop_flag := (\<lambda>i. if i < n_searchers e then b else stop_flag s i)\<rparr>"

definition prepare_threads_state :: "team \<Rightarrow> system \<Rightarrow> system" where
  "prepare_threads_state e s =
     set_flags e False (s\<lparr>board_of := (\<lambda>i. if i < n_searchers e then board_of s 0 else board_of s i)\<rparr>)"

text \<open>The section that hands a job to the searchers.\<close>

definition put_job :: "team \<Rightarrow> job \<Rightarrow> system \<Rightarrow> system" where
  "put_job e j s = (prepare_threads_state e s)\<lparr>search_job := j, search_version := search_version s + 1, search_best := None\<rparr>"

text \<open>The two sections of a searcher: taking a job and handing in the result.\<close>

definition take_job :: "nat \<Rightarrow> system \<Rightarrow> system" where
  "take_job i s = s\<lparr>worker_at := (worker_at s)(i := Searching (search_version s) (board_of s i) (search_job s)),
     search_count_running := search_count_running s + 1, search_n_started := search_n_started s + 1,
     stop_flag := (stop_flag s)(i := False)\<rparr>"

definition hand_in :: "team \<Rightarrow> nat \<Rightarrow> int \<Rightarrow> move \<times> int \<Rightarrow> system \<Rightarrow> system" where
  "hand_in e i v a s =
     (let s = (if i = 0 then set_flags e True (s\<lparr>search_best := Some a\<rparr>) else s)
      in s\<lparr>worker_at := (worker_at s)(i := Waiting v), search_count_running := search_count_running s - 1\<rparr>)"

text \<open>The position to ponder: after our move, when it is still to be played, and the predicted reply.\<close>

definition ponder_position :: "position \<Rightarrow> move list \<Rightarrow> position option" where
  "ponder_position p line =
     (case line of
        our_move # their_reply # _ \<Rightarrow>
          (let q = (if is_legal_move p our_move then make_move our_move p else p)
           in if is_legal_move q their_reply then Some (make_move their_reply q) else None)
      | _ \<Rightarrow> None)"

datatype event = Take nat | Hand_in nat "move \<times> int" | Read command | Uci_step | Go_step | Go_ponders "move list"

fun uci_step :: "team \<Rightarrow> system \<Rightarrow> uci_place \<Rightarrow> system option" where
  "uci_step e s (Stopping k c) =
     (if k < n_searchers e then Some (s\<lparr>stop_flag := (stop_flag s)(k := True), uci_at := Stopping (k + 1) c\<rparr>)
      else Some (s\<lparr>uci_at := Joining c\<rparr>))"
| "uci_step e s (Joining c) = (if go_at s = Go_done then Some (s\<lparr>go_at := No_thread, uci_at := Dispatch c\<rparr>) else None)"
| "uci_step e s (Dispatch Stop) = Some (s\<lparr>uci_at := Reading\<rparr>)"
| "uci_step e s (Dispatch (Go j)) = Some (s\<lparr>go_at := Go_flags j, uci_at := Reading\<rparr>)"
| "uci_step e s (Dispatch (Position p)) = Some (s\<lparr>uci_at := Pos_flags p\<rparr>)"
| "uci_step e s (Pos_flags p) = Some (set_flags e True (s\<lparr>uci_at := Pos_wait p\<rparr>))"
| "uci_step e s (Pos_wait p) = (if search_count_running s = 0 then Some (s\<lparr>uci_at := Pos_write p\<rparr>) else None)"
| "uci_step e s (Pos_write p) = Some (s\<lparr>board_of := (board_of s)(0 := p), uci_at := Reading\<rparr>)"
| "uci_step e s Reading = None"

fun go_step :: "team \<Rightarrow> system \<Rightarrow> go_place \<Rightarrow> system option" where
  "go_step e s (Go_flags j) = Some (set_flags e True (s\<lparr>go_at := Go_wait j\<rparr>))"
| "go_step e s (Go_wait j) = (if search_count_running s = 0 then Some (s\<lparr>go_at := Go_look j\<rparr>) else None)"
| "go_step e s (Go_look j) =
     (case suggestion e (board_of s 0) of
        Some a \<Rightarrow> Some (s\<lparr>go_at := Go_answer a\<rparr>)
      | None \<Rightarrow> Some (s\<lparr>go_at := Go_put j\<rparr>))"
| "go_step e s (Go_put j) = Some ((put_job e j s)\<lparr>go_at := Go_started\<rparr>)"
| "go_step e s Go_started = (if n_searchers e \<le> search_n_started s then Some (s\<lparr>go_at := Go_get\<rparr>) else None)"
| "go_step e s Go_get =
     (case search_best s of
        Some a \<Rightarrow> if search_count_running s = 0 then Some (s\<lparr>go_at := Go_answer a\<rparr>) else None
      | None \<Rightarrow> None)"
| "go_step e s (Go_answer a) = Some (s\<lparr>go_at := (if allow_ponder e then Go_ponder else Go_done)\<rparr>)"
| "go_step e s Go_ponder_put = Some ((put_job e ponder_job s)\<lparr>go_at := Go_done\<rparr>)"
| "go_step e s Go_ponder = None"
| "go_step e s Go_done = None"
| "go_step e s No_thread = None"

fun happen :: "team \<Rightarrow> system \<Rightarrow> event \<Rightarrow> system option" where
  "happen e s (Take i) =
     (case worker_at s i of
        Waiting l \<Rightarrow> if i < n_searchers e \<and> search_version s \<noteq> l then Some (take_job i s) else None
      | Searching v b j \<Rightarrow> None)"
| "happen e s (Hand_in i a) =
     (case worker_at s i of
        Waiting l \<Rightarrow> None
      | Searching v b j \<Rightarrow> if i < n_searchers e \<and> may_find e b j a then Some (hand_in e i v a s) else None)"
| "happen e s (Read c) =
     (if uci_at s = Reading then Some (s\<lparr>uci_at := (if go_at s = No_thread then Dispatch c else Stopping 0 c)\<rparr>) else None)"
| "happen e s Uci_step = uci_step e s (uci_at s)"
| "happen e s Go_step = go_step e s (go_at s)"
| "happen e s (Go_ponders line) =
     (if go_at s = Go_ponder then
        (case ponder_position (board_of s 0) line of
           Some p \<Rightarrow> Some (s\<lparr>board_of := (board_of s)(0 := p), go_at := Go_ponder_put\<rparr>)
         | None \<Rightarrow> Some (s\<lparr>go_at := Go_done\<rparr>))
      else None)"

inductive run_reaches :: "team \<Rightarrow> position \<Rightarrow> system \<Rightarrow> bool" for e p where
  begins: "run_reaches e p (start_system p)"
| happens: "run_reaches e p s \<Longrightarrow> happen e s ev = Some s' \<Longrightarrow> run_reaches e p s'"

fun happen_all :: "team \<Rightarrow> system \<Rightarrow> event list \<Rightarrow> system option" where
  "happen_all e s [] = Some s"
| "happen_all e s (ev # evs) = (case happen e s ev of Some s' \<Rightarrow> happen_all e s' evs | None \<Rightarrow> None)"

lemma run_reaches_all: "run_reaches e p s \<Longrightarrow> happen_all e s evs = Some s' \<Longrightarrow> run_reaches e p s'"
  by (induction evs arbitrary: s) (auto split: option.splits intro: run_reaches.happens)

section \<open>What the searchers change\<close>

lemma set_flags_fields [simp]:
  "search_version (set_flags e b s) = search_version s" "search_job (set_flags e b s) = search_job s"
  "search_best (set_flags e b s) = search_best s" "search_n_started (set_flags e b s) = search_n_started s"
  "search_count_running (set_flags e b s) = search_count_running s" "board_of (set_flags e b s) = board_of s"
  "worker_at (set_flags e b s) = worker_at s" "uci_at (set_flags e b s) = uci_at s" "go_at (set_flags e b s) = go_at s"
  by (simp_all add: set_flags_def)

lemma put_job_fields [simp]:
  "search_version (put_job e j s) = search_version s + 1" "search_job (put_job e j s) = j" "search_best (put_job e j s) = None"
  "search_n_started (put_job e j s) = search_n_started s" "search_count_running (put_job e j s) = search_count_running s"
  "board_of (put_job e j s) 0 = board_of s 0" "worker_at (put_job e j s) = worker_at s" "uci_at (put_job e j s) = uci_at s"
  "go_at (put_job e j s) = go_at s"
  by (simp_all add: put_job_def prepare_threads_state_def)

lemma take_job_fields [simp]:
  "search_version (take_job i s) = search_version s" "search_job (take_job i s) = search_job s"
  "search_best (take_job i s) = search_best s" "search_count_running (take_job i s) = search_count_running s + 1"
  "board_of (take_job i s) = board_of s" "uci_at (take_job i s) = uci_at s" "go_at (take_job i s) = go_at s"
  "worker_at (take_job i s) = (worker_at s)(i := Searching (search_version s) (board_of s i) (search_job s))"
  by (simp_all add: take_job_def)

lemma hand_in_fields [simp]:
  "search_version (hand_in e i v a s) = search_version s" "search_job (hand_in e i v a s) = search_job s"
  "search_best (hand_in e i v a s) = (if i = 0 then Some a else search_best s)"
  "search_count_running (hand_in e i v a s) = search_count_running s - 1"
  "board_of (hand_in e i v a s) = board_of s" "uci_at (hand_in e i v a s) = uci_at s" "go_at (hand_in e i v a s) = go_at s"
  "worker_at (hand_in e i v a s) = (worker_at s)(i := Waiting v)"
  by (simp_all add: hand_in_def Let_def)

lemma uci_step_workers:
  "uci_step e s u = Some s' \<Longrightarrow>
   worker_at s' = worker_at s \<and> search_count_running s' = search_count_running s \<and> search_version s' = search_version s \<and>
   search_best s' = search_best s \<and> search_job s' = search_job s"
  by (cases "(e, s, u)" rule: uci_step.cases) (auto split: if_splits)

lemma go_step_workers:
  "go_step e s g = Some s' \<Longrightarrow> worker_at s' = worker_at s \<and> search_count_running s' = search_count_running s"
  by (cases "(e, s, g)" rule: go_step.cases) (auto split: if_splits option.splits)

lemma happenE:
  assumes "happen e s ev = Some s'"
  obtains (Take) i l where "ev = Take i" "i < n_searchers e" "worker_at s i = Waiting l" "search_version s \<noteq> l" "s' = take_job i s"
    | (Hand_in) i a v b j where "ev = Hand_in i a" "i < n_searchers e" "worker_at s i = Searching v b j" "may_find e b j a"
        "s' = hand_in e i v a s"
    | (Read) c where "ev = Read c" "uci_at s = Reading" "s' = s\<lparr>uci_at := (if go_at s = No_thread then Dispatch c else Stopping 0 c)\<rparr>"
    | (Uci_step) "ev = Uci_step" "uci_step e s (uci_at s) = Some s'"
    | (Go_step) "ev = Go_step" "go_step e s (go_at s) = Some s'"
    | (Ponder) line p where "ev = Go_ponders line" "go_at s = Go_ponder" "ponder_position (board_of s 0) line = Some p"
        "s' = s\<lparr>board_of := (board_of s)(0 := p), go_at := Go_ponder_put\<rparr>"
    | (No_ponder) line where "ev = Go_ponders line" "go_at s = Go_ponder" "s' = s\<lparr>go_at := Go_done\<rparr>"
proof (cases ev)
  case (Take i)
  then show ?thesis using assms that(1) by (cases "worker_at s i") (simp_all split: if_splits)
next
  case (Hand_in i a)
  then show ?thesis using assms that(2) by (cases "worker_at s i") (simp_all split: if_splits)
next
  case (Read c)
  then show ?thesis using assms that(3) by (simp split: if_splits)
next
  case Uci_step
  then show ?thesis using assms that(4) by simp
next
  case Go_step
  then show ?thesis using assms that(5) by simp
next
  case (Go_ponders line)
  then show ?thesis using assms that(6,7)
    by (cases "ponder_position (board_of s 0) line") (simp_all split: if_splits)
qed

section \<open>The count of running searches\<close>

fun searching :: "worker \<Rightarrow> bool" where
  "searching (Waiting l) = False"
| "searching (Searching v b j) = True"

definition running :: "team \<Rightarrow> (nat \<Rightarrow> worker) \<Rightarrow> nat set" where
  "running e w = {i. i < n_searchers e \<and> searching (w i)}"

definition counted :: "team \<Rightarrow> system \<Rightarrow> bool" where
  "counted e s = (search_count_running s = int (card (running e (worker_at s))))"

lemma running_update:
  "i < n_searchers e \<Longrightarrow> running e (w(i := x)) = (if searching x then insert i (running e w) else running e w - {i})"
  by (auto simp: running_def)

lemma finite_running [simp]: "finite (running e w)"
  by (simp add: running_def)

lemma counted_happen:
  assumes "counted e s" "happen e s ev = Some s'"
  shows "counted e s'"
  using assms(2)
proof (cases rule: happenE)
  case (Take i l)
  then have "i \<notin> running e (worker_at s)" by (simp add: running_def)
  then show ?thesis using assms(1) Take by (simp add: counted_def running_update)
next
  case (Hand_in i a v b j)
  then have i: "i \<in> running e (worker_at s)" by (simp add: running_def)
  have "card (running e (worker_at s)) = Suc (card (running e (worker_at s) - {i}))" by (rule card.remove [OF finite_running i])
  then show ?thesis using assms(1) Hand_in by (simp add: counted_def running_update)
next
  case Uci_step
  then show ?thesis using assms(1) uci_step_workers [of e s "uci_at s" s'] by (simp add: counted_def)
next
  case Go_step
  then show ?thesis using assms(1) go_step_workers [of e s "go_at s" s'] by (simp add: counted_def)
qed (use assms(1) in \<open>simp_all add: counted_def\<close>)

lemma reached_counted: "run_reaches e p s \<Longrightarrow> counted e s"
  by (induction rule: run_reaches.induct) (simp add: counted_def running_def start_system_def, rule counted_happen)

lemma not_running: "counted e s \<Longrightarrow> search_count_running s = 0 \<Longrightarrow> i < n_searchers e \<Longrightarrow> \<not> searching (worker_at s i)"
  by (auto simp: counted_def running_def)

section \<open>What holds in every run\<close>

text \<open>While a \<open>go\<close> command waits for its answer only the searchers change the result, and the UCI loop is not past
  the join of that thread.\<close>

definition commands_ok :: "system \<Rightarrow> bool" where
  "commands_ok s = ((case uci_at s of Reading \<Rightarrow> True | Stopping k c \<Rightarrow> True | Joining c \<Rightarrow> True | _ \<Rightarrow> go_at s = No_thread))"

definition awaiting :: "system \<Rightarrow> bool" where
  "awaiting s = (go_at s = Go_started \<or> go_at s = Go_get)"

fun served :: "worker \<Rightarrow> int" where
  "served (Waiting l) = l"
| "served (Searching v b j) = v"

definition versions_ok :: "team \<Rightarrow> system \<Rightarrow> bool" where
  "versions_ok e s = (\<forall>i < n_searchers e. served (worker_at s i) \<le> search_version s)"

definition answer_kept :: "system \<Rightarrow> bool" where
  "answer_kept s = (awaiting s \<longrightarrow> worker_at s 0 = Waiting (search_version s) \<longrightarrow> search_best s \<noteq> None)"

definition run_ok :: "team \<Rightarrow> system \<Rightarrow> bool" where
  "run_ok e s = (counted e s \<and> commands_ok s \<and> versions_ok e s \<and> answer_kept s)"

lemma uci_step_ok:
  assumes "uci_step e s (uci_at s) = Some s'" "commands_ok s"
  shows "commands_ok s'" "awaiting s' \<Longrightarrow> awaiting s"
  using assms by (cases "(e, s, uci_at s)" rule: uci_step.cases; auto simp: commands_ok_def awaiting_def split: if_splits)+

lemma go_step_commands:
  assumes "go_step e s (go_at s) = Some s'" "commands_ok s"
  shows "commands_ok s'"
  using assms by (cases "(e, s, go_at s)" rule: go_step.cases; auto simp: commands_ok_def split: if_splits option.splits uci_place.splits)

text \<open>A step of the \<open>go\<close> thread leaves the result alone, or hands out a new job.\<close>

lemma go_step_version:
  "go_step e s g = Some s' \<Longrightarrow>
   (search_version s' = search_version s \<and> search_best s' = search_best s \<and> search_job s' = search_job s \<and> board_of s' = board_of s)
   \<or> (search_version s' = search_version s + 1 \<and> search_best s' = None \<and> board_of s' 0 = board_of s 0)"
  by (cases "(e, s, g)" rule: go_step.cases) (auto split: if_splits option.splits)

lemma go_step_awaiting:
  "go_step e s (go_at s) = Some s' \<Longrightarrow> awaiting s' \<Longrightarrow> awaiting s \<or> search_version s' = search_version s + 1"
  by (cases "(e, s, go_at s)" rule: go_step.cases) (auto simp: awaiting_def split: if_splits option.splits)

lemma versions_happen:
  assumes "versions_ok e s" "happen e s ev = Some s'"
  shows "versions_ok e s'"
  using assms(2)
proof (cases rule: happenE)
  case (Hand_in i a v b j)
  then have "v \<le> search_version s" using assms(1) by (force simp: versions_ok_def)
  then show ?thesis using assms(1) Hand_in by (simp add: versions_ok_def)
next
  case Uci_step
  then show ?thesis using assms(1) uci_step_workers [of e s "uci_at s" s'] by (simp add: versions_ok_def)
next
  case Go_step
  have v: "search_version s \<le> search_version s'" using go_step_version [OF Go_step(2)] by linarith
  have w: "worker_at s' = worker_at s" using go_step_workers [OF Go_step(2)] by simp
  show ?thesis using assms(1) v unfolding versions_ok_def w by (meson order_trans)
qed (use assms(1) in \<open>simp_all add: versions_ok_def\<close>)

lemma commands_happen:
  assumes "commands_ok s" "happen e s ev = Some s'"
  shows "commands_ok s'"
  using assms(2)
proof (cases rule: happenE)
  case Uci_step
  then show ?thesis using uci_step_ok assms(1) by blast
next
  case Go_step
  then show ?thesis using go_step_commands assms(1) by blast
qed (use assms(1) in \<open>auto simp: commands_ok_def split: uci_place.splits\<close>)

lemma answer_happen:
  assumes "answer_kept s" "versions_ok e s" "0 < n_searchers e" "commands_ok s" "happen e s ev = Some s'"
  shows "answer_kept s'"
  using assms(5)
proof (cases rule: happenE)
  case (Take i l)
  then show ?thesis using assms(1) by (auto simp: answer_kept_def awaiting_def)
next
  case (Hand_in i a v b j)
  then show ?thesis using assms(1) by (auto simp: answer_kept_def awaiting_def)
next
  case Uci_step
  then show ?thesis using assms(1) uci_step_ok(2) [OF Uci_step(2) assms(4)] uci_step_workers [OF Uci_step(2)]
    by (simp add: answer_kept_def)
next
  case Go_step
  have w: "worker_at s' = worker_at s" using go_step_workers [OF Go_step(2)] by simp
  show ?thesis
  proof (cases "search_version s' = search_version s + 1")
    case True
    then have "worker_at s' 0 \<noteq> Waiting (search_version s')" using assms(2,3) by (force simp: versions_ok_def w)
    then show ?thesis by (simp add: answer_kept_def)
  next
    case False
    then show ?thesis using assms(1) go_step_version [OF Go_step(2)] go_step_awaiting [OF Go_step(2)] w
      by (auto simp: answer_kept_def)
  qed
qed (use assms(1) in \<open>auto simp: answer_kept_def awaiting_def\<close>)

lemma reached_ok: "run_reaches e p s \<Longrightarrow> 0 < n_searchers e \<Longrightarrow> run_ok e s"
proof (induction rule: run_reaches.induct)
  case begins
  then show ?case
    by (simp add: run_ok_def counted_def running_def commands_ok_def versions_ok_def answer_kept_def awaiting_def start_system_def)
next
  case (happens s ev s')
  then have "run_ok e s" by simp
  then show ?case unfolding run_ok_def
    using counted_happen commands_happen versions_happen answer_happen happens.hyps(2) happens.prems by blast
qed

section \<open>Progress of a \<open>go\<close>\<close>

fun searcher_event :: "event \<Rightarrow> bool" where
  "searcher_event (Take i) = True"
| "searcher_event (Hand_in i a) = True"
| "searcher_event ev = False"

definition worker_left :: "int \<Rightarrow> worker \<Rightarrow> nat" where
  "worker_left now w = (case w of Waiting l \<Rightarrow> if l = now then 0 else 2 | Searching v b j \<Rightarrow> if v = now then 1 else 3)"

definition work_left :: "team \<Rightarrow> system \<Rightarrow> nat" where
  "work_left e s = (\<Sum>i < n_searchers e. worker_left (search_version s) (worker_at s i))"

lemma sum_update_less:
  assumes "i < n" "f x < f (w i)"
  shows "(\<Sum>k < n. f ((w(i := x)) k)) < (\<Sum>k < (n :: nat). (f (w k) :: nat))"
proof (rule sum_strict_mono_ex1)
  show "\<forall>k \<in> {..<n}. f ((w(i := x)) k) \<le> f (w k)" using assms by simp
  show "\<exists>k \<in> {..<n}. f ((w(i := x)) k) < f (w k)" using assms by (intro bexI [of _ i]) simp_all
qed simp

lemma searcher_event_decreases:
  assumes "happen e s ev = Some s'" "searcher_event ev"
  shows "work_left e s' < work_left e s \<and> go_at s' = go_at s"
  using assms(1)
proof (cases rule: happenE)
  case (Take i l)
  then show ?thesis by (simp add: work_left_def del: fun_upd_apply) (rule sum_update_less, simp_all add: worker_left_def)
next
  case (Hand_in i a v b j)
  then show ?thesis by (simp add: work_left_def del: fun_upd_apply) (rule sum_update_less, simp_all add: worker_left_def)
qed (use assms(2) in simp_all)

lemma searcher_events:
  "happen_all e s evs = Some s' \<Longrightarrow> list_all searcher_event evs \<Longrightarrow>
   length evs + work_left e s' \<le> work_left e s \<and> go_at s' = go_at s"
proof (induction evs arbitrary: s)
  case (Cons ev evs)
  then obtain t where t: "happen e s ev = Some t" "happen_all e t evs = Some s'" by (auto split: option.splits)
  then have "length evs + work_left e s' \<le> work_left e t \<and> go_at s' = go_at t" using Cons by simp
  moreover have "work_left e t < work_left e s \<and> go_at t = go_at s" using searcher_event_decreases [OF t(1)] Cons.prems(2) by simp
  ultimately show ?case by simp
qed simp

lemma work_left_bound: "work_left e s \<le> 3 * n_searchers e"
proof -
  have "worker_left v w \<le> 3" for v w by (simp add: worker_left_def split: worker.split)
  then have "work_left e s \<le> of_nat (card {..<n_searchers e}) * 3" unfolding work_left_def by (intro sum_bounded_above)
  then show ?thesis by simp
qed

text \<open>A waiting \<open>go\<close> is never stuck: a searcher can move, or the answer can be fetched.\<close>

lemma waiting_go_moves:
  assumes "run_ok e s" "0 < n_searchers e" "go_at s = Go_get" "\<And>b j. \<exists>a. may_find e b j a"
  shows "(\<exists>ev s'. searcher_event ev \<and> happen e s ev = Some s') \<or> (\<exists>a s'. happen e s Go_step = Some s' \<and> go_at s' = Go_answer a)"
proof (cases "\<exists>i < n_searchers e. worker_at s i \<noteq> Waiting (search_version s)")
  case True
  then obtain i where i: "i < n_searchers e" "worker_at s i \<noteq> Waiting (search_version s)" by blast
  show ?thesis
  proof (cases "worker_at s i")
    case (Waiting l)
    then have "happen e s (Take i) = Some (take_job i s)" using i by simp
    then show ?thesis using searcher_event.simps(1) by blast
  next
    case (Searching v b j)
    obtain a where "may_find e b j a" using assms(4) by blast
    then have "happen e s (Hand_in i a) = Some (hand_in e i v a s)" using i Searching by simp
    then show ?thesis using searcher_event.simps(2) by blast
  qed
next
  case False
  then have "running e (worker_at s) = {}" by (force simp: running_def)
  then have "search_count_running s = 0" using assms(1) by (simp add: run_ok_def counted_def)
  moreover obtain a where "search_best s = Some a"
    using assms(1-3) False by (auto simp: run_ok_def answer_kept_def awaiting_def)
  ultimately show ?thesis using assms(3) by simp
qed

section \<open>Answers without pondering\<close>

text \<open>The searcher whose result is used: idle with the present version outside a search, else on the present job.\<close>

fun serves :: "team \<Rightarrow> int \<Rightarrow> position \<Rightarrow> job \<Rightarrow> (move \<times> int) option \<Rightarrow> worker \<Rightarrow> bool" where
  "serves e now p job best (Waiting l) =
     (if l = now then \<exists>a. best = Some a \<and> may_find e p job a else best = None)"
| "serves e now p job best (Searching v b j) = (v = now \<and> b = p \<and> j = job \<and> best = None)"

definition serving :: "team \<Rightarrow> system \<Rightarrow> bool" where
  "serving e s = serves e (search_version s) (board_of s 0) (search_job s) (search_best s) (worker_at s 0)"

lemma serves_Some: "serves e now p job (Some a) w \<Longrightarrow> w = Waiting now \<and> may_find e p job a"
  by (cases w) (auto split: if_splits)

definition idle :: "system \<Rightarrow> bool" where
  "idle s = (worker_at s 0 = Waiting (search_version s))"

definition answered :: "team \<Rightarrow> system \<Rightarrow> move \<times> int \<Rightarrow> bool" where
  "answered e s a = (suggestion e (board_of s 0) = Some a \<or> may_find e (board_of s 0) (search_job s) a)"

definition first_ok :: "team \<Rightarrow> system \<Rightarrow> bool" where
  "first_ok e s =
     (if awaiting s then serving e s
      else idle s \<and> go_at s \<noteq> Go_ponder \<and> go_at s \<noteq> Go_ponder_put \<and> (\<forall>a. go_at s = Go_answer a \<longrightarrow> answered e s a))"

lemma first_go_step:
  assumes "go_step e s (go_at s) = Some s'" "first_ok e s" "\<not> allow_ponder e"
  shows "first_ok e s'"
  using assms
  by (cases "(e, s, go_at s)" rule: go_step.cases)
    (auto simp: first_ok_def awaiting_def idle_def serving_def answered_def dest: serves_Some split: if_splits option.splits)

lemma first_uci_step:
  assumes "uci_step e s (uci_at s) = Some s'" "first_ok e s" "commands_ok s"
  shows "first_ok e s'"
  using assms
  by (cases "(e, s, uci_at s)" rule: uci_step.cases)
    (auto simp: first_ok_def awaiting_def idle_def serving_def answered_def commands_ok_def split: if_splits)

lemma first_happen:
  assumes "first_ok e s" "commands_ok s" "\<not> allow_ponder e" "happen e s ev = Some s'"
  shows "first_ok e s'"
  using assms(4)
proof (cases rule: happenE)
  case (Take i l)
  then show ?thesis using assms(1)
    by (cases "i = 0") (auto simp: first_ok_def awaiting_def idle_def serving_def answered_def split: if_splits)
next
  case (Hand_in i a v b j)
  then show ?thesis using assms(1)
    by (cases "i = 0") (auto simp: first_ok_def awaiting_def idle_def serving_def answered_def split: if_splits)
next
  case (Read c)
  then show ?thesis using assms(1) by (auto simp: first_ok_def awaiting_def idle_def serving_def answered_def)
next
  case Uci_step
  then show ?thesis using first_uci_step assms(1,2) by blast
next
  case Go_step
  then show ?thesis using first_go_step assms(1,3) by blast
qed (use assms(1) in \<open>simp_all add: first_ok_def awaiting_def\<close>)

lemma reached_first:
  "run_reaches e p s \<Longrightarrow> 0 < n_searchers e \<Longrightarrow> \<not> allow_ponder e \<Longrightarrow> first_ok e s"
proof (induction rule: run_reaches.induct)
  case begins
  then show ?case by (simp add: first_ok_def awaiting_def idle_def start_system_def)
next
  case (happens s ev s')
  then show ?case using first_happen reached_ok unfolding run_ok_def by blast
qed

section \<open>Runs that go wrong\<close>

text \<open>A \<open>stop\<close> that arrives before the thread of the \<open>go\<close> has handed out its job.\<close>

definition early_stop :: "job \<Rightarrow> event list" where
  "early_stop j = [Read (Go j), Uci_step, Read Stop, Uci_step, Uci_step, Go_step, Go_step, Go_step, Go_step, Take 0, Go_step]"

lemma early_stop_run:
  assumes "n_searchers e = 1" "suggestion e p = None"
  shows "\<exists>s. happen_all e (start_system p) (early_stop j) = Some s \<and> uci_at s = Joining Stop \<and> go_at s = Go_get \<and>
    worker_at s 0 = Searching 0 p j \<and> \<not> stop_flag s 0"
  using assms
  by (simp add: early_stop_def start_system_def set_flags_def put_job_def prepare_threads_state_def take_job_def)

text \<open>A search for an answer, then pondering started but not yet taken up when the next command arrives.\<close>

definition pondering :: "job \<Rightarrow> move \<times> int \<Rightarrow> move list \<Rightarrow> event list" where
  "pondering j a line = [Read (Go j), Uci_step, Go_step, Go_step, Go_step, Go_step, Take 0, Go_step, Hand_in 0 a, Go_step, Go_step,
     Go_ponders line, Go_step]"

definition new_position :: "position \<Rightarrow> event list" where
  "new_position r = [Read (Position r), Uci_step, Uci_step, Uci_step, Uci_step, Uci_step, Uci_step]"

definition next_go :: "job \<Rightarrow> event list" where
  "next_go k = [Uci_step, Read (Go k), Uci_step, Go_step, Go_step, Go_step, Take 0, Go_step, Go_step]"

lemma happen_all_append:
  "happen_all e s (evs @ fs) = (case happen_all e s evs of Some s' \<Rightarrow> happen_all e s' fs | None \<Rightarrow> None)"
  by (induction evs arbitrary: s) (simp_all split: option.split)

lemma pondering_run:
  assumes "n_searchers e = 1" "allow_ponder e" "\<And>q. suggestion e q = None" "may_find e p j a" "ponder_position p line = Some q"
  shows "\<exists>s. happen_all e (start_system p) (pondering j a line) = Some s \<and> uci_at s = Reading \<and> go_at s = Go_done \<and>
    worker_at s 0 = Waiting 0 \<and> search_version s = 1 \<and> search_job s = ponder_job \<and> board_of s 0 = q \<and>
    search_count_running s = 0 \<and> search_n_started s = 1"
  using assms
  by (simp add: pondering_def start_system_def set_flags_def put_job_def prepare_threads_state_def take_job_def hand_in_def)

lemma new_position_run:
  assumes "n_searchers e = 1" "uci_at s = Reading" "go_at s = Go_done" "search_count_running s = 0"
  shows "\<exists>s'. happen_all e s (new_position r) = Some s' \<and> uci_at s' = Pos_write r \<and> go_at s' = No_thread \<and>
    worker_at s' = worker_at s \<and> search_version s' = search_version s \<and> search_job s' = search_job s \<and> board_of s' = board_of s \<and>
    search_count_running s' = 0 \<and> search_n_started s' = search_n_started s"
  using assms by (simp add: new_position_def set_flags_def)

lemma next_go_run:
  assumes "n_searchers e = 1" "\<And>q. suggestion e q = None" "uci_at s = Pos_write r" "go_at s = No_thread" "search_n_started s = 1"
    and "worker_at s 0 = Waiting 0" "search_version s = 1" "search_job s = ponder_job" "search_count_running s = 0"
  shows "\<exists>s'. happen_all e s (next_go k) = Some s' \<and> go_at s' = Go_get \<and> search_job s' = k \<and>
    worker_at s' 0 = Searching 1 r ponder_job \<and> \<not> stop_flag s' 0"
  using assms by (simp add: next_go_def set_flags_def put_job_def prepare_threads_state_def take_job_def)

text \<open>A small run, for the examples: one searcher that finds a fixed answer.\<close>

definition solo :: "bool \<Rightarrow> team" where
  "solo ponder = \<lparr>n_searchers = 1, allow_ponder = ponder, may_find = (\<lambda>b j a. a = (small_move, 0)), suggestion = (\<lambda>_. None)\<rparr>"

definition small_push :: move where
  "small_push = mk_move 12 20 NORMAL"

lemma small_push_accepted: "is_legal_move small_game small_push"
proof -
  note fl = mk_move_fields [of 12 20 NORMAL, folded small_push_def, unfolded on_board_def, simplified]
  have on: "piece_on small_game 12 = Some \<lparr>p_type = PAWN, p_color = WHITE\<rparr>"
    using piece_on_Some [OF small_ok(1), of 12] by (simp add: on_board_def pawn_game_has)
  have f: "free small_game 20" by (simp add: pawn_game_free)
  then have "color_of small_game 20 \<noteq> Some WHITE"
    using color_of_Some [OF small_ok(1), of 20 WHITE] by (simp add: free_def bit_occupancy on_board_def)
  moreover have "pseudo_legal_pawn small_game WHITE 12 20"
  proof -
    have "pos_color_bb small_game WHITE OR pos_color_bb small_game (opp WHITE) = occupancy_bb small_game"
      by (simp add: occupancy_bb_def or.commute)
    moreover have "occupancy_bb small_game AND square_bb 20 = 0"
      using f by (simp add: free_def on_board_def)
    ultimately show ?thesis by (simp add: pseudo_legal_pawn_def Let_def pawn_shift_def)
  qed
  moreover have "is_legal_generated_move small_game small_push"
    by (simp add: is_legal_generated_move_def is_legal_generated_move_pinned_def Let_def fl pawn_game_no_pins
        pawn_game_fields small_ok(5))
  ultimately show ?thesis using on small_ok by (simp add: is_legal_move_def Let_def fl pawn_game_fields)
qed

lemma small_ponder: "ponder_position small_game [0, small_push] = Some (make_move small_push small_game)"
proof -
  have "piece_on small_game 0 = None"
    using piece_type_on_None [OF small_ok(1), of 0] by (simp add: piece_on_def piece_from_def on_board_def pawn_game_free split: option.split)
  then have "\<not> is_legal_move small_game 0" by (simp add: is_legal_move_def Let_def from_square_def)
  then show ?thesis using small_push_accepted by (simp add: ponder_position_def)
qed

section \<open>Properties\<close>

text \<open>In every interleaving \<open>search_count_running\<close> is the number of searchers in a search, so the waits
  for it to become zero do wait for all of them.\<close>

theorem running_count_is_right:
  assumes "run_reaches e p s"
  shows "search_count_running s = int (card {i. i < n_searchers e \<and> searching (worker_at s i)})"
  using reached_counted [OF assms] by (simp add: counted_def running_def)

text \<open>C9 (safety). With pondering off, whatever the interleaving and whatever commands arrive: the answer of a \<open>go\<close> is
  the suggestion for, or was found by the first searcher in, the present position for the job of that \<open>go\<close>; and the position
  handler never writes the position of the first searcher, whose answer counts, while that one searches.  The positions of the
  other searchers are not covered: see \<open>helper_position_overwritten\<close>.\<close>

theorem answers_are_for_the_position:
  assumes "run_reaches e p s" "0 < n_searchers e" "\<not> allow_ponder e"
  shows "(\<forall>a. go_at s = Go_answer a \<longrightarrow> suggestion e (board_of s 0) = Some a \<or> may_find e (board_of s 0) (search_job s) a) \<and>
    (\<forall>q. uci_at s = Pos_write q \<longrightarrow> \<not> searching (worker_at s 0))"
  using reached_first [OF assms] reached_ok [OF assms(1,2)]
  by (auto simp: first_ok_def run_ok_def commands_ok_def awaiting_def idle_def answered_def)

text \<open>C14 (liveness). A \<open>go\<close> that waits for its answer gets it: the searchers can make at most three steps each before
  the answer can be fetched, and until then one of them always can make a step.\<close>

theorem go_gets_an_answer:
  assumes "run_reaches e p s" "0 < n_searchers e" "go_at s = Go_get" "\<And>b j. \<exists>a. may_find e b j a"
    and "list_all searcher_event evs" "happen_all e s evs = Some s'"
  shows "length evs \<le> 3 * n_searchers e \<and>
    ((\<exists>ev t. searcher_event ev \<and> happen e s' ev = Some t) \<or> (\<exists>a t. happen e s' Go_step = Some t \<and> go_at t = Go_answer a))"
proof
  show "length evs \<le> 3 * n_searchers e" using searcher_events [OF assms(6,5)] work_left_bound [of e s] by simp
  have "run_ok e s'" using reached_ok run_reaches_all assms(1,2,6) by blast
  then show "(\<exists>ev t. searcher_event ev \<and> happen e s' ev = Some t) \<or> (\<exists>a t. happen e s' Go_step = Some t \<and> go_at t = Go_answer a)"
    using searcher_events [OF assms(6,5)] assms(2-4) by (intro waiting_go_moves) simp_all
qed

text \<open>C33 (error). A \<open>stop\<close> can be lost: when it sets the flags before the thread of the \<open>go\<close> hands out its job, that
  thread clears them again; the search then runs with its flag clear while the command loop waits for the thread to
  end, however long the job.\<close>

theorem stop_can_be_lost:
  assumes "n_searchers e = 1" "suggestion e p = None"
  shows "\<exists>s. run_reaches e p s \<and> uci_at s = Joining Stop \<and> go_at s = Go_get \<and> worker_at s 0 = Searching 0 p j \<and> \<not> stop_flag s 0"
  using early_stop_run [OF assms, of j] run_reaches_all [OF run_reaches.begins] by blast

text \<open>C34 (error). With pondering on, \<open>stop_ponder\<close> misses a ponder search that no searcher has taken up yet.  The position
  handler then writes the position that search has just begun to use, and the \<open>go\<close> that follows waits for the
  ponder search, of five minutes and with its flag clear, before its own job is looked at.\<close>

theorem ponder_search_can_be_missed:
  assumes "n_searchers e = 1" "allow_ponder e" "\<And>q. suggestion e q = None" "may_find e p j a" "ponder_position p line = Some q"
  shows "(\<exists>s. run_reaches e p s \<and> uci_at s = Pos_write r \<and> worker_at s 0 = Searching 1 q ponder_job \<and> \<not> stop_flag s 0) \<and>
    (\<exists>s. run_reaches e p s \<and> go_at s = Go_get \<and> search_job s = k \<and> worker_at s 0 = Searching 1 r ponder_job \<and> \<not> stop_flag s 0)"
proof -
  obtain s where s: "run_reaches e p s" "uci_at s = Reading" "go_at s = Go_done" "worker_at s 0 = Waiting 0" "search_version s = 1"
      "search_job s = ponder_job" "board_of s 0 = q" "search_count_running s = 0" "search_n_started s = 1"
    using pondering_run [OF assms] run_reaches_all [OF run_reaches.begins] by blast
  obtain t where t: "run_reaches e p t" "uci_at t = Pos_write r" "go_at t = No_thread" "worker_at t 0 = Waiting 0" "search_version t = 1"
      "search_job t = ponder_job" "board_of t 0 = q" "search_count_running t = 0" "search_n_started t = 1"
    using new_position_run [OF assms(1) s(2,3,8), of r] run_reaches_all [OF s(1)] s(4-9) by metis
  have "happen e t (Take 0) = Some (take_job 0 t)" using t assms(1) by simp
  then have "run_reaches e p (take_job 0 t)" by (rule run_reaches.happens [OF t(1)])
  then have "\<exists>s. run_reaches e p s \<and> uci_at s = Pos_write r \<and> worker_at s 0 = Searching 1 q ponder_job \<and> \<not> stop_flag s 0"
    using t by (intro exI [of _ "take_job 0 t"]) (simp add: take_job_def)
  moreover have "\<exists>s. run_reaches e p s \<and> go_at s = Go_get \<and> search_job s = k \<and> worker_at s 0 = Searching 1 r ponder_job \<and> \<not> stop_flag s 0"
    using next_go_run [OF assms(1,3) t(2,3,9,4,5,6,8), of k] run_reaches_all [OF t(1)] by blast
  ultimately show ?thesis ..
qed

text \<open>The number of searchers that have started is never reset, so only the first \<open>go\<close> waits for all of them.  A helper that is late
  takes the job of a later \<open>go\<close> after its answer, and the next \<open>go\<close>, which has just found nobody searching, overwrites the
  position the helper searches.\<close>

definition duo :: team where
  "duo = \<lparr>n_searchers = 2, allow_ponder = False, may_find = (\<lambda>b j a. a = (small_move, 0)), suggestion = (\<lambda>_. None)\<rparr>"

definition one_go :: "event list" where
  "one_go = [Read (Go no_job), Uci_step, Go_step, Go_step, Go_step, Go_step]"

lemma late_helper_run:
  "\<exists>s. happen_all duo (start_system small_game)
     (one_go @ [Take 0, Take 1, Go_step, Hand_in 0 (small_move, 0), Hand_in 1 (small_move, 0), Go_step, Go_step, Read (Go no_job), Uci_step, Uci_step,
       Uci_step, Uci_step, Uci_step, Go_step, Go_step, Go_step, Go_step, Take 0, Go_step, Hand_in 0 (small_move, 0), Go_step, Go_step,
       Read (Go no_job), Uci_step, Uci_step, Uci_step, Uci_step, Uci_step, Go_step, Go_step, Take 1, Go_step]) = Some s \<and>
     go_at s = Go_put no_job \<and> worker_at s 1 = Searching 1 small_game no_job"
  by (simp add: duo_def one_go_def start_system_def set_flags_def put_job_def prepare_threads_state_def take_job_def hand_in_def)

theorem helper_position_overwritten:
  "\<exists>s. run_reaches duo small_game s \<and> go_at s = Go_put no_job \<and> worker_at s 1 = Searching 1 small_game no_job \<and>
     happen duo s Go_step = Some ((put_job duo no_job s)\<lparr>go_at := Go_started\<rparr>)"
proof -
  obtain s where "run_reaches duo small_game s" "go_at s = Go_put no_job" "worker_at s 1 = Searching 1 small_game no_job"
    using late_helper_run run_reaches_all [OF run_reaches.begins] by blast
  then show ?thesis by (intro exI [of _ s]) simp
qed

section \<open>Witnesses\<close>

lemma solo_waiting:
  "\<exists>s. run_reaches (solo False) small_game s \<and> go_at s = Go_get \<and> worker_at s 0 = Searching 0 small_game no_job"
  using early_stop_run [of "solo False" small_game no_job] run_reaches_all [OF run_reaches.begins] by (force simp: solo_def)

lemma solo_answers:
  "\<exists>s. run_reaches (solo False) small_game s \<and> go_at s = Go_answer (small_move, 0)"
proof -
  have "\<exists>s. happen_all (solo False) (start_system small_game)
      [Read (Go no_job), Uci_step, Go_step, Go_step, Go_step, Go_step, Take 0, Go_step, Hand_in 0 (small_move, 0), Go_step] = Some s
      \<and> go_at s = Go_answer (small_move, 0)"
    by (simp add: solo_def start_system_def set_flags_def put_job_def prepare_threads_state_def take_job_def hand_in_def)
  then show ?thesis using run_reaches_all [OF run_reaches.begins] by blast
qed

theorem running_count_is_right_witness:
  "\<exists>s. run_reaches (solo False) small_game s \<and> search_count_running s = 1"
proof -
  obtain s where s: "run_reaches (solo False) small_game s" "worker_at s 0 = Searching 0 small_game no_job" using solo_waiting by blast
  have "{i. i < n_searchers (solo False) \<and> searching (worker_at s i)} = {0}" using s(2) by (auto simp: solo_def)
  then show ?thesis using running_count_is_right [OF s(1)] s(1) by auto
qed

theorem answers_are_for_the_position_witness:
  "\<exists>s. run_reaches (solo False) small_game s \<and> go_at s = Go_answer (small_move, 0) \<and>
    (suggestion (solo False) (board_of s 0) = Some (small_move, 0) \<or> may_find (solo False) (board_of s 0) (search_job s) (small_move, 0))"
proof -
  obtain s where s: "run_reaches (solo False) small_game s" "go_at s = Go_answer (small_move, 0)" using solo_answers by blast
  have "0 < n_searchers (solo False)" "\<not> allow_ponder (solo False)" by (simp_all add: solo_def)
  then show ?thesis using answers_are_for_the_position [OF s(1)] s by blast
qed

theorem go_gets_an_answer_witness:
  "\<exists>s t. run_reaches (solo False) small_game s \<and> go_at s = Go_get \<and> happen (solo False) s (Hand_in 0 (small_move, 0)) = Some t \<and>
    ((\<exists>ev u. searcher_event ev \<and> happen (solo False) t ev = Some u) \<or> (\<exists>a u. happen (solo False) t Go_step = Some u \<and> go_at u = Go_answer a))"
proof -
  obtain s where s: "run_reaches (solo False) small_game s" "go_at s = Go_get" "worker_at s 0 = Searching 0 small_game no_job"
    using solo_waiting by blast
  let ?t = "hand_in (solo False) 0 0 (small_move, 0) s"
  have h: "happen (solo False) s (Hand_in 0 (small_move, 0)) = Some ?t" using s(3) by (simp add: solo_def)
  have "0 < n_searchers (solo False)" "\<exists>a. may_find (solo False) b j a" for b j by (simp_all add: solo_def)
  then show ?thesis
    using go_gets_an_answer [OF s(1) _ s(2), of "[Hand_in 0 (small_move, 0)]" ?t] h s by (intro exI [of _ s] exI [of _ ?t]) simp
qed

theorem stop_can_be_lost_witness:
  "\<exists>s. run_reaches (solo False) small_game s \<and> uci_at s = Joining Stop \<and> go_at s = Go_get \<and>
    worker_at s 0 = Searching 0 small_game no_job \<and> \<not> stop_flag s 0"
  by (rule stop_can_be_lost) (simp_all add: solo_def)

theorem ponder_search_can_be_missed_witness:
  "\<exists>s. run_reaches (solo True) small_game s \<and> go_at s = Go_get \<and> search_job s = no_job \<and>
    worker_at s 0 = Searching 1 (pawn_game 28) ponder_job \<and> \<not> stop_flag s 0"
  by (rule conjunct2, rule ponder_search_can_be_missed [OF _ _ _ _ small_ponder]) (simp_all add: solo_def)

end
