(* ===== verification/Time_Policy.thy ===== *)
theory Time_Policy
  imports Move_Gen Doubles Texts
begin

text \<open>
  The time policy of \<open>time_policy.h\<close> and the part of the \<open>go\<close> command of \<open>main.cpp\<close> that computes the time of a
  move.  Floating point values are rationals, every operation followed by the rounding \<open>fl\<close> of Doubles; the
  order of the operations is that of the source.  The sums, differences and products of \<open>int\<close>s and the narrowing of
  \<open>lround\<close> are kept to 32 bits with \<open>to_int32\<close>, as the compiled code wraps them.
\<close>

section \<open>Parameters and the history of the opponent's clock\<close>

record params =
  inc_weight_max_pm :: int
  inc_weight_min_pm :: int
  complexity_weight_pm :: int
  opp_react_weight_pm :: int
  scale_lt2s_pm :: int
  scale_lt5s_pm :: int
  scale_lt15s_pm :: int
  scale_gte15s_pm :: int

definition default_params :: params where
  "default_params = \<lparr>inc_weight_max_pm = 667, inc_weight_min_pm = 500, complexity_weight_pm = 0, opp_react_weight_pm = 0,
     scale_lt2s_pm = 1000, scale_lt5s_pm = 1000, scale_lt15s_pm = 1000, scale_gte15s_pm = 1000\<rparr>"

record opp_history =
  recent_ms :: "int list"
  prev_opp_ms :: int

definition opp_history_K :: nat where
  "opp_history_K = 6"

definition opp_reset :: opp_history where
  "opp_reset = \<lparr>recent_ms = [], prev_opp_ms = -1\<rparr>"

definition observe :: "int \<Rightarrow> int \<Rightarrow> opp_history \<Rightarrow> opp_history" where
  "observe cur_opp_ms inc_opp h =
     (let recent =
        (if prev_opp_ms h \<ge> 0 \<and> cur_opp_ms \<ge> 0 then
           let used = to_int32 (prev_opp_ms h - cur_opp_ms + inc_opp) in
           if used \<ge> 0 \<and> used < 600000 then
             let r = recent_ms h @ [used] in if length r > opp_history_K then tl r else r
           else recent_ms h
         else recent_ms h)
      in \<lparr>recent_ms = recent, prev_opp_ms = cur_opp_ms\<rparr>)"

definition avg_ms :: "opp_history \<Rightarrow> rat" where
  "avg_ms h = (if recent_ms h = [] then -1 else fl (of_int (sum_list (recent_ms h)) / of_nat (length (recent_ms h))))"

definition last_ms :: "opp_history \<Rightarrow> int" where
  "last_ms h = (if recent_ms h = [] then -1 else last (recent_ms h))"

section \<open>Complexity of a position\<close>

definition clamp :: "rat \<Rightarrow> rat \<Rightarrow> rat \<Rightarrow> rat" where
  "clamp x lo hi = (if x < lo then lo else if hi < x then hi else x)"

definition mobility_factor :: "position \<Rightarrow> rat" where
  "mobility_factor p =
     (let n = int (length (pseudo_legal_move_list p))
      in if n \<le> 10 then 0 else if n \<ge> 40 then 1 else fl (of_int (n - 10) / 30))"

definition file_cnt :: "bitboard \<Rightarrow> int list" where
  "file_cnt pawns = map (\<lambda>f. popcount (pawns AND push_bit f 0x0101010101010101)) [0..<8]"

definition doubled_pawns :: "int list \<Rightarrow> int" where
  "doubled_pawns cnt = sum_list (map (\<lambda>c. if c > 1 then c - 1 else 0) cnt)"

primrec islands_loop :: "int list \<Rightarrow> int \<Rightarrow> bool \<Rightarrow> int" where
  "islands_loop [] islands inside = islands"
| "islands_loop (c # cs) islands inside =
     (if c \<noteq> 0 then islands_loop cs (if inside then islands else islands + 1) True else islands_loop cs islands False)"

definition isolated_files :: "int list \<Rightarrow> int" where
  "isolated_files cnt =
     int (length (filter (\<lambda>f. cnt ! f \<noteq> 0 \<and> \<not> (f > 0 \<and> cnt ! (f - 1) \<noteq> 0 \<or> f < 7 \<and> cnt ! (f + 1) \<noteq> 0)) [0..<8]))"

definition pawn_structure_of :: "position \<Rightarrow> color \<Rightarrow> rat \<Rightarrow> rat" where
  "pawn_structure_of p c score =
     (let pawns = piece_type_color_bb p PAWN c in
      if pawns = 0 then score
      else
        let cnt = file_cnt pawns;
            islands_n = clamp (fl (of_int (islands_loop cnt 0 False - 1) / 4)) 0 1;
            doubled_n = clamp (fl (of_int (doubled_pawns cnt) / 3)) 0 1;
            isolated_n = clamp (fl (of_int (isolated_files cnt) / 3)) 0 1
        in fl (score + fl (fl (fl (islands_n * fl (3 / 10)) + fl (doubled_n * fl (4 / 10))) + fl (isolated_n * fl (3 / 10)))))"

definition pawn_structure_factor :: "position \<Rightarrow> rat" where
  "pawn_structure_factor p = clamp (fl (fold (pawn_structure_of p) [WHITE, BLACK] 0 / 2)) 0 1"

text \<open>The pawn shield: the squares before the king and, counted but not looked at, those behind them.\<close>

definition shield_file :: "position \<Rightarrow> color \<Rightarrow> int \<Rightarrow> int \<times> int \<Rightarrow> int \<times> int" where
  "shield_file p c df = (\<lambda>(missing, total).
     let ks = king_square p c; dir = (if c = WHITE then 1 else -1); ff = sq_file ks + df; rr = sq_rank ks + dir in
     if ff < 0 \<or> ff > 7 \<or> rr < 0 \<or> rr > 7 then (missing, total)
     else
       let sq = ff + rr * 8; rr2 = sq_rank ks + dir * 2;
           held = piece_type_on p sq = Some PAWN \<and> color_of p sq = Some c
       in (if held then missing else missing + 1, if 0 \<le> rr2 \<and> rr2 < 8 then total + 2 else total + 1))"

definition king_safety_of :: "position \<Rightarrow> color \<Rightarrow> rat \<Rightarrow> rat" where
  "king_safety_of p c score =
     (let n_atk = popcount (attackers_to_of p (king_square p c) (opp c));
          atk_n = clamp (fl (of_int n_atk / 4)) 0 1;
          (missing, total) = fold (shield_file p c) [-1, 0, 1] (0, 0);
          shield_n = (if total \<noteq> 0 then fl (of_int missing / of_int total) else 0);
          check_n = (if in_check p then 1 / 2 else 0)
      in fl (score + fl (fl (fl (atk_n * (1 / 2)) + fl (shield_n * fl (3 / 10))) + check_n)))"

definition king_safety_factor :: "position \<Rightarrow> rat" where
  "king_safety_factor p = clamp (fl (fold (king_safety_of p) [WHITE, BLACK] 0 / 2)) 0 1"

definition compute_complexity :: "position \<Rightarrow> rat" where
  "compute_complexity p =
     (let mob = mobility_factor p; pawn = pawn_structure_factor p; king = king_safety_factor p;
          c = fl (fl (fl (mob * fl (45 / 100)) + fl (pawn * (25 / 100))) + fl (king * fl (30 / 100)));
          n_pieces = popcount (occupancy_bb p);
          phase = clamp (fl (of_int (n_pieces - 10) / 22)) 0 1;
          c = fl (fl (c * fl (85 / 100)) + fl (phase * fl (15 / 100)))
      in clamp c 0 1)"

section \<open>Scales\<close>

definition remaining_scale_for_ms :: "int \<Rightarrow> params \<Rightarrow> rat" where
  "remaining_scale_for_ms ms p =
     (if ms < 2000 then fl (of_int (scale_lt2s_pm p) / 1000)
      else if ms < 5000 then fl (of_int (scale_lt5s_pm p) / 1000)
      else if ms < 15000 then fl (of_int (scale_lt15s_pm p) / 1000)
      else fl (of_int (scale_gte15s_pm p) / 1000))"

definition opp_factor_from_history :: "opp_history \<Rightarrow> rat" where
  "opp_factor_from_history h =
     (let avg = avg_ms h; last = last_ms h in
      if avg < 0 \<or> last < 0 then 0
      else if avg < 1 then 0
      else
        let dev = clamp (fl (fl (of_int last - avg) / avg)) (-1) 1;
            abs_signal =
              (if avg < 300 then fl (- fl (3 / 10) * fl (1 - fl (avg / 300)))
               else if avg > 3000 then fl (fl (2 / 10) * min 1 (fl (fl (avg - 3000) / 5000)))
               else 0)
        in clamp (fl (fl (dev * fl (7 / 10)) + abs_signal)) (-1) 1)"

section \<open>The budget\<close>

definition base_budget :: "int \<Rightarrow> int \<Rightarrow> int \<Rightarrow> int \<Rightarrow> rat" where
  "base_budget ms moves inc weight_pm =
     fl (fl (of_int ms / of_int (max 1 moves)) + fl (fl (of_int inc * of_int weight_pm) / 1000))"

definition compute_budget :: "params \<Rightarrow> opp_history \<Rightarrow> position \<Rightarrow> int \<Rightarrow> int \<Rightarrow> int \<Rightarrow> int \<times> int" where
  "compute_budget p h pos ms inc moves_to_go =
     (let base_max = base_budget ms moves_to_go inc (inc_weight_max_pm p);
          base_min = base_budget ms (to_int32 (moves_to_go * 3)) inc (inc_weight_min_pm p);
          rem_scale = remaining_scale_for_ms ms p;
          complexity = compute_complexity pos;
          c_max = fl (fl (complexity * of_int (complexity_weight_pm p)) / 1000);
          c_mult_max = fl (1 + c_max);
          c_mult_min = fl (1 + fl (c_max * (1 / 2)));
          opp_f = opp_factor_from_history h;
          o_max = fl (fl (opp_f * of_int (opp_react_weight_pm p)) / 1000);
          o_mult_max = fl (1 + o_max);
          o_mult_min = fl (1 + fl (o_max * (1 / 2)));
          tmax = fl (fl (fl (base_max * rem_scale) * c_mult_max) * o_mult_max);
          tmin = fl (fl (fl (base_min * rem_scale) * c_mult_min) * o_mult_min);
          think_max = max 1 (to_int32 (lround tmax));
          think_min = max 1 (to_int32 (lround tmin))
      in (if think_min > think_max then think_max else think_min, think_max))"

section \<open>The go command\<close>

record go_parameters =
  go_nodes :: "nat option"
  go_movetime :: "int option"
  go_depth :: "int option"
  go_wtime :: "int option"
  go_winc :: "int option"
  go_btime :: "int option"
  go_binc :: "int option"
  go_movestogo :: "int option"

definition MOVE_OVERHEAD_MS :: int where
  "MOVE_OVERHEAD_MS = 100"

definition moves_to_go_of :: "go_parameters \<Rightarrow> position \<Rightarrow> int" where
  "moves_to_go_of g p =
     (case go_movestogo g of
        Some n \<Rightarrow> if n > 0 then n else max 1 (to_int32 (40 - pos_fullmoves p))
      | None \<Rightarrow> max 1 (to_int32 (40 - pos_fullmoves p)))"

definition value_or_0 :: "int option \<Rightarrow> int" where
  "value_or_0 v = (case v of Some x \<Rightarrow> x | None \<Rightarrow> 0)"

text \<open>The remaining time of the side to move after the overhead; 0 means no clock.\<close>

definition own_ms :: "go_parameters \<Rightarrow> bool \<Rightarrow> int" where
  "own_ms g is_white =
     (let clock = (if is_white then go_wtime g else go_btime g);
          raw_ms = value_or_0 clock;
          ms = (if raw_ms > 0 then max 1 (raw_ms - MOVE_OVERHEAD_MS) else 0)
      in if ms = 0 \<and> clock \<noteq> None then 1 else ms)"

text \<open>Minimum and maximum thinking time, whether they are absolute, and the history afterwards.\<close>

definition go_times :: "params \<Rightarrow> opp_history \<Rightarrow> position \<Rightarrow> go_parameters \<Rightarrow> int \<times> int \<times> bool \<times> opp_history" where
  "go_times tp h p g =
     (case go_movetime g of
        Some t \<Rightarrow> let mt = max 1 (to_int32 (t - MOVE_OVERHEAD_MS)) in (mt, mt, True, h)
      | None \<Rightarrow>
          let is_white = (pos_side_to_move p = WHITE);
              time_inc = (if is_white then value_or_0 (go_winc g) else value_or_0 (go_binc g));
              time_inc_opp = (if is_white then value_or_0 (go_binc g) else value_or_0 (go_winc g));
              ms = own_ms g is_white;
              raw_ms_opp = (if is_white then value_or_0 (go_btime g) else value_or_0 (go_wtime g));
              ms_opp = (if raw_ms_opp > 0 then max 1 (raw_ms_opp - MOVE_OVERHEAD_MS) else 0)
          in if ms > 0 then
               let h = (if ms_opp > 0 then observe ms_opp time_inc_opp h else h);
                   (think_min, think_max) = compute_budget tp h p ms time_inc (moves_to_go_of g p)
               in (max 1 think_min, max 1 think_max, False, h)
             else (0, 0, False, h))"

text \<open>What is handed to the search threads: without a clock a depth limit replaces the times.\<close>

definition search_times :: "go_parameters \<Rightarrow> int \<Rightarrow> int \<Rightarrow> int \<times> int \<times> int" where
  "search_times g think_min think_max =
     (if go_depth g \<noteq> None \<and> think_min = 0 then -1 else think_min,
      if go_depth g \<noteq> None \<and> think_max = 0 then -1 else think_max,
      case go_depth g of Some d \<Rightarrow> d | None \<Rightarrow> -1)"

section \<open>The default policy\<close>

lemma base_budget_rounded [simp]: "fl (base_budget ms moves inc w) = base_budget ms moves inc w"
  by (simp add: base_budget_def)

lemma fl_0_1 [simp]: "fl 0 = 0" "fl 1 = 1"
  using fl_int [of 0] fl_int [of 1] by simp_all

lemma default_scale: "remaining_scale_for_ms ms default_params = 1"
  by (simp add: remaining_scale_for_ms_def default_params_def)

lemma lower_of: "(if b < a then b else a) = min a (b :: int)"
  by simp

lemma budget_shape: "\<exists>a b. compute_budget tp h p ms inc m = (min (max 1 a) (max 1 b), max 1 b)"
  unfolding compute_budget_def Let_def lower_of by (intro exI) (rule refl)

lemma budget_range:
  "1 \<le> fst (compute_budget tp h p ms inc m)" "fst (compute_budget tp h p ms inc m) \<le> snd (compute_budget tp h p ms inc m)"
  using budget_shape [of tp h p ms inc m] by auto

lemma default_budget:
  "compute_budget default_params h p ms inc moves_to_go =
     (let think_max = max 1 (to_int32 (lround (base_budget ms moves_to_go inc 667)));
          think_min = max 1 (to_int32 (lround (base_budget ms (to_int32 (moves_to_go * 3)) inc 500)))
      in (min think_min think_max, think_max))"
proof -
  have [simp]: "inc_weight_max_pm default_params = 667" "inc_weight_min_pm default_params = 500"
    "complexity_weight_pm default_params = 0" "opp_react_weight_pm default_params = 0"
    by (simp_all add: default_params_def)
  show ?thesis unfolding compute_budget_def Let_def lower_of default_scale by simp
qed

text \<open>The times of a clock branch, once the budget is known to be in order.\<close>

lemma clock_times:
  "\<exists>a b h'. (case compute_budget tp h p ms inc m of (x, y) \<Rightarrow> (max 1 x, max 1 y, False, h)) = (a, b, False, h') \<and> 1 \<le> a \<and> a \<le> b"
proof -
  obtain x y where xy: "compute_budget tp h p ms inc m = (x, y)" by fastforce
  then show ?thesis using budget_range [of tp h p ms inc m] by (intro exI [of _ x] exI [of _ y] exI [of _ h]) (simp add: xy)
qed

lemma own_ms_positive: "own_ms g w > 0 \<longleftrightarrow> (if w then go_wtime g else go_btime g) \<noteq> None"
proof -
  have pos: "own_ms g w > 0 \<longleftrightarrow> c \<noteq> None" if c: "(if w then go_wtime g else go_btime g) = c" for c
  proof (cases c)
    case None
    then show ?thesis by (simp add: own_ms_def c value_or_0_def)
  next
    case (Some t)
    have m: "0 < max 1 x" for x :: int by (rule less_le_trans [OF zero_less_one max.cobounded1])
    show ?thesis using m [of "t - MOVE_OVERHEAD_MS"] Some by (cases "t > 0") (simp_all add: own_ms_def c value_or_0_def Let_def)
  qed
  show ?thesis by (rule pos [OF refl])
qed

section \<open>Properties\<close>

text \<open>The shipped weights switch the policy off: with the default parameters the budget depends on the
  clock, the increment and the moves to go alone, the rounded sum of a share of the clock and a share of the
  increment; position complexity, the opponent's history and the clock bucket have no effect.\<close>

theorem default_policy_is_neutral:
  "compute_budget default_params h p ms inc moves_to_go =
     (let share = (\<lambda>moves weight. max 1 (to_int32 (lround (fl (fl (of_int ms / of_int (max 1 moves)) + fl (fl (of_int inc * of_int weight) / 1000))))));
          think_max = share moves_to_go 667; think_min = share (to_int32 (moves_to_go * 3)) 500
      in (min think_min think_max, think_max))"
  unfolding default_budget base_budget_def Let_def ..

text \<open>C37 (safety). A \<open>go\<close> command with a move time or a clock of the side to move, even an empty one, always gets a
  bounded search with a minimum of at least a millisecond and not above the maximum; without either the times
  are zero, the unbounded path.\<close>

theorem go_with_clock_is_bounded:
  "case go_times tp h p g of (think_min, think_max, is_absolute, _) \<Rightarrow>
     if go_movetime g = None \<and> (if pos_side_to_move p = WHITE then go_wtime g else go_btime g) = None
     then think_min = 0 \<and> think_max = 0 \<and> \<not> is_absolute
     else 1 \<le> think_min \<and> think_min \<le> think_max"
proof (cases "go_movetime g")
  case (Some t)
  then show ?thesis by (simp add: go_times_def Let_def)
next
  case None
  define w where "w = (pos_side_to_move p = WHITE)"
  show ?thesis
  proof (cases "own_ms g w > 0")
    case True
    then have "(if w then go_wtime g else go_btime g) \<noteq> None" unfolding own_ms_positive .
    moreover obtain a b h' where "go_times tp h p g = (a, b, False, h')" "1 \<le> a" "a \<le> b"
      unfolding go_times_def Let_def None w_def [symmetric] option.case if_P [OF True] using clock_times by blast
    ultimately show ?thesis by (simp add: None w_def split: if_splits)
  next
    case False
    then have "(if w then go_wtime g else go_btime g) = None" using own_ms_positive by metis
    then show ?thesis using False None by (simp add: go_times_def Let_def w_def)
  qed
qed

text \<open>The budget is not capped by the clock: when two thirds of the increment exceed the time that is left, and the sum of both
  fits an \<open>int\<close>, the default budget of a single move is longer than the whole remaining clock.\<close>

theorem budget_exceeds_clock:
  assumes "0 < ms" "1 \<le> moves_to_go" "1000 * (ms + 1) \<le> 667 * inc" "ms + inc < 2 ^ 31"
  shows "ms < snd (compute_budget default_params h p ms inc moves_to_go) \<and>
    snd (compute_budget default_params h p ms inc moves_to_go) \<le> ms + inc"
proof -
  define b where "b = base_budget ms moves_to_go inc 667"
  have e: "fl (of_int inc * 667) = of_int inc * 667" using fl_int [of "inc * 667"] assms by simp
  have k: "0 < ms + 1" "ms + 1 \<le> 2 ^ 53" "0 < inc" "inc \<le> 2 ^ 53" "ms \<le> 2 ^ 53" "0 < ms + inc" "ms + inc \<le> 2 ^ 53" using assms by simp_all
  define share where "share = fl (of_int ms / of_int (max 1 moves_to_go))"
  define extra where "extra = fl (fl (of_int inc * 667) / 1000)"
  have b_sum: "b = fl (share + extra)" by (simp add: b_def base_budget_def share_def extra_def)
  have "0 \<le> share" unfolding share_def by (rule fl_ge_0) (use assms in simp)
  moreover have "share \<le> of_int ms" unfolding share_def
    by (rule fl_le_int) (use assms k in \<open>simp_all add: divide_le_eq mult_le_cancel_left1\<close>)
  moreover have "(of_int (1000 * (ms + 1)) :: rat) \<le> of_int (667 * inc)" unfolding of_int_le_iff by (rule assms(3))
  then have "of_int (ms + 1) \<le> extra" unfolding extra_def e by (intro fl_ge_int k) simp
  moreover have "extra \<le> of_int inc" unfolding extra_def e by (rule fl_le_int) (use k in simp_all)
  ultimately have "of_int (ms + 1) \<le> share + extra" "share + extra \<le> of_int (ms + inc)" "0 \<le> share + extra" using k(1) by simp_all
  then have "of_int (ms + 1) \<le> b" "b \<le> of_int (ms + inc)" "0 \<le> b"
    unfolding b_sum using fl_ge_int [OF k(1,2)] fl_le_int [OF k(6,7)] fl_ge_0 by blast+
  then have "ms + 1 \<le> lround b" "lround b \<le> ms + inc" using lround_ge_int [of "ms + 1" b] lround_le_int k by auto
  moreover from this have "to_int32 (lround b) = lround b" using assms by (intro to_int32_id) simp_all
  ultimately show ?thesis using k(1) by (simp add: default_budget Let_def flip: b_def)
qed

theorem budget_exceeds_clock_witness:
  "1000 < snd (compute_budget default_params opp_reset empty_position 1000 2000 30)"
  using budget_exceeds_clock [of 1000 30 2000] by simp

end
