(* ===== verification/Uci.thy ===== *)
theory Uci
  imports Texts Time_Policy
begin

text \<open>
  The UCI service of \<open>UCIService.h\<close> and its options (\<open>UCIOption.h\<close>): reading the \<open>position\<close>, \<open>go\<close> and
  \<open>setoption\<close> lines and the command loop.  A string stream is the text that is left and its fail bit; the end
  of file bit is not needed, since it is only ever set with no text left, where the next extraction fails anyway.
  The handlers are callbacks; here a handler is an action in the list of what a line makes the service do.
\<close>

section \<open>String streams\<close>

record istream =
  input :: string
  failed :: bool

definition stream_of :: "string \<Rightarrow> istream" where
  "stream_of s = \<lparr>input = s, failed = False\<rparr>"

text \<open>\<open>stream >> word\<close>: a failing extraction leaves the variable as it was.\<close>

definition get_word :: "istream \<Rightarrow> string \<Rightarrow> istream \<times> string" where
  "get_word st word =
     (if failed st then (st, word)
      else if dropWhile is_space (input st) = [] then (\<lparr>input = [], failed = True\<rparr>, word)
      else (\<lparr>input = fst (read_word (input st) word), failed = False\<rparr>, snd (read_word (input st) word)))"

text \<open>\<open>stream >> number\<close>: white space, a sign, all the digits; no digits or a value out of range set the fail bit.\<close>

definition get_number :: "(bool \<Rightarrow> nat \<Rightarrow> 'a option) \<Rightarrow> istream \<Rightarrow> istream \<times> 'a option" where
  "get_number convert st =
     (if failed st then (st, None)
      else
        let text = dropWhile is_space (input st) in
        if text = [] then (\<lparr>input = [], failed = True\<rparr>, None)
        else
          let negative = (hd text = CHR ''-'');
              unsigned_text = (if hd text = CHR ''-'' \<or> hd text = CHR ''+'' then tl text else text);
              digits = takeWhile is_digit unsigned_text;
              value = (if digits = [] then None else convert negative (digits_value digits))
          in (\<lparr>input = dropWhile is_digit unsigned_text, failed = (value = None)\<rparr>, value))"

definition int_of_digits :: "bool \<Rightarrow> nat \<Rightarrow> int option" where
  "int_of_digits negative n =
     (let v = (if negative then - int n else int n) in if - (2 ^ 31) \<le> v \<and> v < 2 ^ 31 then Some v else None)"

definition uint64_of_digits :: "bool \<Rightarrow> nat \<Rightarrow> nat option" where
  "uint64_of_digits negative n =
     (if n < 2 ^ 64 then Some (if negative then (2 ^ 64 - n) mod 2 ^ 64 else n) else None)"

definition get_int :: "istream \<Rightarrow> istream \<times> int option" where
  "get_int = get_number int_of_digits"

definition get_uint64 :: "istream \<Rightarrow> istream \<times> nat option" where
  "get_uint64 = get_number uint64_of_digits"

text \<open>The tolerant reader of \<open>parse_go_line\<close>: after a failure the stream is cleared and a word is skipped.\<close>

definition read_num :: "(istream \<Rightarrow> istream \<times> 'a option) \<Rightarrow> istream \<Rightarrow> istream \<times> 'a option" where
  "read_num get st =
     (case get st of
        (st', Some v) \<Rightarrow> (st', Some v)
      | (st', None) \<Rightarrow> (fst (get_word (st'\<lparr>failed := False\<rparr>) ''''), None))"

section \<open>The position line\<close>

definition start_fen :: string where
  "start_fen = ''rnbqkbnr/pppppppp/8/8/8/8/PPPPPPPP/RNBQKBNR w KQkq - 0 1''"

fun fen_fields :: "nat \<Rightarrow> istream \<Rightarrow> string \<Rightarrow> string \<Rightarrow> istream \<times> string \<times> string" where
  "fen_fields 0 st tmp fen = (st, tmp, fen)"
| "fen_fields (Suc n) st tmp fen =
     (case get_word st tmp of (st', tmp') \<Rightarrow> fen_fields n st' tmp' (fen @ CHR '' '' # tmp'))"

definition parse_position_line :: "istream \<Rightarrow> (string \<times> string list option) option" where
  "parse_position_line st =
     (let (st, tmp) = get_word st '''' in
      if tmp \<noteq> ''startpos'' \<and> tmp \<noteq> ''fen'' then None
      else
        let (st, tmp, fen) =
              (if tmp = ''startpos'' then (st, tmp, start_fen)
               else case get_word st '''' of (st', fen) \<Rightarrow> fen_fields 5 st' tmp fen)
        in if failed st then Some (fen, None)
           else
             let (st, tmp) = get_word st tmp in
             if tmp \<noteq> ''moves'' then Some (fen, None)
             else Some (fen, Some (if failed st then [] else read_words (input st))))"

section \<open>The go line\<close>

record go_scan =
  scan_par :: go_parameters
  scan_infinite :: bool
  scan_ponder :: bool
  scan_moves :: "string list"
  scan_filling :: bool

definition no_parameters :: go_parameters where
  "no_parameters = \<lparr>go_nodes = None, go_movetime = None, go_depth = None, go_wtime = None, go_winc = None,
     go_btime = None, go_binc = None, go_movestogo = None\<rparr>"

definition no_scan :: go_scan where
  "no_scan = \<lparr>scan_par = no_parameters, scan_infinite = False, scan_ponder = False, scan_moves = [], scan_filling = False\<rparr>"

datatype go_field = Movetime | St | Depth | Wtime | Winc | Btime | Binc | Movestogo

definition field_of :: "string \<Rightarrow> go_field option" where
  "field_of tmp =
     (if tmp = ''movetime'' then Some Movetime else if tmp = ''st'' then Some St
      else if tmp = ''depth'' then Some Depth else if tmp = ''wtime'' then Some Wtime
      else if tmp = ''winc'' then Some Winc else if tmp = ''btime'' then Some Btime
      else if tmp = ''binc'' then Some Binc else if tmp = ''movestogo'' then Some Movestogo else None)"

text \<open>A field keeps its old value when the number could not be read.  Seconds become milliseconds in an \<open>int\<close>.\<close>

fun set_field :: "go_field \<Rightarrow> int \<Rightarrow> go_parameters \<Rightarrow> go_parameters" where
  "set_field Movetime v g = g\<lparr>go_movetime := Some v\<rparr>"
| "set_field St v g = g\<lparr>go_movetime := Some (to_int32 (v * 1000))\<rparr>"
| "set_field Depth v g = g\<lparr>go_depth := Some v\<rparr>"
| "set_field Wtime v g = g\<lparr>go_wtime := Some v\<rparr>"
| "set_field Winc v g = g\<lparr>go_winc := Some v\<rparr>"
| "set_field Btime v g = g\<lparr>go_btime := Some v\<rparr>"
| "set_field Binc v g = g\<lparr>go_binc := Some v\<rparr>"
| "set_field Movestogo v g = g\<lparr>go_movestogo := Some v\<rparr>"

definition with_value :: "('a \<Rightarrow> go_parameters \<Rightarrow> go_parameters) \<Rightarrow> 'a option \<Rightarrow> go_scan \<Rightarrow> go_scan" where
  "with_value upd v gs = (case v of Some x \<Rightarrow> gs\<lparr>scan_par := upd x (scan_par gs)\<rparr> | None \<Rightarrow> gs)"

text \<open>One word of the line.\<close>

definition go_word :: "string \<Rightarrow> istream \<times> go_scan \<Rightarrow> istream \<times> go_scan" where
  "go_word tmp = (\<lambda>(st, gs).
     if tmp = ''nodes'' then
       case read_num get_uint64 st of (st', v) \<Rightarrow>
         (st', (with_value (\<lambda>n g. g\<lparr>go_nodes := Some n\<rparr>) v gs)\<lparr>scan_filling := False\<rparr>)
     else case field_of tmp of
       Some f \<Rightarrow> (case read_num get_int st of (st', v) \<Rightarrow> (st', (with_value (set_field f) v gs)\<lparr>scan_filling := False\<rparr>))
     | None \<Rightarrow>
         if tmp = ''infinite'' then (st, gs\<lparr>scan_infinite := True, scan_filling := False\<rparr>)
         else if tmp = ''ponder'' then (st, gs\<lparr>scan_ponder := True, scan_filling := False\<rparr>)
         else if tmp = ''searchmoves'' then (st, gs\<lparr>scan_filling := True\<rparr>)
         else if scan_filling gs then (st, gs\<lparr>scan_moves := scan_moves gs @ [tmp]\<rparr>)
         else (st, gs))"

lemma get_word_shorter: "get_word st w = (st', w') \<Longrightarrow> length (input st') \<le> length (input st)"
  using length_dropWhile_le [of is_space "input st"] dropWhile_word_shorter [of "input st"]
  by (auto simp: get_word_def read_word_def Let_def split: if_splits)

lemma get_word_consumes: "get_word st w = (st', w') \<Longrightarrow> \<not> failed st' \<Longrightarrow> length (input st') < length (input st)"
  using dropWhile_word_shorter [of "input st"] by (auto simp: get_word_def read_word_def Let_def split: if_splits)

lemma get_number_shorter: "length (input (fst (get_number c st))) \<le> length (input st)"
proof -
  have "length (dropWhile is_digit t) \<le> length (input st)" if "length t \<le> length (input st)" for t
    using length_dropWhile_le [of is_digit t] that by linarith
  moreover have "length (dropWhile is_space (input st)) \<le> length (input st)" by (rule length_dropWhile_le)
  moreover from this have "length (tl (dropWhile is_space (input st))) \<le> length (input st)" by simp
  ultimately show ?thesis by (simp add: get_number_def Let_def)
qed

lemma read_num_shorter:
  assumes "\<And>s. length (input (fst (get s))) \<le> length (input s)"
  shows "length (input (fst (read_num get st))) \<le> length (input st)"
proof -
  obtain st' v where g: "get st = (st', v)" by (cases "get st")
  have "length (input st') \<le> length (input st)" using assms [of st] g by simp
  moreover have "length (input (fst (get_word (st'\<lparr>failed := False\<rparr>) ''''))) \<le> length (input st')"
    using get_word_shorter [of "st'\<lparr>failed := False\<rparr>" "''''"] by (metis istream.select_convs(1) istream.surjective istream.update_convs(2) prod.collapse)
  ultimately show ?thesis by (simp add: read_num_def g split: option.split)
qed

lemma go_word_shorter: "length (input (fst (go_word tmp (st, gs)))) \<le> length (input st)"
proof -
  have "length (input (fst (read_num get_int st))) \<le> length (input st)" "length (input (fst (read_num get_uint64 st))) \<le> length (input st)"
    by (rule read_num_shorter, simp add: get_int_def get_uint64_def get_number_shorter)+
  then show ?thesis by (simp add: go_word_def case_prod_unfold split: option.split)
qed

text \<open>The loop \<open>while (line_stream >> tmp)\<close>: every turn reads a word, so it ends.\<close>

function go_loop :: "istream \<Rightarrow> go_scan \<Rightarrow> go_scan" where
  "go_loop st gs =
     (case get_word st '''' of (st', tmp) \<Rightarrow>
        if failed st' then gs else case go_word tmp (st', gs) of (st'', gs') \<Rightarrow> go_loop st'' gs')"
  by pat_completeness auto
termination
proof (relation "measure (\<lambda>(st, gs). length (input st))")
  fix st gs st' tmp st'' gs'
  assume "(st', tmp) = get_word st ''''" "\<not> failed st'" "(st'', gs') = go_word tmp (st', gs)"
  then have "length (input st') < length (input st)" "length (input st'') \<le> length (input st')"
    using get_word_consumes [of st "''''" st' tmp] go_word_shorter [of tmp st' gs] by (metis, metis fst_conv)
  then show "((st'', gs'), (st, gs)) \<in> measure (\<lambda>(st, gs). length (input st))" by simp
qed simp

declare go_loop.simps [simp del]

text \<open>The parameters, \<open>infinite\<close>, \<open>ponder\<close> and the moves to search.\<close>

definition parse_go_line :: "istream \<Rightarrow> go_parameters \<times> bool \<times> bool \<times> string list option" where
  "parse_go_line st =
     (let gs = go_loop st no_scan
      in (scan_par gs, scan_infinite gs, scan_ponder gs, if scan_moves gs = [] then None else Some (scan_moves gs)))"

end
