(* ===== verification/Uci_Service.thy ===== *)
theory Uci_Service
  imports Uci
begin

text \<open>
  Options and the command loop of the UCI service, with the options and commands \<open>main.cpp\<close> registers.
\<close>

section \<open>Options\<close>

record spin_option =
  spin_value :: int
  spin_min :: int
  spin_max :: int

record combo_option =
  combo_value :: string
  combo_allowed :: "string list"

record options =
  spin_options :: "string \<rightharpoonup> spin_option"
  combo_options :: "string \<rightharpoonup> combo_option"
  string_options :: "string \<rightharpoonup> string"
  check_options :: "string \<rightharpoonup> bool"
  button_options :: "string list"

text \<open>The calls of the option handlers.\<close>

datatype option_call = Spin_call string int | Combo_call string string | String_call string string | Check_call string bool
  | Button_call string

definition set_spin :: "string \<Rightarrow> int \<Rightarrow> spin_option \<Rightarrow> options \<Rightarrow> options \<times> option_call list" where
  "set_spin name v s opts =
     (if v \<ge> spin_min s \<and> v \<le> spin_max s
      then (opts\<lparr>spin_options := (spin_options opts)(name \<mapsto> s\<lparr>spin_value := v\<rparr>)\<rparr>, [Spin_call name v])
      else (opts, []))"

definition set_combo :: "string \<Rightarrow> string \<Rightarrow> combo_option \<Rightarrow> options \<Rightarrow> options \<times> option_call list" where
  "set_combo name v c opts =
     (if v \<in> set (combo_allowed c)
      then (opts\<lparr>combo_options := (combo_options opts)(name \<mapsto> c\<lparr>combo_value := v\<rparr>)\<rparr>, [Combo_call name v])
      else (opts, []))"

definition set_string :: "string \<Rightarrow> string \<Rightarrow> options \<Rightarrow> options \<times> option_call list" where
  "set_string name v opts = (opts\<lparr>string_options := (string_options opts)(name \<mapsto> v)\<rparr>, [String_call name v])"

definition set_check :: "string \<Rightarrow> bool \<Rightarrow> options \<Rightarrow> options \<times> option_call list" where
  "set_check name v opts = (opts\<lparr>check_options := (check_options opts)(name \<mapsto> v)\<rparr>, [Check_call name v])"

text \<open>\<open>stream >> std::quoted(value)\<close>: a word, or a text in double quotes with backslash escapes.\<close>

fun quoted_tail :: "string \<Rightarrow> string \<Rightarrow> (string \<times> string) option" where
  "quoted_tail [] acc = None"
| "quoted_tail (c # cs) acc =
     (if c = CHR 0x5C then (case cs of [] \<Rightarrow> None | d # ds \<Rightarrow> quoted_tail ds (acc @ [d]))
      else if c = CHR 0x22 then Some (cs, acc)
      else quoted_tail cs (acc @ [c]))"

definition get_quoted :: "istream \<Rightarrow> istream \<times> string option" where
  "get_quoted st =
     (if failed st then (st, None)
      else case dropWhile is_space (input st) of
        [] \<Rightarrow> (\<lparr>input = [], failed = True\<rparr>, None)
      | c # cs \<Rightarrow>
          if c = CHR 0x22 then
            (case quoted_tail cs [] of
               Some (rest, v) \<Rightarrow> (\<lparr>input = rest, failed = False\<rparr>, Some v)
             | None \<Rightarrow> (\<lparr>input = [], failed = True\<rparr>, None))
          else case get_word st '''' of (st', v) \<Rightarrow> (st', Some v))"

definition set_option_value :: "string \<Rightarrow> istream \<Rightarrow> options \<Rightarrow> options \<times> option_call list" where
  "set_option_value name st opts =
     (case spin_options opts name of
        Some s \<Rightarrow> (case snd (get_int st) of Some v \<Rightarrow> set_spin name v s opts | None \<Rightarrow> (opts, []))
      | None \<Rightarrow>
     (case combo_options opts name of
        Some c \<Rightarrow> (case snd (get_quoted st) of Some v \<Rightarrow> set_combo name v c opts | None \<Rightarrow> (opts, []))
      | None \<Rightarrow>
     (case string_options opts name of
        Some _ \<Rightarrow> (case snd (get_quoted st) of Some v \<Rightarrow> set_string name v opts | None \<Rightarrow> (opts, []))
      | None \<Rightarrow>
     (case check_options opts name of
        Some _ \<Rightarrow> (case get_word st '''' of (st', w) \<Rightarrow>
                    if failed st' then (opts, []) else set_check name (w = ''true'' \<or> w = ''1'') opts)
      | None \<Rightarrow> (opts, [])))))"

definition parse_and_run_setoption_line :: "istream \<Rightarrow> options \<Rightarrow> options \<times> option_call list" where
  "parse_and_run_setoption_line st opts =
     (let (st, tmp) = get_word st '''' in
      if tmp \<noteq> ''name'' then (opts, [])
      else
        let (st, name) = get_word st '''' in
        if name \<in> set (button_options opts) then (opts, [Button_call name])
        else
          let (st, tmp) = get_word st tmp in
          if tmp \<noteq> ''value'' then (opts, []) else set_option_value name st opts)"

section \<open>The engine's options\<close>

definition spin :: "int \<Rightarrow> int \<Rightarrow> int \<Rightarrow> spin_option" where
  "spin v lo hi = \<lparr>spin_value = v, spin_min = lo, spin_max = hi\<rparr>"

definition engine_options :: "int \<Rightarrow> int \<Rightarrow> params \<Rightarrow> bool \<Rightarrow> bool \<Rightarrow> bool \<Rightarrow> options" where
  "engine_options threads hash_mb p ponder trace minimal = \<lparr>
     spin_options = map_of
       [(''Threads'', spin threads 1 128), (''Hash'', spin hash_mb 1 1024),
        (''TM_IncMax'', spin (inc_weight_max_pm p) 0 2000), (''TM_IncMin'', spin (inc_weight_min_pm p) 0 2000),
        (''TM_ComplexityWeight'', spin (complexity_weight_pm p) 0 1000), (''TM_OppReactWeight'', spin (opp_react_weight_pm p) 0 1000),
        (''TM_ScaleLT2s'', spin (scale_lt2s_pm p) 200 2000), (''TM_ScaleLT5s'', spin (scale_lt5s_pm p) 200 2000),
        (''TM_ScaleLT15s'', spin (scale_lt15s_pm p) 200 2000), (''TM_ScaleGTE15s'', spin (scale_gte15s_pm p) 200 2000)],
     combo_options = Map.empty,
     string_options = map_of [(''SyzygyPath'', ''''), (''UCI_EngineAbout'', ''https://vanheusden.com/chess/Dog/''), (''UCI_Opponent'', '''')],
     check_options = map_of [(''Ponder'', ponder), (''Trace'', trace), (''Minimal'', minimal)],
     button_options = []\<rparr>"

text \<open>The handlers of the time policy's options, one parameter each.\<close>

definition policy_call :: "option_call \<Rightarrow> params \<Rightarrow> params" where
  "policy_call call p =
     (case call of
        Spin_call name v \<Rightarrow>
          if name = ''TM_IncMax'' then p\<lparr>inc_weight_max_pm := v\<rparr>
          else if name = ''TM_IncMin'' then p\<lparr>inc_weight_min_pm := v\<rparr>
          else if name = ''TM_ComplexityWeight'' then p\<lparr>complexity_weight_pm := v\<rparr>
          else if name = ''TM_OppReactWeight'' then p\<lparr>opp_react_weight_pm := v\<rparr>
          else if name = ''TM_ScaleLT2s'' then p\<lparr>scale_lt2s_pm := v\<rparr>
          else if name = ''TM_ScaleLT5s'' then p\<lparr>scale_lt5s_pm := v\<rparr>
          else if name = ''TM_ScaleLT15s'' then p\<lparr>scale_lt15s_pm := v\<rparr>
          else if name = ''TM_ScaleGTE15s'' then p\<lparr>scale_gte15s_pm := v\<rparr>
          else p
      | _ \<Rightarrow> p)"

section \<open>The command loop\<close>

text \<open>The variable \<open>word\<close> lives outside the loop.  \<open>sv_go\<close>: the thread of a \<open>go\<close> has not been joined.\<close>

record service =
  sv_word :: string
  sv_go :: bool
  sv_options :: options

datatype uci_action = Call_stop | Join_go | Run_handler string string | Say_uci | Call_position string "string list option"
  | Start_go go_parameters bool bool "string list option" | Call_option option_call | Say_readyok

definition stop_search :: "service \<Rightarrow> service \<times> uci_action list" where
  "stop_search sv = (if sv_go sv then (sv\<lparr>sv_go := False\<rparr>, [Call_stop, Join_go]) else (sv, []))"

text \<open>A line: the service afterwards, what it did, and whether the loop goes on.\<close>

definition run_line :: "(string \<Rightarrow> bool option) \<Rightarrow> service \<Rightarrow> string \<Rightarrow> service \<times> uci_action list \<times> bool" where
  "run_line handlers sv line =
     (let (st, word) = get_word (stream_of line) (sv_word sv);
          sv = sv\<lparr>sv_word := word\<rparr>
      in case handlers word of
        Some terminate \<Rightarrow>
          (let (sv, acts) = (if terminate then stop_search sv else (sv, []))
           in (sv, acts @ [Run_handler word (input st)], True))
      | None \<Rightarrow>
          if word = ''uci'' then (sv, [Say_uci], True)
          else if word = ''position'' then
            (let (sv, acts) = stop_search sv
             in case parse_position_line st of
                  Some (fen, moves) \<Rightarrow> (sv, acts @ [Call_position fen moves], True)
                | None \<Rightarrow> (sv, acts, True))
          else if word = ''go'' then
            (let (sv, acts) = stop_search sv;
                 (g, unlimited, ponder, moves) = parse_go_line st
             in (sv\<lparr>sv_go := True\<rparr>, acts @ [Start_go g unlimited ponder moves], True))
          else if word = ''stop'' then (let (sv, acts) = stop_search sv in (sv, acts, True))
          else if word = ''setoption'' then
            (let (opts, calls) = parse_and_run_setoption_line st (sv_options sv)
             in (sv\<lparr>sv_options := opts\<rparr>, map Call_option calls, True))
          else if word = ''isready'' then (sv, [Say_readyok], True)
          else if word = ''quit'' \<or> word = ''exit'' then (let (sv, acts) = stop_search sv in (sv, acts, False))
          else (sv, [], True))"

text \<open>How \<open>run\<close> ends: it returns, or the destructor of a thread that was not joined ends the program.\<close>

datatype ending = Returns | Terminates

fun run_service :: "(string \<Rightarrow> bool option) \<Rightarrow> service \<Rightarrow> string list \<Rightarrow> service \<times> uci_action list \<times> ending" where
  "run_service handlers sv [] = (sv, [], if sv_go sv then Terminates else Returns)"
| "run_service handlers sv (line # lines) =
     (case run_line handlers sv line of
        (sv, acts, goes_on) \<Rightarrow>
          if goes_on then (case run_service handlers sv lines of (sv', acts', e) \<Rightarrow> (sv', acts @ acts', e))
          else (sv, acts, Returns))"

text \<open>The commands \<open>main.cpp\<close> registers, and whether they stop the search first.\<close>

definition engine_handlers :: "string \<Rightarrow> bool option" where
  "engine_handlers = map_of
     [(''play'', True), (''eval'', True), (''bench2'', True), (''fen'', True), (''d'', True), (''display'', True), (''dog'', False),
      (''max'', False), (''perft'', True), (''ucinewgame'', True), (''status'', False), (''help'', False)]"

definition new_service :: "options \<Rightarrow> service" where
  "new_service opts = \<lparr>sv_word = '''', sv_go = False, sv_options = opts\<rparr>"

end
