(* ===== verification/Uci_Correct.thy ===== *)
theory Uci_Correct
  imports Uci_Service
begin

text \<open>
  What the UCI service reads and does: lines written the usual way are read back, and the cases in which a
  field, a blank line or the end of the input does something unexpected.
\<close>

section \<open>Reading a line of words\<close>

definition spaced :: "string list \<Rightarrow> string" where
  "spaced ws = concat (map (\<lambda>w. CHR '' '' # w) ws)"

lemma spaced_simps [simp]: "spaced [] = []" "spaced (w # ws) = CHR '' '' # w @ spaced ws" "spaced (us @ ws) = spaced us @ spaced ws"
  by (simp_all add: spaced_def)

lemma spaced_space: "spaced ws = [] \<or> is_space (hd (spaced ws))"
  by (cases ws) (simp_all add: is_space_def)

lemma stream_of_fields [simp]: "input (stream_of s) = s" "\<not> failed (stream_of s)" "\<lparr>input = s, failed = False\<rparr> = stream_of s"
  by (simp_all add: stream_of_def)

lemma get_word_spaced [simp]: "is_word w \<Longrightarrow> get_word (stream_of (CHR '' '' # w @ spaced ws)) v = (stream_of (spaced ws), w)"
  using word_scan [OF _ spaced_space, of w ws] by (simp add: get_word_def read_word_def Let_def is_space_def is_word_def)

lemma get_word_cons: "is_word w \<Longrightarrow> get_word (stream_of (spaced (w # ws))) v = (stream_of (spaced ws), w)"
  by simp

lemma get_word_first: "is_word w \<Longrightarrow> get_word (stream_of (w @ spaced ws)) v = (stream_of (spaced ws), w)"
  using word_scan [OF _ spaced_space, of w ws] by (simp add: get_word_def read_word_def Let_def is_word_def)

lemma get_word_blank: "list_all is_space s \<Longrightarrow> get_word (stream_of s) v = (\<lparr>input = [], failed = True\<rparr>, v)"
  by (simp add: get_word_def list_all_iff dropWhile_eq_Nil_conv)

lemma get_word_end [simp]: "get_word (stream_of []) v = (\<lparr>input = [], failed = True\<rparr>, v)"
  by (rule get_word_blank) simp

lemma get_word_failed [simp]: "failed st \<Longrightarrow> get_word st v = (st, v)"
  by (simp add: get_word_def)

lemma read_words_spaced [simp]: "list_all is_word ws \<Longrightarrow> read_words (spaced ws) = ws"
  unfolding spaced_def by (rule read_words_join)

section \<open>The position line\<close>

lemma fen_fields_spaced:
  assumes "list_all is_word us" "n \<le> length us"
  shows "fst (fen_fields n (stream_of (spaced us)) tmp fen) = stream_of (spaced (drop n us)) \<and>
    snd (snd (fen_fields n (stream_of (spaced us)) tmp fen)) = fen @ spaced (take n us)"
  using assms
proof (induction n arbitrary: us tmp fen)
  case (Suc n)
  then obtain u vs where "us = u # vs" by (cases us) auto
  then show ?case using Suc.IH [of vs u "fen @ CHR '' '' # u"] Suc.prems by simp
qed simp

lemma fen_fields_failed:
  "fen_fields n \<lparr>input = [], failed = True\<rparr> tmp fen = (\<lparr>input = [], failed = True\<rparr>, tmp, fen @ spaced (replicate n tmp))"
  by (induction n arbitrary: fen) simp_all

lemma fen_fields_short:
  assumes "list_all is_word us" "length us < n"
  shows "fen_fields n (stream_of (spaced us)) tmp fen =
    (\<lparr>input = [], failed = True\<rparr>, last (tmp # us), fen @ spaced (us @ replicate (n - length us) (last (tmp # us))))"
  using assms
proof (induction us arbitrary: n tmp fen)
  case Nil
  then obtain m where "n = Suc m" by (cases n) auto
  then show ?case by (simp add: fen_fields_failed)
next
  case (Cons u us)
  then obtain m where "n = Suc m" by (cases n) auto
  then show ?case using Cons by simp
qed

section \<open>Numbers in the go line\<close>

lemma takeWhile_number:
  assumes "s = [] \<or> is_space (hd s)"
  shows "takeWhile is_digit (nat_to_str n @ s) = nat_to_str n" "dropWhile is_digit (nat_to_str n @ s) = s"
proof -
  have "\<forall>c \<in> set (nat_to_str n). is_digit c" using nat_to_str_digits [of n] by (simp add: list_all_iff)
  moreover have "s = [] \<or> \<not> is_digit (hd s)" using assms by (auto simp: is_space_def is_digit_def)
  ultimately show "takeWhile is_digit (nat_to_str n @ s) = nat_to_str n" "dropWhile is_digit (nat_to_str n @ s) = s"
    by (cases s; simp add: takeWhile_append2 dropWhile_append2)+
qed

lemma number_text: "dropWhile is_space (CHR '' '' # nat_to_str n @ s) = nat_to_str n @ s" "nat_to_str n @ s \<noteq> []"
  "hd (nat_to_str n @ s) \<noteq> CHR ''-''" "hd (nat_to_str n @ s) \<noteq> CHR ''+''"
proof -
  have "nat_to_str n \<noteq> []" "\<not> is_space (hd (nat_to_str n))" "hd (nat_to_str n) \<noteq> CHR ''-''" "hd (nat_to_str n) \<noteq> CHR ''+''"
    using nat_to_str_digits [of n] by (cases "nat_to_str n"; simp)+
  then show "dropWhile is_space (CHR '' '' # nat_to_str n @ s) = nat_to_str n @ s" "nat_to_str n @ s \<noteq> []"
    "hd (nat_to_str n @ s) \<noteq> CHR ''-''" "hd (nat_to_str n @ s) \<noteq> CHR ''+''"
    by (cases "nat_to_str n"; simp add: is_space_def)+
qed

lemma get_number_nat:
  "get_number convert (stream_of (CHR '' '' # nat_to_str n @ spaced ws)) =
     (\<lparr>input = spaced ws, failed = (convert False n = None)\<rparr>, convert False n)"
proof -
  have ne: "(nat_to_str n = []) = False" using nat_to_str_digits [of n] by simp
  show ?thesis
    by (simp only: get_number_def Let_def stream_of_fields number_text takeWhile_number [OF spaced_space] digits_value_nat_to_str
        ne if_False de_Morgan_disj simp_thms)
qed

lemma get_number_neg:
  "get_number convert (stream_of (CHR '' '' # CHR ''-'' # nat_to_str n @ spaced ws)) =
     (\<lparr>input = spaced ws, failed = (convert True n = None)\<rparr>, convert True n)"
proof -
  have ne: "(nat_to_str n = []) = False" using nat_to_str_digits [of n] by simp
  have d: "dropWhile is_space (CHR '' '' # CHR ''-'' # nat_to_str n @ spaced ws) = CHR ''-'' # nat_to_str n @ spaced ws"
    by (simp add: is_space_def)
  show ?thesis
    by (simp only: get_number_def Let_def stream_of_fields d list.sel list.distinct takeWhile_number [OF spaced_space]
        digits_value_nat_to_str ne if_False if_True simp_thms)
qed

definition int32_range :: "int \<Rightarrow> bool" where
  "int32_range i \<longleftrightarrow> - (2 ^ 31) \<le> i \<and> i < 2 ^ 31"

lemma read_num_int: "int32_range i \<Longrightarrow> read_num get_int (stream_of (CHR '' '' # to_string i @ spaced ws)) = (stream_of (spaced ws), Some i)"
  by (simp add: read_num_def get_int_def to_string_def get_number_nat get_number_neg int_of_digits_def int32_range_def)

lemma read_num_uint64: "n < 2 ^ 64 \<Longrightarrow> read_num get_uint64 (stream_of (CHR '' '' # nat_to_str n @ spaced ws)) = (stream_of (spaced ws), Some n)"
  by (simp add: read_num_def get_uint64_def get_number_nat uint64_of_digits_def)

text \<open>A number too large for an \<open>int\<close> takes the word after it along.\<close>

lemma read_num_overflow:
  assumes "2 ^ 31 \<le> n" "is_word w"
  shows "read_num get_int (stream_of (CHR '' '' # nat_to_str n @ spaced (w # ws))) = (stream_of (spaced ws), None)"
proof -
  have "get_int (stream_of (CHR '' '' # nat_to_str n @ spaced (w # ws))) = (\<lparr>input = spaced (w # ws), failed = True\<rparr>, None)"
    unfolding get_int_def get_number_nat using assms(1) by (simp add: int_of_digits_def)
  then show ?thesis using assms(2) by (simp add: read_num_def)
qed

section \<open>The go line\<close>

lemma go_loop_end: "go_loop (stream_of []) gs = gs"
  by (subst go_loop.simps) simp

lemma go_loop_word:
  "is_word w \<Longrightarrow> go_loop (stream_of (CHR '' '' # w @ spaced ws)) gs =
     (case go_word w (stream_of (spaced ws), gs) of (st, gs') \<Rightarrow> go_loop st gs')"
  by (subst go_loop.simps) simp

definition field_words :: "string \<Rightarrow> int option \<Rightarrow> string list" where
  "field_words name v = (case v of None \<Rightarrow> [] | Some i \<Rightarrow> [name, to_string i])"

definition in_range :: "int option \<Rightarrow> bool" where
  "in_range v = (case v of None \<Rightarrow> True | Some i \<Rightarrow> int32_range i)"

definition with_field :: "go_field \<Rightarrow> int option \<Rightarrow> go_scan \<Rightarrow> go_scan" where
  "with_field f v gs = (case v of None \<Rightarrow> gs | Some i \<Rightarrow> gs\<lparr>scan_par := set_field f i (scan_par gs), scan_filling := False\<rparr>)"

definition newer :: "'a option \<Rightarrow> 'a option \<Rightarrow> 'a option" where
  "newer v old = (case v of None \<Rightarrow> old | Some i \<Rightarrow> Some i)"

lemma with_field_par:
  "scan_par (with_field Movetime v gs) = (scan_par gs)\<lparr>go_movetime := newer v (go_movetime (scan_par gs))\<rparr>"
  "scan_par (with_field Depth v gs) = (scan_par gs)\<lparr>go_depth := newer v (go_depth (scan_par gs))\<rparr>"
  "scan_par (with_field Wtime v gs) = (scan_par gs)\<lparr>go_wtime := newer v (go_wtime (scan_par gs))\<rparr>"
  "scan_par (with_field Winc v gs) = (scan_par gs)\<lparr>go_winc := newer v (go_winc (scan_par gs))\<rparr>"
  "scan_par (with_field Btime v gs) = (scan_par gs)\<lparr>go_btime := newer v (go_btime (scan_par gs))\<rparr>"
  "scan_par (with_field Binc v gs) = (scan_par gs)\<lparr>go_binc := newer v (go_binc (scan_par gs))\<rparr>"
  "scan_par (with_field Movestogo v gs) = (scan_par gs)\<lparr>go_movestogo := newer v (go_movestogo (scan_par gs))\<rparr>"
  by (cases v; simp add: with_field_def newer_def)+

lemma with_field_rest: "scan_infinite (with_field f v gs) = scan_infinite gs" "scan_ponder (with_field f v gs) = scan_ponder gs"
  "scan_moves (with_field f v gs) = scan_moves gs"
  by (simp_all add: with_field_def split: option.split)

lemma newer_None: "newer v None = v"
  by (cases v) (simp_all add: newer_def)

lemma go_loop_field:
  assumes "is_word name" "field_of name = Some f" "name \<noteq> ''nodes''" "in_range v"
  shows "go_loop (stream_of (spaced (field_words name v @ ws))) gs = go_loop (stream_of (spaced ws)) (with_field f v gs)"
proof (cases v)
  case (Some i)
  then have "read_num get_int (stream_of (spaced (to_string i # ws))) = (stream_of (spaced ws), Some i)"
    using read_num_int [of i ws] assms(4) by (simp add: in_range_def)
  then have "go_word name (stream_of (spaced (to_string i # ws)), gs) = (stream_of (spaced ws), with_field f v gs)"
    using assms(2,3) Some by (simp add: go_word_def with_value_def with_field_def)
  moreover have "go_loop (stream_of (spaced (field_words name v @ ws))) gs =
      (case go_word name (stream_of (spaced (to_string i # ws)), gs) of (st, gs') \<Rightarrow> go_loop st gs')"
    using go_loop_word [OF assms(1), of "to_string i # ws" gs] Some by (simp add: field_words_def)
  ultimately show ?thesis by simp
qed (simp add: field_words_def with_field_def)

text \<open>The words of the line: keywords, and anything else.\<close>

definition keyword :: "string \<Rightarrow> bool" where
  "keyword w \<longleftrightarrow> w = ''nodes'' \<or> field_of w \<noteq> None \<or> w \<in> {''infinite'', ''ponder'', ''searchmoves''}"

lemma go_loop_moves:
  assumes "list_all is_word ms" "list_all (Not \<circ> keyword) ms" "scan_filling gs"
  shows "go_loop (stream_of (spaced ms)) gs = gs\<lparr>scan_moves := scan_moves gs @ ms\<rparr>"
  using assms
proof (induction ms arbitrary: gs)
  case (Cons m ms)
  then show ?case using Cons.IH [of "gs\<lparr>scan_moves := scan_moves gs @ [m]\<rparr>"]
    by (simp add: go_loop_word go_word_def keyword_def)
qed (simp add: go_loop_end)

lemma number_no_keyword: "\<not> keyword (to_string i)"
proof -
  have "hd (to_string i) = CHR ''-'' \<or> is_digit (hd (to_string i))" "to_string i \<noteq> []"
    using nat_to_str_digits [of "nat i"] by (auto simp: to_string_def) (cases "nat_to_str (nat i)"; simp)
  then show ?thesis by (auto simp: keyword_def field_of_def is_digit_def split: if_splits)
qed

text \<open>The usual way to write a \<open>go\<close> line, the moves to search last.\<close>

definition go_words :: "go_parameters \<Rightarrow> bool \<Rightarrow> bool \<Rightarrow> string list option \<Rightarrow> string list" where
  "go_words g unlimited ponder moves =
     (case go_nodes g of None \<Rightarrow> [] | Some n \<Rightarrow> [''nodes'', nat_to_str n]) @
     field_words ''movetime'' (go_movetime g) @ field_words ''depth'' (go_depth g) @
     field_words ''wtime'' (go_wtime g) @ field_words ''winc'' (go_winc g) @
     field_words ''btime'' (go_btime g) @ field_words ''binc'' (go_binc g) @ field_words ''movestogo'' (go_movestogo g) @
     (if unlimited then [''infinite''] else []) @ (if ponder then [''ponder''] else []) @
     (case moves of None \<Rightarrow> [] | Some ms \<Rightarrow> ''searchmoves'' # ms)"

definition go_fits :: "go_parameters \<Rightarrow> string list option \<Rightarrow> bool" where
  "go_fits g moves \<longleftrightarrow>
     (case go_nodes g of None \<Rightarrow> True | Some n \<Rightarrow> n < 2 ^ 64) \<and> in_range (go_movetime g) \<and> in_range (go_depth g) \<and>
     in_range (go_wtime g) \<and> in_range (go_winc g) \<and> in_range (go_btime g) \<and> in_range (go_binc g) \<and> in_range (go_movestogo g) \<and>
     (case moves of None \<Rightarrow> True | Some ms \<Rightarrow> ms \<noteq> [] \<and> list_all is_word ms \<and> list_all (Not \<circ> keyword) ms)"

lemma keyword_words [simp]:
  "is_word ''nodes''" "is_word ''movetime''" "is_word ''depth''" "is_word ''wtime''" "is_word ''winc''" "is_word ''btime''"
  "is_word ''binc''" "is_word ''movestogo''" "is_word ''infinite''" "is_word ''ponder''" "is_word ''searchmoves''"
  "is_word ''go''" "is_word ''position''" "is_word ''startpos''" "is_word ''fen''" "is_word ''moves''"
  by (simp_all add: is_word_def is_space_def)

lemma go_loop_nodes:
  assumes "case v of None \<Rightarrow> True | Some n \<Rightarrow> n < 2 ^ 64"
  shows "go_loop (stream_of (spaced ((case v of None \<Rightarrow> [] | Some n \<Rightarrow> [''nodes'', nat_to_str n]) @ ws))) gs =
    go_loop (stream_of (spaced ws))
      (case v of None \<Rightarrow> gs | Some n \<Rightarrow> gs\<lparr>scan_par := (scan_par gs)\<lparr>go_nodes := Some n\<rparr>, scan_filling := False\<rparr>)"
proof (cases v)
  case (Some n)
  then have "read_num get_uint64 (stream_of (spaced (nat_to_str n # ws))) = (stream_of (spaced ws), Some n)"
    using read_num_uint64 [of n ws] assms by simp
  then have "go_word ''nodes'' (stream_of (spaced (nat_to_str n # ws)), gs) =
      (stream_of (spaced ws), gs\<lparr>scan_par := (scan_par gs)\<lparr>go_nodes := Some n\<rparr>, scan_filling := False\<rparr>)"
    by (simp add: go_word_def with_value_def)
  then show ?thesis using go_loop_word [of "''nodes''" "nat_to_str n # ws" gs] Some by simp
qed simp

lemma go_loop_flags:
  "go_loop (stream_of (spaced ((if b then [''infinite''] else []) @ ws))) gs =
     go_loop (stream_of (spaced ws)) (if b then gs\<lparr>scan_infinite := True, scan_filling := False\<rparr> else gs)"
  "go_loop (stream_of (spaced ((if b then [''ponder''] else []) @ ws))) gs =
     go_loop (stream_of (spaced ws)) (if b then gs\<lparr>scan_ponder := True, scan_filling := False\<rparr> else gs)"
  using go_loop_word [of "''infinite''" ws gs] go_loop_word [of "''ponder''" ws gs]
  by (simp_all add: go_word_def field_of_def)

lemma go_loop_searchmoves:
  assumes "case moves of None \<Rightarrow> True | Some ms \<Rightarrow> ms \<noteq> [] \<and> list_all is_word ms \<and> list_all (Not \<circ> keyword) ms"
  shows "go_loop (stream_of (spaced (case moves of None \<Rightarrow> [] | Some ms \<Rightarrow> ''searchmoves'' # ms))) gs =
    (case moves of None \<Rightarrow> gs | Some ms \<Rightarrow> gs\<lparr>scan_moves := scan_moves gs @ ms, scan_filling := True\<rparr>)"
  using assms go_loop_word [of "''searchmoves''"]
  by (cases moves) (simp_all add: go_loop_end go_word_def field_of_def go_loop_moves)

section \<open>Properties of reading\<close>

text \<open>C21 (roundtrip). A \<open>go\<close> line with any of the fields, written the usual way, is read back as it was meant, for all
  values a 32-bit integer (nodes: a 64-bit number) can hold.\<close>

theorem go_line_roundtrip:
  assumes "go_fits g moves"
  shows "parse_go_line (stream_of (spaced (go_words g unlimited ponder moves))) = (g, unlimited, ponder, moves)"
proof -
  have f: "field_of ''movetime'' = Some Movetime" "field_of ''depth'' = Some Depth" "field_of ''wtime'' = Some Wtime"
    "field_of ''winc'' = Some Winc" "field_of ''btime'' = Some Btime" "field_of ''binc'' = Some Binc"
    "field_of ''movestogo'' = Some Movestogo" by (simp_all add: field_of_def)
  note fits = assms [unfolded go_fits_def]
  have n: "''movetime'' \<noteq> ''nodes''" "''depth'' \<noteq> ''nodes''" "''wtime'' \<noteq> ''nodes''" "''winc'' \<noteq> ''nodes''"
    "''btime'' \<noteq> ''nodes''" "''binc'' \<noteq> ''nodes''" "''movestogo'' \<noteq> ''nodes''" by simp_all
  define start where "start = (case go_nodes g of None \<Rightarrow> no_scan
    | Some n \<Rightarrow> no_scan\<lparr>scan_par := (scan_par no_scan)\<lparr>go_nodes := Some n\<rparr>, scan_filling := False\<rparr>)"
  define clocks where "clocks = with_field Movestogo (go_movestogo g) (with_field Binc (go_binc g) (with_field Btime (go_btime g)
    (with_field Winc (go_winc g) (with_field Wtime (go_wtime g) (with_field Depth (go_depth g) (with_field Movetime (go_movetime g) start))))))"
  define flags where "flags = (if unlimited then clocks\<lparr>scan_infinite := True, scan_filling := False\<rparr> else clocks)"
  define flags2 where "flags2 = (if ponder then flags\<lparr>scan_ponder := True, scan_filling := False\<rparr> else flags)"
  have "scan_par clocks = g \<and> \<not> scan_infinite clocks \<and> \<not> scan_ponder clocks \<and> scan_moves clocks = []"
    unfolding clocks_def with_field_rest with_field_par
    by (cases g; cases "go_nodes g") (simp_all add: start_def no_scan_def no_parameters_def newer_None)
  then have "scan_par flags2 = g \<and> scan_infinite flags2 = unlimited \<and> scan_ponder flags2 = ponder \<and> scan_moves flags2 = []"
    by (simp add: flags2_def flags_def)
  moreover have "go_loop (stream_of (spaced (go_words g unlimited ponder moves))) no_scan =
      (case moves of None \<Rightarrow> flags2 | Some ms \<Rightarrow> flags2\<lparr>scan_moves := scan_moves flags2 @ ms, scan_filling := True\<rparr>)"
    unfolding go_words_def flags2_def flags_def clocks_def start_def using assms [unfolded go_fits_def]
    by (simp only: go_loop_nodes go_loop_field [OF _ _ n(1)] go_loop_field [OF _ _ n(2)] go_loop_field [OF _ _ n(3)]
        go_loop_field [OF _ _ n(4)] go_loop_field [OF _ _ n(5)] go_loop_field [OF _ _ n(6)] go_loop_field [OF _ _ n(7)]
        f keyword_words go_loop_flags go_loop_searchmoves simp_thms)
  ultimately show ?thesis using assms [unfolded go_fits_def] by (cases moves) (simp_all add: parse_go_line_def Let_def)
qed

lemma fen_words_split:
  assumes "length fs = 6"
  obtains f us where "fs = f # us" "length us = 5"
  using assms by (cases fs) auto

text \<open>A \<open>position\<close> line with a FEN of six fields, or \<open>startpos\<close>, and moves is read as that FEN and those
  moves.\<close>

theorem position_line_is_read:
  assumes "list_all is_word fs" "length fs = 6" "list_all is_word ms"
  shows "parse_position_line (stream_of (spaced (''fen'' # fs @ ''moves'' # ms))) = Some (hd fs @ spaced (tl fs), Some ms) \<and>
    parse_position_line (stream_of (spaced (''startpos'' # ''moves'' # ms))) = Some (start_fen, Some ms)"
proof
  obtain f us where f: "fs = f # us" "length us = 5" by (rule fen_words_split [OF assms(2)])
  obtain st tmp fen where r: "fen_fields 5 (stream_of (spaced (us @ ''moves'' # ms))) ''fen'' f = (st, tmp, fen)"
    by (cases "fen_fields 5 (stream_of (spaced (us @ ''moves'' # ms))) ''fen'' f")
  have "st = stream_of (spaced (''moves'' # ms))" "fen = f @ spaced us"
    using fen_fields_spaced [of "us @ ''moves'' # ms" 5 "''fen''" f] assms f r by simp_all
  then show "parse_position_line (stream_of (spaced (''fen'' # fs @ ''moves'' # ms))) = Some (hd fs @ spaced (tl fs), Some ms)"
    using r assms(1,3) f by (simp add: parse_position_line_def get_word_cons del: spaced_simps)
  show "parse_position_line (stream_of (spaced (''startpos'' # ''moves'' # ms))) = Some (start_fen, Some ms)"
    using assms(3) by (simp add: parse_position_line_def get_word_cons del: spaced_simps)
qed

text \<open>A FEN with fewer than six fields is accepted: its last field is repeated until there are six, since a
  failing extraction leaves the word as it was.\<close>

theorem short_fen_repeats_last_field:
  assumes "list_all is_word (f # us)" "length us < 5" "last (''fen'' # us) \<noteq> ''moves''"
  shows "parse_position_line (stream_of (spaced (''fen'' # f # us))) =
    Some (f @ spaced (us @ replicate (5 - length us) (last (''fen'' # us))), None)"
  using assms fen_fields_short [of us 5 "''fen''" f] by (simp add: parse_position_line_def get_word_cons del: spaced_simps)

lemma go_word_overflow:
  assumes "2 ^ 31 \<le> n" "is_word w"
  shows "go_word ''wtime'' (stream_of (spaced (nat_to_str n # w # ws)), gs) = (stream_of (spaced ws), gs\<lparr>scan_filling := False\<rparr>)"
  using read_num_overflow [OF assms, of ws] by (simp add: go_word_def field_of_def with_value_def)

text \<open>A clock that does not fit a 32-bit integer swallows the word after it.  A \<open>go\<close> line with such a clock for
  White and any clock for Black is read as one without clocks, and the search gets no time limit.\<close>

theorem clock_overflow_drops_both_clocks:
  assumes "2 ^ 31 \<le> n"
  shows "parse_go_line (stream_of (spaced [''wtime'', nat_to_str n, ''btime'', to_string b])) = (no_parameters, False, False, None) \<and>
    go_times tp h p no_parameters = (0, 0, False, h)"
proof
  have "go_loop (stream_of (spaced [''wtime'', nat_to_str n, ''btime'', to_string b])) no_scan =
      go_loop (stream_of (spaced [to_string b])) (no_scan\<lparr>scan_filling := False\<rparr>)"
    using go_loop_word [of "''wtime''" "[nat_to_str n, ''btime'', to_string b]" no_scan]
      go_word_overflow [OF assms, of "''btime''" "[to_string b]" no_scan] by simp
  also have "\<dots> = no_scan\<lparr>scan_filling := False\<rparr>"
    using go_loop_word [OF is_word_to_string, of b "[]"] number_no_keyword [of b]
    by (simp add: go_word_def keyword_def go_loop_end)
  finally show "parse_go_line (stream_of (spaced [''wtime'', nat_to_str n, ''btime'', to_string b])) = (no_parameters, False, False, None)"
    by (simp add: parse_go_line_def Let_def no_scan_def)
  show "go_times tp h p no_parameters = (0, 0, False, h)"
    by (simp add: go_times_def no_parameters_def own_ms_def value_or_0_def Let_def)
qed

section \<open>The command loop\<close>

text \<open>Whether the thread of a \<open>go\<close> is live after some actions.\<close>

definition live_after :: "bool \<Rightarrow> uci_action list \<Rightarrow> bool" where
  "live_after b acts = fold (\<lambda>a b. case a of Start_go g i p m \<Rightarrow> True | Join_go \<Rightarrow> False | _ \<Rightarrow> b) acts b"

lemma live_after_simps [simp]:
  "live_after b [] = b" "live_after b (xs @ ys) = live_after (live_after b xs) ys"
  "live_after b (a # xs) = live_after (case a of Start_go g i p m \<Rightarrow> True | Join_go \<Rightarrow> False | _ \<Rightarrow> b) xs"
  by (simp_all add: live_after_def)

lemma live_after_options [simp]: "live_after b (map Call_option calls) = b"
  by (induction calls) simp_all

text \<open>The actions that use the position or start a search.\<close>

definition needs_rest :: "(string \<Rightarrow> bool option) \<Rightarrow> uci_action \<Rightarrow> bool" where
  "needs_rest handlers a =
     (case a of Call_position fen moves \<Rightarrow> True | Start_go g i p m \<Rightarrow> True | Run_handler w rest \<Rightarrow> handlers w = Some True | _ \<Rightarrow> False)"

text \<open>All such actions of a list come when no thread is live.\<close>

fun at_rest :: "(string \<Rightarrow> bool option) \<Rightarrow> bool \<Rightarrow> uci_action list \<Rightarrow> bool" where
  "at_rest handlers b [] = True"
| "at_rest handlers b (a # xs) = ((needs_rest handlers a \<longrightarrow> \<not> b) \<and> at_rest handlers (live_after b [a]) xs)"

lemma at_rest_append: "at_rest h b (xs @ ys) \<longleftrightarrow> at_rest h b xs \<and> at_rest h (live_after b xs) ys"
  by (induction xs arbitrary: b) simp_all

lemma at_rest_options [simp]: "at_rest h b (map Call_option calls)"
  by (induction calls) (simp_all add: needs_rest_def)

lemma stop_search_rest:
  "stop_search sv = (sv', acts) \<Longrightarrow> sv_go sv' = False \<and> live_after (sv_go sv) acts = False \<and> at_rest h (sv_go sv) acts \<and>
    sv_options sv' = sv_options sv \<and> sv_word sv' = sv_word sv"
  by (auto simp: stop_search_def needs_rest_def split: if_splits)

lemma run_line_rest:
  assumes "run_line h sv line = (sv', acts, goes_on)"
  shows "sv_go sv' = live_after (sv_go sv) acts \<and> at_rest h (sv_go sv) acts \<and> (\<not> goes_on \<longrightarrow> \<not> sv_go sv')"
proof -
  obtain st word where w: "get_word (stream_of line) (sv_word sv) = (st, word)" by fastforce
  obtain sv1 stop where s: "stop_search (sv\<lparr>sv_word := word\<rparr>) = (sv1, stop)" by fastforce
  note r = stop_search_rest [OF s, of h, simplified]
  obtain g i p ms where g: "parse_go_line st = (g, i, p, ms)" by (cases "parse_go_line st") auto
  obtain opts calls where o: "parse_and_run_setoption_line st (sv_options sv) = (opts, calls)" by fastforce
  note e = assms [unfolded run_line_def w Let_def, simplified, unfolded s g o, simplified]
  show ?thesis
  proof (cases "h word")
    case (Some t)
    then show ?thesis using e r by (cases t) (auto simp: at_rest_append needs_rest_def)
  next
    case None
    then show ?thesis using e r
      by (auto simp: at_rest_append needs_rest_def split: if_splits option.splits prod.splits)
  qed
qed

lemma run_service_rest:
  "run_service h sv lines = (sv', acts, e) \<Longrightarrow>
   sv_go sv' = live_after (sv_go sv) acts \<and> at_rest h (sv_go sv) acts \<and> (e = Terminates \<longleftrightarrow> sv_go sv')"
proof (induction lines arbitrary: sv acts)
  case (Cons line lines)
  obtain sv1 acts1 goes where l: "run_line h sv line = (sv1, acts1, goes)" by (cases "run_line h sv line") auto
  show ?case
  proof (cases goes)
    case True
    obtain acts2 where "run_service h sv1 lines = (sv', acts2, e)" "acts = acts1 @ acts2"
      using Cons.prems l True by (auto split: prod.splits)
    then show ?thesis using Cons.IH [of sv1 acts2] run_line_rest [OF l] by (simp add: at_rest_append)
  next
    case False
    then show ?thesis using Cons.prems l run_line_rest [OF l] by auto
  qed
qed (auto split: if_splits)

section \<open>Options keep their types\<close>

definition options_ok :: "options \<Rightarrow> bool" where
  "options_ok opts \<longleftrightarrow>
     (\<forall>name s. spin_options opts name = Some s \<longrightarrow> spin_min s \<le> spin_value s \<and> spin_value s \<le> spin_max s) \<and>
     (\<forall>name c. combo_options opts name = Some c \<longrightarrow> combo_value c \<in> set (combo_allowed c))"

definition spin_bounds :: "options \<Rightarrow> string \<Rightarrow> (int \<times> int) option" where
  "spin_bounds opts name = map_option (\<lambda>s. (spin_min s, spin_max s)) (spin_options opts name)"

definition call_ok :: "(string \<Rightarrow> (int \<times> int) option) \<Rightarrow> option_call \<Rightarrow> bool" where
  "call_ok bounds call =
     (case call of Spin_call name v \<Rightarrow> \<exists>lo hi. bounds name = Some (lo, hi) \<and> lo \<le> v \<and> v \<le> hi | _ \<Rightarrow> True)"

lemma set_option_value_ok:
  assumes "set_option_value name st opts = (opts', calls)" "options_ok opts"
  shows "options_ok opts' \<and> spin_bounds opts' = spin_bounds opts \<and> list_all (call_ok (spin_bounds opts)) calls"
proof -
  have same: "options_ok opts \<and> spin_bounds opts = spin_bounds opts \<and> list_all (call_ok (spin_bounds opts)) []" using assms(2) by simp
  show ?thesis
  proof (cases "spin_options opts name")
    case (Some s)
    then show ?thesis using assms
      by (cases "snd (get_int st)")
        (auto simp: set_option_value_def set_spin_def options_ok_def spin_bounds_def call_ok_def fun_eq_iff split: if_splits)
  next
    case None
    note spin = this
    show ?thesis
    proof (cases "combo_options opts name")
      case (Some c)
      then show ?thesis using assms spin
        by (cases "snd (get_quoted st)")
          (auto simp: set_option_value_def set_combo_def options_ok_def spin_bounds_def call_ok_def fun_eq_iff split: if_splits)
    next
      case None
      then show ?thesis using assms spin
        by (auto simp: set_option_value_def set_string_def set_check_def options_ok_def spin_bounds_def call_ok_def fun_eq_iff
            split: option.splits prod.splits if_splits)
    qed
  qed
qed

lemma setoption_ok:
  assumes "parse_and_run_setoption_line st opts = (opts', calls)" "options_ok opts"
  shows "options_ok opts' \<and> spin_bounds opts' = spin_bounds opts \<and> list_all (call_ok (spin_bounds opts)) calls"
  using assms set_option_value_ok
  by (auto simp: parse_and_run_setoption_line_def call_ok_def Let_def split: prod.splits if_splits)

definition option_calls :: "uci_action list \<Rightarrow> option_call list" where
  "option_calls acts = concat (map (\<lambda>a. case a of Call_option c \<Rightarrow> [c] | _ \<Rightarrow> []) acts)"

lemma option_calls_simps [simp]:
  "option_calls [] = []" "option_calls (xs @ ys) = option_calls xs @ option_calls ys"
  "option_calls (a # xs) = (case a of Call_option c \<Rightarrow> [c] | _ \<Rightarrow> []) @ option_calls xs"
  "option_calls (map Call_option calls) = calls"
  by (simp_all add: option_calls_def) (induction calls; simp)

lemma stop_search_options: "stop_search sv = (sv', acts) \<Longrightarrow> sv_options sv' = sv_options sv \<and> option_calls acts = []"
  by (auto simp: stop_search_def split: if_splits)

lemma run_line_options:
  assumes "run_line h sv line = (sv', acts, goes_on)" "options_ok (sv_options sv)"
  shows "options_ok (sv_options sv') \<and> spin_bounds (sv_options sv') = spin_bounds (sv_options sv) \<and>
    list_all (call_ok (spin_bounds (sv_options sv))) (option_calls acts)"
proof -
  obtain st word where w: "get_word (stream_of line) (sv_word sv) = (st, word)" by fastforce
  obtain sv1 stop where s: "stop_search (sv\<lparr>sv_word := word\<rparr>) = (sv1, stop)" by fastforce
  note r = stop_search_options [OF s, simplified]
  obtain g i p ms where g: "parse_go_line st = (g, i, p, ms)" by (cases "parse_go_line st") auto
  obtain opts calls where o: "parse_and_run_setoption_line st (sv_options sv) = (opts, calls)" by fastforce
  note e = assms(1) [unfolded run_line_def w Let_def, simplified, unfolded s g o, simplified]
  show ?thesis
  proof (cases "h word")
    case (Some t)
    then show ?thesis using e r assms(2) by (cases t) auto
  next
    case None
    then show ?thesis using e o r assms(2) setoption_ok [OF o assms(2)] by (auto split: if_splits option.splits prod.splits)
  qed
qed

lemma run_service_options:
  "run_service h sv lines = (sv', acts, e) \<Longrightarrow> options_ok (sv_options sv) \<Longrightarrow>
   options_ok (sv_options sv') \<and> list_all (call_ok (spin_bounds (sv_options sv))) (option_calls acts)"
proof (induction lines arbitrary: sv acts)
  case (Cons line lines)
  obtain sv1 acts1 goes where l: "run_line h sv line = (sv1, acts1, goes)" by (cases "run_line h sv line") auto
  note ok = run_line_options [OF l Cons.prems(2)]
  show ?case
  proof (cases goes)
    case True
    obtain acts2 where "run_service h sv1 lines = (sv', acts2, e)" "acts = acts1 @ acts2"
      using Cons.prems l True by (auto split: prod.splits)
    then show ?thesis using Cons.IH [of sv1 acts2] ok by simp
  next
    case False
    then show ?thesis using Cons.prems l ok by auto
  qed
qed simp

text \<open>The ranges \<open>main.cpp\<close> gives the parameters of the time policy.\<close>

definition policy_ok :: "params \<Rightarrow> bool" where
  "policy_ok p \<longleftrightarrow> inc_weight_max_pm p \<in> {0..2000} \<and> inc_weight_min_pm p \<in> {0..2000} \<and> complexity_weight_pm p \<in> {0..1000} \<and>
     opp_react_weight_pm p \<in> {0..1000} \<and> scale_lt2s_pm p \<in> {200..2000} \<and> scale_lt5s_pm p \<in> {200..2000} \<and>
     scale_lt15s_pm p \<in> {200..2000} \<and> scale_gte15s_pm p \<in> {200..2000}"

lemma engine_bounds:
  assumes "spin_bounds (engine_options t hash p a b c) name = Some (lo, hi)"
  shows "name \<in> {''TM_IncMax'', ''TM_IncMin''} \<and> (lo, hi) = (0, 2000) \<or> name \<in> {''TM_ComplexityWeight'', ''TM_OppReactWeight''} \<and> (lo, hi) = (0, 1000) \<or>
    name \<in> {''TM_ScaleLT2s'', ''TM_ScaleLT5s'', ''TM_ScaleLT15s'', ''TM_ScaleGTE15s''} \<and> (lo, hi) = (200, 2000) \<or> name \<in> {''Threads'', ''Hash''}"
  using assms by (simp add: spin_bounds_def engine_options_def spin_def split: if_splits)

lemma policy_call_ok:
  assumes "call_ok (spin_bounds (engine_options t hash p0 a b c)) call" "policy_ok p"
  shows "policy_ok (policy_call call p)"
proof (cases call)
  case (Spin_call name v)
  then obtain lo hi where b: "spin_bounds (engine_options t hash p0 a b c) name = Some (lo, hi)" "lo \<le> v" "v \<le> hi"
    using assms(1) by (auto simp: call_ok_def)
  show ?thesis using engine_bounds [OF b(1)] b(2,3) assms(2) Spin_call by (auto simp: policy_call_def policy_ok_def)
qed (use assms(2) in \<open>simp_all add: policy_call_def\<close>)

lemma policy_calls_ok:
  "list_all (call_ok (spin_bounds (engine_options t hash p0 a b c))) calls \<Longrightarrow> policy_ok p \<Longrightarrow> policy_ok (fold policy_call calls p)"
proof (induction calls arbitrary: p)
  case (Cons call calls)
  then show ?case using policy_call_ok [of t hash p0 a b c call p] by simp
qed simp

section \<open>Properties of the service\<close>

text \<open>C20 (safety). However the lines of the input follow each other: whenever the service calls the position handler or a
  command registered to stop the search, or starts a \<open>go\<close>, the thread of an earlier \<open>go\<close> has been stopped and joined.\<close>

theorem search_is_stopped_first:
  assumes "run_service handlers (new_service opts) lines = (sv', xs @ a # ys, e)" "needs_rest handlers a"
  shows "\<not> live_after False xs"
  using run_service_rest [OF assms(1)] assms(2) by (simp add: new_service_def at_rest_append)

text \<open>C40 (error). When the input ends, the program is terminated by the thread it did not join exactly if the last \<open>go\<close>
  was not followed by a command that stops the search; the search need not be running any more.\<close>

theorem input_end_terminates:
  assumes "run_service handlers (new_service opts) lines = (sv', acts, e)"
  shows "e = Terminates \<longleftrightarrow> live_after False acts"
  using run_service_rest [OF assms] by (simp add: new_service_def)

text \<open>C39 (error). A blank line repeats the last command without its arguments, since the word of the command keeps its
  value: after a \<open>go\<close> it stops the search and starts one without any limit.\<close>

theorem blank_line_starts_unlimited_search:
  assumes "sv_word sv = ''go''" "list_all is_space line" "handlers ''go'' = None"
  shows "run_line handlers sv line =
    (sv\<lparr>sv_go := True\<rparr>, (if sv_go sv then [Call_stop, Join_go] else []) @ [Start_go no_parameters False False None], True) \<and>
    go_times tp h p no_parameters = (0, 0, False, h)"
proof
  have "go_loop \<lparr>input = [], failed = True\<rparr> no_scan = no_scan" by (subst go_loop.simps) simp
  then have "parse_go_line \<lparr>input = [], failed = True\<rparr> = (no_parameters, False, False, None)"
    by (simp add: parse_go_line_def Let_def no_scan_def)
  moreover have "sv\<lparr>sv_word := ''go''\<rparr> = sv" using assms(1) by (cases sv) simp
  ultimately show "run_line handlers sv line =
    (sv\<lparr>sv_go := True\<rparr>, (if sv_go sv then [Call_stop, Join_go] else []) @ [Start_go no_parameters False False None], True)"
    using assms get_word_blank [OF assms(2), of "''go''"] by (simp add: run_line_def stop_search_def)
  show "go_times tp h p no_parameters = (0, 0, False, h)"
    by (simp add: go_times_def no_parameters_def own_ms_def value_or_0_def Let_def)
qed

text \<open>C22 (type). Whatever lines are sent, the engine's options keep values of their types, inside their bounds, and the
  parameters of the time policy stay in the ranges their options declare.\<close>

theorem option_values_stay_in_bounds:
  assumes "run_service handlers (new_service (engine_options threads hash_mb default_params ponder trace minimal)) lines = (sv', acts, e)"
    and "1 \<le> threads" "threads \<le> 128" "1 \<le> hash_mb" "hash_mb \<le> 1024"
  shows "options_ok (sv_options sv') \<and> policy_ok (fold policy_call (option_calls acts) default_params)"
proof -
  have "options_ok (engine_options threads hash_mb default_params ponder trace minimal)"
    using assms(2-5) by (auto simp: options_ok_def engine_options_def spin_def default_params_def split: if_splits)
  from run_service_options [OF assms(1), unfolded new_service_def service.select_convs, OF this]
  show ?thesis using policy_calls_ok by (auto simp: policy_ok_def default_params_def)
qed

section \<open>Witnesses\<close>

definition blitz :: go_parameters where
  "blitz = no_parameters\<lparr>go_wtime := Some 300000, go_winc := Some 2000, go_btime := Some 295000, go_binc := Some 2000, go_depth := Some 8\<rparr>"

theorem go_line_roundtrip_witness:
  "parse_go_line (stream_of (spaced (go_words blitz False True (Some [''e2e4''])))) = (blitz, False, True, Some [''e2e4''])"
  by (rule go_line_roundtrip)
    (simp add: go_fits_def blitz_def no_parameters_def in_range_def int32_range_def is_word_def is_space_def keyword_def field_of_def)

theorem position_line_is_read_witness:
  "parse_position_line (stream_of '' fen 4k3/8/8/8/8/8/4P3/4K3 w - - 0 1 moves e2e4'') = Some (''4k3/8/8/8/8/8/4P3/4K3 w - - 0 1'', Some [''e2e4''])"
  using position_line_is_read [of "[''4k3/8/8/8/8/8/4P3/4K3'', ''w'', ''-'', ''-'', ''0'', ''1'']" "[''e2e4'']"]
  by (simp add: is_word_def is_space_def)

theorem short_fen_repeats_last_field_witness:
  "parse_position_line (stream_of '' fen 4k3/8/8/8/8/8/8/4K3 w - e3'') = Some (''4k3/8/8/8/8/8/8/4K3 w - e3 e3 e3'', None)"
  using short_fen_repeats_last_field [of "''4k3/8/8/8/8/8/8/4K3''" "[''w'', ''-'', ''e3'']"]
  by (simp add: is_word_def is_space_def numeral_2_eq_2)

theorem clock_overflow_drops_both_clocks_witness:
  "parse_go_line (stream_of (spaced [''wtime'', nat_to_str 3000000000, ''btime'', to_string 60000])) = (no_parameters, False, False, None)"
  using clock_overflow_drops_both_clocks [of 3000000000 60000] by simp

definition plain_options :: options where
  "plain_options = engine_options 1 16 default_params False False False"

lemma small_session:
  "run_service engine_handlers (new_service plain_options) [''go'', ''position startpos''] =
     (\<lparr>sv_word = ''position'', sv_go = False, sv_options = plain_options\<rparr>,
      [Start_go no_parameters False False None, Call_stop, Join_go] @ Call_position start_fen None # [], Returns)"
proof -
  have w: "get_word (stream_of ''go'') [] = (stream_of [], ''go'')"
    "get_word (stream_of ''position startpos'') ''go'' = (stream_of '' startpos'', ''position'')"
    using get_word_first [of "''go''" "[]" "[]"] get_word_first [of "''position''" "[''startpos'']" "''go''"] by simp_all
  have p: "parse_go_line (stream_of []) = (no_parameters, False, False, None)"
    by (simp add: parse_go_line_def go_loop_end no_scan_def)
  have q: "parse_position_line (stream_of '' startpos'') = Some (start_fen, None)"
    using get_word_cons [of "''startpos''" "[]" "[]"] by (simp add: parse_position_line_def)
  show ?thesis by (simp add: run_line_def w p q engine_handlers_def new_service_def stop_search_def)
qed

theorem search_is_stopped_first_witness: "\<not> live_after False [Start_go no_parameters False False None, Call_stop, Join_go]"
  by (rule search_is_stopped_first [OF small_session]) (simp add: needs_rest_def)

lemma lone_go:
  "run_service engine_handlers (new_service plain_options) [''go''] =
     (\<lparr>sv_word = ''go'', sv_go = True, sv_options = plain_options\<rparr>, [Start_go no_parameters False False None], Terminates)"
proof -
  have w: "get_word (stream_of ''go'') [] = (stream_of [], ''go'')" using get_word_first [of "''go''" "[]" "[]"] by simp
  have p: "parse_go_line (stream_of []) = (no_parameters, False, False, None)"
    by (simp add: parse_go_line_def go_loop_end no_scan_def)
  show ?thesis by (simp add: run_line_def w p engine_handlers_def new_service_def stop_search_def)
qed

theorem input_end_terminates_witness:
  "snd (snd (run_service engine_handlers (new_service plain_options) [''go''])) = Terminates"
  using input_end_terminates [OF lone_go] unfolding lone_go by simp

theorem blank_line_starts_unlimited_search_witness:
  "run_line engine_handlers \<lparr>sv_word = ''go'', sv_go = True, sv_options = plain_options\<rparr> '' '' =
    (\<lparr>sv_word = ''go'', sv_go = True, sv_options = plain_options\<rparr>, [Call_stop, Join_go, Start_go no_parameters False False None], True)"
  using blank_line_starts_unlimited_search [of "\<lparr>sv_word = ''go'', sv_go = True, sv_options = plain_options\<rparr>" "'' ''" engine_handlers]
  by (simp add: is_space_def engine_handlers_def)

theorem option_values_stay_in_bounds_witness:
  "policy_ok (fold policy_call (option_calls (fst (snd (run_service engine_handlers (new_service plain_options)
     [''setoption name TM_IncMax value 900'', ''setoption name TM_IncMax value 9000''])))) default_params)"
proof -
  let ?lines = "[''setoption name TM_IncMax value 900'', ''setoption name TM_IncMax value 9000'']"
  obtain sv' acts e where r: "run_service engine_handlers (new_service plain_options) ?lines = (sv', acts, e)"
    by (cases "run_service engine_handlers (new_service plain_options) ?lines") auto
  show ?thesis using option_values_stay_in_bounds [OF r [unfolded plain_options_def]] unfolding r by simp
qed

end
