(* ===== verification/Front_End.thy ===== *)
theory Front_End
  imports Fair_Play Eval_Correct Search_State Fen_Correct Exchange
begin

text \<open>
  The position handler of \<open>main.cpp\<close> and the tablebase probes of \<open>syzygy.cpp\<close>.  The handler works on the position
  and the evaluation state of the first searcher.  The Fathom library is a parameter: its probes as functions of
  the fields the code passes, and its accessors of a result word; nothing is assumed of it.
\<close>

section \<open>The position command\<close>

text \<open>More than sixteen units, or not exactly one king, on a side.\<close>

definition illegal_units :: "position \<Rightarrow> bool" where
  "illegal_units p \<longleftrightarrow>
     popcount (pos_color_bb p WHITE) > 16 \<or> popcount (pos_color_bb p BLACK) > 16 \<or>
     popcount (piece_type_color_bb p KING WHITE) \<noteq> 1 \<or> popcount (piece_type_color_bb p KING BLACK) \<noteq> 1"

fun play_texts :: "net \<Rightarrow> string list \<Rightarrow> eval \<times> position \<Rightarrow> eval \<times> position" where
  "play_texts nt [] ep = ep"
| "play_texts nt (move_str # texts) ep =
     (case str_to_move (snd ep) move_str of
        None \<Rightarrow> ep
      | Some m \<Rightarrow> (case eval_make_move nt m ep of (_, ep') \<Rightarrow> play_texts nt texts ep'))"

definition position_handler :: "net \<Rightarrow> string \<times> string list option \<Rightarrow> eval \<times> position \<Rightarrow> eval \<times> position" where
  "position_handler nt = (\<lambda>(text, move_list) (e, _).
     let p = from_fen text in
     if illegal_units p then (e, p)
     else
       let ep = (eval_set nt p, p)
       in case move_list of Some texts \<Rightarrow> play_texts nt texts ep | None \<Rightarrow> ep)"

section \<open>Tablebase probes\<close>

text \<open>The struct \<open>pos\<close> the position is turned into.  The castling constants are Fathom's.\<close>

record tb_pos =
  tb_white :: bitboard
  tb_black :: bitboard
  tb_pieces :: "piece_type \<Rightarrow> bitboard"
  tb_castling :: "8 word"
  tb_rule50 :: "8 word"
  tb_ep :: "8 word"
  tb_turn :: bool

record fathom =
  tb_castling_flag :: "castling_right \<Rightarrow> 8 word"
  tb_probe_root :: "tb_pos \<Rightarrow> nat \<times> nat list"
  tb_probe_wdl :: "tb_pos \<Rightarrow> nat"
  tb_result_failed :: nat
  tb_get_wdl :: "nat \<Rightarrow> nat"
  tb_get_dtz :: "nat \<Rightarrow> int"
  tb_get_from :: "nat \<Rightarrow> nat"
  tb_get_to :: "nat \<Rightarrow> nat"
  tb_get_promotes :: "nat \<Rightarrow> nat"
  tb_loss :: nat
  tb_blessed_loss :: nat
  tb_draw :: nat
  tb_cursed_win :: nat
  tb_win :: nat
  tb_promotes_queen :: nat
  tb_promotes_rook :: nat
  tb_promotes_bishop :: nat
  tb_promotes_knight :: nat

definition gen_parameters :: "fathom \<Rightarrow> position \<Rightarrow> tb_pos" where
  "gen_parameters fa p =
     (let crights = castling_rights p;
          flags = map (\<lambda>r. if cr_is_allowed r crights then tb_castling_flag fa r else 0)
            [WHITE_KINGSIDE, WHITE_QUEENSIDE, BLACK_KINGSIDE, BLACK_QUEENSIDE]
      in \<lparr>tb_white = pos_color_bb p WHITE, tb_black = pos_color_bb p BLACK, tb_pieces = pos_piece_bb p,
          tb_castling = fold (\<lambda>f c. c OR f) flags 0, tb_rule50 = word_of_int (halfmoves p),
          tb_ep = (case enpassant_square p of Some s \<Rightarrow> word_of_int s | None \<Rightarrow> 0),
          tb_turn = (pos_side_to_move p = WHITE)\<rparr>)"

text \<open>The loop over the results, up to the one that means failure: the chosen word and its distance.\<close>

fun dtz_loop :: "fathom \<Rightarrow> nat \<Rightarrow> nat list \<Rightarrow> nat \<times> int \<Rightarrow> nat \<times> int" where
  "dtz_loop fa wdl [] best = best"
| "dtz_loop fa wdl (r # rs) (selected_move, best_dtz) =
     (if r = tb_result_failed fa then (selected_move, best_dtz)
      else dtz_loop fa wdl rs
        (if tb_get_wdl fa r = wdl \<and> tb_get_dtz fa r < best_dtz then (r, tb_get_dtz fa r) else (selected_move, best_dtz)))"

definition promotion_text :: "fathom \<Rightarrow> nat \<Rightarrow> string" where
  "promotion_text fa promotes =
     (if promotes = tb_promotes_queen fa then ''q'' else if promotes = tb_promotes_rook fa then ''r''
      else if promotes = tb_promotes_bishop fa then ''b'' else if promotes = tb_promotes_knight fa then ''n'' else [])"

definition result_text :: "fathom \<Rightarrow> nat \<Rightarrow> string" where
  "result_text fa r =
     (let from = tb_get_from fa r; to_sq = tb_get_to fa r
      in [char_plus CHR ''a'' (int (from mod 8)), char_plus CHR ''1'' (int (from div 8)),
          char_plus CHR ''a'' (int (to_sq mod 8)), char_plus CHR ''1'' (int (to_sq div 8))] @ promotion_text fa (tb_get_promotes fa r))"

definition get_best_dtz_move :: "fathom \<Rightarrow> position \<Rightarrow> nat list \<Rightarrow> nat \<Rightarrow> (move \<times> int) option" where
  "get_best_dtz_move fa p results wdl =
     (let (selected_move, best_dtz) = dtz_loop fa wdl results (0, 2 ^ 31 - 1) in
      if selected_move \<noteq> 0 then map_option (\<lambda>m. (m, best_dtz)) (str_to_move p (result_text fa selected_move)) else None)"

definition probe_fathom_root :: "fathom \<Rightarrow> position \<Rightarrow> (move \<times> int) option" where
  "probe_fathom_root fa p =
     (let (res, results) = tb_probe_root fa (gen_parameters fa p); best = get_best_dtz_move fa p results in
      if res = tb_result_failed fa then None
      else case best (tb_win fa) of Some (m, d) \<Rightarrow> Some (m, max_eval - d) | None \<Rightarrow>
      (case best (tb_cursed_win fa) of Some (m, d) \<Rightarrow> Some (m, 0) | None \<Rightarrow>
      (case best (tb_draw fa) of Some (m, d) \<Rightarrow> Some (m, 0) | None \<Rightarrow>
      (case best (tb_blessed_loss fa) of Some (m, d) \<Rightarrow> Some (m, 0) | None \<Rightarrow>
      (case best (tb_loss fa) of Some (m, d) \<Rightarrow> Some (m, - (max_eval - d)) | None \<Rightarrow> None)))))"

definition probe_nonroot :: "fathom \<Rightarrow> position \<Rightarrow> int option" where
  "probe_nonroot fa p =
     (let res = tb_probe_wdl fa (gen_parameters fa p) in
      if res = tb_result_failed fa then None
      else
        let result = tb_get_wdl fa res in
        if result = tb_loss fa then Some (-1)
        else if result = tb_draw fa \<or> result = tb_blessed_loss fa \<or> result = tb_cursed_win fa then Some 0
        else if result = tb_win fa then Some 1
        else None)"

section \<open>Lines of legal moves\<close>

fun legal_line :: "position \<Rightarrow> move list \<Rightarrow> bool" where
  "legal_line p [] = True"
| "legal_line p (m # ms) = (m \<in> set (legal_move_list p) \<and> legal_line (make_move m p) ms)"

lemma find_same:
  assumes "x \<in> set xs" "P x" "\<And>y. y \<in> set xs \<Longrightarrow> P y \<Longrightarrow> y = x"
  shows "find P xs = Some x"
  using assms
proof (induction xs)
  case (Cons a as)
  show ?case
  proof (cases "P a")
    case True
    then have "a = x" using Cons.prems(3) [of a] by simp
    then show ?thesis using True by simp
  next
    case False
    then have "x \<in> set as" using Cons.prems(1,2) by auto
    then have "find P as = Some x" using Cons.IH [OF _ Cons.prems(2)] Cons.prems(3) by simp
    then show ?thesis using False by simp
  qed
qed simp

text \<open>Legal moves that differ in the type only are equal.\<close>

lemma move_and_type:
  assumes "on_board f" "on_board t" "m = mk_move_promo f t pt ty"
  shows "m = value_sans_type m OR push_bit 15 (word_of_nat (mt_value (move_type m)))"
  unfolding assms(3) value_sans_type_mk [OF assms(1,2)] mk_move_promo_fields(4) [OF assms(1,2)]
  by (simp add: mk_move_promo_def mt_value_def or.assoc)

lemma legal_type:
  assumes "game_ok p" "m \<in> set (legal_move_list p)"
  shows "m = value_sans_type m OR push_bit 15 (word_of_nat (mt_value (move_type m)))"
    "move_type m = move_type_of p (value_sans_type m)"
proof -
  let ?c = "pos_side_to_move p"
  have ok: "board_ok p" "rights_ok p" "ep_ok p" using assms(1) by (simp_all add: game_ok_def pos_ok_def)
  have cm: "chess_move p ?c m" by (rule legal_move_fits(2) [OF assms])
  obtain f t pt ty where m: "on_board f" "on_board t" "pt \<noteq> KING" "m = mk_move_promo f t pt ty"
    by (rule chess_move_form [OF cm])
  show "m = value_sans_type m OR push_bit 15 (word_of_nat (mt_value (move_type m)))" by (rule move_and_type [OF m(1,2,4)])
  have "move_type (value_sans_type m) = NONE"
    unfolding m(4) value_sans_type_mk [OF m(1,2)] by (simp add: mk_move_promo_fields [OF m(1,2)])
  then show "move_type m = move_type_of p (value_sans_type m)"
    using type_recovered [OF ok cm, of "value_sans_type m"] by (simp add: same_fields_def value_sans_type_fields)
qed

lemma legal_moves_equal:
  assumes "game_ok p" "m \<in> set (legal_move_list p)" "m' \<in> set (legal_move_list p)" "move_eq m' m"
  shows "m' = m"
  using legal_type [OF assms(1,2)] legal_type [OF assms(1,3)] assms(4) unfolding move_eq_def by metis

lemma str_to_move_legal:
  assumes "game_ok p" "m \<in> set (legal_move_list p)"
  shows "str_to_move p (move_to_str m) = Some m"
proof -
  let ?c = "pos_side_to_move p"
  have cm: "chess_move p ?c m" by (rule legal_move_fits(2) [OF assms])
  obtain f t pt ty where m: "on_board f" "on_board t" "pt \<noteq> KING" "m = mk_move_promo f t pt ty"
    by (rule chess_move_form [OF cm])
  let ?m' = "mk_move_promo f t pt NONE"
  have read: "move_from_str (move_to_str m) = Some ?m'" unfolding m(4) by (rule move_from_to_str_mk [OF m(1-3)])
  have ty: "move_type ?m' = NONE" by (simp add: mk_move_promo_fields [OF m(1,2)])
  have eq: "move_eq m ?m'" unfolding m(4) by (simp add: move_eq_def value_sans_type_mk [OF m(1,2)])
  have "find (\<lambda>m_compare. move_eq m_compare ?m') (legal_move_list p) = Some m"
  proof (rule find_same [OF assms(2)])
    fix y assume "y \<in> set (legal_move_list p)" "move_eq y ?m'"
    then show "y = m" using legal_moves_equal [OF assms] eq by (simp add: move_eq_def)
  qed (rule eq)
  then show ?thesis using read ty by (simp add: str_to_move_def)
qed

lemma play_texts_legal:
  assumes "fair_game p" "legal_line p ms" "card (pieces p) \<le> 32"
  shows "play_texts nt (map move_to_str ms) (eval_set nt p, p) = (eval_set nt (fold make_move ms p), fold make_move ms p)"
  using assms
proof (induction ms arbitrary: p)
  case (Cons m ms)
  have g: "game_ok p" using Cons.prems(1) by (simp add: fair_game_def)
  have m: "m \<in> set (legal_move_list p)" using Cons.prems(2) by simp
  then have m2: "m \<in> set (legal_move_list_of p (pos_side_to_move p))" by (auto simp: legal_move_list_def split: if_splits)
  note fresh = eval_make_move_fresh [OF g legal_move_fits(2) [OF g m] Cons.prems(3)]
  show ?case
    using Cons.IH [OF make_move_fair [OF Cons.prems(1) m2] _ fresh(3)] Cons.prems(2)
    by (simp add: str_to_move_legal [OF g m] fresh(1))
qed simp

lemma card_pieces:
  assumes "board_ok p"
  shows "int (card (pieces p)) \<le> popcount (pos_color_bb p WHITE) + popcount (pos_color_bb p BLACK)"
proof -
  define S where "S c = set (bb_squares (pos_color_bb p c))" for c
  define f where "f c u = (u, the (piece_type_on p u), c)" for c :: color and u
  have "pieces p \<subseteq> f WHITE ` S WHITE \<union> f BLACK ` S BLACK"
  proof
    fix x assume "x \<in> pieces p"
    then obtain u pt c where x: "x = (u, pt, c)" "on_board u" "has p u pt c" by (auto simp: pieces_def)
    then have "u \<in> S c" "piece_type_on p u = Some pt"
      using piece_type_on_Some [OF assms x(2)] by (auto simp: S_def set_bb_squares has_def)
    then show "x \<in> f WHITE ` S WHITE \<union> f BLACK ` S BLACK" using x(1) by (cases c) (auto simp: f_def)
  qed
  then have "card (pieces p) \<le> card (f WHITE ` S WHITE \<union> f BLACK ` S BLACK)" by (rule card_mono [rotated]) (simp add: S_def)
  also have "\<dots> \<le> card (S WHITE) + card (S BLACK)"
    using card_Un_le [of "f WHITE ` S WHITE" "f BLACK ` S BLACK"] card_image_le [of "S WHITE" "f WHITE"] card_image_le [of "S BLACK" "f BLACK"]
    by (simp add: S_def)
  finally show ?thesis by (simp add: S_def popcount_eq_length distinct_card)
qed

lemma str_to_move_in_list:
  assumes "str_to_move p text = Some m"
  shows "m \<in> set (legal_move_list p)"
proof -
  obtain m0 where m0: "move_from_str text = Some m0" using assms by (auto simp: str_to_move_def split: option.splits)
  then have "move_type m0 = NONE"
    by (auto simp: move_from_str_def Let_def sq_from_on_board mk_move_fields mk_move_promo_fields split: if_splits option.splits)
  then show ?thesis using assms m0 by (auto simp: str_to_move_def find_Some_iff)
qed

section \<open>Two positions with the same fields\<close>

definition looks_like :: "position \<Rightarrow> position \<Rightarrow> bool" where
  "looks_like q p \<longleftrightarrow> pos_piece_bb q = pos_piece_bb p \<and> pos_color_bb q = pos_color_bb p \<and> pos_side_to_move q = pos_side_to_move p \<and>
     castling_rights q = castling_rights p \<and> enpassant_square q = enpassant_square p \<and> pos_hash q = pos_hash p \<and> stack_ok q"

lemma looks_like_fields:
  assumes "looks_like q p"
  shows "occupancy_bb q = occupancy_bb p" "king_square q c = king_square p c" "has q s pt c = has p s pt c" "free q s = free p s"
    "has_king q c = has_king p c" "hits q occ u c s = hits p occ u c s" "calculate_hash q = calculate_hash p"
    "king_attacked q c = king_attacked p c"
proof -
  have eq: "pos_piece_bb q = pos_piece_bb p" "pos_color_bb q = pos_color_bb p" "pos_side_to_move q = pos_side_to_move p"
    "castling_rights q = castling_rights p" "enpassant_square q = enpassant_square p"
    using assms by (simp_all add: looks_like_def)
  show "calculate_hash q = calculate_hash p" unfolding calculate_hash_def hash_pieces_def piece_type_color_bb_def eq ..
  show basic: "occupancy_bb q = occupancy_bb p" "king_square q c = king_square p c" "has q s pt c = has p s pt c" "free q s = free p s"
      "has_king q c = has_king p c" for s pt c
    using eq by (simp_all add: occupancy_bb_def king_square_def piece_type_color_bb_def has_def free_def has_king_def)
  show "hits q occ u c s = hits p occ u c s" by (simp add: hits_def basic)
  have attackers: "attackers_to_of q s c = attackers_to_of p s c" for s c
    unfolding attackers_to_of_def attackers_to_occ_of_def attackers_to_def attackers_to_occ_def occupancy_bb_def piece_type_color_bb_def eq ..
  show "king_attacked q c = king_attacked p c" by (simp add: king_attacked_def attacked_def basic attackers)
qed

lemma looks_like_fair:
  assumes "looks_like q p" "fair_game p"
  shows "fair_game q"
  using assms(2) looks_like_fields [OF assms(1)] assms(1)
  by (simp add: looks_like_def fair_game_def game_ok_def pos_ok_def board_ok_def rights_ok_def ep_ok_def hash_ok_def lone_king_def ep_fresh_def)

lemma fresh_no_repeat: "halfmoves p = 0 \<Longrightarrow> \<not> is_repeat p 4"
proof -
  assume h: "halfmoves p = 0"
  have "down_by_2 (pos_ply p - 2) (max 0 (pos_ply p)) = []" by (subst down_by_2.simps) simp
  then show "\<not> is_repeat p 4" by (simp add: is_repeat_def Let_def h)
qed

section \<open>Properties\<close>

text \<open>C18 (refinement). A \<open>position\<close> command with a FEN of a fair position and the texts of a line of legal moves leaves the
  handler with the position that line leads to and with the evaluation state computed for it from scratch.\<close>

theorem position_command_plays_the_line:
  assumes "fair_game (from_fen text)" "\<not> illegal_units (from_fen text)" "legal_line (from_fen text) ms"
  shows "position_handler nt (text, Some (map move_to_str ms)) old =
    (let p = fold make_move ms (from_fen text) in (eval_set nt p, p))"
proof -
  let ?p = "from_fen text"
  have "int (card (pieces ?p)) \<le> popcount (pos_color_bb ?p WHITE) + popcount (pos_color_bb ?p BLACK)"
    by (rule card_pieces) (use assms(1) in \<open>simp add: fair_game_def game_ok_def pos_ok_def\<close>)
  then have "card (pieces ?p) \<le> 32" using assms(2) by (simp add: illegal_units_def)
  then show ?thesis using play_texts_legal [OF assms(1,3)] assms(2)
    by (cases old) (simp add: position_handler_def Let_def)
qed

text \<open>A FEN with too many units or without one king a side is not refused: the position it describes replaces
  the previous one before the test, while the evaluation state stays that of the previous position.\<close>

theorem illegal_fen_replaces_position:
  assumes "illegal_units (from_fen text)"
  shows "position_handler nt (text, moves) (e, p) = (e, from_fen text)"
  using assms by (simp add: position_handler_def)

lemma dtz_loop_least:
  "dtz_loop fa wdl rs (r0, d0) = (r, d) \<Longrightarrow>
   d \<le> d0 \<and> (\<forall>x \<in> set (takeWhile (\<lambda>x. x \<noteq> tb_result_failed fa) rs). tb_get_wdl fa x = wdl \<longrightarrow> d \<le> tb_get_dtz fa x)"
  by (induction rs arbitrary: r0 d0) (fastforce split: if_splits)+

text \<open>The move taken has the least distance also in a lost position, where the distance is to the own loss.\<close>

theorem lost_position_takes_shortest_loss:
  assumes "get_best_dtz_move fa p results (tb_loss fa) = Some (m, d)"
    and "x \<in> set (takeWhile (\<lambda>x. x \<noteq> tb_result_failed fa) results)" "tb_get_wdl fa x = tb_loss fa"
  shows "- (max_eval - d) \<le> - (max_eval - tb_get_dtz fa x)"
proof -
  obtain r where "dtz_loop fa (tb_loss fa) results (0, 2 ^ 31 - 1) = (r, d)"
    using assms(1) by (auto simp: get_best_dtz_move_def split: prod.splits if_splits)
  then show ?thesis using dtz_loop_least assms(2,3) by fastforce
qed

text \<open>Whatever the tablebase library answers, the move taken from it is in the legal list.\<close>

theorem tablebase_move_is_legal:
  assumes "probe_fathom_root fa p = Some (m, score)"
  shows "m \<in> set (legal_move_list p)"
proof -
  have "m \<in> set (legal_move_list p)" if "get_best_dtz_move fa p results wdl = Some (m, d)" for results wdl m d
    using that str_to_move_in_list by (auto simp: get_best_dtz_move_def split: prod.splits if_splits)
  then show ?thesis using assms
    by (auto simp: probe_fathom_root_def Let_def split: prod.splits if_splits option.splits)
qed

section \<open>Witnesses\<close>

lemma small_text_read:
  "looks_like (from_fen (fen small_game)) small_game" "halfmoves (from_fen (fen small_game)) = 0"
proof -
  have a: "board_ok small_game" "ep_ok small_game" "hash_ok small_game" using small_ok by (simp_all add: game_ok_def)
  have b: "castling_ok (castling_rights small_game)" by (simp add: castling_ok_def pawn_game_fields)
  have c: "halfmoves small_game = 0" by (simp add: pawn_game_fields)
  have d: "pos_fullmoves small_game = 1" by (simp add: pawn_game_def pawn_board_def update_state_def)
  show "looks_like (from_fen (fen small_game)) small_game" "halfmoves (from_fen (fen small_game)) = 0"
    using from_fen_fen [OF a(1,2) b] a(3) by (simp_all add: looks_like_def hash_ok_def c d)
qed

lemmas small_text_looks_like = small_text_read(1) and small_text_halfmoves = small_text_read(2)

lemma small_text_fields:
  defines "q \<equiv> from_fen (fen small_game)"
  shows "pos_piece_bb q = pos_piece_bb small_game" "pos_color_bb q = pos_color_bb small_game" "pos_side_to_move q = WHITE"
    "enpassant_square q = None" "king_square q c = king_square small_game c" "has q s pt c = has small_game s pt c"
    "free q s = free small_game s"
  using small_text_looks_like
  by (simp_all add: q_def looks_like_def king_square_def piece_type_color_bb_def has_def free_def occupancy_bb_def pawn_game_fields)

lemma small_text_line: "legal_line (from_fen (fen small_game)) [small_move]"
proof -
  let ?q = "from_fen (fen small_game)"
  have nc: "\<not> in_check ?q"
    using looks_like_fields(8) [OF small_text_looks_like] small_ok pawn_game_fields(3) by (simp add: in_check_attacked small_text_fields)
  have "pawn_push ?q WHITE small_move" unfolding pawn_push_def
    by (intro exI [of _ 12] exI [of _ 28])
      (simp add: small_text_fields on_board_def pawn_game_has pawn_game_free pawn_shift_def relative_rank_def sq_rank_div small_move_def)
  then have "small_move \<in> set (pseudo_legal_move_list ?q)"
    using mem_pseudo_legal_of [of ?q small_move WHITE]
    by (simp add: pseudo_legal_move_list_def ep_on_board_def small_text_fields chess_move_def nc)
  moreover have "pinned_pieces_of ?q WHITE = 0"
    by (simp add: pinned_pieces_of_def small_text_fields pawn_game_fields)
  then have "is_legal_generated_move ?q small_move"
    by (simp add: is_legal_generated_move_def is_legal_generated_move_pinned_def small_move_fields
        small_text_fields small_ok(5) Let_def)
  ultimately have "small_move \<in> set (legal_move_list_of ?q WHITE)"
    using set_legal_list [of ?q] by (simp add: small_text_fields)
  moreover have "halfmoves ?q = 0" by (rule small_text_halfmoves)
  ultimately have "small_move \<in> set (legal_move_list_of ?q WHITE)" "halfmoves ?q = 0" by blast+
  moreover from this have "\<not> is_repeat ?q 4" by (intro fresh_no_repeat)
  ultimately show ?thesis by (simp add: legal_move_list_def small_text_fields)
qed

theorem position_command_plays_the_line_witness:
  "\<forall>nt old. position_handler nt (fen small_game, Some [move_to_str small_move]) old =
    (let p = make_move small_move (from_fen (fen small_game)) in (eval_set nt p, p))"
proof -
  have "fair_game small_game" using pawn_game_fair [of 12] by simp
  then have "fair_game (from_fen (fen small_game))" by (rule looks_like_fair [OF small_text_looks_like])
  moreover have "\<not> illegal_units (from_fen (fen small_game))"
    by (simp add: illegal_units_def small_text_fields piece_type_color_bb_def pawn_game_fields) code_simp
  ultimately show ?thesis using position_command_plays_the_line [of "fen small_game" "[small_move]"] small_text_line by simp
qed

text \<open>A library that knows one position: it is won, by the push of the pawn.\<close>

definition tiny_fathom :: fathom where
  "tiny_fathom = \<lparr>tb_castling_flag = (\<lambda>_. 0), tb_probe_root = (\<lambda>_. (4, [4, 9])), tb_probe_wdl = (\<lambda>_. 9), tb_result_failed = 9,
     tb_get_wdl = (\<lambda>r. r), tb_get_dtz = (\<lambda>_. 11), tb_get_from = (\<lambda>_. 12), tb_get_to = (\<lambda>_. 28), tb_get_promotes = (\<lambda>_. 0),
     tb_loss = 0, tb_blessed_loss = 1, tb_draw = 2, tb_cursed_win = 3, tb_win = 4,
     tb_promotes_queen = 1, tb_promotes_rook = 2, tb_promotes_bishop = 3, tb_promotes_knight = 4\<rparr>"

lemma tiny_probe: "probe_fathom_root tiny_fathom small_game = Some (small_move, max_eval - 11)"
proof -
  have "result_text tiny_fathom 4 = move_to_str small_move" by code_simp
  then have "str_to_move small_game (result_text tiny_fathom 4) = Some small_move"
    using str_to_move_legal [OF small_ok(3) small_legal] by simp
  moreover have "dtz_loop tiny_fathom 4 [4, 9] (0, 2147483647) = (4, 11)" "tb_probe_root tiny_fathom x = (4, [4, 9])"
    "tb_result_failed tiny_fathom = 9" "tb_win tiny_fathom = 4" for x
    by (simp_all add: tiny_fathom_def)
  ultimately show ?thesis by (simp add: probe_fathom_root_def get_best_dtz_move_def Let_def)
qed

theorem tablebase_move_is_legal_witness: "small_move \<in> set (legal_move_list small_game)"
  by (rule tablebase_move_is_legal [OF tiny_probe])

end
