(* ===== verification/Book.thy ===== *)
theory Book
  imports Game
begin

text \<open>
  The opening book (\<open>book.cpp\<close>): a polyglot file, sorted by hash, in memory or read entry by entry.  A book is the
  number of its entries and the function that reads one, which fails when the file does; the words of an entry are
  as they come from the file on a little endian machine, so the code swaps their bytes.  An assertion that fails
  and a \<open>value()\<close> of an empty optional are faults.
\<close>

section \<open>Byte order\<close>

definition my_HTONS :: "16 word \<Rightarrow> 16 word" where
  "my_HTONS x = push_bit 8 x OR drop_bit 8 x"

definition my_HTONL :: "32 word \<Rightarrow> 32 word" where
  "my_HTONL x = push_bit 16 (ucast (my_HTONS (ucast x))) OR ucast (my_HTONS (ucast (drop_bit 16 x)))"

definition my_NTOHS :: "16 word \<Rightarrow> 16 word" where
  "my_NTOHS x = my_HTONS x"

definition my_NTOHL :: "32 word \<Rightarrow> 32 word" where
  "my_NTOHL x = my_HTONL x"

definition my_NTOHLL :: "64 word \<Rightarrow> 64 word" where
  "my_NTOHLL x = push_bit 32 (ucast (my_NTOHL (ucast (x AND 0xFFFFFFFF)))) OR ucast (my_NTOHL (ucast (drop_bit 32 x)))"

section \<open>Entries and moves\<close>

record polyglot_entry =
  pe_hash :: "64 word"
  pe_move :: "16 word"
  pe_weight :: "16 word"
  pe_learn :: "32 word"

record polyglot_book =
  bk_open :: bool
  bk_size :: int
  read_entry :: "int \<Rightarrow> polyglot_entry option"

datatype book_fault = Empty_optional | Assertion_failed

text \<open>A king that takes its own rook: whether the move is castling.\<close>

definition king_takes_rook :: "position \<Rightarrow> int \<Rightarrow> int \<Rightarrow> int \<Rightarrow> int \<Rightarrow> int \<Rightarrow> book_fault + bool" where
  "king_takes_rook p from_sq to_sq home corner_a corner_h =
     (if from_sq = home \<and> (to_sq = corner_a \<or> to_sq = corner_h) then
        (case piece_type_on p from_sq of
           None \<Rightarrow> Inl Empty_optional
         | Some pt \<Rightarrow>
             if pt \<noteq> KING then Inr False
             else (case piece_type_on p to_sq of None \<Rightarrow> Inl Empty_optional | Some pt \<Rightarrow> Inr (pt = ROOK)))
      else Inr False)"

definition plain_polyglot_move :: "16 word \<Rightarrow> position \<Rightarrow> int \<Rightarrow> int \<Rightarrow> book_fault + move" where
  "plain_polyglot_move w p from_sq to_sq =
     (case piece_type_on p from_sq of
        None \<Rightarrow> Inl Assertion_failed
      | Some pt \<Rightarrow>
          let to_y = to_sq div 8;
              is_capture = (piece_on p to_sq \<noteq> None);
              promotion_type = (let t = uint (drop_bit 12 w AND 7) in if t > 4 then 0 else t)
          in if promotion_type = 0 \<and> pt = PAWN \<and> (to_y = 0 \<or> to_y = 7) then Inl Assertion_failed
             else if promotion_type \<noteq> 0 then
               let promote_to = (if pt = PAWN then [PAWN, KNIGHT, BISHOP, ROOK, QUEEN] ! nat promotion_type else pt)
               in Inr (mk_move_promo from_sq to_sq promote_to (if is_capture then CAPTURE_PROMOTION else PROMOTION))
             else Inr (mk_move from_sq to_sq
               (if is_capture then CAPTURE
                else if pt = PAWN \<and> (sq_rank to_sq = 3 \<and> sq_rank from_sq = 1 \<or> sq_rank to_sq = 4 \<and> sq_rank from_sq = 6) then DOUBLE_PUSH
                else NORMAL)))"

definition convert_polyglot_move :: "16 word \<Rightarrow> position \<Rightarrow> book_fault + move" where
  "convert_polyglot_move w p =
     (let to_sq = uint (w AND 7) + 8 * uint (drop_bit 3 w AND 7);
          from_sq = uint (drop_bit 6 w AND 7) + 8 * uint (drop_bit 9 w AND 7)
      in case king_takes_rook p from_sq to_sq E1 A1 H1 of
           Inl f \<Rightarrow> Inl f
         | Inr True \<Rightarrow> Inr (mk_move from_sq (if to_sq = H1 then G1 else C1) CASTLING)
         | Inr False \<Rightarrow>
             (case king_takes_rook p from_sq to_sq E8 A8 H8 of
                Inl f \<Rightarrow> Inl f
              | Inr True \<Rightarrow> Inr (mk_move from_sq (if to_sq = H8 then G8 else C8) CASTLING)
              | Inr False \<Rightarrow> plain_polyglot_move w p from_sq to_sq))"

section \<open>Looking up a position\<close>

definition entry_hash :: "polyglot_entry \<Rightarrow> 64 word" where
  "entry_hash e = my_NTOHLL (pe_hash e)"

definition entry_move :: "polyglot_entry \<Rightarrow> position \<Rightarrow> book_fault + move" where
  "entry_move e p = convert_polyglot_move (my_NTOHS (pe_move e)) p"

definition entry_weight :: "polyglot_entry \<Rightarrow> int" where
  "entry_weight e = uint (my_NTOHS (pe_weight e))"

text \<open>The entries around the one found, in one direction: the indices up to the end, and the loop over them.\<close>

definition scan_indices :: "int \<Rightarrow> int \<Rightarrow> int \<Rightarrow> int list" where
  "scan_indices start direction limit = (if direction < 0 then rev [limit + 1 .. start - 1] else [start + 1 .. limit - 1])"

fun scan_loop :: "polyglot_book \<Rightarrow> position \<Rightarrow> int list \<Rightarrow> (move \<times> int) list \<Rightarrow> book_fault + (move \<times> int) list" where
  "scan_loop b p [] moves = Inr moves"
| "scan_loop b p (i # is) moves =
     (case read_entry b i of
        None \<Rightarrow> Inr moves
      | Some e \<Rightarrow>
          if entry_hash e \<noteq> pos_hash p then Inr moves
          else (case entry_move e p of
                  Inl f \<Rightarrow> Inl f
                | Inr m \<Rightarrow> scan_loop b p is (if is_legal_move p m then moves @ [(m, entry_weight e)] else moves)))"

definition scan :: "polyglot_book \<Rightarrow> position \<Rightarrow> int \<Rightarrow> int \<Rightarrow> int \<Rightarrow> (move \<times> int) list \<Rightarrow> book_fault + (move \<times> int) list" where
  "scan b p start direction limit moves = scan_loop b p (scan_indices start direction limit) moves"

text \<open>The moves of the highest weight.\<close>

definition heavier :: "move \<times> int \<Rightarrow> int \<times> (move \<times> int) list \<Rightarrow> int \<times> (move \<times> int) list" where
  "heavier m = (\<lambda>(max_weight, work).
     if snd m > max_weight then (snd m, [m]) else if snd m = max_weight then (max_weight, work @ [m]) else (max_weight, work))"

definition heaviest :: "(move \<times> int) list \<Rightarrow> (move \<times> int) list" where
  "heaviest moves = snd (fold heavier moves (-1, []))"

definition found_at :: "polyglot_book \<Rightarrow> position \<Rightarrow> int \<Rightarrow> polyglot_entry \<Rightarrow> book_fault + (move \<times> int) list" where
  "found_at b p mid e =
     (case entry_move e p of
        Inl f \<Rightarrow> Inl f
      | Inr m \<Rightarrow>
          (case scan b p mid (-1) (-1) [(m, entry_weight e)] of
             Inl f \<Rightarrow> Inl f
           | Inr moves \<Rightarrow> scan b p mid 1 (bk_size b) moves))"

function query_loop :: "polyglot_book \<Rightarrow> position \<Rightarrow> int \<Rightarrow> int \<Rightarrow> book_fault + move option" where
  "query_loop b p low high =
     (if low < high then
        let mid = (low + high) div 2 in
        case read_entry b mid of
          None \<Rightarrow> Inr None
        | Some e \<Rightarrow>
            if entry_hash e < pos_hash p then query_loop b p (mid + 1) high
            else if entry_hash e > pos_hash p then query_loop b p low mid
            else (case found_at b p mid e of
                    Inl f \<Rightarrow> Inl f
                  | Inr moves \<Rightarrow>
                      (case heaviest moves of m # _ \<Rightarrow> Inr (Some (fst m)) | [] \<Rightarrow> query_loop b p low high))
      else Inr None)"
  by pat_completeness auto

lemma scan_loop_extends:
  "scan_loop b p is moves = Inr moves' \<Longrightarrow>
   \<exists>more. moves' = moves @ more \<and> (\<forall>x \<in> set more. 0 \<le> snd x)"
proof (induction "is" arbitrary: moves)
  case (Cons i "is")
  show ?case
  proof (cases "read_entry b i")
    case None
    then show ?thesis using Cons.prems by simp
  next
    case (Some e)
    show ?thesis
    proof (cases "entry_hash e = pos_hash p")
      case True
      then obtain m where m: "entry_move e p = Inr m" "scan_loop b p is (if is_legal_move p m then moves @ [(m, entry_weight e)] else moves) = Inr moves'"
        using Cons.prems Some by (auto split: sum.splits)
      then obtain more where "moves' = (if is_legal_move p m then moves @ [(m, entry_weight e)] else moves) @ more" "\<forall>x \<in> set more. 0 \<le> snd x"
        using Cons.IH by blast
      then show ?thesis by (intro exI [of _ "(if is_legal_move p m then [(m, entry_weight e)] else []) @ more"]) (auto simp: entry_weight_def)
    qed (use Cons.prems Some in simp)
  qed
qed simp

lemma found_at_nonempty:
  assumes "found_at b p mid e = Inr moves"
  obtains m more where "entry_move e p = Inr m" "moves = (m, entry_weight e) # more" "\<forall>x \<in> set moves. 0 \<le> snd x"
proof -
  obtain m moves1 where m: "entry_move e p = Inr m" "scan b p mid (-1) (-1) [(m, entry_weight e)] = Inr moves1"
      "scan b p mid 1 (bk_size b) moves1 = Inr moves"
    using assms by (auto simp: found_at_def split: sum.splits)
  obtain more1 where "moves1 = [(m, entry_weight e)] @ more1" "\<forall>x \<in> set more1. 0 \<le> snd x"
    using scan_loop_extends m(2) unfolding scan_def by blast
  moreover obtain more2 where "moves = moves1 @ more2" "\<forall>x \<in> set more2. 0 \<le> snd x"
    using scan_loop_extends m(3) unfolding scan_def by blast
  ultimately show ?thesis using m(1) by (intro that [of m "more1 @ more2"]) (auto simp: entry_weight_def)
qed

text \<open>What the fold keeps: the moves of the greatest weight so far.\<close>

definition best_of :: "int \<Rightarrow> (move \<times> int) list \<Rightarrow> (move \<times> int) list \<Rightarrow> int \<times> (move \<times> int) list \<Rightarrow> bool" where
  "best_of k work moves r \<longleftrightarrow>
     k \<le> fst r \<and> (\<forall>x \<in> set (snd r). snd x = fst r \<and> (x \<in> set work \<or> x \<in> set moves)) \<and> (\<forall>x \<in> set moves. snd x \<le> fst r) \<and>
     (work \<noteq> [] \<or> k < fst r \<longrightarrow> snd r \<noteq> [])"

lemma heavier_fold: "\<forall>x \<in> set work. snd x = k \<Longrightarrow> best_of k work moves (fold heavier moves (k, work))"
proof (induction moves arbitrary: k work)
  case (Cons x xs)
  obtain k1 work1 where h: "heavier x (k, work) = (k1, work1)" by fastforce
  then have h1: "k \<le> k1" "snd x \<le> k1" "\<forall>y \<in> set work1. snd y = k1 \<and> (y \<in> set work \<or> y = x)" "work \<noteq> [] \<or> k < k1 \<longrightarrow> work1 \<noteq> []"
    using Cons.prems by (auto simp: heavier_def split: if_splits)
  then have "best_of k1 work1 xs (fold heavier xs (k1, work1))" using Cons.IH by simp
  then show ?case using h h1 unfolding best_of_def by (simp, fastforce)
qed (simp add: best_of_def)

lemma heaviest_spec:
  assumes "moves \<noteq> []" "\<forall>x \<in> set moves. 0 \<le> snd x"
  shows "\<exists>m work. heaviest moves = m # work \<and> m \<in> set moves \<and> (\<forall>x \<in> set moves. snd x \<le> snd m)"
proof -
  obtain k work where f: "fold heavier moves (-1, []) = (k, work)" by fastforce
  have b: "best_of (-1) [] moves (k, work)" using heavier_fold [of "[]" "-1" moves] f by simp
  obtain x where "x \<in> set moves" using assms(1) by (cases moves) auto
  then have "-1 < k" using b assms(2) unfolding best_of_def by fastforce
  then obtain m ms where "work = m # ms" using b unfolding best_of_def by (cases work) auto
  then show ?thesis using b f unfolding best_of_def by (auto simp: heaviest_def)
qed

termination query_loop
proof (relation "measure (\<lambda>(b, p, low, high). nat (high - low))")
  fix b p low high mid e moves
  assume "found_at b p mid e = Inr moves" "heaviest moves = []"
  then have False using heaviest_spec by (metis found_at_nonempty list.distinct(1))
  then show "((b, p, low, high), (b, p, low, high)) \<in> measure (\<lambda>(b, p, low, high). nat (high - low))" ..
qed auto

declare query_loop.simps [simp del]

definition query :: "polyglot_book \<Rightarrow> position \<Rightarrow> book_fault + move option" where
  "query b p = (if bk_open b then query_loop b p 0 (bk_size b) else Inr None)"

section \<open>Sorted books\<close>

definition entry_at :: "polyglot_book \<Rightarrow> int \<Rightarrow> polyglot_entry" where
  "entry_at b i = the (read_entry b i)"

definition entries_of :: "polyglot_book \<Rightarrow> position \<Rightarrow> int set" where
  "entries_of b p = {i. 0 \<le> i \<and> i < bk_size b \<and> entry_hash (entry_at b i) = pos_hash p}"

text \<open>All entries can be read and they are sorted by hash.\<close>

definition book_ok :: "polyglot_book \<Rightarrow> bool" where
  "book_ok b \<longleftrightarrow> bk_open b \<and> (\<forall>i. 0 \<le> i \<and> i < bk_size b \<longrightarrow> read_entry b i \<noteq> None) \<and>
     (\<forall>i j. 0 \<le> i \<and> i \<le> j \<and> j < bk_size b \<longrightarrow> entry_hash (entry_at b i) \<le> entry_hash (entry_at b j))"

lemma takeWhile_filter: "sorted_wrt (\<lambda>i j. P j \<longrightarrow> P i) xs \<Longrightarrow> takeWhile P xs = filter P xs"
  by (induction xs) (auto simp: filter_empty_conv)

lemma between_same:
  assumes "book_ok b" "i \<in> entries_of b p" "k \<in> entries_of b p" "i \<le> j" "j \<le> k"
  shows "j \<in> entries_of b p"
proof -
  have sorted: "entry_hash (entry_at b u) \<le> entry_hash (entry_at b v)" if "0 \<le> u" "u \<le> v" "v < bk_size b" for u v
    using assms(1) that by (simp add: book_ok_def)
  have "0 \<le> i" "k < bk_size b" using assms(2,3) by (simp_all add: entries_of_def)
  then have "entry_hash (entry_at b i) \<le> entry_hash (entry_at b j)" "entry_hash (entry_at b j) \<le> entry_hash (entry_at b k)"
    using sorted [of i j] sorted [of j k] assms(4,5) by linarith+
  then show ?thesis using assms(2-5) by (auto simp: entries_of_def)
qed

lemma scan_loop_covers:
  assumes "scan_loop b p is moves = Inr moves'" "\<forall>i \<in> set is. read_entry b i \<noteq> None"
    and "sorted_wrt (\<lambda>i j. entry_hash (entry_at b j) = pos_hash p \<longrightarrow> entry_hash (entry_at b i) = pos_hash p) is"
  shows "set moves' = set moves \<union> {(m, entry_weight (entry_at b i)) | m i.
    i \<in> set is \<and> entry_hash (entry_at b i) = pos_hash p \<and> entry_move (entry_at b i) p = Inr m \<and> is_legal_move p m}"
  using assms
proof (induction "is" arbitrary: moves)
  case (Cons i "is")
  obtain e where e: "read_entry b i = Some e" using Cons.prems(2) by auto
  then have at: "entry_at b i = e" by (simp add: entry_at_def)
  show ?case
  proof (cases "entry_hash e = pos_hash p")
    case True
    then obtain m where m: "entry_move e p = Inr m" "scan_loop b p is (if is_legal_move p m then moves @ [(m, entry_weight e)] else moves) = Inr moves'"
      using Cons.prems(1) e by (auto split: sum.splits)
    from Cons.IH [OF m(2)] Cons.prems(2,3) show ?thesis using True m(1) at by auto
  next
    case False
    then show ?thesis using Cons.prems e at by auto
  qed
qed simp

lemma scan_loop_fault:
  assumes "scan_loop b p is moves = Inl f" "\<forall>i \<in> set is. read_entry b i \<noteq> None"
  shows "\<exists>i \<in> set is. entry_hash (entry_at b i) = pos_hash p \<and> entry_move (entry_at b i) p = Inl f"
  using assms
proof (induction "is" arbitrary: moves)
  case (Cons i "is")
  then show ?case by (auto simp: entry_at_def split: option.splits if_splits sum.splits)
qed simp

lemma scan_covers:
  assumes "book_ok b" "mid \<in> entries_of b p" "is = rev [0 .. mid - 1] \<or> is = [mid + 1 .. bk_size b - 1]"
  shows "\<forall>i \<in> set is. read_entry b i \<noteq> None"
    "sorted_wrt (\<lambda>i j. entry_hash (entry_at b j) = pos_hash p \<longrightarrow> entry_hash (entry_at b i) = pos_hash p) is"
    "set is \<subseteq> {0 ..< bk_size b}"
proof -
  have m: "0 \<le> mid" "mid < bk_size b" using assms(2) by (simp_all add: entries_of_def)
  show r: "set is \<subseteq> {0 ..< bk_size b}" using assms(3) m by auto
  then show "\<forall>i \<in> set is. read_entry b i \<noteq> None" using assms(1) by (auto simp: book_ok_def)
  from assms(3) show "sorted_wrt (\<lambda>i j. entry_hash (entry_at b j) = pos_hash p \<longrightarrow> entry_hash (entry_at b i) = pos_hash p) is"
  proof
    assume d: "is = rev [0 .. mid - 1]"
    have "sorted_wrt (\<lambda>i j. entry_hash (entry_at b i) = pos_hash p \<longrightarrow> entry_hash (entry_at b j) = pos_hash p) [0 .. mid - 1]"
      by (rule sorted_wrt_mono_rel [OF _ sorted_wrt_upto])
        (use between_same [OF assms(1) _ assms(2)] m in \<open>auto simp: entries_of_def\<close>)
    then show ?thesis by (simp add: d sorted_wrt_rev)
  next
    assume d: "is = [mid + 1 .. bk_size b - 1]"
    show ?thesis unfolding d
      by (rule sorted_wrt_mono_rel [OF _ sorted_wrt_upto])
        (use between_same [OF assms(1,2)] m in \<open>auto simp: entries_of_def\<close>)
  qed
qed

text \<open>The moves collected around an entry of the position.\<close>

lemma found_at_spec:
  assumes "book_ok b" "mid \<in> entries_of b p"
  shows "case found_at b p mid (entry_at b mid) of
      Inl f \<Rightarrow> \<exists>i \<in> entries_of b p. entry_move (entry_at b i) p = Inl f
    | Inr moves \<Rightarrow> (\<forall>x \<in> set moves. \<exists>i \<in> entries_of b p. entry_move (entry_at b i) p = Inr (fst x) \<and> snd x = entry_weight (entry_at b i)) \<and>
        (\<forall>i \<in> entries_of b p. \<forall>m. entry_move (entry_at b i) p = Inr m \<and> is_legal_move p m \<longrightarrow> (m, entry_weight (entry_at b i)) \<in> set moves)"
proof (cases "entry_move (entry_at b mid) p")
  case (Inl f)
  then show ?thesis using assms(2) by (auto simp: found_at_def)
next
  case (Inr m)
  have m: "0 \<le> mid" "mid < bk_size b" using assms(2) by (simp_all add: entries_of_def)
  let ?behind = "rev [0 .. mid - 1]" and ?ahead = "[mid + 1 .. bk_size b - 1]" and ?x = "(m, entry_weight (entry_at b mid))"
  have ix: "scan_indices mid (-1) (-1) = ?behind" "scan_indices mid 1 (bk_size b) = ?ahead" by (simp_all add: scan_indices_def)
  note B = scan_covers [OF assms disjI1 [OF refl]] and F = scan_covers [OF assms disjI2 [OF refl]]
  have in_entries: "i \<in> entries_of b p" if "i \<in> set ?behind \<union> set ?ahead" "entry_hash (entry_at b i) = pos_hash p" for i
    using that B(3) F(3) by (auto simp: entries_of_def)
  have split: "i = mid \<or> i \<in> set ?behind \<or> i \<in> set ?ahead" if "i \<in> entries_of b p" for i
    using that by (auto simp: entries_of_def)
  show ?thesis
  proof (cases "scan_loop b p ?behind [?x]")
    case (Inl f)
    then show ?thesis using scan_loop_fault [OF Inl B(1)] in_entries \<open>entry_move (entry_at b mid) p = Inr m\<close>
      by (auto simp: found_at_def scan_def ix)
  next
    case (Inr moves1)
    note M1 = scan_loop_covers [OF Inr B(1,2)]
    show ?thesis
    proof (cases "scan_loop b p ?ahead moves1")
      case (Inl f)
      then show ?thesis using scan_loop_fault [OF Inl F(1)] in_entries Inr \<open>entry_move (entry_at b mid) p = Inr m\<close>
        by (auto simp: found_at_def scan_def ix)
    next
      case (Inr moves)
      note M = scan_loop_covers [OF Inr F(1,2)]
      have "found_at b p mid (entry_at b mid) = Inr moves"
        using Inr \<open>scan_loop b p ?behind [?x] = Inr moves1\<close> \<open>entry_move (entry_at b mid) p = Inr m\<close> by (simp add: found_at_def scan_def ix)
      moreover have "\<exists>i \<in> entries_of b p. entry_move (entry_at b i) p = Inr (fst x) \<and> snd x = entry_weight (entry_at b i)" if "x \<in> set moves" for x
      proof -
        from that have "x = ?x \<or> (\<exists>i. i \<in> set ?behind \<union> set ?ahead \<and> entry_hash (entry_at b i) = pos_hash p \<and>
            entry_move (entry_at b i) p = Inr (fst x) \<and> snd x = entry_weight (entry_at b i))"
          unfolding M M1 by auto
        then show ?thesis
        proof
          assume "x = ?x"
          then show ?thesis using \<open>entry_move (entry_at b mid) p = Inr m\<close> by (intro bexI [OF _ assms(2)]) simp
        next
          assume "\<exists>i. i \<in> set ?behind \<union> set ?ahead \<and> entry_hash (entry_at b i) = pos_hash p \<and>
            entry_move (entry_at b i) p = Inr (fst x) \<and> snd x = entry_weight (entry_at b i)"
          then show ?thesis using in_entries by blast
        qed
      qed
      moreover have "(m', entry_weight (entry_at b i)) \<in> set moves"
        if "i \<in> entries_of b p" "entry_move (entry_at b i) p = Inr m'" "is_legal_move p m'" for i m'
      proof -
        have h: "entry_hash (entry_at b i) = pos_hash p" using that(1) by (simp add: entries_of_def)
        have behind: "(m', entry_weight (entry_at b i)) \<in> set moves1" if "i \<in> set ?behind"
          unfolding M1 using that \<open>entry_move (entry_at b i) p = Inr m'\<close> \<open>is_legal_move p m'\<close> h by blast
        have ahead: "(m', entry_weight (entry_at b i)) \<in> set moves" if "i \<in> set ?ahead"
          unfolding M using that \<open>entry_move (entry_at b i) p = Inr m'\<close> \<open>is_legal_move p m'\<close> h by blast
        have first: "?x \<in> set moves1" unfolding M1 by simp
        have keep: "y \<in> set moves" if "y \<in> set moves1" for y unfolding M using that by (rule UnI1)
        from split [OF that(1)] show ?thesis
        proof (elim disjE)
          assume "i = mid"
          then have "(m', entry_weight (entry_at b i)) = ?x"
            using that(2) \<open>entry_move (entry_at b mid) p = Inr m\<close> by simp
          then show ?thesis using keep [OF first] by simp
        qed (use behind ahead keep in simp_all)+
      qed
      ultimately show ?thesis by simp
    qed
  qed
qed


text \<open>What a search of the entries from \<open>low\<close> to \<open>high\<close> finds.\<close>

fun query_answer :: "polyglot_book \<Rightarrow> position \<Rightarrow> book_fault + move option \<Rightarrow> bool" where
  "query_answer b p (Inl f) = (\<exists>i \<in> entries_of b p. entry_move (entry_at b i) p = Inl f)"
| "query_answer b p (Inr None) = (entries_of b p = {})"
| "query_answer b p (Inr (Some m)) =
     (\<exists>i \<in> entries_of b p. entry_move (entry_at b i) p = Inr m \<and>
        (\<forall>j \<in> entries_of b p. \<forall>m'. entry_move (entry_at b j) p = Inr m' \<and> is_legal_move p m' \<longrightarrow>
           entry_weight (entry_at b j) \<le> entry_weight (entry_at b i)))"

text \<open>The answer the code makes of them.\<close>

lemma found_at_answers:
  assumes "book_ok b" "mid \<in> entries_of b p"
  shows "case found_at b p mid (entry_at b mid) of
      Inl f \<Rightarrow> query_answer b p (Inl f)
    | Inr moves \<Rightarrow> \<exists>m work. heaviest moves = m # work \<and> query_answer b p (Inr (Some (fst m)))"
proof (cases "found_at b p mid (entry_at b mid)")
  case (Inl f)
  then show ?thesis using found_at_spec [OF assms] by simp
next
  case (Inr moves)
  note found = found_at_spec [OF assms]
  obtain m work where h: "heaviest moves = m # work" "m \<in> set moves" "\<forall>x \<in> set moves. snd x \<le> snd m"
    using heaviest_spec Inr by (metis found_at_nonempty list.distinct(1))
  obtain i where i: "i \<in> entries_of b p" "entry_move (entry_at b i) p = Inr (fst m)" "snd m = entry_weight (entry_at b i)"
    using found Inr h(2) by auto
  have "entry_weight (entry_at b j) \<le> snd m"
    if "j \<in> entries_of b p" "entry_move (entry_at b j) p = Inr m'" "is_legal_move p m'" for j m'
  proof -
    have "(m', entry_weight (entry_at b j)) \<in> set moves" using found Inr that by simp
    then show ?thesis using h(3) by fastforce
  qed
  then show ?thesis using Inr h(1) i by auto
qed

lemma entries_beyond:
  assumes "book_ok b" "0 \<le> mid" "mid < bk_size b"
  shows "entry_hash (entry_at b mid) < pos_hash p \<Longrightarrow> i \<in> entries_of b p \<Longrightarrow> mid < i"
    "entry_hash (entry_at b mid) > pos_hash p \<Longrightarrow> i \<in> entries_of b p \<Longrightarrow> i < mid"
proof -
  have sorted: "entry_hash (entry_at b u) \<le> entry_hash (entry_at b v)" if "0 \<le> u" "u \<le> v" "v < bk_size b" for u v
    using assms(1) that by (simp add: book_ok_def)
  show "mid < i" if "entry_hash (entry_at b mid) < pos_hash p" "i \<in> entries_of b p"
    using sorted [of i mid] that assms(2,3) by (cases "i \<le> mid") (auto simp: entries_of_def)
  show "i < mid" if "entry_hash (entry_at b mid) > pos_hash p" "i \<in> entries_of b p"
    using sorted [of mid i] that assms(2,3) by (cases "mid \<le> i") (auto simp: entries_of_def)
qed

lemma query_loop_answers:
  assumes "book_ok b" "0 \<le> low" "high \<le> bk_size b" "entries_of b p \<subseteq> {low ..< high}"
  shows "query_answer b p (query_loop b p low high)"
  using assms
proof (induction b p low high rule: query_loop.induct)
  case (1 b p low high)
  show ?case
  proof (cases "low < high")
    case False
    then show ?thesis using "1.prems" by (simp add: query_loop.simps [of b p low high])
  next
    case True
    let ?mid = "(low + high) div 2"
    have mid: "low \<le> ?mid" "?mid < high" "0 \<le> ?mid" "?mid < bk_size b" using True "1.prems"(2,3) by auto
    then have e: "read_entry b ?mid = Some (entry_at b ?mid)"
      using \<open>book_ok b\<close> by (auto simp: book_ok_def entry_at_def)
    note beyond = entries_beyond [OF \<open>book_ok b\<close> mid(3,4), of p]
    note step = query_loop.simps [of b p low high]
    consider (less) "entry_hash (entry_at b ?mid) < pos_hash p" | (greater) "entry_hash (entry_at b ?mid) > pos_hash p"
      | (same) "entry_hash (entry_at b ?mid) = pos_hash p" using linorder_less_linear by blast
    then show ?thesis
    proof cases
      case less
      then have "entries_of b p \<subseteq> {?mid + 1 ..< high}" using beyond(1) "1.prems"(4) by fastforce
      then have "query_answer b p (query_loop b p (?mid + 1) high)"
        using 1(1) [OF True refl e less] "1.prems" mid by simp
      then show ?thesis using True e less by (simp add: step)
    next
      case greater
      then have "entries_of b p \<subseteq> {low ..< ?mid}" using beyond(2) "1.prems"(4) by fastforce
      then have "query_answer b p (query_loop b p low ?mid)"
        using 1(2) [OF True refl e _ greater] greater "1.prems" mid by simp
      moreover have "\<not> entry_hash (entry_at b ?mid) < pos_hash p" using greater by simp
      ultimately show ?thesis using True e greater by (simp add: step Let_def)
    next
      case same
      then have here: "?mid \<in> entries_of b p" using mid by (simp add: entries_of_def)
      have "query_answer b p (query_loop b p low high)"
        using found_at_answers [OF \<open>book_ok b\<close> here] True e same
        by (auto simp: step split: sum.splits)
      then show ?thesis by simp
    qed
  qed
qed

section \<open>A book of one entry\<close>

text \<open>The pawn of the second rank goes to the seventh.\<close>

definition wild_book :: polyglot_book where
  "wild_book = \<lparr>bk_open = True, bk_size = 1, read_entry = (\<lambda>i. if i = 0 then Some
     \<lparr>pe_hash = my_NTOHLL (pos_hash small_game), pe_move = 0x3403, pe_weight = 0x0100, pe_learn = 0\<rparr> else None)\<rparr>"

lemma my_HTONS_involution: "my_HTONS (my_HTONS x) = x"
  by (rule bit_eqI) (auto simp: my_HTONS_def bit_simps)

lemma halves_16:
  "ucast (push_bit 16 (ucast (a :: 16 word)) OR ucast (b :: 16 word) :: 32 word) = b"
  "ucast (drop_bit 16 (push_bit 16 (ucast (a :: 16 word)) OR ucast (b :: 16 word) :: 32 word)) = a"
  "push_bit 16 (ucast (ucast (drop_bit 16 (x :: 32 word)) :: 16 word)) OR ucast (ucast x :: 16 word) = x"
  by (rule bit_eqI; auto simp: bit_simps dest: bit_imp_le_length)+

lemma my_HTONL_involution: "my_HTONL (my_HTONL x) = x"
  unfolding my_HTONL_def halves_16 my_HTONS_involution by (rule refl)

lemma halves_32:
  "ucast ((push_bit 32 (ucast (a :: 32 word)) OR ucast (b :: 32 word) :: 64 word) AND 0xFFFFFFFF) = b"
  "ucast (drop_bit 32 (push_bit 32 (ucast (a :: 32 word)) OR ucast (b :: 32 word) :: 64 word)) = a"
  "push_bit 32 (ucast (ucast (drop_bit 32 (x :: 64 word)) :: 32 word)) OR ucast (ucast (x AND 0xFFFFFFFF) :: 32 word) = x"
proof -
  have m: "(0xFFFFFFFF :: 64 word) = mask 32" by (simp add: mask_eq_exp_minus_1)
  show "ucast ((push_bit 32 (ucast a) OR ucast b :: 64 word) AND 0xFFFFFFFF) = b"
    "ucast (drop_bit 32 (push_bit 32 (ucast a) OR ucast b :: 64 word)) = a"
    "push_bit 32 (ucast (ucast (drop_bit 32 x) :: 32 word)) OR ucast (ucast (x AND 0xFFFFFFFF) :: 32 word) = x"
    unfolding m by (rule bit_eqI; auto simp: bit_simps dest: bit_imp_le_length)+
qed

lemma my_NTOHLL_involution: "my_NTOHLL (my_NTOHLL x) = x"
  unfolding my_NTOHLL_def my_NTOHL_def halves_32 my_HTONL_involution by (rule refl)

lemma wild_entry: "entry_at wild_book 0 = \<lparr>pe_hash = my_NTOHLL (pos_hash small_game), pe_move = 0x3403, pe_weight = 0x0100, pe_learn = 0\<rparr>"
  by (simp add: entry_at_def wild_book_def)

lemma wild_book_ok: "book_ok wild_book"
proof -
  have "bk_size wild_book = 1" "bk_open wild_book" by (simp_all add: wild_book_def)
  moreover have "read_entry wild_book 0 \<noteq> None" by (simp add: wild_book_def)
  moreover have "i = 0" if "0 \<le> i" "i < 1" for i :: int using that by simp
  ultimately show ?thesis unfolding book_ok_def by (metis order.strict_trans1 order_antisym_conv order_refl zle_iff_zadd int_one_le_iff_zero_less not_le)
qed

lemma wild_entries: "entries_of wild_book small_game = {0}"
proof -
  have "entry_hash (entry_at wild_book 0) = pos_hash small_game" by (simp add: wild_entry entry_hash_def my_NTOHLL_involution)
  moreover have "bk_size wild_book = 1" by (simp add: wild_book_def)
  ultimately show ?thesis unfolding entries_of_def by auto
qed

lemma wild_pieces: "piece_on small_game 12 = Some \<lparr>p_type = PAWN, p_color = WHITE\<rparr>" "piece_on small_game 52 = None"
  "piece_type_on small_game 12 = Some PAWN"
proof -
  show on: "piece_on small_game 12 = Some \<lparr>p_type = PAWN, p_color = WHITE\<rparr>"
    using piece_on_Some [OF small_ok(1), of 12] by (simp add: on_board_def pawn_game_has)
  show "piece_on small_game 52 = None"
    using piece_type_on_None [OF small_ok(1), of 52] by (simp add: piece_on_def piece_from_def on_board_def pawn_game_free split: option.split)
  show "piece_type_on small_game 12 = Some PAWN"
    using on by (simp add: piece_on_def piece_from_def split: option.splits)
qed

lemma wild_move: "entry_move (entry_at wild_book 0) small_game = Inr (mk_move 12 52 NORMAL)"
proof -
  have "my_NTOHS 0x3403 = 0x0334" by code_simp
  moreover have "uint ((0x0334 :: 16 word) AND 7) + 8 * uint (drop_bit 3 (0x0334 :: 16 word) AND 7) = 52"
    "uint (drop_bit 6 (0x0334 :: 16 word) AND 7) + 8 * uint (drop_bit 9 (0x0334 :: 16 word) AND 7) = 12"
    "uint (drop_bit 12 (0x0334 :: 16 word) AND 7) = 0" by code_simp+
  ultimately show ?thesis
    by (simp add: wild_entry entry_move_def convert_polyglot_move_def king_takes_rook_def plain_polyglot_move_def
        wild_pieces sq_rank_div Let_def)
qed

text \<open>C25 (functional). In a sorted book that can be read the lookup always ends, and its answer is right: no move only when no
  entry has the hash of the position; a move only of an entry of the position whose weight no legal move of another entry
  of the position exceeds; a fault only when the move of an entry of the position cannot be converted.\<close>

theorem book_query_is_right:
  assumes "book_ok b"
  shows "query_answer b p (query b p)"
proof -
  have "query_answer b p (query_loop b p 0 (bk_size b))"
    by (rule query_loop_answers [OF assms]) (auto simp: entries_of_def)
  then show ?thesis using assms by (simp add: query_def book_ok_def)
qed

theorem book_query_is_right_witness: "query_answer wild_book small_game (query wild_book small_game)"
  by (rule book_query_is_right [OF wild_book_ok])

text \<open>The entry the binary search meets first is not checked: when a book has one entry with the hash of a position,
  its move is the answer, whether it is legal there or not (a collision, or a damaged book).\<close>

theorem first_book_entry_is_unchecked:
  assumes "book_ok b" "entries_of b p = {i}" "entry_move (entry_at b i) p = Inr m"
  shows "query b p = Inr (Some m)"
proof -
  have "query_answer b p (query_loop b p 0 (bk_size b))"
    by (rule query_loop_answers [OF assms(1)]) (auto simp: entries_of_def)
  then have "query_answer b p (query b p)" using assms(1) by (simp add: query_def book_ok_def)
  then show ?thesis using assms(2,3) by (cases "query b p" rule: sum.exhaust; cases "projr (query b p)") auto
qed

theorem first_book_entry_is_unchecked_witness:
  "query wild_book small_game = Inr (Some (mk_move 12 52 NORMAL)) \<and> \<not> is_legal_move small_game (mk_move 12 52 NORMAL)"
proof
  show "query wild_book small_game = Inr (Some (mk_move 12 52 NORMAL))"
    by (rule first_book_entry_is_unchecked [OF wild_book_ok wild_entries wild_move])
  have "\<not> pseudo_legal_pawn small_game WHITE 12 52"
    by (simp add: pseudo_legal_pawn_def Let_def pawn_shift_def pawn_game_fields)
      (rule bit_eqI, auto simp: bit_and_iff)
  then show "\<not> is_legal_move small_game (mk_move 12 52 NORMAL)"
    using mk_move_fields [of 12 52 NORMAL] by (simp add: is_legal_move_def Let_def wild_pieces on_board_def)
qed

end
