(* ===== verification/San.thy ===== *)
theory San
  imports Exchange Fair_Play Texts
begin

text \<open>
  Moves in algebraic notation (\<open>san.cpp\<close>): \<open>SAN_to_move\<close> reads a text against the legal moves of a position,
  \<open>move_to_san\<close> writes one.  \<open>string::at\<close> beyond the end and \<open>value()\<close> of an empty optional are faults.
\<close>

section \<open>Reading\<close>

datatype san_fault = Beyond_end | No_value

definition find_char :: "char \<Rightarrow> string \<Rightarrow> nat option" where
  "find_char c s = (let n = length (takeWhile (\<lambda>d. d \<noteq> c) s) in if n < length s then Some n else None)"

definition upto_char :: "char \<Rightarrow> string \<Rightarrow> string" where
  "upto_char c s = (case find_char c s of None \<Rightarrow> s | Some i \<Rightarrow> take i s)"

text \<open>A \<open>char\<close> is signed.\<close>

definition char_value :: "char \<Rightarrow> int" where
  "char_value c = (if (of_char c :: int) \<ge> 128 then of_char c - 256 else of_char c)"

definition minus_char :: "char \<Rightarrow> char \<Rightarrow> int" where
  "minus_char c d = char_value c - char_value d"

record san_want =
  w_type :: piece_type
  w_promote_to :: "piece_type option"
  w_fx :: int
  w_fy :: int
  w_tx :: int
  w_ty :: int

definition san_castling :: "position \<Rightarrow> int \<Rightarrow> move" where
  "san_castling p file =
     (let base_line = (if pos_side_to_move p = WHITE then 0 else 7)
      in mk_move (the (sq_from (Some 4) (Some base_line))) (the (sq_from (Some file) (Some base_line))) CASTLING)"

definition san_promotion :: "piece_type \<Rightarrow> string \<Rightarrow> san_fault + piece_type option \<times> string" where
  "san_promotion pt s =
     (if pt = PAWN then
        (case find_char (CHR ''='') s of
           None \<Rightarrow> Inr (None, s)
         | Some i \<Rightarrow>
             if i + 1 < length s then
               (case pt_from (s ! (i + 1)) of None \<Rightarrow> Inl No_value | Some promote_to \<Rightarrow> Inr (Some promote_to, take i s))
             else Inl Beyond_end)
      else Inr (None, s))"

definition san_split :: "string \<Rightarrow> string \<times> string" where
  "san_split s =
     (case (case find_char (CHR ''x'') s of None \<Rightarrow> find_char (CHR ''X'') s | Some x \<Rightarrow> Some x) of
        Some x \<Rightarrow> (take x s, drop (x + 1) s)
      | None \<Rightarrow> if length s > 2 then (take (length s - 2) s, drop (length s - 2) s) else ([], s))"

definition san_from :: "string \<Rightarrow> int \<times> int" where
  "san_from s =
     (case s of
        [c, d] \<Rightarrow> (minus_char c (CHR ''a''), minus_char d (CHR ''1''))
      | [c] \<Rightarrow> if is_digit c then (-1, minus_char c (CHR ''1'')) else (minus_char c (CHR ''a''), -1)
      | _ \<Rightarrow> (-1, -1))"

definition san_matches :: "position \<Rightarrow> san_want \<Rightarrow> move \<Rightarrow> san_fault + bool" where
  "san_matches p w m =
     (if sq_file (to_square m) \<noteq> w_tx w \<or> sq_rank (to_square m) \<noteq> w_ty w then Inr False
      else if w_fx w \<noteq> -1 \<and> sq_file (from_square m) \<noteq> w_fx w then Inr False
      else if w_fy w \<noteq> -1 \<and> sq_rank (from_square m) \<noteq> w_fy w then Inr False
      else (case piece_on p (from_square m) of
              None \<Rightarrow> Inl No_value
            | Some pc \<Rightarrow> Inr (p_type pc = w_type w \<and> w_promote_to w = promotion_piece_type m)))"

fun san_find :: "position \<Rightarrow> san_want \<Rightarrow> move list \<Rightarrow> san_fault + move option" where
  "san_find p w [] = Inr None"
| "san_find p w (m # ms) =
     (case san_matches p w m of Inl f \<Rightarrow> Inl f | Inr matches \<Rightarrow> if matches then Inr (Some m) else san_find p w ms)"

definition san_lookup :: "position \<Rightarrow> piece_type \<Rightarrow> string \<Rightarrow> san_fault + move option" where
  "san_lookup p pt s =
     (case san_promotion pt s of
        Inl f \<Rightarrow> Inl f
      | Inr (promote_to, s) \<Rightarrow>
          if pt = PAWN \<and> s = [] then Inr None
          else
            let (from, to) = san_split s in
            if length to < 2 then Inr None
            else
              let (fx, fy) = san_from from
              in san_find p \<lparr>w_type = pt, w_promote_to = promote_to, w_fx = fx, w_fy = fy,
                   w_tx = minus_char (to ! 0) (CHR ''a''), w_ty = minus_char (to ! 1) (CHR ''1'')\<rparr> (legal_move_list p))"

definition SAN_to_move :: "string \<Rightarrow> position \<Rightarrow> san_fault + move option" where
  "SAN_to_move san_move p =
     (let s = upto_char (CHR ''#'') (upto_char (CHR ''+'') san_move)
      in if s = ''o-o'' then Inr (Some (san_castling p 6))
         else if s = ''o-o-o'' then Inr (Some (san_castling p 2))
         else (case s of
                 [] \<Rightarrow> Inl Beyond_end
               | c # rest \<Rightarrow>
                   if is_upper c then (case pt_from c of None \<Rightarrow> Inr None | Some pt \<Rightarrow> san_lookup p pt rest)
                   else san_lookup p PAWN s))"

text \<open>The first legal move with the squares and the promotion of a given one.\<close>

definition validate_move :: "move \<Rightarrow> position \<Rightarrow> move option" where
  "validate_move m p = find (\<lambda>current_move.
     sq_file (to_square current_move) = sq_file (to_square m) \<and> sq_rank (to_square current_move) = sq_rank (to_square m) \<and>
     sq_file (from_square current_move) = sq_file (from_square m) \<and> sq_rank (from_square current_move) = sq_rank (from_square m) \<and>
     promotion_piece_type m = promotion_piece_type current_move) (legal_move_list p)"

section \<open>Writing\<close>

fun count_to_square :: "position \<Rightarrow> piece_type \<Rightarrow> int \<Rightarrow> nat \<Rightarrow> move list \<Rightarrow> bool" where
  "count_to_square p pt sq n [] = False"
| "count_to_square p pt sq n (m # ms) =
     (if to_square m = sq \<and> map_option p_type (piece_on p (from_square m)) = Some pt
      then if n + 1 \<ge> 2 then True else count_to_square p pt sq (n + 1) ms
      else count_to_square p pt sq n ms)"

definition multiple_moves_to_square :: "position \<Rightarrow> piece_type \<Rightarrow> int \<Rightarrow> bool" where
  "multiple_moves_to_square p pt sq = count_to_square p pt sq 0 (legal_move_list p)"

definition pawn_san :: "move \<Rightarrow> san_fault + string" where
  "pawn_san m =
     (let takes = (if move_type m = CAPTURE \<or> move_type m = CAPTURE_PROMOTION
                   then [file_to_char (sq_file (from_square m)), CHR ''x''] else []);
          san = takes @ [file_to_char (sq_file (to_square m)), rank_to_char (sq_rank (to_square m))]
      in if move_type m = CAPTURE_PROMOTION then
           (case promotion_piece_type m of None \<Rightarrow> Inl No_value | Some pt \<Rightarrow> Inr (san @ [CHR ''='', to_upper (pt_to_char pt)]))
         else Inr san)"

definition piece_san :: "position \<Rightarrow> piece \<Rightarrow> move \<Rightarrow> string" where
  "piece_san p pc m =
     (let is_capture = is_capture_move m;
          origin = (if multiple_moves_to_square p (p_type pc) (to_square m) \<or> is_capture
                    then [file_to_char (sq_file (from_square m)), rank_to_char (sq_rank (from_square m))] @
                      (if is_capture then [CHR ''x''] else [])
                    else [])
      in [to_upper (piece_to_char pc)] @ origin @
         [file_to_char (sq_file (to_square m)), rank_to_char (sq_rank (to_square m))] @
         (if in_check (make_move m p) then [CHR ''+''] else []))"

definition move_to_san :: "position \<Rightarrow> move \<Rightarrow> san_fault + string" where
  "move_to_san p m =
     (if move_type m = CASTLING then Inr (if sq_file (to_square m) = 6 then ''O-O'' else ''O-O-O'')
      else (case piece_on p (from_square m) of
              None \<Rightarrow> Inl No_value
            | Some pc \<Rightarrow> if p_type pc = PAWN then pawn_san m else Inr (piece_san p pc m)))"

section \<open>The letters\<close>

lemma file_letters: "map file_to_char [0, 1, 2, 3, 4, 5, 6, 7] = ''abcdefgh''"
  by code_simp

lemma rank_letters: "map rank_to_char [0, 1, 2, 3, 4, 5, 6, 7] = ''12345678''"
  by code_simp

lemma letter_kinds: "list_all (\<lambda>c. \<not> is_upper c \<and> \<not> is_digit c) ''abcdefgh''"
  by code_simp

lemma letter_values: "map (\<lambda>c. minus_char c (CHR ''a'')) ''abcdefgh'' = [0, 1, 2, 3, 4, 5, 6, 7]"
  "map (\<lambda>c. minus_char c (CHR ''1'')) ''12345678'' = [0, 1, 2, 3, 4, 5, 6, 7]"
  by code_simp+

lemma file_letter:
  assumes "0 \<le> f" "f < 8"
  shows "file_to_char f \<noteq> CHR ''+''" "file_to_char f \<noteq> CHR ''#''" "file_to_char f \<noteq> CHR ''x''" "file_to_char f \<noteq> CHR ''X''"
    "file_to_char f \<noteq> CHR ''=''" "file_to_char f \<noteq> CHR ''o''" "\<not> is_upper (file_to_char f)" "\<not> is_digit (file_to_char f)"
    "minus_char (file_to_char f) (CHR ''a'') = f"
  using assms file_letters letter_kinds letter_values(1) by (cases rule: upto_7_cases; simp)+

lemma rank_letter:
  assumes "0 \<le> r" "r < 8"
  shows "rank_to_char r \<noteq> CHR ''+''" "rank_to_char r \<noteq> CHR ''#''" "rank_to_char r \<noteq> CHR ''x''" "rank_to_char r \<noteq> CHR ''X''"
    "rank_to_char r \<noteq> CHR ''=''" "minus_char (rank_to_char r) (CHR ''1'') = r"
  using assms rank_letters letter_values(2) by (cases rule: upto_7_cases; simp)+

lemma piece_letter:
  "is_upper (to_upper (piece_to_char pc))" "pt_from (to_upper (piece_to_char pc)) = Some (p_type pc)"
  "to_upper (piece_to_char pc) \<noteq> CHR ''+''" "to_upper (piece_to_char pc) \<noteq> CHR ''#''" "to_upper (piece_to_char pc) \<noteq> CHR ''o''"
  "pt_from (to_upper (pt_to_char pt)) = Some pt" "to_upper (pt_to_char pt) \<noteq> CHR ''+''" "to_upper (pt_to_char pt) \<noteq> CHR ''#''"
proof -
  have l: "map (\<lambda>t. to_upper (pt_to_char t)) [PAWN, KNIGHT, BISHOP, ROOK, QUEEN, KING] = ''PNBRQK''"
    "map (\<lambda>t. to_upper (to_upper (pt_to_char t))) [PAWN, KNIGHT, BISHOP, ROOK, QUEEN, KING] = ''PNBRQK''"
    "map (\<lambda>t. to_upper (to_lower (pt_to_char t))) [PAWN, KNIGHT, BISHOP, ROOK, QUEEN, KING] = ''PNBRQK''"
    "list_all is_upper ''PNBRQK''" by code_simp+
  have t: "is_upper (to_upper (pt_to_char t)) \<and> pt_from (to_upper (pt_to_char t)) = Some t \<and>
      to_upper (pt_to_char t) \<notin> {CHR ''+'', CHR ''#'', CHR ''o''}" for t
    using l(1,4) by (cases t) (simp_all add: pt_from_def)
  have "to_upper (to_upper (pt_to_char t)) = to_upper (pt_to_char t)" "to_upper (to_lower (pt_to_char t)) = to_upper (pt_to_char t)" for t
    using l(1-3) by (cases t; simp)+
  then have "to_upper (piece_to_char pc) = to_upper (pt_to_char (p_type pc))" by (simp add: piece_to_char_def Let_def)
  then show "is_upper (to_upper (piece_to_char pc))" "pt_from (to_upper (piece_to_char pc)) = Some (p_type pc)"
    "to_upper (piece_to_char pc) \<noteq> CHR ''+''" "to_upper (piece_to_char pc) \<noteq> CHR ''#''" "to_upper (piece_to_char pc) \<noteq> CHR ''o''"
    "pt_from (to_upper (pt_to_char pt)) = Some pt" "to_upper (pt_to_char pt) \<noteq> CHR ''+''" "to_upper (pt_to_char pt) \<noteq> CHR ''#''"
    using t by simp_all
qed

lemmas letters = file_letter [OF sq_file_range(1,2)] rank_letter [OF sq_rank_range] piece_letter

section \<open>Which move a text can mean\<close>

text \<open>The squares and the promotion make a move.\<close>

lemma chess_move_unique:
  assumes "game_ok p" "chess_move p (pos_side_to_move p) m" "chess_move p (pos_side_to_move p) x" "same_fields x m"
  shows "x = m"
proof -
  have ok: "board_ok p" "rights_ok p" "ep_ok p" using assms(1) by (simp_all add: game_ok_def pos_ok_def)
  obtain f t pt ty where m: "on_board f" "on_board t" "pt \<noteq> KING" "m = mk_move_promo f t pt ty"
    by (rule chess_move_form [OF assms(2)])
  obtain g u qt uy where x: "on_board g" "on_board u" "qt \<noteq> KING" "x = mk_move_promo g u qt uy"
    by (rule chess_move_form [OF assms(3)])
  let ?n = "mk_move_promo f t pt NONE"
  note F = mk_move_promo_fields [OF m(1,2)] mk_move_promo_fields [OF x(1,2)]
  have "same_fields ?n m" "same_fields ?n x" "move_type ?n = NONE"
    using assms(4) by (simp_all add: same_fields_def m(4) x(4) F)
  then have "move_type m = move_type x"
    using type_recovered [OF ok assms(2) _ _ refl] type_recovered [OF ok assms(3) _ _ refl] by metis
  then show ?thesis using assms(4) m(3) x(3) by (auto simp: same_fields_def m(4) x(4) F split: if_splits)
qed

text \<open>The moves of a pawn.\<close>

lemma pawn_move_cases:
  assumes "board_ok p" "rights_ok p" "c = pos_side_to_move p" "chess_move p c m" "has p (from_square m) PAWN c"
  obtains (step) "free p (to_square m)" "to_square m = pawn_shift (from_square m) c 1" "move_type m \<in> {NORMAL, PROMOTION}"
      "relative_rank (sq_rank (from_square m)) c = 6 \<longleftrightarrow> promotion_piece_type m \<noteq> None"
      "move_type m = PROMOTION \<longleftrightarrow> promotion_piece_type m \<noteq> None"
  | (double) "free p (to_square m)" "to_square m = pawn_shift (from_square m) c 2" "move_type m = DOUBLE_PUSH"
      "free p (pawn_shift (from_square m) c 1)" "promotion_piece_type m = None" "relative_rank (sq_rank (from_square m)) c = 1"
  | (takes) "enemy p (to_square m) c" "pawn_sees (from_square m) c (to_square m)" "move_type m \<in> {CAPTURE, CAPTURE_PROMOTION}"
      "move_type m = CAPTURE_PROMOTION \<longleftrightarrow> promotion_piece_type m \<noteq> None"
  | (passes) "enpassant_square p = Some (to_square m)" "move_type m = ENPASSANT" "promotion_piece_type m = None"
proof -
  note K = promotion_types_proper
  from assms(4) consider "piece_move p c m" | "pawn_push p c m" | "pawn_capture p c m" | "castle_move p c m"
    by (auto simp: chess_move_def)
  then show thesis
  proof cases
    case 1
    then obtain pt f t where h: "on_board f" "on_board t" "has p f pt c" "sees pt (occupancy_bb p) f t" "from_square m = f"
      unfolding piece_move_def using mk_move_fields(1) by metis
    then have "pt = PAWN" using has_unique [OF assms(1,5), of pt c] by simp
    then show thesis using h(4) by simp
  next
    case 2
    then obtain f t where h: "on_board f" "on_board t" "free p t"
      "t = pawn_shift f c 1 \<and> (if relative_rank (sq_rank f) c = 6
           then \<exists>pt\<in>set promotion_types. m = mk_move_promo f t pt PROMOTION else m = mk_move f t NORMAL) \<or>
       t = pawn_shift f c 2 \<and> relative_rank (sq_rank f) c = 1 \<and> free p (pawn_shift f c 1) \<and> m = mk_move f t DOUBLE_PUSH"
      unfolding pawn_push_def by blast
    note F = mk_move_fields [OF h(1,2)] mk_move_promo_fields [OF h(1,2)]
    from h(4) consider pt where "relative_rank (sq_rank f) c = 6" "t = pawn_shift f c 1" "pt \<in> set promotion_types" "m = mk_move_promo f t pt PROMOTION"
      | "relative_rank (sq_rank f) c \<noteq> 6" "t = pawn_shift f c 1" "m = mk_move f t NORMAL"
      | "t = pawn_shift f c 2" "relative_rank (sq_rank f) c = 1" "free p (pawn_shift f c 1)" "m = mk_move f t DOUBLE_PUSH"
      by (auto split: if_splits)
    then show thesis
    proof cases
      case (1 pt)
      show thesis by (rule step) (use 1 h(3) F K [OF 1(3)] in simp_all)
    next
      case 2
      show thesis by (rule step) (use 2 h(3) F in simp_all)
    next
      case 3
      show thesis by (rule double) (use 3 h(3) F in simp_all)
    qed
  next
    case 3
    then obtain f t where h: "on_board f" "on_board t" "pawn_sees f c t"
      "enemy p t c \<and> (if relative_rank (sq_rank f) c = 6
           then \<exists>pt\<in>set promotion_types. m = mk_move_promo f t pt CAPTURE_PROMOTION else m = mk_move f t CAPTURE) \<or>
       enpassant_square p = Some t \<and> m = mk_move f t ENPASSANT"
      unfolding pawn_capture_def by blast
    note F = mk_move_fields [OF h(1,2)] mk_move_promo_fields [OF h(1,2)]
    from h(4) consider pt where "enemy p t c" "pt \<in> set promotion_types" "m = mk_move_promo f t pt CAPTURE_PROMOTION"
      | "enemy p t c" "m = mk_move f t CAPTURE" | "enpassant_square p = Some t" "m = mk_move f t ENPASSANT"
      by (auto split: if_splits)
    then show thesis
    proof cases
      case (1 pt)
      show thesis by (rule takes) (use 1 h(3) F K [OF 1(2)] in simp_all)
    next
      case 2
      show thesis by (rule takes) (use 2 h(3) F in simp_all)
    next
      case 3
      show thesis by (rule passes) (use 3 F in simp_all)
    qed
  next
    case 4
    then have "has p (from_square m) KING c"
      by (cases rule: castle_move_cases) (use assms(2,3) in \<open>simp_all add: rights_ok_def mk_move_fields on_board_def\<close>)
    then show thesis using has_unique [OF assms(1,5)] by blast
  qed
qed

text \<open>An advance names its square; a capture its file and its square.\<close>

definition advance :: "position \<Rightarrow> color \<Rightarrow> move \<Rightarrow> bool" where
  "advance p c m \<longleftrightarrow> free p (to_square m) \<and>
     (to_square m = pawn_shift (from_square m) c 1 \<and> (relative_rank (sq_rank (from_square m)) c = 6 \<longleftrightarrow> promotion_piece_type m \<noteq> None) \<or>
      to_square m = pawn_shift (from_square m) c 2 \<and> free p (pawn_shift (from_square m) c 1) \<and>
        relative_rank (sq_rank (from_square m)) c = 1 \<and> promotion_piece_type m = None)"

lemma enemy_not_free: "enemy p t c \<Longrightarrow> \<not> free p t"
  by (auto simp: enemy_def free_def bit_occupancy)

lemma shift_back: "pawn_shift (pawn_shift f c 1) (opp c) 1 = f" "pawn_shift (pawn_shift f c 2) (opp c) 1 = pawn_shift f c 1"
  by (cases c; simp add: pawn_shift_def)+

lemma shift_same: "pawn_shift f c 1 = pawn_shift g c 1 \<longleftrightarrow> f = g" "pawn_shift f c 2 = pawn_shift g c 2 \<longleftrightarrow> f = g"
  "pawn_shift f c 1 = pawn_shift g c 2 \<longleftrightarrow> f = pawn_shift g c 1" "pawn_shift g c 2 = pawn_shift f c 1 \<longleftrightarrow> f = pawn_shift g c 1"
  by (cases c; auto simp: pawn_shift_def)+

lemma advance_of:
  assumes "board_ok p" "rights_ok p" "c = pos_side_to_move p" "chess_move p c m" "has p (from_square m) PAWN c"
    and "move_type m \<in> {NORMAL, DOUBLE_PUSH, PROMOTION} \<or> free p (to_square m) \<and> enpassant_square p \<noteq> Some (to_square m)"
  shows "advance p c m"
proof (cases rule: pawn_move_cases [OF assms(1-5)])
  case 1
  then show ?thesis by (simp add: advance_def)
next
  case 2
  then show ?thesis by (simp add: advance_def)
next
  case 3
  then show ?thesis using assms(6) enemy_not_free by auto
next
  case 4
  then show ?thesis using assms(6) by simp
qed

lemma advance_victim:
  assumes "board_ok p" "ep_ok p" "c = pos_side_to_move p" "has p (from_square m) PAWN c" "advance p c m"
  shows "enpassant_square p \<noteq> Some (to_square m)"
proof
  assume e: "enpassant_square p = Some (to_square m)"
  have v: "has p (pawn_shift (to_square m) (opp c) 1) PAWN (opp c)" using assms(2,3) e by (simp add: ep_ok_def ep_victim_shift)
  have "pawn_shift (to_square m) (opp c) 1 = from_square m \<or> free p (pawn_shift (to_square m) (opp c) 1)"
    using assms(5) unfolding advance_def by (auto simp: shift_back)
  then show False
    using has_unique [OF assms(1) v, of PAWN c] free_iff [OF assms(1)] v assms(4) opp_simps(5) [of c] by metis
qed

lemma advance_unique:
  assumes "board_ok p" "has p (from_square m) PAWN c" "has p (from_square x) PAWN c" "advance p c m" "advance p c x"
    and "to_square x = to_square m"
  shows "from_square x = from_square m" "promotion_piece_type m \<noteq> None \<longleftrightarrow> promotion_piece_type x \<noteq> None"
proof -
  have nf: "\<not> free p (from_square m)" "\<not> free p (from_square x)" using assms(2,3) free_iff [OF assms(1)] by blast+
  then show f: "from_square x = from_square m"
    using assms(4-6) unfolding advance_def by (auto simp: shift_same)
  show "promotion_piece_type m \<noteq> None \<longleftrightarrow> promotion_piece_type x \<noteq> None"
    using assms(4-6) unfolding advance_def f by (auto simp: shift_same)
qed

lemma capture_unique:
  assumes "board_ok p" "rights_ok p" "ep_ok p" "c = pos_side_to_move p" "chess_move p c m" "has p (from_square m) PAWN c"
    and "move_type m \<in> {CAPTURE, CAPTURE_PROMOTION}"
    and "chess_move p c x" "has p (from_square x) PAWN c" "to_square x = to_square m"
    and "sq_file (from_square x) = sq_file (from_square m)"
  shows "from_square x = from_square m"
proof -
  have m: "enemy p (to_square m) c \<and> pawn_sees (from_square m) c (to_square m)"
    by (cases rule: pawn_move_cases [OF assms(1,2,4,5,6)]) (use assms(7) in auto)
  have nf: "\<not> free p (to_square x)" "enpassant_square p \<noteq> Some (to_square x)"
    using enemy_not_free [of p "to_square m" c] m assms(3,10) by (auto simp: ep_ok_def)
  have "pawn_sees (from_square x) c (to_square x)"
    by (cases rule: pawn_move_cases [OF assms(1,2,4,8,9)]) (use nf in auto)
  then have "sq_rank (from_square x) = sq_rank (from_square m)" using m assms(10) by (cases c) (auto simp: pawn_sees_def)
  with assms(11) show ?thesis by (rule sq_coords_eqI)
qed

section \<open>Finding the move of a text\<close>

lemma san_find_unique:
  assumes "m \<in> set ms" "san_matches p w m = Inr True" "\<forall>x \<in> set ms. \<exists>b. san_matches p w x = Inr b \<and> (b \<longrightarrow> x = m)"
  shows "san_find p w ms = Inr (Some m)"
  using assms by (induction ms) auto

lemma san_find_none: "\<forall>x \<in> set ms. san_matches p w x = Inr False \<Longrightarrow> san_find p w ms = Inr None"
  by (induction ms) auto

lemma san_matches_on:
  assumes "piece_on p (from_square x) = Some pc"
  shows "san_matches p w x = Inr (sq_file (to_square x) = w_tx w \<and> sq_rank (to_square x) = w_ty w \<and>
    (w_fx w = -1 \<or> sq_file (from_square x) = w_fx w) \<and> (w_fy w = -1 \<or> sq_rank (from_square x) = w_fy w) \<and>
    p_type pc = w_type w \<and> w_promote_to w = promotion_piece_type x)"
  using assms by (auto simp: san_matches_def)

lemma legal_piece:
  assumes "game_ok p" "x \<in> set (legal_move_list p)"
  obtains pt where "has p (from_square x) pt (pos_side_to_move p)"
    "piece_on p (from_square x) = Some \<lparr>p_type = pt, p_color = pos_side_to_move p\<rparr>"
proof -
  have "board_ok p" using assms(1) by (simp add: game_ok_def pos_ok_def)
  moreover have "\<exists>pt. has p (from_square x) pt (pos_side_to_move p)"
    using legal_move_fits(1) [OF assms] unfolding move_fits_def move_ok_def Let_def
    by (cases "move_type_of p x") auto
  ultimately show thesis using that piece_on_Some by (metis from_square_on_board)
qed

lemma san_found:
  assumes "game_ok p" "m \<in> set (legal_move_list p)" "has p (from_square m) pt (pos_side_to_move p)"
    and "fx = -1 \<or> fx = sq_file (from_square m)" "fy = -1 \<or> fy = sq_rank (from_square m)"
    and uniq: "\<And>x. x \<in> set (legal_move_list p) \<Longrightarrow> has p (from_square x) pt (pos_side_to_move p) \<Longrightarrow> to_square x = to_square m \<Longrightarrow>
      promotion_piece_type x = promotion_piece_type m \<Longrightarrow> fx = -1 \<or> sq_file (from_square x) = fx \<Longrightarrow>
      fy = -1 \<or> sq_rank (from_square x) = fy \<Longrightarrow> from_square x = from_square m"
  shows "san_find p \<lparr>w_type = pt, w_promote_to = promotion_piece_type m, w_fx = fx, w_fy = fy,
    w_tx = sq_file (to_square m), w_ty = sq_rank (to_square m)\<rparr> (legal_move_list p) = Inr (Some m)"
    (is "san_find p ?w _ = _")
proof (rule san_find_unique [OF assms(2)])
  have ok: "board_ok p" using assms(1) by (simp add: game_ok_def pos_ok_def)
  have "piece_on p (from_square m) = Some \<lparr>p_type = pt, p_color = pos_side_to_move p\<rparr>"
    using piece_on_Some [OF ok from_square_on_board] assms(3) by blast
  then show "san_matches p ?w m = Inr True" using assms(4,5) by (auto simp: san_matches_on)
  show "\<forall>x \<in> set (legal_move_list p). \<exists>b. san_matches p ?w x = Inr b \<and> (b \<longrightarrow> x = m)"
  proof
    fix x
    assume x: "x \<in> set (legal_move_list p)"
    obtain qt where q: "has p (from_square x) qt (pos_side_to_move p)"
      "piece_on p (from_square x) = Some \<lparr>p_type = qt, p_color = pos_side_to_move p\<rparr>"
      by (rule legal_piece [OF assms(1) x])
    have "x = m" if b: "sq_file (to_square x) = sq_file (to_square m)" "sq_rank (to_square x) = sq_rank (to_square m)"
        "fx = -1 \<or> sq_file (from_square x) = fx" "fy = -1 \<or> sq_rank (from_square x) = fy" "qt = pt"
        "promotion_piece_type m = promotion_piece_type x"
    proof (rule chess_move_unique [OF assms(1) legal_move_fits(2) [OF assms(1,2)] legal_move_fits(2) [OF assms(1) x]])
      have "to_square x = to_square m" by (rule sq_coords_eqI [OF b(1,2)])
      then show "same_fields x m" using uniq [OF x] q(1) b by (simp add: same_fields_def)
    qed
    then show "\<exists>b. san_matches p ?w x = Inr b \<and> (b \<longrightarrow> x = m)" using q(2) by (simp add: san_matches_on)
  qed
qed

text \<open>What the texts ask for.\<close>

lemma find_char_simps: "find_char c [] = None" "find_char c (d # s) = (if d = c then Some 0 else map_option Suc (find_char c s))"
  by (simp_all add: find_char_def Let_def)

lemmas read_san = SAN_to_move_def upto_char_def find_char_simps san_lookup_def san_promotion_def san_split_def san_from_def Let_def letters

abbreviation square_text :: "int \<Rightarrow> string" where
  "square_text s \<equiv> [file_to_char (sq_file s), rank_to_char (sq_rank s)]"

abbreviation want :: "position \<Rightarrow> piece_type \<Rightarrow> piece_type option \<Rightarrow> int \<Rightarrow> int \<Rightarrow> int \<Rightarrow> san_fault + move option" where
  "want p pt promote fx fy t \<equiv> san_find p \<lparr>w_type = pt, w_promote_to = promote, w_fx = fx, w_fy = fy,
     w_tx = sq_file t, w_ty = sq_rank t\<rparr> (legal_move_list p)"

lemma read_advance: "on_board t \<Longrightarrow> SAN_to_move (square_text t) p = want p PAWN None (-1) (-1) t"
  by (simp add: read_san)

lemma read_pawn_takes:
  "on_board t \<Longrightarrow> SAN_to_move (file_to_char (sq_file f) # CHR ''x'' # square_text t) p = want p PAWN None (sq_file f) (-1) t"
  by (simp add: read_san)

lemma read_pawn_takes_promotes:
  "on_board t \<Longrightarrow> SAN_to_move (file_to_char (sq_file f) # CHR ''x'' # square_text t @ [CHR ''='', to_upper (pt_to_char pt)]) p =
     want p PAWN (Some pt) (sq_file f) (-1) t"
  by (simp add: read_san)

lemma read_piece:
  assumes "on_board t" "on_board f" "p_type pc \<noteq> PAWN" "check \<in> {[], ''+''}"
  shows "SAN_to_move (to_upper (piece_to_char pc) # square_text t @ check) p = want p (p_type pc) None (-1) (-1) t"
    "SAN_to_move (to_upper (piece_to_char pc) # square_text f @ square_text t @ check) p = want p (p_type pc) None (sq_file f) (sq_rank f) t"
    "SAN_to_move (to_upper (piece_to_char pc) # square_text f @ CHR ''x'' # square_text t @ check) p = want p (p_type pc) None (sq_file f) (sq_rank f) t"
proof -
  from assms(4) consider "check = []" | "check = ''+''" by auto
  then show "SAN_to_move (to_upper (piece_to_char pc) # square_text t @ check) p = want p (p_type pc) None (-1) (-1) t"
    "SAN_to_move (to_upper (piece_to_char pc) # square_text f @ square_text t @ check) p = want p (p_type pc) None (sq_file f) (sq_rank f) t"
    "SAN_to_move (to_upper (piece_to_char pc) # square_text f @ CHR ''x'' # square_text t @ check) p = want p (p_type pc) None (sq_file f) (sq_rank f) t"
    using assms(1-3) by (cases; simp add: read_san)+
qed

lemma two_members:
  assumes "x \<in> set ys" "y \<in> set ys" "x \<noteq> y"
  shows "2 \<le> length ys"
proof -
  have "card {x, y} \<le> card (set ys)" using assms(1,2) by (intro card_mono) auto
  then show ?thesis using assms(3) card_length [of ys] by simp
qed

lemma count_to_square_iff:
  "n < 2 \<Longrightarrow> count_to_square p pt sq n ms \<longleftrightarrow>
     2 \<le> n + length (List.filter (\<lambda>m. to_square m = sq \<and> map_option p_type (piece_on p (from_square m)) = Some pt) ms)"
  by (induction ms arbitrary: n) auto

lemma only_move_to_square:
  assumes "\<not> multiple_moves_to_square p pt (to_square m)" "board_ok p" "m \<in> set (legal_move_list p)" "x \<in> set (legal_move_list p)"
    and "has p (from_square m) pt c" "has p (from_square x) pt c" "to_square x = to_square m"
  shows "x = m"
proof (rule ccontr)
  assume ne: "x \<noteq> m"
  let ?there = "List.filter (\<lambda>m'. to_square m' = to_square m \<and> map_option p_type (piece_on p (from_square m')) = Some pt) (legal_move_list p)"
  have "piece_on p (from_square y) = Some \<lparr>p_type = pt, p_color = c\<rparr>" if "has p (from_square y) pt c" for y
    using that piece_on_Some [OF assms(2) from_square_on_board] by blast
  then have "x \<in> set ?there" "m \<in> set ?there" using assms(3-7) by simp_all
  then have "2 \<le> length ?there" using ne by (rule two_members)
  then show False using assms(1) by (simp add: multiple_moves_to_square_def count_to_square_iff)
qed

lemma piece_move_plain:
  assumes "piece_move p c m"
  shows "move_type m \<in> {NORMAL, CAPTURE} \<and> promotion_piece_type m = None"
  using assms unfolding piece_move_def by (elim exE conjE disjE) (simp_all add: mk_move_fields)

lemma pawn_mover:
  assumes "pawn_push p c m \<or> pawn_capture p c m"
  shows "has p (from_square m) PAWN c"
  using assms unfolding pawn_push_def pawn_capture_def by (auto simp: mk_move_fields mk_move_promo_fields split: if_splits)

lemma read_piece_san:
  assumes "game_ok p" "m \<in> set (legal_move_list p)" "has p (from_square m) pt (pos_side_to_move p)" "pt \<noteq> PAWN"
    and "promotion_piece_type m = None"
  shows "SAN_to_move (piece_san p \<lparr>p_type = pt, p_color = pos_side_to_move p\<rparr> m) p = Inr (Some m)"
proof -
  let ?pc = "\<lparr>p_type = pt, p_color = pos_side_to_move p\<rparr>"
  have ok: "board_ok p" using assms(1) by (simp add: game_ok_def pos_ok_def)
  let ?check = "if in_check (make_move m p) then ''+'' else []"
  show ?thesis
  proof (cases "multiple_moves_to_square p pt (to_square m) \<or> is_capture_move m")
    case True
    have "want p pt None (sq_file (from_square m)) (sq_rank (from_square m)) (to_square m) = Inr (Some m)"
      unfolding assms(5) [symmetric]
      by (rule san_found [OF assms(1-3)])
        (use sq_file_range(1) [of "from_square m"] sq_rank_range(1) [of "from_square m"] in \<open>auto intro: sq_coords_eqI\<close>)
    then show ?thesis using True assms(4) read_piece(2,3) [of "to_square m" "from_square m" ?pc ?check p]
      by (simp add: piece_san_def split del: if_split split: if_splits)
  next
    case False
    have "want p pt None (-1) (-1) (to_square m) = Inr (Some m)"
      unfolding assms(5) [symmetric]
      by (rule san_found [OF assms(1-3)])
        (use False only_move_to_square [OF _ ok assms(2) _ assms(3)] in auto)
    then show ?thesis using False assms(4) read_piece(1) [of "to_square m" "from_square m" ?pc ?check p]
      by (simp add: piece_san_def split del: if_split split: if_splits)
  qed
qed

lemma read_pawn_san:
  assumes "game_ok p" "m \<in> set (legal_move_list p)" "has p (from_square m) PAWN (pos_side_to_move p)"
    and "move_type m \<noteq> PROMOTION" "move_type m \<noteq> ENPASSANT"
  shows "\<exists>s. pawn_san m = Inr s \<and> SAN_to_move s p = Inr (Some m)"
proof -
  let ?c = "pos_side_to_move p"
  have ok: "board_ok p" "rights_ok p" "ep_ok p" using assms(1) by (simp_all add: game_ok_def pos_ok_def)
  note legal = legal_move_fits(2) [OF assms(1)]
  note cases = pawn_move_cases [OF ok(1,2) refl legal [OF assms(2)] assms(3)]
  have advance: ?thesis if a: "move_type m \<in> {NORMAL, DOUBLE_PUSH}" "promotion_piece_type m = None"
  proof -
    have ad: "advance p ?c m" by (rule advance_of [OF ok(1,2) refl legal [OF assms(2)] assms(3)]) (use a in auto)
    have ep: "enpassant_square p \<noteq> Some (to_square m)" by (rule advance_victim [OF ok(1,3) refl assms(3) ad])
    have "want p PAWN None (-1) (-1) (to_square m) = Inr (Some m)"
      unfolding a(2) [symmetric]
    proof (rule san_found [OF assms(1-3)])
      fix x
      assume x: "x \<in> set (legal_move_list p)" "has p (from_square x) PAWN ?c" "to_square x = to_square m"
      have "advance p ?c x"
        by (rule advance_of [OF ok(1,2) refl legal [OF x(1)] x(2)]) (use ad ep x(3) in \<open>simp add: advance_def\<close>)
      then show "from_square x = from_square m" using advance_unique(1) [OF ok(1) assms(3) x(2) ad _ x(3)] by simp
    qed simp_all
    then show ?thesis using a read_advance [OF to_square_on_board, of m p] by (auto simp: pawn_san_def Let_def)
  qed
  have takes: ?thesis if t: "move_type m \<in> {CAPTURE, CAPTURE_PROMOTION}" "move_type m = CAPTURE_PROMOTION \<longleftrightarrow> promotion_piece_type m \<noteq> None"
  proof -
    have "want p PAWN (promotion_piece_type m) (sq_file (from_square m)) (-1) (to_square m) = Inr (Some m)"
    proof (rule san_found [OF assms(1-3)])
      fix x
      assume x: "x \<in> set (legal_move_list p)" "has p (from_square x) PAWN ?c" "to_square x = to_square m"
        "sq_file (from_square m) = -1 \<or> sq_file (from_square x) = sq_file (from_square m)"
      then have "sq_file (from_square x) = sq_file (from_square m)" using sq_file_range(1) [of "from_square m"] by auto
      then show "from_square x = from_square m"
        by (rule capture_unique [OF ok refl legal [OF assms(2)] assms(3) t(1) legal [OF x(1)] x(2,3)])
    qed simp_all
    then show ?thesis
      using t read_pawn_takes [OF to_square_on_board, of "from_square m" m p]
        read_pawn_takes_promotes [OF to_square_on_board, of "from_square m" m "the (promotion_piece_type m)" p]
      by (cases "promotion_piece_type m") (simp_all add: pawn_san_def)
  qed
  show ?thesis by (rule cases) (use assms(4,5) advance takes in auto)
qed

text \<open>C26 (roundtrip). Algebraic notation that \<open>move_to_san\<close> writes is read back by \<open>SAN_to_move\<close> as the very move: every legal
  move but castling, en passant and a promotion without capture, the origin squares, captures and checks in the text included.\<close>

theorem san_text_roundtrip:
  assumes "game_ok p" "m \<in> set (legal_move_list p)" "move_type m \<notin> {CASTLING, PROMOTION, ENPASSANT}"
  shows "\<exists>s. move_to_san p m = Inr s \<and> SAN_to_move s p = Inr (Some m)"
proof -
  obtain pt where pt: "has p (from_square m) pt (pos_side_to_move p)"
    "piece_on p (from_square m) = Some \<lparr>p_type = pt, p_color = pos_side_to_move p\<rparr>"
    by (rule legal_piece [OF assms(1,2)])
  show ?thesis
  proof (cases "pt = PAWN")
    case True
    then show ?thesis using read_pawn_san [OF assms(1,2)] pt assms(3) by (simp add: move_to_san_def)
  next
    case False
    have "piece_move p (pos_side_to_move p) m \<or> pawn_push p (pos_side_to_move p) m \<or> pawn_capture p (pos_side_to_move p) m"
      using legal_move_fits(2) [OF assms(1,2)] assms(3)
      by (auto simp: chess_move_def mk_move_fields on_board_def elim: castle_move_cases)
    then have "promotion_piece_type m = None"
      using piece_move_plain pawn_mover has_unique [OF _ pt(1)] False assms(1) by (metis game_ok_def pos_ok_def)
    then show ?thesis using read_piece_san [OF assms(1,2) pt(1) False] pt(2) False assms(3) by (simp add: move_to_san_def)
  qed
qed

theorem san_text_roundtrip_witness:
  "\<exists>s. move_to_san small_game small_move = Inr s \<and> SAN_to_move s small_game = Inr (Some small_move)"
  by (rule san_text_roundtrip [OF small_ok(3) small_legal]) (simp add: small_move_def mk_move_fields on_board_def)

text \<open>Castling and promotions without capture are written as texts the reader does not accept: \<open>isupper\<close> of the first letter
  of \<open>O-O\<close> asks for a piece, and the text of such a promotion does not name the piece.\<close>

theorem san_texts_not_read_back:
  assumes "game_ok p" "m \<in> set (legal_move_list p)" "move_type m \<in> {CASTLING, PROMOTION}"
  shows "\<exists>s. move_to_san p m = Inr s \<and> SAN_to_move s p = Inr None"
proof (cases "move_type m = CASTLING")
  case True
  have "is_upper (CHR ''O'')" by code_simp
  then have "SAN_to_move ''O-O'' p = Inr None" "SAN_to_move ''O-O-O'' p = Inr None"
    by (simp_all add: SAN_to_move_def upto_char_def find_char_simps pt_from_def)
  then show ?thesis using True by (simp add: move_to_san_def)
next
  case False
  let ?c = "pos_side_to_move p"
  have ok: "board_ok p" "rights_ok p" "ep_ok p" using assms(1) by (simp_all add: game_ok_def pos_ok_def)
  note legal = legal_move_fits(2) [OF assms(1)]
  have ty: "move_type m = PROMOTION" using False assms(3) by simp
  obtain pt where pt: "has p (from_square m) pt ?c" "piece_on p (from_square m) = Some \<lparr>p_type = pt, p_color = ?c\<rparr>"
    by (rule legal_piece [OF assms(1,2)])
  have pawn: "pt = PAWN" using legal_move_fits(1) [OF assms(1,2)] ty has_unique [OF ok(1) pt(1)]
    by (auto simp: move_fits_def move_ok_def Let_def move_type_of_typed)
  have m: "has p (from_square m) PAWN ?c" using pt(1) pawn by simp
  have "advance p ?c m" "promotion_piece_type m \<noteq> None"
    by (cases rule: pawn_move_cases [OF ok(1,2) refl legal [OF assms(2)] m]; use ty in \<open>auto simp: advance_def\<close>)+
  note ad = this
  then have fr: "free p (to_square m)" unfolding advance_def by blast
  have ep: "enpassant_square p \<noteq> Some (to_square m)" by (rule advance_victim [OF ok(1,3) refl m ad(1)])
  have "want p PAWN None (-1) (-1) (to_square m) = Inr None"
  proof (rule san_find_none, rule)
    fix x
    assume x: "x \<in> set (legal_move_list p)"
    obtain qt where q: "has p (from_square x) qt ?c" "piece_on p (from_square x) = Some \<lparr>p_type = qt, p_color = ?c\<rparr>"
      by (rule legal_piece [OF assms(1) x])
    have "promotion_piece_type x \<noteq> None" if "qt = PAWN" "to_square x = to_square m"
    proof -
      have xp: "has p (from_square x) PAWN ?c" using q(1) that(1) by simp
      have "advance p ?c x"
        by (rule advance_of [OF ok(1,2) refl legal [OF x] xp]) (use fr ep that(2) in simp)
      then show ?thesis using advance_unique(2) [OF ok(1) m xp ad(1) _ that(2)] ad(2) by blast
    qed
    then show "san_matches p \<lparr>w_type = PAWN, w_promote_to = None, w_fx = -1, w_fy = -1,
        w_tx = sq_file (to_square m), w_ty = sq_rank (to_square m)\<rparr> x = Inr False"
      using sq_coords_eqI by (auto simp: san_matches_on [OF q(2)])
  qed
  then show ?thesis using pt(2) pawn ty read_advance [OF to_square_on_board, of m p]
    by (auto simp: move_to_san_def pawn_san_def)
qed

end
