(* ===== verification/Web_Session.thy ===== *)
theory Web_Session
  imports Texts
begin

text \<open>
  The game session of the web companion (\<open>web.cpp\<close>): who holds the board's seat, the waiting list, the clocks, pause,
  and the searches that run beside the server.  A handler is a function of the time in milliseconds, of the fields the
  code takes out of the request's JSON (which a library parses), of what the engine has answered last, and of the
  session; it gives the kind of the response and the session afterwards.

  Times, clocks and increments are \<open>int64_t\<close>: every sum, difference and conversion is brought back to 64 bits by \<open>to_int64\<close>,
  as the compiled code wraps it (the language leaves the overflow undefined); what is cast to \<open>int\<close> is kept to 32 bits.
  The number of the game, which only grows by one, is not bounded.
\<close>

section \<open>Time controls\<close>

definition to_int64 :: "int \<Rightarrow> int" where
  "to_int64 v = signed_take_bit 63 v"

record tc_preset =
  tp_id :: string
  tp_base_ms :: int
  tp_inc_ms :: int
  tp_cat :: string

definition kPresets :: "tc_preset list" where
  "kPresets = map (\<lambda>(i, b, inc, cat). \<lparr>tp_id = i, tp_base_ms = b, tp_inc_ms = inc, tp_cat = cat\<rparr>)
     [(''1+0'', 1 * 60 * 1000, 0, ''bullet''), (''2+1'', 2 * 60 * 1000, 1000, ''bullet''), (''3+0'', 3 * 60 * 1000, 0, ''blitz''),
      (''3+2'', 3 * 60 * 1000, 2000, ''blitz''), (''5+0'', 5 * 60 * 1000, 0, ''blitz''), (''5+3'', 5 * 60 * 1000, 3000, ''blitz''),
      (''10+0'', 10 * 60 * 1000, 0, ''rapid''), (''15+10'', 15 * 60 * 1000, 10000, ''rapid''), (''30+0'', 30 * 60 * 1000, 0, ''classical'')]"

definition kNumPresets :: int where
  "kNumPresets = 9"

definition kDefaultTc :: int where
  "kDefaultTc = 5"

definition preset_for_idx :: "int \<Rightarrow> tc_preset" where
  "preset_for_idx i = kPresets ! nat (if i < 0 \<or> i \<ge> kNumPresets then kDefaultTc else i)"

definition level_to_tc :: "int \<Rightarrow> int" where
  "level_to_tc level = [0, 0, 1, 2, 5, 5, 6, 7, 8, 8, 8] ! nat (if level < 1 then 1 else if level > 10 then 10 else level)"

section \<open>State\<close>

record session =
  web_tc :: int
  base_ms :: int
  inc_ms :: int
  human_color :: string
  clock_white_ms :: int
  clock_black_ms :: int
  web_moves :: "string list"
  web_game_over :: bool
  web_game_result :: string
  web_last_seq :: int
  turn_started_ms :: int
  owner_pid :: string
  owner_name :: string
  waitlist :: "(string \<times> string) list"
  last_activity_ms :: int
  is_paused :: bool
  pause_started_ms :: int
  is_searching :: bool
  web_gen :: int

definition first_session :: session where
  "first_session = \<lparr>web_tc = kDefaultTc, base_ms = tp_base_ms (preset_for_idx kDefaultTc), inc_ms = tp_inc_ms (preset_for_idx kDefaultTc),
     human_color = ''white'', clock_white_ms = tp_base_ms (preset_for_idx kDefaultTc), clock_black_ms = tp_base_ms (preset_for_idx kDefaultTc),
     web_moves = [], web_game_over = False, web_game_result = [], web_last_seq = 0, turn_started_ms = 0, owner_pid = [],
     owner_name = [], waitlist = [], last_activity_ms = 0, is_paused = False, pause_started_ms = 0, is_searching = False, web_gen = 0\<rparr>"

text \<open>What the engine keeps of its last search.\<close>

record web_search_result =
  r_valid :: bool
  r_game_over :: bool
  r_best_move :: string
  r_game_state :: string
  r_elapsed_ms :: int

text \<open>What a search beside the server has captured: the clocks it is given, and what its end needs.\<close>

record web_worker =
  wk_moves :: "string list"
  wk_movetime :: "int option"
  wk_wtime :: int
  wk_btime :: int
  wk_inc :: int
  wk_book :: bool
  wk_human_color :: string
  wk_gen :: int

text \<open>Characters are bytes; the ones from 128 on pass the test on the unsigned value.\<close>

fun sanitize_loop :: "string \<Rightarrow> string \<Rightarrow> string" where
  "sanitize_loop [] out = out"
| "sanitize_loop (ch # rest) out = sanitize_loop rest
     (if (of_char ch :: int) \<ge> 0x20 \<and> ch \<noteq> CHR 0x22 \<and> ch \<noteq> CHR 0x5C \<and> ch \<noteq> CHR ''<'' \<and> ch \<noteq> CHR ''>'' \<and> length out < 16
      then out @ [ch] else out)"

definition sanitize_name :: "string \<Rightarrow> string" where
  "sanitize_name s = (let out = sanitize_loop s [] in if out = [] then ''Guest'' else out)"

definition SEAT_IDLE_TAKEOVER_MS :: int where
  "SEAT_IDLE_TAKEOVER_MS = 3 * 60 * 1000"

definition touch_activity :: "int \<Rightarrow> session \<Rightarrow> session" where
  "touch_activity now s = s\<lparr>last_activity_ms := now\<rparr>"

definition seat_takeable :: "int \<Rightarrow> session \<Rightarrow> bool" where
  "seat_takeable now s =
     (if is_paused s then False
      else if web_game_over s then True
      else if last_activity_ms s = 0 then True
      else to_int64 (now - last_activity_ms s) > SEAT_IDLE_TAKEOVER_MS)"

text \<open>A request of a client that is not the one that holds the seat; one without an id is let through.\<close>

definition not_owner :: "string \<Rightarrow> session \<Rightarrow> bool" where
  "not_owner pid s \<longleftrightarrow> pid \<noteq> [] \<and> owner_pid s \<noteq> [] \<and> pid \<noteq> owner_pid s"

datatype web_reply = Need_pid | Not_owner | Paused | Resumed | Searching_now | Stored_reply | Flag_fall | Search_started web_worker
  | Search_inline web_worker | Search_timeout | Stale | Game_over string | No_move | Best_move string | Seat_busy nat | Engine_busy | New_game
  | Queued nat | Seat_active | Game_is_over | Done

section \<open>Clocks\<close>

definition clock_of :: "string \<Rightarrow> session \<Rightarrow> int" where
  "clock_of colour s = (if colour = ''white'' then clock_white_ms s else clock_black_ms s)"

definition set_clock :: "string \<Rightarrow> int \<Rightarrow> session \<Rightarrow> session" where
  "set_clock colour v s = (if colour = ''white'' then s\<lparr>clock_white_ms := v\<rparr> else s\<lparr>clock_black_ms := v\<rparr>)"

definition engine_color :: "string \<Rightarrow> string" where
  "engine_color human = (if human = ''white'' then ''black'' else ''white'')"

definition wins_against :: "string \<Rightarrow> string" where
  "wins_against colour = (if colour = ''white'' then ''black_wins'' else ''white_wins'')"

text \<open>Taking a time off a clock: whether the flag falls, and else the increment.\<close>

definition charge :: "string \<Rightarrow> int \<Rightarrow> session \<Rightarrow> session \<times> bool" where
  "charge colour ms s =
     (let left = to_int64 (clock_of colour s - ms)
      in if left \<le> 0 then (set_clock colour 0 s, True) else (set_clock colour (to_int64 (left + inc_ms s)) s, False))"

section \<open>Moves\<close>

text \<open>The numbers of a request are what the parser found, without their fractions; \<open>q_seq\<close> is 0 when there is none above 0.\<close>

record move_request =
  q_moves :: "string list"
  q_movetime :: "int option"
  q_async :: bool
  q_seq :: int
  q_pid :: string

definition limit_movetime :: "int option \<Rightarrow> int option" where
  "limit_movetime mt = (case mt of Some v \<Rightarrow> if v \<ge> 1 then Some (if to_int32 v > 120000 then 120000 else to_int32 v) else None | None \<Rightarrow> None)"

definition already_answered :: "web_search_result \<Rightarrow> string list \<Rightarrow> session \<Rightarrow> bool" where
  "already_answered last_result moves s \<longleftrightarrow>
     web_moves s \<noteq> [] \<and> length (web_moves s) = length moves + 1 \<and> take (length moves) (web_moves s) = moves \<and>
     r_valid last_result \<and> r_best_move last_result \<noteq> [] \<and> \<not> r_game_over last_result"

definition worker_of :: "move_request \<Rightarrow> bool \<Rightarrow> session \<Rightarrow> web_worker" where
  "worker_of q book s = \<lparr>wk_moves = q_moves q, wk_movetime = limit_movetime (q_movetime q), wk_wtime = to_int32 (clock_white_ms s), wk_btime = to_int32 (clock_black_ms s),
     wk_inc = to_int32 (inc_ms s), wk_book = book, wk_human_color = human_color s, wk_gen = web_gen s\<rparr>"

text \<open>The human's time is booked on arrival, once for each number of a submission.\<close>

definition book_human :: "int \<Rightarrow> move_request \<Rightarrow> session \<Rightarrow> session \<times> bool \<times> bool" where
  "book_human now q s =
     (let book = (q_seq q \<noteq> web_last_seq s);
          s = (if book then s\<lparr>web_last_seq := q_seq q\<rparr> else s)
      in if book \<and> \<not> web_game_over s \<and> q_moves q \<noteq> [] then
           (let (s, flags) = charge (human_color s) (to_int64 (now - turn_started_ms s)) s in (s\<lparr>turn_started_ms := now\<rparr>, book, flags))
         else (s, book, False))"

definition handle_move :: "int \<Rightarrow> web_search_result \<Rightarrow> move_request \<Rightarrow> session \<Rightarrow> web_reply \<times> session" where
  "handle_move now last_result q s =
     (if not_owner (q_pid q) s then (Not_owner, s)
      else if is_paused s then (Paused, s)
      else if is_searching s then (Searching_now, s)
      else if already_answered last_result (q_moves q) s then (Stored_reply, s)
      else
        let (s, book, flags) = book_human now q s in
        if flags then
          (Flag_fall, touch_activity now (s\<lparr>web_game_over := True, web_game_result := wins_against (human_color s), web_moves := q_moves q\<rparr>))
        else if q_async q then (Search_started (worker_of q book s), s\<lparr>is_searching := True, web_moves := q_moves q\<rparr>)
        else (Search_inline (worker_of q book s), s))"

text \<open>The booking of the engine's time and the end of a game, the same for both kinds of search.\<close>

definition book_engine :: "int \<Rightarrow> web_search_result \<Rightarrow> web_worker \<Rightarrow> session \<Rightarrow> session \<times> bool" where
  "book_engine now last_result w s =
     (if wk_book w \<and> \<not> web_game_over s then
        (let (s, flags) = (if r_valid last_result \<and> \<not> r_game_over last_result
                           then charge (engine_color (wk_human_color w)) (r_elapsed_ms last_result) s else (s, False))
         in (touch_activity now (s\<lparr>turn_started_ms := now\<rparr>), flags))
      else (s, False))"

definition finish_search :: "int \<Rightarrow> web_search_result \<Rightarrow> web_worker \<Rightarrow> session \<Rightarrow> web_reply \<times> session" where
  "finish_search now last_result w s =
     (let (s, engine_flags) = book_engine now last_result w s;
          game_result = (if r_game_over last_result then Some (r_game_state last_result)
                         else if engine_flags then Some (wins_against (engine_color (wk_human_color w))) else None)
      in case game_result of
           Some r \<Rightarrow> (Game_over r, s\<lparr>web_game_over := True, web_game_result := r, web_moves := wk_moves w\<rparr>)
         | None \<Rightarrow>
             if \<not> r_valid last_result \<or> r_best_move last_result = [] then (No_move, s)
             else (Best_move (r_best_move last_result), s\<lparr>web_moves := wk_moves w @ [r_best_move last_result]\<rparr>))"

text \<open>The end of a search beside the server.  \<open>ok\<close>: it ended in time.  A search that did, of a game that is still on, goes on to
  write its reply; it holds the locks of requests and of the session, which the handlers below do not take.\<close>

definition reply_passes :: "bool \<Rightarrow> web_worker \<Rightarrow> session \<Rightarrow> bool" where
  "reply_passes ok w s \<longleftrightarrow> ok \<and> wk_gen w = web_gen s"

definition no_reply :: "int \<Rightarrow> bool \<Rightarrow> web_worker \<Rightarrow> session \<Rightarrow> session" where
  "no_reply now ok w s = (if \<not> ok \<and> wk_gen w = web_gen s then s\<lparr>turn_started_ms := now, is_searching := False\<rparr> else s)"

definition write_reply :: "int \<Rightarrow> web_search_result \<Rightarrow> web_worker \<Rightarrow> session \<Rightarrow> session" where
  "write_reply now last_result w s =
     (let s = snd (finish_search now last_result w s) in if wk_gen w = web_gen s then s\<lparr>is_searching := False\<rparr> else s)"

text \<open>The end of a search the server has waited for.\<close>

definition finish_inline :: "int \<Rightarrow> bool \<Rightarrow> web_search_result \<Rightarrow> web_worker \<Rightarrow> session \<Rightarrow> web_reply \<times> session" where
  "finish_inline now ok last_result w s =
     (if \<not> ok then (Search_timeout, s\<lparr>turn_started_ms := now\<rparr>)
      else if wk_gen w \<noteq> web_gen s then (Stale, s)
      else finish_search now last_result w s)"

section \<open>Games and seats\<close>

record new_request =
  n_color :: "string option"
  n_tc :: "int option"
  n_level :: "int option"
  n_base :: "int option"
  n_inc :: "int option"
  n_pid :: string
  n_name :: "string option"

text \<open>The place in the waiting list, from 1, or 0.\<close>

fun queue_pos_from :: "nat \<Rightarrow> string \<Rightarrow> (string \<times> string) list \<Rightarrow> nat" where
  "queue_pos_from k pid [] = 0"
| "queue_pos_from k pid (e # es) = (if fst e = pid then k + 1 else queue_pos_from (k + 1) pid es)"

definition queue_pos :: "string \<Rightarrow> session \<Rightarrow> nat" where
  "queue_pos pid s = queue_pos_from 0 pid (waitlist s)"

fun erase_pid :: "string \<Rightarrow> (string \<times> string) list \<Rightarrow> (string \<times> string) list" where
  "erase_pid pid [] = []"
| "erase_pid pid (e # es) = (if fst e = pid then es else e # erase_pid pid es)"

definition requested_tc :: "new_request \<Rightarrow> int" where
  "requested_tc n =
     (let tc = (case n_tc n of Some tc \<Rightarrow> to_int32 tc
                | None \<Rightarrow> (case n_level n of Some l \<Rightarrow> let l = to_int32 l in if l \<ge> 1 \<and> l \<le> 10 then level_to_tc l else kDefaultTc | None \<Rightarrow> kDefaultTc))
      in if tc < 0 \<or> tc \<ge> kNumPresets then kDefaultTc else tc)"

definition requested_color :: "new_request \<Rightarrow> string" where
  "requested_color n = (case n_color n of Some c \<Rightarrow> if c \<noteq> ''white'' \<and> c \<noteq> ''black'' then ''white'' else c | None \<Rightarrow> ''white'')"

definition requested_base :: "new_request \<Rightarrow> int option" where
  "requested_base n = (case n_base n of Some b \<Rightarrow> if b \<ge> 1000 then Some (to_int64 b) else None | None \<Rightarrow> None)"

definition requested_inc :: "new_request \<Rightarrow> int option" where
  "requested_inc n = (case n_inc n of Some i \<Rightarrow> if i \<ge> 0 then Some (to_int64 i) else None | None \<Rightarrow> None)"

text \<open>The clocks of a new game: a part that is not given keeps its value when the other is, else the preset counts.\<close>

definition set_time_control :: "new_request \<Rightarrow> session \<Rightarrow> session" where
  "set_time_control n s =
     (case (requested_base n, requested_inc n) of
        (None, None) \<Rightarrow> s\<lparr>base_ms := tp_base_ms (preset_for_idx (requested_tc n)), inc_ms := tp_inc_ms (preset_for_idx (requested_tc n))\<rparr>
      | (Some b, None) \<Rightarrow> s\<lparr>base_ms := b\<rparr>
      | (None, Some i) \<Rightarrow> s\<lparr>inc_ms := i\<rparr>
      | (Some b, Some i) \<Rightarrow> s\<lparr>base_ms := b, inc_ms := i\<rparr>)"

definition take_seat :: "new_request \<Rightarrow> session \<Rightarrow> session" where
  "take_seat n s =
     (if n_pid n \<noteq> [] then
        let name = (case n_name n of Some t \<Rightarrow> sanitize_name t | None \<Rightarrow> []) in
        s\<lparr>owner_pid := n_pid n, owner_name := (if name \<noteq> [] then name else if owner_name s = [] then ''Guest'' else owner_name s),
          waitlist := erase_pid (n_pid n) (waitlist s)\<rparr>
      else s\<lparr>owner_pid := [], owner_name := []\<rparr>)"

definition install_game :: "int \<Rightarrow> new_request \<Rightarrow> session \<Rightarrow> session" where
  "install_game now n s =
     (let s = set_time_control n (s\<lparr>human_color := requested_color n, web_tc := requested_tc n\<rparr>);
          s = s\<lparr>clock_white_ms := base_ms s, clock_black_ms := base_ms s, web_moves := [], web_game_over := False, web_game_result := [],
                web_last_seq := 0, turn_started_ms := now, is_paused := False, pause_started_ms := 0, is_searching := False\<rparr>
      in touch_activity now (take_seat n s))"

text \<open>\<open>ok\<close>: the engine has set up the position in time.  Between the new number of the game and the game itself the server waits for the
  engine and takes no other request.  Searches beside it may end meanwhile: an old one changes nothing any more, and what a reply that had
  passed its test writes is overwritten by the new game, so that both are one step here.\<close>

definition handle_new :: "int \<Rightarrow> bool \<Rightarrow> new_request \<Rightarrow> session \<Rightarrow> web_reply \<times> session" where
  "handle_new now ok n s =
     (if not_owner (n_pid n) s \<and> (queue_pos (n_pid n) s \<noteq> 1 \<or> \<not> seat_takeable now s) then (Seat_busy (queue_pos (n_pid n) s), s)
      else
        let s = s\<lparr>web_gen := web_gen s + 1\<rparr>
        in if \<not> ok then (Engine_busy, s) else (New_game, install_game now n s))"

definition handle_queue :: "string \<Rightarrow> string option \<Rightarrow> session \<Rightarrow> web_reply \<times> session" where
  "handle_queue pid name s =
     (if pid = [] then (Need_pid, s)
      else
        let s = s\<lparr>waitlist := erase_pid pid (waitlist s) @ [(pid, case name of Some t \<Rightarrow> sanitize_name t | None \<Rightarrow> [])]\<rparr>
        in (Queued (length (waitlist s)), s))"

definition handle_unqueue :: "string \<Rightarrow> session \<Rightarrow> web_reply \<times> session" where
  "handle_unqueue pid s = (if pid = [] then (Need_pid, s) else (Done, s\<lparr>waitlist := erase_pid pid (waitlist s)\<rparr>))"

definition handle_yield :: "int \<Rightarrow> string \<Rightarrow> session \<Rightarrow> web_reply \<times> session" where
  "handle_yield now pid s =
     (if pid = [] then (Need_pid, s)
      else if \<not> (pid = owner_pid s \<or> seat_takeable now s) then (Seat_active, s)
      else
        let s = s\<lparr>owner_pid := [], owner_name := []\<rparr>
        in (Done, if web_game_over s
             then s\<lparr>web_gen := web_gen s + 1, web_moves := [], web_game_over := False, web_game_result := [], web_last_seq := 0,
                    clock_white_ms := base_ms s, clock_black_ms := base_ms s, turn_started_ms := now, is_paused := False,
                    pause_started_ms := 0, is_searching := False\<rparr>
             else s))"

definition handle_resign :: "string \<Rightarrow> session \<Rightarrow> web_reply \<times> session" where
  "handle_resign pid s =
     (if pid = [] then (Need_pid, s)
      else if not_owner pid s then (Not_owner, s)
      else if web_game_over s \<or> owner_pid s = [] then (Done, s)
      else (Game_over (wins_against (human_color s)),
            s\<lparr>web_game_over := True, web_game_result := wins_against (human_color s), web_gen := web_gen s + 1\<rparr>))"

definition handle_pause :: "int \<Rightarrow> string \<Rightarrow> session \<Rightarrow> web_reply \<times> session" where
  "handle_pause now pid s =
     (if pid = [] then (Need_pid, s)
      else if not_owner pid s then (Not_owner, s)
      else if is_paused s then (Paused, s)
      else if is_searching s then (Searching_now, s)
      else if web_game_over s then (Game_is_over, s)
      else (Paused, s\<lparr>pause_started_ms := now, is_paused := True\<rparr>))"

definition handle_resume :: "int \<Rightarrow> string \<Rightarrow> session \<Rightarrow> web_reply \<times> session" where
  "handle_resume now pid s =
     (if pid = [] then (Need_pid, s)
      else if not_owner pid s then (Not_owner, s)
      else if \<not> is_paused s then (Resumed, s)
      else (Resumed, s\<lparr>turn_started_ms := to_int64 (turn_started_ms s + to_int64 (now - pause_started_ms s)), is_paused := False, pause_started_ms := 0\<rparr>))"

text \<open>A poll of the state: the flag of the side to move falls here too; and the clocks it shows.\<close>

definition white_to_move :: "session \<Rightarrow> bool" where
  "white_to_move s \<longleftrightarrow> length (web_moves s) mod 2 = 0"

definition side_to_move :: "session \<Rightarrow> string" where
  "side_to_move s = (if white_to_move s then ''white'' else ''black'')"

definition handle_state :: "int \<Rightarrow> session \<Rightarrow> (int \<times> int) \<times> session" where
  "handle_state now s =
     (let colour = side_to_move s in
      if \<not> is_paused s \<and> \<not> web_game_over s \<and> turn_started_ms s \<noteq> 0 then
        (if to_int64 (clock_of colour s - to_int64 (now - turn_started_ms s)) \<le> 0 then
           let s = set_clock colour 0 (s\<lparr>web_game_over := True, web_game_result := wins_against colour\<rparr>)
           in ((clock_white_ms s, clock_black_ms s), s)
         else ((clock_white_ms s, clock_black_ms s), s))
      else if is_paused s \<and> turn_started_ms s \<noteq> 0 then
        (let shown = set_clock colour (max 0 (to_int64 (clock_of colour s - to_int64 (pause_started_ms s - turn_started_ms s)))) s
         in ((clock_white_ms shown, clock_black_ms shown), s))
      else ((clock_white_ms s, clock_black_ms s), s))"

section \<open>Runs\<close>

text \<open>The server and the searches beside it.  A request is an event.  The end of the \<open>k\<close>-th search is one event when there is no
  reply to write, else two: the test, and the writes.  A move the server waits for is one event: it holds the lock that a search needs
  to begin, and the server takes no other request.\<close>

datatype web_event = Move int int bool web_search_result web_search_result move_request | New int bool new_request
  | Queue string "string option" | Unqueue string | Yield int string | Resign string | Pause int string | Resume int string
  | Poll int | Search_ends nat int bool | Reply_is_written nat int web_search_result

record web_world =
  now_session :: session
  workers :: "web_worker list"
  passed :: "web_worker list"

definition remove_nth :: "nat \<Rightarrow> 'a list \<Rightarrow> 'a list" where
  "remove_nth k xs = take k xs @ drop (k + 1) xs"

definition move_event :: "int \<Rightarrow> int \<Rightarrow> bool \<Rightarrow> web_search_result \<Rightarrow> web_search_result \<Rightarrow> move_request \<Rightarrow> web_world \<Rightarrow> web_reply \<times> web_world" where
  "move_event now later ok last_result next_result q W =
     (case handle_move now last_result q (now_session W) of
        (Search_started w, s) \<Rightarrow> (Search_started w, W\<lparr>now_session := s, workers := workers W @ [w]\<rparr>)
      | (Search_inline w, s) \<Rightarrow> (case finish_inline later ok next_result w s of (r, s') \<Rightarrow> (r, W\<lparr>now_session := s'\<rparr>))
      | (r, s) \<Rightarrow> (r, W\<lparr>now_session := s\<rparr>))"

fun web_step :: "web_event \<Rightarrow> web_world \<Rightarrow> web_world" where
  "web_step (Move now later ok last_result next_result q) W = snd (move_event now later ok last_result next_result q W)"
| "web_step (New now ok n) W = W\<lparr>now_session := snd (handle_new now ok n (now_session W))\<rparr>"
| "web_step (Queue pid name) W = W\<lparr>now_session := snd (handle_queue pid name (now_session W))\<rparr>"
| "web_step (Unqueue pid) W = W\<lparr>now_session := snd (handle_unqueue pid (now_session W))\<rparr>"
| "web_step (Yield now pid) W = W\<lparr>now_session := snd (handle_yield now pid (now_session W))\<rparr>"
| "web_step (Resign pid) W = W\<lparr>now_session := snd (handle_resign pid (now_session W))\<rparr>"
| "web_step (Pause now pid) W = W\<lparr>now_session := snd (handle_pause now pid (now_session W))\<rparr>"
| "web_step (Resume now pid) W = W\<lparr>now_session := snd (handle_resume now pid (now_session W))\<rparr>"
| "web_step (Poll now) W = W\<lparr>now_session := snd (handle_state now (now_session W))\<rparr>"
| "web_step (Search_ends k now ok) W =
     (if k < length (workers W)
      then (let w = workers W ! k; W = W\<lparr>workers := remove_nth k (workers W)\<rparr>
            in if reply_passes ok w (now_session W) then W\<lparr>passed := passed W @ [w]\<rparr>
               else W\<lparr>now_session := no_reply now ok w (now_session W)\<rparr>)
      else W)"
| "web_step (Reply_is_written k now last_result) W =
     (if k < length (passed W)
      then W\<lparr>now_session := write_reply now last_result (passed W ! k) (now_session W), passed := remove_nth k (passed W)\<rparr>
      else W)"

definition web_run :: "web_event list \<Rightarrow> web_world \<Rightarrow> web_world" where
  "web_run evs W = fold web_step evs W"

definition start_world :: web_world where
  "start_world = \<lparr>now_session = first_session, workers = [], passed = []\<rparr>"

end
