(* ===== verification/Web_Correct.thy ===== *)
theory Web_Correct
  imports Web_Session
begin

text \<open>
  What holds of the web companion's session in every order of requests and ends of searches: clocks and waiting list, the
  seat, the generation of a game against late replies, and pause; and where the handlers fall short of it.
\<close>

section \<open>The invariant\<close>

definition session_ok :: "session \<Rightarrow> bool" where
  "session_ok s \<longleftrightarrow>
     distinct (map fst (waitlist s)) \<and> \<not> (is_paused s \<and> is_searching s) \<and> human_color s \<in> {''white'', ''black''}"

definition world_ok :: "web_world \<Rightarrow> bool" where
  "world_ok W \<longleftrightarrow> session_ok (now_session W) \<and> (\<forall>w \<in> set (workers W) \<union> set (passed W). wk_gen w \<le> web_gen (now_session W))"

lemma set_clock_fields [simp]:
  "inc_ms (set_clock c v s) = inc_ms s" "base_ms (set_clock c v s) = base_ms s" "waitlist (set_clock c v s) = waitlist s"
  "is_paused (set_clock c v s) = is_paused s" "is_searching (set_clock c v s) = is_searching s" "human_color (set_clock c v s) = human_color s"
  "web_gen (set_clock c v s) = web_gen s" "web_moves (set_clock c v s) = web_moves s" "web_game_over (set_clock c v s) = web_game_over s"
  "owner_pid (set_clock c v s) = owner_pid s" "turn_started_ms (set_clock c v s) = turn_started_ms s" "web_last_seq (set_clock c v s) = web_last_seq s"
  by (simp_all add: set_clock_def)

lemma charge_fields [simp]:
  "inc_ms (fst (charge c v s)) = inc_ms s" "base_ms (fst (charge c v s)) = base_ms s" "waitlist (fst (charge c v s)) = waitlist s"
  "is_paused (fst (charge c v s)) = is_paused s" "is_searching (fst (charge c v s)) = is_searching s"
  "human_color (fst (charge c v s)) = human_color s" "web_gen (fst (charge c v s)) = web_gen s" "web_moves (fst (charge c v s)) = web_moves s"
  "web_game_over (fst (charge c v s)) = web_game_over s" "owner_pid (fst (charge c v s)) = owner_pid s"
  by (simp_all add: charge_def Let_def)

lemma charge_ok: "session_ok s \<Longrightarrow> session_ok (fst (charge c v s))"
  by (simp add: charge_def Let_def session_ok_def set_clock_def)

lemma book_human_fields [simp]:
  "web_gen (fst (book_human now q s)) = web_gen s" "is_searching (fst (book_human now q s)) = is_searching s"
  "is_paused (fst (book_human now q s)) = is_paused s"
  by (simp_all add: book_human_def Let_def case_prod_unfold)

lemma book_human_ok:
  assumes "session_ok s"
  shows "session_ok (fst (book_human now q s))"
proof -
  have "session_ok (s\<lparr>web_last_seq := q_seq q\<rparr>)" using assms by (simp add: session_ok_def)
  from this charge_ok [OF this, of "human_color s" "now - turn_started_ms s"] show ?thesis using assms
    by (simp add: book_human_def Let_def case_prod_unfold) (simp add: session_ok_def)
qed

lemma book_engine_fields [simp]:
  "web_gen (fst (book_engine now r w s)) = web_gen s" "is_searching (fst (book_engine now r w s)) = is_searching s"
  "is_paused (fst (book_engine now r w s)) = is_paused s"
  by (simp_all add: book_engine_def touch_activity_def Let_def case_prod_unfold)

lemma book_engine_ok:
  assumes "session_ok s"
  shows "session_ok (fst (book_engine now r w s))"
  using charge_ok [OF assms, of "engine_color (wk_human_color w)" "r_elapsed_ms r"] assms
  by (simp add: book_engine_def touch_activity_def Let_def case_prod_unfold) (simp add: session_ok_def)

lemma finish_search_fields [simp]:
  "web_gen (snd (finish_search now r w s)) = web_gen s" "is_searching (snd (finish_search now r w s)) = is_searching s"
  "is_paused (snd (finish_search now r w s)) = is_paused s"
  by (simp_all add: finish_search_def Let_def case_prod_unfold split: option.split)

lemma finish_search_ok:
  assumes "session_ok s"
  shows "session_ok (snd (finish_search now r w s))"
  using book_engine_ok [OF assms, of now r w]
  by (simp add: finish_search_def Let_def case_prod_unfold session_ok_def split: option.split)

lemma write_reply_ok: "session_ok s \<Longrightarrow> session_ok (write_reply now r w s)"
  and write_reply_gen [simp]: "web_gen (write_reply now r w s) = web_gen s"
  using finish_search_ok [of s now r w] by (simp_all add: write_reply_def Let_def) (simp add: session_ok_def)

lemma finish_inline_ok: "session_ok s \<Longrightarrow> session_ok (snd (finish_inline now ok r w s))"
  and finish_inline_fields [simp]: "web_gen (snd (finish_inline now ok r w s)) = web_gen s"
    "is_searching (snd (finish_inline now ok r w s)) = is_searching s"
  using finish_search_ok [of s now r w] by (simp_all add: finish_inline_def) (simp add: session_ok_def)

lemma no_reply_ok: "session_ok s \<Longrightarrow> session_ok (no_reply now ok w s)"
  and no_reply_gen [simp]: "web_gen (no_reply now ok w s) = web_gen s"
  by (simp_all add: no_reply_def session_ok_def)

text \<open>The session after a move: its generation, and the searches it starts.\<close>

lemma handle_move_ok:
  assumes "handle_move now r q s = (reply, s')"
  shows "session_ok s \<Longrightarrow> session_ok s'" "web_gen s' = web_gen s"
    "reply = Search_started w \<Longrightarrow> wk_gen w = web_gen s" "is_searching s \<Longrightarrow> reply = Not_owner \<or> reply = Paused \<or> reply = Searching_now"
    "is_searching s \<Longrightarrow> s' = s"
proof -
  obtain s1 book flags where b: "book_human now q s = (s1, book, flags)" by (metis prod_cases3)
  have B: "session_ok s \<Longrightarrow> session_ok s1" "web_gen s1 = web_gen s" "is_searching s1 = is_searching s" "is_paused s1 = is_paused s"
    using book_human_ok [of s now q] book_human_fields [of now q s] b by simp_all
  show "session_ok s'" if "session_ok s"
    using assms that B(1) [OF that] B(2-4) b
    by (auto simp: handle_move_def touch_activity_def session_ok_def split: if_splits)
  show "web_gen s' = web_gen s" using assms B(2) b by (auto simp: handle_move_def touch_activity_def split: if_splits)
  show "wk_gen w = web_gen s" if "reply = Search_started w"
    using assms that B(2) b by (auto simp: handle_move_def worker_of_def split: if_splits)
  show "reply = Not_owner \<or> reply = Paused \<or> reply = Searching_now" "s' = s" if "is_searching s"
    using assms that by (auto simp: handle_move_def split: if_splits)
qed

section \<open>The handlers\<close>

lemma erase_pid_set: "set (map fst (erase_pid pid es)) \<subseteq> set (map fst es)"
  by (induction es) auto

lemma erase_pid_distinct: "distinct (map fst es) \<Longrightarrow> distinct (map fst (erase_pid pid es)) \<and> pid \<notin> set (map fst (erase_pid pid es))"
proof (induction es)
  case (Cons e es)
  then show ?case using erase_pid_set [of pid es] by auto
qed simp

lemma requested_color_ok: "requested_color n \<in> {''white'', ''black''}"
  by (simp add: requested_color_def split: option.split)

lemma set_time_control_fields [simp]:
  "human_color (set_time_control n s) = human_color s" "waitlist (set_time_control n s) = waitlist s"
  "web_gen (set_time_control n s) = web_gen s"
  by (simp_all add: set_time_control_def split: option.split)

lemma take_seat_fields [simp]:
  "human_color (take_seat n s) = human_color s" "web_gen (take_seat n s) = web_gen s" "clock_white_ms (take_seat n s) = clock_white_ms s"
  "clock_black_ms (take_seat n s) = clock_black_ms s" "base_ms (take_seat n s) = base_ms s" "inc_ms (take_seat n s) = inc_ms s"
  "is_paused (take_seat n s) = is_paused s" "is_searching (take_seat n s) = is_searching s"
  "waitlist (take_seat n s) = (if n_pid n \<noteq> [] then erase_pid (n_pid n) (waitlist s) else waitlist s)"
  by (simp_all add: take_seat_def Let_def)

lemma install_game_ok: "session_ok s \<Longrightarrow> session_ok (install_game now n s)"
  using requested_color_ok [of n] erase_pid_distinct by (simp add: install_game_def touch_activity_def Let_def session_ok_def)

lemma install_game_gen [simp]: "web_gen (install_game now n s) = web_gen s"
  by (simp add: install_game_def touch_activity_def Let_def)

lemma handler_ok:
  assumes "session_ok s"
  shows "session_ok (snd (handle_new now ok n s))" "session_ok (snd (handle_queue pid name s))" "session_ok (snd (handle_unqueue pid s))"
    "session_ok (snd (handle_yield now pid s))" "session_ok (snd (handle_resign pid s))" "session_ok (snd (handle_pause now pid s))"
    "session_ok (snd (handle_resume now pid s))" "session_ok (snd (handle_state now s))"
proof -
  have "session_ok (s\<lparr>web_gen := web_gen s + 1\<rparr>)" using assms by (simp add: session_ok_def)
  then show "session_ok (snd (handle_new now ok n s))" using assms install_game_ok by (simp add: handle_new_def Let_def)
  show "session_ok (snd (handle_queue pid name s))" "session_ok (snd (handle_unqueue pid s))"
    using assms erase_pid_distinct [of "waitlist s" pid] by (simp_all add: handle_queue_def handle_unqueue_def session_ok_def Let_def)
  show "session_ok (snd (handle_yield now pid s))" "session_ok (snd (handle_resign pid s))" "session_ok (snd (handle_pause now pid s))"
    "session_ok (snd (handle_resume now pid s))"
    using assms by (simp_all add: handle_yield_def handle_resign_def handle_pause_def handle_resume_def session_ok_def Let_def)
  show "session_ok (snd (handle_state now s))" using assms by (simp add: handle_state_def set_clock_def session_ok_def Let_def)
qed

lemma handler_gen:
  "web_gen s \<le> web_gen (snd (handle_new now ok n s))" "web_gen (snd (handle_queue pid name s)) = web_gen s"
  "web_gen (snd (handle_unqueue pid s)) = web_gen s" "web_gen s \<le> web_gen (snd (handle_yield now pid s))"
  "web_gen s \<le> web_gen (snd (handle_resign pid s))" "web_gen (snd (handle_pause now pid s)) = web_gen s"
  "web_gen (snd (handle_resume now pid s)) = web_gen s" "web_gen (snd (handle_state now s)) = web_gen s"
  by (simp_all add: handle_new_def handle_queue_def handle_unqueue_def handle_yield_def handle_resign_def handle_pause_def
      handle_resume_def handle_state_def Let_def)

lemma set_remove_nth: "set (remove_nth k xs) \<subseteq> set xs"
  using set_take_subset [of k xs] set_drop_subset [of "k + 1" xs] by (auto simp: remove_nth_def)

lemma move_event_ok:
  assumes "world_ok W"
  shows "world_ok (snd (move_event now later ok r r' q W))"
proof -
  obtain reply s' where h: "handle_move now r q (now_session W) = (reply, s')" by fastforce
  note H = handle_move_ok [OF h]
  have s: "session_ok s'" "web_gen s' = web_gen (now_session W)" using H(1,2) assms by (simp_all add: world_ok_def)
  show ?thesis
  proof (cases reply)
    case (Search_started w)
    then show ?thesis using s H(3) assms by (auto simp: move_event_def h world_ok_def)
  next
    case (Search_inline w)
    then show ?thesis using s assms finish_inline_ok [of s' later ok r' w]
      by (simp add: move_event_def h world_ok_def case_prod_unfold)
  qed (use s assms in \<open>simp_all add: move_event_def h world_ok_def\<close>)
qed

lemma world_grows:
  assumes "world_ok W" "session_ok s'" "web_gen (now_session W) \<le> web_gen s'"
  shows "world_ok (W\<lparr>now_session := s'\<rparr>)"
  using assms order_trans [OF _ assms(3)] by (auto simp: world_ok_def)

lemma web_step_ok:
  assumes "world_ok W"
  shows "world_ok (web_step e W)"
proof -
  have ok: "session_ok (now_session W)" using assms by (simp add: world_ok_def)
  note grow = world_grows [OF assms]
  show ?thesis
  proof (cases e)
    case (Search_ends k now b)
    have "world_ok (W\<lparr>workers := remove_nth k (workers W)\<rparr>)" using assms set_remove_nth [of k "workers W"] by (auto simp: world_ok_def)
    moreover have "wk_gen (workers W ! k) \<le> web_gen (now_session W)" if "k < length (workers W)" using assms that by (auto simp: world_ok_def)
    ultimately show ?thesis using Search_ends assms no_reply_ok [OF ok]
      by (auto simp: Let_def reply_passes_def world_ok_def)
  next
    case (Reply_is_written k now r)
    have "world_ok (W\<lparr>passed := remove_nth k (passed W)\<rparr>)" using assms set_remove_nth [of k "passed W"] by (auto simp: world_ok_def)
    then show ?thesis using Reply_is_written assms write_reply_ok [OF ok] by (auto simp: world_ok_def)
  qed (simp_all add: move_event_ok assms grow handler_ok [OF ok] handler_gen)
qed

lemma web_run_ok: "world_ok W \<Longrightarrow> world_ok (web_run evs W)"
  unfolding web_run_def by (induction evs arbitrary: W) (simp_all add: web_step_ok)

lemma start_world_ok: "world_ok start_world"
  by (simp add: world_ok_def start_world_def session_ok_def first_session_def)

lemma web_run_append: "web_run (evs @ evs') W = web_run evs' (web_run evs W)"
  by (simp add: web_run_def)

section \<open>Properties\<close>

text \<open>Ends of searches of older games.\<close>

fun search_event :: "web_event \<Rightarrow> bool" where
  "search_event (Search_ends k now ok) = True"
| "search_event (Reply_is_written k now r) = True"
| "search_event _ = False"

definition outdated :: "web_world \<Rightarrow> bool" where
  "outdated W \<longleftrightarrow> passed W = [] \<and> (\<forall>w \<in> set (workers W). wk_gen w < web_gen (now_session W))"

lemma outdated_step:
  assumes "outdated W" "search_event e"
  shows "outdated (web_step e W) \<and> now_session (web_step e W) = now_session W"
proof (cases e)
  case (Search_ends k now ok)
  have "wk_gen (workers W ! k) \<noteq> web_gen (now_session W)" if "k < length (workers W)"
    using assms(1) nth_mem [OF that] by (auto simp: outdated_def)
  then show ?thesis using Search_ends assms(1) set_remove_nth [of k "workers W"]
    by (auto simp: outdated_def Let_def reply_passes_def no_reply_def)
qed (use assms in \<open>simp_all add: outdated_def\<close>)

lemma outdated_run:
  assumes "outdated W" "list_all search_event evs"
  shows "now_session (web_run evs W) = now_session W"
  using assms unfolding web_run_def
proof (induction evs arbitrary: W)
  case (Cons e evs)
  then show ?case using outdated_step [of W e] by simp
qed simp

lemma new_game_gen: "handle_new now ok n s = (New_game, s') \<Longrightarrow> web_gen s' = web_gen s + 1"
  by (auto simp: handle_new_def Let_def split: if_splits)

text \<open>C28 (safety). A new game is not touched by the searches of older ones: unless a reply is just being written when the game is
  installed, whichever of the searches end afterwards, in time or not and with whatever result, the session stays as it is.\<close>

theorem new_game_ignores_old_searches:
  assumes "W = web_run evs start_world" "passed W = []" "handle_new now ok n (now_session W) = (New_game, s')"
    and "list_all search_event evs'"
  shows "now_session (web_run evs' (W\<lparr>now_session := s'\<rparr>)) = s'"
proof -
  have "world_ok W" using web_run_ok [OF start_world_ok] assms(1) by simp
  then have "outdated (W\<lparr>now_session := s'\<rparr>)"
    using assms(2) new_game_gen [OF assms(3)] by (fastforce simp: outdated_def world_ok_def)
  from outdated_run [OF this assms(4)] show ?thesis by simp
qed

text \<open>The handlers of requests do not take the lock of the session.  When a new game is installed between the test of a
  reply and its writes, the moves of the old game, with the reply or without, become those of the new game.\<close>

theorem reply_can_reach_next_game:
  assumes "W = web_run evs start_world" "passed W = [w]" "handle_new now ok n (now_session W) = (New_game, s')"
    and "r_valid r" "r_best_move r \<noteq> []"
  shows "\<exists>more. web_moves (now_session (web_step (Reply_is_written 0 later r) (W\<lparr>now_session := s'\<rparr>))) = wk_moves w @ more"
  using assms(2,4,5) by (auto simp: write_reply_def finish_search_def Let_def case_prod_unfold split: option.split)

text \<open>Requests of a client, by its id.\<close>

fun request_of :: "string \<Rightarrow> web_event \<Rightarrow> bool" where
  "request_of pid (Move now later ok r r' q) = (q_pid q = pid)"
| "request_of pid (New now ok n) = (n_pid n = pid)"
| "request_of pid (Queue f name) = (f = pid)"
| "request_of pid (Unqueue f) = (f = pid)"
| "request_of pid (Yield now f) = (f = pid)"
| "request_of pid (Resign f) = (f = pid)"
| "request_of pid (Pause now f) = (f = pid)"
| "request_of pid (Resume now f) = (f = pid)"
| "request_of pid _ = False"

fun time_of :: "web_event \<Rightarrow> int option" where
  "time_of (New now ok n) = Some now"
| "time_of (Yield now f) = Some now"
| "time_of _ = None"

text \<open>C29 (safety). While a client holds the seat and the seat may not be taken over - the game is paused, or is on and has seen a move or
  its start within three minutes - no request that carries another, non-empty id changes anything but the waiting list: neither game,
  clocks, pause and seat nor the searches.  Requests without an id, which are let through, and polls of the state are not meant.\<close>

theorem others_cannot_touch_the_game:
  assumes "owner_pid (now_session W) \<noteq> []" "pid \<noteq> []" "pid \<noteq> owner_pid (now_session W)" "request_of pid e"
    and "\<And>now. time_of e = Some now \<Longrightarrow> \<not> seat_takeable now (now_session W)"
  shows "\<exists>waiting. web_step e W = W\<lparr>now_session := (now_session W)\<lparr>waitlist := waiting\<rparr>\<rparr>"
proof -
  let ?s = "now_session W"
  have self: "W = W\<lparr>now_session := ?s\<lparr>waitlist := waitlist ?s\<rparr>\<rparr>" by simp
  have no: "not_owner pid ?s" using assms(1-3) by (simp add: not_owner_def)
  show ?thesis
  proof (cases e)
    case (Queue f name)
    then show ?thesis using assms(2,4) by (intro exI) (simp add: handle_queue_def Let_def)
  next
    case (Unqueue f)
    then show ?thesis using assms(2,4) by (intro exI) (simp add: handle_unqueue_def)
  next
    case (Move now later ok r r' q)
    then show ?thesis using no assms(4) self by (intro exI [of _ "waitlist ?s"]) (simp add: move_event_def handle_move_def)
  next
    case (New now ok n)
    then show ?thesis using no assms(4,5) by (intro exI [of _ "waitlist ?s"]) (simp add: handle_new_def)
  next
    case (Yield now f)
    then show ?thesis using assms by (intro exI [of _ "waitlist ?s"]) (simp add: handle_yield_def)
  next
    case (Resign f)
    then show ?thesis using no assms(2,4) by (intro exI [of _ "waitlist ?s"]) (simp add: handle_resign_def)
  next
    case (Pause now f)
    then show ?thesis using no assms(2,4) by (intro exI [of _ "waitlist ?s"]) (simp add: handle_pause_def)
  next
    case (Resume now f)
    then show ?thesis using no assms(2,4) by (intro exI [of _ "waitlist ?s"]) (simp add: handle_resume_def)
  qed (use assms(4) in simp_all)
qed

text \<open>A search whose reply will be dropped while the session still waits for it.\<close>

definition locked_out :: "web_world \<Rightarrow> bool" where
  "locked_out W \<longleftrightarrow> is_searching (now_session W) \<and> \<not> is_paused (now_session W) \<and>
     (\<forall>w \<in> set (workers W) \<union> set (passed W). wk_gen w < web_gen (now_session W))"

fun new_or_yield :: "web_event \<Rightarrow> bool" where
  "new_or_yield (New now ok n) = True"
| "new_or_yield (Yield now f) = True"
| "new_or_yield _ = False"

lemma locked_out_move:
  assumes "is_searching s" "\<not> is_paused s"
  shows "handle_move now r q s = (if not_owner (q_pid q) s then Not_owner else Searching_now, s)"
  using assms by (simp add: handle_move_def)

lemma locked_out_step:
  assumes "locked_out W" "\<not> new_or_yield e"
  shows "locked_out (web_step e W)"
proof -
  have s: "is_searching (now_session W)" "\<not> is_paused (now_session W)" using assms(1) by (simp_all add: locked_out_def)
  show ?thesis
  proof (cases e)
    case (Search_ends k now b)
    have "wk_gen (workers W ! k) \<noteq> web_gen (now_session W)" if "k < length (workers W)"
      using assms(1) nth_mem [OF that] unfolding locked_out_def by (metis UnI1 less_irrefl)
    then show ?thesis using Search_ends assms(1) set_remove_nth [of k "workers W"]
      by (auto simp: locked_out_def Let_def reply_passes_def no_reply_def)
  next
    case (Reply_is_written k now r)
    have "wk_gen (passed W ! k) \<noteq> web_gen (now_session W)" if "k < length (passed W)"
      using assms(1) nth_mem [OF that] unfolding locked_out_def by (metis UnI2 less_irrefl)
    then show ?thesis using Reply_is_written assms(1) set_remove_nth [of k "passed W"]
      by (auto simp: locked_out_def Let_def write_reply_def)
  next
    case (Move now later ok r r' q)
    then show ?thesis using assms(1) by (simp add: move_event_def locked_out_move [OF s])
  next
    case (Resign f)
    have "is_searching (snd (handle_resign f s)) = is_searching s" "is_paused (snd (handle_resign f s)) = is_paused s" for s
      by (simp_all add: handle_resign_def)
    then show ?thesis using Resign assms(1) less_le_trans [OF _ handler_gen(5)] by (simp add: locked_out_def)
  next
    case (Poll now)
    then show ?thesis using assms(1) by (simp add: locked_out_def handle_state_def Let_def)
  qed (use assms s in \<open>simp_all add: locked_out_def handle_queue_def handle_unqueue_def handle_pause_def handle_resume_def Let_def\<close>)
qed

lemma locked_out_run:
  assumes "locked_out W" "list_all (\<lambda>e. \<not> new_or_yield e) evs"
  shows "locked_out (web_run evs W)"
  using assms unfolding web_run_def by (induction evs arbitrary: W) (simp_all add: locked_out_step)

text \<open>C35 (error). A new game that fails because the engine is busy has already made the search that is on out of date: its reply is
  dropped, and the mark that a search is on stays.  Until another new game is installed, or the seat is given up, every move is refused,
  whatever else is requested and whichever searches end.\<close>

theorem busy_engine_locks_the_board:
  assumes "W = web_run evs start_world" "is_searching (now_session W)" "handle_new now ok n (now_session W) = (Engine_busy, s')"
    and "list_all (\<lambda>e. \<not> new_or_yield e) evs'"
  shows "fst (handle_move later r q (now_session (web_run evs' (W\<lparr>now_session := s'\<rparr>)))) \<in> {Not_owner, Searching_now}"
proof -
  have ok: "world_ok W" using web_run_ok [OF start_world_ok] assms(1) by simp
  have "s' = (now_session W)\<lparr>web_gen := web_gen (now_session W) + 1\<rparr>"
    using assms(3) by (auto simp: handle_new_def Let_def split: if_splits)
  then have "locked_out (W\<lparr>now_session := s'\<rparr>)"
    using assms(2) ok by (fastforce simp: locked_out_def world_ok_def session_ok_def)
  from locked_out_run [OF this assms(4)] have "locked_out (web_run evs' (W\<lparr>now_session := s'\<rparr>))" .
  then show ?thesis using locked_out_move by (simp add: locked_out_def)
qed

text \<open>Polls while the game is paused.\<close>

lemma paused_polls: "is_paused s \<Longrightarrow> fold (\<lambda>t s. snd (handle_state t s)) ts s = s"
  by (induction ts) (simp_all add: handle_state_def Let_def)

lemma to_int64_cong: "take_bit 64 a = take_bit 64 b \<Longrightarrow> to_int64 a = to_int64 b"
  using signed_take_bit_eq_iff_take_bit_eq [of 63 a b] by (simp add: to_int64_def)

lemma to_int64_id: "- (2 ^ 63) \<le> v \<Longrightarrow> v < 2 ^ 63 \<Longrightarrow> to_int64 v = v"
  by (simp add: to_int64_def signed_take_bit_int_eq_self)

lemma take_bit_to_int64: "take_bit 64 (to_int64 a) = take_bit 64 a"
  using signed_take_bit_eq_iff_take_bit_eq [of 63 "to_int64 a" a] by (simp add: to_int64_def)

lemma to_int64_shift: "to_int64 (t - to_int64 (u + to_int64 d)) = to_int64 (t - d - u)"
proof (rule to_int64_cong)
  have "take_bit 64 (t - to_int64 (u + to_int64 d)) = take_bit 64 (t - (u + d))"
    by (metis take_bit_add take_bit_diff take_bit_to_int64)
  then show "take_bit 64 (t - to_int64 (u + to_int64 d)) = take_bit 64 (t - d - u)" by (simp add: algebra_simps)
qed

lemma book_human_shift:
  assumes "s2 = s\<lparr>turn_started_ms := to_int64 (turn_started_ms s + to_int64 d), pause_started_ms := z\<rparr>"
  shows "\<exists>x. book_human t q s2 =
    (case book_human (t - d) q s of (s1, book, flags) \<Rightarrow> (s1\<lparr>turn_started_ms := x, pause_started_ms := z\<rparr>, book, flags))"
  unfolding assms
  by (intro exI [of _ "if q_seq q \<noteq> web_last_seq s \<and> \<not> web_game_over s \<and> q_moves q \<noteq> [] then t
      else to_int64 (turn_started_ms s + to_int64 d)"])
    (auto simp: book_human_def charge_def clock_of_def set_clock_def to_int64_shift Let_def)

text \<open>C30 (functional). A pause is not charged: a move at a time after a pause, with the state polled any number of times meanwhile, is
  answered as the move would be if it came earlier by the length of the pause without one; clocks, moves and result are the same.\<close>

theorem pause_is_not_charged:
  assumes "\<not> is_paused s" "handle_pause t1 pid s = (Paused, s1)" "s2 = fold (\<lambda>t s. snd (handle_state t s)) polls s1"
    and "handle_resume t2 pid s2 = (Resumed, s3)"
  shows "let after_pause = handle_move t r q s3; without = handle_move (t - (t2 - t1)) r q s in
    fst after_pause = fst without \<and> clock_white_ms (snd after_pause) = clock_white_ms (snd without) \<and>
    clock_black_ms (snd after_pause) = clock_black_ms (snd without) \<and> web_moves (snd after_pause) = web_moves (snd without) \<and>
    web_game_over (snd after_pause) = web_game_over (snd without) \<and> web_game_result (snd after_pause) = web_game_result (snd without)"
proof -
  have p: "pid \<noteq> []" "\<not> not_owner pid s" "\<not> is_searching s" "s1 = s\<lparr>pause_started_ms := t1, is_paused := True\<rparr>"
    using assms(1,2) by (auto simp: handle_pause_def split: if_splits)
  then have "s2 = s1" using paused_polls assms(3) by simp
  then have s3: "s3 = s\<lparr>turn_started_ms := to_int64 (turn_started_ms s + to_int64 (t2 - t1)), pause_started_ms := 0\<rparr>"
    using assms(1,4) p by (auto simp: handle_resume_def not_owner_def split: if_splits)
  obtain u book flags where b: "book_human (t - (t2 - t1)) q s = (u, book, flags)" by (metis prod_cases3)
  obtain x where b3: "book_human t q s3 = (u\<lparr>turn_started_ms := x, pause_started_ms := 0\<rparr>, book, flags)"
    using book_human_shift [OF s3, of t q] b by auto
  have same: "not_owner f s3 = not_owner f s" "is_paused s3 = is_paused s" "is_searching s3 = is_searching s"
    "already_answered r ms s3 = already_answered r ms s" for f ms
    by (simp_all add: s3 not_owner_def already_answered_def)
  have w: "worker_of q book (u\<lparr>turn_started_ms := x, pause_started_ms := y\<rparr>) = worker_of q book u" for x y by (simp add: worker_of_def)
  show ?thesis unfolding handle_move_def same b b3
    by (simp add: s3 w touch_activity_def Let_def)
qed

section \<open>A short session\<close>

text \<open>A client takes the seat and moves.\<close>

definition alice :: new_request where
  "alice = \<lparr>n_color = None, n_tc = None, n_level = None, n_base = None, n_inc = None, n_pid = ''a'', n_name = None\<rparr>"

definition first_move :: move_request where
  "first_move = \<lparr>q_moves = [''e2e4''], q_movetime = None, q_async = True, q_seq = 1, q_pid = ''a''\<rparr>"

definition no_result :: web_search_result where
  "no_result = \<lparr>r_valid = False, r_game_over = False, r_best_move = [], r_game_state = [], r_elapsed_ms = 0\<rparr>"

definition engine_reply :: web_search_result where
  "engine_reply = \<lparr>r_valid = True, r_game_over = False, r_best_move = ''e7e5'', r_game_state = [], r_elapsed_ms = 10\<rparr>"

definition seated :: session where
  "seated = first_session\<lparr>web_gen := 1, turn_started_ms := 1, owner_pid := ''a'', owner_name := ''Guest'', last_activity_ms := 1\<rparr>"

definition first_worker :: web_worker where
  "first_worker = \<lparr>wk_moves = [''e2e4''], wk_movetime = None, wk_wtime = 302999, wk_btime = 300000, wk_inc = 3000, wk_book = True,
     wk_human_color = ''white'', wk_gen = 1\<rparr>"

definition thinking :: web_world where
  "thinking = \<lparr>now_session = seated\<lparr>web_last_seq := 1, clock_white_ms := 302999, turn_started_ms := 2, is_searching := True, web_moves := [''e2e4'']\<rparr>,
     workers = [first_worker], passed = []\<rparr>"

lemma five_plus_three: "tp_base_ms (preset_for_idx 5) = 300000" "tp_inc_ms (preset_for_idx 5) = 3000"
  by (simp_all add: preset_for_idx_def kPresets_def kNumPresets_def)

lemma first_new: "handle_new 1 True alice first_session = (New_game, seated)"
  by (simp add: handle_new_def not_owner_def install_game_def take_seat_def set_time_control_def touch_activity_def alice_def first_session_def seated_def
      requested_color_def requested_tc_def requested_base_def requested_inc_def kDefaultTc_def kNumPresets_def five_plus_three Let_def)

lemma thinking_run: "web_run [New 1 True alice, Move 2 2 True no_result no_result first_move] start_world = thinking"
proof -
  have "handle_move 2 no_result first_move seated = (Search_started first_worker, now_session thinking)"
    by (simp add: handle_move_def not_owner_def already_answered_def book_human_def charge_def clock_of_def set_clock_def worker_of_def
        limit_movetime_def seated_def thinking_def first_session_def first_move_def first_worker_def no_result_def five_plus_three kDefaultTc_def
        to_int64_id to_int32_id)
  then show ?thesis by (simp add: web_run_def start_world_def first_new move_event_def) (simp add: thinking_def)
qed

lemma thinking_again: "\<exists>s. handle_new 9 True alice (now_session thinking) = (New_game, s) \<and> web_gen s = 2 \<and> web_moves s = []"
  by (simp add: handle_new_def not_owner_def thinking_def seated_def first_session_def alice_def install_game_def touch_activity_def take_seat_def
      set_time_control_def requested_base_def requested_inc_def Let_def)

theorem new_game_ignores_old_searches_witness:
  "\<exists>s. handle_new 9 True alice (now_session thinking) = (New_game, s) \<and>
     now_session (web_run [Search_ends 0 12 True] (thinking\<lparr>now_session := s\<rparr>)) = s"
proof -
  obtain s where s: "handle_new 9 True alice (now_session thinking) = (New_game, s)" using thinking_again by blast
  have "passed thinking = []" by (simp add: thinking_def)
  from new_game_ignores_old_searches [OF thinking_run [symmetric] this s, of "[Search_ends 0 12 True]"] s show ?thesis by simp
qed

text \<open>The reply passes the test, a new game begins, and the reply is written.\<close>

lemma thinking_passed:
  "web_run [New 1 True alice, Move 2 2 True no_result no_result first_move, Search_ends 0 8 True] start_world =
    thinking\<lparr>workers := [], passed := [first_worker]\<rparr>"
  using web_run_append [of "[New 1 True alice, Move 2 2 True no_result no_result first_move]" "[Search_ends 0 8 True]" start_world]
  by (simp add: thinking_run)
    (simp add: web_run_def thinking_def remove_nth_def reply_passes_def first_worker_def seated_def first_session_def)

theorem reply_can_reach_next_game_witness:
  "\<exists>s more. handle_new 9 True alice (now_session thinking) = (New_game, s) \<and> web_moves s = [] \<and>
     web_moves (now_session (web_step (Reply_is_written 0 10 engine_reply) (thinking\<lparr>workers := [], passed := [first_worker], now_session := s\<rparr>))) =
       ''e2e4'' # more"
proof -
  obtain s where s: "handle_new 9 True alice (now_session thinking) = (New_game, s)" "web_moves s = []" using thinking_again by blast
  have "\<exists>more. web_moves (now_session (web_step (Reply_is_written 0 10 engine_reply)
      ((thinking\<lparr>workers := [], passed := [first_worker]\<rparr>)\<lparr>now_session := s\<rparr>))) = wk_moves first_worker @ more"
    by (rule reply_can_reach_next_game [OF thinking_passed [symmetric]]) (use s in \<open>simp_all add: engine_reply_def\<close>)
  then show ?thesis using s by (simp add: first_worker_def)
qed

theorem others_cannot_touch_the_game_witness:
  "\<exists>waiting. web_step (Resign ''b'') thinking = thinking\<lparr>now_session := (now_session thinking)\<lparr>waitlist := waiting\<rparr>\<rparr>"
  by (rule others_cannot_touch_the_game [of thinking "''b''"]) (simp_all add: thinking_def seated_def)

theorem busy_engine_locks_the_board_witness:
  "\<exists>s. handle_new 9 False alice (now_session thinking) = (Engine_busy, s) \<and>
     fst (handle_move 900 no_result first_move (now_session (web_run [Search_ends 0 12 True] (thinking\<lparr>now_session := s\<rparr>)))) \<in> {Not_owner, Searching_now}"
proof -
  have "is_searching (now_session thinking)" by (simp add: thinking_def)
  moreover have "\<exists>s. handle_new 9 False alice (now_session thinking) = (Engine_busy, s)"
    by (simp add: handle_new_def not_owner_def thinking_def seated_def alice_def Let_def)
  then obtain s where "handle_new 9 False alice (now_session thinking) = (Engine_busy, s)" by blast
  ultimately show ?thesis
    using busy_engine_locks_the_board [OF thinking_run [symmetric], of 9 False alice s "[Search_ends 0 12 True]"] by simp
qed

theorem pause_is_not_charged_witness:
  "clock_white_ms (snd (handle_move 5002 no_result first_move
      (snd (handle_resume 5000 ''a'' (fold (\<lambda>t s. snd (handle_state t s)) [20, 30] (snd (handle_pause 10 ''a'' seated))))))) =
    clock_white_ms (snd (handle_move 12 no_result first_move seated))"
proof -
  let ?s1 = "snd (handle_pause 10 ''a'' seated)"
  have s1: "handle_pause 10 ''a'' seated = (Paused, ?s1)" "\<not> is_paused seated" "is_paused ?s1" "owner_pid ?s1 = ''a''"
    by (simp_all add: handle_pause_def not_owner_def seated_def first_session_def)
  have "handle_resume 5000 ''a'' (fold (\<lambda>t s. snd (handle_state t s)) [20, 30] ?s1) =
      (Resumed, snd (handle_resume 5000 ''a'' (fold (\<lambda>t s. snd (handle_state t s)) [20, 30] ?s1)))"
    using paused_polls [OF s1(3), of "[20, 30]"] s1(3,4) by (simp add: handle_resume_def not_owner_def)
  from pause_is_not_charged [OF s1(2,1) refl this, of 5002 no_result first_move] show ?thesis by (simp add: Let_def)
qed

end
