(* ===== verification/Web_Clocks.thy ===== *)
theory Web_Clocks
  imports Web_Correct
begin

text \<open>
  The clocks of the web session at their width.  While times and time controls stay within two years of milliseconds and no more than
  some thousand moves, replies and resumptions are booked, no sum leaves 64 bits, and the clocks stay non-negative; a time control that
  a client may ask for, but near the end of the type, makes a clock negative.
\<close>

section \<open>Bounds\<close>

definition far_ms :: int where
  "far_ms = 2 ^ 36"

definition near :: "int \<Rightarrow> bool" where
  "near v \<longleftrightarrow> 0 \<le> v \<and> v \<le> far_ms"

text \<open>The numbers of an event, and how many bookings it can make.\<close>

fun moderate :: "web_event \<Rightarrow> bool" where
  "moderate (Move now later ok r r' q) \<longleftrightarrow> near now \<and> near later \<and> near (r_elapsed_ms r')"
| "moderate (New now ok n) \<longleftrightarrow> near now \<and> (\<forall>b. n_base n = Some b \<longrightarrow> b \<le> far_ms) \<and> (\<forall>i. n_inc n = Some i \<longrightarrow> i \<le> far_ms)"
| "moderate (Queue f name) \<longleftrightarrow> True"
| "moderate (Unqueue f) \<longleftrightarrow> True"
| "moderate (Yield now f) \<longleftrightarrow> near now"
| "moderate (Resign f) \<longleftrightarrow> True"
| "moderate (Pause now f) \<longleftrightarrow> near now"
| "moderate (Resume now f) \<longleftrightarrow> near now"
| "moderate (Poll now) \<longleftrightarrow> near now"
| "moderate (Search_ends k now ok) \<longleftrightarrow> near now"
| "moderate (Reply_is_written k now r) \<longleftrightarrow> near now \<and> near (r_elapsed_ms r)"

fun bookings :: "web_event \<Rightarrow> nat" where
  "bookings (Move now later ok r r' q) = 2"
| "bookings (Resume now f) = 1"
| "bookings (Reply_is_written k now r) = 1"
| "bookings _ = 0"

text \<open>What holds after \<open>n\<close> bookings.\<close>

definition clocks_ok :: "nat \<Rightarrow> session \<Rightarrow> bool" where
  "clocks_ok n s \<longleftrightarrow> 0 \<le> clock_white_ms s \<and> clock_white_ms s \<le> (int n + 1)\<^sup>2 * far_ms \<and> 0 \<le> clock_black_ms s \<and>
     clock_black_ms s \<le> (int n + 1)\<^sup>2 * far_ms \<and> near (base_ms s) \<and> near (inc_ms s) \<and> near (pause_started_ms s) \<and>
     - ((int n + 1) * far_ms) \<le> turn_started_ms s \<and> turn_started_ms s \<le> (int n + 1) * far_ms"

definition small_count :: "nat \<Rightarrow> bool" where
  "small_count n \<longleftrightarrow> n < 2 ^ 13"

lemma bounds_mono:
  assumes "n \<le> m"
  shows "(int n + 1)\<^sup>2 * far_ms \<le> (int m + 1)\<^sup>2 * far_ms" "(int n + 1) * far_ms \<le> (int m + 1) * far_ms" "far_ms \<le> (int n + 1)\<^sup>2 * far_ms"
    "far_ms \<le> (int n + 1) * far_ms" "0 \<le> far_ms"
proof -
  have f: "0 \<le> far_ms" by (simp add: far_ms_def)
  have "(int n + 1)\<^sup>2 \<le> (int m + 1)\<^sup>2" "int n + 1 \<le> int m + 1" "1 \<le> (int n + 1)\<^sup>2" "1 \<le> int n + 1"
    using assms by (simp_all add: power_mono one_le_power)
  from this [THEN mult_right_mono, OF f] show "(int n + 1)\<^sup>2 * far_ms \<le> (int m + 1)\<^sup>2 * far_ms"
    "(int n + 1) * far_ms \<le> (int m + 1) * far_ms" "far_ms \<le> (int n + 1)\<^sup>2 * far_ms" "far_ms \<le> (int n + 1) * far_ms" by simp_all
  show "0 \<le> far_ms" by (rule f)
qed

lemma bound_step: "(int n + 1)\<^sup>2 * far_ms + ((int n + 1) * far_ms + far_ms) \<le> (int (Suc n) + 1)\<^sup>2 * far_ms"
proof -
  have "(int (Suc n) + 1)\<^sup>2 = (int n + 1)\<^sup>2 + (2 * int n + 3)" by (simp add: power2_eq_square algebra_simps)
  moreover have "(int n + 2) * far_ms \<le> (2 * int n + 3) * far_ms" by (rule mult_right_mono) (simp_all add: far_ms_def)
  ultimately show ?thesis by (simp add: algebra_simps)
qed

lemma bound_fits:
  assumes "small_count (Suc n)"
  shows "(int (Suc n) + 1)\<^sup>2 * far_ms \<le> 2 ^ 62" "(int (Suc n) + 1) * far_ms \<le> 2 ^ 62"
proof -
  have k: "int (Suc n) + 1 \<le> 2 ^ 13" using assms by (simp add: small_count_def)
  have "(int (Suc n) + 1)\<^sup>2 \<le> (2 ^ 13)\<^sup>2" by (rule power_mono [OF k]) simp
  then have "(int (Suc n) + 1)\<^sup>2 * far_ms \<le> (2 ^ 13)\<^sup>2 * far_ms" by (rule mult_right_mono) (simp add: far_ms_def)
  then show "(int (Suc n) + 1)\<^sup>2 * far_ms \<le> 2 ^ 62" by (simp add: far_ms_def)
  have "(int (Suc n) + 1) * far_ms \<le> 2 ^ 13 * far_ms" by (rule mult_right_mono [OF k]) (simp add: far_ms_def)
  then show "(int (Suc n) + 1) * far_ms \<le> 2 ^ 62" by (simp add: far_ms_def)
qed

lemma fits:
  fixes v :: int
  assumes "- (2 ^ 62) - 2 ^ 62 \<le> v" "v < 2 ^ 62 + 2 ^ 62"
  shows "to_int64 v = v"
  using assms by (intro to_int64_id) simp_all

lemma half_range: "(0 :: int) < 2 ^ 62"
  by simp

lemma clocks_mono: "clocks_ok n s \<Longrightarrow> n \<le> m \<Longrightarrow> clocks_ok m s"
  using bounds_mono [of n m] unfolding clocks_ok_def by linarith

lemma clock_bounds:
  assumes "clocks_ok n s"
  shows "0 \<le> clock_of c s" "clock_of c s \<le> (int n + 1)\<^sup>2 * far_ms"
  using assms by (simp_all add: clocks_ok_def clock_of_def)

section \<open>Bookings\<close>

lemma set_clock_ok:
  assumes "clocks_ok n s" "0 \<le> v" "v \<le> (int n + 1)\<^sup>2 * far_ms"
  shows "clocks_ok n (set_clock c v s)"
  using assms by (simp add: clocks_ok_def set_clock_def)

lemma charge_clocks:
  assumes "clocks_ok n s" "small_count (Suc n)" "- ((int n + 1) * far_ms) \<le> ms" "ms \<le> (int (Suc n) + 1) * far_ms"
  shows "clocks_ok (Suc n) (fst (charge c ms s))"
proof -
  note C = clock_bounds [OF assms(1), of c] and F = bound_fits [OF assms(2)] and S = bound_step [of n]
  note up = clocks_mono [OF assms(1), of "Suc n"]
  have i: "0 \<le> inc_ms s" "inc_ms s \<le> far_ms" using assms(1) by (simp_all add: clocks_ok_def near_def)
  have l: "to_int64 (clock_of c s - ms) = clock_of c s - ms"
    by (rule fits) (use C F S assms(3,4) bounds_mono(5) [of n n] half_range in linarith)+
  have "to_int64 (clock_of c s - ms + inc_ms s) = clock_of c s - ms + inc_ms s" if "0 < clock_of c s - ms"
    by (rule fits) (use that C F S assms(3) i half_range in linarith)+
  then show ?thesis unfolding charge_def l Let_def
    using C F S assms(3) i up bounds_mono(5) [of n n] by (auto intro!: set_clock_ok)
qed

lemma elapsed_bounds:
  assumes "clocks_ok n s" "small_count (Suc n)" "near now"
  shows "- ((int n + 1) * far_ms) \<le> to_int64 (now - turn_started_ms s)" "to_int64 (now - turn_started_ms s) \<le> (int (Suc n) + 1) * far_ms"
proof -
  have t: "- ((int n + 1) * far_ms) \<le> turn_started_ms s" "turn_started_ms s \<le> (int n + 1) * far_ms" using assms(1) by (simp_all add: clocks_ok_def)
  have n: "0 \<le> now" "now \<le> far_ms" using assms(3) by (simp_all add: near_def)
  have e: "(int (Suc n) + 1) * far_ms = (int n + 1) * far_ms + far_ms" by (simp add: algebra_simps)
  have "to_int64 (now - turn_started_ms s) = now - turn_started_ms s"
    by (rule fits) (use t n e bound_fits(2) [OF assms(2)] half_range in linarith)+
  then show "- ((int n + 1) * far_ms) \<le> to_int64 (now - turn_started_ms s)" "to_int64 (now - turn_started_ms s) \<le> (int (Suc n) + 1) * far_ms"
    using t n e by linarith+
qed

lemma anchor_ok:
  assumes "clocks_ok n s" "near now"
  shows "clocks_ok n (s\<lparr>turn_started_ms := now\<rparr>)"
proof -
  have "- ((int n + 1) * far_ms) \<le> now" "now \<le> (int n + 1) * far_ms"
    using assms(2) bounds_mono(4,5) [of n n] by (simp_all add: near_def)
  then show ?thesis using assms(1) by (simp add: clocks_ok_def)
qed

lemma clocks_kept [simp]:
  "clocks_ok n (s\<lparr>web_last_seq := q\<rparr>) = clocks_ok n s" "clocks_ok n (s\<lparr>is_searching := b\<rparr>) = clocks_ok n s"
  "clocks_ok n (s\<lparr>web_moves := ms\<rparr>) = clocks_ok n s" "clocks_ok n (s\<lparr>web_game_over := b\<rparr>) = clocks_ok n s"
  "clocks_ok n (s\<lparr>web_game_result := r\<rparr>) = clocks_ok n s" "clocks_ok n (touch_activity now s) = clocks_ok n s"
  "clocks_ok n (s\<lparr>web_gen := g\<rparr>) = clocks_ok n s" "clocks_ok n (s\<lparr>waitlist := w\<rparr>) = clocks_ok n s"
  "clocks_ok n (s\<lparr>is_paused := b\<rparr>) = clocks_ok n s" "clocks_ok n (s\<lparr>owner_pid := f\<rparr>) = clocks_ok n s"
  "clocks_ok n (s\<lparr>owner_name := f\<rparr>) = clocks_ok n s"
  by (simp_all add: clocks_ok_def touch_activity_def)

lemma book_human_clocks:
  assumes "clocks_ok n s" "small_count (Suc n)" "near now"
  shows "clocks_ok (Suc n) (fst (book_human now q s))"
proof -
  let ?s = "s\<lparr>web_last_seq := q_seq q\<rparr>"
  have s: "clocks_ok n ?s" using assms(1) by simp
  have "clocks_ok (Suc n) (fst (charge (human_color s) (to_int64 (now - turn_started_ms s)) ?s))"
    using charge_clocks [OF s assms(2) elapsed_bounds [OF assms]] .
  then show ?thesis using anchor_ok assms(3) clocks_mono [OF assms(1), of "Suc n"]
    by (simp add: book_human_def Let_def case_prod_unfold)
qed

lemma finish_search_clocks:
  assumes "clocks_ok n s" "small_count (Suc n)" "near now" "near (r_elapsed_ms r)"
  shows "clocks_ok (Suc n) (snd (finish_search now r w s))"
proof -
  have e: "- ((int n + 1) * far_ms) \<le> r_elapsed_ms r" "r_elapsed_ms r \<le> (int (Suc n) + 1) * far_ms"
    using assms(4) bounds_mono(4,5) [of n n] bounds_mono(4) [of "Suc n" "Suc n"] by (auto simp: near_def)
  have up: "clocks_ok (Suc n) s" using clocks_mono [OF assms(1)] by simp
  have "clocks_ok (Suc n) (fst (book_engine now r w s))"
    using anchor_ok [OF charge_clocks [OF assms(1,2) e] assms(3)] anchor_ok [OF up assms(3)] up
    by (simp add: book_engine_def Let_def case_prod_unfold)
  then show ?thesis by (simp add: finish_search_def Let_def case_prod_unfold split: option.split)
qed

section \<open>Events\<close>

lemma preset_near: "near (tp_base_ms (preset_for_idx i))" "near (tp_inc_ms (preset_for_idx i))"
proof -
  have "\<forall>p \<in> set kPresets. near (tp_base_ms p) \<and> near (tp_inc_ms p)" by (simp add: kPresets_def near_def far_ms_def)
  moreover have "preset_for_idx i \<in> set kPresets"
    unfolding preset_for_idx_def by (rule nth_mem) (simp add: kPresets_def kNumPresets_def kDefaultTc_def nat_less_iff)
  ultimately show "near (tp_base_ms (preset_for_idx i))" "near (tp_inc_ms (preset_for_idx i))" by blast+
qed

lemma new_clocks:
  assumes "clocks_ok n s" "moderate (New now ok q)"
  shows "clocks_ok n (snd (handle_new now ok q s))"
proof -
  have far: "to_int64 v = v" if "0 \<le> v" "v \<le> far_ms" for v by (rule to_int64_id) (use that in \<open>simp_all add: far_ms_def\<close>)
  let ?t = "set_time_control q (s\<lparr>web_gen := web_gen s + 1, human_color := requested_color q, web_tc := requested_tc q\<rparr>)"
  have t: "near (base_ms ?t)" "near (inc_ms ?t)" using assms preset_near
    by (auto simp: set_time_control_def requested_base_def requested_inc_def clocks_ok_def near_def far split: option.splits if_splits)
  have "near now" using assms(2) by simp
  then have "clocks_ok n (install_game now q (s\<lparr>web_gen := web_gen s + 1\<rparr>))"
    using t bounds_mono [of n n] unfolding install_game_def Let_def
    by (simp add: take_seat_def Let_def) (auto simp: clocks_ok_def near_def)
  then show ?thesis using assms(1) by (simp add: handle_new_def Let_def)
qed

lemma resume_clocks:
  assumes "clocks_ok n s" "small_count (Suc n)" "near now"
  shows "clocks_ok (Suc n) (snd (handle_resume now pid s))"
proof -
  let ?d = "now - pause_started_ms s"
  have t: "- ((int n + 1) * far_ms) \<le> turn_started_ms s" "turn_started_ms s \<le> (int n + 1) * far_ms" using assms(1) by (simp_all add: clocks_ok_def)
  have d: "- far_ms \<le> ?d" "?d \<le> far_ms" using assms(1,3) by (auto simp: clocks_ok_def near_def)
  have e: "(int (Suc n) + 1) * far_ms = (int n + 1) * far_ms + far_ms" by (simp add: algebra_simps)
  have "to_int64 ?d = ?d" by (rule to_int64_id) (use d in \<open>simp_all add: far_ms_def\<close>)
  moreover have "to_int64 (turn_started_ms s + ?d) = turn_started_ms s + ?d"
    by (rule fits) (use t d e bound_fits(2) [OF assms(2)] half_range in linarith)+
  ultimately show ?thesis using clocks_mono [OF assms(1), of "Suc n"] t d e bounds_mono(5) [of n n]
    by (auto simp: handle_resume_def clocks_ok_def near_def)
qed

lemma untimed_clocks:
  assumes "clocks_ok n s"
  shows "clocks_ok n (snd (handle_resign pid s))" "clocks_ok n (snd (handle_queue pid name s))" "clocks_ok n (snd (handle_unqueue pid s))"
  using assms by (simp_all add: handle_resign_def handle_queue_def handle_unqueue_def Let_def)

lemma other_clocks:
  assumes "clocks_ok n s" "near now"
  shows "clocks_ok n (snd (handle_yield now pid s))" "clocks_ok n (snd (handle_pause now pid s))" "clocks_ok n (snd (handle_state now s))"
    "clocks_ok n (no_reply now ok w s)"
proof -
  have b: "near (base_ms s)" "base_ms s \<le> (int n + 1)\<^sup>2 * far_ms" using assms(1) bounds_mono(3) [of n n] by (auto simp: clocks_ok_def near_def)
  show "clocks_ok n (snd (handle_yield now pid s))" using b assms bounds_mono [of n n]
    by (simp add: handle_yield_def Let_def) (auto simp: clocks_ok_def near_def)
  show "clocks_ok n (snd (handle_pause now pid s))" using assms by (simp add: handle_pause_def) (simp add: clocks_ok_def)
  have z: "0 \<le> (int n + 1)\<^sup>2 * far_ms" using bounds_mono(3,5) [of n n] by linarith
  show "clocks_ok n (snd (handle_state now s))"
    using assms(1) z by (simp add: handle_state_def Let_def set_clock_ok)
qed (use assms in \<open>simp_all add: no_reply_def anchor_ok\<close>)

lemma move_clocks:
  assumes "clocks_ok n (now_session W)" "small_count (Suc (Suc n))" "near now" "near later" "near (r_elapsed_ms r')"
  shows "clocks_ok (Suc (Suc n)) (now_session (snd (move_event now later ok r r' q W)))"
proof -
  have c: "small_count (Suc n)" using assms(2) by (simp add: small_count_def)
  obtain reply s' where h: "handle_move now r q (now_session W) = (reply, s')" by fastforce
  have s: "clocks_ok (Suc n) s'"
    using h book_human_clocks [OF assms(1) c assms(3), of q] clocks_mono [OF assms(1), of "Suc n"]
    by (auto simp: handle_move_def case_prod_unfold Let_def split: if_splits)
  note up = clocks_mono [OF s, of "Suc (Suc n)"]
  have "clocks_ok (Suc (Suc n)) (snd (finish_inline later ok r' w s'))" for w
    using finish_search_clocks [OF s assms(2,4,5)] anchor_ok [OF _ assms(4)] up by (simp add: finish_inline_def)
  then show ?thesis using up by (cases reply) (simp_all add: move_event_def h case_prod_unfold)
qed

lemma step_clocks:
  assumes "clocks_ok n (now_session W)" "small_count (n + bookings e)" "moderate e"
  shows "clocks_ok (n + bookings e) (now_session (web_step e W))"
proof (cases e)
  case (Move now later ok r r' q)
  then show ?thesis using assms move_clocks [of n W now later r' ok r q] by simp
next
  case (New now ok q)
  then show ?thesis using assms new_clocks [of n "now_session W" now ok q] by simp
next
  case (Resume now f)
  then show ?thesis using assms resume_clocks [of n "now_session W" now f] by simp
next
  case (Reply_is_written k now r)
  then show ?thesis using assms finish_search_clocks [of n "now_session W" now r] clocks_mono [of n "now_session W" "Suc n"]
    by (simp add: write_reply_def Let_def)
next
  case (Search_ends k now ok)
  then show ?thesis using assms other_clocks(4) by (simp add: Let_def)
qed (use assms other_clocks untimed_clocks in \<open>simp_all\<close>)

lemma run_clocks:
  assumes "clocks_ok n (now_session W)" "small_count (n + sum_list (map bookings evs))" "list_all moderate evs"
  shows "clocks_ok (n + sum_list (map bookings evs)) (now_session (web_run evs W))"
  using assms
proof (induction evs arbitrary: n W)
  case (Cons e evs)
  have "small_count (n + bookings e)" using Cons.prems(2) by (simp add: small_count_def)
  then show ?case using Cons.IH [of "n + bookings e" "web_step e W"] Cons.prems step_clocks [of n W e] by (simp add: web_run_def add.assoc)
qed (simp add: web_run_def)

lemma start_clocks: "clocks_ok 0 (now_session start_world)"
  using preset_near [of kDefaultTc] by (simp add: clocks_ok_def start_world_def first_session_def near_def far_ms_def)

section \<open>Properties\<close>

text \<open>C27 (invariant). Whatever the order of requests and ends of searches and whatever they carry: no client waits twice, the colour
  is one of the two, and the game is never paused while the engine searches.  And as long as times and time controls are below \<open>far_ms\<close>
  (two years) and fewer than 8192 bookings have been made, a move with its reply counting as two: clocks, base and increment are not
  negative, and none of their 64-bit sums has wrapped.\<close>

theorem session_stays_sound:
  "let s = now_session (web_run evs start_world) in
     distinct (map fst (waitlist s)) \<and> human_color s \<in> {''white'', ''black''} \<and> \<not> (is_paused s \<and> is_searching s) \<and>
     (list_all moderate evs \<and> sum_list (map bookings evs) < 8192 \<longrightarrow>
       0 \<le> clock_white_ms s \<and> 0 \<le> clock_black_ms s \<and> 0 \<le> base_ms s \<and> 0 \<le> inc_ms s)"
  using web_run_ok [OF start_world_ok, of evs] run_clocks [OF start_clocks, of evs]
  by (auto simp: world_ok_def session_ok_def clocks_ok_def near_def small_count_def Let_def)

theorem session_stays_sound_witness:
  "let s = now_session (web_run [New 1 True alice, Move 2 2 True no_result no_result first_move] start_world) in
     0 \<le> clock_white_ms s \<and> 0 \<le> clock_black_ms s"
  using session_stays_sound [of "[New 1 True alice, Move 2 2 True no_result no_result first_move]"]
  by (simp add: Let_def near_def far_ms_def alice_def no_result_def)

text \<open>Without the bounds a clock can become negative: the increment is added without a test.\<close>

theorem huge_time_control_wraps:
  "clock_white_ms (now_session (web_run
     [New 1 True (alice\<lparr>n_base := Some (9 * 10 ^ 18), n_inc := Some (9 * 10 ^ 18)\<rparr>), Move 2 2 True no_result no_result first_move] start_world)) < 0"
proof -
  let ?n = "alice\<lparr>n_base := Some (9 * 10 ^ 18), n_inc := Some (9 * 10 ^ 18)\<rparr>"
  let ?s = "seated\<lparr>base_ms := 9 * 10 ^ 18, inc_ms := 9 * 10 ^ 18, clock_white_ms := 9 * 10 ^ 18, clock_black_ms := 9 * 10 ^ 18\<rparr>"
  have new: "handle_new 1 True ?n first_session = (New_game, ?s)"
    by (simp add: handle_new_def not_owner_def install_game_def take_seat_def set_time_control_def touch_activity_def alice_def first_session_def seated_def
      requested_color_def requested_tc_def requested_base_def requested_inc_def kDefaultTc_def kNumPresets_def to_int64_id Let_def)
  have moved: "clock_white_ms (snd (handle_move 2 no_result first_move ?s)) = to_int64 (9 * 10 ^ 18 - 1 + 9 * 10 ^ 18)"
    "fst (handle_move 2 no_result first_move ?s) \<noteq> Not_owner \<and> q_async first_move"
    by (simp_all add: handle_move_def not_owner_def already_answered_def book_human_def charge_def clock_of_def
      set_clock_def worker_of_def seated_def first_session_def first_move_def no_result_def kDefaultTc_def to_int64_id)
  have run: "now_session (web_run [New 1 True ?n, Move 2 2 True no_result no_result first_move] start_world) =
      now_session (snd (move_event 2 2 True no_result no_result first_move (start_world\<lparr>now_session := ?s\<rparr>)))"
    unfolding web_run_def start_world_def by (simp only: fold_simps id_apply comp_apply web_step.simps web_world.simps new snd_conv)
  have "handle_move 2 no_result first_move ?s = (Search_started w, t) \<Longrightarrow>
      now_session (snd (move_event 2 2 True no_result no_result first_move (start_world\<lparr>now_session := ?s\<rparr>))) = t" for w t
    by (simp add: move_event_def)
  moreover obtain w t where "handle_move 2 no_result first_move ?s = (Search_started w, t)"
    by (simp add: handle_move_def not_owner_def already_answered_def book_human_def charge_def clock_of_def
      set_clock_def worker_of_def seated_def first_session_def first_move_def no_result_def kDefaultTc_def to_int64_id)
  ultimately have "clock_white_ms (now_session (web_run [New 1 True ?n, Move 2 2 True no_result no_result first_move] start_world)) =
      to_int64 (9 * 10 ^ 18 - 1 + 9 * 10 ^ 18)" unfolding run using moved(1) by simp
  then show ?thesis by (simp add: to_int64_def signed_take_bit_def)
qed

end
