(* ===== verification/Perft.thy ===== *)
theory Perft
  imports Fair_Play
begin

text \<open>
  Counting the lines of play, \<open>do_perft\<close> of \<open>tui.cpp\<close>.  The generators list every move once, in check or not, so the
  count is the number of lines of legal chess.
\<close>

section \<open>Every move is generated once\<close>

lemma distinct_concat_keyed:
  assumes "\<And>s. on_board s \<Longrightarrow> bit w (nat s) \<Longrightarrow> distinct (g s) \<and> (\<forall>m\<in>set (g s). key m = s)"
  shows "distinct (concat (map g (bb_squares w)))"
proof -
  have "distinct (concat (map g ss))" if "distinct ss" "\<forall>s\<in>set ss. distinct (g s) \<and> (\<forall>m\<in>set (g s). key m = s)" for ss
    using that
  proof (induction ss)
    case (Cons s ss)
    have "set (g s) \<inter> set (g u) = {}" if "u \<in> set ss" for u
      using Cons.prems that by (auto 0 3)
    then show ?case using Cons by auto
  qed simp
  then show ?thesis using assms by simp
qed

lemma distinct_append_by:
  assumes "distinct xs" "distinct ys" "\<forall>m\<in>set xs. P m" "\<forall>m\<in>set ys. \<not> P m"
  shows "distinct (xs @ ys)"
  using assms by auto

lemma distinct_three:
  assumes "distinct xs" "distinct ys" "distinct zs" "A \<noteq> B" "A \<noteq> C" "B \<noteq> C"
    and "\<forall>m\<in>set xs. move_type m = A \<and> Q m" "\<forall>m\<in>set ys. move_type m = B \<and> Q m" "\<forall>m\<in>set zs. move_type m = C \<and> Q m"
  shows "distinct (xs @ ys @ zs)" "\<forall>m\<in>set (xs @ ys @ zs). move_type m \<in> {A, B, C} \<and> Q m"
  using assms by auto

lemma distinct_map_keyed:
  assumes "\<And>s. on_board s \<Longrightarrow> bit w (nat s) \<Longrightarrow> key (h s) = s"
  shows "distinct (map h (bb_squares w))"
  using assms by (auto simp: distinct_map intro: inj_on_inverseI [of _ key])

lemma distinct_promotions:
  assumes "on_board f" "on_board t"
  shows "distinct (promotions f t ty)" "distinct (evasion_promotions f t ty)"
proof -
  have *: "distinct (map (\<lambda>pt. mk_move_promo f t pt ty) pts)" if "distinct pts" "set pts \<subseteq> {QUEEN, KNIGHT, ROOK, BISHOP}" for pts
    unfolding distinct_map using that(1)
    by (auto intro!: inj_on_inverseI [of _ "\<lambda>m. the (promotion_piece_type m)"] dest!: subsetD [OF that(2)]
      simp: mk_move_promo_fields [OF assms])
  show "distinct (promotions f t ty)" "distinct (evasion_promotions f t ty)"
    unfolding promotions_def evasion_promotions_def by (rule *; simp)+
qed

lemma promotions_fields:
  assumes "on_board f" "on_board t"
  shows "\<forall>m\<in>set (promotions f t ty). from_square m = f" "\<forall>m\<in>set (promotions f t ty). to_square m = t"
    "\<forall>m\<in>set (promotions f t ty). move_type m = ty"
  by (simp_all add: mem_promotions mk_move_promo_fields [OF assms] ball_conj_distrib promotions_def)

lemma distinct_quiet_promotions: "distinct (generate_quiet_promotions p c)"
  unfolding generate_quiet_promotions_def Let_def
proof (rule distinct_concat_keyed [where key = to_square], rule conjI)
  fix t assume "on_board t" "bit (pawn_shift_bb (piece_type_color_bb p PAWN c AND relative_rank_mask 6 c) c 1 AND NOT (occupancy_bb p)) (nat t)"
  then have t: "on_board t" "on_board (pawn_shift t (opp c) 1)" by (simp_all add: gen_bits del: set_concat set_map)
  show "distinct (promotions (pawn_shift t (opp c) 1) t PROMOTION)" by (rule distinct_promotions [OF t(2,1)])
  show "\<forall>m\<in>set (promotions (pawn_shift t (opp c) 1) t PROMOTION). to_square m = t" by (rule promotions_fields [OF t(2,1)])
qed

lemma distinct_capture_promotions: "distinct (generate_capture_promotions p c)"
  unfolding generate_capture_promotions_def Let_def
proof (rule distinct_concat_keyed [where key = from_square], rule conjI)
  fix f assume f: "on_board f"
  show "distinct (concat (map (\<lambda>t. promotions f t CAPTURE_PROMOTION) (bb_squares (pawn_attacks f c AND pos_color_bb p (opp c)))))"
    by (rule distinct_concat_keyed [where key = to_square]) (use distinct_promotions(1) [OF f] promotions_fields(2) [OF f] in blast)
  show "\<forall>m\<in>set (concat (map (\<lambda>t. promotions f t CAPTURE_PROMOTION) (bb_squares (pawn_attacks f c AND pos_color_bb p (opp c))))).
      from_square m = f"
    unfolding Ball_def mem_loop using promotions_fields(1) [OF f] by blast
qed

lemma distinct_non_pawn:
  "distinct (generate_non_pawn_quiets pt p c)" "distinct (generate_non_pawn_captures pt p c)"
  unfolding generate_non_pawn_quiets_def generate_non_pawn_captures_def Let_def
  by (rule distinct_concat_keyed [where key = from_square], rule conjI, rule distinct_map_keyed [where key = to_square];
    auto simp: mk_move_fields)+

lemma distinct_pawn_quiets: "distinct (generate_pawn_quiets p c)"
proof -
  let ?one = "pawn_shift_bb (piece_type_color_bb p PAWN c AND NOT (relative_rank_mask 6 c)) c 1 AND NOT (occupancy_bb p)"
  let ?two = "pawn_shift_bb (?one AND relative_rank_mask 2 c) c 1 AND NOT (occupancy_bb p)"
  have far: "on_board (pawn_shift t (opp c) 2)" if "on_board t" "bit ?two (nat t)" for t
    using that pawn_shift_twice [of t "opp c"] by (simp add: gen_bits del: set_concat set_map cong: conj_cong)
  have "distinct (map (\<lambda>t. mk_move (pawn_shift t (opp c) 2) t DOUBLE_PUSH) (bb_squares ?two))"
    by (rule distinct_map_keyed [where key = to_square]) (simp add: far mk_move_fields)
  moreover have "distinct (map (\<lambda>t. mk_move (pawn_shift t (opp c) 1) t NORMAL) (bb_squares ?one))"
    by (rule distinct_map_keyed [where key = to_square]) (simp add: gen_bits mk_move_fields del: set_concat set_map)
  moreover have "\<forall>m\<in>set (map (\<lambda>t. mk_move (pawn_shift t (opp c) 2) t DOUBLE_PUSH) (bb_squares ?two)). move_type m = DOUBLE_PUSH"
    unfolding Ball_def mem_loop by (auto simp: far mk_move_fields)
  moreover have "\<forall>m\<in>set (map (\<lambda>t. mk_move (pawn_shift t (opp c) 1) t NORMAL) (bb_squares ?one)). move_type m = NORMAL"
    unfolding Ball_def mem_loop by (auto simp: gen_bits mk_move_fields simp del: set_concat set_map)
  moreover have "\<forall>m\<in>set (generate_quiet_promotions p c). move_type m = PROMOTION"
    unfolding mem_quiet_promotions Ball_def by (auto simp: mk_move_promo_fields)
  ultimately show ?thesis unfolding generate_pawn_quiets_def Let_def
    by (intro distinct_append_by [where P = "\<lambda>m. move_type m = PROMOTION"] distinct_append_by [where P = "\<lambda>m. move_type m = DOUBLE_PUSH"]
        distinct_quiet_promotions) (simp_all add: ball_Un)
qed

lemma distinct_pawn_captures:
  assumes "ep_on_board p"
  shows "distinct (generate_pawn_captures p c)"
proof -
  let ?ep = "case enpassant_square p of None \<Rightarrow> [] | Some ep_sq \<Rightarrow> map (\<lambda>sq. mk_move sq ep_sq ENPASSANT)
      (bb_squares (pos_piece_bb p PAWN AND pos_color_bb p c AND pawn_attacks ep_sq (opp c)))"
  let ?cap = "\<lambda>f. map (\<lambda>to_sq. mk_move f to_sq CAPTURE) (bb_squares (pawn_attacks f c AND pos_color_bb p (opp c)))"
  have "distinct ?ep" "\<forall>m\<in>set ?ep. move_type m = ENPASSANT"
  proof -
    have "distinct (map (\<lambda>sq. mk_move sq e ENPASSANT) (bb_squares w))" if "on_board e" for e w
      by (rule distinct_map_keyed [where key = from_square]) (simp add: that mk_move_fields)
    then show "distinct ?ep" using assms by (simp add: ep_on_board_def split: option.split)
    show "\<forall>m\<in>set ?ep. move_type m = ENPASSANT" using assms by (auto simp: ep_on_board_def mk_move_fields split: option.split)
  qed
  moreover have "distinct (concat (map ?cap (bb_squares w)))" for w
    by (rule distinct_concat_keyed [where key = from_square], rule conjI, rule distinct_map_keyed [where key = to_square])
      (auto simp: mk_move_fields)
  moreover have "\<forall>m\<in>set (concat (map ?cap (bb_squares w))). move_type m = CAPTURE" for w
    by (auto simp: mk_move_fields)
  moreover have "\<forall>m\<in>set (generate_capture_promotions p c). move_type m = CAPTURE_PROMOTION"
    unfolding mem_capture_promotions Ball_def by (auto simp: mk_move_promo_fields)
  ultimately show ?thesis unfolding generate_pawn_captures_def Let_def
    by (intro distinct_append_by [where P = "\<lambda>m. move_type m = CAPTURE_PROMOTION"] distinct_append_by [where P = "\<lambda>m. move_type m = ENPASSANT"]
        distinct_capture_promotions) (simp_all add: ball_Un del: set_concat)
qed

lemma distinct_pieces:
  assumes "board_ok p" "distinct pts"
  shows "distinct (concat (map (\<lambda>pt. generate_non_pawn_quiets pt p c) pts))" (is "distinct (concat (map ?q pts))")
    and "distinct (concat (map (\<lambda>pt. generate_non_pawn_captures pt p c) pts))" (is "distinct (concat (map ?k pts))")
proof -
  have q: "set (?q pt) \<inter> set (?q pt') = {}" "set (?k pt) \<inter> set (?k pt') = {}" if "pt \<noteq> pt'" for pt pt'
  proof -
    have *: "from_square m = f \<and> has p f pt c \<Longrightarrow> from_square m = f' \<and> has p f' pt' c \<Longrightarrow> False" for m f f'
      using has_unique [OF assms(1), of f pt c pt' c] that by auto
    show "set (?q pt) \<inter> set (?q pt') = {}" "set (?k pt) \<inter> set (?k pt') = {}"
      unfolding disjoint_iff mem_non_pawn_quiets mem_non_pawn_captures by (metis * mk_move_fields(1))+
  qed
  have all: "distinct (concat (map g xs))" if xs: "distinct xs" and own: "\<And>x. distinct (g x)" and apart: "\<And>x y. x \<noteq> y \<Longrightarrow> set (g x) \<inter> set (g y) = {}"
    for g :: "piece_type \<Rightarrow> move_list" and xs
    using xs
  proof (induction xs)
    case (Cons x xs)
    then have "set (g x) \<inter> set (g y) = {}" if "y \<in> set xs" for y using that apart [of x y] by auto
    then show ?case using Cons own by auto
  qed simp
  show "distinct (concat (map ?q pts))" "distinct (concat (map ?k pts))"
    by (rule all; simp add: assms(2) distinct_non_pawn q)+
qed

lemma distinct_castling: "distinct (generate_castling p c)"
proof -
  have ne: "mk_move a b CASTLING \<noteq> mk_move a d CASTLING" if "on_board a" "on_board b" "on_board d" "b \<noteq> d" for a b d
    using mk_move_fields(2) [OF that(1,2), of CASTLING] mk_move_fields(2) [OF that(1,3), of CASTLING] that(4) by metis
  have two: "distinct ((if P then [x] else []) @ (if Q then [y] else []))" if "x \<noteq> y" for P Q and x y :: move
    using that by auto
  show ?thesis
    unfolding generate_castling_def Let_def castling_possibilities_def castling_intermediate_sqs_def castling_king_sqs_def castle_mask_def
    by (cases c; simp only: color.case prod.case; rule two; rule ne; simp add: on_board_def)
qed

lemma distinct_pseudo_legal_of:
  assumes "board_ok p" "rights_ok p" "ep_on_board p"
  shows "distinct (pseudo_legal_move_list_of p c)"
proof -
  let ?pts = "[KNIGHT, BISHOP, ROOK, QUEEN, KING]"
  let ?q = "concat (map (\<lambda>pt. generate_non_pawn_quiets pt p c) ?pts)" and ?k = "concat (map (\<lambda>pt. generate_non_pawn_captures pt p c) ?pts)"
  have nopawn: "\<not> has p (from_square m) PAWN c" if "m \<in> set ?q \<or> m \<in> set ?k" for m
  proof -
    have "\<exists>pt\<in>set ?pts. m \<in> set (generate_non_pawn_quiets pt p c) \<or> m \<in> set (generate_non_pawn_captures pt p c)"
      using that by auto
    then obtain pt where "has p (from_square m) pt c" "pt \<noteq> PAWN"
      unfolding mem_non_pawn_quiets mem_non_pawn_captures by (auto simp: mk_move_fields)
    then show ?thesis using has_unique [OF assms(1)] by blast
  qed
  have q: "\<forall>m\<in>set ?q. move_type m = NORMAL" "\<forall>m\<in>set ?k. move_type m = CAPTURE"
    by (auto simp: mem_non_pawn_quiets mem_non_pawn_captures mk_move_fields)
  have pq: "\<forall>m\<in>set (generate_pawn_quiets p c). has p (from_square m) PAWN c \<and> move_type m \<in> {NORMAL, DOUBLE_PUSH, PROMOTION}"
    unfolding Ball_def mem_pawn_quiets using pawn_push_facts by blast
  have pk: "\<forall>m\<in>set (generate_pawn_captures p c). has p (from_square m) PAWN c \<and> move_type m \<in> {CAPTURE, CAPTURE_PROMOTION, ENPASSANT}"
  proof
    fix m assume "m \<in> set (generate_pawn_captures p c)"
    then have "pawn_capture p c m" by (simp add: mem_pawn_captures [OF assms(3)])
    then show "has p (from_square m) PAWN c \<and> move_type m \<in> {CAPTURE, CAPTURE_PROMOTION, ENPASSANT}"
      using pawn_capture_facts [of p c m] mk_move_fields(4) [OF from_square_on_board to_square_on_board, of m m ENPASSANT] by auto
  qed
  have cs: "\<forall>m\<in>set (generate_castling p c). move_type m = CASTLING"
    unfolding Ball_def mem_castling using castle_move_facts(4) [OF assms(2)] by blast
  have "distinct (generate_quiet_moves p c)" unfolding generate_quiet_moves_def
    by (intro distinct_append_by [where P = "\<lambda>m. has p (from_square m) PAWN c \<and> move_type m \<noteq> CASTLING"]
          distinct_append_by [where P = "\<lambda>m. move_type m = NORMAL"] distinct_pawn_quiets distinct_pieces distinct_castling assms(1))
      (use pq q cs nopawn in \<open>auto simp del: set_concat\<close>)
  moreover have "distinct (generate_capture_moves p c)" unfolding generate_capture_moves_def
    by (intro distinct_append_by [where P = "\<lambda>m. has p (from_square m) PAWN c"] distinct_pawn_captures distinct_pieces assms(1,3))
      (use pk nopawn in \<open>auto simp del: set_concat\<close>)
  moreover have "\<forall>m\<in>set (generate_capture_moves p c). move_type m \<in> {CAPTURE, CAPTURE_PROMOTION, ENPASSANT}"
    unfolding generate_capture_moves_def set_append ball_Un using pk q(2) by blast
  moreover have "\<forall>m\<in>set (generate_quiet_moves p c). move_type m \<notin> {CAPTURE, CAPTURE_PROMOTION, ENPASSANT}"
    unfolding generate_quiet_moves_def set_append ball_Un using pq q(1) cs by fastforce
  ultimately show ?thesis unfolding pseudo_legal_move_list_of_def
    by (intro distinct_append_by [where P = "\<lambda>m. move_type m \<in> {CAPTURE, CAPTURE_PROMOTION, ENPASSANT}"])
qed

text \<open>The evasions.\<close>

lemma king_step_list:
  assumes "has_king p c"
  shows "distinct (concat (map (\<lambda>sq. if Q sq then [mk_move (king_square p c) sq (ty sq)] else []) (bb_squares w)))" (is "distinct ?ms")
    and "\<forall>m\<in>set (concat (map (\<lambda>sq. if Q sq then [mk_move (king_square p c) sq (ty sq)] else []) (bb_squares w))). from_square m = king_square p c"
proof -
  note k = king_square_has(1) [OF assms]
  show "distinct ?ms" by (rule distinct_concat_keyed [where key = to_square]) (auto simp: mk_move_fields k)
  show "\<forall>m\<in>set ?ms. from_square m = king_square p c" by (auto simp: mk_move_fields k split: if_splits)
qed

lemma pawn_not_king: "board_ok p \<Longrightarrow> has_king p c \<Longrightarrow> has p f PAWN c \<Longrightarrow> f \<noteq> king_square p c"
  using has_unique king_square_has(2) by blast

lemma checker_capture_list:
  assumes "board_ok p" "ep_on_board p" "has_king p c" "checkers_to p c \<noteq> 0"
  shows "distinct (generate_checker_capture_moves p c)"
    and "\<forall>m\<in>set (generate_checker_capture_moves p c). move_type m \<in> {ENPASSANT, CAPTURE_PROMOTION, CAPTURE} \<and> from_square m \<noteq> king_square p c"
proof -
  let ?k = "king_square p c" and ?s = "checker_sq p c" and ?pawns = "piece_type_color_bb p PAWN c"
  let ?r7 = "?pawns AND relative_rank_mask 6 c"
  let ?att = "attackers_to_of p ?s c AND NOT (square_bb ?k)"
  let ?ep = "case enpassant_square p of None \<Rightarrow> [] | Some ep_square \<Rightarrow>
      if pawn_shift_bb (square_bb ep_square) (opp c) 1 AND checkers_to p c \<noteq> 0
      then map (\<lambda>sq. mk_move sq ep_square ENPASSANT) (bb_squares (?pawns AND pawn_attacks ep_square (opp c))) else []"
  let ?pro = "concat (map (\<lambda>sq. evasion_promotions sq ?s CAPTURE_PROMOTION) (bb_squares (?att AND ?r7)))"
  let ?cap = "map (\<lambda>sq. mk_move sq ?s CAPTURE) (bb_squares (?att AND NOT ?r7))"
  note k = king_square_has(1) [OF assms(3)] and s = forward_bitscan_on_board [OF assms(4)]
  have "distinct (map (\<lambda>sq. mk_move sq e ENPASSANT) (bb_squares w))" if "on_board e" for e w
    by (rule distinct_map_keyed [where key = from_square]) (simp add: that mk_move_fields)
  then have ep: "distinct ?ep" using assms(2) by (simp add: ep_on_board_def split: option.split)
  have ep2: "\<forall>m\<in>set ?ep. move_type m = ENPASSANT \<and> from_square m \<noteq> ?k"
    using assms(2) pawn_not_king [OF assms(1,3)]
    by (auto simp: ep_on_board_def mk_move_fields bit_and_iff bit_piece_type_color split: option.split)
  have pro: "distinct ?pro"
    by (rule distinct_concat_keyed [where key = from_square])
      (use distinct_promotions(2) [OF _ s] promotions_fields(1) [OF _ s] mem_evasion_promotions in blast)
  have pro2: "\<forall>m\<in>set ?pro. move_type m = CAPTURE_PROMOTION \<and> from_square m \<noteq> ?k"
  proof
    fix m assume "m \<in> set ?pro"
    then obtain f where f: "on_board f" "has p f PAWN c" "m \<in> set (promotions f ?s CAPTURE_PROMOTION)"
      unfolding mem_loop mem_evasion_promotions bit_and_iff bit_piece_type_color by blast
    then show "move_type m = CAPTURE_PROMOTION \<and> from_square m \<noteq> ?k"
      using promotions_fields(1,3) [OF f(1) s, of CAPTURE_PROMOTION] pawn_not_king [OF assms(1,3) f(2)] by auto
  qed
  have cap: "distinct ?cap" by (rule distinct_map_keyed [where key = from_square]) (simp add: s mk_move_fields)
  have cap2: "\<forall>m\<in>set ?cap. move_type m = CAPTURE \<and> from_square m \<noteq> ?k"
    by (auto simp: s mk_move_fields bit_and_iff bit_not_iff k)
  note all = distinct_three [OF ep pro cap _ _ _ ep2 pro2 cap2]
  show "distinct (generate_checker_capture_moves p c)"
    "\<forall>m\<in>set (generate_checker_capture_moves p c). move_type m \<in> {ENPASSANT, CAPTURE_PROMOTION, CAPTURE} \<and> from_square m \<noteq> ?k"
    unfolding generate_checker_capture_moves_def Let_def using all by simp_all
qed

lemma checker_block_list:
  assumes "board_ok p" "has_king p c" "checkers_to p c \<noteq> 0"
  shows "distinct (generate_checker_block_moves p c)"
    and "\<forall>m\<in>set (generate_checker_block_moves p c). move_type m \<in> {DOUBLE_PUSH, PROMOTION, NORMAL} \<and> from_square m \<noteq> king_square p c"
proof -
  let ?k = "king_square p c" and ?between = "intervening (king_square p c) (checker_sq p c)" and ?pawns = "piece_type_color_bb p PAWN c"
  let ?shifted = "pawn_shift_bb ?between (opp c) 1"
  let ?two = "pawn_shift_bb (?shifted AND NOT (occupancy_bb p)) (opp c) 1 AND ?pawns AND relative_rank_mask 1 c"
  let ?dbl = "map (\<lambda>f. mk_move f (pawn_shift f c 2) DOUBLE_PUSH) (bb_squares ?two)"
  let ?push = "\<lambda>f. let target_sq = pawn_shift f c 1 in
      if c = WHITE \<and> sq_rank f = 6 \<or> c = BLACK \<and> sq_rank f = 1 then evasion_promotions f target_sq PROMOTION else [mk_move f target_sq NORMAL]"
  let ?sgl = "concat (map ?push (bb_squares (?shifted AND ?pawns)))"
  let ?pcs = "concat (map (\<lambda>t. map (\<lambda>f. mk_move f t NORMAL)
      (bb_squares (attackers_to_of p t c AND NOT (square_bb ?k OR ?pawns)))) (bb_squares ?between))"
  note k = king_square_has(1) [OF assms(2)]
  have two: "on_board (pawn_shift f c 2) \<and> has p f PAWN c" if "on_board f" "bit ?two (nat f)" for f
    using that pawn_shift_twice [of f c] by (simp add: gen_bits del: set_concat set_map cong: conj_cong)
  have one: "on_board (pawn_shift f c 1) \<and> has p f PAWN c" if "on_board f" "bit (?shifted AND ?pawns) (nat f)" for f
    using that by (simp add: gen_bits del: set_concat set_map cong: conj_cong)
  have dbl: "distinct ?dbl" by (rule distinct_map_keyed [where key = from_square]) (use two mk_move_fields(1) in blast)
  have dbl2: "\<forall>m\<in>set ?dbl. move_type m = DOUBLE_PUSH \<and> from_square m \<noteq> ?k"
    unfolding Ball_def mem_loop using two mk_move_fields(1,4) pawn_not_king [OF assms(1,2)] by metis
  have push: "distinct (?push f)" "\<forall>m\<in>set (?push f). from_square m = f" "\<forall>m\<in>set (?push f). move_type m \<in> {PROMOTION, NORMAL}"
    if "on_board f" "on_board (pawn_shift f c 1)" for f
    using distinct_promotions(2) [OF that] promotions_fields(1,3) [OF that] mk_move_fields(1,4) [OF that]
    by (simp_all add: mem_evasion_promotions Let_def)
  have sgl: "distinct ?sgl"
  proof (rule distinct_concat_keyed [where key = from_square], rule conjI)
    fix f assume f: "on_board f" "bit (?shifted AND ?pawns) (nat f)"
    show "distinct (?push f)" "\<forall>m\<in>set (?push f). from_square m = f" by (rule push [OF f(1) conjunct1 [OF one [OF f]]])+
  qed
  have sgl2: "\<forall>m\<in>set ?sgl. move_type m \<in> {PROMOTION, NORMAL} \<and> has p (from_square m) PAWN c"
  proof
    fix m assume "m \<in> set ?sgl"
    then obtain f where f: "on_board f" "bit (?shifted AND ?pawns) (nat f)" "m \<in> set (?push f)" unfolding mem_loop by blast
    note o = one [OF f(1,2)]
    show "move_type m \<in> {PROMOTION, NORMAL} \<and> has p (from_square m) PAWN c"
      using bspec [OF push(2) [OF f(1) conjunct1 [OF o]] f(3)] bspec [OF push(3) [OF f(1) conjunct1 [OF o]] f(3)] o by simp
  qed
  have pcs: "distinct ?pcs"
    by (rule distinct_concat_keyed [where key = to_square], rule conjI, rule distinct_map_keyed [where key = from_square])
      (auto simp: mk_move_fields)
  have pcs2: "\<forall>m\<in>set ?pcs. move_type m = NORMAL \<and> from_square m \<noteq> ?k \<and> \<not> has p (from_square m) PAWN c"
    by (auto simp: mk_move_fields bit_and_iff bit_not_iff bit_or_iff bit_piece_type_color k)
  have d: "distinct (?dbl @ ?sgl @ ?pcs)"
    by (intro distinct_append_by [where P = "\<lambda>m. move_type m = DOUBLE_PUSH"] distinct_append_by [where P = "\<lambda>m. has p (from_square m) PAWN c"] dbl sgl pcs)
      (use dbl2 sgl2 pcs2 in \<open>auto simp del: set_concat set_map\<close>)
  have t: "\<forall>m\<in>set (?dbl @ ?sgl @ ?pcs). move_type m \<in> {DOUBLE_PUSH, PROMOTION, NORMAL} \<and> from_square m \<noteq> ?k"
    using dbl2 sgl2 pcs2 pawn_not_king [OF assms(1,2)] by (auto simp del: set_concat set_map)
  show "distinct (generate_checker_block_moves p c)" unfolding generate_checker_block_moves_def Let_def
    using d by (simp add: Let_def del: distinct_append)
  show "\<forall>m\<in>set (generate_checker_block_moves p c). move_type m \<in> {DOUBLE_PUSH, PROMOTION, NORMAL} \<and> from_square m \<noteq> ?k"
    unfolding generate_checker_block_moves_def Let_def using t by (simp add: Let_def del: set_append set_concat set_map)
qed

lemma distinct_evasions:
  assumes "board_ok p" "ep_on_board p" "has_king p c" "checkers_to p c \<noteq> 0"
  shows "distinct (check_evasion_move_list p c)"
proof -
  note steps = king_step_list [OF assms(3)] and captures = checker_capture_list [OF assms] and blocks = checker_block_list [OF assms(1,3,4)]
  have rest: "distinct (generate_checker_capture_moves p c @ generate_checker_block_moves p c)"
    using captures(2) blocks(2)
    by (intro distinct_append_by [where P = "\<lambda>m. move_type m \<in> {ENPASSANT, CAPTURE_PROMOTION, CAPTURE}"] captures(1) blocks(1)) auto
  have away: "\<forall>m\<in>set (generate_checker_capture_moves p c @ generate_checker_block_moves p c). \<not> from_square m = king_square p c"
    using captures(2) blocks(2) by auto
  show ?thesis unfolding check_evasion_move_list_def Let_def
    using steps(1) distinct_append_by [OF steps(1) rest steps(2) away] by presburger
qed

lemma distinct_legal:
  assumes "game_ok p"
  shows "distinct (legal_move_list_of p (pos_side_to_move p))" "distinct (legal_move_list p)" "distinct (pseudo_legal_move_list p)"
proof -
  have g: "board_ok p" "rights_ok p" "ep_on_board p" "has_king p (pos_side_to_move p)"
    using assms ep_ok_on_board [of p] by (cases "pos_side_to_move p"; simp add: game_ok_def pos_ok_def)+
  show ps: "distinct (pseudo_legal_move_list p)" unfolding pseudo_legal_move_list_def in_check_def
    using distinct_evasions [OF g(1,3,4)] distinct_pseudo_legal_of [OF g(1-3)] by simp
  show l: "distinct (legal_move_list_of p (pos_side_to_move p))"
    using ps legal_list_mset [of p] by (metis distinct_filter mset_eq_imp_distinct_iff mset_filter)
  show "distinct (legal_move_list p)" using l by (simp add: legal_move_list_def)
qed

section \<open>Counting\<close>

text \<open>The loop over the moves of a position, with the recursive call as an argument; a count is a \<open>uint64_t\<close>.\<close>

fun perft_loop :: "(position \<Rightarrow> (64 word \<times> position) option) \<Rightarrow> move list \<Rightarrow> 64 word \<Rightarrow> position \<Rightarrow> (64 word \<times> position) option" where
  "perft_loop rec [] n pos = Some (n, pos)"
| "perft_loop rec (m # ms) n pos =
     Option.bind (rec (make_move m pos)) (\<lambda>(k, pos). perft_loop rec ms (n + k) (unmake_move pos))"

lemma perft_loop_mono [partial_function_mono]:
  assumes "\<And>q. mono_option (\<lambda>f. rec f q)"
  shows "mono_option (\<lambda>f. perft_loop (rec f) ms n pos)"
proof (induction ms arbitrary: n pos)
  case Nil
  show ?case by (simp add: option.const_mono)
next
  case (Cons m ms)
  have "mono_option (\<lambda>f. case x of (k, q) \<Rightarrow> perft_loop (rec f) ms (n + k) (unmake_move q))" for x
    using Cons by (cases x) simp
  then show ?case unfolding perft_loop.simps by (intro bind_mono assms)
qed

text \<open>A depth below one is not looked for: the recursion goes on below zero.\<close>

partial_function (option) do_perft :: "int \<Rightarrow> position \<Rightarrow> (64 word \<times> position) option" where
  "do_perft depth pos =
     (let move_list = legal_move_list pos
      in if depth = 1 then Some (word_of_nat (length move_list), pos)
         else perft_loop (do_perft (depth - 1)) move_list 0 pos)"

text \<open>The counts that the command \<open>perft\<close> prints, for each depth from one.\<close>

definition perft :: "position \<Rightarrow> int \<Rightarrow> (int \<times> 64 word) list option" where
  "perft pos depth =
     map_option fst (fold (\<lambda>d acc. Option.bind acc (\<lambda>(out, pos). Option.bind (do_perft d pos) (\<lambda>(n, pos). Some (out @ [(d, n)], pos))))
       [1..depth] (Some ([], pos)))"

section \<open>Lines of chess\<close>

text \<open>A line of play by the rules: no move once 150 half moves have passed or the position has come four times, else a move of the rules
  after which the mover's king is not attacked, and a line from there.\<close>

fun chess_line :: "position \<Rightarrow> move list \<Rightarrow> bool" where
  "chess_line p [] = True"
| "chess_line p (m # ms) =
     (halfmoves p < 150 \<and> \<not> is_repeat p 4 \<and> chess_move p (pos_side_to_move p) m \<and>
      \<not> attacked (make_move m p) (king_square (make_move m p) (pos_side_to_move p)) (opp (pos_side_to_move p)) \<and>
      chess_line (make_move m p) ms)"

definition lines_of :: "nat \<Rightarrow> position \<Rightarrow> move list set" where
  "lines_of n p = {ms. length ms = n \<and> chess_line p ms}"

lemma legal_is_chess:
  assumes "fair_game p"
  shows "m \<in> set (legal_move_list p) \<longleftrightarrow> halfmoves p < 150 \<and> \<not> is_repeat p 4 \<and> chess_move p (pos_side_to_move p) m \<and>
    \<not> attacked (make_move m p) (king_square (make_move m p) (pos_side_to_move p)) (opp (pos_side_to_move p))"
  using legal_iff [OF fair_movable [OF assms] refl, of m] by (auto simp: legal_move_list_def king_attacked_def)

lemma lines_of_Suc:
  assumes "fair_game p"
  shows "lines_of (Suc n) p = (\<Union>m\<in>set (legal_move_list p). Cons m ` lines_of n (make_move m p))"
proof (rule set_eqI)
  fix ms
  show "ms \<in> lines_of (Suc n) p \<longleftrightarrow> ms \<in> (\<Union>m\<in>set (legal_move_list p). Cons m ` lines_of n (make_move m p))"
    by (cases ms) (auto simp: lines_of_def legal_is_chess [OF assms])
qed

lemma fair_after:
  assumes "fair_game p" "m \<in> set (legal_move_list p)"
  shows "fair_game (make_move m p)" "unmake_move (make_move m p) = p"
proof -
  have m: "m \<in> set (legal_move_list_of p (pos_side_to_move p))" using assms(2) by (auto simp: legal_move_list_def split: if_splits)
  show "fair_game (make_move m p)" by (rule make_move_fair [OF assms(1) m])
  have g: "game_ok p" using assms(1) by (simp add: fair_game_def)
  show "unmake_move (make_move m p) = p" using unmake_make_move legal_move_fits(1) [OF g assms(2)] g
    by (simp add: game_ok_def move_fits_def)
qed

lemma lines_of_finite: "fair_game p \<Longrightarrow> finite (lines_of n p)"
proof (induction n arbitrary: p)
  case (Suc n)
  then show ?case using fair_after(1) by (simp add: lines_of_Suc)
qed (simp add: lines_of_def)

lemma card_lines_of_Suc:
  assumes "fair_game p"
  shows "card (lines_of (Suc n) p) = sum_list (map (\<lambda>m. card (lines_of n (make_move m p))) (legal_move_list p))"
proof -
  have d: "distinct (legal_move_list p)" using distinct_legal(2) assms by (simp add: fair_game_def)
  have "card (lines_of (Suc n) p) = (\<Sum>m\<in>set (legal_move_list p). card (Cons m ` lines_of n (make_move m p)))"
    unfolding lines_of_Suc [OF assms] using lines_of_finite fair_after(1) [OF assms] by (intro card_UN_disjoint) auto
  also have "\<dots> = (\<Sum>m\<in>set (legal_move_list p). card (lines_of n (make_move m p)))"
    by (simp add: card_image)
  finally show ?thesis by (simp add: sum_list_distinct_conv_sum_set d)
qed

lemma perft_loop_counts:
  assumes "\<forall>m\<in>set ms. unmake_move (make_move m p) = p \<and> rec (make_move m p) = Some (word_of_nat (f m), make_move m p)"
  shows "perft_loop rec ms k p = Some (k + word_of_nat (sum_list (map f ms)), p)"
  using assms by (induction ms arbitrary: k) (simp_all add: ac_simps)

lemma do_perft_counts:
  assumes "fair_game p"
  shows "do_perft (int (Suc n)) p = Some (word_of_nat (card (lines_of (Suc n) p)), p)"
  using assms
proof (induction n arbitrary: p)
  case 0
  have "lines_of 0 q = {[]}" for q by (auto simp: lines_of_def)
  then have "card (lines_of (Suc 0) p) = length (legal_move_list p)"
    by (simp add: card_lines_of_Suc [OF 0] sum_list_triv)
  then show ?case by (subst do_perft.simps) simp
next
  case (Suc n)
  have "\<forall>m\<in>set (legal_move_list p). unmake_move (make_move m p) = p \<and>
      do_perft (int (Suc n)) (make_move m p) = Some (word_of_nat (card (lines_of (Suc n) (make_move m p))), make_move m p)"
    using Suc.IH fair_after [OF Suc.prems] by blast
  from perft_loop_counts [OF this, of 0] show ?case
    by (subst do_perft.simps) (simp add: card_lines_of_Suc [OF Suc.prems])
qed

lemma do_perft_from_one:
  assumes "fair_game p" "1 \<le> d"
  shows "do_perft d p = Some (word_of_nat (card (lines_of (nat d) p)), p)"
proof -
  have "int (Suc (nat d - 1)) = d" "Suc (nat d - 1) = nat d" using assms(2) by simp_all
  then show ?thesis using do_perft_counts [OF assms(1), of "nat d - 1"] by metis
qed

lemma perft_reports:
  assumes "fair_game p" "\<forall>d\<in>set ds. d \<ge> 1"
  shows "fold (\<lambda>d acc. Option.bind acc (\<lambda>(out, pos). Option.bind (do_perft d pos) (\<lambda>(n, pos). Some (out @ [(d, n)], pos)))) ds (Some (out, p)) =
    Some (out @ map (\<lambda>d. (d, word_of_nat (card (lines_of (nat d) p)))) ds, p)"
  using assms(2)
proof (induction ds arbitrary: out)
  case (Cons d ds)
  have "do_perft d p = Some (word_of_nat (card (lines_of (nat d) p)), p)"
    by (rule do_perft_from_one [OF assms(1)]) (use Cons.prems in simp)
  then show ?case using Cons by simp
qed simp

section \<open>Properties\<close>

text \<open>C38 (functional). \<open>do_perft\<close>, started in a position of lawful play with a depth of at least one, returns: its count is, as a
  64-bit value, the number of lines of that length that the rules of chess allow, so no move is generated twice or left out in any
  position on the way, and the position is what it was.  The command reports these counts for every depth up to the one it is given.\<close>

theorem perft_counts_lines_of_chess:
  assumes "fair_game p0" "lawful p0 p" "depth \<ge> 1"
  shows "do_perft depth p = Some (word_of_nat (card {ms. length ms = nat depth \<and> chess_line p ms}), p) \<and>
    perft p depth = Some (map (\<lambda>d. (d, word_of_nat (card {ms. length ms = nat d \<and> chess_line p ms}))) [1..depth])"
proof -
  note f = lawful_fair [OF assms(2,1)]
  have "do_perft depth p = Some (word_of_nat (card (lines_of (nat depth) p)), p)"
    by (rule do_perft_from_one [OF f assms(3)])
  moreover have "perft p depth = Some (map (\<lambda>d. (d, word_of_nat (card (lines_of (nat d) p)))) [1..depth])"
    using perft_reports [OF f, of "[1..depth]" "[]"] by (simp add: perft_def)
  ultimately show ?thesis by (simp add: lines_of_def)
qed

theorem perft_counts_lines_of_chess_witness:
  "do_perft 2 small_game = Some (word_of_nat (card {ms. length ms = 2 \<and> chess_line small_game ms}), small_game)"
  using perft_counts_lines_of_chess [OF small_fair lawful.start, of 2] by simp

end
