(* ===== verification/Spec2Isabelle.thy ===== *)
theory Spec2Isabelle
  imports Deepening_Correct Searchers Uci_Correct Front_End Book San Web_Clocks Perft
begin

text \<open>
  Verification of the chess engine \<open>tinychess\<close> (the Dog engine and the libchess library it is built on).

  The program.  \<open>app/include/libchess\<close> is a header library: bitboards, attack lookups, positions, move generation, making and
  unmaking moves, FEN text and the UCI service.  \<open>app/src\<close> is the engine: a search (\<open>search.cpp\<close>) over libchess positions, ordered by
  histories and a transposition table (\<open>tt.cpp\<close>), with a neural evaluation kept up to date move by move (\<open>nnue.cpp\<close>, \<open>eval.cpp\<close>);
  \<open>main.cpp\<close>, which runs it in threads at the command of a UCI loop, with a time policy, an opening book and endgame tablebases; and
  a web server for two players' pages (\<open>web.cpp\<close>).  Modelled is the desktop build, except for \<open>web.cpp\<close>, which exists on the board only.

  The theories, in the order of the code.

  Prelude holds what all theories share: fact collections, lemmas on lists and words.
  Bitboards models \<open>Bitboard.h\<close> and \<open>internal/MetaValueType.h\<close>; Board_Types colours, files, ranks, squares and pieces (\<open>Color.h\<close> ..
  \<open>Piece.h\<close>); Moves the packed move word, its text, move lists and their sort (\<open>Move.h\<close>); Castling the four-bit rights.
  Attack_Tables holds the tables of \<open>attack-tables.h\<close>, Lookups the functions of \<open>Lookups.h\<close>; Leapers, Slider_Tables, Sliders and Lines
  prove that the lookups are the geometric attacks.
  Zobrist_Table holds the random keys; Positions models \<open>Position.h\<close>, \<open>Getters.h\<close>, \<open>Attacks.h\<close> and \<open>Zobrist.h\<close>: the board record,
  the stack of states, attackers, pins, repetition, the hash.
  Make_Move models \<open>MoveIntegration.h\<close>; Board_Ops states the interface of a board of pieces, Make_Move_Correct proves that moves keep
  the invariant, are undone exactly and keep the hash; After_Move says what stands where after a move.
  Move_Gen models \<open>MoveGeneration.h\<close> and the legality tests and game state of \<open>Getters.h\<close>.  Move_Gen_Correct, Evasions and
  Evasions_Complete compare the generators with rules stated square by square, Pins, Legality and Legal_Moves the legality tests
  with the rule that the mover's king is not attacked afterwards; Game holds the invariant of reachable positions, Fair_Play that of lawful
  play, with mate and stalemate, and Perft counts lines of play (\<open>do_perft\<close> of \<open>tui.cpp\<close>), after a proof that no move is generated twice.
  Texts models string functions of the C++ library and \<open>str.cpp\<close>; Fen models \<open>Utilities.h\<close>, Fen_Correct proves the FEN round trip,
  Exchange the flip, the exchange evaluation and text moves.
  Transposition models \<open>tt.cpp\<close>; Eval_Net models \<open>nnue.cpp\<close>, \<open>nnue_kernels.h\<close> and \<open>eval.cpp\<close>; Eval_Correct proves the incremental
  evaluation.
  Search_State holds the search parameters of \<open>main.h\<close>, the statistics of \<open>stats.h\<close> and the histories, the ordering and the draw tests of
  \<open>search.cpp\<close>; Quiescence its \<open>qs\<close>, Search its \<open>search\<close> with the table of \<open>lmr-red.h\<close> (Lmr_Table), Deepening its \<open>search_it\<close>.
  Quiescence_Correct compares \<open>qs\<close> with negamax.  Search_Frame states once what a search keeps, Search_Correct and Deepening_Correct
  derive that the board is restored, the histories stay in range, and a search that is told to stop does.
  Doubles is the arithmetic of \<open>double\<close>; Time_Policy models \<open>time_policy.h\<close> and the times \<open>go_handler\<close> computes; Searchers the threads of
  \<open>main.cpp\<close> and how they are commanded; Front_End its position handler and the tablebase probes of \<open>syzygy.cpp\<close>; Book models
  \<open>book.cpp\<close> and San models \<open>san.cpp\<close>.
  Uci and Uci_Service model \<open>UCIService.h\<close> and \<open>UCIOption.h\<close> with the options and commands the engine registers; Uci_Correct holds the
  round trip of a \<open>go\<close> line, the bounds of options and the order of calls.
  Web_Session models the session of \<open>web.cpp\<close>: seats, waiting list, clocks, pause, and moves searched beside the server;
  Web_Correct and Web_Clocks prove what the session keeps.

  How state corresponds.  A bitboard is a 64-bit word; a square is an integer from 0 to 63; a \<open>Move\<close> is its 32-bit word.  A \<open>Position\<close> is
  a record of the piece and colour boards, side, counters and the stack of \<open>State\<close>s; methods that mutate it return the new record.
  Optional values are options.  The table is a record of two optional entry lists (what \<open>malloc\<close> gave), its size and generation.  An
  accumulator is a function of the lane index to 16-bit words, so additions wrap as in the program.  The search parameters are a record with the
  position, the accumulators, the histories, the scratch buffers of the levels and the table; a search is a function from it to a fault, or to
  the score and the record afterwards.  The stop flag, which other threads set, is a function from the number of the read to its answer:
  theorems hold for every such function.  Counters of fixed width wrap; sums of \<open>int\<close> and \<open>int64_t\<close> that may overflow are brought back with
  \<open>to_int32\<close> and \<open>to_int64\<close>, as the compiled code wraps them.  Doubles are rationals, every operation followed by the rounding \<open>fl\<close>.
  Failed assertions, empty optionals and indices out of range are faults where the code can meet them (Book, San, Search), and a flag of the search
  parameters records the assertions of the history updates.

  Threads.  In Searchers an event is a critical section or a step between two, and a run is any interleaving; what a search may find is
  a parameter.  Within one search the table is not shared.  In Web_Session a request is one event, and the end of a search beside the server is two, the
  test whether its game is still on and the writes, because handlers that do not take the session's mutex can run in between.

  Locales.  \<open>piece_board\<close> is the contract of put, remove and move on a board; \<open>hashed_board\<close> adds an XOR digest, \<open>summed_board\<close> a sum in a
  commutative group; all are interpreted on the position's own operations, and give the undo lemmas, the incremental hash and the
  incremental evaluation.  \<open>slider\<close> is the contract of a sliding piece's lookup, interpreted for rook, bishop and queen.  \<open>lossy_cache\<close> is what the
  search may expect of the table, interpreted for both stores.  \<open>search_frame\<close> is a relation between the parameters before and after, kept by every
  step of a search, with the faults that may occur; \<open>histories\<close> interprets it with the history tables, \<open>stopping\<close> with the reads that
  are left when the flag has been set, \<open>steady\<close> with the reads alone.

  Loops and fuel.  A loop over the bits of a set is structural on the list of squares.  \<open>see_to\<close>, whose recursion the code does not bound,
  \<open>split\<close> and \<open>do_perft\<close> are partial functions in the option monad, and are proved to return.  \<open>qs\<close> recurses with
  127 minus its depth as fuel, which is the bound the code tests.  The extensions of \<open>search\<close> keep the depth, so it takes fuel for its nested
  calls, and \<open>search_it\<close> fuel for the turns of its loop: when the stop flag reads as set from some read on, the reads left before it
  are enough (\<open>search_stops_when_told\<close>, \<open>search_it_stops_when_told\<close>).  From level 63 on nodes share a buffer; a node whose moves have
  been overwritten is the fault \<open>Buffers_overwritten\<close>.

  What the properties show.  The moves generated are those of the rules, once each, and lawful play keeps the invariant; making and
  unmaking, hash and evaluation agree with their definitions from scratch; texts (FEN, SAN, \<open>go\<close> lines) round trip; the search
  restores its board, answers legally and can be stopped; an answer is for the position and the job of its \<open>go\<close>; the session of the web server keeps
  its game apart from older searches and from other clients.  Theorems named as errors state where the program falls short.

  Not modelled: the texts of \<open>emit_result\<close>, \<open>uci\<close>, \<open>info\<close> and \<open>bestmove\<close>, which only print; the Threads option, which replaces the searchers; the
  commands of \<open>main.cpp\<close> for playing, testing and measuring; the mutexes of the time policy; the SIMD and ESP32 variants of the kernels; the
  Fathom library, a parameter; the allocator beyond its result; generated weights (every fact about the evaluation holds for arbitrary
  ones); HTTP, JSON, the access point and the battery of the web server; the terminal interface, the hardware, the tuner, the
  output of statistics, the training scripts and the test suites.
\<close>

end
